(* ===== verification/Prelude.thy ===== *)
theory Prelude
  imports Complex_Main "HOL-Library.Char_ord" "HOL-Library.List_Lexorder"
begin

text \<open>
  What every component shares: error results and their sequencing, SQL statements over lists
  of rows, Python's text formatting and integer parsing, and the lemma collections
  \<open>tx_simps\<close> (facts that open a transaction which returned normally) and \<open>sql_simps\<close>
  (what a statement leaves in its table).
\<close>

named_theorems tx_simps
named_theorems sql_simps

text \<open>
  Timestamps are microseconds since the epoch: the resolution of Python's \<open>datetime\<close> and of
  Postgres' \<open>timestamptz\<close>. Durations in the settings are seconds, as in the code.
\<close>

type_synonym time = int
type_synonym duration = rat

text \<open>
  \<open>make_interval(secs => x)\<close> and \<open>timedelta(seconds=x)\<close>: to the nearest microsecond, ties
  to even.
\<close>

definition usecs :: "duration \<Rightarrow> int" where
  "usecs x =
     (let y = x * 1000000; f = \<lfloor>y\<rfloor>; r = y - of_int f
      in if r < 1 / 2 \<or> (r = 1 / 2 \<and> even f) then f else f + 1)"

lemma usecs_nonneg: "0 \<le> x \<Longrightarrow> 0 \<le> usecs x"
proof -
  assume "0 \<le> x"
  then have "0 \<le> \<lfloor>x * 1000000\<rfloor>" by simp
  then show ?thesis by (simp add: usecs_def Let_def)
qed

lemma usecs_0 [simp]: "usecs 0 = 0"
  by (simp add: usecs_def)

lemma usecs_ge_floor: "\<lfloor>x * 1000000\<rfloor> \<le> usecs x"
  by (simp add: usecs_def Let_def)

section \<open>Errors as values\<close>

fun bindS :: "'e + 'a \<Rightarrow> ('a \<Rightarrow> 'e + 'b) \<Rightarrow> 'e + 'b" where
  "bindS (Inl e) f = Inl e"
| "bindS (Inr a) f = f a"

lemma bindS_cong [fundef_cong]:
  "m = m' \<Longrightarrow> (\<And>a. m' = Inr a \<Longrightarrow> f a = f' a) \<Longrightarrow> bindS m f = bindS m' f'"
  by (cases m') auto

lemma bindS_Inr_iff [tx_simps]: "bindS m f = Inr b \<longleftrightarrow> (\<exists>a. m = Inr a \<and> f a = Inr b)"
  by (cases m) auto

lemma bindS_Inl_iff: "bindS m f = Inl e \<longleftrightarrow> m = Inl e \<or> (\<exists>a. m = Inr a \<and> f a = Inl e)"
  by (cases m) auto

lemma bindS_assoc: "bindS (bindS m f) g = bindS m (\<lambda>a. bindS (f a) g)"
  by (cases m) auto

text \<open>\<open>if not c: raise e\<close>\<close>

definition guard :: "bool \<Rightarrow> 'e \<Rightarrow> 'e + unit" where
  "guard c e = (if c then Inr () else Inl e)"

lemma guard_Inr [tx_simps]: "guard c e = Inr u \<longleftrightarrow> c"
  by (simp add: guard_def)

lemma guard_Inl: "guard c e = Inl e' \<longleftrightarrow> \<not> c \<and> e' = e"
  by (auto simp: guard_def)

lemma guard_True [simp]: "guard True e = Inr ()"
  by (simp add: guard_def)

lemma guard_False [simp]: "guard False e = Inl e"
  by (simp add: guard_def)

text \<open>A list comprehension whose element may raise.\<close>

fun mapS :: "('a \<Rightarrow> 'e + 'b) \<Rightarrow> 'a list \<Rightarrow> 'e + 'b list" where
  "mapS f [] = Inr []"
| "mapS f (x # xs) = bindS (f x) (\<lambda>y. bindS (mapS f xs) (\<lambda>ys. Inr (y # ys)))"

lemma mapS_Inr: "mapS f xs = Inr ys \<longleftrightarrow> list_all2 (\<lambda>x y. f x = Inr y) xs ys"
  by (induction xs arbitrary: ys) (auto simp: bindS_Inr_iff list_all2_Cons1)

section \<open>Statements over rows\<close>

text \<open>\<open>UPDATE t SET f WHERE p\<close>: every row that matches is rewritten in place.\<close>

definition sql_update :: "('a \<Rightarrow> bool) \<Rightarrow> ('a \<Rightarrow> 'a) \<Rightarrow> 'a list \<Rightarrow> 'a list" where
  "sql_update p f rows = map (\<lambda>r. if p r then f r else r) rows"

lemma length_sql_update [simp]: "length (sql_update p f rows) = length rows"
  by (simp add: sql_update_def)

lemma sql_update_Nil [simp]: "sql_update p f [] = []"
  by (simp add: sql_update_def)

lemma sql_update_Cons [simp]:
  "sql_update p f (r # rows) = (if p r then f r else r) # sql_update p f rows"
  by (simp add: sql_update_def)

lemma set_sql_update [sql_simps]:
  "r \<in> set (sql_update p f rows) \<longleftrightarrow>
     (\<exists>r0 \<in> set rows. r = (if p r0 then f r0 else r0))"
  by (auto simp: sql_update_def)

lemma sql_update_none: "(\<And>r. r \<in> set rows \<Longrightarrow> \<not> p r) \<Longrightarrow> sql_update p f rows = rows"
  by (induction rows) auto

lemma map_sql_update [sql_simps]:
  "(\<And>r. p r \<Longrightarrow> g (f r) = g r) \<Longrightarrow> map g (sql_update p f rows) = map g rows"
  by (induction rows) auto

lemma filter_sql_update_frame:
  "(\<And>r. p r \<Longrightarrow> \<not> q r \<and> \<not> q (f r)) \<Longrightarrow> filter q (sql_update p f rows) = filter q rows"
  by (induction rows) auto

lemma find_in_set: "find p xs = Some x \<Longrightarrow> x \<in> set xs \<and> p x"
  by (auto simp: find_Some_iff in_set_conv_nth)

lemma find_key_eq:
  assumes "distinct (map k xs)" "x \<in> set xs"
  shows "find (\<lambda>y. k y = k x) xs = Some x"
  using assms by (induction xs) auto

lemma find_cong_on: "(\<And>x. x \<in> set xs \<Longrightarrow> p x = q x) \<Longrightarrow> find p xs = find q xs"
  by (induction xs) auto

lemma find_append: "find p (xs @ ys) = (case find p xs of None \<Rightarrow> find p ys | Some x \<Rightarrow> Some x)"
  by (induction xs) auto

lemma find_sql_update_frame:
  "(\<And>r. p r \<Longrightarrow> q (f r) = q r) \<Longrightarrow> (\<And>r. p r \<Longrightarrow> \<not> q r) \<Longrightarrow> find q (sql_update p f rows) = find q rows"
  by (induction rows) auto

lemma find_sql_update_hit:
  assumes "find p rows = Some r" and "\<And>r. p r \<Longrightarrow> p (f r)"
  shows "find p (sql_update p f rows) = Some (f r)"
  using assms(1) by (induction rows) (auto simp: assms(2) split: if_splits)

lemma distinct_key_inj:
  "distinct (map k xs) \<Longrightarrow> x \<in> set xs \<Longrightarrow> y \<in> set xs \<Longrightarrow> k x = k y \<Longrightarrow> x = y"
  by (simp add: distinct_map inj_on_def)

text \<open>An \<open>Identity\<close> column: larger than every id in the table.\<close>

definition next_id :: "nat list \<Rightarrow> nat" where
  "next_id ids = Suc (foldr max ids 0)"

lemma foldr_max_ge: "x \<in> set ids \<Longrightarrow> x \<le> foldr max ids (0 :: nat)"
  by (induction ids) auto

lemma next_id_gt: "x \<in> set ids \<Longrightarrow> x < next_id ids"
  using foldr_max_ge by (fastforce simp: next_id_def less_Suc_eq_le)

lemma next_id_fresh: "next_id ids \<notin> set ids"
  using next_id_gt by blast

lemma next_id_Nil [simp]: "next_id [] = 1"
  by (simp add: next_id_def)

text \<open>\<open>ORDER BY ... LIMIT 1\<close>: the first row in the strict order \<open>lt\<close>.\<close>

fun least_by :: "('a \<Rightarrow> 'a \<Rightarrow> bool) \<Rightarrow> 'a list \<Rightarrow> 'a option" where
  "least_by lt [] = None"
| "least_by lt (x # xs) =
     (case least_by lt xs of None \<Rightarrow> Some x | Some y \<Rightarrow> Some (if lt y x then y else x))"

lemma least_by_None [simp]: "least_by lt xs = None \<longleftrightarrow> xs = []"
  by (cases xs) (auto split: option.splits)

lemma least_by_mem: "least_by lt xs = Some x \<Longrightarrow> x \<in> set xs"
  by (induction xs arbitrary: x) (auto split: option.splits if_splits)

lemma least_by_minimal:
  fixes key :: "'a \<Rightarrow> 'b :: linorder"
  assumes "least_by (\<lambda>a b. key a < key b) xs = Some x" and "y \<in> set xs"
  shows "key x \<le> key y"
  using assms
proof (induction xs arbitrary: x)
  case Nil
  then show ?case by simp
next
  case (Cons a xs)
  show ?case
  proof (cases "least_by (\<lambda>a b. key a < key b) xs")
    case None
    with Cons.prems show ?thesis by auto
  next
    case (Some m)
    have x: "x = (if key m < key a then m else a)" using Cons.prems(1) Some by simp
    show ?thesis
    proof (cases "y = a")
      case True
      with x show ?thesis by auto
    next
      case False
      with Cons.prems(2) have "key m \<le> key y" using Cons.IH [OF Some] by simp
      with x show ?thesis by auto
    qed
  qed
qed

section \<open>Text\<close>

text \<open>Python strings are \<open>string\<close>s: one character per code point, the code points below 256.\<close>

fun join :: "string \<Rightarrow> string list \<Rightarrow> string" where
  "join sep [] = []"
| "join sep [x] = x"
| "join sep (x # y # xs) = x @ sep @ join sep (y # xs)"

definition starts_with :: "string \<Rightarrow> string \<Rightarrow> bool" where
  "starts_with p s \<longleftrightarrow> take (length p) s = p"

lemma starts_with_append [simp]: "starts_with p (p @ s)"
  by (simp add: starts_with_def)

text \<open>\<open>str(n)\<close> for a natural number.\<close>

fun dec :: "nat \<Rightarrow> string" where
  "dec n = (if n < 10 then [char_of (48 + n)] else dec (n div 10) @ [char_of (48 + n mod 10)])"

declare dec.simps [simp del]

definition is_digit :: "char \<Rightarrow> bool" where
  "is_digit c \<longleftrightarrow> (48 :: nat) \<le> of_char c \<and> of_char c \<le> (57 :: nat)"

definition digit :: "char \<Rightarrow> nat" where
  "digit c = of_char c - 48"

definition undec :: "string \<Rightarrow> nat" where
  "undec s = foldl (\<lambda>n c. n * 10 + digit c) 0 s"

lemma digit_char [simp]: "d < (10 :: nat) \<Longrightarrow> digit (char_of (48 + d)) = d"
  by (simp add: digit_def of_char_of)

lemma is_digit_char [simp]: "d < (10 :: nat) \<Longrightarrow> is_digit (char_of (48 + d))"
  by (simp add: is_digit_def of_char_of)

lemma undec_dec [simp]: "undec (dec n) = n"
proof (induction n rule: dec.induct)
  case (1 n)
  show ?case
  proof (cases "n < 10")
    case True
    then show ?thesis by (subst dec.simps) (simp add: undec_def)
  next
    case False
    then have "undec (dec n) = undec (dec (n div 10)) * 10 + n mod 10"
      by (subst dec.simps) (simp add: undec_def)
    with False 1 show ?thesis by simp
  qed
qed

lemma dec_inject [simp]: "dec m = dec n \<longleftrightarrow> m = n"
  by (metis undec_dec)

lemma dec_digits: "c \<in> set (dec n) \<Longrightarrow> is_digit c"
proof (induction n rule: dec.induct)
  case (1 n)
  have "\<not> n < 10 \<Longrightarrow> c \<in> set (dec n) \<Longrightarrow> c \<in> set (dec (n div 10)) \<or> c = char_of (48 + n mod 10)"
    by (subst (asm) dec.simps) auto
  moreover have "n < 10 \<Longrightarrow> c \<in> set (dec n) \<Longrightarrow> c = char_of (48 + n)"
    by (subst (asm) dec.simps) auto
  ultimately show ?case using 1 by (cases "n < 10") (auto dest: is_digit_char)
qed

lemma dec_nonempty [simp]: "dec n \<noteq> []"
  by (subst dec.simps) simp

definition dec_int :: "int \<Rightarrow> string" where
  "dec_int i = (if i < 0 then ''-'' @ dec (nat (- i)) else dec (nat i))"

lemma dec_int_inject [simp]: "dec_int i = dec_int j \<longleftrightarrow> i = j"
proof
  assume eq: "dec_int i = dec_int j"
  have minus: "CHR ''-'' \<notin> set (dec n)" for n
    using dec_digits [of "CHR ''-''" n] by (auto simp: is_digit_def)
  show "i = j"
  proof (cases "i < 0"; cases "j < 0")
    assume "i < 0" "j < 0"
    then show ?thesis using eq by (simp add: dec_int_def)
  next
    assume "i < 0" "\<not> j < 0"
    then have "''-'' @ dec (nat (- i)) = dec (nat j)" using eq by (simp add: dec_int_def)
    with minus [of "nat j"] show ?thesis by (metis append_Cons list.set_intros(1))
  next
    assume "\<not> i < 0" "j < 0"
    then have "dec (nat i) = ''-'' @ dec (nat (- j))" using eq by (simp add: dec_int_def)
    with minus [of "nat i"] show ?thesis by (metis append_Cons list.set_intros(1))
  next
    assume "\<not> i < 0" "\<not> j < 0"
    then show ?thesis using eq by (simp add: dec_int_def)
  qed
qed simp

text \<open>
  Two texts with a number in the middle are equal only if everything is: what follows the
  number starts with a character that is no digit.
\<close>

lemma digits_prefix_unique:
  assumes "xs @ c # ys = xs' @ c' # ys'"
    and "\<forall>x \<in> set xs. is_digit x" "\<forall>x \<in> set xs'. is_digit x" "\<not> is_digit c" "\<not> is_digit c'"
  shows "xs = xs' \<and> c = c' \<and> ys = ys'"
  using assms
proof (induction xs arbitrary: xs')
  case Nil
  then show ?case by (cases xs') auto
next
  case (Cons x xs)
  then show ?case by (cases xs') auto
qed

lemma dec_prefix_unique:
  "dec m @ c # ys = dec n @ c' # ys' \<Longrightarrow> \<not> is_digit c \<Longrightarrow> \<not> is_digit c' \<Longrightarrow> m = n \<and> c = c' \<and> ys = ys'"
  using digits_prefix_unique [of "dec m" c ys "dec n" c' ys'] dec_digits by auto

text \<open>
  Python's \<open>int(s)\<close>: surrounding blanks, an optional sign, decimal digits with
  single underscores between them. \<open>None\<close> is \<open>ValueError\<close>.
\<close>

definition is_space :: "char \<Rightarrow> bool" where
  "is_space c \<longleftrightarrow> of_char c \<in> {9, 10, 11, 12, 13, 28, 29, 30, 31, 32, 133, 160 :: nat}"

definition strip :: "string \<Rightarrow> string" where
  "strip s = rev (dropWhile is_space (rev (dropWhile is_space s)))"

fun py_digits :: "nat \<Rightarrow> string \<Rightarrow> nat option" where
  "py_digits n [] = Some n"
| "py_digits n [c] = (if is_digit c then Some (n * 10 + digit c) else None)"
| "py_digits n (c # d # s) =
     (if is_digit c then py_digits (n * 10 + digit c) (d # s)
      else if c = CHR ''_'' \<and> is_digit d then py_digits n (d # s)
      else None)"

fun py_unsigned :: "string \<Rightarrow> nat option" where
  "py_unsigned [] = None"
| "py_unsigned (c # s) = (if is_digit c then py_digits 0 (c # s) else None)"

definition py_int :: "string \<Rightarrow> int option" where
  "py_int s =
     (case strip s of
        [] \<Rightarrow> None
      | c # r \<Rightarrow>
          if c = CHR ''-'' then map_option (\<lambda>n. - int n) (py_unsigned r)
          else if c = CHR ''+'' then map_option int (py_unsigned r)
          else map_option int (py_unsigned (c # r)))"

text \<open>Upper and lower case; on the other code points below 256 no result is an ASCII name.\<close>

definition upper_char :: "char \<Rightarrow> char" where
  "upper_char c = (let n = (of_char c :: nat) in if 97 \<le> n \<and> n \<le> 122 then char_of (n - 32) else c)"

definition lower_char :: "char \<Rightarrow> char" where
  "lower_char c = (let n = (of_char c :: nat) in if 65 \<le> n \<and> n \<le> 90 then char_of (n + 32) else c)"

text \<open>\<open>s.partition(c)\<close> for a one-character separator: before it, and after it.\<close>

fun partition_at :: "char \<Rightarrow> string \<Rightarrow> string \<times> string" where
  "partition_at sep [] = ([], [])"
| "partition_at sep (c # s) =
     (if c = sep then ([], s) else (let (a, b) = partition_at sep s in (c # a, b)))"

text \<open>\<open>f"{x:.Nf}"\<close> for a number that is not negative: rounded half to even, \<open>k\<close> decimals.\<close>

definition round_even :: "rat \<Rightarrow> int" where
  "round_even y =
     (let f = \<lfloor>y\<rfloor>; r = y - of_int f in if r < 1 / 2 \<or> (r = 1 / 2 \<and> even f) then f else f + 1)"

fun zeros :: "nat \<Rightarrow> string \<Rightarrow> string" where
  "zeros n s = replicate (n - length s) CHR ''0'' @ s"

definition fmt_fixed :: "nat \<Rightarrow> rat \<Rightarrow> string" where
  "fmt_fixed k x =
     (let n = nat (round_even (x * 10 ^ k)); w = dec (n div 10 ^ k)
      in if k = 0 then w else w @ ''.'' @ zeros k (dec (n mod 10 ^ k)))"

text \<open>\<open>f"{x:.0%}"\<close>.\<close>

definition fmt_percent :: "rat \<Rightarrow> string" where
  "fmt_percent x = dec (nat (round_even (x * 100))) @ ''%''"

text \<open>\<open>sorted(set(xs))\<close> on strings.\<close>

definition sorted_set :: "string list \<Rightarrow> string list" where
  "sorted_set xs = sort (remdups xs)"

lemma set_sorted_set [simp]: "set (sorted_set xs) = set xs"
  by (simp add: sorted_set_def)

lemma sorted_sorted_set [simp]: "sorted (sorted_set xs)"
  by (simp add: sorted_set_def)

lemma distinct_sorted_set [simp]: "distinct (sorted_set xs)"
  by (simp add: sorted_set_def)

end
