(* ===== verification/Json.thy ===== *)
theory Json
  imports Prelude
begin

text \<open>
  JSON values and their one canonical text (\<open>app/tools/base.py\<close>), which every hash of the
  program is taken over.

  A character stands for one code point below 256 (so lengths are Python's \<open>len\<close>); the two
  code points above it that the code itself writes, U+2026 and U+FFFD, are the characters
  \<open>ellipsis\<close> and \<open>replacement_char\<close>. A float is its Python \<open>repr\<close>, a dictionary the
  list of its items in insertion order.
\<close>

datatype json =
    JNull
  | JBool bool
  | JInt int
  | JFloat string
  | JStr string
  | JArr "json list"
  | JObj "(string \<times> json) list"

definition ellipsis :: char where
  "ellipsis = char_of (183 :: nat)"

definition replacement_char :: char where
  "replacement_char = char_of (191 :: nat)"

definition jget :: "(string \<times> json) list \<Rightarrow> string \<Rightarrow> json option" where
  "jget kvs k = map_of kvs k"

section \<open>Canonical text\<close>

text \<open>The escapes of \<open>json.dumps(..., ensure_ascii=False)\<close>.\<close>

definition hex_digit :: "nat \<Rightarrow> char" where
  "hex_digit n = (if n < 10 then char_of (48 + n) else char_of (87 + n))"

text \<open>Python's \<open>repr\<close> of a string.\<close>

definition repr_char :: "char \<Rightarrow> char \<Rightarrow> string" where
  "repr_char q c =
     (let n = (of_char c :: nat)
      in if c = q \<or> c = CHR 0x5C then [CHR 0x5C, c]
         else if n = 9 then [CHR 0x5C, CHR ''t'']
         else if n = 10 then [CHR 0x5C, CHR ''n'']
         else if n = 13 then [CHR 0x5C, CHR ''r'']
         else if n < 32 \<or> (127 \<le> n \<and> n \<le> 160) \<or> n = 173
           then [CHR 0x5C, CHR ''x'', hex_digit (n div 16), hex_digit (n mod 16)]
         else [c])"

definition py_repr :: "string \<Rightarrow> string" where
  "py_repr s =
     (let q = (if CHR 0x27 \<in> set s \<and> CHR 0x22 \<notin> set s then CHR 0x22 else CHR 0x27)
      in q # concat (map (repr_char q) s) @ [q])"

text \<open>Python's \<open>repr\<close> and \<open>str\<close> of a decoded value.\<close>

primrec json_repr :: "json \<Rightarrow> string" where
  "json_repr JNull = ''None''"
| "json_repr (JBool b) = (if b then ''True'' else ''False'')"
| "json_repr (JInt i) = dec_int i"
| "json_repr (JFloat t) = t"
| "json_repr (JStr s) = py_repr s"
| "json_repr (JArr xs) = ''['' @ join '', '' (map json_repr xs) @ '']''"
| "json_repr (JObj kvs) =
     ''{'' @ join '', '' (map (\<lambda>kv. py_repr (fst kv) @ '': '' @ snd kv) (map (map_prod id json_repr) kvs)) @ ''}''"

definition json_str :: "json \<Rightarrow> string" where
  "json_str j = (case j of JStr s \<Rightarrow> s | _ \<Rightarrow> json_repr j)"

text \<open>\<open>bool(x)\<close>; a float of the value 0 is not written in JSON answers with other digits than these.\<close>

fun truthy :: "json \<Rightarrow> bool" where
  "truthy JNull = False"
| "truthy (JBool b) = b"
| "truthy (JInt i) = (i \<noteq> 0)"
| "truthy (JFloat t) = (t \<noteq> ''0.0'' \<and> t \<noteq> ''-0.0'')"
| "truthy (JStr s) = (s \<noteq> [])"
| "truthy (JArr xs) = (xs \<noteq> [])"
| "truthy (JObj kvs) = (kvs \<noteq> [])"

definition esc_char :: "char \<Rightarrow> string" where
  "esc_char c =
     (let n = (of_char c :: nat)
      in if c = CHR 0x22 then [CHR 0x5C, CHR 0x22]
         else if c = CHR 0x5C then [CHR 0x5C, CHR 0x5C]
         else if n = 8 then [CHR 0x5C, CHR ''b'']
         else if n = 12 then [CHR 0x5C, CHR ''f'']
         else if n = 10 then [CHR 0x5C, CHR ''n'']
         else if n = 13 then [CHR 0x5C, CHR ''r'']
         else if n = 9 then [CHR 0x5C, CHR ''t'']
         else if n < 32 then [CHR 0x5C, CHR ''u'', CHR ''0'', CHR ''0'', hex_digit (n div 16), hex_digit (n mod 16)]
         else [c])"

definition esc :: "string \<Rightarrow> string" where
  "esc s = concat (map esc_char s)"

definition quoted :: "string \<Rightarrow> string" where
  "quoted s = CHR 0x22 # esc s @ [CHR 0x22]"

definition item_text :: "string \<times> string \<Rightarrow> string" where
  "item_text kv = quoted (fst kv) @ '':'' @ snd kv"

text \<open>
  \<open>json.dumps(value, sort_keys=True, separators=(",", ":"), ensure_ascii=False)\<close>.
\<close>

primrec canonical_json :: "json \<Rightarrow> string" where
  "canonical_json JNull = ''null''"
| "canonical_json (JBool b) = (if b then ''true'' else ''false'')"
| "canonical_json (JInt i) = dec_int i"
| "canonical_json (JFloat t) = t"
| "canonical_json (JStr s) = quoted s"
| "canonical_json (JArr xs) = ''['' @ join '','' (map canonical_json xs) @ '']''"
| "canonical_json (JObj kvs) =
     ''{'' @ join '','' (map item_text (sort_key fst (map (map_prod id canonical_json) kvs))) @ ''}''"

text \<open>Two values are the same data when they agree up to the order of their keys.\<close>

primrec normal :: "json \<Rightarrow> json" where
  "normal JNull = JNull"
| "normal (JBool b) = JBool b"
| "normal (JInt i) = JInt i"
| "normal (JFloat t) = JFloat t"
| "normal (JStr s) = JStr s"
| "normal (JArr xs) = JArr (map normal xs)"
| "normal (JObj kvs) = JObj (sort_key fst (map (map_prod id normal) kvs))"

text \<open>The \<open>repr\<close> of a finite float: a number token with a point or an exponent.\<close>

definition float_char :: "char \<Rightarrow> bool" where
  "float_char c \<longleftrightarrow> is_digit c \<or> c \<in> {CHR ''-'', CHR ''+'', CHR ''.'', CHR ''e''}"

definition float_text :: "string \<Rightarrow> bool" where
  "float_text t \<longleftrightarrow>
     t \<noteq> [] \<and> (is_digit (hd t) \<or> hd t = CHR ''-'') \<and> list_all float_char t \<and>
     (CHR ''.'' \<in> set t \<or> CHR ''e'' \<in> set t)"

primrec wf_json :: "json \<Rightarrow> bool" where
  "wf_json JNull = True"
| "wf_json (JBool b) = True"
| "wf_json (JInt i) = True"
| "wf_json (JFloat t) = float_text t"
| "wf_json (JStr s) = True"
| "wf_json (JArr xs) = list_all id (map wf_json xs)"
| "wf_json (JObj kvs) = list_all (\<lambda>kv. snd kv) (map (map_prod id wf_json) kvs)"

section \<open>The canonical text determines the data\<close>

fun hex_value :: "char \<Rightarrow> nat" where
  "hex_value c = (if is_digit c then digit c else of_char c - 87)"

definition unesc_simple :: "char \<Rightarrow> char option" where
  "unesc_simple c =
     (if c = CHR ''b'' then Some (char_of (8 :: nat)) else if c = CHR ''f'' then Some (char_of (12 :: nat))
      else if c = CHR ''n'' then Some (char_of (10 :: nat)) else if c = CHR ''r'' then Some (char_of (13 :: nat))
      else if c = CHR ''t'' then Some (char_of (9 :: nat)) else Some c)"

text \<open>What \<open>json.loads\<close> does with the next character of a string.\<close>

fun unesc_char :: "string \<Rightarrow> (char \<times> string) option" where
  "unesc_char [] = None"
| "unesc_char (c # r) =
     (if c \<noteq> CHR 0x5C then Some (c, r)
      else case r of
        [] \<Rightarrow> None
      | e # r' \<Rightarrow>
          if e \<noteq> CHR ''u'' then map_option (\<lambda>d. (d, r')) (unesc_simple e)
          else case r' of
            a # b # x # y # r'' \<Rightarrow> Some (char_of (hex_value x * 16 + hex_value y), r'')
          | _ \<Rightarrow> None)"

lemma hex_value_digit: "n < 16 \<Longrightarrow> hex_value (hex_digit n) = n"
  by (cases "n < 10") (simp_all add: hex_digit_def is_digit_def of_char_of)

lemma unesc_char_esc: "unesc_char (esc_char c @ r) = Some (c, r)"
proof -
  have h: "char_of (of_char c div 16 * 16 + of_char c mod 16 :: nat) = c" by simp
  have chr: "of_char c = n \<Longrightarrow> char_of n = c" for n by auto
  show ?thesis
    by (auto simp: esc_char_def Let_def unesc_simple_def hex_value_digit h chr simp del: hex_value.simps)
qed

lemma esc_char_first: "\<exists>d ds. esc_char c = d # ds \<and> d \<noteq> CHR 0x22"
  by (auto simp: esc_char_def Let_def)

lemma esc_unique:
  "esc s @ CHR 0x22 # r = esc s' @ CHR 0x22 # r' \<Longrightarrow> s = s' \<and> r = r'"
proof (induction s arbitrary: s')
  case Nil
  show ?case
  proof (cases s')
    case Nil
    with Nil.prems show ?thesis by (simp add: esc_def)
  next
    case (Cons c cs)
    with Nil.prems esc_char_first [of c] show ?thesis by (auto simp: esc_def)
  qed
next
  case (Cons c s)
  show ?case
  proof (cases s')
    case Nil
    with Cons.prems esc_char_first [of c] show ?thesis by (auto simp: esc_def)
  next
    case (Cons c' t)
    with Cons.prems have eq: "esc_char c @ (esc s @ CHR 0x22 # r) = esc_char c' @ (esc t @ CHR 0x22 # r')"
      by (simp add: esc_def)
    then have "Some (c, esc s @ CHR 0x22 # r) = Some (c', esc t @ CHR 0x22 # r')"
      by (metis unesc_char_esc)
    with Cons.IH [of t] Cons show ?thesis by simp
  qed
qed

lemma quoted_unique: "quoted s @ r = quoted s' @ r' \<Longrightarrow> s = s' \<and> r = r'"
  using esc_unique [of s r s' r'] by (simp add: quoted_def)

text \<open>
  After a value comes the end of the text or one of three characters. A text after which
  this tells where it ends is self-delimiting; \<open>unique_text e x\<close> says so for \<open>e\<close> at
  \<open>x\<close>.
\<close>

definition ended :: "string \<Rightarrow> bool" where
  "ended r \<longleftrightarrow> r = [] \<or> hd r \<in> {CHR '','', CHR '']'', CHR ''}''}"

definition unique_text :: "('a \<Rightarrow> string) \<Rightarrow> ('a \<Rightarrow> bool) \<Rightarrow> 'a \<Rightarrow> bool" where
  "unique_text e ok x \<longleftrightarrow>
     (\<forall>y r r'. ok y \<longrightarrow> e x @ r = e y @ r' \<longrightarrow> ended r \<longrightarrow> ended r' \<longrightarrow> x = y \<and> r = r')"

lemma ended_simps [simp]:
  "ended []" "ended (CHR '','' # r)" "ended (CHR '']'' # r)" "ended (CHR ''}'' # r)"
  by (simp_all add: ended_def)

definition opens :: "('a \<Rightarrow> string) \<Rightarrow> ('a \<Rightarrow> bool) \<Rightarrow> bool" where
  "opens e ok \<longleftrightarrow> (\<forall>x. ok x \<longrightarrow> (\<exists>c cs. e x = c # cs \<and> c \<notin> {CHR '','', CHR '']'', CHR ''}''}))"

lemma join_Cons: "join sep (x # xs) = x @ (if xs = [] then [] else sep @ join sep xs)"
  by (cases xs) auto

lemma join_unique:
  assumes "opens e ok" and "c \<in> {CHR '']'', CHR ''}''}"
    and "list_all (unique_text e ok) xs" "list_all ok xs" "list_all ok ys"
    and "join '','' (map e xs) @ c # r = join '','' (map e ys) @ c # r'"
  shows "xs = ys \<and> r = r'"
  using assms(3-)
proof (induction xs arbitrary: ys)
  case Nil
  show ?case
  proof (cases ys)
    case Nil
    with Nil.prems show ?thesis by simp
  next
    case (Cons y ys')
    then obtain d ds where "e y = d # ds" "d \<noteq> c"
      using Nil.prems(3) assms(1,2) unfolding opens_def by fastforce
    with Nil.prems(4) Cons show ?thesis by (simp add: join_Cons)
  qed
next
  case (Cons x xs)
  show ?case
  proof (cases ys)
    case Nil
    obtain d ds where "e x = d # ds" "d \<noteq> c"
      using Cons.prems(2) assms(1,2) unfolding opens_def by fastforce
    with Cons.prems(4) Nil show ?thesis by (simp add: join_Cons)
  next
    case (Cons y ys')
    let ?t = "\<lambda>zs s. (if zs = [] then [] else '','' @ join '','' (map e zs)) @ c # s"
    have "e x @ ?t xs r = e y @ ?t ys' r'"
      using Cons.prems(4) Cons by (simp add: join_Cons)
    moreover have "ended (?t xs r)" "ended (?t ys' r')" using assms(2) by auto
    moreover have "unique_text e ok x" "ok y" using Cons.prems Cons by auto
    ultimately have "x = y \<and> ?t xs r = ?t ys' r'"
      unfolding unique_text_def by blast
    then have xy: "x = y" and t: "?t xs r = ?t ys' r'" by simp_all
    have "c \<noteq> CHR '',''" using assms(2) by auto
    with t have "join '','' (map e xs) @ c # r = join '','' (map e ys') @ c # r'"
      by (cases "xs = []"; cases "ys' = []") (simp_all only: if_True if_False append_Nil append_Cons append_assoc list.inject refl simp_thms)
    with Cons.IH [of ys'] Cons.prems(1-3) Cons xy show ?thesis by simp
  qed
qed

text \<open>Number tokens: characters of numbers followed by one that is none.\<close>

lemma float_ended: "ended r \<Longrightarrow> r = [] \<or> \<not> float_char (hd r)"
  by (auto simp: ended_def float_char_def is_digit_def)

lemma token_unique:
  assumes "t @ r = t' @ r'" "list_all float_char t" "list_all float_char t'" "ended r" "ended r'"
  shows "t = t' \<and> r = r'"
  using assms
proof (induction t arbitrary: t')
  case Nil
  then show ?case using float_ended [of r] by (cases t') auto
next
  case (Cons c t)
  then show ?case using float_ended [of r'] by (cases t') auto
qed

lemma dec_int_chars: "list_all float_char (dec_int i)"
  using dec_digits by (auto simp: dec_int_def list_all_iff float_char_def)

lemma dec_int_no_float: "\<not> float_text (dec_int i)"
proof -
  have "c \<noteq> CHR ''.'' \<and> c \<noteq> CHR ''e''" if "c \<in> set (dec n)" for c n
    using dec_digits [OF that] by (auto simp: is_digit_def)
  then show ?thesis by (auto simp: float_text_def dec_int_def)
qed

text \<open>The first character tells the kind of a value apart; numbers are digits or a minus.\<close>

definition kind_char :: "json \<Rightarrow> char" where
  "kind_char j = (case j of
       JNull \<Rightarrow> CHR ''n'' | JBool b \<Rightarrow> (if b then CHR ''t'' else CHR ''f'')
     | JInt i \<Rightarrow> CHR ''0'' | JFloat t \<Rightarrow> CHR ''0''
     | JStr s \<Rightarrow> CHR 0x22 | JArr xs \<Rightarrow> CHR ''['' | JObj kvs \<Rightarrow> CHR ''{'')"

definition kind_of :: "char \<Rightarrow> char" where
  "kind_of c = (if is_digit c \<or> c = CHR ''-'' then CHR ''0'' else c)"

lemma dec_first: "\<exists>c cs. dec n = c # cs \<and> is_digit c"
  using dec_digits [of "hd (dec n)" n] by (cases "dec n") auto

lemma canonical_first:
  assumes "wf_json j"
  shows "\<exists>c cs. canonical_json j = c # cs \<and> kind_of c = kind_char j"
proof (cases j)
  case (JInt i)
  then show ?thesis
    using dec_first [of "nat i"] by (auto simp: dec_int_def kind_of_def kind_char_def)
next
  case (JFloat t)
  with assms show ?thesis
    by (cases t) (auto simp: float_text_def kind_of_def kind_char_def)
qed (auto simp: kind_of_def kind_char_def quoted_def is_digit_def)

lemma kind_not_end: "kind_of c = kind_char j \<Longrightarrow> c \<notin> {CHR '','', CHR '']'', CHR ''}''}"
proof
  assume k: "kind_of c = kind_char j" and "c \<in> {CHR '','', CHR '']'', CHR ''}''}"
  then have "kind_of c \<in> {CHR '','', CHR '']'', CHR ''}''}" by (auto simp: kind_of_def is_digit_def)
  with k have "kind_char j \<in> {CHR '','', CHR '']'', CHR ''}''}" by simp
  then show False by (cases j) (auto simp: kind_char_def split: if_splits)
qed

lemma canonical_opens: "opens canonical_json wf_json"
  unfolding opens_def using canonical_first kind_not_end by blast

text \<open>
  For the proof, dictionaries whose items are already sorted are printed without sorting:
  \<open>plain_json\<close> prints a normal form, and \<open>canonical_json\<close> is \<open>plain_json\<close> of it.
\<close>

primrec plain_json :: "json \<Rightarrow> string" where
  "plain_json JNull = ''null''"
| "plain_json (JBool b) = (if b then ''true'' else ''false'')"
| "plain_json (JInt i) = dec_int i"
| "plain_json (JFloat t) = t"
| "plain_json (JStr s) = quoted s"
| "plain_json (JArr xs) = ''['' @ join '','' (map plain_json xs) @ '']''"
| "plain_json (JObj kvs) = ''{'' @ join '','' (map item_text (map (map_prod id plain_json) kvs)) @ ''}''"

lemma sort_key_map_values:
  "sort_key fst (map (map_prod id f) kvs) = map (map_prod id f) (sort_key fst kvs)"
proof -
  have ins: "insort_key fst (map_prod id f x) (map (map_prod id f) ys) = map (map_prod id f) (insort_key fst x ys)"
    for x and ys by (induction ys) auto
  show ?thesis
  proof (induction kvs)
    case (Cons x kvs)
    then show ?case by (simp only: list.map sort_key_simps ins)
  qed simp
qed

lemma canonical_plain: "canonical_json j = plain_json (normal j)"
proof (induction j)
  case (JArr xs)
  then show ?case by (simp cong: map_cong)
next
  case (JObj kvs)
  have "map (map_prod id canonical_json) kvs = map (map_prod id plain_json) (map (map_prod id normal) kvs)"
    using JObj by (auto simp: map_prod_def split: prod.splits)
  then show ?case
    by (simp only: canonical_json.simps normal.simps plain_json.simps sort_key_map_values [of plain_json])
qed simp_all

lemma wf_normal: "wf_json j \<Longrightarrow> wf_json (normal j)"
proof (induction j)
  case (JArr xs)
  then show ?case by (auto simp: list_all_iff)
next
  case (JObj kvs)
  then show ?case by (fastforce simp: list_all_iff)
qed simp_all

lemma plain_first:
  assumes "wf_json j"
  shows "\<exists>c cs. plain_json j = c # cs \<and> kind_of c = kind_char j"
proof (cases j)
  case (JInt i)
  then show ?thesis
    using dec_first [of "nat i"] by (auto simp: dec_int_def kind_of_def kind_char_def)
next
  case (JFloat t)
  with assms show ?thesis
    by (cases t) (auto simp: float_text_def kind_of_def kind_char_def)
qed (auto simp: kind_of_def kind_char_def quoted_def is_digit_def)

lemma plain_opens: "opens plain_json wf_json"
  unfolding opens_def using plain_first kind_not_end by blast

abbreviation plain_item :: "string \<times> json \<Rightarrow> string" where
  "plain_item kv \<equiv> item_text (map_prod id plain_json kv)"

lemma plain_item_unique:
  "unique_text plain_json wf_json (snd kv) \<Longrightarrow> unique_text plain_item (wf_json \<circ> snd) kv"
  unfolding unique_text_def
proof (intro allI impI)
  fix y r r'
  assume u: "\<forall>y r r'. wf_json y \<longrightarrow> plain_json (snd kv) @ r = plain_json y @ r' \<longrightarrow> ended r \<longrightarrow>
      ended r' \<longrightarrow> snd kv = y \<and> r = r'"
    and y: "(wf_json \<circ> snd) y" and e: "plain_item kv @ r = plain_item y @ r'" "ended r" "ended r'"
  from e(1) have "quoted (fst kv) @ ('':'' @ plain_json (snd kv) @ r) = quoted (fst y) @ ('':'' @ plain_json (snd y) @ r')"
    by (simp add: item_text_def)
  note q = quoted_unique [OF this]
  then have "fst kv = fst y" "plain_json (snd kv) @ r = plain_json (snd y) @ r'"
    by simp_all
  with u y e show "kv = y \<and> r = r'" by (auto simp: prod_eq_iff)
qed

lemma plain_item_opens: "opens plain_item (wf_json \<circ> snd)"
  by (auto simp: opens_def item_text_def quoted_def)

lemma same_kind:
  assumes "wf_json j" "wf_json k" "plain_json j @ r = plain_json k @ r'"
  shows "kind_char j = kind_char k"
proof -
  obtain c cs d ds where "plain_json j = c # cs" "kind_of c = kind_char j" "plain_json k = d # ds"
    "kind_of d = kind_char k" using plain_first assms(1,2) by metis
  with assms(3) show ?thesis by simp
qed

lemma plain_unique: "wf_json j \<Longrightarrow> unique_text plain_json wf_json j"
proof (induction j)
  case (JArr xs)
  have "list_all (unique_text plain_json wf_json) xs" using JArr by (auto simp: list_all_iff)
  note arr = join_unique [OF plain_opens _ this]
  show ?case unfolding unique_text_def
  proof (intro allI impI)
    fix y r r'
    assume y: "wf_json y" and e: "plain_json (JArr xs) @ r = plain_json y @ r'"
    from same_kind [OF JArr.prems y e] obtain ys where ys: "y = JArr ys"
      by (cases y) (auto simp: kind_char_def split: if_splits)
    have "xs = ys \<and> r = r'"
      by (rule arr) (use JArr.prems y e ys in \<open>auto simp: list_all_iff\<close>)
    with ys show "JArr xs = y \<and> r = r'" by simp
  qed
next
  case (JObj kvs)
  have "list_all (unique_text plain_item (wf_json \<circ> snd)) kvs"
    using JObj plain_item_unique by (fastforce simp: list_all_iff)
  note obj = join_unique [OF plain_item_opens _ this]
  show ?case unfolding unique_text_def
  proof (intro allI impI)
    fix y r r'
    assume y: "wf_json y" and e: "plain_json (JObj kvs) @ r = plain_json y @ r'"
    from same_kind [OF JObj.prems y e] obtain ys where ys: "y = JObj ys"
      by (cases y) (auto simp: kind_char_def split: if_splits)
    have "kvs = ys \<and> r = r'"
      by (rule obj) (use JObj.prems y e ys in \<open>auto simp: list_all_iff comp_def\<close>)
    with ys show "JObj kvs = y \<and> r = r'" by simp
  qed
next
  case (JStr s)
  show ?case unfolding unique_text_def
  proof (intro allI impI)
    fix y r r'
    assume y: "wf_json y" and e: "plain_json (JStr s) @ r = plain_json y @ r'"
    from same_kind [OF JStr.prems y e] obtain s' where s': "y = JStr s'"
      by (cases y) (auto simp: kind_char_def split: if_splits)
    with e quoted_unique [of s r s' r'] show "JStr s = y \<and> r = r'" by simp
  qed
next
  case (JInt i)
  show ?case unfolding unique_text_def
  proof (intro allI impI)
    fix y r r'
    assume y: "wf_json y" and e: "plain_json (JInt i) @ r = plain_json y @ r'" "ended r" "ended r'"
    from same_kind [OF JInt.prems y e(1)] have "(\<exists>k. y = JInt k) \<or> (\<exists>t. y = JFloat t)"
      by (cases y) (auto simp: kind_char_def split: if_splits)
    then show "JInt i = y \<and> r = r'"
    proof (elim disjE exE)
      fix k assume k: "y = JInt k"
      with token_unique [of "dec_int i" r "dec_int k" r'] e dec_int_chars show ?thesis by simp
    next
      fix u assume u: "y = JFloat u"
      with y have "list_all float_char u" "float_text u" by (simp_all add: float_text_def)
      with token_unique [of "dec_int i" r u r'] e u dec_int_chars have "dec_int i = u" by simp
      with \<open>float_text u\<close> dec_int_no_float [of i] show ?thesis by simp
    qed
  qed
next
  case (JFloat t)
  show ?case unfolding unique_text_def
  proof (intro allI impI)
    fix y r r'
    assume y: "wf_json y" and e: "plain_json (JFloat t) @ r = plain_json y @ r'" "ended r" "ended r'"
    have t: "list_all float_char t" "float_text t" using JFloat.prems by (auto simp: float_text_def)
    from same_kind [OF JFloat.prems y e(1)] have "(\<exists>k. y = JInt k) \<or> (\<exists>t. y = JFloat t)"
      by (cases y) (auto simp: kind_char_def split: if_splits)
    then show "JFloat t = y \<and> r = r'"
    proof (elim disjE exE)
      fix k assume k: "y = JInt k"
      with token_unique [of t r "dec_int k" r'] e t dec_int_chars have "t = dec_int k" by simp
      with t dec_int_no_float show ?thesis by simp
    next
      fix u assume u: "y = JFloat u"
      with y have "list_all float_char u" by (simp add: float_text_def)
      with token_unique [of t r u r'] e t u show ?thesis by simp
    qed
  qed
next
  case JNull
  show ?case unfolding unique_text_def
  proof (intro allI impI)
    fix y r r'
    assume y: "wf_json y" and e: "plain_json JNull @ r = plain_json y @ r'"
    from same_kind [OF JNull y e] have "y = JNull"
      by (cases y) (auto simp: kind_char_def split: if_splits)
    with e show "JNull = y \<and> r = r'" by simp
  qed
next
  case (JBool b)
  show ?case unfolding unique_text_def
  proof (intro allI impI)
    fix y r r'
    assume y: "wf_json y" and e: "plain_json (JBool b) @ r = plain_json y @ r'"
    from same_kind [OF JBool y e] have "y = JBool b"
      by (cases y) (auto simp: kind_char_def split: if_splits)
    with e show "JBool b = y \<and> r = r'" by (simp split: if_splits)
  qed
qed

lemma canonical_normal:
  assumes "wf_json j" "wf_json k" "canonical_json j = canonical_json k"
  shows "normal j = normal k"
  using plain_unique [OF wf_normal [OF assms(1)]] wf_normal [OF assms(2)] assms(3)
  unfolding unique_text_def canonical_plain by (metis append_Nil2 ended_simps(1))

lemma normal_canonical: "normal j = normal k \<Longrightarrow> canonical_json j = canonical_json k"
  by (simp add: canonical_plain)

section \<open>Looking up keys\<close>

lemma map_of_insort: "map_of (insort_key fst x xs) = map_of (x # xs)"
  by (induction xs) (auto simp: fun_eq_iff)

lemma map_of_sort_key: "map_of (sort_key fst xs) = map_of xs"
  by (induction xs) (auto simp: map_of_insort fun_eq_iff)

text \<open>Equal objects agree at every key; this is how the fields of a record are read back.\<close>

lemma normal_obj_at:
  assumes "normal (JObj a) = normal (JObj b)"
  shows "map_option normal (map_of a k) = map_option normal (map_of b k)"
proof -
  have m: "map_of (map (map_prod id normal) xs) k = map_option normal (map_of xs k)" for xs
    by (induction xs) auto
  have "map_of (sort_key fst (map (map_prod id normal) a)) = map_of (sort_key fst (map (map_prod id normal) b))"
    using assms by simp
  then have "map_of (map (map_prod id normal) a) k = map_of (map (map_prod id normal) b) k"
    by (simp only: map_of_sort_key)
  then show ?thesis by (simp only: m)
qed

lemma normal_scalar [simp]:
  "normal j = JStr s \<longleftrightarrow> j = JStr s" "normal j = JInt i \<longleftrightarrow> j = JInt i"
  "normal j = JNull \<longleftrightarrow> j = JNull" "normal j = JBool b \<longleftrightarrow> j = JBool b"
  by (cases j; auto)+

definition jopt :: "('a \<Rightarrow> json) \<Rightarrow> 'a option \<Rightarrow> json" where
  "jopt f x = (case x of None \<Rightarrow> JNull | Some a \<Rightarrow> f a)"

definition jstrs :: "string list \<Rightarrow> json" where
  "jstrs xs = JArr (map JStr xs)"

lemma normal_jstrs [simp]: "normal (jstrs xs) = jstrs xs"
  by (induction xs) (simp_all add: jstrs_def)

lemma jstrs_inject [simp]: "jstrs xs = jstrs ys \<longleftrightarrow> xs = ys"
  by (simp add: jstrs_def inj_def inj_map_eq_map)

lemma wf_jstrs [simp]: "wf_json (jstrs xs)"
  by (simp add: jstrs_def list_all_iff)

section \<open>Hashes\<close>

text \<open>
  \<open>hashlib.sha256(text.encode()).hexdigest()\<close> is a parameter \<open>sha\<close> of every definition that
  hashes. No theorem assumes it to be injective: a theorem about a hash says that two hashed
  values agree or that the two texts are a collision of \<open>sha\<close>.
\<close>

definition collision :: "(string \<Rightarrow> string) \<Rightarrow> string \<Rightarrow> string \<Rightarrow> bool" where
  "collision sha x y \<longleftrightarrow> x \<noteq> y \<and> sha x = sha y"

lemma same_hash_same_data:
  assumes "sha (canonical_json j) = sha (canonical_json k)" "wf_json j" "wf_json k"
  shows "normal j = normal k \<or> collision sha (canonical_json j) (canonical_json k)"
  using canonical_normal [OF assms(2,3)] assms(1) unfolding collision_def by blast

end
