(* ===== verification/Actions.thy ===== *)
theory Actions
  imports Json
begin

text \<open>
  The action catalogue (\<open>app/remediation/actions.py\<close>) and remediation plans with the hash
  approvals bind to (\<open>app/remediation/plans.py\<close>). Shown: the order of the risks, that a plan's
  hash pins the incident, the sequence number and every field of the plan.
\<close>

section \<open>Risks\<close>

datatype risk = R0 | R1 | R2 | R3 | R4

definition RISKS :: "risk list" where
  "RISKS = [R0, R1, R2, R3, R4]"

fun index_of :: "'a \<Rightarrow> 'a list \<Rightarrow> nat option" where
  "index_of x [] = None"
| "index_of x (y # ys) = (if x = y then Some 0 else map_option Suc (index_of x ys))"

text \<open>\<open>RISKS.index(risk)\<close>; every risk is in the tuple.\<close>

definition risk_rank :: "risk \<Rightarrow> nat" where
  "risk_rank r = (case index_of r RISKS of Some i \<Rightarrow> i | None \<Rightarrow> 0)"

lemma risk_rank_simps [simp]:
  "risk_rank R0 = 0" "risk_rank R1 = 1" "risk_rank R2 = 2" "risk_rank R3 = 3" "risk_rank R4 = 4"
  by (simp_all add: risk_rank_def RISKS_def)

lemma risk_rank_inject [simp]: "risk_rank a = risk_rank b \<longleftrightarrow> a = b"
  by (cases a; cases b) simp_all

instantiation risk :: linorder
begin

definition less_eq_risk :: "risk \<Rightarrow> risk \<Rightarrow> bool" where
  "less_eq_risk a b \<longleftrightarrow> risk_rank a \<le> risk_rank b"

definition less_risk :: "risk \<Rightarrow> risk \<Rightarrow> bool" where
  "less_risk a b \<longleftrightarrow> risk_rank a < risk_rank b"

instance
  by standard (auto simp: less_eq_risk_def less_risk_def)

end

fun risk_text :: "risk \<Rightarrow> string" where
  "risk_text R0 = ''R0''"
| "risk_text R1 = ''R1''"
| "risk_text R2 = ''R2''"
| "risk_text R3 = ''R3''"
| "risk_text R4 = ''R4''"

section \<open>Actions\<close>

text \<open>
  The branches of the union \<open>Action\<close>: target, cited evidence and reason first, then what the
  branch adds.
\<close>

datatype action =
    RolloutUndo (a_deployment: string) (a_evidence_ids: "string list") (a_reason: string) (a_to_revision: "int option")
  | RestartDeployment (a_deployment: string) (a_evidence_ids: "string list") (a_reason: string)
  | ScaleDeployment (a_deployment: string) (a_evidence_ids: "string list") (a_reason: string) (a_replicas: int)

fun action_kind :: "action \<Rightarrow> string" where
  "action_kind (RolloutUndo d e r v) = ''rollout_undo''"
| "action_kind (RestartDeployment d e r) = ''restart_deployment''"
| "action_kind (ScaleDeployment d e r n) = ''scale_deployment''"

text \<open>The pattern \<open>^[a-z0-9]([-a-z0-9]{0,61}[a-z0-9])?$\<close>.\<close>

definition name_char :: "char \<Rightarrow> bool" where
  "name_char c \<longleftrightarrow> is_digit c \<or> (97 :: nat) \<le> of_char c \<and> of_char c \<le> (122 :: nat)"

definition k8s_name :: "string \<Rightarrow> bool" where
  "k8s_name s \<longleftrightarrow>
     s \<noteq> [] \<and> length s \<le> 63 \<and> name_char (hd s) \<and> name_char (last s) \<and>
     list_all (\<lambda>c. name_char c \<or> c = CHR ''-'') s"

text \<open>What the pydantic models accept.\<close>

definition valid_action :: "action \<Rightarrow> bool" where
  "valid_action a \<longleftrightarrow>
     k8s_name (a_deployment a) \<and>
     1 \<le> length (a_evidence_ids a) \<and> length (a_evidence_ids a) \<le> 6 \<and> length (a_reason a) \<le> 400 \<and>
     (case a of
        RolloutUndo d e r v \<Rightarrow> (case v of None \<Rightarrow> True | Some n \<Rightarrow> 1 \<le> n)
      | RestartDeployment d e r \<Rightarrow> True
      | ScaleDeployment d e r n \<Rightarrow> 1 \<le> n \<and> n \<le> 10)"

record action_info =
  ai_risk :: risk
  ai_inverse :: string
  ai_evidence_tools :: "string list"

definition CATALOGUE :: "(string \<times> action_info) list" where
  "CATALOGUE =
     [(''rollout_undo'',
       \<lparr>ai_risk = R3, ai_inverse = ''roll the Deployment back to the revision it was on before'',
        ai_evidence_tools = [''rollout_history'', ''deploy_diff'']\<rparr>),
      (''restart_deployment'',
       \<lparr>ai_risk = R2, ai_inverse = ''none needed: a rolling restart of a stateless service'', ai_evidence_tools = []\<rparr>),
      (''scale_deployment'',
       \<lparr>ai_risk = R2, ai_inverse = ''scale back to the replica count it had before'', ai_evidence_tools = []\<rparr>)]"

definition catalogue :: "string \<Rightarrow> action_info option" where
  "catalogue k = map_of CATALOGUE k"

lemma catalogue_action: "\<exists>info. catalogue (action_kind a) = Some info \<and> ai_risk info \<in> {R2, R3}"
  by (cases a) (simp_all add: catalogue_def CATALOGUE_def)

lemma catalogue_rollback:
  "catalogue ''rollout_undo'' = Some info \<Longrightarrow>
     ai_risk info = R3 \<and> ai_evidence_tools info = [''rollout_history'', ''deploy_diff'']"
  by (auto simp: catalogue_def CATALOGUE_def)

lemma catalogue_risk: "catalogue k = Some info \<Longrightarrow> ai_risk info \<in> {R2, R3} \<and> ai_inverse info \<noteq> []"
  by (auto simp: catalogue_def CATALOGUE_def split: if_splits)

section \<open>Plans\<close>

record alternative =
  alt_action :: string
  alt_why_not :: string

record remediation_plan =
  rp_summary :: string
  rp_actions :: "action list"
  rp_alternatives :: "alternative list"
  rp_no_action_reason :: "string option"

definition valid_plan :: "remediation_plan \<Rightarrow> bool" where
  "valid_plan p \<longleftrightarrow>
     length (rp_summary p) \<le> 600 \<and>
     length (rp_actions p) \<le> 2 \<and> list_all valid_action (rp_actions p) \<and>
     length (rp_alternatives p) \<le> 4 \<and>
     list_all (\<lambda>a. alt_action a \<in> {''rollout_undo'', ''restart_deployment'', ''scale_deployment'', ''none''} \<and>
       length (alt_why_not a) \<le> 300) (rp_alternatives p) \<and>
     (case rp_no_action_reason p of None \<Rightarrow> True | Some r \<Rightarrow> length r \<le> 400)"

definition rp_cited :: "remediation_plan \<Rightarrow> string list" where
  "rp_cited p = remdups (concat (map a_evidence_ids (rp_actions p)))"

text \<open>\<open>model_dump(mode="json")\<close> of an action, an alternative and a plan.\<close>

fun action_json :: "action \<Rightarrow> json" where
  "action_json (RolloutUndo d e r v) =
     JObj [(''deployment'', JStr d), (''evidence_ids'', jstrs e), (''reason'', JStr r),
           (''action'', JStr ''rollout_undo''), (''to_revision'', jopt JInt v)]"
| "action_json (RestartDeployment d e r) =
     JObj [(''deployment'', JStr d), (''evidence_ids'', jstrs e), (''reason'', JStr r),
           (''action'', JStr ''restart_deployment'')]"
| "action_json (ScaleDeployment d e r n) =
     JObj [(''deployment'', JStr d), (''evidence_ids'', jstrs e), (''reason'', JStr r),
           (''action'', JStr ''scale_deployment''), (''replicas'', JInt n)]"

definition alternative_json :: "alternative \<Rightarrow> json" where
  "alternative_json a = JObj [(''action'', JStr (alt_action a)), (''why_not'', JStr (alt_why_not a))]"

definition plan_json :: "remediation_plan \<Rightarrow> json" where
  "plan_json p =
     JObj [(''summary'', JStr (rp_summary p)),
           (''actions'', JArr (map action_json (rp_actions p))),
           (''alternatives'', JArr (map alternative_json (rp_alternatives p))),
           (''no_action_reason'', jopt JStr (rp_no_action_reason p))]"

definition describe :: "remediation_plan \<Rightarrow> json" where
  "describe p = JArr (map action_json (rp_actions p))"

definition plan_hash :: "(string \<Rightarrow> string) \<Rightarrow> string \<Rightarrow> nat \<Rightarrow> remediation_plan \<Rightarrow> string" where
  "plan_hash sha incident_id seq plan =
     sha (canonical_json (JArr [JStr incident_id, JInt (int seq), plan_json plan]))"

section \<open>The hash pins the plan\<close>

lemma jopt_JInt [simp]: "normal (jopt JInt v) = normal (jopt JInt w) \<longleftrightarrow> v = w"
  by (cases v; cases w) (simp_all add: jopt_def)

lemma jopt_JStr [simp]: "normal (jopt JStr v) = normal (jopt JStr w) \<longleftrightarrow> v = w"
  by (cases v; cases w) (simp_all add: jopt_def)

lemma action_json_kind:
  assumes "normal (action_json a) = normal (action_json b)"
  shows "action_kind a = action_kind b"
  using assms
  by (cases a; cases b) (auto simp del: normal.simps dest!: normal_obj_at [where k = "''action''"] simp: normal.simps(5))

lemma action_json_fields:
  assumes "normal (action_json a) = normal (action_json b)"
  shows "a_deployment a = a_deployment b \<and> a_evidence_ids a = a_evidence_ids b \<and> a_reason a = a_reason b"
proof -
  obtain ka where ka: "action_json a = JObj ka" by (cases a) auto
  obtain kb where kb: "action_json b = JObj kb" by (cases b) auto
  note at = normal_obj_at [OF assms [unfolded ka kb]]
  have get: "map_of ks ''deployment'' = Some (JStr (a_deployment c)) \<and>
      map_of ks ''evidence_ids'' = Some (jstrs (a_evidence_ids c)) \<and> map_of ks ''reason'' = Some (JStr (a_reason c))"
    if "action_json c = JObj ks" for c ks
    using that by (cases c) auto
  show ?thesis
    using at [of "''deployment''"] at [of "''evidence_ids''"] at [of "''reason''"] get [OF ka] get [OF kb]
    by simp
qed

lemma action_json_inject: "normal (action_json a) = normal (action_json b) \<longleftrightarrow> a = b"
proof
  assume n: "normal (action_json a) = normal (action_json b)"
  from n have k: "action_kind a = action_kind b" by (rule action_json_kind)
  from n have f: "a_deployment a = a_deployment b \<and> a_evidence_ids a = a_evidence_ids b \<and> a_reason a = a_reason b"
    by (rule action_json_fields)
  show "a = b"
  proof (cases a)
    case (RolloutUndo d e r v)
    then obtain d' e' r' v' where b: "b = RolloutUndo d' e' r' v'" using k by (cases b) auto
    from normal_obj_at [OF n [unfolded RolloutUndo b action_json.simps], of "''to_revision''"]
    have "v = v'" by simp
    with RolloutUndo b f show ?thesis by simp
  next
    case (RestartDeployment d e r)
    then obtain d' e' r' where "b = RestartDeployment d' e' r'" using k by (cases b) auto
    with RestartDeployment f show ?thesis by simp
  next
    case (ScaleDeployment d e r v)
    then obtain d' e' r' v' where b: "b = ScaleDeployment d' e' r' v'" using k by (cases b) auto
    from normal_obj_at [OF n [unfolded ScaleDeployment b action_json.simps], of "''replicas''"]
    have "v = v'" by simp
    with ScaleDeployment b f show ?thesis by simp
  qed
qed simp

lemma alternative_json_inject: "normal (alternative_json a) = normal (alternative_json b) \<longleftrightarrow> a = b"
proof
  assume n: "normal (alternative_json a) = normal (alternative_json b)"
  from normal_obj_at [OF n [unfolded alternative_json_def], of "''action''"]
    normal_obj_at [OF n [unfolded alternative_json_def], of "''why_not''"]
  show "a = b" by (cases a; cases b) simp
qed simp

lemma map_normal_inject:
  "(\<And>a b. normal (f a) = normal (f b) \<Longrightarrow> a = b) \<Longrightarrow>
   normal (JArr (map f xs)) = normal (JArr (map f ys)) \<Longrightarrow> xs = ys"
proof (induction xs arbitrary: ys)
  case (Cons x xs)
  then show ?case by (cases ys) auto
qed simp

lemma plan_json_inject: "normal (plan_json p) = normal (plan_json q) \<longleftrightarrow> p = q"
proof
  assume n: "normal (plan_json p) = normal (plan_json q)"
  note at = normal_obj_at [OF n [unfolded plan_json_def]]
  have acts: "normal (JArr (map action_json (rp_actions p))) = normal (JArr (map action_json (rp_actions q)))"
    using at [of "''actions''"] by (simp del: normal.simps)
  have alts: "normal (JArr (map alternative_json (rp_alternatives p))) =
      normal (JArr (map alternative_json (rp_alternatives q)))"
    using at [of "''alternatives''"] by (simp del: normal.simps)
  have "rp_actions p = rp_actions q"
    by (rule map_normal_inject [OF _ acts]) (simp add: action_json_inject)
  moreover have "rp_alternatives p = rp_alternatives q"
    by (rule map_normal_inject [OF _ alts]) (simp add: alternative_json_inject)
  ultimately show "p = q"
    using at [of "''summary''"] at [of "''no_action_reason''"] by (cases p; cases q) simp
qed simp

lemma wf_action_json: "wf_json (action_json a)"
  by (cases a) (simp_all add: jopt_def split: option.splits)

lemma wf_plan_json: "wf_json (plan_json p)"
  by (simp add: plan_json_def alternative_json_def jopt_def list_all_iff wf_action_json split: option.splits)

text \<open>The text that is hashed.\<close>

definition plan_text :: "string \<Rightarrow> nat \<Rightarrow> remediation_plan \<Rightarrow> string" where
  "plan_text incident_id seq p = canonical_json (JArr [JStr incident_id, JInt (int seq), plan_json p])"

lemma plan_hash_pins:
  assumes "plan_hash sha i n p = plan_hash sha j m q"
  shows "(i = j \<and> n = m \<and> p = q) \<or> collision sha (plan_text i n p) (plan_text j m q)"
proof -
  have "normal (JArr [JStr i, JInt (int n), plan_json p]) = normal (JArr [JStr j, JInt (int m), plan_json q])
      \<or> collision sha (plan_text i n p) (plan_text j m q)"
    using same_hash_same_data [OF assms [unfolded plan_hash_def]] by (auto simp: wf_plan_json plan_text_def simp del: normal.simps)
  then show ?thesis by (auto simp: plan_json_inject)
qed

end
