(* ===== verification/Policy.thy ===== *)
theory Policy
  imports Actions
begin

text \<open>
  The policy engine (\<open>app/remediation/policy.py\<close>): every check on a plan, the change window, the
  verdict. The one thing in it that raises is the parsing of the window, and the plan is then
  denied. Shown: what \<open>allow\<close> and \<open>require_approval\<close> mean, for every action of the plan.
\<close>

section \<open>Context and checks\<close>

record evidence_ref =
  er_tool :: string
  er_args :: "(string \<times> json) list"

record policy_context =
  px_incident_service :: string
  px_root_causes :: "(string \<times> rat) list"
  px_evidence :: "(string \<times> evidence_ref) list"
  px_namespace :: string
  px_allowed_targets :: "string list"
  px_min_confidence :: rat
  px_auto_max_risk :: risk
  px_change_window :: string
  px_now :: int

datatype verdict = Allow | RequireApproval | Deny

text \<open>One check of the policy, as the column \<open>checks\<close> stores it.\<close>

record check =
  c_name :: string
  c_ok :: bool
  c_detail :: string
  c_blocking :: bool
  c_action :: "nat option"

record decision =
  dn_verdict :: verdict
  dn_risk :: "risk option"
  dn_checks :: "check list"

definition mk_check :: "string \<Rightarrow> bool \<Rightarrow> string \<Rightarrow> nat option \<Rightarrow> check" where
  "mk_check name ok detail action =
     \<lparr>c_name = name, c_ok = ok, c_detail = detail, c_blocking = True, c_action = action\<rparr>"

definition decision_failed :: "decision \<Rightarrow> check list" where
  "decision_failed dn = filter (\<lambda>c. \<not> c_ok c) (dn_checks dn)"

definition decision_reasons :: "decision \<Rightarrow> string" where
  "decision_reasons dn =
     (let failed = decision_failed dn;
          blocking = filter c_blocking failed;
          bad = (if blocking = [] then failed else blocking);
          t = join ''; '' (map c_detail bad)
      in if t = [] then ''all checks passed'' else t)"

definition check_json :: "check \<Rightarrow> json" where
  "check_json c =
     JObj [(''name'', JStr (c_name c)), (''ok'', JBool (c_ok c)), (''detail'', JStr (c_detail c)),
           (''blocking'', JBool (c_blocking c)), (''action'', jopt (\<lambda>n. JInt (int n)) (c_action c))]"

section \<open>The change window\<close>

text \<open>What \<open>_clock\<close> raises: \<open>int\<close> on a text that is no number, \<open>time\<close> out of range.\<close>

datatype clock_error = BadInt string | BadHour int | BadMinute int

definition int_of_text :: "string \<Rightarrow> clock_error + int" where
  "int_of_text s = (case py_int s of None \<Rightarrow> Inl (BadInt s) | Some n \<Rightarrow> Inr n)"

text \<open>\<open>time.max\<close>: the last microsecond of a day. A time of day is its microseconds.\<close>

definition day_us :: int where
  "day_us = 86400000000"

definition time_max :: int where
  "time_max = 86399999999"

definition clock_of :: "string \<Rightarrow> clock_error + int" where
  "clock_of value =
     (let (hours, minutes) = partition_at CHR '':'' (strip value)
      in bindS (int_of_text hours) (\<lambda>h.
         bindS (if minutes = [] then Inr 0 else int_of_text minutes) (\<lambda>m.
           if h = 24 \<and> m = 0 then Inr time_max
           else if h < 0 \<or> 23 < h then Inl (BadHour h)
           else if m < 0 \<or> 59 < m then Inl (BadMinute m)
           else Inr ((h * 60 + m) * 60000000))))"

definition inside_window :: "int \<Rightarrow> int \<Rightarrow> int \<Rightarrow> bool" where
  "inside_window start end_at now =
     (if start \<le> end_at then start \<le> now \<and> now < end_at else start \<le> now \<or> now < end_at)"

definition two_digits :: "int \<Rightarrow> string" where
  "two_digits n = zeros 2 (dec (nat n))"

definition window_check :: "policy_context \<Rightarrow> clock_error + check" where
  "window_check ctx =
     (let (start_s, end_s) = partition_at CHR ''-'' (px_change_window ctx)
      in bindS (clock_of start_s) (\<lambda>start.
         bindS (clock_of end_s) (\<lambda>end_at.
           let now = px_now ctx mod day_us;
               inside = inside_window start end_at now;
               where_text = (if inside then ''inside'' else ''outside'')
           in Inr (mk_check ''change_window'' inside
                (two_digits (now div 3600000000) @ '':'' @ two_digits (now div 60000000 mod 60) @ '' UTC is '' @
                 where_text @ '' the change window '' @ px_change_window ctx @ '' UTC'') None))))"

section \<open>Checks of one action\<close>

definition scope_check :: "string \<Rightarrow> policy_context \<Rightarrow> nat \<Rightarrow> check" where
  "scope_check deployment ctx i =
     (if deployment \<notin> set (px_allowed_targets ctx)
      then mk_check ''scope'' False (deployment @ '' is not on the list of Deployments remediation may touch'') (Some i)
      else mk_check ''scope'' True (px_namespace ctx @ ''/'' @ deployment @ '' may be remediated'') (Some i))"

definition problem_host_check :: "string \<Rightarrow> policy_context \<Rightarrow> nat \<Rightarrow> check" where
  "problem_host_check deployment ctx i =
     (case px_root_causes ctx of
        [] \<Rightarrow> mk_check ''problem_host'' False ''the diagnosis has no root cause'' (Some i)
      | (host, confidence) # _ \<Rightarrow>
          if deployment \<noteq> host then
            mk_check ''problem_host'' False
              (deployment @
               (if deployment = px_incident_service ctx then '' (the alerting service, which shows the symptoms)'' else '''') @
               '' is not the top root cause ('' @ host @ '')'') (Some i)
          else if confidence < px_min_confidence ctx then
            mk_check ''problem_host'' False
              (''the top root cause '' @ host @ '' has confidence '' @ fmt_fixed 2 confidence @ '', below '' @
               fmt_fixed 2 (px_min_confidence ctx)) (Some i)
          else mk_check ''problem_host'' True
              (deployment @ '' is the top root cause ('' @ fmt_percent confidence @ '')'') (Some i))"

text \<open>The cited results that are about this Deployment, from the tools that show what is undone.\<close>

definition evidence_about :: "string \<Rightarrow> string list \<Rightarrow> string list \<Rightarrow> policy_context \<Rightarrow> string list" where
  "evidence_about deployment ids tools ctx =
     filter (\<lambda>ev. case map_of (px_evidence ctx) ev of
         None \<Rightarrow> False
       | Some ref \<Rightarrow> er_tool ref \<in> set tools \<and> jget (er_args ref) ''deployment'' = Some (JStr deployment)) ids"

definition evidence_check :: "string \<Rightarrow> string \<Rightarrow> string list \<Rightarrow> string list \<Rightarrow> policy_context \<Rightarrow> nat \<Rightarrow> check" where
  "evidence_check kind deployment ids tools ctx i =
     (let unknown = filter (\<lambda>ev. map_of (px_evidence ctx) ev = None) ids
      in if unknown \<noteq> [] then
           mk_check ''evidence'' False (''cited evidence not found for this incident: '' @ join '', '' unknown) (Some i)
         else if tools \<noteq> [] \<and> evidence_about deployment ids tools ctx = [] then
           mk_check ''evidence'' False
             (kind @ '' needs a cited '' @ join '' or '' tools @ '' result for '' @ deployment @
              '', showing what would be undone'') (Some i)
         else mk_check ''evidence'' True (dec (length ids) @ '' cited result(s) of this incident'') (Some i))"

definition alternative_check :: "remediation_plan \<Rightarrow> risk \<Rightarrow> nat \<Rightarrow> check" where
  "alternative_check plan risk i =
     (let lower = filter (\<lambda>k. case catalogue k of None \<Rightarrow> False | Some info \<Rightarrow> risk_rank (ai_risk info) < risk_rank risk)
                    (map alt_action (rp_alternatives plan))
      in if lower \<noteq> []
         then \<lparr>c_name = ''alternative'', c_ok = True,
               c_detail = ''lower-risk options considered: '' @ join '', '' (sorted_set lower),
               c_blocking = False, c_action = Some i\<rparr>
         else \<lparr>c_name = ''alternative'', c_ok = False,
               c_detail = ''a '' @ risk_text risk @ '' action without any lower-risk option considered'',
               c_blocking = False, c_action = Some i\<rparr>)"

section \<open>Evaluation\<close>

text \<open>The body of the loop: the checks of one action, and its risk when the catalogue has it.\<close>

definition action_checks :: "remediation_plan \<Rightarrow> policy_context \<Rightarrow> nat \<Rightarrow> action \<Rightarrow> check list \<times> risk list" where
  "action_checks plan ctx i action =
     (let kind = action_kind action; target = a_deployment action
      in case catalogue kind of
           None \<Rightarrow> ([mk_check ''catalogue'' False (kind @ '' is not in the action catalogue'') (Some i)], [])
         | Some info \<Rightarrow>
             ([mk_check ''catalogue'' (ai_risk info \<noteq> R4) (kind @ '' is '' @ risk_text (ai_risk info)) (Some i),
               scope_check target ctx i,
               problem_host_check target ctx i,
               evidence_check kind target (a_evidence_ids action) (ai_evidence_tools info) ctx i,
               mk_check ''rollback_plan'' (ai_inverse info \<noteq> [])
                 (''undo: '' @ (if ai_inverse info = [] then ''none defined'' else ai_inverse info)) (Some i)] @
              (if ai_risk info = R3 then [alternative_check plan (ai_risk info) i] else []),
              [ai_risk info]))"

fun all_action_checks :: "remediation_plan \<Rightarrow> policy_context \<Rightarrow> nat \<Rightarrow> action list \<Rightarrow> check list \<times> risk list" where
  "all_action_checks plan ctx i [] = ([], [])"
| "all_action_checks plan ctx i (a # as) =
     (let (cs, rs) = action_checks plan ctx i a; (cs', rs') = all_action_checks plan ctx (i + 1) as
      in (cs @ cs', rs @ rs'))"

text \<open>The loop that keeps the highest risk seen.\<close>

fun highest_risk :: "risk option \<Rightarrow> risk list \<Rightarrow> risk option" where
  "highest_risk acc [] = acc"
| "highest_risk acc (r # rs) =
     highest_risk (case acc of None \<Rightarrow> Some r | Some a \<Rightarrow> if risk_rank r > risk_rank a then Some r else acc) rs"

definition evaluate_checks :: "remediation_plan \<Rightarrow> policy_context \<Rightarrow> clock_error + decision" where
  "evaluate_checks plan ctx =
     (if rp_actions plan = [] then
        Inr \<lparr>dn_verdict = Deny, dn_risk = None, dn_checks = [mk_check ''actions'' False ''the plan has no actions'' None]\<rparr>
      else
        let (cs, risks) = all_action_checks plan ctx 0 (rp_actions plan)
        in bindS (window_check ctx) (\<lambda>wc.
             let checks = cs @ [wc]; risk = highest_risk None risks
             in Inr (case risk of
                  None \<Rightarrow> \<lparr>dn_verdict = Deny, dn_risk = None, dn_checks = checks\<rparr>
                | Some r \<Rightarrow>
                    if list_ex (\<lambda>c. \<not> c_ok c \<and> c_blocking c) checks
                    then \<lparr>dn_verdict = Deny, dn_risk = Some r, dn_checks = checks\<rparr>
                    else \<lparr>dn_verdict = (if risk_rank r \<le> risk_rank (px_auto_max_risk ctx) then Allow else RequireApproval),
                          dn_risk = Some r, dn_checks = checks\<rparr>)))"

text \<open>\<open>evaluate\<close>: fail closed. \<open>err_repr\<close> is Python's \<open>repr\<close> of the exception.\<close>

definition evaluate :: "(clock_error \<Rightarrow> string) \<Rightarrow> remediation_plan \<Rightarrow> policy_context \<Rightarrow> decision" where
  "evaluate err_repr plan ctx =
     (case evaluate_checks plan ctx of
        Inr dn \<Rightarrow> dn
      | Inl e \<Rightarrow> \<lparr>dn_verdict = Deny, dn_risk = None,
          dn_checks = [mk_check ''policy_error'' False (''the policy could not evaluate the plan: '' @ err_repr e) None]\<rparr>)"

section \<open>What a verdict means\<close>

lemma mk_check_simps [simp]:
  "c_name (mk_check n b t i) = n" "c_ok (mk_check n b t i) = b" "c_blocking (mk_check n b t i)"
  "c_detail (mk_check n b t i) = t" "c_action (mk_check n b t i) = i"
  by (simp_all add: mk_check_def)

lemma scope_check_ok [simp]: "c_ok (scope_check x ctx i) \<longleftrightarrow> x \<in> set (px_allowed_targets ctx)"
  by (simp add: scope_check_def)

lemma problem_host_check_ok:
  "c_ok (problem_host_check x ctx i) \<longleftrightarrow>
     (\<exists>conf rest. px_root_causes ctx = (x, conf) # rest \<and> px_min_confidence ctx \<le> conf)"
  by (auto simp: problem_host_check_def split: list.splits prod.splits)

lemma evidence_check_ok:
  "c_ok (evidence_check k x ids tools ctx i) \<longleftrightarrow>
     (\<forall>ev \<in> set ids. map_of (px_evidence ctx) ev \<noteq> None) \<and> (tools \<noteq> [] \<longrightarrow> evidence_about x ids tools ctx \<noteq> [])"
  by (auto simp: evidence_check_def Let_def filter_empty_conv)

lemma always_blocking [simp]:
  "c_blocking (scope_check x ctx i)" "c_blocking (problem_host_check x ctx i)" "c_blocking (evidence_check k x ids t ctx i)"
  by (auto simp: scope_check_def problem_host_check_def evidence_check_def Let_def split: list.splits prod.splits)

lemma alternative_not_blocking [simp]: "\<not> c_blocking (alternative_check p r i)"
  by (simp add: alternative_check_def Let_def)

text \<open>What the blocking checks of one action ask for.\<close>

definition action_cleared :: "policy_context \<Rightarrow> action \<Rightarrow> bool" where
  "action_cleared ctx a \<longleftrightarrow>
     a_deployment a \<in> set (px_allowed_targets ctx) \<and>
     (\<exists>conf rest. px_root_causes ctx = (a_deployment a, conf) # rest \<and> px_min_confidence ctx \<le> conf) \<and>
     (\<forall>ev \<in> set (a_evidence_ids a). map_of (px_evidence ctx) ev \<noteq> None) \<and>
     (\<forall>info. catalogue (action_kind a) = Some info \<longrightarrow> ai_evidence_tools info \<noteq> [] \<longrightarrow>
        evidence_about (a_deployment a) (a_evidence_ids a) (ai_evidence_tools info) ctx \<noteq> [])"

definition no_block :: "check list \<Rightarrow> bool" where
  "no_block cs \<longleftrightarrow> (\<forall>c \<in> set cs. c_blocking c \<longrightarrow> c_ok c)"

lemma no_block_append [simp]: "no_block (xs @ ys) \<longleftrightarrow> no_block xs \<and> no_block ys"
  by (auto simp: no_block_def)

lemma no_block_ex: "list_ex (\<lambda>c. \<not> c_ok c \<and> c_blocking c) cs \<longleftrightarrow> \<not> no_block cs"
  by (auto simp: no_block_def list_ex_iff)

lemma action_checks_ok: "no_block (fst (action_checks plan ctx i a)) \<longleftrightarrow> action_cleared ctx a"
proof -
  obtain info where info: "catalogue (action_kind a) = Some info" "ai_risk info \<in> {R2, R3}"
    using catalogue_action by blast
  then have "ai_risk info \<noteq> R4" "ai_inverse info \<noteq> []" using catalogue_risk [OF info(1)] by auto
  then show ?thesis
    by (auto simp: action_checks_def Let_def info(1) no_block_def action_cleared_def problem_host_check_ok evidence_check_ok)
qed

lemma action_checks_risk:
  "catalogue (action_kind a) = Some info \<Longrightarrow> snd (action_checks plan ctx i a) = [ai_risk info]"
  by (simp add: action_checks_def Let_def)

definition kind_risk :: "action \<Rightarrow> risk" where
  "kind_risk a = (case catalogue (action_kind a) of Some info \<Rightarrow> ai_risk info | None \<Rightarrow> R4)"

lemma all_action_checks_risks: "snd (all_action_checks plan ctx i as) = map kind_risk as"
proof (induction as arbitrary: i)
  case (Cons a as)
  obtain info where "catalogue (action_kind a) = Some info" using catalogue_action by blast
  with Cons show ?case by (simp add: Let_def split_beta action_checks_risk kind_risk_def)
qed simp

lemma all_action_checks_ok: "no_block (fst (all_action_checks plan ctx i as)) \<longleftrightarrow> (\<forall>a \<in> set as. action_cleared ctx a)"
  by (induction as arbitrary: i) (auto simp: Let_def split_beta action_checks_ok no_block_def [of "[]"])

lemma highest_risk_Max: "highest_risk acc rs = Some r \<Longrightarrow>
    (\<forall>x \<in> set rs. risk_rank x \<le> risk_rank r) \<and> (\<forall>a. acc = Some a \<longrightarrow> risk_rank a \<le> risk_rank r) \<and>
    (r \<in> set rs \<or> acc = Some r)"
  by (induction rs arbitrary: acc) (fastforce split: option.splits if_splits)+

lemma highest_risk_Some: "rs \<noteq> [] \<or> acc \<noteq> None \<Longrightarrow> \<exists>r. highest_risk acc rs = Some r"
proof (induction rs arbitrary: acc)
  case (Cons x rs)
  show ?case by (cases acc) (auto intro!: Cons.IH)
qed auto

text \<open>The window as the engine reads it, when it can be read.\<close>

definition in_change_window :: "policy_context \<Rightarrow> bool" where
  "in_change_window ctx \<longleftrightarrow> (case window_check ctx of Inr c \<Rightarrow> c_ok c | Inl e \<Rightarrow> False)"

lemma window_blocking: "window_check ctx = Inr c \<Longrightarrow> c_blocking c"
  by (auto simp: window_check_def Let_def bindS_Inr_iff split: prod.splits)

lemma evaluate_verdict:
  "dn_verdict (evaluate err plan ctx) =
     (if rp_actions plan = [] \<or> \<not> in_change_window ctx \<or> (\<exists>a \<in> set (rp_actions plan). \<not> action_cleared ctx a) then Deny
      else if \<forall>a \<in> set (rp_actions plan). risk_rank (kind_risk a) \<le> risk_rank (px_auto_max_risk ctx) then Allow
      else RequireApproval)"
proof (cases "rp_actions plan = []")
  case True
  then show ?thesis by (simp add: evaluate_def evaluate_checks_def)
next
  case False
  obtain cs rs where cr: "all_action_checks plan ctx 0 (rp_actions plan) = (cs, rs)" by force
  have rs: "rs = map kind_risk (rp_actions plan)" using all_action_checks_risks [of plan ctx 0 "rp_actions plan"] cr by simp
  have cs: "no_block cs \<longleftrightarrow> (\<forall>a \<in> set (rp_actions plan). action_cleared ctx a)"
    using all_action_checks_ok [of plan ctx 0 "rp_actions plan"] cr by simp
  obtain r where r: "highest_risk None rs = Some r" using highest_risk_Some [of rs None] False rs by auto
  have most: "risk_rank r \<le> n \<longleftrightarrow> (\<forall>a \<in> set (rp_actions plan). risk_rank (kind_risk a) \<le> n)" for n
    using highest_risk_Max [OF r] rs by (auto intro: order_trans)
  show ?thesis
  proof (cases "window_check ctx")
    case (Inl e)
    with False cr show ?thesis by (simp add: evaluate_def evaluate_checks_def in_change_window_def)
  next
    case (Inr c)
    with window_blocking [OF Inr] have "no_block [c] \<longleftrightarrow> in_change_window ctx"
      by (simp add: no_block_def in_change_window_def)
    with False cr r cs most Inr show ?thesis
      by (simp add: evaluate_def evaluate_checks_def Let_def no_block_ex del: list_ex_append)
  qed
qed

lemma evaluate_risk:
  assumes "dn_verdict (evaluate err plan ctx) \<noteq> Deny"
  shows "\<exists>r. dn_risk (evaluate err plan ctx) = Some r \<and> r \<in> kind_risk ` set (rp_actions plan) \<and>
    (\<forall>a \<in> set (rp_actions plan). kind_risk a \<le> r)"
proof -
  obtain cs rs where cr: "all_action_checks plan ctx 0 (rp_actions plan) = (cs, rs)" by force
  have rs: "rs = map kind_risk (rp_actions plan)" using all_action_checks_risks [of plan ctx 0 "rp_actions plan"] cr by simp
  from assms cr obtain c r where "window_check ctx = Inr c" "rp_actions plan \<noteq> []" and r: "highest_risk None rs = Some r"
    and "dn_risk (evaluate err plan ctx) = Some r"
    by (auto simp: evaluate_def evaluate_checks_def Let_def bindS_Inr_iff
        split: sum.splits if_splits option.splits)
  with highest_risk_Max [OF r] rs show ?thesis by (auto simp: less_eq_risk_def)
qed

end
