(* ===== verification/AgentSchemas.thy ===== *)
theory AgentSchemas
  imports Prelude
begin

text \<open>
  What each agent hands back (\<open>app/agents/schemas.py\<close>): the shapes of the final answers, and
  the limits the models validate. Confidences are floats that are only compared; they are the
  rationals they denote.
\<close>

datatype finding_kind = Fact | Inference | Hypothesis

datatype signal = SMetrics | SLogs | STraces | SChanges | SFlags

definition INVESTIGATORS :: "string list" where
  "INVESTIGATORS = [''metrics'', ''logs_traces'', ''changes'']"

record briefs =
  br_metrics :: string
  br_logs_traces :: string
  br_changes :: string

record coordinator_plan =
  cp_summary :: string
  cp_hypotheses :: "string list"
  cp_briefs :: briefs

record finding =
  f_statement :: string
  f_kind :: finding_kind
  f_signal :: signal
  f_service :: "string option"
  f_evidence_ids :: "string list"
  f_confidence :: rat

record investigator_report =
  ir_summary :: string
  ir_findings :: "finding list"

record root_cause =
  rc_service :: string
  rc_cause :: string
  rc_confidence :: rat
  rc_evidence_ids :: "string list"

record claim =
  cl_statement :: string
  cl_evidence_ids :: "string list"

record open_question =
  oq_statement :: string
  oq_how_to_verify :: string

record diagnosis =
  dx_summary :: string
  dx_root_causes :: "root_cause list"
  dx_facts :: "claim list"
  dx_inferences :: "claim list"
  dx_hypotheses :: "open_question list"

definition dx_cited :: "diagnosis \<Rightarrow> string list" where
  "dx_cited dx =
     remdups (concat (map rc_evidence_ids (dx_root_causes dx)) @
              concat (map cl_evidence_ids (dx_facts dx)) @
              concat (map cl_evidence_ids (dx_inferences dx)))"

section \<open>Limits\<close>

definition valid_coordinator_plan :: "coordinator_plan \<Rightarrow> bool" where
  "valid_coordinator_plan p \<longleftrightarrow>
     length (cp_summary p) \<le> 600 \<and> length (cp_hypotheses p) \<le> 5 \<and>
     length (br_metrics (cp_briefs p)) \<le> 600 \<and> length (br_logs_traces (cp_briefs p)) \<le> 600 \<and>
     length (br_changes (cp_briefs p)) \<le> 600"

definition valid_finding :: "finding \<Rightarrow> bool" where
  "valid_finding f \<longleftrightarrow>
     length (f_statement f) \<le> 500 \<and>
     (case f_service f of None \<Rightarrow> True | Some s \<Rightarrow> length s \<le> 64) \<and>
     length (f_evidence_ids f) \<le> 6 \<and> 0 \<le> f_confidence f \<and> f_confidence f \<le> 1"

definition valid_report :: "investigator_report \<Rightarrow> bool" where
  "valid_report r \<longleftrightarrow>
     length (ir_summary r) \<le> 600 \<and> length (ir_findings r) \<le> 8 \<and> list_all valid_finding (ir_findings r)"

definition valid_root_cause :: "root_cause \<Rightarrow> bool" where
  "valid_root_cause rc \<longleftrightarrow>
     length (rc_service rc) \<le> 64 \<and> length (rc_cause rc) \<le> 500 \<and>
     0 \<le> rc_confidence rc \<and> rc_confidence rc \<le> 1 \<and>
     1 \<le> length (rc_evidence_ids rc) \<and> length (rc_evidence_ids rc) \<le> 8"

definition valid_claim :: "claim \<Rightarrow> bool" where
  "valid_claim c \<longleftrightarrow>
     length (cl_statement c) \<le> 500 \<and> 1 \<le> length (cl_evidence_ids c) \<and> length (cl_evidence_ids c) \<le> 8"

definition valid_open_question :: "open_question \<Rightarrow> bool" where
  "valid_open_question q \<longleftrightarrow> length (oq_statement q) \<le> 500 \<and> length (oq_how_to_verify q) \<le> 300"

definition valid_diagnosis :: "diagnosis \<Rightarrow> bool" where
  "valid_diagnosis dx \<longleftrightarrow>
     length (dx_summary dx) \<le> 800 \<and>
     length (dx_root_causes dx) \<le> 3 \<and> list_all valid_root_cause (dx_root_causes dx) \<and>
     length (dx_facts dx) \<le> 10 \<and> list_all valid_claim (dx_facts dx) \<and>
     length (dx_inferences dx) \<le> 6 \<and> list_all valid_claim (dx_inferences dx) \<and>
     length (dx_hypotheses dx) \<le> 5 \<and> list_all valid_open_question (dx_hypotheses dx)"

lemma dx_cited_iff:
  "ev \<in> set (dx_cited dx) \<longleftrightarrow>
     (\<exists>rc \<in> set (dx_root_causes dx). ev \<in> set (rc_evidence_ids rc)) \<or>
     (\<exists>c \<in> set (dx_facts dx) \<union> set (dx_inferences dx). ev \<in> set (cl_evidence_ids c))"
  by (auto simp: dx_cited_def)

text \<open>The fields of a valid diagnosis that cite must cite.\<close>

lemma valid_diagnosis_cites:
  assumes "valid_diagnosis dx" and "rc \<in> set (dx_root_causes dx)"
  shows "rc_evidence_ids rc \<noteq> []"
  using assms by (auto simp: valid_diagnosis_def valid_root_cause_def list_all_iff)

end
