(* ===== verification/Schema.thy ===== *)
theory Schema
  imports Policy AgentSchemas
begin

text \<open>
  The tables (\<open>app/db/schema.py\<close>): one record per row type, the enumerations of the CHECK
  constraints as datatypes, and the database as the record of its tables. A JSONB column that
  always holds a validated model (a plan, an agent's output, an action) holds that model here.
  A UUID is its text. Trace contexts and server defaults other than the ones an INSERT of the
  code relies on are left out.
\<close>

section \<open>Enumerations\<close>

datatype istate =
    RECEIVED | TRIAGED | INVESTIGATING | DIAGNOSED | PLANNED | SAFETY_REVIEWED
  | AWAITING_APPROVAL | EXECUTING | VERIFYING | RESOLVED | ESCALATED

fun istate_text :: "istate \<Rightarrow> string" where
  "istate_text RECEIVED = ''RECEIVED''"
| "istate_text TRIAGED = ''TRIAGED''"
| "istate_text INVESTIGATING = ''INVESTIGATING''"
| "istate_text DIAGNOSED = ''DIAGNOSED''"
| "istate_text PLANNED = ''PLANNED''"
| "istate_text SAFETY_REVIEWED = ''SAFETY_REVIEWED''"
| "istate_text AWAITING_APPROVAL = ''AWAITING_APPROVAL''"
| "istate_text EXECUTING = ''EXECUTING''"
| "istate_text VERIFYING = ''VERIFYING''"
| "istate_text RESOLVED = ''RESOLVED''"
| "istate_text ESCALATED = ''ESCALATED''"

datatype job_status = Queued | Running | Done | Dead

datatype approval_decision = Approve | Reject

datatype execution_status = Started | Succeeded | Failed | Unknown

datatype run_status = RunRunning | RunDone | RunFailed

datatype body = BPlan coordinator_plan | BFinding finding | BDiagnosis diagnosis

text \<open>The column \<open>kind\<close> of the blackboard says which model its body is.\<close>

datatype entry_kind = KPlan | KFinding | KDiagnosis

fun kind_of_body :: "body \<Rightarrow> entry_kind" where
  "kind_of_body (BPlan p) = KPlan"
| "kind_of_body (BFinding f) = KFinding"
| "kind_of_body (BDiagnosis d) = KDiagnosis"

section \<open>Rows\<close>

record incident_row =
  i_id :: string
  i_tenant :: string
  i_fingerprint :: string
  i_title :: string
  i_service :: string
  i_environment :: string
  i_priority :: nat
  i_state :: istate
  i_version :: nat
  i_alert_count :: nat
  i_labels :: "(string \<times> string) list"
  i_created_at :: time
  i_updated_at :: time
  i_closed_at :: "time option"

datatype alert_status = Firing | Resolved

record alert_row =
  al_id :: nat
  al_tenant :: string
  al_incident :: "string option"
  al_fingerprint :: string
  al_status :: alert_status
  al_labels :: "(string \<times> string) list"
  al_annotations :: "(string \<times> string) list"
  al_starts_at :: "time option"
  al_ends_at :: "time option"

record job_row =
  j_id :: nat
  j_tenant :: string
  j_incident :: "string option"
  j_kind :: string
  j_payload :: "(string \<times> json) list"
  j_idempotency_key :: "string option"
  j_priority :: nat
  j_status :: job_status
  j_attempts :: int
  j_max_attempts :: int
  j_sort_key :: time
  j_run_after :: time
  j_lease_owner :: "string option"
  j_lease_until :: "time option"
  j_fence :: nat
  j_last_error :: "string option"
  j_updated_at :: time

record audit_row =
  a_seq :: nat
  a_ts :: time
  a_tenant :: "string option"
  a_actor :: string
  a_event :: string
  a_subject :: string
  a_payload :: json
  a_prev_hash :: string
  a_hash :: string

record evidence_row =
  e_id :: string
  e_tenant :: string
  e_incident :: "string option"
  e_tool :: string
  e_args :: "(string \<times> json) list"
  e_result :: json
  e_result_hash :: string
  e_result_bytes :: nat
  e_summary :: json
  e_truncated :: bool
  e_source :: string
  e_fetched_at :: time

record tool_call_row =
  t_id :: nat
  t_tenant :: string
  t_incident :: "string option"
  t_agent :: "string option"
  t_tool :: string
  t_args :: "(string \<times> json) list"
  t_ok :: bool
  t_error_code :: "string option"
  t_error :: "string option"
  t_attempts :: nat
  t_evidence :: "string option"

record usage =
  u_input_tokens :: nat
  u_output_tokens :: nat
  u_cache_read_tokens :: nat
  u_cache_creation_tokens :: nat

record llm_call_row =
  l_id :: nat
  l_tenant :: string
  l_incident :: "string option"
  l_agent :: string
  l_step_no :: nat
  l_backend :: string
  l_model :: string
  l_prompt_version :: string
  l_request_hash :: string
  l_ok :: bool
  l_error_code :: "string option"
  l_error :: "string option"
  l_attempts :: nat
  l_usage :: usage
  l_step :: "json option"

text \<open>The \<open>result\<close> of an agent's run: its counts, an investigator's summary, the planner's plan.\<close>

record run_result =
  rr_counts :: "(string \<times> json) list"
  rr_report_summary :: "string option"
  rr_plan :: "remediation_plan option"

record agent_run_row =
  r_id :: nat
  r_tenant :: string
  r_incident :: string
  r_agent :: string
  r_status :: run_status
  r_model :: string
  r_prompt_version :: string
  r_steps :: nat
  r_result :: run_result
  r_error :: "string option"

record blackboard_row =
  b_id :: nat
  b_tenant :: string
  b_incident :: string
  b_kind :: entry_kind
  b_author :: string
  b_body :: body
  b_evidence_ids :: "string list"

record plan_row =
  p_id :: nat
  p_tenant :: string
  p_incident :: string
  p_seq :: nat
  p_proposed_by :: string
  p_plan :: remediation_plan
  p_hash :: string
  p_verdict :: verdict
  p_risk :: "risk option"
  p_checks :: "check list"
  p_expires_at :: "time option"
  p_created_at :: time

record approval_row =
  ap_id :: nat
  ap_tenant :: string
  ap_incident :: string
  ap_plan :: nat
  ap_plan_hash :: string
  ap_approver :: string
  ap_decision :: approval_decision
  ap_comment :: string

record execution_row =
  x_id :: nat
  x_tenant :: string
  x_incident :: string
  x_plan :: nat
  x_action_index :: nat
  x_action :: action
  x_key :: string
  x_status :: execution_status
  x_executor :: string
  x_dry_run :: json
  x_before :: json
  x_after :: json
  x_error :: "string option"

record db =
  incidents :: "incident_row list"
  alerts :: "alert_row list"
  jobs :: "job_row list"
  audit_log :: "audit_row list"
  evidence :: "evidence_row list"
  tool_calls :: "tool_call_row list"
  llm_calls :: "llm_call_row list"
  agent_runs :: "agent_run_row list"
  blackboard :: "blackboard_row list"
  remediation_plans :: "plan_row list"
  approvals :: "approval_row list"
  executions :: "execution_row list"

definition empty_db :: db where
  "empty_db = \<lparr>incidents = [], alerts = [], jobs = [], audit_log = [], evidence = [], tool_calls = [],
     llm_calls = [], agent_runs = [], blackboard = [], remediation_plans = [], approvals = [], executions = []\<rparr>"

section \<open>Errors\<close>

text \<open>What the code of a transaction raises; the transaction is then rolled back.\<close>

datatype exn =
    IllegalTransition istate istate
  | StaleVersion
  | LeaseLost nat nat
  | RuntimeError
  | PermanentJobError
  | ApprovalRefused nat string
  | IntegrityError
  | KeyError
  | HTTPException nat

type_synonym 'a tx = "db \<Rightarrow> exn + 'a \<times> db"

section \<open>Constraints\<close>

definition open_key :: "incident_row \<Rightarrow> string \<times> string" where
  "open_key r = (i_tenant r, i_fingerprint r)"

definition is_open :: "incident_row \<Rightarrow> bool" where
  "is_open r \<longleftrightarrow> i_closed_at r = None"

definition job_keys :: "db \<Rightarrow> string list" where
  "job_keys d = List.map_filter j_idempotency_key (jobs d)"

definition run_key :: "agent_run_row \<Rightarrow> string \<times> string" where
  "run_key r = (r_incident r, r_agent r)"

definition plan_key :: "plan_row \<Rightarrow> string \<times> nat" where
  "plan_key p = (p_incident p, p_seq p)"

text \<open>
  The primary keys, the unique indexes and the checks that a datatype does not express. The
  partial index \<open>ux_incidents_open_fingerprint\<close> is the third line.
\<close>

definition constraints :: "db \<Rightarrow> bool" where
  "constraints d \<longleftrightarrow>
     distinct (map i_id (incidents d)) \<and>
     list_all (\<lambda>r. i_priority r \<le> 3) (incidents d) \<and>
     distinct (map open_key (filter is_open (incidents d))) \<and>
     distinct (map j_id (jobs d)) \<and>
     list_all (\<lambda>r. j_priority r \<le> 3) (jobs d) \<and>
     distinct (job_keys d) \<and>
     distinct (map e_id (evidence d)) \<and>
     distinct (map run_key (agent_runs d)) \<and>
     distinct (map p_id (remediation_plans d)) \<and>
     distinct (map plan_key (remediation_plans d)) \<and>
     distinct (map ap_plan (approvals d)) \<and>
     distinct (map x_key (executions d))"

lemma constraints_empty: "constraints empty_db"
  by (simp add: constraints_def empty_db_def job_keys_def map_filter_simps)

text \<open>A statement that leaves a table alone leaves its constraints alone.\<close>

lemma constraints_frame:
  assumes "constraints d"
    and "incidents d' = incidents d" "jobs d' = jobs d" "evidence d' = evidence d"
    and "agent_runs d' = agent_runs d" "remediation_plans d' = remediation_plans d"
    and "approvals d' = approvals d" "executions d' = executions d"
  shows "constraints d'"
  using assms by (simp add: constraints_def job_keys_def)

section \<open>Settings\<close>

text \<open>The part of \<open>app/core/config.py\<close> the modelled code reads.\<close>

record settings =
  auto_investigate :: bool
  auto_remediate :: bool
  agent_max_steps :: nat
  planner_max_steps :: nat
  llm_incident_token_budget :: int
  k8s_namespace :: string
  queue_lease_ttl_s :: duration
  queue_aging_step_s :: duration
  queue_max_attempts :: int
  queue_backoff_base_s :: duration
  queue_backoff_max_s :: duration
  worker_concurrency :: int
  worker_reserved_p0_slots :: int
  remediation_targets :: "string list"
  remediation_min_confidence :: rat
  remediation_auto_max_risk :: risk
  remediation_change_window :: string
  remediation_approval_ttl_s :: duration
  executor_rollout_timeout_s :: duration
  verify_settle_s :: duration
  verify_interval_s :: duration
  verify_healthy_checks :: nat
  verify_timeout_s :: duration

text \<open>The defaults of the class \<open>Settings\<close>.\<close>

definition default_settings :: settings where
  "default_settings =
     \<lparr>auto_investigate = True, auto_remediate = True, agent_max_steps = 5, planner_max_steps = 3,
      llm_incident_token_budget = 1500000, k8s_namespace = ''otel-demo'',
      queue_lease_ttl_s = 30, queue_aging_step_s = 60, queue_max_attempts = 5,
      queue_backoff_base_s = 2, queue_backoff_max_s = 300,
      worker_concurrency = 4, worker_reserved_p0_slots = 1,
      remediation_targets = [], remediation_min_confidence = 1 / 2, remediation_auto_max_risk = R1,
      remediation_change_window = ''00:00-24:00'', remediation_approval_ttl_s = 1800,
      executor_rollout_timeout_s = 180,
      verify_settle_s = 60, verify_interval_s = 30, verify_healthy_checks = 3, verify_timeout_s = 600\<rparr>"

end
