(* ===== verification/AuditLog.thy ===== *)
theory AuditLog
  imports Schema
begin

text \<open>
  The hash-chained audit log (\<open>app/db/audit.py\<close>): appending an event and verifying the chain.
  Shown: appending keeps the chain, an edited row is named, a row deleted before the last one
  breaks the chain, and the one thing the chain cannot show, the loss of its newest rows.
\<close>

text \<open>
  What a transaction reads of the outside world: SHA-256 (\<open>hashlib\<close>), the ISO text of a UTC
  timestamp (\<open>datetime.isoformat\<close>), Python's \<open>repr\<close> of an error of the change window, the
  transaction's \<open>now()\<close> in Postgres and the clock of the Python process (\<open>datetime.now(UTC)\<close>).
\<close>

record world =
  w_sha :: "string \<Rightarrow> string"
  w_iso :: "time \<Rightarrow> string"
  w_clock_repr :: "clock_error \<Rightarrow> string"
  w_now :: time
  w_utcnow :: time

definition GENESIS :: string where
  "GENESIS = replicate 64 CHR ''0''"

definition audit_content ::
    "(time \<Rightarrow> string) \<Rightarrow> string \<Rightarrow> time \<Rightarrow> string option \<Rightarrow> string \<Rightarrow> string \<Rightarrow> string \<Rightarrow> json \<Rightarrow> json" where
  "audit_content isof prev_hash ts tenant_id actor event subject payload =
     JArr [JStr prev_hash, JStr (isof ts), jopt JStr tenant_id, JStr actor, JStr event, JStr subject, payload]"

definition audit_digest ::
    "world \<Rightarrow> string \<Rightarrow> time \<Rightarrow> string option \<Rightarrow> string \<Rightarrow> string \<Rightarrow> string \<Rightarrow> json \<Rightarrow> string" where
  "audit_digest w prev_hash ts tenant_id actor event subject payload =
     w_sha w (canonical_json (audit_content (w_iso w) prev_hash ts tenant_id actor event subject payload))"

text \<open>
  \<open>SELECT hash FROM audit_log ORDER BY seq DESC LIMIT 1\<close>, and \<open>prev or GENESIS\<close>: Python's
  \<open>or\<close> also replaces an empty text.
\<close>

definition last_hash :: "audit_row list \<Rightarrow> string" where
  "last_hash rows =
     (case least_by (\<lambda>a b. a_seq b < a_seq a) rows of
        None \<Rightarrow> GENESIS
      | Some r \<Rightarrow> (if a_hash r = [] then GENESIS else a_hash r))"

text \<open>
  \<open>append\<close>. The advisory lock makes appends of concurrent transactions one after the other;
  the column \<open>hash\<close> is unique.
\<close>

definition audit_append ::
    "world \<Rightarrow> string \<Rightarrow> string \<Rightarrow> string \<Rightarrow> string option \<Rightarrow> json \<Rightarrow> string tx" where
  "audit_append w actor event subject tenant_id payload d =
     (let prev_hash = last_hash (audit_log d);
          ts = w_utcnow w;
          digest = audit_digest w prev_hash ts tenant_id actor event subject payload
      in if digest \<in> set (map a_hash (audit_log d)) then Inl IntegrityError
         else Inr (digest, d\<lparr>audit_log := audit_log d @
           [\<lparr>a_seq = next_id (map a_seq (audit_log d)), a_ts = ts, a_tenant = tenant_id, a_actor = actor,
             a_event = event, a_subject = subject, a_payload = payload, a_prev_hash = prev_hash,
             a_hash = digest\<rparr>]\<rparr>))"

record verification =
  v_ok :: bool
  v_checked :: nat
  v_first_bad_seq :: "nat option"
  v_reason :: string

definition row_digest :: "world \<Rightarrow> string \<Rightarrow> audit_row \<Rightarrow> string" where
  "row_digest w prev_hash r =
     audit_digest w prev_hash (a_ts r) (a_tenant r) (a_actor r) (a_event r) (a_subject r) (a_payload r)"

text \<open>The loop of \<open>verify\<close> over the rows in \<open>seq\<close> order.\<close>

fun verify_rows :: "world \<Rightarrow> string \<Rightarrow> nat \<Rightarrow> audit_row list \<Rightarrow> verification" where
  "verify_rows w prev_hash checked [] =
     \<lparr>v_ok = True, v_checked = checked, v_first_bad_seq = None, v_reason = ''''\<rparr>"
| "verify_rows w prev_hash checked (r # rows) =
     (if a_prev_hash r \<noteq> prev_hash then
        \<lparr>v_ok = False, v_checked = checked, v_first_bad_seq = Some (a_seq r),
         v_reason = ''prev_hash does not match the previous row''\<rparr>
      else if a_hash r \<noteq> row_digest w prev_hash r then
        \<lparr>v_ok = False, v_checked = checked, v_first_bad_seq = Some (a_seq r),
         v_reason = ''row content does not match its hash''\<rparr>
      else verify_rows w (a_hash r) (checked + 1) rows)"

definition audit_verify :: "world \<Rightarrow> db \<Rightarrow> verification" where
  "audit_verify w d = verify_rows w GENESIS 0 (sort_key a_seq (audit_log d))"

section \<open>The chain\<close>

fun chained :: "world \<Rightarrow> string \<Rightarrow> audit_row list \<Rightarrow> bool" where
  "chained w prev [] = True"
| "chained w prev (r # rows) =
     (a_prev_hash r = prev \<and> a_hash r = row_digest w prev r \<and> chained w (a_hash r) rows)"

lemma verify_rows_ok: "v_ok (verify_rows w prev n rows) \<longleftrightarrow> chained w prev rows"
  by (induction rows arbitrary: prev n) auto

lemma verify_rows_checked: "chained w prev rows \<Longrightarrow> v_checked (verify_rows w prev n rows) = n + length rows"
  by (induction rows arbitrary: prev n) auto

definition end_hash :: "string \<Rightarrow> audit_row list \<Rightarrow> string" where
  "end_hash prev rows = (if rows = [] then prev else a_hash (last rows))"

lemma chained_append:
  "chained w prev (xs @ ys) \<longleftrightarrow> chained w prev xs \<and> chained w (end_hash prev xs) ys"
  by (induction xs arbitrary: prev) (auto simp: end_hash_def)

lemma verify_rows_append:
  "chained w prev xs \<Longrightarrow> verify_rows w prev n (xs @ ys) = verify_rows w (end_hash prev xs) (n + length xs) ys"
  by (induction xs arbitrary: prev n) (auto simp: end_hash_def)

text \<open>
  The invariant of the table: rows in \<open>seq\<close> order, the chain intact, no empty hash (a hash is
  64 characters), so that \<open>prev or GENESIS\<close> is the last row's hash.
\<close>

definition audit_ok :: "world \<Rightarrow> db \<Rightarrow> bool" where
  "audit_ok w d \<longleftrightarrow>
     sorted_wrt (\<lambda>a b. a_seq a < a_seq b) (audit_log d) \<and>
     list_all (\<lambda>r. a_hash r \<noteq> []) (audit_log d) \<and>
     chained w GENESIS (audit_log d)"

lemma audit_ok_sorted: "audit_ok w d \<Longrightarrow> sort_key a_seq (audit_log d) = audit_log d"
  by (rule sort_key_id_if_sorted) (auto simp: audit_ok_def sorted_map intro: sorted_wrt_mono_rel [rotated])

lemma sorted_last_greatest:
  "sorted_wrt (\<lambda>a b. k a < (k b :: nat)) (xs @ [x]) \<Longrightarrow> least_by (\<lambda>a b. k b < k a) (xs @ [x]) = Some x"
proof (induction xs)
  case (Cons y xs)
  then show ?case by (auto simp: sorted_wrt_append)
qed simp

lemma last_hash_end:
  assumes "audit_ok w d"
  shows "last_hash (audit_log d) = end_hash GENESIS (audit_log d)"
proof (cases "audit_log d" rule: rev_cases)
  case Nil
  then show ?thesis by (simp add: last_hash_def end_hash_def)
next
  case (snoc rows r)
  with assms show ?thesis
    by (simp add: last_hash_def end_hash_def audit_ok_def sorted_last_greatest)
qed

lemma audit_append_frame [tx_simps]:
  "audit_append w a e s t p d = Inr (h, d') \<Longrightarrow>
     \<exists>row. d' = d\<lparr>audit_log := audit_log d @ [row]\<rparr> \<and> a_hash row = h \<and> a_event row = e \<and> a_subject row = s \<and>
       a_actor row = a \<and> a_tenant row = t \<and> a_payload row = p"
  by (auto simp: audit_append_def Let_def split: if_splits)

lemma audit_append_ok:
  assumes "audit_ok w0 d" "audit_append w a e s t p d = Inr (h, d')"
    and "w_sha w = w_sha w0" "w_iso w = w_iso w0" "\<And>x. w_sha w0 x \<noteq> []"
  shows "audit_ok w0 d'"
proof -
  from assms(2) have d': "d' = d\<lparr>audit_log := audit_log d @
       [\<lparr>a_seq = next_id (map a_seq (audit_log d)), a_ts = w_utcnow w, a_tenant = t, a_actor = a,
         a_event = e, a_subject = s, a_payload = p, a_prev_hash = last_hash (audit_log d), a_hash = h\<rparr>]\<rparr>"
    and h: "h = audit_digest w (last_hash (audit_log d)) (w_utcnow w) t a e s p"
    by (auto simp: audit_append_def Let_def split: if_splits)
  have dig: "audit_digest w = audit_digest w0" using assms(3,4) by (intro ext) (simp add: audit_digest_def)
  have "h \<noteq> []" using h assms(3,5) by (simp add: audit_digest_def)
  then show ?thesis
    using assms(1) last_hash_end [OF assms(1)]
    by (auto simp: audit_ok_def d' h dig sorted_wrt_append chained_append row_digest_def next_id_gt)
qed

lemma verify_ok_when_audit_ok:
  "audit_ok w d \<Longrightarrow> v_ok (audit_verify w d) \<and> v_checked (audit_verify w d) = length (audit_log d)"
  using verify_rows_checked [of w GENESIS "audit_log d" 0]
  by (simp add: audit_verify_def audit_ok_sorted verify_rows_ok) (simp add: audit_ok_def)

section \<open>Tampering\<close>

text \<open>What the hash of a row covers.\<close>

definition same_content :: "world \<Rightarrow> audit_row \<Rightarrow> audit_row \<Rightarrow> bool" where
  "same_content w r r' \<longleftrightarrow>
     w_iso w (a_ts r) = w_iso w (a_ts r') \<and> a_tenant r = a_tenant r' \<and> a_actor r = a_actor r' \<and>
     a_event r = a_event r' \<and> a_subject r = a_subject r' \<and> normal (a_payload r) = normal (a_payload r')"

lemma wf_audit_content: "wf_json p \<Longrightarrow> wf_json (audit_content isof prev ts t a e s p)"
  by (simp add: audit_content_def jopt_def split: option.splits)

text \<open>The text whose hash a row carries.\<close>

definition row_text :: "world \<Rightarrow> string \<Rightarrow> audit_row \<Rightarrow> string" where
  "row_text w prev r = canonical_json
     (audit_content (w_iso w) prev (a_ts r) (a_tenant r) (a_actor r) (a_event r) (a_subject r) (a_payload r))"

lemma row_digest_pins:
  assumes "row_digest w prev r = row_digest w prev' r'" "wf_json (a_payload r)" "wf_json (a_payload r')"
  shows "(prev = prev' \<and> same_content w r r') \<or> collision (w_sha w) (row_text w prev r) (row_text w prev' r')"
proof -
  let ?c = "\<lambda>prev r. audit_content (w_iso w) prev (a_ts r) (a_tenant r) (a_actor r) (a_event r) (a_subject r) (a_payload r)"
  have "normal (?c prev r) = normal (?c prev' r') \<or> collision (w_sha w) (row_text w prev r) (row_text w prev' r')"
    unfolding row_text_def using same_hash_same_data [OF assms(1) [unfolded row_digest_def audit_digest_def]] assms(2,3)
      wf_audit_content by blast
  then show ?thesis by (auto simp: audit_content_def same_content_def)
qed

text \<open>An edited row: everything before it still verifies and the row is named.\<close>

lemma edited_row_found:
  assumes "chained w prev (xs @ r # ys)" "a_hash r' = a_hash r" "a_prev_hash r' = a_prev_hash r" "a_seq r' = a_seq r"
    and "wf_json (a_payload r)" "wf_json (a_payload r')" "\<not> same_content w r r'"
  shows "(verify_rows w prev n (xs @ r' # ys) =
       \<lparr>v_ok = False, v_checked = n + length xs, v_first_bad_seq = Some (a_seq r),
        v_reason = ''row content does not match its hash''\<rparr>)
     \<or> collision (w_sha w) (row_text w (end_hash prev xs) r) (row_text w (end_hash prev xs) r')"
proof -
  from assms(1) have ch: "chained w prev xs" and r: "a_prev_hash r = end_hash prev xs"
    "a_hash r = row_digest w (end_hash prev xs) r"
    by (auto simp: chained_append)
  show ?thesis
  proof (cases "a_hash r' = row_digest w (end_hash prev xs) r'")
    case True
    with assms r have "row_digest w (end_hash prev xs) r = row_digest w (end_hash prev xs) r'" by simp
    with row_digest_pins assms(5-7) show ?thesis by blast
  next
    case False
    with r assms(2-4) show ?thesis by (simp add: verify_rows_append [OF ch])
  qed
qed

text \<open>A deleted row: the row after it is named.\<close>

lemma deleted_row_found:
  assumes "chained w prev (xs @ r # s # ys)" "a_hash r \<noteq> end_hash prev xs"
  shows "verify_rows w prev n (xs @ s # ys) =
     \<lparr>v_ok = False, v_checked = n + length xs, v_first_bad_seq = Some (a_seq s),
      v_reason = ''prev_hash does not match the previous row''\<rparr>"
proof -
  from assms(1) have "chained w prev xs" "a_prev_hash s = a_hash r" by (auto simp: chained_append)
  with assms(2) show ?thesis by (simp add: verify_rows_append)
qed

text \<open>The newest rows gone: nothing left points at them.\<close>

lemma truncated_verifies: "chained w prev rows \<Longrightarrow> chained w prev (take n rows)"
  by (metis append_take_drop_id chained_append)

text \<open>Two chains that end in the same hash, of the same length, hold the same events.\<close>

lemma same_end_same_chain:
  assumes "chained w prev xs" "chained w prev ys" "length xs = length ys" "end_hash prev xs = end_hash prev ys"
    and "list_all (\<lambda>r. wf_json (a_payload r)) xs" "list_all (\<lambda>r. wf_json (a_payload r)) ys"
  shows "list_all2 (same_content w) xs ys \<or>
    (\<exists>k < length xs. collision (w_sha w) (row_text w (end_hash prev (take k xs)) (xs ! k))
       (row_text w (end_hash prev (take k ys)) (ys ! k)))"
  using assms
proof (induction xs arbitrary: ys rule: rev_induct)
  case Nil
  then show ?case by simp
next
  case (snoc r xs)
  then obtain zs s where ys: "ys = zs @ [s]" by (cases ys rule: rev_cases) auto
  have eq: "row_digest w (end_hash prev xs) r = row_digest w (end_hash prev zs) s"
    using snoc.prems ys by (auto simp: chained_append end_hash_def)
  from row_digest_pins [OF eq] snoc.prems ys
  consider "end_hash prev xs = end_hash prev zs" "same_content w r s" |
    "collision (w_sha w) (row_text w (end_hash prev xs) r) (row_text w (end_hash prev zs) s)"
    by auto
  then show ?case
  proof cases
    case 1
    from snoc.prems ys have len: "length xs = length zs" by simp
    from snoc.prems ys have "list_all2 (same_content w) xs zs \<or>
      (\<exists>k < length xs. collision (w_sha w) (row_text w (end_hash prev (take k xs)) (xs ! k))
         (row_text w (end_hash prev (take k zs)) (zs ! k)))"
      by (intro snoc.IH) (use 1 in \<open>simp_all add: chained_append\<close>)
    then show ?thesis
    proof
      assume "list_all2 (same_content w) xs zs"
      with 1 ys show ?thesis by (simp add: list_all2_appendI)
    next
      assume "\<exists>k < length xs. collision (w_sha w) (row_text w (end_hash prev (take k xs)) (xs ! k))
         (row_text w (end_hash prev (take k zs)) (zs ! k))"
      then obtain k where k: "k < length xs" "collision (w_sha w) (row_text w (end_hash prev (take k xs)) (xs ! k))
         (row_text w (end_hash prev (take k zs)) (zs ! k))" by blast
      with ys len show ?thesis by (intro disjI2 exI [of _ k]) (simp add: nth_append)
    qed
  next
    case 2
    with ys snoc.prems(3) show ?thesis by (auto simp: nth_append intro!: exI [of _ "length xs"])
  qed
qed

end
