(* ===== verification/Incidents.thy ===== *)
theory Incidents
  imports AuditLog
begin

text \<open>
  The incident repository (\<open>app/db/incidents.py\<close>): opening or merging under the partial unique
  index, guarded transitions with the optimistic lock, and reading. Shown: the moves of the
  state machine, that closed means terminal and stays closed, that of two writers with the same
  version one loses, that duplicates merge into one open incident.
\<close>

section \<open>The state machine\<close>

definition TERMINAL :: "istate list" where
  "TERMINAL = [RESOLVED, ESCALATED]"

text \<open>\<open>TRANSITIONS.get(from_state, frozenset())\<close>.\<close>

fun TRANSITIONS :: "istate \<Rightarrow> istate list" where
  "TRANSITIONS RECEIVED = [TRIAGED]"
| "TRANSITIONS TRIAGED = [INVESTIGATING]"
| "TRANSITIONS INVESTIGATING = [DIAGNOSED]"
| "TRANSITIONS DIAGNOSED = [PLANNED, INVESTIGATING]"
| "TRANSITIONS PLANNED = [SAFETY_REVIEWED]"
| "TRANSITIONS SAFETY_REVIEWED = [AWAITING_APPROVAL, EXECUTING]"
| "TRANSITIONS AWAITING_APPROVAL = [EXECUTING, PLANNED]"
| "TRANSITIONS EXECUTING = [VERIFYING]"
| "TRANSITIONS VERIFYING = [RESOLVED]"
| "TRANSITIONS RESOLVED = []"
| "TRANSITIONS ESCALATED = []"

definition check_transition :: "istate \<Rightarrow> istate \<Rightarrow> exn + unit" where
  "check_transition from_state to_state =
     (if from_state \<in> set TERMINAL then Inl (IllegalTransition from_state from_state)
      else if to_state \<noteq> ESCALATED \<and> to_state \<notin> set (TRANSITIONS from_state)
        then Inl (IllegalTransition from_state to_state)
      else Inr ())"

text \<open>The moves as a relation, one rule per arrow of the table.\<close>

inductive imove :: "istate \<Rightarrow> istate \<Rightarrow> bool" where
  triage: "imove RECEIVED TRIAGED"
| investigate: "imove TRIAGED INVESTIGATING"
| diagnose: "imove INVESTIGATING DIAGNOSED"
| plan: "imove DIAGNOSED PLANNED"
| reinvestigate: "imove DIAGNOSED INVESTIGATING"
| review: "imove PLANNED SAFETY_REVIEWED"
| ask: "imove SAFETY_REVIEWED AWAITING_APPROVAL"
| allow: "imove SAFETY_REVIEWED EXECUTING"
| approve: "imove AWAITING_APPROVAL EXECUTING"
| revise: "imove AWAITING_APPROVAL PLANNED"
| executed: "imove EXECUTING VERIFYING"
| resolve: "imove VERIFYING RESOLVED"
| escalate: "s \<noteq> RESOLVED \<Longrightarrow> s \<noteq> ESCALATED \<Longrightarrow> imove s ESCALATED"

inductive_simps imove_RESOLVED [simp]: "imove RESOLVED t"
inductive_simps imove_ESCALATED [simp]: "imove ESCALATED t"
inductive_simps imove_to_EXECUTING: "imove s EXECUTING"
inductive_simps imove_to_RESOLVED: "imove s RESOLVED"
inductive_simps imove_to_VERIFYING: "imove s VERIFYING"
inductive_simps imove_to_RECEIVED [simp]: "imove s RECEIVED"

lemma check_transition_imove: "check_transition s t = Inr u \<longleftrightarrow> imove s t"
  by (cases s; cases t) (auto simp: check_transition_def TERMINAL_def imove.simps)

lemma check_transition_cases:
  "check_transition s t = (if imove s t then Inr ()
     else if s \<in> set TERMINAL then Inl (IllegalTransition s s) else Inl (IllegalTransition s t))"
  using check_transition_imove [of s t "()"] by (auto simp: check_transition_def split: if_splits)

text \<open>A history of an incident: the states it went through, oldest first.\<close>

fun imoves :: "istate list \<Rightarrow> bool" where
  "imoves [] = False"
| "imoves [s] = (s = RECEIVED)"
| "imoves (s # t # h) = (imove t s \<and> imoves (t # h))"

text \<open>Histories are kept newest first; the head is the present state.\<close>

lemma resolved_was_reviewed:
  "imoves (s # h) \<Longrightarrow>
     (s \<in> {SAFETY_REVIEWED, AWAITING_APPROVAL, EXECUTING, VERIFYING, RESOLVED} \<longrightarrow>
        SAFETY_REVIEWED \<in> set (s # h)) \<and>
     (s \<in> {VERIFYING, RESOLVED} \<longrightarrow> EXECUTING \<in> set (s # h)) \<and>
     (s = RESOLVED \<longrightarrow> VERIFYING \<in> set (s # h)) \<and>
     (s \<in> {DIAGNOSED, PLANNED, SAFETY_REVIEWED, AWAITING_APPROVAL, EXECUTING, VERIFYING, RESOLVED} \<longrightarrow>
        DIAGNOSED \<in> set (s # h))"
proof (induction h arbitrary: s)
  case Nil
  then show ?case by simp
next
  case (Cons t h)
  then have m: "imove t s" and h: "imoves (t # h)" by simp_all
  show ?case using m Cons.IH [OF h] by (cases rule: imove.cases) auto
qed

section \<open>Reading\<close>

definition incidents_get :: "db \<Rightarrow> string \<Rightarrow> string option \<Rightarrow> incident_row option" where
  "incidents_get d incident_id tenant_id =
     find (\<lambda>r. i_id r = incident_id \<and> (case tenant_id of None \<Rightarrow> True | Some t \<Rightarrow> i_tenant r = t)) (incidents d)"

text \<open>Newest first.\<close>

definition list_for_tenant :: "db \<Rightarrow> string \<Rightarrow> nat \<Rightarrow> incident_row list" where
  "list_for_tenant d tenant_id limit =
     take limit (sort_key (\<lambda>r. - i_created_at r) (filter (\<lambda>r. i_tenant r = tenant_id) (incidents d)))"

section \<open>Opening and merging\<close>

definition new_incident ::
    "world \<Rightarrow> string \<Rightarrow> string \<Rightarrow> string \<Rightarrow> string \<Rightarrow> string \<Rightarrow> string \<Rightarrow> nat \<Rightarrow> (string \<times> string) list \<Rightarrow> incident_row" where
  "new_incident w new_id tenant_id fingerprint title service environment priority labels =
     \<lparr>i_id = new_id, i_tenant = tenant_id, i_fingerprint = fingerprint, i_title = title, i_service = service,
      i_environment = environment, i_priority = priority, i_state = RECEIVED, i_version = 1, i_alert_count = 1,
      i_labels = labels, i_created_at = w_now w, i_updated_at = w_now w, i_closed_at = None\<rparr>"

definition open_for :: "string \<Rightarrow> string \<Rightarrow> incident_row \<Rightarrow> bool" where
  "open_for tenant_id fingerprint r \<longleftrightarrow> i_tenant r = tenant_id \<and> i_fingerprint r = fingerprint \<and> is_open r"

definition merge_alert :: "world \<Rightarrow> nat \<Rightarrow> incident_row \<Rightarrow> incident_row" where
  "merge_alert w priority r =
     r\<lparr>i_alert_count := i_alert_count r + 1, i_priority := min (i_priority r) priority, i_updated_at := w_now w\<rparr>"

text \<open>
  One turn of the loop is an INSERT that does nothing on a conflict and, if it did nothing, an
  UPDATE of the open incident. Under READ COMMITTED other transactions may commit between the
  two statements: \<open>others k\<close> is what they do to the database in turn \<open>k\<close>. The new id is
  \<open>gen_random_uuid()\<close>; a clash of ids is the primary key's error.
\<close>

fun open_or_merge_loop ::
    "(nat \<Rightarrow> db \<Rightarrow> db) \<Rightarrow> world \<Rightarrow> incident_row \<Rightarrow> nat \<Rightarrow> (string \<times> bool) tx" where
  "open_or_merge_loop others w new 0 d = Inl RuntimeError"
| "open_or_merge_loop others w new (Suc k) d =
     (if find (open_for (i_tenant new) (i_fingerprint new)) (incidents d) = None then
        (if i_id new \<in> set (map i_id (incidents d)) \<or> 3 < i_priority new then Inl IntegrityError
         else Inr ((i_id new, True), d\<lparr>incidents := incidents d @ [new]\<rparr>))
      else
        let d1 = others k d in
        case find (open_for (i_tenant new) (i_fingerprint new)) (incidents d1) of
          Some r \<Rightarrow> Inr ((i_id r, False), d1\<lparr>incidents :=
            sql_update (open_for (i_tenant new) (i_fingerprint new)) (merge_alert w (i_priority new)) (incidents d1)\<rparr>)
        | None \<Rightarrow> open_or_merge_loop others w new k d1)"

definition open_or_merge ::
    "(nat \<Rightarrow> db \<Rightarrow> db) \<Rightarrow> world \<Rightarrow> string \<Rightarrow> string \<Rightarrow> string \<Rightarrow> string \<Rightarrow> string \<Rightarrow> string \<Rightarrow> nat \<Rightarrow>
       (string \<times> string) list \<Rightarrow> (string \<times> bool) tx" where
  "open_or_merge others w new_id tenant_id fingerprint title service environment priority labels d =
     open_or_merge_loop others w (new_incident w new_id tenant_id fingerprint title service environment priority labels) 3 d"

text \<open>Nothing else commits while the transaction runs.\<close>

definition quiet :: "nat \<Rightarrow> db \<Rightarrow> db" where
  "quiet k d = d"

section \<open>Transitions\<close>

definition at_version :: "string \<Rightarrow> istate \<Rightarrow> nat \<Rightarrow> incident_row \<Rightarrow> bool" where
  "at_version incident_id from_state version r \<longleftrightarrow>
     i_id r = incident_id \<and> i_state r = from_state \<and> i_version r = version"

definition moved :: "world \<Rightarrow> istate \<Rightarrow> incident_row \<Rightarrow> incident_row" where
  "moved w to_state r =
     r\<lparr>i_state := to_state, i_version := i_version r + 1, i_updated_at := w_now w,
       i_closed_at := (if to_state \<in> set TERMINAL then Some (w_now w) else i_closed_at r)\<rparr>"

definition transition_payload :: "istate \<Rightarrow> istate \<Rightarrow> nat \<Rightarrow> string \<Rightarrow> json" where
  "transition_payload from_state to_state version reason =
     JObj [(''from'', JStr (istate_text from_state)), (''to'', JStr (istate_text to_state)),
           (''version'', JInt (int version)), (''reason'', JStr reason)]"

text \<open>
  \<open>transition\<close>: the check, the conditional UPDATE, and the audit event in the same
  transaction. The span event and the metrics that are observed after the commit are not state.
\<close>

definition transition ::
    "world \<Rightarrow> string \<Rightarrow> istate \<Rightarrow> istate \<Rightarrow> nat \<Rightarrow> string \<Rightarrow> string \<Rightarrow> nat tx" where
  "transition w incident_id from_state to_state expected_version actor reason d =
     bindS (check_transition from_state to_state) (\<lambda>_.
       case find (at_version incident_id from_state expected_version) (incidents d) of
         None \<Rightarrow> Inl StaleVersion
       | Some row \<Rightarrow>
           let d1 = d\<lparr>incidents :=
                 sql_update (at_version incident_id from_state expected_version) (moved w to_state) (incidents d)\<rparr>;
               version = i_version row + 1
           in bindS (audit_append w actor ''incident.transition'' incident_id (Some (i_tenant row))
                      (transition_payload from_state to_state version reason) d1)
                (\<lambda>(_, d2). Inr (version, d2)))"

subsection \<open>What a transition does\<close>

lemma transition_steps:
  assumes "transition w iid s t v actor rs d = Inr (v', d')"
  shows "\<exists>row h. imove s t \<and> find (at_version iid s v) (incidents d) = Some row \<and>
    audit_append w actor ''incident.transition'' iid (Some (i_tenant row))
      (transition_payload s t (i_version row + 1) rs)
      (d\<lparr>incidents := sql_update (at_version iid s v) (moved w t) (incidents d)\<rparr>) = Inr (h, d') \<and>
    v' = i_version row + 1"
  using assms by (auto simp: transition_def tx_simps Let_def check_transition_imove split: option.splits)

lemma transition_InrE:
  assumes "transition w iid s t v actor rs d = Inr (v', d')"
  obtains row arow where
    "imove s t" "row \<in> set (incidents d)" "i_id row = iid" "i_state row = s" "i_version row = v" "v' = v + 1"
    "incidents d' = sql_update (at_version iid s v) (moved w t) (incidents d)"
    "audit_log d' = audit_log d @ [arow]" "a_event arow = ''incident.transition''" "a_subject arow = iid"
    "a_actor arow = actor" "a_payload arow = transition_payload s t v' rs"
    "d' = d\<lparr>incidents := incidents d', audit_log := audit_log d'\<rparr>"
proof -
  from transition_steps [OF assms] obtain row h where
    c: "imove s t" and f: "find (at_version iid s v) (incidents d) = Some row" and
    a: "audit_append w actor ''incident.transition'' iid (Some (i_tenant row))
          (transition_payload s t (i_version row + 1) rs)
          (d\<lparr>incidents := sql_update (at_version iid s v) (moved w t) (incidents d)\<rparr>) = Inr (h, d')" and
    r: "v' = i_version row + 1" by blast
  from find_in_set [OF f] have row: "row \<in> set (incidents d)" "i_id row = iid" "i_state row = s" "i_version row = v"
    by (auto simp: at_version_def)
  from audit_append_frame [OF a] obtain arow where
    ar: "d' = d\<lparr>incidents := sql_update (at_version iid s v) (moved w t) (incidents d), audit_log := audit_log d @ [arow]\<rparr>"
    "a_event arow = ''incident.transition''" "a_subject arow = iid" "a_actor arow = actor"
    "a_payload arow = transition_payload s t (i_version row + 1) rs"
    by auto
  show thesis by (rule that [OF c row]) (use ar r row in auto)
qed

text \<open>The tables a transition leaves alone.\<close>

lemma transition_frame:
  assumes "transition w iid s t v actor rs d = Inr (v', d')"
  shows "jobs d' = jobs d" "alerts d' = alerts d" "evidence d' = evidence d" "tool_calls d' = tool_calls d"
    "llm_calls d' = llm_calls d" "agent_runs d' = agent_runs d" "blackboard d' = blackboard d"
    "remediation_plans d' = remediation_plans d" "approvals d' = approvals d" "executions d' = executions d"
  using assms by (auto elim!: transition_InrE)

lemma moved_key [simp]:
  "i_id (moved w t r) = i_id r" "open_key (moved w t r) = open_key r" "i_tenant (moved w t r) = i_tenant r"
  "i_priority (moved w t r) = i_priority r" "i_state (moved w t r) = t" "i_version (moved w t r) = i_version r + 1"
  by (simp_all add: moved_def open_key_def)

lemma incidents_get_by_id:
  "distinct (map i_id (incidents d)) \<Longrightarrow> r \<in> set (incidents d) \<Longrightarrow> incidents_get d (i_id r) None = Some r"
  by (simp add: incidents_get_def find_key_eq)

lemma transition_get:
  assumes "transition w iid s t v actor rs d = Inr (v', d')" "distinct (map i_id (incidents d))"
  shows "\<exists>r. incidents_get d iid None = Some r \<and> i_state r = s \<and> i_version r = v \<and>
           incidents_get d' iid None = Some (moved w t r)"
proof -
  from assms(1) obtain row where row: "row \<in> set (incidents d)" "i_id row = iid" "i_state row = s" "i_version row = v"
    and inc: "incidents d' = sql_update (at_version iid s v) (moved w t) (incidents d)"
    by (rule transition_InrE)
  have mem: "moved w t row \<in> set (incidents d')"
    using row inc by (auto simp: sql_simps at_version_def intro!: bexI [of _ row])
  have "distinct (map i_id (incidents d'))" using assms(2) by (simp add: inc map_sql_update)
  from incidents_get_by_id [OF this mem] have "incidents_get d' iid None = Some (moved w t row)"
    using row by simp
  moreover have "incidents_get d iid None = Some row" using incidents_get_by_id [OF assms(2) row(1)] row by simp
  ultimately show ?thesis using row by auto
qed

text \<open>Every other incident is as it was.\<close>

lemma transition_other:
  assumes "transition w iid s t v actor rs d = Inr (v', d')" "other \<noteq> iid"
  shows "incidents_get d' other tn = incidents_get d other tn"
proof -
  from assms(1) obtain row where inc: "incidents d' = sql_update (at_version iid s v) (moved w t) (incidents d)"
    by (rule transition_InrE)
  show ?thesis
    unfolding incidents_get_def inc
    by (rule find_sql_update_frame) (use assms(2) in \<open>auto simp: at_version_def\<close>)
qed

text \<open>The optimistic lock: the same \<open>(state, version)\<close> cannot be spent twice.\<close>

lemma transition_once:
  assumes "transition w iid s t v actor rs d = Inr (v', d')" "distinct (map i_id (incidents d))"
    and "imove s t'"
  shows "transition w' iid s t' v actor' rs' d' = Inl StaleVersion"
proof -
  from transition_get [OF assms(1,2)] obtain r where
    r: "incidents_get d' iid None = Some (moved w t r)" "i_version r = v" by blast
  from assms(1) have inc: "incidents d' = sql_update (at_version iid s v) (moved w t) (incidents d)"
    by (rule transition_InrE)
  have dist: "distinct (map i_id (incidents d'))" using assms(2) by (simp add: inc map_sql_update)
  have "moved w t r \<in> set (incidents d')" "i_id (moved w t r) = iid"
    using r(1) find_in_set unfolding incidents_get_def by fastforce+
  then have "\<not> at_version iid s v x" if "x \<in> set (incidents d')" for x
    using distinct_key_inj [OF dist that] r(2) by (auto simp: at_version_def)
  then have "find (at_version iid s v) (incidents d') = None" by (simp add: find_None_iff)
  with assms(3) show ?thesis by (simp add: transition_def check_transition_cases)
qed

section \<open>Invariants\<close>

text \<open>Closed is the same as terminal.\<close>

definition closed_iff_terminal :: "db \<Rightarrow> bool" where
  "closed_iff_terminal d \<longleftrightarrow> list_all (\<lambda>r. is_open r \<longleftrightarrow> i_state r \<notin> set TERMINAL) (incidents d)"

lemma transition_closed_iff_terminal:
  assumes "transition w iid s t v actor rs d = Inr (v', d')" "closed_iff_terminal d"
  shows "closed_iff_terminal d'"
proof -
  from assms(1) have m: "imove s t"
    and inc: "incidents d' = sql_update (at_version iid s v) (moved w t) (incidents d)"
    by (auto elim: transition_InrE)
  from m have "s \<notin> set TERMINAL" by (cases rule: imove.cases) (auto simp: TERMINAL_def)
  then have "is_open (moved w t r) \<longleftrightarrow> t \<notin> set TERMINAL" if "is_open r \<longleftrightarrow> i_state r \<notin> set TERMINAL" "i_state r = s" for r
    using that by (simp add: is_open_def moved_def)
  with assms(2) show ?thesis
    by (auto simp: closed_iff_terminal_def list_all_iff inc set_sql_update at_version_def split: if_split_asm)
qed

lemma distinct_map_filter_update:
  assumes "distinct (map k (filter p xs))" "\<And>x. x \<in> set xs \<Longrightarrow> c x \<Longrightarrow> k (f x) = k x"
    "\<And>x. x \<in> set xs \<Longrightarrow> c x \<Longrightarrow> p (f x) \<Longrightarrow> p x"
  shows "distinct (map k (filter p (sql_update c f xs)))"
  using assms
proof (induction xs)
  case (Cons x xs)
  have sub: "k ` {y \<in> set (sql_update c f xs). p y} \<subseteq> k ` {y \<in> set xs. p y}"
  proof
    fix z
    assume "z \<in> k ` {y \<in> set (sql_update c f xs). p y}"
    then obtain y where y: "y \<in> set xs" "z = k (if c y then f y else y)" "p (if c y then f y else y)"
      by (auto simp: sql_simps)
    with Cons.prems(2,3) [of y] show "z \<in> k ` {y \<in> set xs. p y}" by (cases "c y") auto
  qed
  have IH: "distinct (map k (filter p (sql_update c f xs)))"
    by (rule Cons.IH) (use Cons.prems in \<open>auto split: if_splits\<close>)
  show ?case
  proof (cases "p (if c x then f x else x)")
    case False
    with IH show ?thesis by simp
  next
    case True
    with Cons.prems(2,3) [of x] have x: "p x" "k (if c x then f x else x) = k x" by (auto split: if_splits)
    with Cons.prems(1) have "k x \<notin> k ` {y \<in> set xs. p y}" by (auto simp: image_iff)
    with sub have "k x \<notin> k ` {y \<in> set (sql_update c f xs). p y}" by blast
    with IH True x(2) show ?thesis by (auto simp: image_iff)
  qed
qed simp

lemma transition_constraints:
  assumes "transition w iid s t v actor rs d = Inr (v', d')" "constraints d"
  shows "constraints d'"
proof -
  note fr = transition_frame [OF assms(1)]
  from assms(1) have inc: "incidents d' = sql_update (at_version iid s v) (moved w t) (incidents d)"
    by (rule transition_InrE)
  have "distinct (map open_key (filter is_open (incidents d')))"
    unfolding inc
    by (rule distinct_map_filter_update) (use assms(2) in \<open>auto simp: constraints_def is_open_def open_key_def moved_def split: if_splits\<close>)
  moreover have "distinct (map i_id (incidents d'))" using assms(2) by (simp add: inc map_sql_update constraints_def)
  moreover have "list_all (\<lambda>r. i_priority r \<le> 3) (incidents d')"
    using assms(2) by (auto simp: constraints_def list_all_iff inc sql_simps)
  ultimately show ?thesis using assms(2) by (simp add: constraints_def fr job_keys_def)
qed

lemma transition_audit_ok:
  assumes "transition w iid s t v actor rs d = Inr (v', d')" "audit_ok w0 d"
    and "w_sha w = w_sha w0" "w_iso w = w_iso w0" "\<And>x. w_sha w0 x \<noteq> []"
  shows "audit_ok w0 d'"
proof -
  from transition_steps [OF assms(1)] obtain row :: incident_row and h where
    "audit_append w actor ''incident.transition'' iid (Some (i_tenant row))
       (transition_payload s t (i_version row + 1) rs)
       (d\<lparr>incidents := sql_update (at_version iid s v) (moved w t) (incidents d)\<rparr>) = Inr (h, d')"
    by blast
  moreover have "audit_ok w0 (d\<lparr>incidents := x\<rparr>)" for x using assms(2) by (simp add: audit_ok_def)
  ultimately show ?thesis using audit_append_ok assms(3-5) by blast
qed

section \<open>Duplicates merge\<close>

lemma open_or_merge_quiet:
  "open_or_merge quiet w new_id tn fp title service env prio labels d =
     (case find (open_for tn fp) (incidents d) of
        None \<Rightarrow> if new_id \<in> set (map i_id (incidents d)) \<or> 3 < prio then Inl IntegrityError
                else Inr ((new_id, True), d\<lparr>incidents := incidents d @ [new_incident w new_id tn fp title service env prio labels]\<rparr>)
      | Some r \<Rightarrow> Inr ((i_id r, False), d\<lparr>incidents := sql_update (open_for tn fp) (merge_alert w prio) (incidents d)\<rparr>))"
  by (simp add: open_or_merge_def numeral_3_eq_3 new_incident_def quiet_def split: option.splits)

lemma merge_alert_simps [simp]:
  "i_id (merge_alert w p r) = i_id r" "open_key (merge_alert w p r) = open_key r"
  "i_state (merge_alert w p r) = i_state r" "is_open (merge_alert w p r) = is_open r"
  "open_for tn fp (merge_alert w p r) = open_for tn fp r" "i_version (merge_alert w p r) = i_version r"
  "i_tenant (merge_alert w p r) = i_tenant r" "i_priority (merge_alert w p r) = min (i_priority r) p"
  by (simp_all add: merge_alert_def open_key_def is_open_def open_for_def)

lemma new_incident_simps [simp]:
  "i_id (new_incident w a b c e f g h i) = a" "open_key (new_incident w a b c e f g h i) = (b, c)"
  "is_open (new_incident w a b c e f g h i)" "i_state (new_incident w a b c e f g h i) = RECEIVED"
  "i_priority (new_incident w a b c e f g h i) = h" "i_tenant (new_incident w a b c e f g h i) = b"
  "i_fingerprint (new_incident w a b c e f g h i) = c" "i_version (new_incident w a b c e f g h i) = 1"
  by (simp_all add: new_incident_def open_key_def is_open_def)

lemma open_for_key: "open_for tn fp r \<longleftrightarrow> is_open r \<and> open_key r = (tn, fp)"
  by (auto simp: open_for_def open_key_def)

lemma insert_constraints:
  assumes "constraints d" "find (open_for tn fp) (incidents d) = None" "open_key new = (tn, fp)" "is_open new"
    "i_id new \<notin> set (map i_id (incidents d))" "i_priority new \<le> 3"
  shows "constraints (d\<lparr>incidents := incidents d @ [new]\<rparr>)"
  using assms by (auto simp: constraints_def find_None_iff open_for_key job_keys_def)

lemma merge_constraints:
  assumes "constraints d"
  shows "constraints (d\<lparr>incidents := sql_update (open_for tn fp) (merge_alert w p) (incidents d)\<rparr>)"
proof -
  have "distinct (map open_key (filter is_open (sql_update (open_for tn fp) (merge_alert w p) (incidents d))))"
    by (rule distinct_map_filter_update) (use assms in \<open>auto simp: constraints_def\<close>)
  moreover have "list_all (\<lambda>r. i_priority r \<le> 3) (sql_update (open_for tn fp) (merge_alert w p) (incidents d))"
    using assms by (auto simp: constraints_def list_all_iff sql_simps min_le_iff_disj)
  ultimately show ?thesis using assms by (simp add: constraints_def map_sql_update job_keys_def)
qed

text \<open>Whatever other transactions commit in between, as long as they keep the constraints.\<close>

lemma open_or_merge_loop_constraints:
  assumes "open_or_merge_loop others w new k d = Inr (r, d')" "constraints d"
    and "\<And>k d. constraints d \<Longrightarrow> constraints (others k d)" "is_open new"
  shows "constraints d' \<and> (\<exists>row \<in> set (incidents d'). i_id row = fst r \<and> is_open row \<and> open_key row = open_key new)"
  using assms(1,2)
proof (induction k arbitrary: d)
  case 0
  then show ?case by simp
next
  case (Suc k)
  let ?p = "open_for (i_tenant new) (i_fingerprint new)"
  have key: "open_key new = (i_tenant new, i_fingerprint new)" by (simp add: open_key_def)
  show ?case
  proof (cases "find ?p (incidents d)")
    case None
    with Suc.prems have "d' = d\<lparr>incidents := incidents d @ [new]\<rparr>" "r = (i_id new, True)"
      "i_id new \<notin> set (map i_id (incidents d))" "i_priority new \<le> 3"
      by (auto split: if_splits)
    with insert_constraints [OF Suc.prems(2) None key assms(4)] assms(4) show ?thesis by auto
  next
    case (Some x)
    show ?thesis
    proof (cases "find ?p (incidents (others k d))")
      case None
      with Some Suc.prems(1) have "open_or_merge_loop others w new k (others k d) = Inr (r, d')"
        by (simp add: Let_def)
      with Suc.IH assms(3) Suc.prems(2) show ?thesis by blast
    next
      case (Some y)
      with \<open>find ?p (incidents d) = Some x\<close> Suc.prems(1)
      have d': "d' = (others k d)\<lparr>incidents := sql_update ?p (merge_alert w (i_priority new)) (incidents (others k d))\<rparr>"
        and r: "r = (i_id y, False)" by (auto simp: Let_def)
      from find_in_set [OF Some] have "merge_alert w (i_priority new) y \<in> set (incidents d')"
        by (auto simp: d' sql_simps intro!: bexI [of _ y])
      moreover have "constraints d'" unfolding d' using merge_constraints assms(3) Suc.prems(2) by blast
      ultimately show ?thesis using find_in_set [OF Some] r key
        by (auto simp: open_for_key intro!: bexI [of _ "merge_alert w (i_priority new) y"])
    qed
  qed
qed

end
