(* ===== verification/Jobs.thy ===== *)
theory Jobs
  imports Incidents "HOL-Library.Product_Lexorder"
begin

text \<open>
  The job queue (\<open>app/queue/jobs.py\<close>): every statement on the table \<open>jobs\<close>, leases and
  fences, retries with backoff, the reaper. The interface other components rely on is the
  locale \<open>fenced\<close>: a handle that lost its fence never gets it back. Shown: the claim takes the
  first runnable job of the order, attempts stay within their limit, a lost lease stays lost,
  a reaped job keeps its place.
\<close>

section \<open>Jobs and statements\<close>

text \<open>What a worker holds: the row as it was claimed.\<close>

record job =
  jb_id :: nat
  jb_tenant :: string
  jb_incident :: "string option"
  jb_kind :: string
  jb_payload :: "(string \<times> json) list"
  jb_priority :: nat
  jb_attempts :: int
  jb_max_attempts :: int
  jb_fence :: nat
  jb_lease_owner :: string
  jb_waited :: int

definition from_row :: "time \<Rightarrow> job_row \<Rightarrow> job" where
  "from_row now r =
     \<lparr>jb_id = j_id r, jb_tenant = j_tenant r, jb_incident = j_incident r, jb_kind = j_kind r,
      jb_payload = j_payload r, jb_priority = j_priority r, jb_attempts = j_attempts r,
      jb_max_attempts = j_max_attempts r, jb_fence = j_fence r,
      jb_lease_owner = (case j_lease_owner r of Some q \<Rightarrow> q | None \<Rightarrow> ''''), jb_waited = now - j_run_after r\<rparr>"

text \<open>
  \<open>INSERT ... ON CONFLICT (idempotency_key) DO NOTHING\<close>; a NULL key never conflicts. The
  CHECK on the priority comes before the conflict.
\<close>

definition queued_row ::
    "world \<Rightarrow> nat \<Rightarrow> string \<Rightarrow> string \<Rightarrow> nat \<Rightarrow> int \<Rightarrow> duration \<Rightarrow> string option \<Rightarrow> (string \<times> json) list \<Rightarrow>
       string option \<Rightarrow> duration \<Rightarrow> job_row" where
  "queued_row w new_id tenant_id kind priority max_attempts aging_step_s incident_id payload idempotency_key delay_s =
     \<lparr>j_id = new_id, j_tenant = tenant_id, j_incident = incident_id, j_kind = kind,
      j_payload = payload, j_idempotency_key = idempotency_key, j_priority = priority, j_status = Queued,
      j_attempts = 0, j_max_attempts = max_attempts,
      j_sort_key = w_now w + usecs (of_nat priority * aging_step_s),
      j_run_after = w_now w + usecs delay_s, j_lease_owner = None, j_lease_until = None, j_fence = 0,
      j_last_error = None, j_updated_at = w_now w\<rparr>"

definition enqueue ::
    "world \<Rightarrow> string \<Rightarrow> string \<Rightarrow> nat \<Rightarrow> int \<Rightarrow> duration \<Rightarrow> string option \<Rightarrow> (string \<times> json) list \<Rightarrow>
       string option \<Rightarrow> duration \<Rightarrow> nat option tx" where
  "enqueue w tenant_id kind priority max_attempts aging_step_s incident_id payload idempotency_key delay_s d =
     (if 3 < priority then Inl IntegrityError
      else if (\<exists>k \<in> set (job_keys d). idempotency_key = Some k) then Inr (None, d)
      else
        let new_id = next_id (map j_id (jobs d));
            new = queued_row w new_id tenant_id kind priority max_attempts aging_step_s incident_id payload idempotency_key delay_s
        in Inr (Some new_id, d\<lparr>jobs := jobs d @ [new]\<rparr>))"

definition runnable :: "time \<Rightarrow> nat \<Rightarrow> string list option \<Rightarrow> job_row \<Rightarrow> bool" where
  "runnable now max_priority kinds r \<longleftrightarrow>
     j_status r = Queued \<and> j_run_after r \<le> now \<and> j_priority r \<le> max_priority \<and>
     (case kinds of None \<Rightarrow> True | Some ks \<Rightarrow> j_kind r \<in> set ks)"

definition claim_order :: "job_row \<Rightarrow> job_row \<Rightarrow> bool" where
  "claim_order a b \<longleftrightarrow> j_sort_key a < j_sort_key b \<or> j_sort_key a = j_sort_key b \<and> j_id a < j_id b"

definition lease :: "world \<Rightarrow> string \<Rightarrow> duration \<Rightarrow> job_row \<Rightarrow> job_row" where
  "lease w owner ttl r =
     r\<lparr>j_status := Running, j_lease_owner := Some owner, j_lease_until := Some (w_now w + usecs ttl),
       j_fence := j_fence r + 1, j_attempts := j_attempts r + 1, j_updated_at := w_now w\<rparr>"

text \<open>
  \<open>claim\<close>: \<open>locked\<close> says which rows other transactions hold at this moment; SKIP LOCKED passes
  them over. An empty sequence of kinds is the same as none (\<open>list(kinds) if kinds else None\<close>).
\<close>

definition claimable :: "(nat \<Rightarrow> bool) \<Rightarrow> time \<Rightarrow> nat \<Rightarrow> string list option \<Rightarrow> db \<Rightarrow> job_row list" where
  "claimable locked now max_priority kinds d =
     (let ks = (case kinds of Some (k # r) \<Rightarrow> Some (k # r) | _ \<Rightarrow> None)
      in filter (\<lambda>r. runnable now max_priority ks r \<and> \<not> locked (j_id r)) (jobs d))"

definition claim ::
    "(nat \<Rightarrow> bool) \<Rightarrow> world \<Rightarrow> string \<Rightarrow> duration \<Rightarrow> nat \<Rightarrow> string list option \<Rightarrow> db \<Rightarrow> job option \<times> db" where
  "claim locked w owner lease_ttl_s max_priority kinds d =
     (case least_by claim_order (claimable locked (w_now w) max_priority kinds d) of
        None \<Rightarrow> (None, d)
      | Some r \<Rightarrow> (Some (from_row (w_now w) (lease w owner lease_ttl_s r)),
          d\<lparr>jobs := sql_update (\<lambda>x. j_id x = j_id r) (lease w owner lease_ttl_s) (jobs d)\<rparr>))"

lemma claimable_mem: "r \<in> set (claimable locked now mp ks d) \<Longrightarrow>
    r \<in> set (jobs d) \<and> j_status r = Queued \<and> j_run_after r \<le> now \<and> j_priority r \<le> mp \<and> \<not> locked (j_id r) \<and>
    (\<forall>k. ks = Some k \<longrightarrow> k \<noteq> [] \<longrightarrow> j_kind r \<in> set k)"
  by (cases ks) (auto simp: claimable_def runnable_def Let_def split: list.splits)

text \<open>\<open>WHERE id = :id AND fence = :fence AND status = 'running'\<close>.\<close>

definition owned :: "job \<Rightarrow> job_row \<Rightarrow> bool" where
  "owned job r \<longleftrightarrow> j_id r = jb_id job \<and> j_fence r = jb_fence job \<and> j_status r = Running"

definition holds :: "db \<Rightarrow> job \<Rightarrow> bool" where
  "holds d job \<longleftrightarrow> find (owned job) (jobs d) \<noteq> None"

definition update_owned :: "job \<Rightarrow> (job_row \<Rightarrow> job_row) \<Rightarrow> db \<Rightarrow> db" where
  "update_owned job f d = d\<lparr>jobs := sql_update (owned job) f (jobs d)\<rparr>"

definition beat_row :: "world \<Rightarrow> duration \<Rightarrow> job_row \<Rightarrow> job_row" where
  "beat_row w lease_ttl_s r = r\<lparr>j_lease_until := Some (w_now w + usecs lease_ttl_s), j_updated_at := w_now w\<rparr>"

definition heartbeat :: "world \<Rightarrow> job \<Rightarrow> duration \<Rightarrow> db \<Rightarrow> bool \<times> db" where
  "heartbeat w job lease_ttl_s d = (holds d job, update_owned job (beat_row w lease_ttl_s) d)"

definition assert_fence :: "job \<Rightarrow> db \<Rightarrow> exn + unit" where
  "assert_fence job d = guard (holds d job) (LeaseLost (jb_id job) (jb_fence job))"

definition finished_row :: "(job_row \<Rightarrow> job_row) \<Rightarrow> world \<Rightarrow> job_row \<Rightarrow> job_row" where
  "finished_row assignments w r =
     (assignments r)\<lparr>j_lease_owner := None, j_lease_until := None, j_updated_at := w_now w\<rparr>"

definition finish :: "job \<Rightarrow> (job_row \<Rightarrow> job_row) \<Rightarrow> world \<Rightarrow> unit tx" where
  "finish job assignments w d =
     (if holds d job then Inr ((), update_owned job (finished_row assignments w) d)
      else Inl (LeaseLost (jb_id job) (jb_fence job)))"

definition set_done :: "job_row \<Rightarrow> job_row" where
  "set_done r = r\<lparr>j_status := Done, j_last_error := None\<rparr>"

definition set_queued :: "world \<Rightarrow> job_row \<Rightarrow> job_row" where
  "set_queued w r = r\<lparr>j_status := Queued, j_attempts := j_attempts r - 1, j_run_after := w_now w\<rparr>"

definition complete :: "world \<Rightarrow> job \<Rightarrow> unit tx" where
  "complete w job = finish job set_done w"

definition release :: "world \<Rightarrow> job \<Rightarrow> unit tx" where
  "release w job = finish job (set_queued w) w"

text \<open>
  \<open>backoff_delay\<close>; \<open>rnd\<close> is \<open>random.random()\<close>, and \<open>random.uniform(0, b)\<close> is \<open>b * rnd\<close>.
\<close>

definition backoff_delay :: "rat \<Rightarrow> int \<Rightarrow> duration \<Rightarrow> duration \<Rightarrow> duration" where
  "backoff_delay rnd attempt base_s max_s =
     (let cap = min max_s (base_s * 2 ^ nat (max (attempt - 1) 0)) in cap / 2 + cap / 2 * rnd)"

definition failed_row :: "world \<Rightarrow> string \<Rightarrow> bool \<Rightarrow> duration \<Rightarrow> job_row \<Rightarrow> job_row" where
  "failed_row w error retryable delay r =
     r\<lparr>j_status := (if retryable \<and> j_attempts r < j_max_attempts r then Queued else Dead),
       j_run_after := w_now w + usecs delay, j_lease_owner := None, j_lease_until := None,
       j_last_error := Some (take 2000 error), j_updated_at := w_now w\<rparr>"

definition fail ::
    "rat \<Rightarrow> world \<Rightarrow> job \<Rightarrow> string \<Rightarrow> bool \<Rightarrow> duration \<Rightarrow> duration \<Rightarrow> job_status tx" where
  "fail rnd w job error retryable backoff_base_s backoff_max_s d =
     (let delay = backoff_delay rnd (jb_attempts job) backoff_base_s backoff_max_s
      in case find (owned job) (jobs d) of
           None \<Rightarrow> Inl (LeaseLost (jb_id job) (jb_fence job))
         | Some r \<Rightarrow> Inr (j_status (failed_row w error retryable delay r),
             update_owned job (failed_row w error retryable delay) d))"

definition expired :: "(nat \<Rightarrow> bool) \<Rightarrow> world \<Rightarrow> job_row \<Rightarrow> bool" where
  "expired locked w r \<longleftrightarrow>
     j_status r = Running \<and> (case j_lease_until r of None \<Rightarrow> False | Some t \<Rightarrow> t < w_now w) \<and> \<not> locked (j_id r)"

definition reaped :: "world \<Rightarrow> job_row \<Rightarrow> job_row" where
  "reaped w r =
     r\<lparr>j_status := (if j_max_attempts r \<le> j_attempts r then Dead else Queued), j_lease_owner := None,
       j_lease_until := None, j_last_error := Some ''lease expired'', j_updated_at := w_now w\<rparr>"

definition reap :: "(nat \<Rightarrow> bool) \<Rightarrow> world \<Rightarrow> db \<Rightarrow> (nat \<times> job_status) list \<times> db" where
  "reap locked w d =
     (map (\<lambda>r. (j_id r, j_status (reaped w r))) (filter (expired locked w) (jobs d)),
      d\<lparr>jobs := sql_update (expired locked w) (reaped w) (jobs d)\<rparr>)"

section \<open>Steps of the queue\<close>

text \<open>
  One transaction's effect on the table, whichever worker runs it. \<open>other\<close> is any transaction
  that leaves the table alone.
\<close>

inductive qstep :: "db \<Rightarrow> db \<Rightarrow> bool" where
  q_enqueue: "enqueue w tn k p m st inc pl key dl d = Inr (r, d') \<Longrightarrow> qstep d d'"
| q_claim: "claim locked w owner ttl mp ks d = (r, d') \<Longrightarrow> qstep d d'"
| q_heartbeat: "heartbeat w job ttl d = (r, d') \<Longrightarrow> qstep d d'"
| q_complete: "complete w job d = Inr (r, d') \<Longrightarrow> qstep d d'"
| q_fail: "fail rnd w job e rt b m d = Inr (r, d') \<Longrightarrow> qstep d d'"
| q_release: "release w job d = Inr (r, d') \<Longrightarrow> qstep d d'"
| q_reap: "reap locked w d = (r, d') \<Longrightarrow> qstep d d'"
| q_other: "jobs d' = jobs d \<Longrightarrow> qstep d d'"

text \<open>What the steps have in common: rows are rewritten in place, or one row is appended.\<close>

definition row_step :: "job_row \<Rightarrow> job_row \<Rightarrow> bool" where
  "row_step r r' \<longleftrightarrow>
     j_id r' = j_id r \<and> j_idempotency_key r' = j_idempotency_key r \<and> j_priority r' = j_priority r \<and>
     j_sort_key r' = j_sort_key r \<and> j_max_attempts r' = j_max_attempts r \<and> j_kind r' = j_kind r \<and>
     j_incident r' = j_incident r \<and> j_payload r' = j_payload r \<and> j_tenant r' = j_tenant r \<and>
     (j_status r' = Running \<longrightarrow>
        (j_status r = Running \<and> j_fence r' = j_fence r \<and> j_attempts r' = j_attempts r) \<or>
        (j_status r = Queued \<and> j_fence r' = j_fence r + 1 \<and> j_attempts r' = j_attempts r + 1)) \<and>
     (j_status r' \<noteq> Running \<longrightarrow> j_fence r' = j_fence r \<and>
        (j_status r' = j_status r \<and> j_attempts r' = j_attempts r \<or>
         j_status r = Running \<and>
         (j_status r' = Queued \<longrightarrow> j_attempts r' = j_attempts r - 1 \<or>
            j_attempts r' = j_attempts r \<and> j_attempts r < j_max_attempts r)))"

lemma row_step_fence: "row_step r r' \<Longrightarrow> j_fence r \<le> j_fence r'"
  by (auto simp: row_step_def)

lemma row_step_regain: "row_step r r' \<Longrightarrow> j_status r \<noteq> Running \<Longrightarrow> j_status r' = Running \<Longrightarrow> j_fence r < j_fence r'"
  by (auto simp: row_step_def)

lemma row_step_refl: "row_step r r"
  by (simp add: row_step_def)

lemma list_all2_sql_update: "(\<And>r. p r \<Longrightarrow> R r (f r)) \<Longrightarrow> (\<And>r. R r r) \<Longrightarrow> list_all2 R rows (sql_update p f rows)"
  by (induction rows) auto

definition new_job :: "db \<Rightarrow> job_row \<Rightarrow> bool" where
  "new_job d r \<longleftrightarrow>
     j_status r = Queued \<and> j_fence r = 0 \<and> j_attempts r = 0 \<and> j_priority r \<le> 3 \<and>
     j_id r \<notin> set (map j_id (jobs d)) \<and> (\<forall>k. j_idempotency_key r = Some k \<longrightarrow> k \<notin> set (job_keys d))"

lemma queued_row_simps [simp]:
  "j_id (queued_row w n tn k p m st inc pl key dl) = n" "j_status (queued_row w n tn k p m st inc pl key dl) = Queued"
  "j_fence (queued_row w n tn k p m st inc pl key dl) = 0" "j_attempts (queued_row w n tn k p m st inc pl key dl) = 0"
  "j_priority (queued_row w n tn k p m st inc pl key dl) = p" "j_kind (queued_row w n tn k p m st inc pl key dl) = k"
  "j_idempotency_key (queued_row w n tn k p m st inc pl key dl) = key"
  "j_incident (queued_row w n tn k p m st inc pl key dl) = inc" "j_payload (queued_row w n tn k p m st inc pl key dl) = pl"
  "j_max_attempts (queued_row w n tn k p m st inc pl key dl) = m"
  "j_sort_key (queued_row w n tn k p m st inc pl key dl) = w_now w + usecs (of_nat p * st)"
  by (simp_all add: queued_row_def)

lemma enqueue_Inr:
  assumes "enqueue w tn k p m st inc pl key dl d = Inr (r, d')"
  shows "p \<le> 3 \<and>
     ((r = None \<and> d' = d \<and> (\<exists>x \<in> set (job_keys d). key = Some x)) \<or>
      (\<exists>n. r = Some n \<and> n = next_id (map j_id (jobs d)) \<and> (\<forall>x. key = Some x \<longrightarrow> x \<notin> set (job_keys d)) \<and>
         d' = d\<lparr>jobs := jobs d @ [queued_row w n tn k p m st inc pl key dl]\<rparr>))"
  using assms by (auto simp: enqueue_def Let_def split: if_splits)

lemma row_step_lease: "j_status r = Queued \<Longrightarrow> row_step r (lease w owner ttl r)"
  by (simp add: row_step_def lease_def)

lemma row_step_heartbeat: "owned job r \<Longrightarrow> row_step r (beat_row w ttl r)"
  by (simp add: row_step_def owned_def beat_row_def)

lemma row_step_complete: "owned job r \<Longrightarrow> row_step r (finished_row set_done w r)"
  by (simp add: row_step_def owned_def finished_row_def set_done_def)

lemma row_step_failed: "owned job r \<Longrightarrow> row_step r (failed_row w e rt delay r)"
  by (simp add: row_step_def owned_def failed_row_def)

lemma row_step_release: "owned job r \<Longrightarrow> row_step r (finished_row (set_queued w) w r)"
  by (simp add: row_step_def owned_def finished_row_def set_queued_def)

lemma row_step_reaped: "expired locked w r \<Longrightarrow> row_step r (reaped w r)"
  by (simp add: row_step_def expired_def reaped_def)

lemma qstep_rows:
  assumes "qstep d d'" "distinct (map j_id (jobs d))"
  shows "list_all2 row_step (jobs d) (jobs d') \<or>
     (\<exists>new. jobs d' = jobs d @ [new] \<and> new_job d new)"
  using assms(1)
proof cases
  case (q_enqueue w tn k p m st inc pl key dl r)
  from enqueue_Inr [OF this] show ?thesis
  proof (elim conjE disjE exE)
    assume "d' = d"
    then show ?thesis by (simp add: list.rel_refl row_step_refl)
  next
    fix n
    assume "p \<le> 3" "n = next_id (map j_id (jobs d))" "\<forall>x. key = Some x \<longrightarrow> x \<notin> set (job_keys d)"
      and d': "d' = d\<lparr>jobs := jobs d @ [queued_row w n tn k p m st inc pl key dl]\<rparr>"
    then have "new_job d (queued_row w n tn k p m st inc pl key dl)"
      using next_id_fresh [of "map j_id (jobs d)"] by (simp add: new_job_def)
    with d' show ?thesis by simp
  qed
next
  case (q_claim locked w owner ttl mp ks r)
  show ?thesis
  proof (cases "jobs d' = jobs d")
    case True
    then show ?thesis by (simp add: list.rel_refl row_step_refl)
  next
    case False
    from False q_claim obtain x where
      x: "least_by claim_order (claimable locked (w_now w) mp ks d) = Some x"
      and d': "jobs d' = sql_update (\<lambda>y. j_id y = j_id x) (lease w owner ttl) (jobs d)"
      by (auto simp: claim_def split: option.splits)
    from claimable_mem [OF least_by_mem [OF x]] have mem: "x \<in> set (jobs d)" "j_status x = Queued" by auto
    have "list_all2 row_step (jobs d) (jobs d')"
    proof -
      have "sql_update (\<lambda>y. j_id y = j_id x) (lease w owner ttl) (jobs d) =
          sql_update (\<lambda>y. y = x) (lease w owner ttl) (jobs d)"
        unfolding sql_update_def using distinct_key_inj [OF assms(2) _ mem(1)] by (intro map_cong) auto
      moreover have "list_all2 row_step (jobs d) (sql_update (\<lambda>y. y = x) (lease w owner ttl) (jobs d))"
        by (rule list_all2_sql_update) (auto simp: row_step_lease mem row_step_refl)
      ultimately show ?thesis by (simp add: d')
    qed
    then show ?thesis by blast
  qed
next
  case (q_heartbeat w job ttl r)
  then have eq: "jobs d' = sql_update (owned job) (beat_row w ttl) (jobs d)"
    by (auto simp: heartbeat_def update_owned_def)
  show ?thesis unfolding eq by (intro disjI1 list_all2_sql_update row_step_refl) (rule row_step_heartbeat)
next
  case (q_complete w job r)
  then have eq: "jobs d' = sql_update (owned job) (finished_row set_done w) (jobs d)"
    by (auto simp: complete_def finish_def update_owned_def split: if_splits)
  show ?thesis unfolding eq by (intro disjI1 list_all2_sql_update row_step_refl) (rule row_step_complete)
next
  case (q_fail rnd w job e rt b m r)
  then have eq: "jobs d' = sql_update (owned job) (failed_row w e rt (backoff_delay rnd (jb_attempts job) b m)) (jobs d)"
    by (auto simp: fail_def Let_def update_owned_def split: option.splits)
  show ?thesis unfolding eq by (intro disjI1 list_all2_sql_update row_step_refl) (rule row_step_failed)
next
  case (q_release w job r)
  then have eq: "jobs d' = sql_update (owned job) (finished_row (set_queued w) w) (jobs d)"
    by (auto simp: release_def finish_def update_owned_def split: if_splits)
  show ?thesis unfolding eq by (intro disjI1 list_all2_sql_update row_step_refl) (rule row_step_release)
next
  case (q_reap locked w r)
  then have eq: "jobs d' = sql_update (expired locked w) (reaped w) (jobs d)"
    by (auto simp: reap_def)
  show ?thesis unfolding eq by (intro disjI1 list_all2_sql_update row_step_refl) (rule row_step_reaped)
next
  case q_other
  then show ?thesis by (simp add: list.rel_refl row_step_refl)
qed

lemma row_step_keys: "list_all2 row_step rs rs' \<Longrightarrow> map j_id rs' = map j_id rs \<and>
    map j_priority rs' = map j_priority rs \<and> List.map_filter j_idempotency_key rs' = List.map_filter j_idempotency_key rs"
  by (induction rule: list_all2_induct) (auto simp: row_step_def map_filter_simps split: option.splits)

lemma map_filter_append: "List.map_filter f (xs @ ys) = List.map_filter f xs @ List.map_filter f ys"
  by (induction xs) (auto simp: map_filter_simps split: option.splits)

text \<open>The queue's own constraints survive every step.\<close>

definition jobs_ok :: "db \<Rightarrow> bool" where
  "jobs_ok d \<longleftrightarrow>
     distinct (map j_id (jobs d)) \<and> list_all (\<lambda>r. j_priority r \<le> 3) (jobs d) \<and> distinct (job_keys d)"

lemma qstep_jobs_ok: "qstep d d' \<Longrightarrow> jobs_ok d \<Longrightarrow> jobs_ok d'"
proof -
  assume q: "qstep d d'" and ok: "jobs_ok d"
  have "distinct (map j_id (jobs d))" using ok by (simp add: jobs_ok_def)
  from qstep_rows [OF q this] show "jobs_ok d'"
  proof (elim disjE exE conjE)
    assume l: "list_all2 row_step (jobs d) (jobs d')"
    have "list_all (\<lambda>p. p \<le> 3) (map j_priority (jobs d'))"
      using row_step_keys [OF l] ok by (simp add: jobs_ok_def list.pred_map comp_def)
    then have "list_all (\<lambda>r. j_priority r \<le> 3) (jobs d')" by (simp add: list.pred_map comp_def)
    with row_step_keys [OF l] ok show ?thesis
      by (simp add: jobs_ok_def job_keys_def)
  next
    fix new assume "jobs d' = jobs d @ [new]" "new_job d new"
    with ok show ?thesis
      by (auto simp: jobs_ok_def new_job_def job_keys_def map_filter_append map_filter_simps split: option.splits)
  qed
qed

section \<open>Fences\<close>

text \<open>
  The contract of a fenced resource: every step keeps or raises its fence, and whoever gets it
  anew gets a higher one. \<open>owns s k f\<close> is what a holder of fence \<open>f\<close> is asked to show before
  it writes.
\<close>

locale fenced =
  fixes ok :: "'s \<Rightarrow> bool"
    and step :: "'s \<Rightarrow> 's \<Rightarrow> bool"
    and fence :: "'s \<Rightarrow> 'k \<Rightarrow> nat"
    and held :: "'s \<Rightarrow> 'k \<Rightarrow> bool"
  assumes step_ok: "ok s \<Longrightarrow> step s t \<Longrightarrow> ok t"
    and fence_mono: "ok s \<Longrightarrow> step s t \<Longrightarrow> fence s k \<le> fence t k"
    and fence_regain: "ok s \<Longrightarrow> step s t \<Longrightarrow> \<not> held s k \<Longrightarrow> held t k \<Longrightarrow> fence s k < fence t k"
begin

definition owns :: "'s \<Rightarrow> 'k \<Rightarrow> nat \<Rightarrow> bool" where
  "owns s k f \<longleftrightarrow> held s k \<and> fence s k = f"

lemma run_ok: "step\<^sup>*\<^sup>* s t \<Longrightarrow> ok s \<Longrightarrow> ok t"
  by (induction rule: rtranclp_induct) (auto intro: step_ok)

lemma run_fence_mono: "step\<^sup>*\<^sup>* s t \<Longrightarrow> ok s \<Longrightarrow> fence s k \<le> fence t k"
  by (induction rule: rtranclp_induct) (auto dest: fence_mono run_ok intro: order_trans)

text \<open>Not owning with a fence already issued is for good.\<close>

lemma lost_forever:
  assumes "step\<^sup>*\<^sup>* s t" "ok s" "\<not> owns s k f" "f \<le> fence s k"
  shows "\<not> owns t k f"
  using assms(1)
proof (induction rule: rtranclp_induct)
  case base
  show ?case by (rule assms(3))
next
  case (step t u)
  have "ok t" "f \<le> fence t k"
    using run_ok [OF step.hyps(1) assms(2)] run_fence_mono [OF step.hyps(1) assms(2), of k] assms(4) by auto
  with step.IH step.hyps(2) fence_mono [of t u k] fence_regain [of t u k] show ?case
    by (cases "held t k") (auto simp: owns_def)
qed

text \<open>Two holders of the same resource at the same time are one.\<close>

lemma one_owner: "owns s k f \<Longrightarrow> owns s k g \<Longrightarrow> f = g"
  by (simp add: owns_def)

end

definition job_at :: "db \<Rightarrow> nat \<Rightarrow> job_row option" where
  "job_at d k = find (\<lambda>r. j_id r = k) (jobs d)"

definition job_fence :: "db \<Rightarrow> nat \<Rightarrow> nat" where
  "job_fence d k = (case job_at d k of None \<Rightarrow> 0 | Some r \<Rightarrow> j_fence r)"

definition job_held :: "db \<Rightarrow> nat \<Rightarrow> bool" where
  "job_held d k \<longleftrightarrow> (case job_at d k of None \<Rightarrow> False | Some r \<Rightarrow> j_status r = Running)"

lemma find_list_all2:
  "list_all2 row_step rs rs' \<Longrightarrow>
     (case find (\<lambda>r. j_id r = k) rs of
        None \<Rightarrow> find (\<lambda>r. j_id r = k) rs' = None
      | Some r \<Rightarrow> \<exists>r'. find (\<lambda>r. j_id r = k) rs' = Some r' \<and> row_step r r')"
  by (induction rule: list_all2_induct) (auto simp: row_step_def split: option.splits)

lemma qstep_job_at:
  assumes "qstep d d'" "jobs_ok d"
  shows "case job_at d k of
     None \<Rightarrow> (case job_at d' k of None \<Rightarrow> True | Some r' \<Rightarrow> j_status r' = Queued \<and> j_fence r' = 0 \<and> j_attempts r' = 0)
   | Some r \<Rightarrow> (\<exists>r'. job_at d' k = Some r' \<and> row_step r r')"
proof -
  have "distinct (map j_id (jobs d))" using assms(2) by (simp add: jobs_ok_def)
  from qstep_rows [OF assms(1) this] show ?thesis
  proof (elim disjE exE conjE)
    assume "list_all2 row_step (jobs d) (jobs d')"
    from find_list_all2 [OF this, of k] show ?thesis by (auto simp: job_at_def split: option.splits)
  next
    fix new assume "jobs d' = jobs d @ [new]" "new_job d new"
    then show ?thesis
      by (auto simp: job_at_def find_append new_job_def row_step_refl split: option.splits)
  qed
qed

interpretation jq: fenced jobs_ok qstep job_fence job_held
proof
  show "jobs_ok d \<Longrightarrow> qstep d d' \<Longrightarrow> jobs_ok d'" for d d' by (rule qstep_jobs_ok)
next
  fix d d' k assume "jobs_ok d" "qstep d d'"
  note at = qstep_job_at [OF this(2,1), of k]
  show "job_fence d k \<le> job_fence d' k"
  proof (cases "job_at d k")
    case (Some r)
    with at obtain r' where "job_at d' k = Some r'" "row_step r r'" by auto
    with Some show ?thesis by (simp add: job_fence_def row_step_fence)
  qed (simp add: job_fence_def)
next
  fix d d' k assume "jobs_ok d" "qstep d d'" and h: "\<not> job_held d k" "job_held d' k"
  note at = qstep_job_at [OF this(2,1), of k]
  from h(2) obtain r' where r': "job_at d' k = Some r'" "j_status r' = Running"
    by (auto simp: job_held_def split: option.splits)
  show "job_fence d k < job_fence d' k"
  proof (cases "job_at d k")
    case None
    with at r' show ?thesis by simp
  next
    case (Some r)
    with at r' have "row_step r r'" by simp
    with Some r' h(1) show ?thesis by (simp add: job_fence_def job_held_def row_step_regain)
  qed
qed

lemma holds_owns:
  assumes "distinct (map j_id (jobs d))"
  shows "holds d job \<longleftrightarrow> jq.owns d (jb_id job) (jb_fence job)"
proof
  assume "holds d job"
  then obtain r where "r \<in> set (jobs d)" "owned job r" by (auto simp: holds_def find_None_iff)
  then show "jq.owns d (jb_id job) (jb_fence job)"
    using find_key_eq [OF assms, of r] by (simp add: jq.owns_def job_held_def job_fence_def job_at_def owned_def)
next
  assume "jq.owns d (jb_id job) (jb_fence job)"
  then obtain r where "job_at d (jb_id job) = Some r" "j_status r = Running" "j_fence r = jb_fence job"
    by (auto simp: jq.owns_def job_held_def job_fence_def split: option.splits)
  then show "holds d job"
    using find_in_set by (fastforce simp: holds_def find_None_iff owned_def job_at_def)
qed

lemma assert_fence_owns:
  "jobs_ok d \<Longrightarrow> assert_fence job d = Inr u \<longleftrightarrow> jq.owns d (jb_id job) (jb_fence job)"
  by (simp add: assert_fence_def guard_Inr holds_owns jobs_ok_def)

section \<open>Claiming\<close>

definition claim_rank :: "job_row \<Rightarrow> int \<times> nat" where
  "claim_rank r = (j_sort_key r, j_id r)"

lemma claim_order_rank: "claim_order a b \<longleftrightarrow> claim_rank a < claim_rank b"
  by (auto simp: claim_order_def claim_rank_def less_prod_def)

lemma claim_Some:
  assumes "claim locked w owner ttl mp ks d = (Some job, d')"
  obtains r where "r \<in> set (claimable locked (w_now w) mp ks d)" "job = from_row (w_now w) (lease w owner ttl r)"
    "jobs d' = sql_update (\<lambda>x. j_id x = j_id r) (lease w owner ttl) (jobs d)"
    "\<forall>y \<in> set (claimable locked (w_now w) mp ks d). claim_rank r \<le> claim_rank y"
proof -
  from assms obtain r where r: "least_by claim_order (claimable locked (w_now w) mp ks d) = Some r"
    and o: "job = from_row (w_now w) (lease w owner ttl r)"
    "jobs d' = sql_update (\<lambda>x. j_id x = j_id r) (lease w owner ttl) (jobs d)"
    by (auto simp: claim_def split: option.splits)
  have "claim_order = (\<lambda>a b. claim_rank a < claim_rank b)" by (intro ext) (rule claim_order_rank)
  with r have r': "least_by (\<lambda>a b. claim_rank a < claim_rank b) (claimable locked (w_now w) mp ks d) = Some r" by simp
  show thesis by (rule that [OF least_by_mem [OF r] o]) (use least_by_minimal [OF r'] in blast)
qed

text \<open>The fence a claim hands out is new, and the claimer owns the job with it.\<close>

lemma claim_owns:
  assumes "claim locked w owner ttl mp ks d = (Some job, d')" "jobs_ok d"
  shows "jq.owns d' (jb_id job) (jb_fence job) \<and> job_fence d (jb_id job) < jb_fence job"
proof -
  from assms(1) obtain r where "r \<in> set (claimable locked (w_now w) mp ks d)"
    and r: "job = from_row (w_now w) (lease w owner ttl r)"
    "jobs d' = sql_update (\<lambda>x. j_id x = j_id r) (lease w owner ttl) (jobs d)" by (rule claim_Some)
  then have mem: "r \<in> set (jobs d)" by (auto dest: claimable_mem)
  have dist: "distinct (map j_id (jobs d))" using assms(2) by (simp add: jobs_ok_def)
  have at: "find (\<lambda>x. j_id x = j_id r) (jobs d) = Some r" by (rule find_key_eq [OF dist mem])
  have "find (\<lambda>x. j_id x = j_id r) (jobs d') = Some (lease w owner ttl r)"
    unfolding r(2) by (rule find_sql_update_hit [OF at]) (simp add: lease_def)
  with at r(1) show ?thesis
    by (simp add: jq.owns_def job_held_def job_fence_def job_at_def from_row_def lease_def)
qed

text \<open>No runnable row that nobody else holds comes before the claimed one.\<close>

lemma claim_first:
  assumes "claim locked w owner ttl mp ks d = (Some job, d')" "y \<in> set (claimable locked (w_now w) mp ks d)"
  obtains r where "r \<in> set (jobs d)" "j_id r = jb_id job" "claim_rank r \<le> claim_rank y"
proof -
  from assms(1) obtain r where r: "r \<in> set (claimable locked (w_now w) mp ks d)"
    "job = from_row (w_now w) (lease w owner ttl r)"
    "\<forall>y \<in> set (claimable locked (w_now w) mp ks d). claim_rank r \<le> claim_rank y"
    by (rule claim_Some)
  have "j_id r = jb_id job" by (simp add: r(2) from_row_def lease_def)
  with claimable_mem [OF r(1)] r(3) assms(2) show thesis using that by blast
qed

lemma claim_None: "claim locked w owner ttl mp ks d = (None, d') \<Longrightarrow> claimable locked (w_now w) mp ks d = [] \<and> d' = d"
  by (auto simp: claim_def split: option.splits)

section \<open>Attempts\<close>

text \<open>A waiting job has an attempt left and a running one is within its limit.\<close>

definition attempts_ok :: "db \<Rightarrow> bool" where
  "attempts_ok d \<longleftrightarrow> (\<forall>r \<in> set (jobs d). 1 \<le> j_max_attempts r \<longrightarrow>
     (j_status r = Queued \<longrightarrow> 0 \<le> j_attempts r \<and> j_attempts r < j_max_attempts r) \<and>
     (j_status r = Running \<longrightarrow> 1 \<le> j_attempts r \<and> j_attempts r \<le> j_max_attempts r))"

lemma row_step_attempts:
  assumes "row_step r r'"
    and "1 \<le> j_max_attempts r \<longrightarrow>
     (j_status r = Queued \<longrightarrow> 0 \<le> j_attempts r \<and> j_attempts r < j_max_attempts r) \<and>
     (j_status r = Running \<longrightarrow> 1 \<le> j_attempts r \<and> j_attempts r \<le> j_max_attempts r)"
  shows "1 \<le> j_max_attempts r' \<longrightarrow>
     (j_status r' = Queued \<longrightarrow> 0 \<le> j_attempts r' \<and> j_attempts r' < j_max_attempts r') \<and>
     (j_status r' = Running \<longrightarrow> 1 \<le> j_attempts r' \<and> j_attempts r' \<le> j_max_attempts r')"
  using assms unfolding row_step_def by (cases "j_status r'") auto

lemma qstep_attempts_ok:
  assumes "qstep d d'" "jobs_ok d" "attempts_ok d"
  shows "attempts_ok d'"
proof -
  have "distinct (map j_id (jobs d))" using assms(2) by (simp add: jobs_ok_def)
  from qstep_rows [OF assms(1) this] show ?thesis
  proof (elim disjE exE conjE)
    assume l: "list_all2 row_step (jobs d) (jobs d')"
    show ?thesis unfolding attempts_ok_def
    proof
      fix r' assume "r' \<in> set (jobs d')"
      with l obtain r where "r \<in> set (jobs d)" "row_step r r'"
        by (metis in_set_conv_nth list_all2_conv_all_nth)
      with assms(3) show "1 \<le> j_max_attempts r' \<longrightarrow>
         (j_status r' = Queued \<longrightarrow> 0 \<le> j_attempts r' \<and> j_attempts r' < j_max_attempts r') \<and>
         (j_status r' = Running \<longrightarrow> 1 \<le> j_attempts r' \<and> j_attempts r' \<le> j_max_attempts r')"
        using row_step_attempts by (simp add: attempts_ok_def)
    qed
  next
    fix new assume "jobs d' = jobs d @ [new]" "new_job d new"
    with assms(3) show ?thesis by (auto simp: attempts_ok_def new_job_def)
  qed
qed

section \<open>Aging\<close>

text \<open>Ids and places in line stay with their row along any run.\<close>

lemma qstep_keeps_row:
  assumes "qstep d d'" "jobs_ok d" "r \<in> set (jobs d)"
  shows "\<exists>r' \<in> set (jobs d'). j_id r' = j_id r \<and> j_sort_key r' = j_sort_key r"
proof -
  have "job_at d (j_id r) = Some r"
    unfolding job_at_def by (rule find_key_eq) (use assms in \<open>auto simp: jobs_ok_def\<close>)
  with qstep_job_at [OF assms(1,2), of "j_id r"] obtain r' where
    "job_at d' (j_id r) = Some r'" "row_step r r'" by auto
  then show ?thesis using find_in_set [of _ "jobs d'" r'] by (auto simp: job_at_def row_step_def)
qed

lemma run_keeps_row:
  assumes "qstep\<^sup>*\<^sup>* d d'" "jobs_ok d" "r \<in> set (jobs d)"
  shows "\<exists>r' \<in> set (jobs d'). j_id r' = j_id r \<and> j_sort_key r' = j_sort_key r"
  using assms(1)
proof (induction rule: rtranclp_induct)
  case (step t u)
  then obtain r' where "r' \<in> set (jobs t)" "j_id r' = j_id r" "j_sort_key r' = j_sort_key r" by auto
  with qstep_keeps_row [OF step.hyps(2) jq.run_ok [OF step.hyps(1) assms(2)]] show ?case by fastforce
qed (use assms(3) in blast)

text \<open>
  A job enqueued \<open>pa\<close> aging steps or more before another one has the better rank, whatever the
  other one's priority.
\<close>

lemma earlier_by_aging_ranks_first:
  assumes "enqueue w1 tn1 k1 pa m1 st inc1 pl1 key1 dl1 d0 = Inr (Some a, d1)" "jobs_ok d0"
    "qstep\<^sup>*\<^sup>* d1 d2" "enqueue w2 tn2 k2 pb m2 st inc2 pl2 key2 dl2 d2 = Inr (Some b, d3)"
    "w_now w1 + usecs (of_nat pa * st) \<le> w_now w2" "0 \<le> st" "qstep\<^sup>*\<^sup>* d3 d4"
  shows "\<exists>ra \<in> set (jobs d4). \<exists>rb \<in> set (jobs d4). j_id ra = a \<and> j_id rb = b \<and> claim_rank ra < claim_rank rb"
proof -
  let ?ra = "queued_row w1 a tn1 k1 pa m1 st inc1 pl1 key1 dl1"
  let ?rb = "queued_row w2 b tn2 k2 pb m2 st inc2 pl2 key2 dl2"
  have ok1: "jobs_ok d1" using qstep_jobs_ok [OF q_enqueue [OF assms(1)] assms(2)] .
  have ok2: "jobs_ok d2" using jq.run_ok [OF assms(3) ok1] .
  have ok3: "jobs_ok d3" using qstep_jobs_ok [OF q_enqueue [OF assms(4)] ok2] .
  have "?ra \<in> set (jobs d1)" using enqueue_Inr [OF assms(1)] by auto
  from run_keeps_row [OF assms(3) ok1 this] obtain r2 where
    r2: "r2 \<in> set (jobs d2)" "j_id r2 = a" "j_sort_key r2 = j_sort_key ?ra" by auto
  from enqueue_Inr [OF assms(4)] have d3: "jobs d3 = jobs d2 @ [?rb]" and b: "b = next_id (map j_id (jobs d2))"
    by auto
  have "a < b" unfolding b by (rule next_id_gt) (use r2 in auto)
  from d3 r2 have "r2 \<in> set (jobs d3)" "?rb \<in> set (jobs d3)" by auto
  from run_keeps_row [OF assms(7) ok3 this(1)] run_keeps_row [OF assms(7) ok3 this(2)] obtain ra rb where
    m: "ra \<in> set (jobs d4)" "rb \<in> set (jobs d4)" and i: "j_id ra = a" "j_id rb = b" and
    s: "j_sort_key ra = j_sort_key ?ra" "j_sort_key rb = j_sort_key ?rb"
    using r2 by auto
  have "j_sort_key ra \<le> j_sort_key rb"
    using assms(5,6) usecs_nonneg [of "of_nat pb * st"] by (simp add: s)
  with i \<open>a < b\<close> have "claim_rank ra < claim_rank rb" by (auto simp: claim_rank_def less_prod_def)
  with m i show ?thesis by blast
qed

section \<open>Backoff\<close>

definition backoff_cap :: "int \<Rightarrow> duration \<Rightarrow> duration \<Rightarrow> duration" where
  "backoff_cap attempt base_s max_s = min max_s (base_s * 2 ^ nat (max (attempt - 1) 0))"

lemma backoff_within:
  assumes "0 \<le> rnd" "rnd \<le> 1" "0 \<le> base_s" "0 \<le> max_s"
  shows "backoff_cap n base_s max_s / 2 \<le> backoff_delay rnd n base_s max_s \<and>
    backoff_delay rnd n base_s max_s \<le> backoff_cap n base_s max_s \<and> backoff_cap n base_s max_s \<le> max_s"
proof -
  let ?c = "backoff_cap n base_s max_s"
  have c: "0 \<le> ?c" using assms by (simp add: backoff_cap_def)
  have "?c / 2 * rnd \<le> ?c / 2" using mult_left_mono [OF assms(2), of "?c / 2"] c by simp
  moreover have "0 \<le> ?c / 2 * rnd" using c assms(1) by simp
  moreover have "backoff_delay rnd n base_s max_s = ?c / 2 + ?c / 2 * rnd"
    by (simp add: backoff_delay_def backoff_cap_def Let_def)
  moreover have "?c \<le> max_s" by (simp add: backoff_cap_def)
  ultimately show ?thesis by linarith
qed

end
