(* ===== verification/Runner.thy ===== *)
theory Runner
  imports Jobs "HOL-Library.AList"
begin

text \<open>
  The worker (\<open>app/worker/runner.py\<close>) and the handler of triage jobs (\<open>app/worker/handlers.py\<close>):
  a transaction on behalf of a job, how an attempt ends, the reaper's round, and the slots of
  the loop with the ones reserved for P0. Shown: a worker without its fence changes nothing,
  the table of running jobs respects both limits, the tasks may not; a dead job is audited.
\<close>

section \<open>Transactions of a job\<close>

text \<open>\<open>JobContext.transaction\<close>: the fence first, then the body, one commit.\<close>

definition job_transaction :: "job \<Rightarrow> 'a tx \<Rightarrow> 'a tx" where
  "job_transaction job body d = bindS (assert_fence job d) (\<lambda>_. body d)"

lemma job_transaction_Inr [tx_simps]:
  "job_transaction job body d = Inr r \<longleftrightarrow> holds d job \<and> body d = Inr r"
  by (simp add: job_transaction_def assert_fence_def bindS_Inr_iff guard_Inr)

lemma job_transaction_lost:
  "\<not> holds d job \<Longrightarrow> job_transaction job body d = Inl (LeaseLost (jb_id job) (jb_fence job))"
  by (simp add: job_transaction_def assert_fence_def)

section \<open>How an attempt ends\<close>

text \<open>\<open>type(exc).__name__\<close>\<close>

fun exn_name :: "exn \<Rightarrow> string" where
  "exn_name (IllegalTransition s t) = ''IllegalTransition''"
| "exn_name StaleVersion = ''StaleVersion''"
| "exn_name (LeaseLost i f) = ''LeaseLost''"
| "exn_name RuntimeError = ''RuntimeError''"
| "exn_name PermanentJobError = ''PermanentJobError''"
| "exn_name (ApprovalRefused s c) = ''ApprovalRefused''"
| "exn_name IntegrityError = ''IntegrityError''"
| "exn_name KeyError = ''KeyError''"
| "exn_name (HTTPException s) = ''HTTPException''"

definition audit_dead :: "world \<Rightarrow> job \<Rightarrow> string \<Rightarrow> string \<Rightarrow> string tx" where
  "audit_dead w job error actor =
     audit_append w actor ''job.dead'' (''job:'' @ dec (jb_id job)) (Some (jb_tenant job))
       (JObj [(''kind'', JStr (jb_kind job)), (''attempts'', JInt (jb_attempts job)), (''error'', JStr (take 500 error))])"

datatype outcome = OError | ODone | OLeaseLost | OReleased | ORetry | ODead

text \<open>
  \<open>_fail\<close>; \<open>exc_text\<close> is \<open>str(exc)\<close>. Only \<open>LeaseLost\<close> is caught: another error of the
  transaction leaves the attempt as an error, rolled back, for the reaper.
\<close>

definition runner_fail ::
    "rat \<Rightarrow> world \<Rightarrow> settings \<Rightarrow> string \<Rightarrow> job \<Rightarrow> string \<Rightarrow> string \<Rightarrow> bool \<Rightarrow> db \<Rightarrow> outcome \<times> db" where
  "runner_fail rnd w st worker_id job exc_name exc_text retryable d =
     (let error = exc_name @ '': '' @ exc_text
      in case bindS (fail rnd w job error retryable (queue_backoff_base_s st) (queue_backoff_max_s st) d)
           (\<lambda>(status, d1).
              if status = Dead
              then bindS (audit_dead w job error (''worker:'' @ worker_id) d1) (\<lambda>(_, d2). Inr (status, d2))
              else Inr (status, d1))
         of Inl (LeaseLost _ _) \<Rightarrow> (OLeaseLost, d)
          | Inl _ \<Rightarrow> (OError, d)
          | Inr (status, d') \<Rightarrow> (if status = Dead then ODead else ORetry, d'))"

text \<open>\<open>_release\<close>: every error is swallowed.\<close>

definition runner_release :: "world \<Rightarrow> job \<Rightarrow> db \<Rightarrow> db" where
  "runner_release w job d = (case release w job d of Inr (_, d') \<Rightarrow> d' | Inl _ \<Rightarrow> d)"

text \<open>
  What the call of a handler comes to: it returned, it raised, or the task was cancelled (by the
  heartbeat when the lease is gone, by the drain otherwise). A timeout is an exception like any
  other.
\<close>

datatype handler_end = Returned | Raised exn string | RaisedOther string string | Cancelled

text \<open>
  \<open>_execute\<close> after the handler ended, on the database as it is by then. \<open>known\<close> tells whether a
  handler is registered for the job's kind.
\<close>

fun execute_end ::
    "rat \<Rightarrow> world \<Rightarrow> settings \<Rightarrow> string \<Rightarrow> bool \<Rightarrow> job \<Rightarrow> handler_end \<Rightarrow> db \<Rightarrow> outcome \<times> db" where
  "execute_end rnd w st worker_id lease_lost job Returned d =
     (case complete w job d of
        Inr (_, d') \<Rightarrow> (ODone, d')
      | Inl _ \<Rightarrow> (OLeaseLost, d))"
| "execute_end rnd w st worker_id lease_lost job (Raised e txt) d =
     (case e of
        LeaseLost _ _ \<Rightarrow> (OLeaseLost, d)
      | PermanentJobError \<Rightarrow> runner_fail rnd w st worker_id job (exn_name e) txt False d
      | _ \<Rightarrow> runner_fail rnd w st worker_id job (exn_name e) txt True d)"
| "execute_end rnd w st worker_id lease_lost job (RaisedOther name txt) d =
     runner_fail rnd w st worker_id job name txt True d"
| "execute_end rnd w st worker_id lease_lost job Cancelled d =
     (if lease_lost then (OLeaseLost, d) else (OReleased, runner_release w job d))"

text \<open>The handler itself is a parameter: it may commit transactions of its own.\<close>

definition execute ::
    "rat \<Rightarrow> world \<Rightarrow> settings \<Rightarrow> string \<Rightarrow> (string \<Rightarrow> (job \<Rightarrow> db \<Rightarrow> handler_end \<times> db) option) \<Rightarrow> bool \<Rightarrow> job \<Rightarrow>
       db \<Rightarrow> outcome \<times> db" where
  "execute rnd w st worker_id handlers lease_lost job d =
     (case handlers (jb_kind job) of
        None \<Rightarrow> execute_end rnd w st worker_id lease_lost job
          (Raised PermanentJobError (''no handler for job kind '' @ py_repr (jb_kind job))) d
      | Some handler \<Rightarrow>
          (case handler job d of (r, d') \<Rightarrow> execute_end rnd w st worker_id lease_lost job r d'))"

text \<open>One round of \<open>_reap_loop\<close>; an error rolls the round back.\<close>

fun audit_reaped :: "world \<Rightarrow> string \<Rightarrow> (nat \<times> job_status) list \<Rightarrow> unit tx" where
  "audit_reaped w worker_id [] d = Inr ((), d)"
| "audit_reaped w worker_id ((job_id, status) # rest) d =
     (if status = Dead
      then bindS (audit_append w (''worker:'' @ worker_id) ''job.dead'' (''job:'' @ dec job_id) None
                    (JObj [(''error'', JStr ''lease expired'')]) d)
             (\<lambda>(_, d1). audit_reaped w worker_id rest d1)
      else audit_reaped w worker_id rest d)"

definition reap_round :: "(nat \<Rightarrow> bool) \<Rightarrow> world \<Rightarrow> string \<Rightarrow> db \<Rightarrow> db" where
  "reap_round locked w worker_id d =
     (case reap locked w d of (rs, d1) \<Rightarrow>
        (case audit_reaped w worker_id rs d1 of Inr (_, d2) \<Rightarrow> d2 | Inl _ \<Rightarrow> d))"

subsection \<open>Without the fence nothing changes\<close>

lemma finish_lost: "\<not> holds d job \<Longrightarrow> finish job f w d = Inl (LeaseLost (jb_id job) (jb_fence job))"
  by (simp add: finish_def)

lemma runner_fail_lost: "\<not> holds d job \<Longrightarrow> runner_fail rnd w st wid job n t r d = (OLeaseLost, d)"
  by (simp add: runner_fail_def fail_def holds_def Let_def)

lemma execute_end_lost:
  assumes "\<not> holds d job"
  shows "snd (execute_end rnd w st wid lost job r d) = d \<and>
    fst (execute_end rnd w st wid lost job r d) \<in> {OLeaseLost, OReleased}"
proof (cases r)
  case (Raised e t)
  then show ?thesis by (cases e) (simp_all add: runner_fail_lost [OF assms])
qed (simp_all add: runner_fail_lost [OF assms] complete_def finish_lost [OF assms] runner_release_def release_def)

subsection \<open>A failed attempt\<close>

lemma audit_append_Inl: "audit_append w a e s t p d = Inl x \<Longrightarrow> x = IntegrityError"
  by (auto simp: audit_append_def Let_def split: if_splits)

lemma holds_find: "holds d job \<Longrightarrow> \<exists>r. find (owned job) (jobs d) = Some r"
  by (auto simp: holds_def)

text \<open>
  When the fence is held the failure is recorded: the row is queued again or dead, dead exactly
  when retrying cannot help or no attempt is left, and a dead job leaves an audit event.
\<close>

lemma runner_fail_held:
  assumes "find (owned job) (jobs d) = Some r" "runner_fail rnd w st wid job n t retryable d = (oc, d')" "oc \<noteq> OError"
  shows "(oc = ORetry \<longleftrightarrow> retryable \<and> j_attempts r < j_max_attempts r) \<and>
    (oc = ODead \<longleftrightarrow> \<not> (retryable \<and> j_attempts r < j_max_attempts r)) \<and>
    jobs d' = sql_update (owned job) (failed_row w (n @ '': '' @ t) retryable
        (backoff_delay rnd (jb_attempts job) (queue_backoff_base_s st) (queue_backoff_max_s st))) (jobs d) \<and>
    (oc = ODead \<longrightarrow> (\<exists>a. audit_log d' = audit_log d @ [a] \<and> a_event a = ''job.dead'' \<and>
        a_subject a = ''job:'' @ dec (jb_id job))) \<and>
    (oc = ORetry \<longrightarrow> audit_log d' = audit_log d)"
proof -
  let ?f = "failed_row w (n @ '': '' @ t) retryable
        (backoff_delay rnd (jb_attempts job) (queue_backoff_base_s st) (queue_backoff_max_s st))"
  have st: "j_status (?f r) = (if retryable \<and> j_attempts r < j_max_attempts r then Queued else Dead)"
    by (simp add: failed_row_def)
  have f: "fail rnd w job (n @ '': '' @ t) retryable (queue_backoff_base_s st) (queue_backoff_max_s st) d =
      Inr (j_status (?f r), update_owned job ?f d)"
    using assms(1) by (simp add: fail_def Let_def)
  show ?thesis
  proof (cases "retryable \<and> j_attempts r < j_max_attempts r")
    case True
    with assms(2) f st show ?thesis by (auto simp: runner_fail_def update_owned_def)
  next
    case False
    let ?a = "audit_dead w job (n @ '': '' @ t) (''worker:'' @ wid) (update_owned job ?f d)"
    from False f st assms(2,3) obtain h where a: "?a = Inr (h, d')" and oc: "oc = ODead"
      by (cases ?a) (auto simp: runner_fail_def audit_dead_def split: exn.splits dest: audit_append_Inl)
    from audit_append_frame [OF a [unfolded audit_dead_def]] oc False show ?thesis
      by (auto simp: update_owned_def)
  qed
qed

section \<open>Slots\<close>

text \<open>
  The loop's own state: \<open>_running\<close>, keyed by the job's id, and the tasks that really exist. A
  claim needs a free entry; when a task ends it pops the entry of its job.
\<close>

record slots =
  s_running :: "(nat \<times> job) list"
  s_tasks :: "job list"

definition free_slots :: "settings \<Rightarrow> slots \<Rightarrow> int" where
  "free_slots st s = worker_concurrency st - int (length (s_running s))"

definition max_priority_for :: "settings \<Rightarrow> int \<Rightarrow> nat" where
  "max_priority_for st free = (if free > worker_reserved_p0_slots st then 3 else 0)"

definition worker_claim ::
    "(nat \<Rightarrow> bool) \<Rightarrow> world \<Rightarrow> settings \<Rightarrow> string \<Rightarrow> string list \<Rightarrow> slots \<Rightarrow> db \<Rightarrow> job option \<times> db" where
  "worker_claim locked w st worker_id kinds s d =
     (if free_slots st s \<le> 0 then (None, d)
      else claim locked w worker_id (queue_lease_ttl_s st) (max_priority_for st (free_slots st s))
             (Some (sort kinds)) d)"

definition task_started :: "job \<Rightarrow> slots \<Rightarrow> slots" where
  "task_started job s = s\<lparr>s_running := AList.update (jb_id job) job (s_running s), s_tasks := job # s_tasks s\<rparr>"

definition task_ended :: "job \<Rightarrow> slots \<Rightarrow> slots" where
  "task_ended job s = s\<lparr>s_running := AList.delete (jb_id job) (s_running s), s_tasks := remove1 job (s_tasks s)\<rparr>"

text \<open>The loop: claims that succeed, on whatever the database is then, and tasks that end.\<close>

inductive slot_step :: "settings \<Rightarrow> slots \<Rightarrow> slots \<Rightarrow> bool" for st where
  ss_start: "worker_claim locked w st wid kinds s d = (Some job, d') \<Longrightarrow> slot_step st s (task_started job s)"
| ss_end: "job \<in> set (s_tasks s) \<Longrightarrow> slot_step st s (task_ended job s)"

definition slots_ok :: "settings \<Rightarrow> slots \<Rightarrow> bool" where
  "slots_ok st s \<longleftrightarrow>
     distinct (map fst (s_running s)) \<and> int (length (s_running s)) \<le> max 0 (worker_concurrency st) \<and>
     int (length (filter (\<lambda>(k, job). jb_priority job \<noteq> 0) (s_running s))) \<le>
       max 0 (worker_concurrency st - worker_reserved_p0_slots st)"

lemma claimed_priority:
  assumes "claim locked w owner ttl mp ks d = (Some job, d')"
  shows "jb_priority job \<le> mp"
proof -
  from assms obtain r where "r \<in> set (claimable locked (w_now w) mp ks d)" "job = from_row (w_now w) (lease w owner ttl r)"
    by (rule claim_Some)
  then show ?thesis by (auto simp: from_row_def lease_def dest: claimable_mem)
qed

lemma length_alist_update: "length (AList.update k v xs) \<le> Suc (length xs)"
  by (induction xs) auto

lemma filter_alist_update:
  "length (filter p (AList.update k v xs)) \<le> length (filter p xs) + (if p (k, v) then 1 else 0)"
  by (induction xs) (auto split: if_splits)

lemma filter_alist_delete: "length (filter p (AList.delete k xs)) \<le> length (filter p xs)"
  by (induction xs) auto

lemma slot_step_ok:
  assumes "slot_step st s s'" "slots_ok st s" "0 \<le> worker_reserved_p0_slots st"
  shows "slots_ok st s'"
  using assms(1)
proof cases
  case (ss_start locked w wid kinds d job d')
  let ?np = "\<lambda>(k, job). jb_priority job \<noteq> 0"
  have free: "free_slots st s > 0"
    and cl: "claim locked w wid (queue_lease_ttl_s st) (max_priority_for st (free_slots st s)) (Some (sort kinds)) d = (Some job, d')"
    using ss_start(2) by (auto simp: worker_claim_def split: if_splits)
  have len: "int (length (AList.update (jb_id job) job (s_running s))) \<le> max 0 (worker_concurrency st)"
    using length_alist_update [of "jb_id job" job "s_running s"] free by (simp add: free_slots_def)
  have "int (length (filter ?np (AList.update (jb_id job) job (s_running s)))) \<le>
      max 0 (worker_concurrency st - worker_reserved_p0_slots st)"
  proof (cases "jb_priority job = 0")
    case True
    then show ?thesis
      using filter_alist_update [of ?np "jb_id job" job "s_running s"] assms(2) by (simp add: slots_ok_def)
  next
    case False
    with claimed_priority [OF cl] have "free_slots st s > worker_reserved_p0_slots st"
      by (auto simp: max_priority_for_def split: if_splits)
    moreover have "length (filter ?np (s_running s)) \<le> length (s_running s)" by simp
    moreover have "length (filter ?np (AList.update (jb_id job) job (s_running s))) \<le> Suc (length (filter ?np (s_running s)))"
      using filter_alist_update [of ?np "jb_id job" job "s_running s"] False by simp
    ultimately show ?thesis unfolding free_slots_def by linarith
  qed
  with len assms(2) show ?thesis
    by (simp add: ss_start(1) task_started_def slots_ok_def distinct_update)
next
  case (ss_end job)
  have "length (AList.delete (jb_id job) (s_running s)) \<le> length (s_running s)"
    by (simp add: AList.delete_eq)
  with assms(2) filter_alist_delete [of "\<lambda>(k, job). jb_priority job \<noteq> 0" "jb_id job" "s_running s"] show ?thesis
    by (simp add: ss_end(1) task_ended_def slots_ok_def distinct_delete)
qed

text \<open>
  The tasks themselves: as long as no job is claimed while a task of the same job still runs in
  this process, the table and the tasks agree, and the limits hold for the tasks.
\<close>

definition in_step :: "slots \<Rightarrow> bool" where
  "in_step s \<longleftrightarrow>
     s_running s = map (\<lambda>j. (jb_id j, j)) (rev (s_tasks s)) \<and> distinct (map jb_id (s_tasks s))"

lemma alist_update_fresh: "k \<notin> fst ` set xs \<Longrightarrow> AList.update k v xs = xs @ [(k, v)]"
  by (induction xs) auto

lemma in_step_started:
  assumes "in_step s" "jb_id job \<notin> jb_id ` set (s_tasks s)"
  shows "in_step (task_started job s)"
  using assms alist_update_fresh [of "jb_id job" "s_running s" job]
  by (simp add: in_step_def task_started_def image_image)

lemma remove1_distinct_key:
  "distinct (map k xs) \<Longrightarrow> x \<in> set xs \<Longrightarrow> remove1 x xs = filter (\<lambda>y. k x \<noteq> k y) xs"
proof (induction xs)
  case (Cons y ys)
  show ?case
  proof (cases "x = y")
    case True
    with Cons.prems have "filter (\<lambda>z. k x \<noteq> k z) ys = ys" by (auto simp: filter_id_conv)
    with True show ?thesis by simp
  next
    case False
    with Cons.prems have "k x \<in> k ` set ys" "k y \<notin> k ` set ys" by auto
    then have "k x \<noteq> k y" by metis
    with False Cons show ?thesis by auto
  qed
qed simp

lemma in_step_ended:
  assumes "in_step s" "job \<in> set (s_tasks s)"
  shows "in_step (task_ended job s)"
proof -
  have "s_tasks (task_ended job s) = filter (\<lambda>y. jb_id job \<noteq> jb_id y) (s_tasks s)"
    using assms remove1_distinct_key [of jb_id "s_tasks s" job] by (simp add: task_ended_def in_step_def)
  moreover have "s_running (task_ended job s) = filter (\<lambda>(k, v). jb_id job \<noteq> k) (s_running s)"
    by (simp add: task_ended_def AList.delete_eq)
  ultimately show ?thesis using assms(1)
    by (simp add: in_step_def filter_map comp_def rev_filter distinct_map_filter)
qed

lemma in_step_bound:
  assumes "in_step s" "slots_ok st s"
  shows "int (length (s_tasks s)) \<le> max 0 (worker_concurrency st) \<and>
    int (length (filter (\<lambda>j. jb_priority j \<noteq> 0) (s_tasks s))) \<le>
      max 0 (worker_concurrency st - worker_reserved_p0_slots st)"
proof -
  have "filter (\<lambda>(k, job). jb_priority job \<noteq> 0) (s_running s) =
      map (\<lambda>j. (jb_id j, j)) (filter (\<lambda>j. jb_priority j \<noteq> 0) (rev (s_tasks s)))"
    using assms(1) by (simp add: in_step_def filter_map comp_def)
  then have "length (filter (\<lambda>(k, job). jb_priority job \<noteq> 0) (s_running s)) =
      length (filter (\<lambda>j. jb_priority j \<noteq> 0) (s_tasks s))"
    by (simp add: rev_filter [symmetric])
  moreover have "length (s_running s) = length (s_tasks s)" using assms(1) by (simp add: in_step_def)
  ultimately show ?thesis using assms(2) by (simp add: slots_ok_def)
qed

section \<open>Triage\<close>

definition enqueue_for ::
    "world \<Rightarrow> settings \<Rightarrow> incident_row \<Rightarrow> string \<Rightarrow> (string \<times> json) list \<Rightarrow> string \<Rightarrow> duration \<Rightarrow> nat option tx" where
  "enqueue_for w st inc kind payload key delay_s =
     enqueue w (i_tenant inc) kind (i_priority inc) (queue_max_attempts st) (queue_aging_step_s st)
       (Some (i_id inc)) payload (Some key) delay_s"

text \<open>\<open>triage\<close>: RECEIVED to TRIAGED and, in the same transaction, the investigation's job.\<close>

definition triage :: "world \<Rightarrow> settings \<Rightarrow> string \<Rightarrow> job \<Rightarrow> unit tx" where
  "triage w st worker_id job d =
     (case jb_incident job of
        None \<Rightarrow> Inl PermanentJobError
      | Some incident_id \<Rightarrow>
          job_transaction job (\<lambda>d.
            case incidents_get d incident_id None of
              None \<Rightarrow> Inl PermanentJobError
            | Some incident \<Rightarrow>
                if i_state incident \<noteq> RECEIVED then Inr ((), d)
                else bindS (transition w (i_id incident) RECEIVED TRIAGED (i_version incident)
                              (''worker:'' @ worker_id) ''accepted for investigation'' d)
                  (\<lambda>(_, d1).
                     if \<not> auto_investigate st then Inr ((), d1)
                     else bindS (enqueue_for w st incident ''investigate'' [] (i_id incident @ '':investigate'') 0 d1)
                            (\<lambda>(_, d2). Inr ((), d2)))) d)"

end
