(* ===== verification/Flow.thy ===== *)
theory Flow
  imports Runner
begin

text \<open>
  The remediation part of the state machine (\<open>app/remediation/flow.py\<close>) and the two requests of
  people that drive it (\<open>app/api/remediation.py\<close>): submitting a plan with the policy's verdict,
  and deciding on the plan that waits. Shown: where a plan takes the incident, and what an
  approval that is accepted has been checked for.
\<close>

definition PLANNER_ACTOR :: string where
  "PLANNER_ACTOR = ''agent:planner''"

fun verdict_text :: "verdict \<Rightarrow> string" where
  "verdict_text Allow = ''allow''"
| "verdict_text RequireApproval = ''require_approval''"
| "verdict_text Deny = ''deny''"

definition risk_or_none :: "risk option \<Rightarrow> string" where
  "risk_or_none r = (case r of None \<Rightarrow> ''None'' | Some x \<Rightarrow> risk_text x)"

text \<open>\<open>%H:%M\<close> of a UTC timestamp.\<close>

definition hh_mm :: "time \<Rightarrow> string" where
  "hh_mm t =
     (let u = t mod day_us in two_digits (u div 3600000000) @ '':'' @ two_digits (u div 60000000 mod 60))"

section \<open>Reading\<close>

definition latest :: "('a \<Rightarrow> nat) \<Rightarrow> 'a list \<Rightarrow> 'a option" where
  "latest k rows = least_by (\<lambda>a b. k b < k a) rows"

text \<open>\<open>ORDER BY id DESC LIMIT 1\<close> over the incident's diagnoses.\<close>

definition flow_diagnosis :: "db \<Rightarrow> string \<Rightarrow> diagnosis option" where
  "flow_diagnosis d incident_id =
     (case latest b_id (filter (\<lambda>b. b_incident b = incident_id \<and> b_kind b = KDiagnosis) (blackboard d)) of
        None \<Rightarrow> None
      | Some b \<Rightarrow> (case b_body b of BDiagnosis dx \<Rightarrow> Some dx | _ \<Rightarrow> None))"

definition make_context :: "db \<Rightarrow> incident_row \<Rightarrow> diagnosis option \<Rightarrow> settings \<Rightarrow> time \<Rightarrow> policy_context" where
  "make_context d incident dx st now =
     \<lparr>px_incident_service = i_service incident,
      px_root_causes = (case dx of None \<Rightarrow> [] | Some x \<Rightarrow> map (\<lambda>rc. (rc_service rc, rc_confidence rc)) (dx_root_causes x)),
      px_evidence = map (\<lambda>e. (e_id e, \<lparr>er_tool = e_tool e, er_args = e_args e\<rparr>))
        (filter (\<lambda>e. e_incident e = Some (i_id incident)) (evidence d)),
      px_namespace = k8s_namespace st,
      px_allowed_targets = remediation_targets st,
      px_min_confidence = remediation_min_confidence st,
      px_auto_max_risk = remediation_auto_max_risk st,
      px_change_window = remediation_change_window st,
      px_now = now\<rparr>"

definition review_context :: "world \<Rightarrow> settings \<Rightarrow> db \<Rightarrow> incident_row \<Rightarrow> policy_context" where
  "review_context w st d incident =
     make_context d incident (flow_diagnosis d (i_id incident)) st (w_utcnow w)"

definition review :: "world \<Rightarrow> settings \<Rightarrow> db \<Rightarrow> incident_row \<Rightarrow> remediation_plan \<Rightarrow> decision" where
  "review w st d incident plan = evaluate (w_clock_repr w) plan (review_context w st d incident)"

definition incident_plans :: "db \<Rightarrow> string \<Rightarrow> plan_row list" where
  "incident_plans d incident_id = filter (\<lambda>p. p_incident p = incident_id) (remediation_plans d)"

definition current_plan :: "db \<Rightarrow> string \<Rightarrow> plan_row option" where
  "current_plan d incident_id = latest p_seq (incident_plans d incident_id)"

definition flow_plans :: "db \<Rightarrow> string \<Rightarrow> plan_row list" where
  "flow_plans d incident_id = sort_key p_seq (incident_plans d incident_id)"

definition approval :: "db \<Rightarrow> nat \<Rightarrow> approval_row option" where
  "approval d plan_id = find (\<lambda>a. ap_plan a = plan_id) (approvals d)"

section \<open>Submitting\<close>

definition plan_job_key :: "nat \<Rightarrow> string \<Rightarrow> string" where
  "plan_job_key plan_id kind = ''plan:'' @ dec plan_id @ '':'' @ kind"

text \<open>\<open>_enqueue\<close>; the returned id is dropped.\<close>

definition flow_enqueue ::
    "world \<Rightarrow> settings \<Rightarrow> incident_row \<Rightarrow> string \<Rightarrow> nat \<Rightarrow> duration \<Rightarrow> unit tx" where
  "flow_enqueue w st incident kind plan_id delay_s d =
     bindS (enqueue_for w st incident kind [(''plan_id'', JInt (int plan_id))] (plan_job_key plan_id kind) delay_s d)
       (\<lambda>(_, d'). Inr ((), d'))"

definition plan_line :: "remediation_plan \<Rightarrow> string" where
  "plan_line plan =
     (if rp_actions plan = [] then
        ''no action proposed: '' @
        (case rp_no_action_reason plan of None \<Rightarrow> ''none given'' | Some r \<Rightarrow> if r = [] then ''none given'' else r)
      else ''proposed: '' @ join '', '' (map (\<lambda>a. action_kind a @ '' '' @ a_deployment a) (rp_actions plan)))"

text \<open>\<open>plan.no_action_reason if not plan.actions and plan.no_action_reason else decision.reasons()\<close>\<close>

definition denial_reason :: "remediation_plan \<Rightarrow> decision \<Rightarrow> string" where
  "denial_reason plan dn =
     (case rp_no_action_reason plan of
        Some r \<Rightarrow> if rp_actions plan = [] \<and> r \<noteq> [] then r else decision_reasons dn
      | None \<Rightarrow> decision_reasons dn)"

definition insert_plan ::
    "world \<Rightarrow> settings \<Rightarrow> incident_row \<Rightarrow> remediation_plan \<Rightarrow> string \<Rightarrow> decision \<Rightarrow> plan_row tx" where
  "insert_plan w st incident plan proposed_by dn d =
     (let seq = 1 + foldr max (map p_seq (incident_plans d (i_id incident))) 0;
          row = \<lparr>p_id = next_id (map p_id (remediation_plans d)), p_tenant = i_tenant incident,
                 p_incident = i_id incident, p_seq = seq, p_proposed_by = proposed_by, p_plan = plan,
                 p_hash = plan_hash (w_sha w) (i_id incident) seq plan, p_verdict = dn_verdict dn, p_risk = dn_risk dn,
                 p_checks = dn_checks dn,
                 p_expires_at = (if dn_verdict dn = RequireApproval
                                 then Some (w_utcnow w + usecs (remediation_approval_ttl_s st)) else None),
                 p_created_at = w_now w\<rparr>
      in if plan_key row \<in> set (map plan_key (remediation_plans d)) then Inl IntegrityError
         else Inr (row, d\<lparr>remediation_plans := remediation_plans d @ [row]\<rparr>))"

definition plan_payload :: "plan_row \<Rightarrow> json" where
  "plan_payload row =
     JObj [(''plan_id'', JInt (int (p_id row))), (''seq'', JInt (int (p_seq row))), (''plan_hash'', JStr (p_hash row)),
           (''proposed_by'', JStr (p_proposed_by row)), (''actions'', describe (p_plan row)),
           (''verdict'', JStr (verdict_text (p_verdict row))), (''risk'', jopt (\<lambda>r. JStr (risk_text r)) (p_risk row)),
           (''checks'', JArr (map check_json (p_checks row)))]"

text \<open>The reasons the moves carry.\<close>

definition deny_reason :: "remediation_plan \<Rightarrow> decision \<Rightarrow> string" where
  "deny_reason plan dn = take 500 (''no safe automatic repair: '' @ denial_reason plan dn)"

definition ask_reason :: "decision \<Rightarrow> plan_row \<Rightarrow> string" where
  "ask_reason dn row =
     (case p_expires_at row of
        None \<Rightarrow> ''needs an approval''
      | Some t \<Rightarrow> risk_or_none (dn_risk dn) @ '' plan '' @ take 12 (p_hash row) @
          '' needs an approval by '' @ hh_mm t @ '' UTC'')"

definition allow_reason :: "decision \<Rightarrow> plan_row \<Rightarrow> string" where
  "allow_reason dn row =
     risk_or_none (dn_risk dn) @ '' plan '' @ take 12 (p_hash row) @ '' is allowed without an approval''"

text \<open>The last move of \<open>submit\<close>, on the verdict.\<close>

definition submit_verdict ::
    "world \<Rightarrow> settings \<Rightarrow> incident_row \<Rightarrow> decision \<Rightarrow> plan_row \<Rightarrow> nat \<Rightarrow> istate tx" where
  "submit_verdict w st incident dn row version d =
     (case dn_verdict dn of
        Deny \<Rightarrow>
          bindS (transition w (i_id incident) SAFETY_REVIEWED ESCALATED version ''policy'' (deny_reason (p_plan row) dn) d)
            (\<lambda>(_, d1). Inr (ESCALATED, d1))
      | RequireApproval \<Rightarrow>
          bindS (transition w (i_id incident) SAFETY_REVIEWED AWAITING_APPROVAL version ''policy'' (ask_reason dn row) d)
            (\<lambda>(_, d1). bindS (flow_enqueue w st incident ''approval_timeout'' (p_id row) (remediation_approval_ttl_s st) d1)
               (\<lambda>(_, d2). Inr (AWAITING_APPROVAL, d2)))
      | Allow \<Rightarrow>
          bindS (transition w (i_id incident) SAFETY_REVIEWED EXECUTING version ''policy'' (allow_reason dn row) d)
            (\<lambda>(_, d1). bindS (flow_enqueue w st incident ''execute'' (p_id row) 0 d1)
               (\<lambda>(_, d2). Inr (EXECUTING, d2))))"

definition submit ::
    "world \<Rightarrow> settings \<Rightarrow> incident_row \<Rightarrow> remediation_plan \<Rightarrow> string \<Rightarrow> string \<Rightarrow> (plan_row \<times> istate) tx" where
  "submit w st incident plan proposed_by actor d =
     (let dn = review w st d incident plan
      in bindS (insert_plan w st incident plan proposed_by dn d) (\<lambda>(row, d1).
         bindS (audit_append w actor ''remediation.plan'' (i_id incident) (Some (i_tenant incident)) (plan_payload row) d1)
           (\<lambda>(_, d2).
         bindS (transition w (i_id incident) (i_state incident) PLANNED (i_version incident) actor
                  (take 500 (plan_line plan)) d2) (\<lambda>(v1, d3).
         bindS (transition w (i_id incident) PLANNED SAFETY_REVIEWED v1 ''policy''
                  (take 500 (verdict_text (dn_verdict dn) @ '': '' @ decision_reasons dn)) d3) (\<lambda>(v2, d4).
         bindS (submit_verdict w st incident dn row v2 d4) (\<lambda>(state, d5). Inr ((row, state), d5)))))))"

section \<open>Deciding\<close>

definition decided_reason :: "plan_row \<Rightarrow> approval_decision \<Rightarrow> string \<Rightarrow> string" where
  "decided_reason plan decision comment =
     (if decision = Approve then ''plan '' @ take 12 (p_hash plan) @ '' approved''
      else take 500 (''plan '' @ take 12 (p_hash plan) @ '' rejected: '' @ comment))"

definition decide ::
    "world \<Rightarrow> settings \<Rightarrow> incident_row \<Rightarrow> string \<Rightarrow> approval_decision \<Rightarrow> string \<Rightarrow> string \<Rightarrow> istate tx" where
  "decide w st incident approver decision hash_seen comment d =
     bindS (guard (i_state incident = AWAITING_APPROVAL)
              (ApprovalRefused 409 (''the incident is '' @ istate_text (i_state incident) @ '', not waiting for an approval'')))
     (\<lambda>_. case current_plan d (i_id incident) of
        None \<Rightarrow> Inl (ApprovalRefused 409 ''no plan is waiting for an approval'')
      | Some plan \<Rightarrow>
          bindS (guard (p_verdict plan = RequireApproval) (ApprovalRefused 409 ''no plan is waiting for an approval'')) (\<lambda>_.
          bindS (guard (hash_seen = p_hash plan)
                   (ApprovalRefused 409 ''the plan changed since you looked at it; review the current plan'')) (\<lambda>_.
          bindS (guard (\<not> (case p_expires_at plan of None \<Rightarrow> False | Some t \<Rightarrow> t \<le> w_utcnow w))
                   (ApprovalRefused 409 ''the approval window for this plan has closed'')) (\<lambda>_.
          bindS (guard (\<not> (decision = Approve \<and> approver = p_proposed_by plan))
                   (ApprovalRefused 403 ''a plan cannot be approved by the person who proposed it'')) (\<lambda>_.
          bindS (guard (p_id plan \<notin> set (map ap_plan (approvals d)))
                   (ApprovalRefused 409 ''this plan has already been decided'')) (\<lambda>_.
            let d1 = d\<lparr>approvals := approvals d @
                  [\<lparr>ap_id = next_id (map ap_id (approvals d)), ap_tenant = i_tenant incident, ap_incident = i_id incident,
                    ap_plan = p_id plan, ap_plan_hash = p_hash plan, ap_approver = approver, ap_decision = decision,
                    ap_comment = comment\<rparr>]\<rparr>
            in bindS (audit_append w approver
                        (if decision = Approve then ''remediation.approved'' else ''remediation.rejected'')
                        (i_id incident) (Some (i_tenant incident))
                        (JObj [(''plan_id'', JInt (int (p_id plan))), (''plan_hash'', JStr (p_hash plan)),
                               (''comment'', JStr comment)]) d1) (\<lambda>(_, d2).
               if decision = Approve then
                 bindS (transition w (i_id incident) AWAITING_APPROVAL EXECUTING (i_version incident) approver
                          (decided_reason plan decision comment) d2) (\<lambda>(_, d3).
                 bindS (flow_enqueue w st incident ''execute'' (p_id plan) 0 d3) (\<lambda>(_, d4). Inr (EXECUTING, d4)))
               else
                 bindS (transition w (i_id incident) AWAITING_APPROVAL ESCALATED (i_version incident) approver
                          (decided_reason plan decision comment) d2)
                   (\<lambda>(_, d3). Inr (ESCALATED, d3)))))))))"

section \<open>The requests\<close>

definition user_actor :: "string \<Rightarrow> string" where
  "user_actor subject = ''user:'' @ subject"

text \<open>\<open>StaleVersion\<close> and \<open>IllegalTransition\<close> become 409, a refusal its own status.\<close>

fun http_error :: "exn \<Rightarrow> exn" where
  "http_error StaleVersion = HTTPException 409"
| "http_error (IllegalTransition s t) = HTTPException 409"
| "http_error (ApprovalRefused status msg) = HTTPException status"
| "http_error e = e"

definition map_error :: "('e \<Rightarrow> 'f) \<Rightarrow> 'e + 'a \<Rightarrow> 'f + 'a" where
  "map_error f r = (case r of Inl e \<Rightarrow> Inl (f e) | Inr a \<Rightarrow> Inr a)"

definition api_incident :: "db \<Rightarrow> string \<Rightarrow> string \<Rightarrow> exn + incident_row" where
  "api_incident d incident_id tenant_id =
     (case incidents_get d incident_id (Some tenant_id) of None \<Rightarrow> Inl (HTTPException 404) | Some row \<Rightarrow> Inr row)"

definition api_revise_plan ::
    "world \<Rightarrow> settings \<Rightarrow> string \<Rightarrow> string \<Rightarrow> string \<Rightarrow> remediation_plan \<Rightarrow> (plan_row \<times> istate) tx" where
  "api_revise_plan w st tenant_id subject incident_id plan d =
     bindS (api_incident d incident_id tenant_id) (\<lambda>row.
       bindS (guard (i_state row = AWAITING_APPROVAL) (HTTPException 409)) (\<lambda>_.
         map_error http_error (submit w st row plan (user_actor subject) (user_actor subject) d)))"

definition api_decide ::
    "world \<Rightarrow> settings \<Rightarrow> string \<Rightarrow> string \<Rightarrow> string \<Rightarrow> approval_decision \<Rightarrow> string \<Rightarrow> string \<Rightarrow> istate tx" where
  "api_decide w st tenant_id subject incident_id decision plan_hash_seen comment d =
     bindS (api_incident d incident_id tenant_id) (\<lambda>row.
       map_error http_error (decide w st row (user_actor subject) decision plan_hash_seen comment d))"

definition api_incident_audit :: "db \<Rightarrow> string \<Rightarrow> string \<Rightarrow> exn + audit_row list" where
  "api_incident_audit d tenant_id incident_id =
     bindS (api_incident d incident_id tenant_id) (\<lambda>_.
       Inr (sort_key a_seq (filter (\<lambda>a. a_subject a = incident_id \<and> a_tenant a = Some tenant_id) (audit_log d))))"

text \<open>The rows \<open>list_plans\<close> shows: each plan with its decision and its executions.\<close>

definition api_list_plans ::
    "db \<Rightarrow> string \<Rightarrow> string \<Rightarrow> exn + (plan_row \<times> approval_row option \<times> execution_row list) list" where
  "api_list_plans d tenant_id incident_id =
     bindS (api_incident d incident_id tenant_id) (\<lambda>_.
       Inr (map (\<lambda>p. (p, approval d (p_id p),
               sort_key x_action_index (filter (\<lambda>x. x_plan x = p_id p) (executions d)))) (flow_plans d incident_id)))"

section \<open>What a submitted plan does\<close>

lemma latest_mem: "latest k rows = Some r \<Longrightarrow> r \<in> set rows"
  by (simp add: latest_def least_by_mem)

lemma latest_append: "(\<And>x. x \<in> set xs \<Longrightarrow> k x < k y) \<Longrightarrow> latest k (xs @ [y]) = Some y"
  by (induction xs) (auto simp: latest_def)

text \<open>The frames of the statements that \<open>submit\<close> and \<open>decide\<close> are made of.\<close>

lemma enqueue_for_frame:
  assumes "enqueue_for w st inc kind pl key dl d = Inr (r, d')"
  shows "d' = d\<lparr>jobs := jobs d'\<rparr> \<and> key \<in> set (job_keys d') \<and>
    (jobs d' = jobs d \<or> (\<exists>new. jobs d' = jobs d @ [new] \<and> new_job d new \<and> j_kind new = kind \<and>
       j_incident new = Some (i_id inc) \<and> j_payload new = pl \<and> j_idempotency_key new = Some key))"
  using enqueue_Inr [OF assms [unfolded enqueue_for_def]] next_id_fresh [of "map j_id (jobs d)"]
  by (auto simp: job_keys_def map_filter_append map_filter_simps new_job_def)

lemma flow_enqueue_frame:
  assumes "flow_enqueue w st inc kind pid dl d = Inr (u, d')"
  shows "d' = d\<lparr>jobs := jobs d'\<rparr> \<and> plan_job_key pid kind \<in> set (job_keys d') \<and>
    (jobs d' = jobs d \<or> (\<exists>new. jobs d' = jobs d @ [new] \<and> new_job d new \<and> j_kind new = kind \<and>
       j_incident new = Some (i_id inc) \<and> j_payload new = [(''plan_id'', JInt (int pid))] \<and>
       j_idempotency_key new = Some (plan_job_key pid kind)))"
proof -
  from assms obtain r where "enqueue_for w st inc kind [(''plan_id'', JInt (int pid))] (plan_job_key pid kind) dl d = Inr (r, d')"
    by (auto simp: flow_enqueue_def tx_simps)
  from enqueue_for_frame [OF this] show ?thesis .
qed

definition state_after :: "verdict \<Rightarrow> istate" where
  "state_after v = (case v of Allow \<Rightarrow> EXECUTING | RequireApproval \<Rightarrow> AWAITING_APPROVAL | Deny \<Rightarrow> ESCALATED)"

lemma submit_verdict_steps:
  assumes "submit_verdict w st inc dn row v d = Inr (s', d')"
  shows "s' = state_after (dn_verdict dn) \<and>
    (\<exists>rs v' d1. transition w (i_id inc) SAFETY_REVIEWED s' v ''policy'' rs d = Inr (v', d1) \<and>
       d' = d1\<lparr>jobs := jobs d'\<rparr> \<and>
       (dn_verdict dn = Allow \<longrightarrow> plan_job_key (p_id row) ''execute'' \<in> set (job_keys d')) \<and>
       (dn_verdict dn = Deny \<longrightarrow> d' = d1))"
proof (cases "dn_verdict dn")
  case Allow
  with assms obtain rs v' d1 u where "transition w (i_id inc) SAFETY_REVIEWED EXECUTING v ''policy'' rs d = Inr (v', d1)"
    "flow_enqueue w st inc ''execute'' (p_id row) 0 d1 = Inr (u, d')" "s' = EXECUTING"
    by (auto simp: submit_verdict_def tx_simps)
  with flow_enqueue_frame [OF this(2)] Allow show ?thesis by (auto simp: state_after_def)
next
  case RequireApproval
  with assms obtain rs v' d1 u where "transition w (i_id inc) SAFETY_REVIEWED AWAITING_APPROVAL v ''policy'' rs d = Inr (v', d1)"
    "flow_enqueue w st inc ''approval_timeout'' (p_id row) (remediation_approval_ttl_s st) d1 = Inr (u, d')" "s' = AWAITING_APPROVAL"
    by (auto simp: submit_verdict_def tx_simps)
  with flow_enqueue_frame [OF this(2)] RequireApproval show ?thesis by (auto simp: state_after_def)
next
  case Deny
  with assms show ?thesis
    by (simp add: submit_verdict_def tx_simps state_after_def) (metis db.surjective db.update_convs(3))
qed

lemma insert_plan_Inr:
  assumes "insert_plan w st inc plan by dn d = Inr (row, d')"
  shows "d' = d\<lparr>remediation_plans := remediation_plans d @ [row]\<rparr> \<and>
    p_incident row = i_id inc \<and> p_verdict row = dn_verdict dn \<and> p_proposed_by row = by \<and> p_plan row = plan \<and>
    p_hash row = plan_hash (w_sha w) (i_id inc) (p_seq row) plan \<and>
    p_id row \<notin> set (map p_id (remediation_plans d)) \<and> plan_key row \<notin> set (map plan_key (remediation_plans d)) \<and>
    (\<forall>p \<in> set (incident_plans d (i_id inc)). p_seq p < p_seq row)"
proof -
  have gt: "\<forall>p \<in> set (incident_plans d (i_id inc)). p_seq p < Suc (foldr max (map p_seq (incident_plans d (i_id inc))) 0)"
    using foldr_max_ge by (fastforce simp: less_Suc_eq_le)
  from assms gt next_id_fresh [of "map p_id (remediation_plans d)"] show ?thesis
    by (auto simp: insert_plan_def Let_def split: if_splits)
qed

lemma submit_steps:
  assumes "submit w st inc plan by actor d = Inr ((row, s'), d')"
  obtains d1 d2 d3 d4 d5 h rs1 rs2 rs3 v1 v2 v3 where
    "insert_plan w st inc plan by (review w st d inc plan) d = Inr (row, d1)"
    "audit_append w actor ''remediation.plan'' (i_id inc) (Some (i_tenant inc)) (plan_payload row) d1 = Inr (h, d2)"
    "transition w (i_id inc) (i_state inc) PLANNED (i_version inc) actor rs1 d2 = Inr (v1, d3)"
    "transition w (i_id inc) PLANNED SAFETY_REVIEWED v1 ''policy'' rs2 d3 = Inr (v2, d4)"
    "transition w (i_id inc) SAFETY_REVIEWED s' v2 ''policy'' rs3 d4 = Inr (v3, d5)"
    "d' = d5\<lparr>jobs := jobs d'\<rparr>" "s' = state_after (dn_verdict (review w st d inc plan))"
    "s' = EXECUTING \<longrightarrow> plan_job_key (p_id row) ''execute'' \<in> set (job_keys d')"
proof -
  let ?dn = "review w st d inc plan"
  from assms obtain d1 d2 d3 d4 h rs1 rs2 v1 v2 where
    a: "insert_plan w st inc plan by ?dn d = Inr (row, d1)"
    "audit_append w actor ''remediation.plan'' (i_id inc) (Some (i_tenant inc)) (plan_payload row) d1 = Inr (h, d2)"
    "transition w (i_id inc) (i_state inc) PLANNED (i_version inc) actor rs1 d2 = Inr (v1, d3)"
    "transition w (i_id inc) PLANNED SAFETY_REVIEWED v1 ''policy'' rs2 d3 = Inr (v2, d4)"
    and v: "submit_verdict w st inc ?dn row v2 d4 = Inr (s', d')"
    by (auto simp: submit_def tx_simps Let_def)
  from submit_verdict_steps [OF v] obtain rs3 v3 d5 where
    "transition w (i_id inc) SAFETY_REVIEWED s' v2 ''policy'' rs3 d4 = Inr (v3, d5)" "d' = d5\<lparr>jobs := jobs d'\<rparr>"
    and s: "s' = state_after (dn_verdict ?dn)"
    and e: "dn_verdict ?dn = Allow \<longrightarrow> plan_job_key (p_id row) ''execute'' \<in> set (job_keys d')" by blast
  moreover have "s' = EXECUTING \<longrightarrow> dn_verdict ?dn = Allow" using s by (auto simp: state_after_def split: verdict.splits)
  ultimately show thesis using that a by blast
qed

lemmas submit_frames = transition_frame enqueue_for_frame audit_append_frame

text \<open>The plans, the approvals and the incident afterwards.\<close>

lemma submit_Inr:
  assumes "submit w st inc plan by actor d = Inr ((row, s'), d')"
  shows "remediation_plans d' = remediation_plans d @ [row]" "approvals d' = approvals d" "executions d' = executions d"
    "evidence d' = evidence d" "alerts d' = alerts d" "imove (i_state inc) PLANNED" "p_incident row = i_id inc"
    "p_verdict row = dn_verdict (review w st d inc plan)" "p_plan row = plan" "p_proposed_by row = by"
    "p_hash row = plan_hash (w_sha w) (i_id inc) (p_seq row) plan"
    "s' = state_after (p_verdict row)" "current_plan d' (i_id inc) = Some row"
    "\<And>other. other \<noteq> i_id inc \<Longrightarrow> incident_plans d' other = incident_plans d other"
    "s' = EXECUTING \<Longrightarrow> plan_job_key (p_id row) ''execute'' \<in> set (job_keys d')"
    "at_version (i_id inc) (i_state inc) (i_version inc) x \<longleftrightarrow> i_id x = i_id inc \<and> i_state x = i_state inc \<and> i_version x = i_version inc"
proof -
  from assms obtain d1 d2 d3 d4 d5 h rs1 rs2 rs3 v1 v2 v3 where
    i: "insert_plan w st inc plan by (review w st d inc plan) d = Inr (row, d1)" and
    a: "audit_append w actor ''remediation.plan'' (i_id inc) (Some (i_tenant inc)) (plan_payload row) d1 = Inr (h, d2)" and
    t1: "transition w (i_id inc) (i_state inc) PLANNED (i_version inc) actor rs1 d2 = Inr (v1, d3)" and
    t2: "transition w (i_id inc) PLANNED SAFETY_REVIEWED v1 ''policy'' rs2 d3 = Inr (v2, d4)" and
    t3: "transition w (i_id inc) SAFETY_REVIEWED s' v2 ''policy'' rs3 d4 = Inr (v3, d5)" and
    d': "d' = d5\<lparr>jobs := jobs d'\<rparr>" "s' = state_after (dn_verdict (review w st d inc plan))"
    "s' = EXECUTING \<longrightarrow> plan_job_key (p_id row) ''execute'' \<in> set (job_keys d')"
    by (rule submit_steps)
  note ip = insert_plan_Inr [OF i]
  obtain arow where d2: "d2 = d1\<lparr>audit_log := audit_log d1 @ [arow]\<rparr>" using audit_append_frame [OF a] by blast
  have eqs: "f d' = f d5 \<and> f d5 = f d2" if "f = remediation_plans" for f
    using that arg_cong [OF d'(1), of remediation_plans] transition_frame [OF t1] transition_frame [OF t2] transition_frame [OF t3] by simp
  from eqs ip d2 show rp: "remediation_plans d' = remediation_plans d @ [row]" by simp
  show "approvals d' = approvals d" using arg_cong [OF d'(1), of approvals]
      transition_frame [OF t1] transition_frame [OF t2] transition_frame [OF t3] ip d2 by simp
  show "executions d' = executions d" using arg_cong [OF d'(1), of executions]
      transition_frame [OF t1] transition_frame [OF t2] transition_frame [OF t3] ip d2 by simp
  show "evidence d' = evidence d" using arg_cong [OF d'(1), of evidence]
      transition_frame [OF t1] transition_frame [OF t2] transition_frame [OF t3] ip d2 by simp
  show "alerts d' = alerts d" using arg_cong [OF d'(1), of alerts]
      transition_frame [OF t1] transition_frame [OF t2] transition_frame [OF t3] ip d2 by simp
  show "imove (i_state inc) PLANNED" using t1 by (rule transition_InrE)
  show "p_incident row = i_id inc" "p_verdict row = dn_verdict (review w st d inc plan)" "p_plan row = plan"
    "p_proposed_by row = by" "p_hash row = plan_hash (w_sha w) (i_id inc) (p_seq row) plan"
    using ip by auto
  then show "s' = state_after (p_verdict row)" using d' by simp
  have "incident_plans d' (i_id inc) = incident_plans d (i_id inc) @ [row]"
    using rp ip by (simp add: incident_plans_def)
  with ip show "current_plan d' (i_id inc) = Some row" by (simp add: current_plan_def latest_append)
  show "incident_plans d' other = incident_plans d other" if "other \<noteq> i_id inc" for other
    using rp ip that by (simp add: incident_plans_def)
  show "s' = EXECUTING \<Longrightarrow> plan_job_key (p_id row) ''execute'' \<in> set (job_keys d')" using d' by simp
  show "at_version (i_id inc) (i_state inc) (i_version inc) x \<longleftrightarrow> i_id x = i_id inc \<and> i_state x = i_state inc \<and> i_version x = i_version inc"
    by (simp add: at_version_def)
qed

lemma jobs_only_get: "d' = d1\<lparr>jobs := jobs d'\<rparr> \<Longrightarrow> incidents_get d' i tn = incidents_get d1 i tn"
  by (metis db.select_convs(1) db.surjective db.update_convs(3) incidents_get_def)

text \<open>The incident after a submission: three moves further, in the state of the verdict.\<close>

lemma submit_incident:
  assumes "submit w st inc plan by actor d = Inr ((row, s'), d')" "distinct (map i_id (incidents d))"
  shows "\<exists>r r'. incidents_get d (i_id inc) None = Some r \<and> i_state r = i_state inc \<and> i_version r = i_version inc \<and>
    incidents_get d' (i_id inc) None = Some r' \<and> i_state r' = s' \<and> i_version r' = i_version inc + 3"
proof -
  from assms(1) obtain d1 d2 d3 d4 d5 h rs1 rs2 rs3 v1 v2 v3 where
    i: "insert_plan w st inc plan by (review w st d inc plan) d = Inr (row, d1)" and
    a: "audit_append w actor ''remediation.plan'' (i_id inc) (Some (i_tenant inc)) (plan_payload row) d1 = Inr (h, d2)" and
    t1: "transition w (i_id inc) (i_state inc) PLANNED (i_version inc) actor rs1 d2 = Inr (v1, d3)" and
    t2: "transition w (i_id inc) PLANNED SAFETY_REVIEWED v1 ''policy'' rs2 d3 = Inr (v2, d4)" and
    t3: "transition w (i_id inc) SAFETY_REVIEWED s' v2 ''policy'' rs3 d4 = Inr (v3, d5)" and
    d': "d' = d5\<lparr>jobs := jobs d'\<rparr>"
    by (rule submit_steps)
  have inc: "incidents d2 = incidents d" using insert_plan_Inr [OF i] audit_append_frame [OF a] by auto
  have dist: "distinct (map i_id (incidents x'))"
    if "transition w j s t v ac rs x = Inr (v', x')" "distinct (map i_id (incidents x))" for j s t v ac rs x v' x'
  proof -
    from that(1) have "incidents x' = sql_update (at_version j s v) (moved w t) (incidents x)" by (rule transition_InrE)
    with that(2) show ?thesis by (simp add: map_sql_update)
  qed
  have i2: "distinct (map i_id (incidents d2))" using assms(2) inc by simp
  have i3: "distinct (map i_id (incidents d3))" by (rule dist [OF t1 i2])
  have i4: "distinct (map i_id (incidents d4))" by (rule dist [OF t2 i3])
  from transition_get [OF t1 i2] obtain r where r: "incidents_get d2 (i_id inc) None = Some r" "i_state r = i_state inc"
    "i_version r = i_version inc" "incidents_get d3 (i_id inc) None = Some (moved w PLANNED r)" by blast
  from transition_get [OF t2 i3] r have g4: "incidents_get d4 (i_id inc) None = Some (moved w SAFETY_REVIEWED (moved w PLANNED r))"
    by auto
  from transition_get [OF t3 i4] g4 have "incidents_get d5 (i_id inc) None = Some (moved w s' (moved w SAFETY_REVIEWED (moved w PLANNED r)))"
    by auto
  moreover have "incidents_get d (i_id inc) None = Some r" using r(1) by (simp add: incidents_get_def inc)
  ultimately show ?thesis using r jobs_only_get [OF d'] by auto
qed

section \<open>What an accepted decision was checked for\<close>

lemma decide_Inr:
  assumes "decide w st inc approver choice hash_seen comment d = Inr (s', d')"
  obtains plan arow h d1 where
    "i_state inc = AWAITING_APPROVAL" "current_plan d (i_id inc) = Some plan" "p_verdict plan = RequireApproval"
    "hash_seen = p_hash plan" "\<forall>t. p_expires_at plan = Some t \<longrightarrow> w_utcnow w < t"
    "choice = Approve \<longrightarrow> approver \<noteq> p_proposed_by plan" "p_id plan \<notin> set (map ap_plan (approvals d))"
    "ap_plan arow = p_id plan" "ap_plan_hash arow = p_hash plan" "ap_approver arow = approver" "ap_decision arow = choice"
    "audit_append w approver (if choice = Approve then ''remediation.approved'' else ''remediation.rejected'')
       (i_id inc) (Some (i_tenant inc))
       (JObj [(''plan_id'', JInt (int (p_id plan))), (''plan_hash'', JStr (p_hash plan)), (''comment'', JStr comment)])
       (d\<lparr>approvals := approvals d @ [arow]\<rparr>) = Inr (h, d1)"
    "\<exists>rs v d2. transition w (i_id inc) AWAITING_APPROVAL s' (i_version inc) approver rs d1 = Inr (v, d2) \<and> d' = d2\<lparr>jobs := jobs d'\<rparr>"
    "s' = (if choice = Approve then EXECUTING else ESCALATED)"
    "choice = Approve \<longrightarrow> plan_job_key (p_id plan) ''execute'' \<in> set (job_keys d')"
proof -
  let ?row = "\<lambda>plan. \<lparr>ap_id = next_id (map ap_id (approvals d)), ap_tenant = i_tenant inc, ap_incident = i_id inc,
                    ap_plan = p_id plan, ap_plan_hash = p_hash plan, ap_approver = approver, ap_decision = choice,
                    ap_comment = comment\<rparr>"
  from assms obtain plan where p: "i_state inc = AWAITING_APPROVAL" "current_plan d (i_id inc) = Some plan"
    by (auto simp: decide_def tx_simps split: option.splits)
  with assms have c: "p_verdict plan = RequireApproval" "hash_seen = p_hash plan"
    "\<not> (case p_expires_at plan of None \<Rightarrow> False | Some t \<Rightarrow> t \<le> w_utcnow w)"
    "\<not> (choice = Approve \<and> approver = p_proposed_by plan)" "p_id plan \<notin> set (map ap_plan (approvals d))"
    by (auto simp: decide_def tx_simps)
  from c(3) have e: "\<forall>t. p_expires_at plan = Some t \<longrightarrow> w_utcnow w < t" by auto
  show thesis
  proof (cases choice)
    case Approve
    with assms p c obtain h d1 v d2 u where
      a: "audit_append w approver ''remediation.approved'' (i_id inc) (Some (i_tenant inc))
       (JObj [(''plan_id'', JInt (int (p_id plan))), (''plan_hash'', JStr (p_hash plan)), (''comment'', JStr comment)])
       (d\<lparr>approvals := approvals d @ [?row plan]\<rparr>) = Inr (h, d1)"
      and t: "transition w (i_id inc) AWAITING_APPROVAL EXECUTING (i_version inc) approver
          (decided_reason plan choice comment) d1 = Inr (v, d2)"
      and q: "flow_enqueue w st inc ''execute'' (p_id plan) 0 d2 = Inr (u, d')" and s: "s' = EXECUTING"
      by (auto simp: decide_def tx_simps Let_def)
    from flow_enqueue_frame [OF q] have "d' = d2\<lparr>jobs := jobs d'\<rparr>" "plan_job_key (p_id plan) ''execute'' \<in> set (job_keys d')"
      by auto
    with that [OF p c(1,2) e _ c(5), of "?row plan" h d1] Approve a t s c(4) show thesis by auto
  next
    case Reject
    with assms p c obtain h d1 v where
      a: "audit_append w approver ''remediation.rejected'' (i_id inc) (Some (i_tenant inc))
       (JObj [(''plan_id'', JInt (int (p_id plan))), (''plan_hash'', JStr (p_hash plan)), (''comment'', JStr comment)])
       (d\<lparr>approvals := approvals d @ [?row plan]\<rparr>) = Inr (h, d1)"
      and t: "transition w (i_id inc) AWAITING_APPROVAL ESCALATED (i_version inc) approver
          (decided_reason plan choice comment) d1 = Inr (v, d')" and s: "s' = ESCALATED"
      by (auto simp: decide_def tx_simps Let_def)
    from t have "\<exists>rs v d2. transition w (i_id inc) AWAITING_APPROVAL s' (i_version inc) approver rs d1 = Inr (v, d2) \<and>
        d' = d2\<lparr>jobs := jobs d'\<rparr>" unfolding s by (intro exI conjI) (assumption, simp)
    with that [OF p c(1,2) e _ c(5), of "?row plan" h d1] Reject a s show thesis by auto
  qed
qed

end
