(* ===== verification/RemediateJobs.thy ===== *)
theory RemediateJobs
  imports Flow
begin

text \<open>
  The worker's remediation jobs (\<open>app/worker/remediate.py\<close>) and the check of a repair against
  the SLO (\<open>app/remediation/verify.py\<close>): planning, the unanswered approval, verification. Shown:
  the timeout only ever ends the plan that still waits, verification ends, and an incident is
  resolved only after the last checks in a row were healthy.
\<close>

section \<open>Planning\<close>

record proposal =
  pp_plan :: "remediation_plan option"
  pp_error :: "string option"

definition proposal_error :: "proposal \<Rightarrow> string" where
  "proposal_error p = (case pp_error p of None \<Rightarrow> ''None'' | Some e \<Rightarrow> e)"

definition job_incident :: "job \<Rightarrow> exn + string" where
  "job_incident job = (case jb_incident job of None \<Rightarrow> Inl PermanentJobError | Some i \<Rightarrow> Inr i)"

text \<open>The last transaction of \<open>plan_job\<close>.\<close>

definition plan_commit :: "world \<Rightarrow> settings \<Rightarrow> job \<Rightarrow> string \<Rightarrow> proposal \<Rightarrow> unit tx" where
  "plan_commit w st job incident_id prop =
     job_transaction job (\<lambda>d.
       case incidents_get d incident_id None of
         None \<Rightarrow> Inr ((), d)
       | Some incident \<Rightarrow>
           if i_state incident \<noteq> DIAGNOSED then Inr ((), d)
           else (case pp_plan prop of
             None \<Rightarrow>
               bindS (transition w incident_id DIAGNOSED ESCALATED (i_version incident) PLANNER_ACTOR
                        (take 500 (''no repair plan: '' @ proposal_error prop)) d) (\<lambda>(_, d'). Inr ((), d'))
           | Some plan \<Rightarrow>
               bindS (submit w st incident plan PLANNER_ACTOR PLANNER_ACTOR d) (\<lambda>(_, d'). Inr ((), d'))))"

text \<open>
  \<open>plan_job\<close>. The planner is a parameter: it asks the model and commits transactions of its
  own; it returns a proposal or raises \<open>LLMError\<close> (whether it is retryable, and its text).
  Anything else it raises ends the handler.
\<close>

datatype planner_end = Proposed proposal | LLMRaised bool string | PlannerRaised handler_end

definition plan_job ::
    "world \<Rightarrow> settings \<Rightarrow> (incident_row \<Rightarrow> diagnosis \<Rightarrow> db \<Rightarrow> planner_end \<times> db) \<Rightarrow> job \<Rightarrow> db \<Rightarrow> handler_end \<times> db" where
  "plan_job w st propose job d =
     (case job_incident job of
        Inl e \<Rightarrow> (Raised e '''', d)
      | Inr incident_id \<Rightarrow>
          (case incidents_get d incident_id None of
             None \<Rightarrow> (Raised PermanentJobError '''', d)
           | Some incident \<Rightarrow>
               if i_state incident \<noteq> DIAGNOSED then (Returned, d)
               else
                 let (p, d1) = (case flow_diagnosis d incident_id of
                       None \<Rightarrow> (Proposed \<lparr>pp_plan = None, pp_error = Some ''there is no diagnosis to plan from''\<rparr>, d)
                     | Some dx \<Rightarrow> propose incident dx d);
                     commit = (\<lambda>prop. case plan_commit w st job incident_id prop d1 of
                         Inr (_, d2) \<Rightarrow> (Returned, d2) | Inl e \<Rightarrow> (Raised e '''', d1))
                 in case p of
                      Proposed prop \<Rightarrow> commit prop
                    | PlannerRaised r \<Rightarrow> (r, d1)
                    | LLMRaised retryable msg \<Rightarrow>
                        if retryable \<and> jb_attempts job < jb_max_attempts job then (RaisedOther ''LLMError'' msg, d1)
                        else commit \<lparr>pp_plan = None, pp_error = Some (''the model was unavailable: '' @ msg)\<rparr>))"

section \<open>The approval nobody gave\<close>

definition approval_timeout :: "world \<Rightarrow> settings \<Rightarrow> job \<Rightarrow> unit tx" where
  "approval_timeout w st job d =
     bindS (job_incident job) (\<lambda>incident_id.
       job_transaction job (\<lambda>d.
         case incidents_get d incident_id None of
           None \<Rightarrow> Inr ((), d)
         | Some incident \<Rightarrow>
             if i_state incident \<noteq> AWAITING_APPROVAL then Inr ((), d)
             else (case current_plan d incident_id of
               None \<Rightarrow> Inr ((), d)
             | Some plan \<Rightarrow>
                 if jget (jb_payload job) ''plan_id'' \<noteq> Some (JInt (int (p_id plan))) \<or> approval d (p_id plan) \<noteq> None
                 then Inr ((), d)
                 else bindS (transition w incident_id AWAITING_APPROVAL ESCALATED (i_version incident) ''policy''
                        (''plan '' @ take 12 (p_hash plan) @ '' was not approved within '' @
                         fmt_fixed 0 (remediation_approval_ttl_s st / 60) @ '' minutes'') d)
                   (\<lambda>(_, d'). Inr ((), d')))) d)"

section \<open>The SLI\<close>

record sli_check =
  sc_name :: string
  sc_query :: string
  sc_healthy_below :: rat
  sc_unit :: string

definition SERVER :: string where
  "SERVER = ''span_kind='' @ [CHR 0x22] @ ''SPAN_KIND_SERVER'' @ [CHR 0x22] @ '', service_name='' @ [CHR 0x22] @
     ''{service}'' @ [CHR 0x22]"

definition CHECKS :: "(string \<times> sli_check) list" where
  "CHECKS =
     [(''availability'',
       \<lparr>sc_name = ''error ratio over 1m'',
        sc_query = ''sum(rate(traces_span_metrics_calls_total{'' @ SERVER @ '', status_code='' @ [CHR 0x22] @
          ''STATUS_CODE_ERROR'' @ [CHR 0x22] @ ''}[1m])) / sum(rate(traces_span_metrics_calls_total{'' @ SERVER @ ''}[1m]))'',
        sc_healthy_below = 6 / 100, sc_unit = ''ratio''\<rparr>),
      (''latency'',
       \<lparr>sc_name = ''p95 over 1m'',
        sc_query = ''histogram_quantile(0.95, sum by (le) (rate(traces_span_metrics_duration_milliseconds_bucket{'' @
          SERVER @ ''}[1m])))'',
        sc_healthy_below = 1000, sc_unit = ''ms''\<rparr>)]"

text \<open>\<open>query.replace("{service}", service)\<close>: left to right, never inside what was put in.\<close>

fun replace_all :: "nat \<Rightarrow> string \<Rightarrow> string \<Rightarrow> string \<Rightarrow> string" where
  "replace_all k old new [] = []"
| "replace_all (Suc k) old new (c # s) = replace_all k old new s"
| "replace_all 0 old new (c # s) =
     (if starts_with old (c # s) then new @ replace_all (length old - 1) old new s
      else c # replace_all 0 old new s)"

definition promql :: "sli_check \<Rightarrow> string \<Rightarrow> string" where
  "promql chk service = replace_all 0 ''{service}'' service (sc_query chk)"

definition check_for :: "(string \<times> string) list \<Rightarrow> sli_check option" where
  "check_for labels = map_of CHECKS (case map_of labels ''slo'' of None \<Rightarrow> '''' | Some s \<Rightarrow> s)"

text \<open>Python's floats as far as a comparison with a threshold sees them.\<close>

datatype pyfloat = Fin rat | PosInf | NegInf | NaN

fun below :: "pyfloat \<Rightarrow> rat \<Rightarrow> bool" where
  "below (Fin x) t = (x < t)"
| "below PosInf t = False"
| "below NegInf t = True"
| "below NaN t = False"

text \<open>
  \<open>read\<close> after the answer of Prometheus: \<open>float\<close> of a text is a parameter (\<open>None\<close>:
  \<open>ValueError\<close>); an answer of another shape is a Python error as well.
\<close>

datatype sli_error = SliTool string | SliOther

fun first_value :: "json \<Rightarrow> sli_error + string" where
  "first_value (JObj kvs) =
     (case jget kvs ''value'' of Some (JArr (t # JStr v # r)) \<Rightarrow> Inr v | _ \<Rightarrow> Inl SliOther)"
| "first_value _ = Inl SliOther"

definition sli_value :: "(string \<Rightarrow> pyfloat option) \<Rightarrow> json \<Rightarrow> sli_error + pyfloat option" where
  "sli_value parse_float body =
     (case body of
        JObj kvs \<Rightarrow>
          (case (case jget kvs ''data'' of None \<Rightarrow> JObj [] | Some x \<Rightarrow> x) of
             JObj data \<Rightarrow>
               (case (case jget data ''result'' of None \<Rightarrow> JArr [] | Some x \<Rightarrow> x) of
                  JArr [] \<Rightarrow> Inr None
                | JArr (r # rs) \<Rightarrow>
                    bindS (first_value r) (\<lambda>t. case parse_float t of
                        None \<Rightarrow> Inl SliOther
                      | Some NaN \<Rightarrow> Inr None
                      | Some v \<Rightarrow> Inr (Some v))
                | _ \<Rightarrow> Inl SliOther)
           | _ \<Rightarrow> Inl SliOther)
      | _ \<Rightarrow> Inl SliOther)"

section \<open>Verification\<close>

text \<open>
  The loop. Turn \<open>k\<close> reads \<open>reads k\<close> and looks at the clock, \<open>clock k\<close>. The texts of numbers
  are parameters of the sample and the reason.
\<close>

record sample =
  sm_turn :: nat
  sm_value :: "pyfloat option"
  sm_note :: string

datatype verify_end = Passed "sample list" nat | NotPassed "sample list" | VerifyRaised | OutOfFuel

definition healthy :: "sli_check \<Rightarrow> pyfloat option \<Rightarrow> bool" where
  "healthy chk v = (case v of None \<Rightarrow> False | Some x \<Rightarrow> below x (sc_healthy_below chk))"

fun verify_loop ::
    "sli_check \<Rightarrow> nat \<Rightarrow> time \<Rightarrow> (nat \<Rightarrow> sli_error + pyfloat option) \<Rightarrow> (nat \<Rightarrow> time) \<Rightarrow> nat \<Rightarrow> nat \<Rightarrow> nat \<Rightarrow>
       sample list \<Rightarrow> verify_end" where
  "verify_loop chk wanted deadline reads clock 0 k streak samples = OutOfFuel"
| "verify_loop chk wanted deadline reads clock (Suc fuel) k streak samples =
     (case (case reads k of
              Inr v \<Rightarrow> Some (v, '''')
            | Inl (SliTool msg) \<Rightarrow> Some (None, msg)
            | Inl SliOther \<Rightarrow> None) of
        None \<Rightarrow> VerifyRaised
      | Some (v, note) \<Rightarrow>
          let streak' = (if healthy chk v then streak + 1 else 0);
              samples' = samples @ [\<lparr>sm_turn = k, sm_value = v, sm_note = note\<rparr>]
          in if wanted \<le> streak' then Passed samples' streak'
             else if deadline \<le> clock k then NotPassed samples'
             else verify_loop chk wanted deadline reads clock fuel (k + 1) streak' samples')"

text \<open>The deadline, counted from the incident's \<open>updated_at\<close>.\<close>

definition verify_deadline :: "settings \<Rightarrow> incident_row \<Rightarrow> time" where
  "verify_deadline st incident = i_updated_at incident + usecs (verify_settle_s st + verify_timeout_s st)"

text \<open>Enough turns: the loop sleeps \<open>verify_interval_s\<close> in each.\<close>

definition verify_fuel :: "settings \<Rightarrow> time \<Rightarrow> time \<Rightarrow> nat" where
  "verify_fuel st deadline first = nat (deadline - first) div nat (usecs (verify_interval_s st)) + 2"

text \<open>How a float is written: \<open>{v:.3g}\<close>, \<open>{v:g}\<close>, the JSON of a sample's value and its time.\<close>

record texts =
  tx_g3 :: "pyfloat \<Rightarrow> string"
  tx_g :: "rat \<Rightarrow> string"
  tx_float :: "pyfloat \<Rightarrow> json"
  tx_at :: "nat \<Rightarrow> string"

definition sample_json :: "texts \<Rightarrow> sample \<Rightarrow> json" where
  "sample_json tx s =
     JObj [(''at'', JStr (tx_at tx (sm_turn s))), (''value'', jopt (tx_float tx) (sm_value s)), (''note'', JStr (sm_note s))]"

definition shown :: "texts \<Rightarrow> sample list \<Rightarrow> string" where
  "shown tx samples =
     (case samples of [] \<Rightarrow> ''no data''
      | _ \<Rightarrow> (case sm_value (last samples) of None \<Rightarrow> ''no data'' | Some v \<Rightarrow> tx_g3 tx v))"

definition can_undo_text :: "plan_row \<Rightarrow> string" where
  "can_undo_text plan =
     join ''; '' (map (\<lambda>a. action_kind a @ '' '' @ a_deployment a @ '' can be undone: '' @
       (case catalogue (action_kind a) of Some info \<Rightarrow> ai_inverse info | None \<Rightarrow> '''')) (rp_actions (p_plan plan)))"

definition verified_reason :: "bool \<Rightarrow> string \<Rightarrow> plan_row option \<Rightarrow> string" where
  "verified_reason ok why plan =
     (case plan of
        Some p \<Rightarrow> if \<not> ok \<and> rp_actions (p_plan p) \<noteq> [] then why @ ''. '' @ can_undo_text p else why
      | None \<Rightarrow> why)"

text \<open>\<open>_verified\<close>: the audit event and the last move, if the incident still is VERIFYING.\<close>

definition verified ::
    "world \<Rightarrow> texts \<Rightarrow> job \<Rightarrow> string \<Rightarrow> bool \<Rightarrow> string \<Rightarrow> sample list \<Rightarrow> plan_row option \<Rightarrow> unit tx" where
  "verified w tx job incident_id ok why samples plan =
     (let full = verified_reason ok why plan in
      job_transaction job (\<lambda>d.
       case incidents_get d incident_id None of
         None \<Rightarrow> Inr ((), d)
       | Some incident \<Rightarrow>
           if i_state incident \<noteq> VERIFYING then Inr ((), d)
           else
             bindS (audit_append w ''verifier'' (if ok then ''verification.passed'' else ''verification.failed'')
                      incident_id (Some (i_tenant incident))
                      (JObj [(''reason'', JStr full),
                             (''samples'', JArr (map (sample_json tx) (drop (length samples - 20) samples)))]) d)
               (\<lambda>(_, d1). bindS (transition w incident_id VERIFYING (if ok then RESOLVED else ESCALATED) (i_version incident)
                            ''verifier'' (take 500 full) d1) (\<lambda>(_, d2). Inr ((), d2)))))"

definition passed_reason :: "texts \<Rightarrow> sli_check \<Rightarrow> string \<Rightarrow> sample list \<Rightarrow> nat \<Rightarrow> string" where
  "passed_reason tx chk service samples streak =
     service @ '' '' @ sc_name chk @ '' is '' @ shown tx samples @ '' '' @ sc_unit chk @ '', below '' @
     tx_g tx (sc_healthy_below chk) @ '', for '' @ dec streak @ '' checks in a row''"

definition failed_reason :: "texts \<Rightarrow> settings \<Rightarrow> sli_check \<Rightarrow> string \<Rightarrow> sample list \<Rightarrow> string" where
  "failed_reason tx st chk service samples =
     service @ '' '' @ sc_name chk @ '' still '' @ shown tx samples @ '' '' @ sc_unit chk @ '' (healthy below '' @
     tx_g tx (sc_healthy_below chk) @ '') '' @ fmt_fixed 0 (verify_timeout_s st / 60) @ '' minutes after the repair''"

definition slo_repr :: "(string \<times> string) list \<Rightarrow> string" where
  "slo_repr labels = (case map_of labels ''slo'' of None \<Rightarrow> ''None'' | Some s \<Rightarrow> py_repr s)"

text \<open>
  \<open>verify_job\<close>: a transaction starts it, \<open>reads\<close> are the answers of Prometheus (\<open>None\<close>: there
  is no Prometheus), and the last transaction runs on the database as it is by then, \<open>later d\<close>.
\<close>

definition verify_job ::
    "world \<Rightarrow> settings \<Rightarrow> texts \<Rightarrow> (nat \<Rightarrow> sli_error + pyfloat option) option \<Rightarrow> (nat \<Rightarrow> time) \<Rightarrow> (db \<Rightarrow> db) \<Rightarrow>
       job \<Rightarrow> db \<Rightarrow> handler_end \<times> db" where
  "verify_job w st tx prometheus clock later job d =
     (case job_incident job of
        Inl e \<Rightarrow> (Raised e '''', d)
      | Inr incident_id \<Rightarrow>
          (case incidents_get d incident_id None of
             None \<Rightarrow> (Returned, d)
           | Some incident \<Rightarrow>
               if i_state incident \<noteq> VERIFYING then (Returned, d)
               else
                 let plan = current_plan d incident_id;
                     d1 = later d;
                     finish_with = (\<lambda>ok why samples. case verified w tx job incident_id ok why samples plan d1 of
                        Inr (_, d2) \<Rightarrow> (Returned, d2) | Inl e \<Rightarrow> (Raised e '''', d1))
                 in case (check_for (i_labels incident), prometheus) of
                      (None, _) \<Rightarrow> finish_with False
                        (''the repair cannot be verified: no SLI check for slo='' @ slo_repr (i_labels incident)) []
                    | (Some chk, None) \<Rightarrow> finish_with False ''the repair cannot be verified: no Prometheus'' []
                    | (Some chk, Some reads) \<Rightarrow>
                        (case verify_loop chk (verify_healthy_checks st) (verify_deadline st incident) reads clock
                                (verify_fuel st (verify_deadline st incident) (clock 0)) 0 0 [] of
                           Passed samples streak \<Rightarrow> finish_with True (passed_reason tx chk (i_service incident) samples streak) samples
                         | NotPassed samples \<Rightarrow> finish_with False (failed_reason tx st chk (i_service incident) samples) samples
                         | VerifyRaised \<Rightarrow> (RaisedOther '''' '''', d1)
                         | OutOfFuel \<Rightarrow> (RaisedOther '''' '''', d1))))"

section \<open>Verification ends\<close>

lemma verify_loop_fuel:
  assumes "verify_loop chk n dl reads clock fuel k s sm = OutOfFuel"
  shows "\<forall>i < fuel. clock (k + i) < dl"
  using assms
proof (induction fuel arbitrary: k s sm)
  case (Suc fuel)
  from Suc.prems obtain s' sm' where "clock k < dl" "verify_loop chk n dl reads clock fuel (k + 1) s' sm' = OutOfFuel"
    by (auto simp: Let_def split: sum.splits sli_error.splits if_splits)
  with Suc.IH [of "k + 1"] show ?case by (auto simp: less_Suc_eq_0_disj)
qed simp

lemma verify_loop_ends:
  assumes "0 < usecs (verify_interval_s st)" "\<And>k. clock k + usecs (verify_interval_s st) \<le> clock (Suc k)"
  shows "verify_loop chk n dl reads clock (verify_fuel st dl (clock 0)) 0 s sm \<noteq> OutOfFuel"
proof
  assume "verify_loop chk n dl reads clock (verify_fuel st dl (clock 0)) 0 s sm = OutOfFuel"
  then have lt: "\<forall>i < verify_fuel st dl (clock 0). clock i < dl" using verify_loop_fuel by fastforce
  let ?u = "usecs (verify_interval_s st)"
  have adv: "clock 0 + int k * ?u \<le> clock k" for k
  proof (induction k)
    case (Suc k)
    have "clock 0 + int (Suc k) * ?u = clock 0 + int k * ?u + ?u" by (simp add: algebra_simps)
    with Suc assms(2) [of k] show ?case by linarith
  qed simp
  let ?k = "nat (dl - clock 0) div nat ?u + 1"
  have "clock ?k < dl" using lt by (simp add: verify_fuel_def)
  with adv [of ?k] have "int ?k * ?u < dl - clock 0" by linarith
  moreover have "dl - clock 0 < int ?k * ?u"
  proof -
    have "nat (dl - clock 0) < ?k * nat ?u"
      using assms(1) by (metis Suc_eq_plus1 dividend_less_div_times less_add_same_cancel2 mult_Suc add.commute zero_less_nat_eq)
    then have "int (nat (dl - clock 0)) < int ?k * int (nat ?u)" by (metis of_nat_less_iff of_nat_mult)
    with assms(1) show ?thesis by (simp split: if_split_asm)
  qed
  ultimately show False by simp
qed

section \<open>Healthy in a row\<close>

definition sound_samples :: "sli_check \<Rightarrow> nat \<Rightarrow> sample list \<Rightarrow> bool" where
  "sound_samples chk streak samples \<longleftrightarrow>
     streak \<le> length samples \<and> list_all (\<lambda>s. healthy chk (sm_value s)) (drop (length samples - streak) samples)"

lemma verify_loop_passed:
  assumes "verify_loop chk n dl reads clock fuel k s sm = Passed samples streak" "sound_samples chk s sm"
  shows "n \<le> streak \<and> sound_samples chk streak samples"
  using assms
proof (induction fuel arbitrary: k s sm)
  case (Suc fuel)
  from Suc.prems(1) obtain v nt where
    r: "(case reads k of Inr v \<Rightarrow> Some (v, '''') | Inl (SliTool msg) \<Rightarrow> Some (None, msg) | Inl SliOther \<Rightarrow> None) = Some (v, nt)"
    by (auto split: option.splits)
  let ?s = "if healthy chk v then s + 1 else 0" and ?sm = "sm @ [\<lparr>sm_turn = k, sm_value = v, sm_note = nt\<rparr>]"
  have sound: "sound_samples chk ?s ?sm" using Suc.prems(2) by (simp add: sound_samples_def)
  show ?case
  proof (cases "n \<le> ?s")
    case True
    with Suc.prems(1) r sound show ?thesis by (simp add: Let_def)
  next
    case False
    with Suc.prems(1) r have "verify_loop chk n dl reads clock fuel (k + 1) ?s ?sm = Passed samples streak"
      by (simp add: Let_def split: if_splits)
    from Suc.IH [OF this sound] show ?thesis .
  qed
qed simp

section \<open>The two ways out of waiting\<close>

lemma approval_timeout_Inr:
  assumes "approval_timeout w st job d = Inr (u, d')" "d' \<noteq> d"
  shows "\<exists>iid inc plan rs v. jb_incident job = Some iid \<and> incidents_get d iid None = Some inc \<and>
    i_state inc = AWAITING_APPROVAL \<and> current_plan d iid = Some plan \<and>
    jget (jb_payload job) ''plan_id'' = Some (JInt (int (p_id plan))) \<and> approval d (p_id plan) = None \<and> holds d job \<and>
    transition w iid AWAITING_APPROVAL ESCALATED (i_version inc) ''policy'' rs d = Inr (v, d')"
  using assms
  by (auto simp: approval_timeout_def job_incident_def tx_simps split: option.splits if_splits)

lemma verified_Inr:
  assumes "verified w tx job iid ok why samples plan d = Inr (u, d')" "d' \<noteq> d"
  shows "\<exists>inc d1 h pl rs v. incidents_get d iid None = Some inc \<and> i_state inc = VERIFYING \<and> holds d job \<and>
    audit_append w ''verifier'' (if ok then ''verification.passed'' else ''verification.failed'') iid (Some (i_tenant inc)) pl d = Inr (h, d1) \<and>
    transition w iid VERIFYING (if ok then RESOLVED else ESCALATED) (i_version inc) ''verifier'' rs d1 = Inr (v, d')"
  using assms
  by (auto simp: verified_def Let_def tx_simps split: option.splits if_splits)

text \<open>
  The deadline is not the one of entering VERIFYING: an alert that merges into the incident
  writes \<open>updated_at\<close>, and a rerun of the job counts from there.
\<close>

lemma merged_alert_moves_deadline:
  "verify_deadline st (merge_alert w p r) = verify_deadline st r + (w_now w - i_updated_at r)"
  by (simp add: verify_deadline_def merge_alert_def)

end
