(* ===== verification/ExecutorK8s.thy ===== *)
theory ExecutorK8s
  imports Actions
begin

text \<open>
  The executor's Kubernetes client (\<open>app/executor/k8s.py\<close>): working out the JSON patch of an
  action, sending it, waiting for the rollout. The API server is the parameter \<open>answer\<close>: its
  answer to a request may depend on every request before it, and the requests sent so far are
  the state. Shown: working a change out only reads, every patch tests the resource version it
  was worked out against, a rollback goes to the newest earlier revision, waiting ends.
\<close>

section \<open>Requests\<close>

record request =
  rq_method :: string
  rq_path :: string
  rq_params :: "(string \<times> string) list"
  rq_body :: "json option"

text \<open>No answer, or a status, the body as text and the body as JSON if it is JSON.\<close>

datatype http_result = NoAnswer string | Response nat string "json option"

text \<open>\<open>ExecError\<close> with its field \<open>applied\<close>, or any other Python exception.\<close>

datatype kexn = ExecError string "bool option" | OtherError string

type_synonym server = "request list \<Rightarrow> request \<Rightarrow> http_result"
type_synonym 'a kx = "request list \<Rightarrow> (kexn + 'a) \<times> request list"

definition kret :: "'a \<Rightarrow> 'a kx" where
  "kret a h = (Inr a, h)"

definition klift :: "kexn + 'a \<Rightarrow> 'a kx" where
  "klift r h = (r, h)"

definition kbind :: "'a kx \<Rightarrow> ('a \<Rightarrow> 'b kx) \<Rightarrow> 'b kx" where
  "kbind m f h = (case m h of (Inl e, h') \<Rightarrow> (Inl e, h') | (Inr a, h') \<Rightarrow> f a h')"

definition is_patch :: "request \<Rightarrow> bool" where
  "is_patch r \<longleftrightarrow> rq_method r = ''PATCH''"

text \<open>A patch that is not a dry run changes the cluster.\<close>

definition is_change :: "request \<Rightarrow> bool" where
  "is_change r \<longleftrightarrow> is_patch r \<and> rq_params r = []"

text \<open>\<open>resp.json().get("message") or resp.text\<close>\<close>

definition error_detail :: "string \<Rightarrow> json option \<Rightarrow> string" where
  "error_detail body_text body =
     (case body of
        Some (JObj kvs) \<Rightarrow> (case jget kvs ''message'' of Some (JStr (c # s)) \<Rightarrow> c # s | _ \<Rightarrow> body_text)
      | _ \<Rightarrow> body_text)"

definition ksend :: "server \<Rightarrow> request \<Rightarrow> json kx" where
  "ksend answer r h =
     (case answer h r of
        NoAnswer e \<Rightarrow> Inl (ExecError (''no answer from the Kubernetes API: '' @ e)
                             (if rq_method r = ''PATCH'' then None else Some False))
      | Response status body_text body \<Rightarrow>
          if 400 \<le> status then
            Inl (ExecError (''HTTP '' @ dec status @ '' from '' @ rq_method r @ '' '' @ rq_path r @ '': '' @
                   take 400 (error_detail body_text body)) (Some False))
          else (case body of None \<Rightarrow> Inl (OtherError ''ValueError'') | Some j \<Rightarrow> Inr j),
      h @ [r])"

section \<open>Reading JSON\<close>

fun as_obj :: "json \<Rightarrow> kexn + (string \<times> json) list" where
  "as_obj (JObj kvs) = Inr kvs"
| "as_obj _ = Inl (OtherError ''TypeError'')"

fun as_list :: "json \<Rightarrow> kexn + json list" where
  "as_list (JArr xs) = Inr xs"
| "as_list _ = Inl (OtherError ''TypeError'')"

text \<open>\<open>x[k]\<close> and \<open>x.get(k, default)\<close>.\<close>

definition jidx :: "json \<Rightarrow> string \<Rightarrow> kexn + json" where
  "jidx j k =
     bindS (as_obj j) (\<lambda>kvs. case jget kvs k of None \<Rightarrow> Inl (OtherError ''KeyError'') | Some v \<Rightarrow> Inr v)"

definition jget_or :: "json \<Rightarrow> string \<Rightarrow> json \<Rightarrow> kexn + json" where
  "jget_or j k dflt = bindS (as_obj j) (\<lambda>kvs. Inr (case jget kvs k of None \<Rightarrow> dflt | Some v \<Rightarrow> v))"

text \<open>\<open>int(x)\<close> of an annotation or of the default.\<close>

fun jint :: "json \<Rightarrow> kexn + int" where
  "jint (JInt n) = Inr n"
| "jint (JStr s) = (case py_int s of Some n \<Rightarrow> Inr n | None \<Rightarrow> Inl (OtherError ''ValueError''))"
| "jint _ = Inl (OtherError ''TypeError'')"

fun jstr :: "json \<Rightarrow> kexn + string" where
  "jstr (JStr s) = Inr s"
| "jstr _ = Inl (OtherError ''TypeError'')"

text \<open>A number or None in a message; the API's schema has nothing else for \<open>replicas\<close>.\<close>

fun count_text :: "json \<Rightarrow> string" where
  "count_text (JInt n) = dec_int n"
| "count_text _ = ''None''"

definition REVISION :: string where
  "REVISION = ''deployment.kubernetes.io/revision''"

definition CHANGE_CAUSE :: string where
  "CHANGE_CAUSE = ''kubernetes.io/change-cause''"

definition RESTARTED_AT :: string where
  "RESTARTED_AT = ''kubectl.kubernetes.io/restartedAt''"

text \<open>\<open>key.replace("~", "~0").replace("/", "~1")\<close>\<close>

fun replace_char :: "char \<Rightarrow> string \<Rightarrow> string \<Rightarrow> string" where
  "replace_char c t [] = []"
| "replace_char c t (x # xs) = (if x = c then t else [x]) @ replace_char c t xs"

definition escape_key :: "string \<Rightarrow> string" where
  "escape_key key = replace_char CHR ''/'' ''~1'' (replace_char CHR ''~'' ''~0'' key)"

text \<open>\<open>int(x.get("annotations", {}).get(REVISION, 0))\<close> on the metadata \<open>x\<close>.\<close>

definition revision_of :: "json \<Rightarrow> kexn + int" where
  "revision_of meta =
     bindS (jget_or meta ''annotations'' (JObj [])) (\<lambda>an. bindS (jget_or an REVISION (JInt 0)) jint)"

section \<open>Operations\<close>

record writer =
  wr_answer :: server
  wr_namespace :: string

definition deployment_path :: "writer \<Rightarrow> string \<Rightarrow> string" where
  "deployment_path wr name = ''/apis/apps/v1/namespaces/'' @ wr_namespace wr @ ''/deployments/'' @ name"

definition get_deployment :: "writer \<Rightarrow> string \<Rightarrow> json kx" where
  "get_deployment wr name =
     ksend (wr_answer wr) \<lparr>rq_method = ''GET'', rq_path = deployment_path wr name, rq_params = [], rq_body = None\<rparr>"

definition selector_text :: "json \<Rightarrow> kexn + string" where
  "selector_text dep =
     bindS (jidx dep ''spec'') (\<lambda>spec. bindS (jidx spec ''selector'') (\<lambda>sel.
     bindS (jget_or sel ''matchLabels'' (JObj [])) (\<lambda>ml. bindS (as_obj ml) (\<lambda>kvs.
     bindS (mapS (\<lambda>(k, v). bindS (jstr v) (\<lambda>s. Inr (k @ ''='' @ s))) kvs) (\<lambda>ts. Inr (join '','' ts))))))"

definition owned_by :: "json \<Rightarrow> json \<Rightarrow> kexn + bool" where
  "owned_by uid r =
     bindS (jidx r ''metadata'') (\<lambda>meta. bindS (jget_or meta ''ownerReferences'' (JArr [])) (\<lambda>refs.
     bindS (as_list refs) (\<lambda>os. bindS (mapS (\<lambda>o'. jget_or o' ''uid'' JNull) os) (\<lambda>uids. Inr (uid \<in> set uids)))))"

definition get_replicasets :: "writer \<Rightarrow> json \<Rightarrow> json list kx" where
  "get_replicasets wr dep =
     kbind (klift (selector_text dep)) (\<lambda>selector.
     kbind (ksend (wr_answer wr)
              \<lparr>rq_method = ''GET'', rq_path = ''/apis/apps/v1/namespaces/'' @ wr_namespace wr @ ''/replicasets'',
               rq_params = [(''labelSelector'', selector)], rq_body = None\<rparr>) (\<lambda>body.
     klift (bindS (jidx dep ''metadata'') (\<lambda>meta. bindS (jidx meta ''uid'') (\<lambda>uid.
       bindS (jget_or body ''items'' (JArr [])) (\<lambda>items. bindS (as_list items) (\<lambda>rs.
       bindS (mapS (\<lambda>r. bindS (owned_by uid r) (\<lambda>b. Inr (r, b))) rs) (\<lambda>marked.
       Inr (map fst (filter snd marked))))))))))"

definition patch :: "writer \<Rightarrow> string \<Rightarrow> json list \<Rightarrow> bool \<Rightarrow> json kx" where
  "patch wr name ops dry_run =
     ksend (wr_answer wr)
       \<lparr>rq_method = ''PATCH'', rq_path = deployment_path wr name,
        rq_params = (if dry_run then [(''dryRun'', ''All'')] else []), rq_body = Some (JArr ops)\<rparr>"

record prepared =
  pr_deployment :: string
  pr_ops :: "json list"
  pr_before :: json
  pr_summary :: string
  pr_noop :: bool

definition test_op :: "json \<Rightarrow> json" where
  "test_op rv = JObj [(''op'', JStr ''test''), (''path'', JStr ''/metadata/resourceVersion''), (''value'', rv)]"

definition add_op :: "string \<Rightarrow> json \<Rightarrow> json" where
  "add_op path v = JObj [(''op'', JStr ''add''), (''path'', JStr path), (''value'', v)]"

definition replace_op :: "string \<Rightarrow> json \<Rightarrow> json" where
  "replace_op path v = JObj [(''op'', JStr ''replace''), (''path'', JStr path), (''value'', v)]"

text \<open>Dropping a key below a path of objects: \<open>x.get(a, {}).get(b, {}).pop(k, None)\<close> on a copy.\<close>

fun drop_below :: "string list \<Rightarrow> string \<Rightarrow> json \<Rightarrow> json" where
  "drop_below [] k (JObj kvs) = JObj (filter (\<lambda>kv. fst kv \<noteq> k) kvs)"
| "drop_below (p # ps) k (JObj kvs) = JObj (map (\<lambda>(a, v). if a = p then (a, drop_below ps k v) else (a, v)) kvs)"
| "drop_below ps k j = j"

definition without_hash :: "json \<Rightarrow> json" where
  "without_hash t = drop_below [''metadata'', ''labels''] ''pod-template-hash'' t"

definition clean_template :: "json \<Rightarrow> json" where
  "clean_template t = drop_below [''metadata'', ''annotations''] RESTARTED_AT (without_hash t)"

definition same_template :: "json \<Rightarrow> json \<Rightarrow> bool" where
  "same_template a b \<longleftrightarrow> normal (clean_template a) = normal (clean_template b)"

text \<open>The dictionary from revision to ReplicaSet: the last one of a revision wins.\<close>

definition by_revision :: "json list \<Rightarrow> kexn + (int \<times> json) list" where
  "by_revision rs =
     bindS (mapS (\<lambda>r. bindS (jidx r ''metadata'') (\<lambda>meta. bindS (revision_of meta) (\<lambda>n. Inr (n, r)))) rs)
       (\<lambda>kvs. Inr (rev kvs))"

definition undo_target :: "string \<Rightarrow> int option \<Rightarrow> int \<Rightarrow> int list \<Rightarrow> kexn + int" where
  "undo_target name to_revision current known =
     bindS (case to_revision of
              Some t \<Rightarrow> Inr t
            | None \<Rightarrow>
                let earlier = filter (\<lambda>r. 0 < r \<and> r < current) known
                in if earlier = [] then
                     Inl (ExecError (name @ '' has no revision before '' @ dec_int current @ '' to roll back to'') (Some False))
                   else Inr (foldr max earlier (hd earlier)))
       (\<lambda>target.
          if target \<notin> set known then
            Inl (ExecError (name @ '' has no revision '' @ dec_int target @ '' (known: ['' @
                   join '', '' (map dec_int (sort (remdups known))) @ ''])'') (Some False))
          else if target = current then
            Inl (ExecError (name @ '' is already at revision '' @ dec_int target) (Some False))
          else Inr target)"

text \<open>\<open>before\<close> is the dictionary without \<open>target_revision\<close>.\<close>

definition undo_prepared ::
    "string \<Rightarrow> json \<Rightarrow> (string \<times> json) list \<Rightarrow> int \<Rightarrow> json \<Rightarrow> string \<Rightarrow> int \<Rightarrow> json \<Rightarrow> kexn + prepared" where
  "undo_prepared name dep before current guard_op note target rs =
     bindS (jidx rs ''spec'') (\<lambda>rspec. bindS (jidx rspec ''template'') (\<lambda>t.
     bindS (jidx dep ''spec'') (\<lambda>spec. bindS (jidx spec ''template'') (\<lambda>now_template.
       let template = without_hash t
       in Inr (if same_template template now_template then
            \<lparr>pr_deployment = name, pr_ops = [], pr_before = JObj before,
             pr_summary = name @ '' already runs the template of revision '' @ dec_int target, pr_noop = True\<rparr>
          else
            \<lparr>pr_deployment = name,
             pr_ops = [guard_op, replace_op ''/spec/template'' template,
                       add_op (''/metadata/annotations/'' @ escape_key CHANGE_CAUSE) (JStr note)],
             pr_before = JObj (before @ [(''target_revision'', JInt target)]),
             pr_summary = ''roll '' @ name @ '' back from revision '' @ dec_int current @
               '' to the template of revision '' @ dec_int target,
             pr_noop = False\<rparr>)))))"

definition prepare_undo ::
    "writer \<Rightarrow> string \<Rightarrow> int option \<Rightarrow> json \<Rightarrow> (string \<times> json) list \<Rightarrow> int \<Rightarrow> json \<Rightarrow> string \<Rightarrow> prepared kx" where
  "prepare_undo wr name to_revision dep before current guard_op note =
     kbind (get_replicasets wr dep) (\<lambda>rss.
     klift (bindS (by_revision rss) (\<lambda>br.
       bindS (undo_target name to_revision current (map fst br)) (\<lambda>target.
         case map_of br target of
           None \<Rightarrow> Inl (OtherError ''KeyError'')
         | Some rs \<Rightarrow> undo_prepared name dep before current guard_op note target rs))))"

text \<open>The images of the pod template's containers.\<close>

definition images :: "json \<Rightarrow> kexn + json" where
  "images template =
     bindS (jidx template ''spec'') (\<lambda>ps. bindS (jget_or ps ''containers'' (JArr [])) (\<lambda>cs. bindS (as_list cs) (\<lambda>xs.
     bindS (mapS (\<lambda>c. jget_or c ''image'' JNull) xs) (\<lambda>is. Inr (JArr is)))))"

record facts =
  fa_version :: json
  fa_revision :: int
  fa_replicas :: json
  fa_before :: "(string \<times> json) list"
  fa_template :: json

text \<open>What \<open>prepare\<close> reads of the Deployment before it looks at the action.\<close>

definition deployment_facts :: "json \<Rightarrow> kexn + facts" where
  "deployment_facts dep =
     bindS (jidx dep ''metadata'') (\<lambda>meta. bindS (jidx meta ''resourceVersion'') (\<lambda>rv.
     bindS (revision_of meta) (\<lambda>rev. bindS (jidx dep ''spec'') (\<lambda>spec.
     bindS (jget_or spec ''replicas'' JNull) (\<lambda>replicas. bindS (jidx spec ''template'') (\<lambda>template.
     bindS (images template) (\<lambda>imgs.
       Inr \<lparr>fa_version = rv, fa_revision = rev, fa_replicas = replicas,
            fa_before = [(''resourceVersion'', rv), (''revision'', JInt rev), (''replicas'', replicas), (''image'', imgs)],
            fa_template = template\<rparr>)))))))"

text \<open>\<open>now\<close> is \<open>datetime.now(UTC).isoformat(timespec="seconds")\<close>.\<close>

definition prepare :: "writer \<Rightarrow> string \<Rightarrow> string \<Rightarrow> action \<Rightarrow> prepared kx" where
  "prepare wr now note action =
     kbind (get_deployment wr (a_deployment action)) (\<lambda>dep.
     kbind (klift (deployment_facts dep)) (\<lambda>fa.
       let guard_op = test_op (fa_version fa) in
       case action of
         RolloutUndo name ev why to_revision \<Rightarrow>
           prepare_undo wr name to_revision dep (fa_before fa) (fa_revision fa) guard_op note
       | RestartDeployment name ev why \<Rightarrow>
           klift (bindS (jidx (fa_template fa) ''metadata'') (\<lambda>tm. bindS (jget_or tm ''annotations'' JNull) (\<lambda>an.
             Inr \<lparr>pr_deployment = name,
                  pr_ops = [guard_op,
                    (if an \<noteq> JNull then add_op (''/spec/template/metadata/annotations/'' @ escape_key RESTARTED_AT) (JStr now)
                     else add_op ''/spec/template/metadata/annotations'' (JObj [(RESTARTED_AT, JStr now)]))],
                  pr_before = JObj (fa_before fa), pr_summary = ''rolling restart of '' @ name, pr_noop = False\<rparr>)))
       | ScaleDeployment name ev why replicas \<Rightarrow>
           if fa_replicas fa = JInt replicas then
             kret \<lparr>pr_deployment = name, pr_ops = [], pr_before = JObj (fa_before fa),
                   pr_summary = name @ '' already has '' @ dec_int replicas, pr_noop = True\<rparr>
           else
             kret \<lparr>pr_deployment = name, pr_ops = [guard_op, replace_op ''/spec/replicas'' (JInt replicas)],
                   pr_before = JObj (fa_before fa),
                   pr_summary = ''scale '' @ name @ '' from '' @ count_text (fa_replicas fa) @ '' to '' @ dec_int replicas @ '' replicas'',
                   pr_noop = False\<rparr>))"

section \<open>Waiting for the rollout\<close>

record rollout_state =
  ro_done :: bool
  ro_revision :: int
  ro_replicas :: json
  ro_available :: json
  ro_version :: json

definition rollout_of :: "int \<Rightarrow> json \<Rightarrow> kexn + rollout_state" where
  "rollout_of generation dep =
     bindS (jget_or dep ''status'' (JObj [])) (\<lambda>st. bindS (jidx dep ''spec'') (\<lambda>spec.
     bindS (jget_or spec ''replicas'' (JInt 1)) (\<lambda>want.
     bindS (bindS (jget_or st ''observedGeneration'' (JInt 0)) jint) (\<lambda>og.
     bindS (jget_or st ''updatedReplicas'' (JInt 0)) (\<lambda>updated.
     bindS (jget_or st ''availableReplicas'' (JInt 0)) (\<lambda>available.
     bindS (jget_or st ''replicas'' (JInt 0)) (\<lambda>replicas.
     bindS (jidx dep ''metadata'') (\<lambda>meta. bindS (revision_of meta) (\<lambda>rev. bindS (jidx meta ''resourceVersion'') (\<lambda>rv.
       Inr \<lparr>ro_done = (generation \<le> og \<and> updated = want \<and> available = want \<and> replicas = want),
            ro_revision = rev, ro_replicas = want, ro_available = available, ro_version = rv\<rparr>))))))))))"

text \<open>
  The loop; \<open>tick k\<close> is \<open>time.monotonic()\<close> at the end of turn \<open>k\<close>. \<open>None\<close>: the fuel is spent.
\<close>

fun wait_loop :: "writer \<Rightarrow> string \<Rightarrow> int \<Rightarrow> (nat \<Rightarrow> rat) \<Rightarrow> rat \<Rightarrow> nat \<Rightarrow> nat \<Rightarrow> rollout_state option kx" where
  "wait_loop wr name generation tick deadline 0 k h = (Inr None, h)"
| "wait_loop wr name generation tick deadline (Suc fuel) k h =
     kbind (get_deployment wr name) (\<lambda>dep.
     kbind (klift (rollout_of generation dep)) (\<lambda>s h'.
       if ro_done s \<or> deadline \<le> tick k then (Inr (Some s), h')
       else wait_loop wr name generation tick deadline fuel (k + 1) h')) h"

text \<open>The fuel: the loop sleeps \<open>min(2.0, timeout_s / 5)\<close> in every turn.\<close>

definition wait_fuel :: "rat \<Rightarrow> nat" where
  "wait_fuel timeout_s = nat \<lceil>timeout_s / 2\<rceil> + 7"

definition wait_rolled_out :: "writer \<Rightarrow> string \<Rightarrow> int \<Rightarrow> (nat \<Rightarrow> rat) \<Rightarrow> rat \<Rightarrow> rat \<Rightarrow> rollout_state option kx" where
  "wait_rolled_out wr name generation tick start timeout_s =
     wait_loop wr name generation tick (start + timeout_s) (wait_fuel timeout_s) 0"

section \<open>Only reads\<close>

lemma kbind_split: "kbind m f h = (r, h') \<longleftrightarrow>
    (\<exists>e. m h = (Inl e, h') \<and> r = Inl e) \<or> (\<exists>a h1. m h = (Inr a, h1) \<and> f a h1 = (r, h'))"
  by (auto simp: kbind_def split: prod.splits sum.splits)

definition reads_only :: "'a kx \<Rightarrow> bool" where
  "reads_only m \<longleftrightarrow> (\<forall>h. \<exists>rs. snd (m h) = h @ rs \<and> list_all (\<lambda>r. \<not> is_patch r) rs)"

named_theorems reads

lemma reads_kret [reads]: "reads_only (kret a)"
  by (simp add: reads_only_def kret_def)

lemma reads_klift [reads]: "reads_only (klift r)"
  by (simp add: reads_only_def klift_def)

lemma reads_kbind [reads]:
  assumes "reads_only m" "\<And>a. reads_only (f a)"
  shows "reads_only (kbind m f)"
  unfolding reads_only_def
proof
  fix h
  obtain r h1 where m: "m h = (r, h1)" by force
  with assms(1) obtain rs where rs: "h1 = h @ rs" "list_all (\<lambda>r. \<not> is_patch r) rs"
    unfolding reads_only_def by (metis snd_conv)
  show "\<exists>rs. snd (kbind m f h) = h @ rs \<and> list_all (\<lambda>r. \<not> is_patch r) rs"
  proof (cases r)
    case (Inl e)
    with m rs show ?thesis by (auto simp: kbind_def)
  next
    case (Inr a)
    from assms(2) [of a] obtain rs' where "snd (f a h1) = h1 @ rs'" "list_all (\<lambda>r. \<not> is_patch r) rs'"
      unfolding reads_only_def by blast
    with m rs Inr show ?thesis by (intro exI [of _ "rs @ rs'"]) (auto simp: kbind_def)
  qed
qed

lemma reads_get [reads]: "reads_only (ksend answer \<lparr>rq_method = ''GET'', rq_path = p, rq_params = q, rq_body = b\<rparr>)"
  by (simp add: reads_only_def ksend_def is_patch_def)

lemma prepare_reads: "reads_only (prepare wr now note a)"
  unfolding prepare_def Let_def get_deployment_def
  by (cases a) (simp_all add: prepare_undo_def get_replicasets_def reads)

lemma wait_loop_reads: "reads_only (wait_loop wr name g tick dl fuel k)"
proof (induction fuel arbitrary: k)
  case 0
  then show ?case by (simp add: reads_only_def)
next
  case (Suc fuel)
  have "reads_only (\<lambda>h'. if ro_done s \<or> dl \<le> tick k then (Inr (Some s), h') else wait_loop wr name g tick dl fuel (k + 1) h')" for s
    using Suc.IH [of "k + 1"] by (simp add: reads_only_def)
  then have "reads_only (\<lambda>h. wait_loop wr name g tick dl (Suc fuel) k h)"
    unfolding wait_loop.simps get_deployment_def by (intro reads)
  then show ?case by simp
qed

section \<open>Every patch is guarded\<close>

definition guarded :: "json list \<Rightarrow> bool" where
  "guarded ops \<longleftrightarrow> (\<exists>rv rest. ops = test_op rv # rest)"

lemma undo_prepared_guarded:
  "undo_prepared name dep before current (test_op rv) note target rs = Inr p \<Longrightarrow>
     (pr_noop p \<longleftrightarrow> pr_ops p = []) \<and> (pr_ops p \<noteq> [] \<longrightarrow> hd (pr_ops p) = test_op rv) \<and> pr_deployment p = name"
  by (auto simp: undo_prepared_def bindS_Inr_iff Let_def split: if_splits)

lemma prepare_Inr:
  assumes "prepare wr now note a h = (Inr p, h')"
  shows "\<exists>dep fa h1. get_deployment wr (a_deployment a) h = (Inr dep, h1) \<and> deployment_facts dep = Inr fa \<and>
    (pr_noop p \<longleftrightarrow> pr_ops p = []) \<and> (pr_ops p \<noteq> [] \<longrightarrow> hd (pr_ops p) = test_op (fa_version fa)) \<and>
    pr_deployment p = a_deployment a"
proof -
  from assms obtain dep fa h1 where d: "get_deployment wr (a_deployment a) h = (Inr dep, h1)" "deployment_facts dep = Inr fa"
    and rest: "(case a of
         RolloutUndo name ev why to_revision \<Rightarrow>
           prepare_undo wr name to_revision dep (fa_before fa) (fa_revision fa) (test_op (fa_version fa)) note
       | RestartDeployment name ev why \<Rightarrow>
           klift (bindS (jidx (fa_template fa) ''metadata'') (\<lambda>tm. bindS (jget_or tm ''annotations'' JNull) (\<lambda>an.
             Inr \<lparr>pr_deployment = name,
                  pr_ops = [test_op (fa_version fa),
                    (if an \<noteq> JNull then add_op (''/spec/template/metadata/annotations/'' @ escape_key RESTARTED_AT) (JStr now)
                     else add_op ''/spec/template/metadata/annotations'' (JObj [(RESTARTED_AT, JStr now)]))],
                  pr_before = JObj (fa_before fa), pr_summary = ''rolling restart of '' @ name, pr_noop = False\<rparr>)))
       | ScaleDeployment name ev why replicas \<Rightarrow>
           if fa_replicas fa = JInt replicas then
             kret \<lparr>pr_deployment = name, pr_ops = [], pr_before = JObj (fa_before fa),
                   pr_summary = name @ '' already has '' @ dec_int replicas, pr_noop = True\<rparr>
           else
             kret \<lparr>pr_deployment = name, pr_ops = [test_op (fa_version fa), replace_op ''/spec/replicas'' (JInt replicas)],
                   pr_before = JObj (fa_before fa),
                   pr_summary = ''scale '' @ name @ '' from '' @ count_text (fa_replicas fa) @ '' to '' @ dec_int replicas @ '' replicas'',
                   pr_noop = False\<rparr>) h1 = (Inr p, h')"
    unfolding prepare_def by (auto simp: kbind_split klift_def Let_def)
  have "(pr_noop p \<longleftrightarrow> pr_ops p = []) \<and> (pr_ops p \<noteq> [] \<longrightarrow> hd (pr_ops p) = test_op (fa_version fa)) \<and>
      pr_deployment p = a_deployment a"
  proof (cases a)
    case (RolloutUndo name ev why to_revision)
    with rest show ?thesis
      by (auto simp: prepare_undo_def kbind_split klift_def bindS_Inr_iff split: option.splits dest!: undo_prepared_guarded)
  next
    case (RestartDeployment name ev why)
    with rest show ?thesis by (auto simp: klift_def bindS_Inr_iff)
  next
    case (ScaleDeployment name ev why n)
    with rest show ?thesis by (auto simp: kret_def split: if_splits)
  qed
  with d show ?thesis by blast
qed

section \<open>The revision a rollback goes to\<close>

lemma foldr_max_mem: "xs \<noteq> [] \<Longrightarrow> foldr max xs (hd xs) \<in> set xs \<and> (\<forall>x \<in> set xs. x \<le> foldr max xs (hd (xs :: int list)))"
proof -
  have gen: "foldr max xs a \<in> insert a (set xs) \<and> a \<le> foldr max xs a \<and> (\<forall>x \<in> set xs. x \<le> foldr max xs a)" for a :: int
    by (induction xs) (auto simp: max_def)
  assume "xs \<noteq> []"
  with gen [of "hd xs"] show ?thesis by (auto simp: hd_in_set)
qed

lemma undo_target_Inr:
  assumes "undo_target name to_revision current known = Inr t"
  shows "t \<in> set known \<and> t \<noteq> current \<and> (\<forall>n. to_revision = Some n \<longrightarrow> t = n) \<and>
    (to_revision = None \<longrightarrow> 0 < t \<and> t < current \<and> (\<forall>r \<in> set known. 0 < r \<longrightarrow> r < current \<longrightarrow> r \<le> t))"
proof (cases to_revision)
  case (Some n)
  with assms show ?thesis by (auto simp: undo_target_def split: if_splits)
next
  case None
  let ?e = "filter (\<lambda>r. 0 < r \<and> r < current) known"
  from None assms have "?e \<noteq> []" and t: "t = foldr max ?e (hd ?e)" and k: "t \<in> set known" "t \<noteq> current"
    by (auto simp: undo_target_def Let_def bindS_Inr_iff split: if_splits)
  from foldr_max_mem [OF this(1)] t None k show ?thesis by auto
qed

section \<open>JSON pointers\<close>

fun unescape_key :: "string \<Rightarrow> string" where
  "unescape_key (c # d # s) =
     (if c = CHR ''~'' \<and> d = CHR ''0'' then CHR ''~'' # unescape_key s
      else if c = CHR ''~'' \<and> d = CHR ''1'' then CHR ''/'' # unescape_key s
      else c # unescape_key (d # s))"
| "unescape_key s = s"

lemma unescape_plain: "c \<noteq> CHR ''~'' \<Longrightarrow> unescape_key (c # s) = c # unescape_key s"
  by (cases s) auto

lemma escape_round_trip: "unescape_key (escape_key key) = key"
proof (induction key)
  case (Cons c key)
  then show ?case by (simp add: escape_key_def unescape_plain)
qed (simp add: escape_key_def)

section \<open>Waiting ends\<close>

text \<open>
  With a clock that starts at \<open>start\<close> or later and advances by the sleep in every turn, the
  deadline is reached before the fuel is spent: the result is a state or an error.
\<close>

lemma wait_loop_ends:
  assumes "fst (wait_loop wr name g tick dl fuel k h) = Inr None"
  shows "\<forall>i < fuel. tick (k + i) < dl"
  using assms
proof (induction fuel arbitrary: k h)
  case (Suc fuel)
  obtain dep h1 s where "get_deployment wr name h = (Inr dep, h1)" "rollout_of g dep = Inr s"
    and r: "fst (if ro_done s \<or> dl \<le> tick k then (Inr (Some s), h1)
      else wait_loop wr name g tick dl fuel (k + 1) h1) = Inr None"
    using Suc.prems by (auto simp: kbind_def klift_def split: prod.splits sum.splits)
  then have "tick k < dl" "fst (wait_loop wr name g tick dl fuel (k + 1) h1) = Inr None"
    by (auto split: if_splits)
  with Suc.IH [of "k + 1" h1] show ?case by (auto simp: less_Suc_eq_0_disj)
qed simp

lemma wait_rolled_out_ends:
  assumes "start \<le> tick 0" "\<And>k. tick k + min 2 (timeout_s / 5) \<le> tick (Suc k)" "0 \<le> timeout_s"
  shows "fst (wait_rolled_out wr name g tick start timeout_s h) \<noteq> Inr None"
proof
  assume "fst (wait_rolled_out wr name g tick start timeout_s h) = Inr None"
  then have lt: "\<forall>i < wait_fuel timeout_s. tick i < start + timeout_s"
    unfolding wait_rolled_out_def using wait_loop_ends by fastforce
  have adv: "start + of_nat k * min 2 (timeout_s / 5) \<le> tick k" for k
  proof (induction k)
    case (Suc k)
    have "start + of_nat (Suc k) * min 2 (timeout_s / 5) = start + of_nat k * min 2 (timeout_s / 5) + min 2 (timeout_s / 5)"
      by (simp add: algebra_simps)
    with Suc assms(2) [of k] show ?case by linarith
  qed (use assms(1) in simp)
  show False
  proof (cases "timeout_s / 5 \<le> 2")
    case True
    have "tick 5 < start + timeout_s" using lt by (simp add: wait_fuel_def)
    with adv [of 5] True show False by simp
  next
    case False
    let ?k = "nat \<lceil>timeout_s / 2\<rceil>"
    have "tick ?k < start + timeout_s" using lt by (simp add: wait_fuel_def)
    moreover have "timeout_s / 2 \<le> of_nat ?k" using assms(3) by (simp add: of_nat_nat)
    moreover have "start + of_nat ?k * 2 \<le> tick ?k" using adv [of ?k] False by simp
    ultimately show False by linarith
  qed
qed

end
