(* ===== verification/ExecutorJob.thy ===== *)
theory ExecutorJob
  imports Flow ExecutorK8s
begin

text \<open>
  The execute job (\<open>app/executor/job.py\<close>), one transaction or one API call per step, so that
  attempts of the same plan can interleave with each other and stop anywhere. Shown: what an
  attempt has checked before it touches the cluster, that no action of a plan is sent twice
  whatever attempts run, lose their lease or crash, and what a rerun does with a row it finds.
\<close>

section \<open>Refusal\<close>

definition payload_text :: "json option \<Rightarrow> string" where
  "payload_text v =
     (case v of None \<Rightarrow> ''None'' | Some (JInt n) \<Rightarrow> dec_int n | Some (JStr s) \<Rightarrow> s | Some j \<Rightarrow> canonical_json j)"

text \<open>\<open>_refusal\<close> with a plan: why it must not run now, empty if it may.\<close>

definition refusal :: "world \<Rightarrow> settings \<Rightarrow> job \<Rightarrow> db \<Rightarrow> incident_row \<Rightarrow> plan_row \<Rightarrow> string" where
  "refusal w st job d incident plan =
     (if jget (jb_payload job) ''plan_id'' \<noteq> Some (JInt (int (p_id plan))) then
        ''the job is for plan '' @ payload_text (jget (jb_payload job) ''plan_id'') @ '', the current plan is '' @ dec (p_id plan)
      else if p_verdict plan = Deny then ''the policy denied this plan''
      else
        let now = review w st d incident (p_plan plan)
        in if dn_verdict now = Deny then ''the policy denies it now: '' @ decision_reasons now
           else if p_verdict plan = RequireApproval \<or> dn_verdict now = RequireApproval then
             (case approval d (p_id plan) of
                None \<Rightarrow> ''it needs an approval and has none''
              | Some decided \<Rightarrow>
                  if ap_decision decided \<noteq> Approve then ''it needs an approval and has none''
                  else if ap_plan_hash decided \<noteq> p_hash plan then ''the approval is for a different plan''
                  else if ap_approver decided = p_proposed_by plan then ''it was approved by its own author''
                  else '''')
           else '''')"

section \<open>Attempts\<close>

definition execution_key :: "nat \<Rightarrow> nat \<Rightarrow> string" where
  "execution_key plan_id i = ''plan:'' @ dec plan_id @ '':action:'' @ dec i"

text \<open>Where an attempt is: about to run the transaction or the call the constructor names.\<close>

datatype pc =
    PAction nat
  | PMarkUnknown nat
  | PPrepare nat
  | PDryRun nat prepared
  | PRecordFailed nat string
  | PRecordStarted nat prepared json
  | PAuditStarted nat prepared json
  | PSend nat prepared
  | PWait nat prepared json
  | PFinishFailed nat prepared execution_status string
  | PFinishOk nat prepared json
  | PAuditOk nat prepared json
  | PEscalate string bool
  | PVerify
  | PEnd handler_end

record attempt =
  ex_job :: job
  ex_worker :: string
  ex_incident :: incident_row
  ex_plan :: "plan_row option"
  ex_pc :: pc

definition executor_actor :: "string \<Rightarrow> string" where
  "executor_actor worker_id = ''executor:'' @ worker_id"

text \<open>The first part of \<open>execute_job\<close>: one read-only connection.\<close>

definition execute_start :: "world \<Rightarrow> settings \<Rightarrow> string \<Rightarrow> job \<Rightarrow> db \<Rightarrow> handler_end + attempt" where
  "execute_start w st worker_id job d =
     (case jb_incident job of
        None \<Rightarrow> Inl (Raised PermanentJobError ''execute job without incident_id'')
      | Some incident_id \<Rightarrow>
          (case incidents_get d incident_id None of
             None \<Rightarrow> Inl (Raised PermanentJobError (''incident '' @ incident_id @ '' not found''))
           | Some incident \<Rightarrow>
               if i_state incident \<noteq> EXECUTING then Inl Returned
               else
                 let mk = (\<lambda>p c. Inr \<lparr>ex_job = job, ex_worker = worker_id, ex_incident = incident, ex_plan = p, ex_pc = c\<rparr>)
                 in case current_plan d incident_id of
                      None \<Rightarrow> mk None (PEscalate ''execution refused: there is no plan'' False)
                    | Some plan \<Rightarrow>
                        let r = refusal w st job d incident plan
                        in if r \<noteq> [] then mk (Some plan) (PEscalate (''execution refused: '' @ r) False)
                           else mk (Some plan) (PAction 0)))"

definition execution_status_at :: "db \<Rightarrow> string \<Rightarrow> execution_status option" where
  "execution_status_at d key = map_option x_status (find (\<lambda>x. x_key x = key) (executions d))"

text \<open>\<open>_record\<close>: the INSERT, under the unique key; \<open>_finish\<close>: the UPDATE.\<close>

definition record_execution ::
    "job \<Rightarrow> string \<Rightarrow> incident_row \<Rightarrow> plan_row \<Rightarrow> nat \<Rightarrow> action \<Rightarrow> execution_status \<Rightarrow> json \<Rightarrow> json \<Rightarrow> string option \<Rightarrow> unit tx" where
  "record_execution job me incident plan i action status dry before error =
     job_transaction job (\<lambda>d.
       if execution_key (p_id plan) i \<in> set (map x_key (executions d)) then Inl IntegrityError
       else Inr ((), d\<lparr>executions := executions d @
         [\<lparr>x_id = next_id (map x_id (executions d)), x_tenant = i_tenant incident, x_incident = i_id incident,
           x_plan = p_id plan, x_action_index = i, x_action = action, x_key = execution_key (p_id plan) i,
           x_status = status, x_executor = me, x_dry_run = dry, x_before = before, x_after = JNull, x_error = error\<rparr>]\<rparr>))"

definition finish_execution :: "job \<Rightarrow> string \<Rightarrow> execution_status \<Rightarrow> json \<Rightarrow> string option \<Rightarrow> unit tx" where
  "finish_execution job key status after error =
     job_transaction job (\<lambda>d. Inr ((), d\<lparr>executions :=
       sql_update (\<lambda>x. x_key x = key) (\<lambda>x. x\<lparr>x_status := status, x_after := after, x_error := error\<rparr>) (executions d)\<rparr>))"

definition mark_unknown :: "job \<Rightarrow> string \<Rightarrow> unit tx" where
  "mark_unknown job key =
     job_transaction job (\<lambda>d. Inr ((), d\<lparr>executions :=
       sql_update (\<lambda>x. x_key x = key)
         (\<lambda>x. x\<lparr>x_status := Unknown, x_error := Some ''the executor stopped while the change was being sent''\<rparr>)
         (executions d)\<rparr>))"

definition undo_text :: "plan_row \<Rightarrow> string" where
  "undo_text plan =
     join ''; '' (map (\<lambda>a. ''to undo '' @ action_kind a @ '': '' @
       (case catalogue (action_kind a) of Some info \<Rightarrow> ai_inverse info | None \<Rightarrow> '''')) (rp_actions (p_plan plan)))"

text \<open>\<open>_escalate\<close>; \<open>with_undo\<close> is \<open>plan_id is not None\<close>.\<close>

definition escalate :: "world \<Rightarrow> job \<Rightarrow> string \<Rightarrow> string \<Rightarrow> string \<Rightarrow> bool \<Rightarrow> unit tx" where
  "escalate w job incident_id actor why with_undo =
     job_transaction job (\<lambda>d.
       case incidents_get d incident_id None of
         None \<Rightarrow> Inr ((), d)
       | Some current \<Rightarrow>
           if i_state current \<in> set TERMINAL then Inr ((), d)
           else
             let undo = (if with_undo then (case current_plan d incident_id of None \<Rightarrow> '''' | Some p \<Rightarrow> undo_text p) else '''');
                 full = (if undo = [] then why else why @ ''. '' @ undo)
             in bindS (transition w incident_id (i_state current) ESCALATED (i_version current) actor (take 500 full) d)
                  (\<lambda>(_, d'). Inr ((), d')))"

definition execution_audit :: "world \<Rightarrow> job \<Rightarrow> string \<Rightarrow> incident_row \<Rightarrow> string \<Rightarrow> (string \<times> json) list \<Rightarrow> unit tx" where
  "execution_audit w job me incident event payload =
     job_transaction job (\<lambda>d.
       bindS (audit_append w me event (i_id incident) (Some (i_tenant incident)) (JObj payload) d)
         (\<lambda>(_, d'). Inr ((), d')))"

definition dry_summary :: "json \<Rightarrow> kexn + json" where
  "dry_summary dry =
     bindS (jget_or dry ''metadata'' (JObj [])) (\<lambda>meta. bindS (jget_or meta ''generation'' JNull) (\<lambda>g.
       Inr (JObj [(''accepted'', JBool True), (''generation'', g)])))"

text \<open>The last transaction: EXECUTING to VERIFYING and the verify job.\<close>

definition to_verifying :: "world \<Rightarrow> settings \<Rightarrow> job \<Rightarrow> string \<Rightarrow> string \<Rightarrow> plan_row \<Rightarrow> unit tx" where
  "to_verifying w st job me incident_id plan =
     job_transaction job (\<lambda>d.
       case incidents_get d incident_id None of
         None \<Rightarrow> Inr ((), d)
       | Some current \<Rightarrow>
           if i_state current \<noteq> EXECUTING then Inr ((), d)
           else bindS (transition w incident_id EXECUTING VERIFYING (i_version current) me
                         (''plan '' @ take 12 (p_hash plan) @ '' executed; checking the SLO'') d)
             (\<lambda>(_, d1). bindS (flow_enqueue w st current ''verify'' (p_id plan) (verify_settle_s st) d1)
                (\<lambda>(_, d2). Inr ((), d2))))"

section \<open>Steps\<close>

text \<open>What a step reads besides the database: the writer, and the clocks of the rollout wait.\<close>

record exec_env =
  ee_writer :: writer
  ee_now :: string
  ee_start :: rat
  ee_tick :: "nat \<Rightarrow> rat"

text \<open>A transaction and what follows it; an error ends the handler with it.\<close>

definition after_tx :: "unit tx \<Rightarrow> pc \<Rightarrow> db \<Rightarrow> pc \<times> db" where
  "after_tx m next d = (case m d of Inr (_, d') \<Rightarrow> (next, d') | Inl e \<Rightarrow> (PEnd (Raised e ''''), d))"

definition action_text :: "action \<Rightarrow> string" where
  "action_text a = action_kind a @ '' '' @ a_deployment a"

definition plan_note :: "plan_row \<Rightarrow> string \<Rightarrow> string" where
  "plan_note plan incident_id = ''sre-blackboard: plan '' @ take 12 (p_hash plan) @ '' for incident '' @ incident_id"

text \<open>\<open>status = "unknown" if e.applied is None else "failed"\<close>\<close>

definition failure_status :: "bool option \<Rightarrow> execution_status" where
  "failure_status applied = (case applied of None \<Rightarrow> Unknown | Some b \<Rightarrow> Failed)"

fun status_text :: "execution_status \<Rightarrow> string" where
  "status_text Started = ''started''"
| "status_text Succeeded = ''succeeded''"
| "status_text Failed = ''failed''"
| "status_text Unknown = ''unknown''"

definition rollout_json :: "json \<Rightarrow> rollout_state \<Rightarrow> json" where
  "rollout_json generation s =
     JObj [(''generation'', generation), (''rolled_out'', JBool (ro_done s)), (''revision'', JInt (ro_revision s)),
           (''replicas'', ro_replicas s), (''available'', ro_available s), (''resourceVersion'', ro_version s)]"

fun kexn_name :: "kexn \<Rightarrow> string" where
  "kexn_name (ExecError msg ap) = ''ExecError''"
| "kexn_name (OtherError n) = n"

definition action_at :: "plan_row \<Rightarrow> nat \<Rightarrow> action" where
  "action_at plan i = rp_actions (p_plan plan) ! i"

text \<open>One step of an attempt that runs \<open>plan\<close>.\<close>

fun plan_step ::
    "world \<Rightarrow> settings \<Rightarrow> exec_env \<Rightarrow> job \<Rightarrow> string \<Rightarrow> incident_row \<Rightarrow> plan_row \<Rightarrow> pc \<Rightarrow> db \<Rightarrow> request list \<Rightarrow>
       pc \<times> db \<times> request list" where
  "plan_step w st ev job wid inc plan (PAction i) d h =
     (if length (rp_actions (p_plan plan)) \<le> i then (PVerify, d, h)
      else case execution_status_at d (execution_key (p_id plan) i) of
        None \<Rightarrow> (PPrepare i, d, h)
      | Some Succeeded \<Rightarrow> (PAction (i + 1), d, h)
      | Some Started \<Rightarrow> (PMarkUnknown i, d, h)
      | Some _ \<Rightarrow> (PEscalate (action_text (action_at plan i) @
           '': outcome unknown after an interrupted attempt; check the cluster'') True, d, h))"
| "plan_step w st ev job wid inc plan (PMarkUnknown i) d h =
     (case after_tx (mark_unknown job (execution_key (p_id plan) i))
        (PEscalate (action_text (action_at plan i) @ '': outcome unknown after an interrupted attempt; check the cluster'') True) d
      of (c, d') \<Rightarrow> (c, d', h))"
| "plan_step w st ev job wid inc plan (PPrepare i) d h =
     (case prepare (ee_writer ev) (ee_now ev) (plan_note plan (i_id inc)) (action_at plan i) h of
        (Inr p, h') \<Rightarrow> (if pr_ops p = [] then PRecordStarted i p JNull else PDryRun i p, d, h')
      | (Inl (ExecError msg ap), h') \<Rightarrow> (PRecordFailed i msg, d, h')
      | (Inl (OtherError n), h') \<Rightarrow> (PEnd (RaisedOther n ''''), d, h'))"
| "plan_step w st ev job wid inc plan (PDryRun i p) d h =
     (case patch (ee_writer ev) (pr_deployment p) (pr_ops p) True h of
        (Inr dry, h') \<Rightarrow>
          (case dry_summary dry of
             Inr s \<Rightarrow> (PRecordStarted i p s, d, h')
           | Inl e \<Rightarrow> (PEnd (RaisedOther ''AttributeError'' ''''), d, h'))
      | (Inl (ExecError msg ap), h') \<Rightarrow> (PRecordFailed i msg, d, h')
      | (Inl (OtherError n), h') \<Rightarrow> (PEnd (RaisedOther n ''''), d, h'))"
| "plan_step w st ev job wid inc plan (PRecordFailed i msg) d h =
     (case after_tx (record_execution job (executor_actor wid) inc plan i (action_at plan i) Failed JNull JNull (Some msg))
        (PEscalate (action_text (action_at plan i) @ '' failed before any change: '' @ msg) True) d
      of (c, d') \<Rightarrow> (c, d', h))"
| "plan_step w st ev job wid inc plan (PRecordStarted i p dry) d h =
     (case after_tx (record_execution job (executor_actor wid) inc plan i (action_at plan i) Started dry (pr_before p) None)
        (PAuditStarted i p dry) d
      of (c, d') \<Rightarrow> (c, d', h))"
| "plan_step w st ev job wid inc plan (PAuditStarted i p dry) d h =
     (case after_tx (execution_audit w job (executor_actor wid) inc ''execution.started''
          [(''plan_id'', JInt (int (p_id plan))), (''action'', JInt (int i)), (''summary'', JStr (pr_summary p)),
           (''dry_run'', dry), (''before'', pr_before p)]) (PSend i p) d
      of (c, d') \<Rightarrow> (c, d', h))"
| "plan_step w st ev job wid inc plan (PSend i p) d h =
     (if pr_noop p then
        (PFinishOk i p (JObj [(''noop'', JBool True), (''summary'', JStr (pr_summary p))]), d, h)
      else case patch (ee_writer ev) (pr_deployment p) (pr_ops p) False h of
        (Inr result, h') \<Rightarrow> (PWait i p result, d, h')
      | (Inl (ExecError msg ap), h') \<Rightarrow> (PFinishFailed i p (failure_status ap) msg, d, h')
      | (Inl (OtherError n), h') \<Rightarrow> (PEnd (RaisedOther n ''''), d, h'))"
| "plan_step w st ev job wid inc plan (PWait i p result) d h =
     (case bindS (jidx result ''metadata'') (\<lambda>meta. bindS (jidx meta ''generation'') (\<lambda>g. bindS (jint g) (\<lambda>n. Inr (g, n)))) of
        Inl e \<Rightarrow> (PEnd (RaisedOther (kexn_name e) ''''), d, h)
      | Inr (g, n) \<Rightarrow>
          (case wait_rolled_out (ee_writer ev) (pr_deployment p) n (ee_tick ev) (ee_start ev) (executor_rollout_timeout_s st) h of
             (Inr (Some s), h') \<Rightarrow> (PFinishOk i p (rollout_json g s), d, h')
           | (Inr None, h') \<Rightarrow> (PWait i p result, d, h')
           | (Inl (ExecError msg ap), h') \<Rightarrow>
               (PFinishOk i p (JObj [(''generation'', g), (''rolled_out'', JNull), (''error'', JStr msg)]), d, h')
           | (Inl (OtherError e), h') \<Rightarrow> (PEnd (RaisedOther e ''''), d, h')))"
| "plan_step w st ev job wid inc plan (PFinishFailed i p status msg) d h =
     (case after_tx (finish_execution job (execution_key (p_id plan) i) status JNull (Some msg))
        (PEscalate (pr_summary p @ '': '' @ status_text status @ '': '' @ msg) True) d
      of (c, d') \<Rightarrow> (c, d', h))"
| "plan_step w st ev job wid inc plan (PFinishOk i p after) d h =
     (case after_tx (finish_execution job (execution_key (p_id plan) i) Succeeded after None) (PAuditOk i p after) d
      of (c, d') \<Rightarrow> (c, d', h))"
| "plan_step w st ev job wid inc plan (PAuditOk i p after) d h =
     (case after_tx (execution_audit w job (executor_actor wid) inc ''execution.succeeded''
          [(''plan_id'', JInt (int (p_id plan))), (''action'', JInt (int i)), (''summary'', JStr (pr_summary p)), (''after'', after)])
        (PAction (i + 1)) d
      of (c, d') \<Rightarrow> (c, d', h))"
| "plan_step w st ev job wid inc plan (PEscalate why with_undo) d h =
     (case after_tx (escalate w job (i_id inc) (executor_actor wid) why with_undo) (PEnd Returned) d of (c, d') \<Rightarrow> (c, d', h))"
| "plan_step w st ev job wid inc plan PVerify d h =
     (case after_tx (to_verifying w st job (executor_actor wid) (i_id inc) plan) (PEnd Returned) d of (c, d') \<Rightarrow> (c, d', h))"
| "plan_step w st ev job wid inc plan (PEnd r) d h = (PEnd r, d, h)"

text \<open>Without a plan there is only the escalation.\<close>

definition attempt_step ::
    "world \<Rightarrow> settings \<Rightarrow> exec_env \<Rightarrow> attempt \<Rightarrow> db \<Rightarrow> request list \<Rightarrow> attempt \<times> db \<times> request list" where
  "attempt_step w st ev a d h =
     (case ex_plan a of
        Some plan \<Rightarrow>
          (case plan_step w st ev (ex_job a) (ex_worker a) (ex_incident a) plan (ex_pc a) d h of
             (c, d', h') \<Rightarrow> (a\<lparr>ex_pc := c\<rparr>, d', h'))
      | None \<Rightarrow>
          (case ex_pc a of
             PEscalate why u \<Rightarrow>
               (case after_tx (escalate w (ex_job a) (i_id (ex_incident a)) (executor_actor (ex_worker a)) why u) (PEnd Returned) d
                of (c, d') \<Rightarrow> (a\<lparr>ex_pc := c\<rparr>, d', h))
           | _ \<Rightarrow> (a\<lparr>ex_pc := PEnd Returned\<rparr>, d, h)))"

text \<open>An attempt on its own, up to \<open>n\<close> steps.\<close>

fun attempt_run ::
    "world \<Rightarrow> settings \<Rightarrow> exec_env \<Rightarrow> nat \<Rightarrow> attempt \<Rightarrow> db \<Rightarrow> request list \<Rightarrow> attempt \<times> db \<times> request list" where
  "attempt_run w st ev 0 a d h = (a, d, h)"
| "attempt_run w st ev (Suc n) a d h =
     (case attempt_step w st ev a d h of (a', d', h') \<Rightarrow> attempt_run w st ev n a' d' h')"

section \<open>What an attempt has checked\<close>

text \<open>The rerun of the policy, the approval for this very hash, from someone else.\<close>

lemma refusal_empty:
  assumes "refusal w st job d inc plan = []"
  shows "jget (jb_payload job) ''plan_id'' = Some (JInt (int (p_id plan))) \<and> p_verdict plan \<noteq> Deny \<and>
    dn_verdict (review w st d inc (p_plan plan)) \<noteq> Deny \<and>
    (p_verdict plan = RequireApproval \<or> dn_verdict (review w st d inc (p_plan plan)) = RequireApproval \<longrightarrow>
       (\<exists>a. approval d (p_id plan) = Some a \<and> ap_decision a = Approve \<and> ap_plan_hash a = p_hash plan \<and>
          ap_approver a \<noteq> p_proposed_by plan))"
  using assms by (auto simp: refusal_def Let_def split: if_splits option.splits)

lemma execute_start_Inr:
  assumes "execute_start w st wid job d = Inr a"
  shows "\<exists>iid. jb_incident job = Some iid \<and> incidents_get d iid None = Some (ex_incident a) \<and>
    i_state (ex_incident a) = EXECUTING \<and> ex_job a = job \<and> ex_plan a = current_plan d iid \<and>
    ((\<exists>why. ex_pc a = PEscalate why False) \<or>
     (\<exists>plan. ex_plan a = Some plan \<and> ex_pc a = PAction 0 \<and> refusal w st job d (ex_incident a) plan = []))"
  using assms by (auto simp: execute_start_def Let_def split: option.splits if_splits)

section \<open>At most once\<close>

definition changes :: "request list \<Rightarrow> request list" where
  "changes h = filter is_change h"

definition execution_keys :: "db \<Rightarrow> string list" where
  "execution_keys d = map x_key (executions d)"

text \<open>The intent is committed and the patch may still be sent.\<close>

fun armed :: "pc \<Rightarrow> nat option" where
  "armed (PAuditStarted i p dry) = Some i"
| "armed (PSend i p) = Some i"
| "armed _ = None"

lemma changes_reads: "reads_only m \<Longrightarrow> m h = (r, h') \<Longrightarrow> changes h' = changes h"
proof -
  assume m: "reads_only m" "m h = (r, h')"
  then obtain rs where "h' = h @ rs" "list_all (\<lambda>r. \<not> is_patch r) rs"
    unfolding reads_only_def by (metis snd_conv)
  then show ?thesis by (auto simp: changes_def is_change_def list_all_iff filter_empty_conv)
qed

lemma patch_changes:
  assumes "patch wr name ops dry h = (r, h')"
  shows "changes h' = changes h @ (if dry then [] else [last h'])"
  using assms by (auto simp: patch_def ksend_def changes_def is_change_def is_patch_def)

lemma after_tx_cases:
  assumes "after_tx m next d = (c, d')"
  shows "(c = next \<and> m d = Inr ((), d')) \<or> (\<exists>e. c = PEnd (Raised e '''') \<and> d' = d)"
  using assms by (auto simp: after_tx_def split: sum.splits)

lemma record_execution_keys:
  assumes "record_execution job me inc plan i a s dry b e d = Inr (u, d')"
  shows "execution_keys d' = execution_keys d @ [execution_key (p_id plan) i] \<and>
    execution_key (p_id plan) i \<notin> set (execution_keys d)"
  using assms by (auto simp: record_execution_def tx_simps execution_keys_def split: if_splits)

lemma finish_execution_keys: "finish_execution job k s a e d = Inr (u, d') \<Longrightarrow> execution_keys d' = execution_keys d"
  by (auto simp: finish_execution_def tx_simps execution_keys_def map_sql_update)

lemma mark_unknown_keys: "mark_unknown job k d = Inr (u, d') \<Longrightarrow> execution_keys d' = execution_keys d"
  by (auto simp: mark_unknown_def tx_simps execution_keys_def map_sql_update)

lemma escalate_executions: "escalate w job iid me why u d = Inr (r, d') \<Longrightarrow> executions d' = executions d"
  by (auto simp: escalate_def tx_simps Let_def transition_frame split: option.splits if_splits)

lemma execution_audit_executions: "execution_audit w job me inc ev pl d = Inr (r, d') \<Longrightarrow> executions d' = executions d"
  by (auto simp: execution_audit_def tx_simps dest!: audit_append_frame)

lemma to_verifying_executions:
  assumes "to_verifying w st job me iid plan d = Inr (r, d')"
  shows "executions d' = executions d"
proof -
  from assms consider "d' = d" | cur v d1 u where
    "transition w iid EXECUTING VERIFYING (i_version cur) me (''plan '' @ take 12 (p_hash plan) @ '' executed; checking the SLO'') d = Inr (v, d1)"
    "flow_enqueue w st cur ''verify'' (p_id plan) (verify_settle_s st) d1 = Inr (u, d')"
    by (auto simp: to_verifying_def tx_simps split: option.splits if_splits)
  then show ?thesis
  proof cases
    case 2
    have "d' = d1\<lparr>jobs := jobs d'\<rparr>" using flow_enqueue_frame [OF 2(2)] by blast
    then have "executions d' = executions d1" by (metis db.ext_inject db.surjective db.update_convs(3))
    with transition_frame [OF 2(1)] show ?thesis by simp
  qed simp
qed

text \<open>
  What one step can do: it keeps the rows' keys, or adds the key of an action no row had; it
  sends no change, or the one change it was armed for.
\<close>

definition step_effect :: "nat \<Rightarrow> pc \<Rightarrow> db \<Rightarrow> request list \<Rightarrow> pc \<Rightarrow> db \<Rightarrow> request list \<Rightarrow> bool" where
  "step_effect pid c d h c' d' h' \<longleftrightarrow>
     (execution_keys d' = execution_keys d \<and> changes h' = changes h \<and> (armed c' = None \<or> armed c' = armed c)) \<or>
     (\<exists>i. execution_keys d' = execution_keys d @ [execution_key pid i] \<and> execution_key pid i \<notin> set (execution_keys d) \<and>
        changes h' = changes h \<and> armed c = None \<and> (armed c' = None \<or> armed c' = Some i)) \<or>
     (execution_keys d' = execution_keys d \<and> armed c \<noteq> None \<and> armed c' = None \<and> (\<exists>r. changes h' = changes h @ [r]))"

lemma step_effect_tx:
  assumes "(case after_tx m next d of (c, d') \<Rightarrow> (c, d', h)) = (c', d', h')"
    and "\<And>x. m d = Inr ((), x) \<Longrightarrow> step_effect pid c d h next x h"
  shows "step_effect pid c d h c' d' h'"
  using assms after_tx_cases [of m "next" d] by (cases "after_tx m next d") (auto simp: step_effect_def)

lemma plan_step_effect:
  assumes "plan_step w st ev job wid inc plan c d h = (c', d', h')"
  shows "step_effect (p_id plan) c d h c' d' h'"
proof (cases c)
  case (PAction i)
  with assms show ?thesis
    by (auto simp: step_effect_def split: if_splits option.splits execution_status.splits)
next
  case (PMarkUnknown i)
  show ?thesis using assms unfolding PMarkUnknown plan_step.simps
    by (rule step_effect_tx) (auto simp: step_effect_def dest: mark_unknown_keys)
next
  case (PPrepare i)
  obtain r h1 where p: "prepare (ee_writer ev) (ee_now ev) (plan_note plan (i_id inc)) (action_at plan i) h = (r, h1)" by force
  from changes_reads [OF prepare_reads p] p assms show ?thesis
    by (auto simp: PPrepare step_effect_def split: sum.splits kexn.splits if_splits)
next
  case (PDryRun i p)
  obtain r h1 where q: "patch (ee_writer ev) (pr_deployment p) (pr_ops p) True h = (r, h1)" by force
  from patch_changes [OF q] q assms show ?thesis
    by (auto simp: PDryRun step_effect_def split: sum.splits kexn.splits)
next
  case (PRecordFailed i msg)
  show ?thesis using assms unfolding PRecordFailed plan_step.simps
    by (rule step_effect_tx) (auto simp: step_effect_def dest: record_execution_keys)
next
  case (PRecordStarted i p dry)
  show ?thesis using assms unfolding PRecordStarted plan_step.simps
    by (rule step_effect_tx) (auto simp: step_effect_def dest: record_execution_keys)
next
  case (PAuditStarted i p dry)
  show ?thesis using assms unfolding PAuditStarted plan_step.simps
    by (rule step_effect_tx) (auto simp: step_effect_def execution_keys_def dest: execution_audit_executions)
next
  case (PSend i p)
  obtain r h1 where q: "patch (ee_writer ev) (pr_deployment p) (pr_ops p) False h = (r, h1)" by force
  from patch_changes [OF q] q assms show ?thesis
    by (auto simp: PSend step_effect_def split: sum.splits kexn.splits if_splits)
next
  case (PWait i p result)
  have r: "reads_only (wait_rolled_out (ee_writer ev) (pr_deployment p) n (ee_tick ev) (ee_start ev) (executor_rollout_timeout_s st))" for n
    unfolding wait_rolled_out_def by (rule wait_loop_reads)
  from assms show ?thesis
    by (auto simp: PWait step_effect_def split: sum.splits kexn.splits option.splits prod.splits dest: changes_reads [OF r])
next
  case (PFinishFailed i p s msg)
  show ?thesis using assms unfolding PFinishFailed plan_step.simps
    by (rule step_effect_tx) (auto simp: step_effect_def dest: finish_execution_keys)
next
  case (PFinishOk i p a)
  show ?thesis using assms unfolding PFinishOk plan_step.simps
    by (rule step_effect_tx) (auto simp: step_effect_def dest: finish_execution_keys)
next
  case (PAuditOk i p a)
  show ?thesis using assms unfolding PAuditOk plan_step.simps
    by (rule step_effect_tx) (auto simp: step_effect_def execution_keys_def dest: execution_audit_executions)
next
  case (PEscalate why u)
  show ?thesis using assms unfolding PEscalate plan_step.simps
    by (rule step_effect_tx) (auto simp: step_effect_def execution_keys_def dest: escalate_executions)
next
  case PVerify
  show ?thesis using assms unfolding PVerify plan_step.simps
    by (rule step_effect_tx) (auto simp: step_effect_def execution_keys_def dest: to_verifying_executions)
next
  case (PEnd r)
  with assms show ?thesis by (simp add: step_effect_def)
qed

section \<open>Many attempts\<close>

text \<open>
  Every attempt there has been, the database, the requests sent, and the key of every change
  that was sent. Attempts start at any time, step in any order, stop anywhere; other
  transactions may do anything except write the table \<open>executions\<close>, which only this job does.
\<close>

record exec_system =
  xs_db :: db
  xs_requests :: "request list"
  xs_attempts :: "attempt list"
  xs_sent :: "string list"

definition armed_key :: "attempt \<Rightarrow> string option" where
  "armed_key a =
     (case ex_plan a of None \<Rightarrow> None | Some plan \<Rightarrow> map_option (execution_key (p_id plan)) (armed (ex_pc a)))"

definition sent_by :: "attempt \<Rightarrow> request list \<Rightarrow> request list \<Rightarrow> string list" where
  "sent_by a h h' =
     (if length (changes h') = length (changes h) then [] else (case armed_key a of Some k \<Rightarrow> [k] | None \<Rightarrow> ['''']))"

inductive exec_sys_step :: "exec_system \<Rightarrow> exec_system \<Rightarrow> bool" where
  es_start: "execute_start w st wid job (xs_db s) = Inr a \<Longrightarrow>
     exec_sys_step s (s\<lparr>xs_attempts := xs_attempts s @ [a]\<rparr>)"
| es_step: "i < length (xs_attempts s) \<Longrightarrow>
     attempt_step w st ev (xs_attempts s ! i) (xs_db s) (xs_requests s) = (a', d', h') \<Longrightarrow>
     exec_sys_step s (s\<lparr>xs_db := d', xs_requests := h', xs_attempts := (xs_attempts s)[i := a'],
       xs_sent := xs_sent s @ sent_by (xs_attempts s ! i) (xs_requests s) h'\<rparr>)"
| es_crash: "i < length (xs_attempts s) \<Longrightarrow>
     exec_sys_step s (s\<lparr>xs_attempts := (xs_attempts s)[i := (xs_attempts s ! i)\<lparr>ex_pc := PEnd Cancelled\<rparr>]\<rparr>)"
| es_other: "executions d' = executions (xs_db s) \<Longrightarrow> exec_sys_step s (s\<lparr>xs_db := d'\<rparr>)"

text \<open>
  Over the armed keys of the attempts, the keys sent and the keys of the rows: nobody is armed
  for a key twice or for one that was sent, and all of them are rows.
\<close>

definition once_each :: "string option list \<Rightarrow> string list \<Rightarrow> string list \<Rightarrow> bool" where
  "once_each ks sent used \<longleftrightarrow>
     (\<forall>i j k. i < length ks \<longrightarrow> j < length ks \<longrightarrow> ks ! i = Some k \<longrightarrow> ks ! j = Some k \<longrightarrow> i = j) \<and>
     (\<forall>i k. i < length ks \<longrightarrow> ks ! i = Some k \<longrightarrow> k \<notin> set sent \<and> k \<in> set used) \<and>
     distinct sent \<and> set sent \<subseteq> set used"

lemma once_each_new: "once_each ks sent used \<Longrightarrow> once_each (ks @ [None]) sent used"
  by (auto simp: once_each_def nth_append)

lemma once_each_disarm: "once_each ks sent used \<Longrightarrow> i < length ks \<Longrightarrow> once_each (ks[i := None]) sent used"
  by (simp add: once_each_def nth_list_update)

lemma once_each_arm:
  assumes "once_each ks sent used" "k \<notin> set used" "i < length ks"
  shows "once_each (ks[i := Some k]) sent (used @ [k])"
proof -
  have "ks ! j \<noteq> Some k" if "j < length ks" for j using assms that by (auto simp: once_each_def)
  then have new: "(ks[i := Some k]) ! j = Some k' \<Longrightarrow> j < length ks \<Longrightarrow> (k' = k \<and> j = i) \<or> (k' \<noteq> k \<and> ks ! j = Some k')" for j k'
    using assms(3) by (auto simp: nth_list_update split: if_splits)
  have "i1 = j1" if "i1 < length ks" "j1 < length ks" "(ks[i := Some k]) ! i1 = Some k'" "(ks[i := Some k]) ! j1 = Some k'"
    for i1 j1 k'
    using new [OF that(3,1)] new [OF that(4,2)] assms(1) that(1,2) unfolding once_each_def by blast
  moreover have "k' \<notin> set sent \<and> k' \<in> set (used @ [k])" if "j < length ks" "(ks[i := Some k]) ! j = Some k'" for j k'
    using new [OF that(2,1)] assms(1,2) that(1) unfolding once_each_def by auto
  moreover have "distinct sent" "set sent \<subseteq> set (used @ [k])" using assms(1) unfolding once_each_def by auto
  ultimately show ?thesis unfolding once_each_def by simp
qed

lemma once_each_row: "once_each ks sent used \<Longrightarrow> once_each ks sent (used @ [k])"
  by (auto simp: once_each_def)

lemma once_each_fire:
  assumes "once_each ks sent used" "i < length ks" "ks ! i = Some k"
  shows "once_each (ks[i := None]) (sent @ [k]) used"
  using assms unfolding once_each_def by (simp add: nth_list_update) metis

definition exec_sys_inv :: "exec_system \<Rightarrow> bool" where
  "exec_sys_inv s \<longleftrightarrow> once_each (map armed_key (xs_attempts s)) (xs_sent s) (execution_keys (xs_db s))"

lemma attempt_step_effect:
  assumes "attempt_step w st ev a d h = (a', d', h')"
  shows "ex_plan a' = ex_plan a \<and>
    ((execution_keys d' = execution_keys d \<and> changes h' = changes h \<and> (armed_key a' = None \<or> armed_key a' = armed_key a)) \<or>
     (\<exists>k. execution_keys d' = execution_keys d @ [k] \<and> k \<notin> set (execution_keys d) \<and> changes h' = changes h \<and>
        armed_key a = None \<and> (armed_key a' = None \<or> armed_key a' = Some k)) \<or>
     (execution_keys d' = execution_keys d \<and> armed_key a \<noteq> None \<and> armed_key a' = None \<and> (\<exists>r. changes h' = changes h @ [r])))"
proof (cases "ex_plan a")
  case None
  have "execution_keys x = execution_keys d" if "escalate w (ex_job a) iid me why u d = Inr (r, x)" for iid me why u r x
    using escalate_executions [OF that] by (simp add: execution_keys_def)
  with None assms show ?thesis
    by (auto simp: attempt_step_def armed_key_def after_tx_def split: pc.splits sum.splits prod.splits)
next
  case (Some plan)
  obtain c where c: "plan_step w st ev (ex_job a) (ex_worker a) (ex_incident a) plan (ex_pc a) d h = (c, d', h')"
    and a': "a' = a\<lparr>ex_pc := c\<rparr>"
    using assms Some by (auto simp: attempt_step_def split: prod.splits)
  from plan_step_effect [OF c] show ?thesis
    by (auto simp: step_effect_def armed_key_def Some a')
qed

lemma exec_sys_step_inv:
  assumes "exec_sys_step s s'" "exec_sys_inv s"
  shows "exec_sys_inv s'"
  using assms(1)
proof cases
  case (es_start w st wid job a)
  have "armed_key a = None"
    using execute_start_Inr [OF es_start(2)] by (auto simp: armed_key_def split: option.splits)
  with assms(2) show ?thesis by (simp add: es_start(1) exec_sys_inv_def once_each_new)
next
  case (es_step i w st ev a' d' h')
  let ?a = "xs_attempts s ! i" and ?ks = "map armed_key (xs_attempts s)"
  have inv: "once_each ?ks (xs_sent s) (execution_keys (xs_db s))" using assms(2) by (simp add: exec_sys_inv_def)
  have s': "exec_sys_inv s' \<longleftrightarrow> once_each (?ks[i := armed_key a'])
      (xs_sent s @ sent_by ?a (xs_requests s) h') (execution_keys d')"
    by (simp add: es_step(1) exec_sys_inv_def map_update)
  have same: "?ks[i := armed_key ?a] = ?ks" using es_step(2) by (metis length_map list_update_id nth_map)
  from attempt_step_effect [OF es_step(3)] consider
      "execution_keys d' = execution_keys (xs_db s)" "changes h' = changes (xs_requests s)" "armed_key a' = None \<or> armed_key a' = armed_key ?a"
    | k where "execution_keys d' = execution_keys (xs_db s) @ [k]" "k \<notin> set (execution_keys (xs_db s))"
        "changes h' = changes (xs_requests s)" "armed_key a' = None \<or> armed_key a' = Some k"
    | r where "execution_keys d' = execution_keys (xs_db s)" "armed_key ?a \<noteq> None" "armed_key a' = None"
        "changes h' = changes (xs_requests s) @ [r]"
    by blast
  then show ?thesis
  proof cases
    case 1
    with inv same es_step(2) show ?thesis unfolding s' by (auto simp: sent_by_def once_each_disarm)
  next
    case 2
    with inv es_step(2) show ?thesis unfolding s' by (auto simp: sent_by_def once_each_arm once_each_row once_each_disarm)
  next
    case 3
    then obtain k where "armed_key ?a = Some k" by auto
    with 3 inv es_step(2) show ?thesis unfolding s' by (simp add: sent_by_def once_each_fire)
  qed
next
  case (es_crash i)
  have "armed_key ((xs_attempts s ! i)\<lparr>ex_pc := PEnd Cancelled\<rparr>) = None"
    by (auto simp: armed_key_def split: option.splits)
  with assms(2) es_crash(2) show ?thesis
    by (simp add: es_crash(1) exec_sys_inv_def map_update once_each_disarm)
next
  case (es_other d')
  with assms(2) show ?thesis by (simp add: exec_sys_inv_def execution_keys_def)
qed

definition exec_sys_init :: "db \<Rightarrow> exec_system" where
  "exec_sys_init d = \<lparr>xs_db = d, xs_requests = [], xs_attempts = [], xs_sent = []\<rparr>"

lemma exec_sys_reach_inv: "exec_sys_step\<^sup>*\<^sup>* (exec_sys_init d) s \<Longrightarrow> exec_sys_inv s"
proof (induction rule: rtranclp_induct)
  case base
  show ?case by (simp add: exec_sys_init_def exec_sys_inv_def once_each_def)
qed (rule exec_sys_step_inv)

text \<open>The changes the API server was sent are as many as the keys.\<close>

lemma exec_sys_sent_length:
  assumes "exec_sys_step\<^sup>*\<^sup>* (exec_sys_init d) s"
  shows "length (changes (xs_requests s)) = length (xs_sent s)"
  using assms
proof (induction rule: rtranclp_induct)
  case base
  then show ?case by (simp add: exec_sys_init_def changes_def)
next
  case (step s t)
  from step.hyps(2) step.IH show ?case
  proof cases
    case (es_step i w st ev a' d' h')
    from attempt_step_effect [OF es_step(3)] step.IH show ?thesis
      by (auto simp: es_step(1) sent_by_def)
  qed auto
qed

lemma execution_key_inject: "execution_key p i = execution_key q j \<longleftrightarrow> p = q \<and> i = j"
proof
  assume "execution_key p i = execution_key q j"
  then have "dec p @ CHR '':'' # (''action:'' @ dec i) = dec q @ CHR '':'' # (''action:'' @ dec j)"
    by (simp add: execution_key_def)
  from dec_prefix_unique [OF this] show "p = q \<and> i = j" by (simp add: is_digit_def)
qed simp

section \<open>A rerun after a crash\<close>

text \<open>
  A row that is still \<open>started\<close>: the action is not sent, the row becomes \<open>unknown\<close>, and the
  attempt goes on to escalate.
\<close>

lemma rerun_started:
  assumes "i < length (rp_actions (p_plan plan))" "execution_status_at d (execution_key (p_id plan) i) = Some Started"
  shows "plan_step w st ev job wid inc plan (PAction i) d h = (PMarkUnknown i, d, h)"
  using assms by simp

lemma mark_unknown_status:
  assumes "mark_unknown job k d = Inr (u, d')" "execution_status_at d k = Some s"
  shows "execution_status_at d' k = Some Unknown"
proof -
  from assms(2) obtain x where x: "find (\<lambda>x. x_key x = k) (executions d) = Some x" by (auto simp: execution_status_at_def)
  let ?f = "\<lambda>x. x\<lparr>x_status := Unknown, x_error := Some ''the executor stopped while the change was being sent''\<rparr>"
  from assms(1) have "executions d' = sql_update (\<lambda>x. x_key x = k) ?f (executions d)"
    by (auto simp: mark_unknown_def tx_simps)
  then have "find (\<lambda>x. x_key x = k) (executions d') = Some (?f x)"
    using find_sql_update_hit [OF x, of ?f] by simp
  then show ?thesis by (simp add: execution_status_at_def)
qed

section \<open>Schedules\<close>

text \<open>The same runs as a function of a list of commands; a command that cannot run does nothing.\<close>

datatype exec_cmd =
    CStart world settings string job
  | CStep nat world settings exec_env
  | CCrash nat
  | COther "db \<Rightarrow> db"

fun exec_do :: "exec_cmd \<Rightarrow> exec_system \<Rightarrow> exec_system" where
  "exec_do (CStart w st wid job) s =
     (case execute_start w st wid job (xs_db s) of
        Inl r \<Rightarrow> s
      | Inr a \<Rightarrow> s\<lparr>xs_attempts := xs_attempts s @ [a]\<rparr>)"
| "exec_do (CStep i w st ev) s =
     (if length (xs_attempts s) \<le> i then s
      else case attempt_step w st ev (xs_attempts s ! i) (xs_db s) (xs_requests s) of
        (a', d', h') \<Rightarrow> s\<lparr>xs_db := d', xs_requests := h', xs_attempts := (xs_attempts s)[i := a'],
          xs_sent := xs_sent s @ sent_by (xs_attempts s ! i) (xs_requests s) h'\<rparr>)"
| "exec_do (CCrash i) s =
     (if length (xs_attempts s) \<le> i then s
      else s\<lparr>xs_attempts := (xs_attempts s)[i := (xs_attempts s ! i)\<lparr>ex_pc := PEnd Cancelled\<rparr>]\<rparr>)"
| "exec_do (COther f) s = s\<lparr>xs_db := (f (xs_db s))\<lparr>executions := executions (xs_db s)\<rparr>\<rparr>"

definition exec_schedule :: "exec_cmd list \<Rightarrow> db \<Rightarrow> exec_system" where
  "exec_schedule cs d = fold exec_do cs (exec_sys_init d)"

lemma exec_do_step: "exec_do c s = s \<or> exec_sys_step s (exec_do c s)"
proof (cases c)
  case (CStart w st wid job)
  then show ?thesis by (cases "execute_start w st wid job (xs_db s)") (auto intro: es_start)
next
  case (CStep i w st ev)
  obtain a' d' h' where at: "attempt_step w st ev (xs_attempts s ! i) (xs_db s) (xs_requests s) = (a', d', h')"
    by (cases "attempt_step w st ev (xs_attempts s ! i) (xs_db s) (xs_requests s)")
  from es_step [OF _ at] show ?thesis by (auto simp: CStep at)
next
  case (CCrash i)
  then show ?thesis using es_crash [of i s] by auto
next
  case (COther f)
  then show ?thesis using es_other [of "(f (xs_db s))\<lparr>executions := executions (xs_db s)\<rparr>" s] by simp
qed

lemma fold_exec_do_reach: "exec_sys_step\<^sup>*\<^sup>* s (fold exec_do cs s)"
proof (induction cs arbitrary: s)
  case (Cons c cs)
  have "exec_sys_step\<^sup>*\<^sup>* s (exec_do c s)" using exec_do_step [of c s] by auto
  with Cons [of "exec_do c s"] show ?case by simp
qed simp

lemma exec_schedule_reach: "exec_sys_step\<^sup>*\<^sup>* (exec_sys_init d) (exec_schedule cs d)"
  unfolding exec_schedule_def by (rule fold_exec_do_reach)

section \<open>Only cleared plans are sent\<close>

text \<open>What the attempt's own checks found, on the database they were run on.\<close>

definition attempt_cleared :: "attempt \<Rightarrow> bool" where
  "attempt_cleared a \<longleftrightarrow>
     (\<exists>w st d plan. ex_plan a = Some plan \<and> i_state (ex_incident a) = EXECUTING \<and>
        current_plan d (i_id (ex_incident a)) = Some plan \<and>
        jget (jb_payload (ex_job a)) ''plan_id'' = Some (JInt (int (p_id plan))) \<and> p_verdict plan \<noteq> Deny \<and>
        dn_verdict (review w st d (ex_incident a) (p_plan plan)) \<noteq> Deny \<and>
        (p_verdict plan = RequireApproval \<or> dn_verdict (review w st d (ex_incident a) (p_plan plan)) = RequireApproval \<longrightarrow>
           (\<exists>ap. approval d (p_id plan) = Some ap \<and> ap_decision ap = Approve \<and> ap_plan_hash ap = p_hash plan \<and>
              ap_approver ap \<noteq> p_proposed_by plan)))"

fun closing :: "pc \<Rightarrow> bool" where
  "closing (PEscalate why u) = True"
| "closing (PEnd r) = True"
| "closing _ = False"

lemma execute_start_cleared:
  assumes "execute_start w st wid job d = Inr a"
  shows "closing (ex_pc a) \<or> attempt_cleared a"
proof -
  from execute_start_Inr [OF assms] obtain iid where
    i: "incidents_get d iid None = Some (ex_incident a)" "i_state (ex_incident a) = EXECUTING" "ex_job a = job"
    "ex_plan a = current_plan d iid" and c: "(\<exists>why. ex_pc a = PEscalate why False) \<or>
     (\<exists>plan. ex_plan a = Some plan \<and> refusal w st job d (ex_incident a) plan = [])" by blast
  have id: "i_id (ex_incident a) = iid" using find_in_set [OF i(1) [unfolded incidents_get_def]] by simp
  from c show ?thesis
  proof (elim disjE exE conjE)
    fix plan assume "ex_plan a = Some plan" "refusal w st job d (ex_incident a) plan = []"
    with refusal_empty [OF this(2)] i id show ?thesis unfolding attempt_cleared_def by metis
  qed simp
qed

lemma plan_step_closing: "closing c \<Longrightarrow> plan_step w st ev job wid inc plan c d h = (c', d', h') \<Longrightarrow> closing c'"
  by (cases c) (auto simp: after_tx_def split: prod.splits sum.splits)

lemma attempt_step_cleared:
  assumes "attempt_step w st ev a d h = (a', d', h')" "closing (ex_pc a) \<or> attempt_cleared a"
  shows "closing (ex_pc a') \<or> attempt_cleared a'"
proof (cases "ex_plan a")
  case None
  with assms(1) have "closing (ex_pc a')"
    by (auto simp: attempt_step_def after_tx_def split: pc.splits prod.splits sum.splits)
  then show ?thesis by simp
next
  case (Some plan)
  obtain c where c: "plan_step w st ev (ex_job a) (ex_worker a) (ex_incident a) plan (ex_pc a) d h = (c, d', h')"
    and a': "a' = a\<lparr>ex_pc := c\<rparr>"
    using assms(1) Some by (auto simp: attempt_step_def split: prod.splits)
  show ?thesis
  proof (cases "closing (ex_pc a)")
    case True
    with plan_step_closing [OF _ c] show ?thesis by (simp add: a')
  next
    case False
    with assms(2) show ?thesis by (simp add: a' attempt_cleared_def)
  qed
qed

lemma exec_sys_cleared:
  assumes "exec_sys_step\<^sup>*\<^sup>* (exec_sys_init d) s"
  shows "list_all (\<lambda>a. closing (ex_pc a) \<or> attempt_cleared a) (xs_attempts s)"
  using assms
proof (induction rule: rtranclp_induct)
  case base
  show ?case by (simp add: exec_sys_init_def)
next
  case (step s t)
  from step.hyps(2) show ?case
  proof cases
    case (es_start w st wid job a)
    with execute_start_cleared [OF es_start(2)] step.IH show ?thesis by simp
  next
    case (es_step i w st ev a' d' h')
    have "closing (ex_pc (xs_attempts s ! i)) \<or> attempt_cleared (xs_attempts s ! i)"
      using step.IH es_step(2) by (simp add: list_all_length)
    from attempt_step_cleared [OF es_step(3) this] step.IH es_step(2) show ?thesis
      by (auto simp: es_step(1) list_all_length nth_list_update)
  next
    case (es_crash i)
    with step.IH show ?thesis by (auto simp: list_all_length nth_list_update)
  next
    case (es_other d')
    with step.IH show ?thesis by simp
  qed
qed

lemma closing_not_armed: "closing (ex_pc a) \<Longrightarrow> armed_key a = None"
  by (cases "ex_pc a") (auto simp: armed_key_def split: option.splits)

end
