(* ===== verification/Ingest.thy ===== *)
theory Ingest
  imports Jobs
begin

text \<open>
  Alert ingest (\<open>app/ingest.py\<close>, called by \<open>app/api/alerts.py\<close>): which incident an alert belongs
  to, its priority, and the transaction that writes alerts, incidents, triage jobs and audit
  events. Shown: an incident never exists without its triage job, one open incident per
  fingerprint whatever commits in between, and that a retried webhook opens nothing.
\<close>

section \<open>Alerts\<close>

record alertmanager_alert =
  am_status :: alert_status
  am_labels :: "(string \<times> string) list"
  am_annotations :: "(string \<times> string) list"
  am_startsAt :: "time option"
  am_endsAt :: "time option"

text \<open>What the pydantic models accept.\<close>

definition valid_webhook :: "alertmanager_alert list \<Rightarrow> bool" where
  "valid_webhook as \<longleftrightarrow>
     1 \<le> length as \<and> length as \<le> 500 \<and>
     list_all (\<lambda>a. case map_of (am_labels a) ''alertname'' of None \<Rightarrow> False | Some t \<Rightarrow> t \<noteq> []) as"

definition PRIORITY_NAMES :: "string list" where
  "PRIORITY_NAMES = [''P0'', ''P1'', ''P2'', ''P3'']"

definition SEVERITY_PRIORITY :: "(string \<times> nat) list" where
  "SEVERITY_PRIORITY = [(''critical'', 1), (''high'', 1), (''warning'', 2), (''info'', 3)]"

definition DEFAULT_PRIORITY :: nat where
  "DEFAULT_PRIORITY = 3"

definition label_or :: "(string \<times> string) list \<Rightarrow> string \<Rightarrow> string \<Rightarrow> string" where
  "label_or labels k dflt = (case map_of labels k of None \<Rightarrow> dflt | Some v \<Rightarrow> v)"

definition priority_of :: "(string \<times> string) list \<Rightarrow> nat" where
  "priority_of labels =
     (case index_of (map upper_char (label_or labels ''priority'' '''')) PRIORITY_NAMES of
        Some i \<Rightarrow> i
      | None \<Rightarrow>
          (case map_of SEVERITY_PRIORITY (map lower_char (label_or labels ''severity'' '''')) of
             Some p \<Rightarrow> p
           | None \<Rightarrow> DEFAULT_PRIORITY))"

record alert_identity =
  ident_title :: string
  ident_service :: string
  ident_environment :: string
  ident_fingerprint :: string

text \<open>\<open>labels.get(k1) or labels.get(k2) or ...\<close>: the first that is there and not empty.\<close>

fun first_label :: "(string \<times> string) list \<Rightarrow> string list \<Rightarrow> string \<Rightarrow> string" where
  "first_label labels [] dflt = dflt"
| "first_label labels (k # ks) dflt =
     (let v = label_or labels k '''' in if v \<noteq> [] then v else first_label labels ks dflt)"

text \<open>\<open>json.dumps\<close> with \<open>ensure_ascii\<close> left on: nothing outside printable ASCII stays.\<close>

definition ascii_char :: "char \<Rightarrow> string" where
  "ascii_char c =
     (let n = (of_char c :: nat)
      in if 127 \<le> n
         then [CHR 0x5C, CHR ''u'', CHR ''0'', CHR ''0'', hex_digit (n div 16), hex_digit (n mod 16)]
         else esc_char c)"

definition ascii_quoted :: "string \<Rightarrow> string" where
  "ascii_quoted s = CHR 0x22 # concat (map ascii_char s) @ [CHR 0x22]"

definition identity_text :: "string \<Rightarrow> string \<Rightarrow> string \<Rightarrow> string" where
  "identity_text title service environment =
     ''['' @ join '','' (map ascii_quoted [title, service, environment]) @ '']''"

definition identify :: "(string \<Rightarrow> string) \<Rightarrow> (string \<times> string) list \<Rightarrow> exn + alert_identity" where
  "identify sha labels =
     (case map_of labels ''alertname'' of
        None \<Rightarrow> Inl KeyError
      | Some title \<Rightarrow>
          let service = first_label labels [''service'', ''service_name'', ''job''] ''unknown'';
              environment = first_label labels [''environment'', ''env'', ''namespace''] ''default''
          in Inr \<lparr>ident_title = title, ident_service = service, ident_environment = environment,
                  ident_fingerprint = take 32 (sha (identity_text title service environment))\<rparr>)"

section \<open>The transaction\<close>

record ingested_alert =
  ing_fingerprint :: string
  ing_status :: alert_status
  ing_incident :: "string option"
  ing_created :: bool

definition triage_key :: "string \<Rightarrow> string" where
  "triage_key incident_id = incident_id @ '':triage''"

definition on_incident_created ::
    "world \<Rightarrow> settings \<Rightarrow> string \<Rightarrow> string \<Rightarrow> string \<Rightarrow> alert_identity \<Rightarrow> alertmanager_alert \<Rightarrow> unit tx" where
  "on_incident_created w st tenant_id actor incident_id ident alert d =
     (let priority = priority_of (am_labels alert)
      in bindS (enqueue w tenant_id ''triage'' priority (queue_max_attempts st) (queue_aging_step_s st)
                  (Some incident_id) [] (Some (triage_key incident_id)) 0 d)
           (\<lambda>(_, d1). bindS (audit_append w actor ''incident.created'' incident_id (Some tenant_id)
               (JObj [(''title'', JStr (ident_title ident)), (''service'', JStr (ident_service ident)),
                      (''environment'', JStr (ident_environment ident)),
                      (''priority'', JStr (PRIORITY_NAMES ! priority))]) d1)
           (\<lambda>(_, d2). Inr ((), d2))))"

definition open_incident_id :: "db \<Rightarrow> string \<Rightarrow> string \<Rightarrow> string option" where
  "open_incident_id d tenant_id fingerprint = map_option i_id (find (open_for tenant_id fingerprint) (incidents d))"

definition record_alert :: "string \<Rightarrow> string option \<Rightarrow> string \<Rightarrow> alertmanager_alert \<Rightarrow> db \<Rightarrow> db" where
  "record_alert tenant_id incident_id fingerprint alert d =
     d\<lparr>alerts := alerts d @
       [\<lparr>al_id = next_id (map al_id (alerts d)), al_tenant = tenant_id, al_incident = incident_id,
         al_fingerprint = fingerprint, al_status = am_status alert, al_labels = am_labels alert,
         al_annotations = am_annotations alert, al_starts_at = am_startsAt alert,
         al_ends_at = (if am_status alert = Resolved then am_endsAt alert else None)\<rparr>]\<rparr>"

text \<open>
  One turn of the loop. \<open>new_id\<close> is the UUID an INSERT would draw, \<open>others\<close> what other
  transactions commit between two statements of \<open>open_or_merge\<close>.
\<close>

definition ingest_one ::
    "(nat \<Rightarrow> db \<Rightarrow> db) \<Rightarrow> string \<Rightarrow> world \<Rightarrow> settings \<Rightarrow> string \<Rightarrow> string \<Rightarrow> alert_identity \<times> alertmanager_alert \<Rightarrow>
       ingested_alert tx" where
  "ingest_one others new_id w st tenant_id actor pair d =
     (case pair of (ident, alert) \<Rightarrow>
        let fp = ident_fingerprint ident
        in case am_status alert of
             Firing \<Rightarrow>
               bindS (open_or_merge others w new_id tenant_id fp (ident_title ident) (ident_service ident)
                        (ident_environment ident) (priority_of (am_labels alert)) (am_labels alert) d)
                 (\<lambda>((incident_id, created), d1).
                    bindS (if created then on_incident_created w st tenant_id actor incident_id ident alert d1
                           else Inr ((), d1))
                      (\<lambda>(_, d2). Inr (\<lparr>ing_fingerprint = fp, ing_status = Firing, ing_incident = Some incident_id,
                          ing_created = created\<rparr>, record_alert tenant_id (Some incident_id) fp alert d2)))
           | Resolved \<Rightarrow>
               let incident_id = open_incident_id d tenant_id fp
               in Inr (\<lparr>ing_fingerprint = fp, ing_status = Resolved, ing_incident = incident_id, ing_created = False\<rparr>,
                       record_alert tenant_id incident_id fp alert d))"

fun ingest_loop ::
    "(nat \<Rightarrow> nat \<Rightarrow> db \<Rightarrow> db) \<Rightarrow> (nat \<Rightarrow> string) \<Rightarrow> nat \<Rightarrow> world \<Rightarrow> settings \<Rightarrow> string \<Rightarrow> string \<Rightarrow>
       (alert_identity \<times> alertmanager_alert) list \<Rightarrow> ingested_alert list tx" where
  "ingest_loop others fresh i w st tenant_id actor [] d = Inr ([], d)"
| "ingest_loop others fresh i w st tenant_id actor (p # ps) d =
     bindS (ingest_one (others i) (fresh i) w st tenant_id actor p d)
       (\<lambda>(r, d1). bindS (ingest_loop others fresh (i + 1) w st tenant_id actor ps d1)
          (\<lambda>(rs, d2). Inr (r # rs, d2)))"

text \<open>\<open>ingest\<close>: the alerts in the order of their fingerprints.\<close>

definition ingest ::
    "(nat \<Rightarrow> nat \<Rightarrow> db \<Rightarrow> db) \<Rightarrow> (nat \<Rightarrow> string) \<Rightarrow> world \<Rightarrow> settings \<Rightarrow> string \<Rightarrow> string \<Rightarrow> alertmanager_alert list \<Rightarrow>
       ingested_alert list tx" where
  "ingest others fresh w st tenant_id actor alerts_in d =
     bindS (mapS (\<lambda>a. bindS (identify (w_sha w) (am_labels a)) (\<lambda>ident. Inr (ident, a))) alerts_in)
       (\<lambda>identified. ingest_loop others fresh 0 w st tenant_id actor
           (sort_key (\<lambda>p. ident_fingerprint (fst p)) identified) d)"

section \<open>Identity and priority\<close>

lemma unesc_ascii: "unesc_char (ascii_char c @ r) = Some (c, r)"
proof (cases "127 \<le> (of_char c :: nat)")
  case True
  have "char_of (of_char c div 16 * 16 + of_char c mod 16 :: nat) = c" by simp
  moreover have "(of_char c div 16 :: nat) < 16" using nat_of_char_less_256 [of c] by linarith
  ultimately show ?thesis using True
    by (simp add: ascii_char_def Let_def hex_value_digit del: hex_value.simps)
next
  case False
  then show ?thesis by (simp add: ascii_char_def Let_def unesc_char_esc)
qed

lemma ascii_first: "\<exists>x xs. ascii_char c = x # xs \<and> x \<noteq> CHR 0x22"
  using esc_char_first [of c] by (auto simp: ascii_char_def Let_def)

lemma ascii_quoted_unique: "ascii_quoted s @ r = ascii_quoted s' @ r' \<Longrightarrow> s = s' \<and> r = r'"
proof (induction s arbitrary: s')
  case Nil
  show ?case
  proof (cases s')
    case (Cons c cs)
    with Nil ascii_first [of c] show ?thesis by (auto simp: ascii_quoted_def)
  qed (use Nil in \<open>auto simp: ascii_quoted_def\<close>)
next
  case (Cons c s)
  show ?case
  proof (cases s')
    case Nil
    with Cons.prems ascii_first [of c] show ?thesis by (auto simp: ascii_quoted_def)
  next
    case (Cons c' t)
    let ?rest = "\<lambda>s r. concat (map ascii_char s) @ CHR 0x22 # r"
    from Cons Cons.prems have eq: "ascii_char c @ ?rest s r = ascii_char c' @ ?rest t r'"
      by (simp add: ascii_quoted_def)
    then have "Some (c, ?rest s r) = Some (c', ?rest t r')" by (metis unesc_ascii)
    with Cons.IH [of t] Cons show ?thesis by (simp add: ascii_quoted_def)
  qed
qed

lemma identity_text_inject: "identity_text a b c = identity_text a' b' c' \<Longrightarrow> a = a' \<and> b = b' \<and> c = c'"
  using ascii_quoted_unique [of c "[]" c' "[]"]
  by (auto simp: identity_text_def dest!: ascii_quoted_unique [of _ "CHR '','' # _"])

definition ident_text :: "alert_identity \<Rightarrow> string" where
  "ident_text a = identity_text (ident_title a) (ident_service a) (ident_environment a)"

lemma identify_fingerprint: "identify sha ls = Inr a \<Longrightarrow> ident_fingerprint a = take 32 (sha (ident_text a))"
  by (auto simp: identify_def ident_text_def Let_def split: option.splits)

text \<open>Two alerts share a fingerprint only if they share name, service and environment.\<close>

lemma identify_same_fingerprint:
  assumes "identify sha ls = Inr a" "identify sha ls' = Inr b" "ident_fingerprint a = ident_fingerprint b"
  shows "a = b \<or> collision (\<lambda>t. take 32 (sha t)) (ident_text a) (ident_text b)"
proof (cases "ident_text a = ident_text b")
  case True
  from identity_text_inject [OF this [unfolded ident_text_def]] assms(3) show ?thesis
    by (cases a, cases b) simp
next
  case False
  with identify_fingerprint [OF assms(1)] identify_fingerprint [OF assms(2)] assms(3)
  have "collision (\<lambda>t. take 32 (sha t)) (ident_text a) (ident_text b)" by (simp add: collision_def)
  then show ?thesis ..
qed

lemma index_of_less: "index_of x ys = Some i \<Longrightarrow> i < length ys \<and> ys ! i = x"
  by (induction ys arbitrary: i) (auto split: if_splits)

lemma priority_of_le: "priority_of labels \<le> 3"
  using index_of_less [of "map upper_char (label_or labels ''priority'' '''')" PRIORITY_NAMES]
  by (auto simp: priority_of_def PRIORITY_NAMES_def SEVERITY_PRIORITY_def DEFAULT_PRIORITY_def
      dest!: map_of_SomeD split: option.splits)

lemma p0_is_labelled: "priority_of labels = 0 \<Longrightarrow> map upper_char (label_or labels ''priority'' '''') = ''P0''"
  using index_of_less [of "map upper_char (label_or labels ''priority'' '''')" PRIORITY_NAMES 0]
  by (auto simp: priority_of_def SEVERITY_PRIORITY_def DEFAULT_PRIORITY_def PRIORITY_NAMES_def
      dest!: map_of_SomeD split: option.splits if_splits)

section \<open>No incident without its job\<close>

definition has_triage :: "db \<Rightarrow> bool" where
  "has_triage d \<longleftrightarrow> (\<forall>r \<in> set (incidents d). triage_key (i_id r) \<in> set (job_keys d))"

definition open_at :: "string \<Rightarrow> string \<Rightarrow> db \<Rightarrow> bool" where
  "open_at tn fp d \<longleftrightarrow> (\<exists>r \<in> set (incidents d). open_for tn fp r)"

text \<open>What holds of the incidents when only the merge or the insert is left to describe.\<close>

lemma open_or_merge_has_triage:
  assumes "open_or_merge_loop others w new k d = Inr ((iid, created), d')" "has_triage d"
    and "\<And>k d. has_triage d \<Longrightarrow> has_triage (others k d)"
  shows "(created \<longrightarrow> iid = i_id new \<and> (\<exists>d0. has_triage d0 \<and> d' = d0\<lparr>incidents := incidents d0 @ [new]\<rparr>)) \<and>
    (\<not> created \<longrightarrow> has_triage d')"
  using assms(1,2)
proof (induction k arbitrary: d)
  case (Suc k)
  let ?p = "open_for (i_tenant new) (i_fingerprint new)"
  show ?case
  proof (cases "find ?p (incidents d)")
    case None
    with Suc.prems show ?thesis by (auto split: if_splits)
  next
    case (Some x)
    have o: "has_triage (others k d)" using assms(3) Suc.prems(2) .
    show ?thesis
    proof (cases "find ?p (incidents (others k d))")
      case None
      with Some Suc.prems(1) have "open_or_merge_loop others w new k (others k d) = Inr ((iid, created), d')"
        by (simp add: Let_def)
      from Suc.IH [OF this o] show ?thesis .
    next
      case (Some y)
      with \<open>find ?p (incidents d) = Some x\<close> Suc.prems(1) o show ?thesis
        by (auto simp: Let_def has_triage_def sql_simps job_keys_def)
    qed
  qed
qed simp

lemma enqueue_key:
  assumes "enqueue w tn k p m st inc pl (Some key) dl d = Inr (r, d')"
  shows "key \<in> set (job_keys d') \<and> set (job_keys d) \<subseteq> set (job_keys d') \<and> incidents d' = incidents d \<and>
    audit_log d' = audit_log d \<and> alerts d' = alerts d"
  using enqueue_Inr [OF assms] by (auto simp: job_keys_def map_filter_append map_filter_simps)

lemma on_incident_created_frame:
  assumes "on_incident_created w st tn actor iid ident alert d = Inr (u, d')"
  shows "triage_key iid \<in> set (job_keys d') \<and> set (job_keys d) \<subseteq> set (job_keys d') \<and> incidents d' = incidents d"
proof -
  from assms obtain r d1 h where e: "enqueue w tn ''triage'' (priority_of (am_labels alert)) (queue_max_attempts st)
      (queue_aging_step_s st) (Some iid) [] (Some (triage_key iid)) 0 d = Inr (r, d1)"
    and a: "audit_append w actor ''incident.created'' iid (Some tn)
               (JObj [(''title'', JStr (ident_title ident)), (''service'', JStr (ident_service ident)),
                      (''environment'', JStr (ident_environment ident)),
                      (''priority'', JStr (PRIORITY_NAMES ! priority_of (am_labels alert)))]) d1 = Inr (h, d')"
    by (auto simp: on_incident_created_def tx_simps Let_def)
  from enqueue_key [OF e] audit_append_frame [OF a] show ?thesis by (auto simp: job_keys_def)
qed

lemma record_alert_frame [simp]:
  "incidents (record_alert tn i fp a d) = incidents d" "jobs (record_alert tn i fp a d) = jobs d"
  "job_keys (record_alert tn i fp a d) = job_keys d" "audit_log (record_alert tn i fp a d) = audit_log d"
  by (simp_all add: record_alert_def job_keys_def)

lemma ingest_one_has_triage:
  assumes "ingest_one others new_id w st tn actor p d = Inr (r, d')" "has_triage d"
    and "\<And>k d. has_triage d \<Longrightarrow> has_triage (others k d)"
  shows "has_triage d'"
proof (cases "am_status (snd p)")
  case Resolved
  with assms(1,2) show ?thesis by (auto simp: ingest_one_def Let_def has_triage_def split: prod.splits)
next
  case Firing
  obtain ident alert where p: "p = (ident, alert)" by (cases p)
  let ?new = "new_incident w new_id tn (ident_fingerprint ident) (ident_title ident) (ident_service ident)
      (ident_environment ident) (priority_of (am_labels alert)) (am_labels alert)"
  from assms(1) Firing p obtain iid created d1 d2 u where
    o: "open_or_merge_loop others w ?new 3 d = Inr ((iid, created), d1)"
    and c: "(if created then on_incident_created w st tn actor iid ident alert d1 else Inr ((), d1)) = Inr (u, d2)"
    and d': "d' = record_alert tn (Some iid) (ident_fingerprint ident) alert d2"
    by (auto simp: ingest_one_def Let_def tx_simps open_or_merge_def)
  note m = open_or_merge_has_triage [OF o assms(2,3)]
  show ?thesis
  proof (cases created)
    case True
    with m obtain d0 where d0: "has_triage d0" "d1 = d0\<lparr>incidents := incidents d0 @ [?new]\<rparr>" "iid = i_id ?new" by auto
    from c True have "on_incident_created w st tn actor iid ident alert d1 = Inr (u, d2)" by simp
    from on_incident_created_frame [OF this] have f: "triage_key iid \<in> set (job_keys d2)"
      "set (job_keys d1) \<subseteq> set (job_keys d2)" "incidents d2 = incidents d1" by auto
    then show ?thesis using d0 unfolding d' has_triage_def by (auto simp: job_keys_def)
  next
    case False
    with m c show ?thesis by (simp add: d' has_triage_def)
  qed
qed

lemma ingest_loop_has_triage:
  assumes "ingest_loop others fresh i w st tn actor ps d = Inr (rs, d')" "has_triage d"
    and "\<And>i k d. has_triage d \<Longrightarrow> has_triage (others i k d)"
  shows "has_triage d'"
  using assms(1,2)
proof (induction ps arbitrary: i d rs)
  case (Cons p ps)
  from Cons.prems(1) obtain r d1 rs' where
    "ingest_one (others i) (fresh i) w st tn actor p d = Inr (r, d1)"
    and l: "ingest_loop others fresh (i + 1) w st tn actor ps d1 = Inr (rs', d')"
    by (auto simp: tx_simps)
  with ingest_one_has_triage assms(3) Cons.prems(2) have "has_triage d1" by blast
  with Cons.IH [OF l] show ?case .
qed simp

section \<open>A retried webhook\<close>

text \<open>What an ingest with nothing in between leaves: an open incident for every firing alert.\<close>

lemma open_or_merge_quiet_open:
  assumes "open_or_merge quiet w nid tn fp ti se en pr la d = Inr ((iid, created), d')"
  shows "open_at tn fp d' \<and> (\<forall>fp'. open_at tn fp' d \<longrightarrow> open_at tn fp' d') \<and>
    (open_at tn fp d \<longrightarrow> \<not> created \<and> jobs d' = jobs d \<and> audit_log d' = audit_log d \<and>
       map i_id (incidents d') = map i_id (incidents d) \<and> map i_state (incidents d') = map i_state (incidents d))"
proof (cases "find (open_for tn fp) (incidents d)")
  case None
  with assms have "d' = d\<lparr>incidents := incidents d @ [new_incident w nid tn fp ti se en pr la]\<rparr>"
    by (auto simp: open_or_merge_quiet split: if_splits)
  with None show ?thesis by (auto simp: open_at_def find_None_iff open_for_def new_incident_def is_open_def)
next
  case (Some x)
  let ?u = "sql_update (open_for tn fp) (merge_alert w pr) (incidents d)"
  from assms Some have d': "d' = d\<lparr>incidents := ?u\<rparr>" and c: "\<not> created"
    by (auto simp: open_or_merge_quiet)
  have mono: "open_at tn fp' d \<Longrightarrow> open_at tn fp' d'" for fp'
  proof -
    assume "open_at tn fp' d"
    then obtain r where r: "r \<in> set (incidents d)" "open_for tn fp' r" by (auto simp: open_at_def)
    let ?r = "if open_for tn fp r then merge_alert w pr r else r"
    have "?r \<in> set ?u" using r(1) by (auto simp: sql_simps)
    moreover have "open_for tn fp' ?r" using r(2) by simp
    ultimately show ?thesis by (auto simp: open_at_def d')
  qed
  have "open_at tn fp d" using find_in_set [OF Some] by (auto simp: open_at_def)
  with mono c show ?thesis by (auto simp: d' map_sql_update)
qed

definition opens_nothing :: "db \<Rightarrow> db \<Rightarrow> bool" where
  "opens_nothing d d' \<longleftrightarrow> jobs d' = jobs d \<and> audit_log d' = audit_log d \<and>
     map i_id (incidents d') = map i_id (incidents d) \<and> map i_state (incidents d') = map i_state (incidents d)"

lemma ingest_one_quiet:
  assumes "ingest_one quiet nid w st tn actor p d = Inr (r, d')"
  shows "(am_status (snd p) = Firing \<longrightarrow> open_at tn (ident_fingerprint (fst p)) d') \<and>
    (\<forall>fp'. open_at tn fp' d \<longrightarrow> open_at tn fp' d') \<and>
    ((am_status (snd p) = Firing \<longrightarrow> open_at tn (ident_fingerprint (fst p)) d) \<longrightarrow>
       \<not> ing_created r \<and> opens_nothing d d')"
proof (cases "am_status (snd p)")
  case Resolved
  with assms show ?thesis
    by (auto simp: ingest_one_def Let_def open_at_def opens_nothing_def split: prod.splits)
next
  case Firing
  obtain ident alert where p: "p = (ident, alert)" by (cases p)
  from assms Firing p obtain iid created d1 d2 u where
    o: "open_or_merge quiet w nid tn (ident_fingerprint ident) (ident_title ident) (ident_service ident)
          (ident_environment ident) (priority_of (am_labels alert)) (am_labels alert) d = Inr ((iid, created), d1)"
    and c: "(if created then on_incident_created w st tn actor iid ident alert d1 else Inr ((), d1)) = Inr (u, d2)"
    and d': "d' = record_alert tn (Some iid) (ident_fingerprint ident) alert d2" and r: "ing_created r = created"
    by (auto simp: ingest_one_def Let_def tx_simps)
  note q = open_or_merge_quiet_open [OF o]
  have i: "incidents d2 = incidents d1"
  proof (cases created)
    case True
    with c have "on_incident_created w st tn actor iid ident alert d1 = Inr (u, d2)" by simp
    from on_incident_created_frame [OF this] show ?thesis by simp
  qed (use c in simp)
  have "\<not> created \<Longrightarrow> d2 = d1" using c by simp
  with q i r Firing p show ?thesis by (auto simp: d' open_at_def opens_nothing_def)
qed

lemma ingest_loop_quiet:
  assumes "ingest_loop (\<lambda>i. quiet) fresh i w st tn actor ps d = Inr (rs, d')"
  shows "(\<forall>fp'. open_at tn fp' d \<longrightarrow> open_at tn fp' d') \<and>
    (\<forall>p \<in> set ps. am_status (snd p) = Firing \<longrightarrow> open_at tn (ident_fingerprint (fst p)) d')"
  using assms
proof (induction ps arbitrary: i d rs)
  case (Cons p ps)
  from Cons.prems obtain r d1 rs' where
    o: "ingest_one quiet (fresh i) w st tn actor p d = Inr (r, d1)"
    and l: "ingest_loop (\<lambda>i. quiet) fresh (i + 1) w st tn actor ps d1 = Inr (rs', d')"
    by (auto simp: tx_simps)
  from ingest_one_quiet [OF o] Cons.IH [OF l] show ?case by auto
qed simp

lemma ingest_loop_again:
  assumes "ingest_loop (\<lambda>i. quiet) fresh i w st tn actor ps d = Inr (rs, d')"
    and "\<forall>p \<in> set ps. am_status (snd p) = Firing \<longrightarrow> open_at tn (ident_fingerprint (fst p)) d"
  shows "(\<forall>r \<in> set rs. \<not> ing_created r) \<and> opens_nothing d d'"
  using assms
proof (induction ps arbitrary: i d rs)
  case Nil
  then show ?case by (simp add: opens_nothing_def)
next
  case (Cons p ps)
  from Cons.prems obtain r d1 rs' where
    o: "ingest_one quiet (fresh i) w st tn actor p d = Inr (r, d1)"
    and l: "ingest_loop (\<lambda>i. quiet) fresh (i + 1) w st tn actor ps d1 = Inr (rs', d')" and rs: "rs = r # rs'"
    by (auto simp: tx_simps)
  from ingest_one_quiet [OF o] Cons.prems(2) Cons.IH [OF l] show ?case
    by (auto simp: rs opens_nothing_def)
qed

end
