(* ===== verification/Scenario.thy ===== *)
theory Scenario
  imports RemediateJobs ExecutorJob Ingest "HOL-Library.Code_Target_Nat"
begin

text \<open>
  Concrete inputs: a world, settings, one incident at several points of its life, the plan and
  the jobs around it. The properties with hypotheses are applied to them. The hash of this world
  is the length of the text: short, and the model allows for collisions.
\<close>

definition sha0 :: "string \<Rightarrow> string" where
  "sha0 s = ''hash'' @ dec (length s)"

definition w0 :: world where
  "w0 = \<lparr>w_sha = sha0, w_iso = dec_int, w_clock_repr = (\<lambda>e. ''clock''), w_now = 0, w_utcnow = 0\<rparr>"

definition st0 :: settings where
  "st0 = default_settings\<lparr>remediation_targets := [''cart''], remediation_auto_max_risk := R2\<rparr>"

definition st1 :: settings where
  "st1 = default_settings\<lparr>remediation_targets := [''cart'']\<rparr>"

definition inc0 :: "istate \<Rightarrow> nat \<Rightarrow> incident_row" where
  "inc0 s v = \<lparr>i_id = ''i'', i_tenant = ''t'', i_fingerprint = ''f'', i_title = ''SLO'', i_service = ''web'',
     i_environment = ''prod'', i_priority = 0, i_state = s, i_version = v, i_alert_count = 1,
     i_labels = [(''slo'', ''latency'')], i_created_at = 0, i_updated_at = 0, i_closed_at = None\<rparr>"

definition plan0 :: remediation_plan where
  "plan0 = \<lparr>rp_summary = ''s'', rp_actions = [RestartDeployment ''cart'' [''ev''] ''r''], rp_alternatives = [],
     rp_no_action_reason = None\<rparr>"

definition dx0 :: diagnosis where
  "dx0 = \<lparr>dx_summary = ''d'', dx_root_causes = [\<lparr>rc_service = ''cart'', rc_cause = ''c'', rc_confidence = 9 / 10,
     rc_evidence_ids = [''ev'']\<rparr>], dx_facts = [], dx_inferences = [], dx_hypotheses = []\<rparr>"

definition ev0 :: evidence_row where
  "ev0 = \<lparr>e_id = ''ev'', e_tenant = ''t'', e_incident = Some ''i'', e_tool = ''k8s'', e_args = [], e_result = JNull,
     e_result_hash = ''r'', e_result_bytes = 4, e_summary = JNull, e_truncated = False, e_source = ''live'', e_fetched_at = 0\<rparr>"

definition dx_row0 :: blackboard_row where
  "dx_row0 = \<lparr>b_id = 1, b_tenant = ''t'', b_incident = ''i'', b_kind = KDiagnosis, b_author = ''synthesizer'',
     b_body = BDiagnosis dx0, b_evidence_ids = [''ev'']\<rparr>"

definition plan_row0 :: "verdict \<Rightarrow> plan_row" where
  "plan_row0 v = \<lparr>p_id = 1, p_tenant = ''t'', p_incident = ''i'', p_seq = 1, p_proposed_by = ''agent:planner'',
     p_plan = plan0, p_hash = ''h1'', p_verdict = v, p_risk = Some R2, p_checks = [], p_expires_at = Some 100, p_created_at = 0\<rparr>"

definition job0 :: "string \<Rightarrow> job_row" where
  "job0 k = \<lparr>j_id = 1, j_tenant = ''t'', j_incident = Some ''i'', j_kind = k, j_payload = [(''plan_id'', JInt 1)],
     j_idempotency_key = Some (''k''), j_priority = 0, j_status = Running, j_attempts = 1, j_max_attempts = 5,
     j_sort_key = 0, j_run_after = 0, j_lease_owner = Some ''w'', j_lease_until = Some 30, j_fence = 1,
     j_last_error = None, j_updated_at = 0\<rparr>"

definition held0 :: "string \<Rightarrow> job" where
  "held0 k = from_row 0 (job0 k)"

text \<open>The incident in a state, its diagnosis and evidence, a plan with a verdict, a running job.\<close>

definition db0 :: "istate \<Rightarrow> plan_row list \<Rightarrow> string \<Rightarrow> db" where
  "db0 s plans k = empty_db\<lparr>incidents := [inc0 s 4], jobs := [job0 k], evidence := [ev0], blackboard := [dx_row0],
     remediation_plans := plans\<rparr>"

text \<open>How a closed evaluation of a transaction is turned into its result.\<close>

definition ends_in :: "('e + 'a) \<Rightarrow> ('a \<Rightarrow> bool) \<Rightarrow> bool" where
  "ends_in r P = (case r of Inl e \<Rightarrow> False | Inr a \<Rightarrow> P a)"

lemma ends_inE: "ends_in r P \<Longrightarrow> (\<And>a. r = Inr a \<Longrightarrow> P a \<Longrightarrow> thesis) \<Longrightarrow> thesis"
  by (auto simp: ends_in_def split: sum.splits)

section \<open>Evaluations\<close>

lemma submit_allowed: "ends_in (submit w0 st0 (inc0 DIAGNOSED 4) plan0 ''agent:planner'' ''agent:planner'' (db0 DIAGNOSED [] ''plan''))
    (\<lambda>((row, s), d). s = EXECUTING)"
  by code_simp

lemma decide_approves: "ends_in (decide w0 st1 (inc0 AWAITING_APPROVAL 4) ''user:ann'' Approve ''h1'' ''''
    (db0 AWAITING_APPROVAL [plan_row0 RequireApproval] ''plan'')) (\<lambda>(s, d). s = EXECUTING)"
  by code_simp

lemma db0_ids: "distinct (map i_id (incidents (db0 s ps k)))"
  by (simp add: db0_def)

lemma db0_constraints: "ps = [] \<or> (\<exists>v. ps = [plan_row0 v]) \<Longrightarrow> constraints (db0 s ps k)"
  by (auto simp: constraints_def db0_def inc0_def job0_def job_keys_def map_filter_simps empty_db_def)

definition alert0 :: alertmanager_alert where
  "alert0 = \<lparr>am_status = Firing, am_labels = [(''alertname'', ''SLO''), (''service'', ''cart''), (''priority'', ''p0'')],
     am_annotations = [], am_startsAt = Some 0, am_endsAt = None\<rparr>"

definition ingest_run :: "db \<Rightarrow> exn + ingested_alert list \<times> db" where
  "ingest_run d = ingest (\<lambda>i. quiet) (\<lambda>i. ''i'' @ dec i) w0 st0 ''t'' ''am'' [alert0, alert0] d"

lemma ingest_opens: "ends_in (ingest_run empty_db)
    (\<lambda>(rs, d). map ing_created rs = [True, False] \<and> length (jobs d) = 1 \<and> ends_in (ingest_run d) (\<lambda>x. True))"
  by code_simp

lemma transition_moves: "ends_in (transition w0 ''i'' TRIAGED INVESTIGATING 4 ''w'' ''r'' (db0 TRIAGED [] ''k'')) (\<lambda>x. True)"
  by code_simp

definition queue0 :: db where
  "queue0 = (case enqueue w0 ''t'' ''triage'' 3 5 60 None [] (Some ''a'') 0 empty_db of Inr (r, d) \<Rightarrow> d | Inl e \<Rightarrow> empty_db)"

lemma queue0_claim: "(case claim (\<lambda>i. False) w0 ''w'' 30 3 None queue0 of (Some job, d) \<Rightarrow> jb_id job = 1 | _ \<Rightarrow> False)"
  by code_simp

end
