(* ===== verification/Compress.thy ===== *)
theory Compress
  imports Json
begin

text \<open>
  Bounded summaries (\<open>app/tools/compress.py\<close>: \<open>clip\<close>, \<open>_clip_strings\<close>, \<open>_lists\<close>,
  \<open>bound\<close>) and the cleaning of raw answers (\<open>app/tools/base.py\<close>: \<open>without_nul\<close>). A list
  inside a value is addressed by the positions on the way to it; the code holds a reference
  to it instead and deletes its tail in place.
\<close>

definition MAX_SUMMARY_CHARS :: nat where
  "MAX_SUMMARY_CHARS = 6000"

definition MAX_STRING :: nat where
  "MAX_STRING = 300"

definition clip :: "nat \<Rightarrow> string \<Rightarrow> string" where
  "clip limit s = (if length s \<le> limit then s else take (limit - 1) s @ [ellipsis])"

primrec clip_strings :: "json \<Rightarrow> json" where
  "clip_strings JNull = JNull"
| "clip_strings (JBool b) = JBool b"
| "clip_strings (JInt i) = JInt i"
| "clip_strings (JFloat t) = JFloat t"
| "clip_strings (JStr s) = JStr (clip MAX_STRING s)"
| "clip_strings (JArr xs) = JArr (map clip_strings xs)"
| "clip_strings (JObj kvs) = JObj (map (map_prod id clip_strings) kvs)"

text \<open>Every list inside a value, outermost first, with the way to it.\<close>

definition below :: "(nat list \<times> json list) list list \<Rightarrow> (nat list \<times> json list) list" where
  "below ls = concat (map (\<lambda>(i, l). map (\<lambda>(p, xs). (i # p, xs)) l) (enumerate 0 ls))"

primrec lists_of :: "json \<Rightarrow> (nat list \<times> json list) list" where
  "lists_of JNull = []"
| "lists_of (JBool b) = []"
| "lists_of (JInt i) = []"
| "lists_of (JFloat t) = []"
| "lists_of (JStr s) = []"
| "lists_of (JArr xs) = ([], xs) # below (map lists_of xs)"
| "lists_of (JObj kvs) = below (map snd (map (map_prod id lists_of) kvs))"

text \<open>\<open>del largest[max(1, len(largest) // 2):]\<close> on the list at the end of the way.\<close>

fun cut_at :: "nat list \<Rightarrow> json \<Rightarrow> json" where
  "cut_at [] (JArr xs) = JArr (take (max 1 (length xs div 2)) xs)"
| "cut_at (i # p) (JArr xs) = (if i < length xs then JArr (xs[i := cut_at p (xs ! i)]) else JArr xs)"
| "cut_at (i # p) (JObj kvs) =
     (if i < length kvs then JObj (kvs[i := (fst (kvs ! i), cut_at p (snd (kvs ! i)))]) else JObj kvs)"
| "cut_at p j = j"

definition candidates :: "json \<Rightarrow> (nat list \<times> json list) list" where
  "candidates j = filter (\<lambda>(p, xs). 1 < length xs) (lists_of j)"

definition largest :: "(nat list \<times> json list) list \<Rightarrow> (nat list \<times> json list) option" where
  "largest cs = least_by (\<lambda>a b. length (canonical_json (JArr (snd b))) < length (canonical_json (JArr (snd a)))) cs"

section \<open>Cutting shrinks\<close>

fun at_path :: "nat list \<Rightarrow> json \<Rightarrow> json option" where
  "at_path [] j = Some j"
| "at_path (i # p) (JArr xs) = (if i < length xs then at_path p (xs ! i) else None)"
| "at_path (i # p) (JObj kvs) = (if i < length kvs then at_path p (snd (kvs ! i)) else None)"
| "at_path p j = None"

primrec elems :: "json \<Rightarrow> nat" where
  "elems JNull = 0"
| "elems (JBool b) = 0"
| "elems (JInt i) = 0"
| "elems (JFloat t) = 0"
| "elems (JStr s) = 0"
| "elems (JArr xs) = length xs + sum_list (map elems xs)"
| "elems (JObj kvs) = sum_list (map snd (map (map_prod id elems) kvs))"

lemma in_below: "(q, l) \<in> set (below ls) \<longleftrightarrow> (\<exists>i p. i < length ls \<and> q = i # p \<and> (p, l) \<in> set (ls ! i))"
  by (force simp: below_def in_set_enumerate_eq)

lemma lists_of_at: "(p, l) \<in> set (lists_of j) \<Longrightarrow> at_path p j = Some (JArr l)"
proof (induction j arbitrary: p l)
  case (JArr xs)
  then show ?case by (auto simp: in_below)
next
  case (JObj kvs)
  from JObj.prems obtain i q where q: "i < length kvs" "p = i # q" "(q, l) \<in> set (lists_of (snd (kvs ! i)))"
    by (auto simp: in_below)
  with JObj.IH [of "kvs ! i" "snd (kvs ! i)" q l] show ?case by (simp add: snds.simps)
qed simp_all

lemma sum_list_update_less:
  "i < length xs \<Longrightarrow> y < xs ! i \<Longrightarrow> sum_list (xs[i := y]) < sum_list (xs :: nat list)"
  by (induction xs arbitrary: i) (auto split: nat.splits)

lemma sum_list_take_le: "sum_list (take n xs) \<le> sum_list (xs :: nat list)"
  by (metis append_take_drop_id le_add1 sum_list_append)

lemma cut_at_elems: "at_path p j = Some (JArr l) \<Longrightarrow> 1 < length l \<Longrightarrow> elems (cut_at p j) < elems j"
proof (induction p j rule: at_path.induct)
  case (1 j)
  then have j: "j = JArr l" by simp
  have "max 1 (length l div 2) < length l" using 1 by auto
  moreover have "sum_list (map elems (take n l)) \<le> sum_list (map elems l)" for n
    by (simp add: sum_list_take_le flip: take_map)
  ultimately show ?case by (simp add: j min_absorb2 add_less_le_mono)
next
  case (2 i p xs)
  then have "i < length xs" "elems (cut_at p (xs ! i)) < elems (xs ! i)" by (auto split: if_splits)
  then show ?case using sum_list_update_less [of i "map elems xs"] by (simp add: map_update)
next
  case (3 i p kvs)
  then have "i < length kvs" "elems (cut_at p (snd (kvs ! i))) < elems (snd (kvs ! i))" by (auto split: if_splits)
  then show ?case using sum_list_update_less [of i "map (\<lambda>x. elems (snd x)) kvs"] by (simp add: map_update comp_def)
qed auto

lemma largest_candidate:
  assumes "largest (candidates j) = Some (p, l)"
  shows "(p, l) \<in> set (lists_of j)" "1 < length l"
  using least_by_mem [OF assms [unfolded largest_def]] by (auto simp: candidates_def)

lemma cut_largest: "largest (candidates j) = Some (p, l) \<Longrightarrow> elems (cut_at p j) < elems j"
  using largest_candidate lists_of_at cut_at_elems by metis

section \<open>Bounding\<close>

text \<open>The loop: the summary it leaves, and whether it cut anything.\<close>

function bound_loop :: "nat \<Rightarrow> json \<Rightarrow> bool \<Rightarrow> json \<times> bool" where
  "bound_loop max_chars out truncated =
     (if length (canonical_json out) \<le> max_chars then (out, truncated)
      else case largest (candidates out) of
        None \<Rightarrow> (out, truncated)
      | Some (p, l) \<Rightarrow> bound_loop max_chars (cut_at p out) True)"
  by pat_completeness auto
termination
  by (relation "measure (\<lambda>(m, j, t). elems j)") (auto intro: cut_largest)

declare bound_loop.simps [simp del]

text \<open>\<open>d[k] = v\<close> on the items of a dictionary.\<close>

definition dict_put :: "string \<Rightarrow> json \<Rightarrow> (string \<times> json) list \<Rightarrow> (string \<times> json) list" where
  "dict_put k v kvs = (if k \<in> set (map fst kvs) then map (\<lambda>(a, b). (a, if a = k then v else b)) kvs else kvs @ [(k, v)])"

definition bound :: "(string \<times> json) list \<Rightarrow> nat \<Rightarrow> (string \<times> json) list \<times> bool" where
  "bound summary max_chars =
     (case bound_loop max_chars (clip_strings (JObj summary)) False of
        (JObj out, truncated) \<Rightarrow> (if truncated then dict_put ''truncated'' (JBool True) out else out, truncated)
      | (j, truncated) \<Rightarrow> ([], truncated))"

section \<open>Cleaning\<close>

definition nul_free :: "string \<Rightarrow> string" where
  "nul_free s = map (\<lambda>c. if of_char c = (0 :: nat) then replacement_char else c) s"

text \<open>A dictionary comprehension: a key that comes again takes its first place, with the last value.\<close>

definition dict_of :: "(string \<times> json) list \<Rightarrow> (string \<times> json) list" where
  "dict_of kvs = foldl (\<lambda>acc (k, v). dict_put k v acc) [] kvs"

primrec without_nul :: "json \<Rightarrow> json" where
  "without_nul JNull = JNull"
| "without_nul (JBool b) = JBool b"
| "without_nul (JInt i) = JInt i"
| "without_nul (JFloat t) = JFloat t"
| "without_nul (JStr s) = JStr (nul_free s)"
| "without_nul (JArr xs) = JArr (map without_nul xs)"
| "without_nul (JObj kvs) = JObj (dict_of (map (map_prod nul_free without_nul) kvs))"

section \<open>What bounding keeps\<close>

text \<open>
  \<open>pruned j j'\<close>: the same value with tails of its lists cut off, no list emptied and no key
  or string touched.
\<close>

inductive pruned :: "json \<Rightarrow> json \<Rightarrow> bool" where
  same: "pruned j j"
| arr: "length ys \<le> length xs \<Longrightarrow> xs \<noteq> [] \<longrightarrow> ys \<noteq> [] \<Longrightarrow> \<forall>i < length ys. pruned (xs ! i) (ys ! i) \<Longrightarrow>
    pruned (JArr xs) (JArr ys)"
| obj: "map fst kvs' = map fst kvs \<Longrightarrow> \<forall>i < length kvs. pruned (snd (kvs ! i)) (snd (kvs' ! i)) \<Longrightarrow>
    pruned (JObj kvs) (JObj kvs')"

inductive_cases pruned_ArrE: "pruned (JArr xs) j"
inductive_cases pruned_ObjE: "pruned (JObj kvs) j"

lemma pruned_Arr: "pruned (JArr xs) j \<longleftrightarrow>
    (\<exists>ys. j = JArr ys \<and> length ys \<le> length xs \<and> (xs \<noteq> [] \<longrightarrow> ys \<noteq> []) \<and> (\<forall>i < length ys. pruned (xs ! i) (ys ! i)))"
  by (auto elim!: pruned_ArrE intro: pruned.intros)

lemma pruned_Obj: "pruned (JObj kvs) j \<longleftrightarrow>
    (\<exists>kvs'. j = JObj kvs' \<and> map fst kvs' = map fst kvs \<and> (\<forall>i < length kvs. pruned (snd (kvs ! i)) (snd (kvs' ! i))))"
  by (auto elim!: pruned_ObjE intro: pruned.intros)

lemma pruned_trans: "pruned j k \<Longrightarrow> pruned k m \<Longrightarrow> pruned j m"
proof (induction arbitrary: m rule: pruned.induct)
  case (arr ys xs)
  from arr.prems obtain zs where zs: "m = JArr zs" "length zs \<le> length ys" "ys \<noteq> [] \<longrightarrow> zs \<noteq> []"
    "\<forall>i < length zs. pruned (ys ! i) (zs ! i)" by (auto simp: pruned_Arr)
  have "\<forall>i < length zs. pruned (xs ! i) (zs ! i)" using arr.IH zs by auto
  with zs arr.hyps show ?case by (auto simp: pruned_Arr)
next
  case (obj kvs' kvs)
  have len: "length kvs' = length kvs" using obj.hyps by (metis length_map)
  from obj.prems obtain kvs2 where k: "m = JObj kvs2" "map fst kvs2 = map fst kvs'"
    "\<forall>i < length kvs'. pruned (snd (kvs' ! i)) (snd (kvs2 ! i))" by (auto simp: pruned_Obj)
  have "\<forall>i < length kvs. pruned (snd (kvs ! i)) (snd (kvs2 ! i))" using obj.IH k len by auto
  with k obj.hyps show ?case by (auto simp: pruned_Obj)
qed

lemma cut_at_pruned: "pruned j (cut_at p j)"
proof (induction p j rule: cut_at.induct)
  case (1 xs)
  then show ?case by (auto simp: pruned_Arr intro: pruned.same)
next
  case (2 i p xs)
  then show ?case by (auto simp: pruned_Arr nth_list_update intro: pruned.same)
next
  case (3 i p kvs)
  have "map fst (kvs[i := (fst (kvs ! i), x)]) = map fst kvs" for x by (metis fst_conv list_update_id map_update)
  with 3 show ?case by (auto simp: pruned_Obj nth_list_update intro: pruned.same)
qed (auto intro: pruned.same)

lemma bound_loop_pruned: "pruned j (fst (bound_loop n j t))"
proof (induction n j t rule: bound_loop.induct)
  case (1 n out t)
  show ?case
  proof (cases "length (canonical_json out) \<le> n \<or> largest (candidates out) = None")
    case True
    then show ?thesis by (subst bound_loop.simps) (auto intro: pruned.same)
  next
    case False
    then obtain p l where p: "\<not> length (canonical_json out) \<le> n" "largest (candidates out) = Some (p, l)" by auto
    with 1 [OF p(1,2) refl] show ?thesis
      by (subst bound_loop.simps) (auto intro: pruned_trans cut_at_pruned)
  qed
qed

text \<open>It ends because it fits, or because no list can give up an element.\<close>

lemma bound_loop_fits:
  "length (canonical_json (fst (bound_loop n j t))) \<le> n \<or> candidates (fst (bound_loop n j t)) = []"
proof (induction n j t rule: bound_loop.induct)
  case (1 n out t)
  show ?case
  proof (cases "length (canonical_json out) \<le> n \<or> largest (candidates out) = None")
    case True
    then show ?thesis by (subst (1 2) bound_loop.simps) (auto simp: largest_def)
  next
    case False
    then obtain p l where p: "\<not> length (canonical_json out) \<le> n" "largest (candidates out) = Some (p, l)" by auto
    with 1 [OF p(1,2) refl] show ?thesis by (subst (1 2) bound_loop.simps) simp
  qed
qed

lemma bound_loop_flag: "snd (bound_loop n j t) \<longleftrightarrow> t \<or> fst (bound_loop n j t) \<noteq> j"
proof (induction n j t rule: bound_loop.induct)
  case (1 n out t)
  have less: "elems (fst (bound_loop n j t)) \<le> elems j" for j t
  proof (induction n j t rule: bound_loop.induct)
    case (1 n out t)
    show ?case
    proof (cases "length (canonical_json out) \<le> n \<or> largest (candidates out) = None")
      case False
      then obtain p l where p: "\<not> length (canonical_json out) \<le> n" "largest (candidates out) = Some (p, l)" by auto
      with 1 [OF p(1,2) refl] cut_largest [OF p(2)] show ?thesis by (subst bound_loop.simps) simp
    qed (subst bound_loop.simps, auto)
  qed
  show ?case
  proof (cases "length (canonical_json out) \<le> n \<or> largest (candidates out) = None")
    case True
    then show ?thesis by (subst (1 2) bound_loop.simps) auto
  next
    case False
    then obtain p l where p: "\<not> length (canonical_json out) \<le> n" "largest (candidates out) = Some (p, l)" by auto
    from less [of "cut_at p out" True] cut_largest [OF p(2)] have "fst (bound_loop n (cut_at p out) True) \<noteq> out" by auto
    with p 1 [OF p(1,2) refl] show ?thesis by (subst (1 2) bound_loop.simps) simp
  qed
qed

lemma bound_loop_Obj: "\<exists>kvs. fst (bound_loop n (clip_strings (JObj summary)) t) = JObj kvs \<and> map fst kvs = map fst summary"
  using bound_loop_pruned [of "clip_strings (JObj summary)" n t] by (auto simp: pruned_Obj)

text \<open>
  A summary that was not truncated is the one the tool gave, its strings clipped, and fits or has
  no list to cut.
\<close>

lemma bound_untruncated:
  assumes "bound summary n = (out, False)"
  shows "JObj out = clip_strings (JObj summary)" "length (canonical_json (JObj out)) \<le> n \<or> candidates (JObj out) = []"
proof -
  obtain kvs where k: "fst (bound_loop n (clip_strings (JObj summary)) False) = JObj kvs"
    using bound_loop_Obj by blast
  with assms have o: "bound_loop n (clip_strings (JObj summary)) False = (JObj out, False)"
    by (cases "bound_loop n (clip_strings (JObj summary)) False") (auto simp: bound_def split: if_splits)
  with bound_loop_flag [of n "clip_strings (JObj summary)" False] show "JObj out = clip_strings (JObj summary)"
    by simp
  from bound_loop_fits [of n "clip_strings (JObj summary)" False] o
  show "length (canonical_json (JObj out)) \<le> n \<or> candidates (JObj out) = []" by simp
qed

section \<open>What cleaning removes\<close>

primrec no_nul :: "json \<Rightarrow> bool" where
  "no_nul JNull = True"
| "no_nul (JBool b) = True"
| "no_nul (JInt i) = True"
| "no_nul (JFloat t) = True"
| "no_nul (JStr s) = (CHR 0x00 \<notin> set s)"
| "no_nul (JArr xs) = list_all id (map no_nul xs)"
| "no_nul (JObj kvs) = list_all (\<lambda>(k, ok). CHR 0x00 \<notin> set k \<and> ok) (map (map_prod id no_nul) kvs)"

lemma nul_free_clean: "CHR 0x00 \<notin> set (nul_free s)"
proof -
  have "replacement_char \<noteq> CHR 0x00" by code_simp
  then show ?thesis by (auto simp: nul_free_def)
qed

lemma dict_put_all: "list_all P kvs \<Longrightarrow> P (k, v) \<Longrightarrow> list_all P (dict_put k v kvs)"
  by (auto simp: dict_put_def list_all_iff)

lemma dict_of_all: "list_all P kvs \<Longrightarrow> list_all P (dict_of kvs)"
proof -
  have "list_all P acc \<Longrightarrow> list_all P kvs \<Longrightarrow> list_all P (foldl (\<lambda>acc (k, v). dict_put k v acc) acc kvs)" for acc
    by (induction kvs arbitrary: acc) (auto simp: dict_put_all split: prod.splits)
  then show "list_all P kvs \<Longrightarrow> ?thesis" by (simp add: dict_of_def)
qed

lemma dict_put_keys: "distinct (map fst kvs) \<Longrightarrow> distinct (map fst (dict_put k v kvs))"
  by (auto simp: dict_put_def comp_def case_prod_beta)

lemma dict_of_keys: "distinct (map fst (dict_of kvs))"
proof -
  have "distinct (map fst acc) \<Longrightarrow> distinct (map fst (foldl (\<lambda>acc (k, v). dict_put k v acc) acc kvs))" for acc
    by (induction kvs arbitrary: acc) (auto simp: dict_put_keys split: prod.splits)
  then show ?thesis by (simp add: dict_of_def)
qed

lemma without_nul_clean: "no_nul (without_nul j)"
proof (induction j)
  case (JArr xs)
  then show ?case by (simp add: list_all_iff)
next
  case (JObj kvs)
  have "list_all (\<lambda>(k, v). CHR 0x00 \<notin> set k \<and> no_nul v) (map (map_prod nul_free without_nul) kvs)"
    using JObj by (fastforce simp: list_all_iff nul_free_clean)
  from dict_of_all [OF this] show ?case by (auto simp: list_all_iff)
qed (simp_all add: nul_free_clean)

text \<open>
  The flag is added after the loop, so a summary that was cut to fit can be longer than
  \<open>max_chars\<close> in the end.
\<close>

lemma bound_flag_does_not_fit:
  "bound [(''a'', JArr [JInt 1, JInt 2])] 9 = ([(''a'', JArr [JInt 1]), (''truncated'', JBool True)], True) \<and>
   9 < length (canonical_json (JObj [(''a'', JArr [JInt 1]), (''truncated'', JBool True)]))"
  by code_simp

end
