(* ===== verification/Tools.thy ===== *)
theory Tools
  imports Compress Schema
begin

text \<open>
  The tool layer (\<open>app/tools/base.py\<close>, \<open>registry.py\<close>, \<open>evidence.py\<close>): one call is
  validated, fetched, checked for size, summarized, stored and logged. A tool's argument model
  (pydantic) and its \<open>summarize\<close> are fields of the tool; a source is a state-passing function
  with a state of its own. Latencies, spans and metrics are not modelled.
\<close>

type_synonym obj = "(string \<times> json) list"

record tool_error =
  te_code :: string
  te_message :: string
  te_retryable :: bool
  te_attempts :: nat

definition ToolError :: "string \<Rightarrow> string \<Rightarrow> bool \<Rightarrow> tool_error" where
  "ToolError code message retryable = \<lparr>te_code = code, te_message = message, te_retryable = retryable, te_attempts = 1\<rparr>"

definition tool_error_json :: "tool_error \<Rightarrow> json" where
  "tool_error_json e =
     JObj [(''code'', JStr (te_code e)), (''message'', JStr (te_message e)), (''retryable'', JBool (te_retryable e))]"

text \<open>
  \<open>tl_validate\<close> is \<open>args.model_validate\<close>: the problems as (location, message), or the dumped
  arguments. \<open>tl_summarize\<close> ends in a summary or in one of the two kinds of exception \<open>_run\<close>
  expects: an answer of another shape (\<open>KeyError\<close>, \<open>TypeError\<close>, \<open>ValueError\<close>,
  \<open>IndexError\<close>, by its \<open>repr\<close>), or a \<open>ToolError\<close> of the tool's own.
\<close>

datatype summary_error = BadShape string | Refused tool_error

record tool =
  tl_name :: string
  tl_description :: string
  tl_schema :: obj
  tl_backend :: string
  tl_validate :: "obj \<Rightarrow> (string \<times> string) list + obj"
  tl_summarize :: "json \<Rightarrow> obj \<Rightarrow> summary_error + obj"
  tl_timeout_s :: duration
  tl_max_result_bytes :: nat

definition tool_spec :: "tool \<Rightarrow> json" where
  "tool_spec t = JObj [(''name'', JStr (tl_name t)), (''description'', JStr (tl_description t)),
     (''input_schema'', JObj (filter (\<lambda>kv. fst kv \<noteq> ''title'') (tl_schema t)))]"

record tool_context =
  tc_tenant :: string
  tc_incident :: "string option"
  tc_agent :: "string option"
  tc_scope :: "string option"

definition evidence_scope :: "tool_context \<Rightarrow> string" where
  "evidence_scope ctx =
     (let default = tc_tenant ctx @ ''/'' @ (case tc_incident ctx of None \<Rightarrow> ''adhoc'' | Some i \<Rightarrow> i)
      in case tc_scope ctx of None \<Rightarrow> default | Some s \<Rightarrow> if s = '''' then default else s)"

record tool_outcome =
  to_tool :: string
  to_args :: obj
  to_evidence_id :: "string option"
  to_summary :: "obj option"
  to_error :: "tool_error option"
  to_attempts :: nat
  to_fetched_at :: "time option"

definition outcome_ok :: "tool_outcome \<Rightarrow> bool" where
  "outcome_ok oc \<longleftrightarrow> to_error oc = None"

definition for_model :: "tool_outcome \<Rightarrow> string" where
  "for_model oc = canonical_json (JObj
     (case to_error oc of
        Some e \<Rightarrow> [(''tool'', JStr (to_tool oc)), (''error'', tool_error_json e)]
      | None \<Rightarrow> [(''tool'', JStr (to_tool oc)), (''evidence_id'', jopt JStr (to_evidence_id oc)),
                 (''summary'', jopt JObj (to_summary oc))]))"

record fetched =
  fe_raw :: json
  fe_fetched_at :: time
  fe_attempts :: nat
  fe_source :: string

text \<open>\<open>fetch(tool, args, agent, tenant)\<close>\<close>

type_synonym 's source = "tool \<Rightarrow> obj \<Rightarrow> string option \<Rightarrow> string \<Rightarrow> 's \<Rightarrow> (tool_error + fetched) \<times> 's"

section \<open>Evidence\<close>

definition evidence_id :: "(string \<Rightarrow> string) \<Rightarrow> string \<Rightarrow> string \<Rightarrow> obj \<Rightarrow> string \<Rightarrow> string" where
  "evidence_id sha scope name args result_hash =
     ''ev_'' @ take 16 (sha (canonical_json (JArr [JStr scope, JStr name, JObj args, JStr result_hash])))"

record call_record =
  cr_tenant :: string
  cr_incident :: "string option"
  cr_agent :: "string option"
  cr_tool :: string
  cr_args :: obj
  cr_ok :: bool
  cr_error_code :: "string option"
  cr_error :: "string option"
  cr_attempts :: nat
  cr_evidence_id :: "string option"

definition call_row :: "nat \<Rightarrow> call_record \<Rightarrow> tool_call_row" where
  "call_row k c = \<lparr>t_id = k, t_tenant = cr_tenant c, t_incident = cr_incident c, t_agent = cr_agent c, t_tool = cr_tool c,
     t_args = cr_args c, t_ok = cr_ok c, t_error_code = cr_error_code c, t_error = cr_error c,
     t_attempts = cr_attempts c, t_evidence = cr_evidence_id c\<rparr>"

text \<open>\<open>PgEvidenceStore.save\<close>: one transaction, \<open>ON CONFLICT (id) DO NOTHING\<close>.\<close>

definition insert_evidence :: "evidence_row \<Rightarrow> evidence_row list \<Rightarrow> evidence_row list" where
  "insert_evidence e rows = (if e_id e \<in> set (map e_id rows) then rows else rows @ [e])"

definition evidence_save :: "evidence_row option \<Rightarrow> call_record \<Rightarrow> db \<Rightarrow> db" where
  "evidence_save ev c d =
     d\<lparr>evidence := (case ev of None \<Rightarrow> evidence d | Some e \<Rightarrow> insert_evidence e (evidence d)),
       tool_calls := tool_calls d @ [call_row (next_id (map t_id (tool_calls d))) c]\<rparr>"

definition evidence_load :: "db \<Rightarrow> string \<Rightarrow> string \<Rightarrow> evidence_row option" where
  "evidence_load d ev tenant = find (\<lambda>e. e_id e = ev \<and> e_tenant e = tenant) (evidence d)"

section \<open>The registry\<close>

record registry =
  rg_tools :: "tool list"
  rg_max_summary_chars :: nat

text \<open>\<open>{t.name: t for t in tools}\<close>: the last tool of a name.\<close>

definition registry_tool :: "registry \<Rightarrow> string \<Rightarrow> tool_error + tool" where
  "registry_tool rg name =
     (case find (\<lambda>t. tl_name t = name) (rev (rg_tools rg)) of
        Some t \<Rightarrow> Inr t
      | None \<Rightarrow> Inl (ToolError ''unknown_tool''
          (''no tool named '' @ py_repr name @ ''; available: '' @ join '', '' (sorted_set (map tl_name (rg_tools rg)))) False))"

definition problem_text :: "string \<times> string \<Rightarrow> string" where
  "problem_text p = (if fst p = '''' then ''(args)'' else fst p) @ '': '' @ snd p"

definition validate_args :: "tool \<Rightarrow> obj \<Rightarrow> tool_error + obj" where
  "validate_args t raw =
     (case tl_validate t raw of
        Inr args \<Rightarrow> Inr args
      | Inl errors \<Rightarrow> Inl (ToolError ''invalid_args'' (tl_name t @ '': '' @ join ''; '' (map problem_text (take 5 errors))) False))"

text \<open>The length of \<open>s.encode()\<close>; the two characters above U+00FF take three bytes.\<close>

definition char_bytes :: "char \<Rightarrow> nat" where
  "char_bytes c = (if c = ellipsis \<or> c = replacement_char then 3 else if of_char c < (128 :: nat) then 1 else 2)"

definition utf8_length :: "string \<Rightarrow> nat" where
  "utf8_length s = sum_list (map char_bytes s)"

text \<open>\<open>_run\<close> from the fetched answer on: the evidence, or the error raised.\<close>

definition process :: "(string \<Rightarrow> string) \<Rightarrow> registry \<Rightarrow> tool \<Rightarrow> obj \<Rightarrow> tool_context \<Rightarrow> fetched \<Rightarrow> tool_error + evidence_row" where
  "process sha rg t args ctx f =
     (let raw = without_nul (fe_raw f); raw_json = canonical_json raw; size = utf8_length raw_json
      in if tl_max_result_bytes t < size
         then Inl (ToolError ''too_large''
           (''the result is '' @ dec (size div 1024) @ '' KiB, over the '' @ dec (tl_max_result_bytes t div 1024) @
            '' KiB limit; narrow the query (fewer series, a shorter window, a more specific filter)'') False)
         else case tl_summarize t raw args of
           Inl (BadShape e) \<Rightarrow> Inl (ToolError ''backend_error'' (''unexpected response shape from '' @ tl_backend t @ '': '' @ e) False)
         | Inl (Refused e) \<Rightarrow> Inl e
         | Inr s \<Rightarrow>
             (let (summary, truncated) = bound s (rg_max_summary_chars rg); result_hash = sha raw_json
              in Inr \<lparr>e_id = evidence_id sha (evidence_scope ctx) (tl_name t) args result_hash,
                      e_tenant = tc_tenant ctx, e_incident = tc_incident ctx, e_tool = tl_name t, e_args = args,
                      e_result = raw, e_result_hash = result_hash, e_result_bytes = size, e_summary = JObj summary,
                      e_truncated = truncated, e_source = fe_source f, e_fetched_at = fe_fetched_at f\<rparr>))"

definition summary_items :: "json \<Rightarrow> obj" where
  "summary_items j = (case j of JObj kvs \<Rightarrow> kvs | _ \<Rightarrow> [])"

text \<open>\<open>_call\<close> up to the save: the outcome, the evidence to store, the source's new state.\<close>

definition attempt_call ::
    "(string \<Rightarrow> string) \<Rightarrow> registry \<Rightarrow> 's source \<Rightarrow> string \<Rightarrow> obj \<Rightarrow> tool_context \<Rightarrow> 's \<Rightarrow> (tool_outcome \<times> evidence_row option) \<times> 's" where
  "attempt_call sha rg fetch name raw_args ctx s =
     (let o0 = \<lparr>to_tool = name, to_args = raw_args, to_evidence_id = None, to_summary = None, to_error = None,
                to_attempts = 1, to_fetched_at = None\<rparr>;
          failed = (\<lambda>oc e. (oc\<lparr>to_error := Some e, to_attempts := te_attempts e\<rparr>, None))
      in case registry_tool rg name of
           Inl e \<Rightarrow> (failed o0 e, s)
         | Inr t \<Rightarrow>
         (case validate_args t raw_args of
            Inl e \<Rightarrow> (failed o0 e, s)
          | Inr args \<Rightarrow>
              (case fetch t args (tc_agent ctx) (tc_tenant ctx) s of
                 (Inl e, s') \<Rightarrow> (failed (o0\<lparr>to_args := args\<rparr>) e, s')
               | (Inr f, s') \<Rightarrow>
                   (let o1 = o0\<lparr>to_args := args, to_attempts := fe_attempts f, to_fetched_at := Some (fe_fetched_at f)\<rparr>
                    in case process sha rg t args ctx f of
                         Inl e \<Rightarrow> (failed o1 e, s')
                       | Inr ev \<Rightarrow> ((o1\<lparr>to_evidence_id := Some (e_id ev), to_summary := Some (summary_items (e_summary ev))\<rparr>,
                                    Some ev), s')))))"

definition record_of :: "tool_context \<Rightarrow> string \<Rightarrow> tool_outcome \<Rightarrow> call_record" where
  "record_of ctx name oc = \<lparr>cr_tenant = tc_tenant ctx, cr_incident = tc_incident ctx, cr_agent = tc_agent ctx, cr_tool = name,
     cr_args = to_args oc, cr_ok = outcome_ok oc, cr_error_code = map_option te_code (to_error oc),
     cr_error = map_option te_message (to_error oc), cr_attempts = to_attempts oc, cr_evidence_id = to_evidence_id oc\<rparr>"

text \<open>What other transactions commit while the source is asked is \<open>others\<close>.\<close>

definition registry_call ::
    "(string \<Rightarrow> string) \<Rightarrow> registry \<Rightarrow> 's source \<Rightarrow> (db \<Rightarrow> db) \<Rightarrow> string \<Rightarrow> obj \<Rightarrow> tool_context \<Rightarrow> 's \<Rightarrow> db \<Rightarrow> tool_outcome \<times> 's \<times> db" where
  "registry_call sha rg fetch others name raw_args ctx s d =
     (let ((oc, ev), s') = attempt_call sha rg fetch name raw_args ctx s
      in (oc, s', evidence_save ev (record_of ctx name oc) (others d)))"

section \<open>What a call leaves\<close>

lemma attempt_call_cases:
  assumes "attempt_call sha rg fetch name raw ctx s = ((oc, ev), s')"
  obtains e where "to_error oc = Some e" "ev = None" "to_evidence_id oc = None" "to_tool oc = name"
  | t args f row where "registry_tool rg name = Inr t" "validate_args t raw = Inr args"
      "fetch t args (tc_agent ctx) (tc_tenant ctx) s = (Inr f, s')" "process sha rg t args ctx f = Inr row"
      "ev = Some row" "to_error oc = None" "to_evidence_id oc = Some (e_id row)" "to_tool oc = name" "to_args oc = args"
      "to_summary oc = Some (summary_items (e_summary row))"
  using assms
  by (auto simp: attempt_call_def Let_def split: sum.splits prod.splits)

lemma process_Inr:
  assumes "process sha rg t args ctx f = Inr row"
  shows "e_id row = evidence_id sha (evidence_scope ctx) (tl_name t) args (e_result_hash row)"
    "e_result_hash row = sha (canonical_json (e_result row))" "e_tenant row = tc_tenant ctx" "e_incident row = tc_incident ctx"
    "e_tool row = tl_name t" "e_args row = args" "no_nul (e_result row)"
    "utf8_length (canonical_json (e_result row)) \<le> tl_max_result_bytes t"
  using assms
  by (auto simp: process_def Let_def without_nul_clean split: if_splits sum.splits prod.splits summary_error.splits)

lemma registry_tool_name: "registry_tool rg name = Inr t \<Longrightarrow> tl_name t = name \<and> t \<in> set (rg_tools rg)"
  by (auto simp: registry_tool_def dest!: find_in_set split: option.splits)

lemma insert_evidence_has: "e_id e \<in> set (map e_id (insert_evidence e rows))"
  by (simp add: insert_evidence_def)

lemma insert_evidence_distinct: "distinct (map e_id rows) \<Longrightarrow> distinct (map e_id (insert_evidence e rows))"
  by (auto simp: insert_evidence_def)

lemma insert_evidence_old: "\<exists>new. insert_evidence e rows = rows @ new"
  by (auto simp: insert_evidence_def)

text \<open>
  Every call ends in an outcome and exactly one row of the log; evidence is only added, by a call
  that succeeded.
\<close>

lemma registry_call_logs:
  assumes "registry_call sha rg fetch others name raw ctx s d = (oc, s', d')"
  shows "\<exists>row. tool_calls d' = tool_calls (others d) @ [row] \<and> t_tool row = name \<and> t_tenant row = tc_tenant ctx \<and>
      t_incident row = tc_incident ctx \<and> (t_ok row \<longleftrightarrow> outcome_ok oc) \<and> t_evidence row = to_evidence_id oc \<and>
      t_error_code row = map_option te_code (to_error oc)"
  using assms by (auto simp: registry_call_def evidence_save_def call_row_def record_of_def split: prod.splits)

lemma registry_call_evidence:
  assumes "registry_call sha rg fetch others name raw ctx s d = (oc, s', d')"
  shows "if outcome_ok oc
    then \<exists>row. evidence d' = insert_evidence row (evidence (others d)) \<and> to_evidence_id oc = Some (e_id row) \<and>
           e_tool row = name \<and> e_tenant row = tc_tenant ctx \<and> e_incident row = tc_incident ctx \<and>
           e_id row = evidence_id sha (evidence_scope ctx) name (e_args row) (e_result_hash row) \<and>
           e_result_hash row = sha (canonical_json (e_result row)) \<and> no_nul (e_result row)
    else evidence d' = evidence (others d) \<and> to_evidence_id oc = None"
proof -
  obtain ev where a: "attempt_call sha rg fetch name raw ctx s = ((oc, ev), s')"
    and d': "d' = evidence_save ev (record_of ctx name oc) (others d)"
    using assms by (auto simp: registry_call_def split: prod.splits)
  from a show ?thesis
  proof (cases rule: attempt_call_cases)
    case (1 e)
    with d' show ?thesis by (simp add: outcome_ok_def evidence_save_def)
  next
    case (2 t args f row)
    with d' registry_tool_name [OF 2(1)] process_Inr [OF 2(4)] show ?thesis
      by (auto simp: outcome_ok_def evidence_save_def)
  qed
qed

text \<open>
  The id says what the evidence is: two calls share it only if scope, tool, arguments and the
  hash of the answer agree, or the shortened hash collides on these very texts.
\<close>

definition evidence_text :: "string \<Rightarrow> string \<Rightarrow> obj \<Rightarrow> string \<Rightarrow> string" where
  "evidence_text scope name args h = canonical_json (JArr [JStr scope, JStr name, JObj args, JStr h])"

lemma evidence_id_pins:
  assumes "evidence_id sha scope name args h = evidence_id sha scope' name' args' h'"
    and "wf_json (JObj args)" "wf_json (JObj args')"
  shows "(scope = scope' \<and> name = name' \<and> normal (JObj args) = normal (JObj args') \<and> h = h') \<or>
    collision (\<lambda>t. take 16 (sha t)) (evidence_text scope name args h) (evidence_text scope' name' args' h')"
proof -
  let ?j = "\<lambda>scope name args h. JArr [JStr scope, JStr name, JObj args, JStr h]"
  have "normal (?j scope name args h) = normal (?j scope' name' args' h') \<or>
    collision (\<lambda>t. take 16 (sha t)) (evidence_text scope name args h) (evidence_text scope' name' args' h')"
    using same_hash_same_data [of "\<lambda>t. take 16 (sha t)" "?j scope name args h" "?j scope' name' args' h'"] assms
    by (simp add: evidence_id_def evidence_text_def)
  then show ?thesis by auto
qed

end
