(* ===== verification/Sources.thy ===== *)
theory Sources
  imports Tools
begin

text \<open>
  Where raw answers come from (\<open>app/tools/sources.py\<close>): the live backends behind a circuit
  breaker and retries, a recording of them, and the replay of a recording. Files and gzip are
  left out: a cassette is its list of entries. The monotonic clock is a parameter.
\<close>

section \<open>The circuit breaker\<close>

record breaker =
  br_threshold :: nat
  br_cooldown_s :: rat
  br_failures :: nat
  br_opened_at :: "rat option"

definition new_breaker :: breaker where
  "new_breaker = \<lparr>br_threshold = 5, br_cooldown_s = 30, br_failures = 0, br_opened_at = None\<rparr>"

definition breaker_check :: "rat \<Rightarrow> string \<Rightarrow> breaker \<Rightarrow> tool_error + breaker" where
  "breaker_check now backend b =
     (case br_opened_at b of
        None \<Rightarrow> Inr b
      | Some t \<Rightarrow>
          if now - t < br_cooldown_s b
          then Inl (ToolError ''circuit_open'' (backend @ '' failed '' @ dec (br_failures b) @
            '' times in a row; skipped for now. Use another data source.'') True)
          else Inr (b\<lparr>br_opened_at := None\<rparr>))"

definition breaker_record :: "rat \<Rightarrow> bool \<Rightarrow> breaker \<Rightarrow> breaker" where
  "breaker_record now ok b =
     (if ok then b\<lparr>br_failures := 0, br_opened_at := None\<rparr>
      else (let n = br_failures b + 1
            in b\<lparr>br_failures := n, br_opened_at := (if br_threshold b \<le> n then Some now else br_opened_at b)\<rparr>))"

section \<open>Live\<close>

text \<open>How one attempt at a backend ends.\<close>

datatype answer = TimedOut | Raised tool_error | Answered json

type_synonym breakers = "string \<Rightarrow> breaker"

text \<open>
  What the attempts of one call meet, by their number: the answer, the clocks before and after,
  what other calls do to the breakers before the check and while the backend is asked.
\<close>

record weather =
  wx_answer :: "nat \<Rightarrow> answer"
  wx_now :: "nat \<Rightarrow> time"
  wx_before :: "nat \<Rightarrow> rat"
  wx_after :: "nat \<Rightarrow> rat"
  wx_others :: "nat \<Rightarrow> breakers \<Rightarrow> breakers"
  wx_meanwhile :: "nat \<Rightarrow> breakers \<Rightarrow> breakers"

definition timeout_error :: "tool \<Rightarrow> tool_error" where
  "timeout_error t = ToolError ''timeout'' (tl_name t @ '' took longer than '' @ fmt_fixed 0 (tl_timeout_s t) @ ''s'') True"

text \<open>The \<open>while True\<close> of \<open>LiveSource.fetch\<close> after \<open>n\<close> attempts.\<close>

function live_loop :: "weather \<Rightarrow> nat \<Rightarrow> tool \<Rightarrow> nat \<Rightarrow> breakers \<Rightarrow> (tool_error + fetched) \<times> breakers" where
  "live_loop wx retries t n bs =
     (let k = tl_backend t; attempt = Suc n; bs1 = wx_others wx attempt bs
      in case breaker_check (wx_before wx attempt) k (bs1 k) of
           Inl e \<Rightarrow> (Inl e, bs1)
         | Inr b \<Rightarrow>
             (let bs2 = wx_meanwhile wx attempt (bs1(k := b)); asked = wx_now wx attempt;
                  record = (\<lambda>ok. bs2(k := breaker_record (wx_after wx attempt) ok (bs2 k)));
                  failed = (\<lambda>e. let bs3 = (if te_retryable e then record False else bs2)
                    in if \<not> te_retryable e \<or> retries < attempt then (Inl (e\<lparr>te_attempts := attempt\<rparr>), bs3)
                       else live_loop wx retries t attempt bs3)
              in case wx_answer wx attempt of
                   Answered raw \<Rightarrow>
                     (Inr \<lparr>fe_raw = raw, fe_fetched_at = asked, fe_attempts = attempt, fe_source = ''live''\<rparr>, record True)
                 | TimedOut \<Rightarrow> failed (timeout_error t)
                 | Raised e \<Rightarrow> failed e))"
  by pat_completeness auto
termination
  by (relation "measure (\<lambda>(wx, retries, t, n, bs). Suc retries - n)") auto

declare live_loop.simps [simp del]

definition RETRIES :: nat where
  "RETRIES = 2"

definition live_fetch :: "weather \<Rightarrow> tool \<Rightarrow> obj \<Rightarrow> string option \<Rightarrow> string \<Rightarrow> breakers \<Rightarrow> (tool_error + fetched) \<times> breakers" where
  "live_fetch wx t args agent tenant bs = live_loop wx RETRIES t 0 bs"

section \<open>Recording and replay\<close>

record entry =
  en_incident :: "string option"
  en_agent :: "string option"
  en_tool :: string
  en_args :: obj
  en_at :: time
  en_result :: "(string \<times> string) + json"

definition cassette_key :: "string \<Rightarrow> obj \<Rightarrow> string" where
  "cassette_key name args = canonical_json (JArr [JStr name, JObj args])"

definition agent_key :: "string \<Rightarrow> string \<Rightarrow> obj \<Rightarrow> string" where
  "agent_key agent name args = canonical_json (JArr [JStr agent, JStr name, JObj args])"

text \<open>The clock an error is recorded with is a parameter.\<close>

definition recording_fetch :: "time \<Rightarrow> 's source \<Rightarrow> ('s \<times> entry list) source" where
  "recording_fetch now live t args agent tenant st =
     (let (s, entries) = st; (got, s') = live t args agent tenant s;
          entry = \<lparr>en_incident = None, en_agent = agent, en_tool = tl_name t, en_args = args,
                   en_at = (case got of Inl e \<Rightarrow> now | Inr f \<Rightarrow> fe_fetched_at f),
                   en_result = (case got of Inl e \<Rightarrow> Inl (te_code e, te_message e) | Inr f \<Rightarrow> Inr (fe_raw f))\<rparr>
      in (got, (s', entries @ [entry])))"

record replay_state =
  rp_queues :: "string \<Rightarrow> entry list"
  rp_last :: "string \<Rightarrow> entry option"

definition enqueue_entry :: "entry \<Rightarrow> replay_state \<Rightarrow> replay_state" where
  "enqueue_entry e st =
     (let push = (\<lambda>k q. q(k := q k @ [e])); q = push (cassette_key (en_tool e) (en_args e)) (rp_queues st)
      in st\<lparr>rp_queues := (case en_agent e of None \<Rightarrow> q | Some a \<Rightarrow> push (agent_key a (en_tool e) (en_args e)) q)\<rparr>)"

definition replay_init :: "entry list \<Rightarrow> replay_state" where
  "replay_init entries = foldl (\<lambda>st e. enqueue_entry e st) \<lparr>rp_queues = (\<lambda>k. []), rp_last = (\<lambda>k. None)\<rparr> entries"

definition take_entry :: "string \<Rightarrow> replay_state \<Rightarrow> entry option \<times> replay_state" where
  "take_entry k st =
     (case rp_queues st k of
        e # q \<Rightarrow> (Some e, st\<lparr>rp_queues := (rp_queues st)(k := q), rp_last := (rp_last st)(k := Some e)\<rparr>)
      | [] \<Rightarrow> (rp_last st k, st))"

text \<open>Python's \<open>repr\<close> of dumped data.\<close>

primrec json_repr :: "json \<Rightarrow> string" where
  "json_repr JNull = ''None''"
| "json_repr (JBool b) = (if b then ''True'' else ''False'')"
| "json_repr (JInt i) = dec_int i"
| "json_repr (JFloat t) = t"
| "json_repr (JStr s) = py_repr s"
| "json_repr (JArr xs) = ''['' @ join '', '' (map json_repr xs) @ '']''"
| "json_repr (JObj kvs) = ''{'' @ join '', '' (map (\<lambda>(k, t). py_repr k @ '': '' @ t) (map (map_prod id json_repr) kvs)) @ ''}''"

definition entry_result :: "entry \<Rightarrow> tool_error + fetched" where
  "entry_result e =
     (case en_result e of
        Inl (code, message) \<Rightarrow> Inl (ToolError code message False)
      | Inr raw \<Rightarrow> Inr \<lparr>fe_raw = raw, fe_fetched_at = en_at e, fe_attempts = 1, fe_source = ''replay''\<rparr>)"

definition replay_fetch :: "replay_state source" where
  "replay_fetch t args agent tenant st =
     (let (e1, st1) = (case agent of None \<Rightarrow> (None, st) | Some a \<Rightarrow> take_entry (agent_key a (tl_name t) args) st);
          (e2, st2) = (case e1 of None \<Rightarrow> take_entry (cassette_key (tl_name t) args) st1 | Some e \<Rightarrow> (Some e, st1))
      in case e2 of
           None \<Rightarrow> (Inl (ToolError ''replay_miss'' (''no recorded answer for '' @ tl_name t @ '' '' @ json_repr (JObj args)) False), st2)
         | Some e \<Rightarrow> (entry_result e, st2))"

section \<open>The breaker's behaviour\<close>

definition breaker_ok :: "breaker \<Rightarrow> bool" where
  "breaker_ok b \<longleftrightarrow> (br_opened_at b \<noteq> None \<longrightarrow> br_threshold b \<le> br_failures b)"

lemma breaker_check_ok: "breaker_check now k b = Inr b' \<Longrightarrow> breaker_ok b \<Longrightarrow> breaker_ok b'"
  by (auto simp: breaker_check_def breaker_ok_def split: option.splits if_splits)

lemma breaker_record_ok: "breaker_ok b \<Longrightarrow> breaker_ok (breaker_record now ok b)"
  by (auto simp: breaker_record_def breaker_ok_def Let_def)

lemma new_breaker_ok: "breaker_ok new_breaker"
  by (simp add: breaker_ok_def new_breaker_def)

text \<open>Open means failing fast, with an error that says so, until the cooldown is over.\<close>

lemma breaker_check_Inl:
  "(\<exists>e. breaker_check now k b = Inl e) \<longleftrightarrow> (\<exists>t. br_opened_at b = Some t \<and> now - t < br_cooldown_s b)"
  by (auto simp: breaker_check_def split: option.splits)

lemma breaker_check_code: "breaker_check now k b = Inl e \<Longrightarrow> te_code e = ''circuit_open'' \<and> te_retryable e \<and> te_attempts e = 1"
  by (auto simp: breaker_check_def ToolError_def split: option.splits if_splits)

text \<open>\<open>n\<close> failures in a row open it exactly from the threshold on.\<close>

fun failures_from :: "(nat \<Rightarrow> rat) \<Rightarrow> nat \<Rightarrow> breaker \<Rightarrow> breaker" where
  "failures_from clock 0 b = b"
| "failures_from clock (Suc n) b = breaker_record (clock n) False (failures_from clock n b)"

lemma failures_from_state:
  "br_failures (failures_from clock n b) = br_failures b + n \<and> br_threshold (failures_from clock n b) = br_threshold b \<and>
   br_cooldown_s (failures_from clock n b) = br_cooldown_s b"
  by (induction n) (auto simp: breaker_record_def Let_def)

lemma failures_open:
  assumes "br_failures b = 0" "br_opened_at b = None" "0 < br_threshold b"
  shows "br_opened_at (failures_from clock n b) \<noteq> None \<longleftrightarrow> br_threshold b \<le> n"
proof (induction n)
  case (Suc n)
  then show ?case using failures_from_state [of clock n b] assms by (auto simp: breaker_record_def Let_def)
qed (use assms in simp)

text \<open>
  Once the cooldown is over the check closes the breaker, so it lets every call through until one
  of them has failed, not one call.
\<close>

lemma half_open_lets_all:
  assumes "breaker_check now k b = Inr b'"
  shows "breaker_check now' k b' = Inr b'"
  using assms by (auto simp: breaker_check_def split: option.splits if_splits)

text \<open>And one failure after it opens it again: the count is not reset.\<close>

lemma half_open_failure:
  assumes "breaker_check now k b = Inr b'" "br_opened_at b \<noteq> None" "breaker_ok b"
  shows "br_opened_at (breaker_record t False b') = Some t"
  using assms by (auto simp: breaker_check_def breaker_record_def breaker_ok_def Let_def split: option.splits if_splits)

section \<open>The live source's behaviour\<close>

text \<open>At most \<open>retries + 1\<close> attempts, counted in what comes back.\<close>

lemma live_loop_attempts:
  "n \<le> retries \<Longrightarrow>
    (case fst (live_loop wx retries t n bs) of
       Inl e \<Rightarrow> te_attempts e \<le> Suc retries | Inr f \<Rightarrow> n < fe_attempts f \<and> fe_attempts f \<le> Suc retries)"
proof (induction wx retries t n bs rule: live_loop.induct)
  case (1 wx retries t n bs)
  let ?bs1 = "wx_others wx (Suc n) bs"
  show ?case
  proof (cases "breaker_check (wx_before wx (Suc n)) (tl_backend t) (?bs1 (tl_backend t))")
    case (Inl e)
    then show ?thesis using breaker_check_code by (subst live_loop.simps) (auto simp: Let_def)
  next
    case (Inr b)
    let ?bs2 = "wx_meanwhile wx (Suc n) (?bs1(tl_backend t := b))"
    let ?rec = "\<lambda>ok. ?bs2(tl_backend t := breaker_record (wx_after wx (Suc n)) ok (?bs2 (tl_backend t)))"
    show ?thesis
    proof (cases "Suc n \<le> retries")
      case False
      with Inr 1(2) show ?thesis by (subst live_loop.simps) (auto simp: Let_def split: answer.splits)
    next
      case True
      have IH: "case fst (live_loop wx retries t (Suc n) bs3) of
          Inl e \<Rightarrow> te_attempts e \<le> Suc retries | Inr f \<Rightarrow> n < fe_attempts f \<and> fe_attempts f \<le> Suc retries"
        if "te_retryable e" "bs3 = ?rec False" for e :: tool_error and bs3
        using 1(1) [OF refl refl refl Inr refl refl refl refl, of e] that True by (fastforce split: sum.splits)
      show ?thesis
        by (subst live_loop.simps) (use Inr True IH in \<open>auto simp: Let_def split: answer.splits\<close>)
    qed
  qed
qed

lemma live_fetch_attempts:
  "case fst (live_fetch wx t args agent tenant bs) of Inl e \<Rightarrow> te_attempts e \<le> 3 | Inr f \<Rightarrow> 0 < fe_attempts f \<and> fe_attempts f \<le> 3"
  using live_loop_attempts [of 0 RETRIES wx t bs] by (simp add: live_fetch_def RETRIES_def numeral_3_eq_3 split: sum.splits)

text \<open>While the breaker is open the backend is not asked: the answers do not matter.\<close>

lemma live_fetch_open:
  assumes "br_opened_at (wx_others wx 1 bs (tl_backend t)) = Some opened"
    and "wx_before wx 1 - opened < br_cooldown_s (wx_others wx 1 bs (tl_backend t))"
  shows "\<exists>e. live_fetch wx t args agent tenant bs = (Inl e, wx_others wx 1 bs) \<and> te_code e = ''circuit_open''"
  using assms by (simp add: live_fetch_def live_loop.simps [of wx RETRIES t 0 bs] Let_def breaker_check_def ToolError_def)

section \<open>A replay gives back what was recorded\<close>

lemma agent_key_neq_cassette_key: "agent_key a n args \<noteq> cassette_key n' args'"
proof
  assume eq: "agent_key a n args = cassette_key n' args'"
  then have "quoted a @ '','' @ quoted n @ '','' @ canonical_json (JObj args) @ '']'' =
      quoted n' @ '','' @ canonical_json (JObj args') @ '']''"
    by (simp add: agent_key_def cassette_key_def)
  then have "'','' @ quoted n @ '','' @ canonical_json (JObj args) @ '']'' = '','' @ canonical_json (JObj args') @ '']''"
    by (blast dest: quoted_unique)
  then show False by (simp add: quoted_def)
qed

definition entry_agent_key :: "entry \<Rightarrow> string option" where
  "entry_agent_key e = map_option (\<lambda>a. agent_key a (en_tool e) (en_args e)) (en_agent e)"

lemma replay_init_queue:
  assumes "\<And>n args. k \<noteq> cassette_key n args"
  shows "rp_queues (replay_init es) k = filter (\<lambda>e. entry_agent_key e = Some k) es"
proof -
  have "rp_queues (foldl (\<lambda>st e. enqueue_entry e st) st es) k =
      rp_queues st k @ filter (\<lambda>e. entry_agent_key e = Some k) es" for st
    using assms
    by (induction es arbitrary: st) (auto simp: enqueue_entry_def entry_agent_key_def Let_def split: option.splits)
  then show ?thesis by (simp add: replay_init_def)
qed

text \<open>A call of an agent, and a run of calls against a source.\<close>

record tool_call =
  ca_agent :: string
  ca_tool :: tool
  ca_args :: obj
  ca_tenant :: string

definition call_key :: "tool_call \<Rightarrow> string" where
  "call_key c = agent_key (ca_agent c) (tl_name (ca_tool c)) (ca_args c)"

fun run_calls :: "'s source \<Rightarrow> tool_call list \<Rightarrow> 's \<Rightarrow> (tool_error + fetched) list \<times> 's" where
  "run_calls src [] s = ([], s)"
| "run_calls src (c # cs) s =
     (let (got, s1) = src (ca_tool c) (ca_args c) (Some (ca_agent c)) (ca_tenant c) s; (rest, s2) = run_calls src cs s1
      in (got # rest, s2))"

lemma run_calls_length [simp]: "length (fst (run_calls src cs s)) = length cs"
  by (induction cs arbitrary: s) (auto simp: Let_def case_prod_beta)

text \<open>The answers to the calls of one key, in order.\<close>

definition answers_to :: "string \<Rightarrow> tool_call list \<Rightarrow> 'a list \<Rightarrow> 'a list" where
  "answers_to k cs rs = map snd (filter (\<lambda>(c, r). call_key c = k) (zip cs rs))"

lemma answers_to_simps [simp]:
  "answers_to k [] rs = []"
  "answers_to k (c # cs) (r # rs) = (if call_key c = k then r # answers_to k cs rs else answers_to k cs rs)"
  by (simp_all add: answers_to_def)

lemma replay_fetch_queue:
  assumes "rp_queues st (call_key c) = e # q"
  shows "replay_fetch (ca_tool c) (ca_args c) (Some (ca_agent c)) (ca_tenant c) st =
    (entry_result e, st\<lparr>rp_queues := (rp_queues st)(call_key c := q), rp_last := (rp_last st)(call_key c := Some e)\<rparr>)"
  using assms by (simp add: replay_fetch_def take_entry_def call_key_def)

lemma run_calls_replay:
  assumes "\<And>k. length (filter (\<lambda>c. call_key c = k) cs) \<le> length (rp_queues st k) \<or> (\<forall>c \<in> set cs. call_key c \<noteq> k)"
  shows "answers_to k cs (fst (run_calls replay_fetch cs st)) =
    map entry_result (take (length (filter (\<lambda>c. call_key c = k) cs)) (rp_queues st k))"
  using assms
proof (induction cs arbitrary: st)
  case (Cons c cs)
  from Cons.prems [of "call_key c"] obtain e q where q: "rp_queues st (call_key c) = e # q"
    by (cases "rp_queues st (call_key c)") auto
  let ?st = "st\<lparr>rp_queues := (rp_queues st)(call_key c := q), rp_last := (rp_last st)(call_key c := Some e)\<rparr>"
  have "length (filter (\<lambda>c. call_key c = j) cs) \<le> length (rp_queues ?st j) \<or> (\<forall>c \<in> set cs. call_key c \<noteq> j)" for j
    using Cons.prems [of j] q by auto
  from Cons.IH [OF this] show ?case
    by (auto simp: replay_fetch_queue [OF q] Let_def q case_prod_beta)
qed simp

text \<open>What a recorded answer becomes: an error is no longer retryable, everything else stays.\<close>

definition replayed :: "tool_error + fetched \<Rightarrow> tool_error + fetched" where
  "replayed r = (case r of Inl e \<Rightarrow> Inl (ToolError (te_code e) (te_message e) False)
     | Inr f \<Rightarrow> Inr (f\<lparr>fe_attempts := 1, fe_source := ''replay''\<rparr>))"

lemma run_calls_recording:
  "\<exists>es. snd (snd (run_calls (recording_fetch now live) cs (s, es0))) = es0 @ es \<and>
     map entry_agent_key es = map (\<lambda>c. Some (call_key c)) cs \<and>
     map entry_result es = map replayed (fst (run_calls (recording_fetch now live) cs (s, es0)))"
proof (induction cs arbitrary: s es0)
  case (Cons c cs)
  obtain got s' where g: "live (ca_tool c) (ca_args c) (Some (ca_agent c)) (ca_tenant c) s = (got, s')" by force
  define e where "e = \<lparr>en_incident = None, en_agent = Some (ca_agent c), en_tool = tl_name (ca_tool c), en_args = ca_args c,
                   en_at = (case got of Inl e \<Rightarrow> now | Inr f \<Rightarrow> fe_fetched_at f),
                   en_result = (case got of Inl e \<Rightarrow> Inl (te_code e, te_message e) | Inr f \<Rightarrow> Inr (fe_raw f))\<rparr>"
  have f: "recording_fetch now live (ca_tool c) (ca_args c) (Some (ca_agent c)) (ca_tenant c) (s, es0) = (got, (s', es0 @ [e]))"
    by (simp add: recording_fetch_def g e_def)
  obtain es where "snd (snd (run_calls (recording_fetch now live) cs (s', es0 @ [e]))) = (es0 @ [e]) @ es"
     "map entry_agent_key es = map (\<lambda>c. Some (call_key c)) cs"
     "map entry_result es = map replayed (fst (run_calls (recording_fetch now live) cs (s', es0 @ [e])))"
    using Cons.IH by blast
  moreover have "entry_agent_key e = Some (call_key c)" by (simp add: e_def entry_agent_key_def call_key_def)
  moreover have "entry_result e = replayed got" by (cases got) (simp_all add: e_def entry_result_def replayed_def)
  ultimately show ?case
    by (intro exI [of _ "e # es"]) (simp add: f Let_def case_prod_beta)
qed simp

lemma filter_answers:
  assumes "map key es = map (\<lambda>c. Some (call_key c)) cs" "map f es = map g rs"
  shows "map f (filter (\<lambda>e. key e = Some k) es) = map g (answers_to k cs rs)"
  using assms
proof (induction es arbitrary: cs rs)
  case (Cons e es)
  then obtain c cs' r rs' where "cs = c # cs'" "rs = r # rs'" by (cases cs; cases rs) auto
  with Cons show ?case by auto
qed simp

text \<open>
  A recorded run of calls, replayed: each agent's calls get, per question, the answers of the
  recording in order, whatever the order of the calls of different agents and questions.
\<close>

lemma replay_of_recording:
  assumes "run_calls (recording_fetch now live) cs (s, []) = (rs, (s', es))"
    and "\<And>k. length (filter (\<lambda>c. call_key c = k) cs') \<le> length (filter (\<lambda>c. call_key c = k) cs)"
  shows "answers_to k cs' (fst (run_calls replay_fetch cs' (replay_init es))) =
    take (length (filter (\<lambda>c. call_key c = k) cs')) (map replayed (answers_to k cs rs))"
proof (cases "\<exists>c \<in> set cs'. call_key c = k")
  case True
  then obtain c where c: "call_key c = k" by blast
  have es: "map entry_agent_key es = map (\<lambda>c. Some (call_key c)) cs" "map entry_result es = map replayed rs"
    using run_calls_recording [of now live cs s "[]"] assms(1) by auto
  have nk: "call_key c \<noteq> cassette_key n args" for c n args
    by (simp add: call_key_def agent_key_neq_cassette_key)
  have q: "rp_queues (replay_init es) (call_key c) = filter (\<lambda>e. entry_agent_key e = Some (call_key c)) es" for c
    by (rule replay_init_queue) (rule nk)
  have len: "length (filter (\<lambda>e. entry_agent_key e = Some j) es) = length (filter (\<lambda>c. call_key c = j) cs)" for j
  proof -
    have "length (filter (\<lambda>x. x = Some j) (map entry_agent_key es)) = length (filter (\<lambda>x. x = Some j) (map (\<lambda>c. Some (call_key c)) cs))"
      by (simp only: es(1))
    then show ?thesis by (simp add: filter_map comp_def)
  qed
  have "length (filter (\<lambda>c. call_key c = j) cs') \<le> length (rp_queues (replay_init es) j) \<or> (\<forall>c \<in> set cs'. call_key c \<noteq> j)" for j
    using q len assms(2) [of j] by metis
  from run_calls_replay [OF this, of k] q [of c] c show ?thesis
    using filter_answers [OF es, of k] by (simp flip: take_map)
next
  case False
  then have "filter (\<lambda>c. call_key c = k) cs' = []" by (auto simp: filter_empty_conv)
  moreover have "answers_to k cs' rs' = []" for rs' :: "'x list"
    using False by (auto simp: answers_to_def filter_empty_conv dest: set_zip_leftD)
  ultimately show ?thesis by simp
qed

text \<open>
  What the model is shown of a replayed answer is what it was shown of the recorded one, evidence
  id included, unless it was an error that may go away: its \<open>retryable\<close> is gone.
\<close>

lemma replayed_for_model:
  assumes "attempt_call sha rg (\<lambda>t args a tn s. (r, s)) name raw ctx s = ((oc, ev), s1)"
    and "attempt_call sha rg (\<lambda>t args a tn s. (replayed r, s)) name raw ctx s' = ((oc', ev'), s2)"
  shows "(case r of Inl e \<Rightarrow> \<not> te_retryable e | Inr f \<Rightarrow> True) \<Longrightarrow> for_model oc' = for_model oc \<and> to_evidence_id oc' = to_evidence_id oc"
proof -
  assume r: "case r of Inl e \<Rightarrow> \<not> te_retryable e | Inr f \<Rightarrow> True"
  have p: "process sha rg t args ctx (f\<lparr>fe_attempts := Suc 0, fe_source := ''replay''\<rparr>) =
      map_sum id (\<lambda>ev. ev\<lparr>e_source := ''replay''\<rparr>) (process sha rg t args ctx f)" for t args f
    by (auto simp: process_def Let_def split: sum.splits prod.splits summary_error.splits)
  show ?thesis
    using assms r
    by (auto simp: attempt_call_def replayed_def Let_def for_model_def tool_error_json_def ToolError_def p
        split: sum.splits if_splits)
qed

lemma replayed_retryable_differs:
  assumes "registry_tool rg name = Inr t" "validate_args t raw = Inr args" "te_retryable e"
    and "attempt_call sha rg (\<lambda>t args a tn s. (Inl e, s)) name raw ctx s = ((oc, ev), s1)"
    and "attempt_call sha rg (\<lambda>t args a tn s. (replayed (Inl e), s)) name raw ctx s' = ((oc', ev'), s2)"
  shows "for_model oc' \<noteq> for_model oc"
proof
  let ?j = "\<lambda>r. JObj [(''tool'', JStr name), (''error'', JObj [(''code'', JStr (te_code e)), (''message'', JStr (te_message e)), (''retryable'', JBool r)])]"
  assume "for_model oc' = for_model oc"
  then have "canonical_json (?j False) = canonical_json (?j True)"
    using assms by (auto simp: attempt_call_def replayed_def for_model_def tool_error_json_def ToolError_def Let_def simp del: canonical_json.simps)
  then have "normal (?j False) = normal (?j True)" by (rule canonical_normal [rotated 2]) simp_all
  then show False by simp
qed

end
