(* ===== verification/Llm.thy ===== *)
theory Llm
  imports Tools
begin

text \<open>
  What every model backend takes and returns (\<open>app/llm/types.py\<close>), the retries around it
  (\<open>retry.py\<close>), its replay (\<open>replay.py\<close>), the model of a role (\<open>router.py\<close>), the request
  body and the answer of the Messages API (\<open>api.py\<close>) and the prompt of the command line
  backend (\<open>render.py\<close>). Starting processes and HTTP are left out; costs and latencies are not
  modelled.
\<close>

section \<open>Transcripts\<close>

record llm_action =
  ac_id :: string
  ac_tool :: string
  ac_args :: obj

record tool_result =
  rs_id :: string
  rs_tool :: string
  rs_content :: string

datatype turn =
    UserTurn string
  | StepTurn string "llm_action list" "json option"
  | ResultsTurn "tool_result list"

definition action_item :: "llm_action \<Rightarrow> json" where
  "action_item a = JObj [(''id'', JStr (ac_id a)), (''tool'', JStr (ac_tool a)), (''args'', JObj (ac_args a))]"

definition result_item :: "tool_result \<Rightarrow> json" where
  "result_item r = JObj [(''id'', JStr (rs_id r)), (''tool'', JStr (rs_tool r)), (''content'', JStr (rs_content r))]"

fun turn_json :: "turn \<Rightarrow> json" where
  "turn_json (UserTurn t) = JObj [(''type'', JStr ''user''), (''text'', JStr t)]"
| "turn_json (StepTurn reasoning actions final) =
     JObj [(''type'', JStr ''step''), (''reasoning'', JStr reasoning), (''actions'', JArr (map action_item actions)),
           (''final'', jopt id final)]"
| "turn_json (ResultsTurn rs) = JObj [(''type'', JStr ''results''), (''results'', JArr (map result_item rs))]"

record llm_request =
  rq_agent :: string
  rq_model :: string
  rq_prompt_version :: string
  rq_system :: string
  rq_turns :: "turn list"
  rq_tools :: "json list"
  rq_final_schema :: json
  rq_max_actions :: nat
  rq_force_final :: bool

definition request_json :: "llm_request \<Rightarrow> json" where
  "request_json r = JObj
     [(''model'', JStr (rq_model r)), (''system'', JStr (rq_system r)), (''turns'', JArr (map turn_json (rq_turns r))),
      (''tools'', JArr (rq_tools r)), (''final_schema'', rq_final_schema r), (''max_actions'', JInt (int (rq_max_actions r))),
      (''force_final'', JBool (rq_force_final r))]"

definition request_hash :: "(string \<Rightarrow> string) \<Rightarrow> llm_request \<Rightarrow> string" where
  "request_hash sha r = sha (canonical_json (request_json r))"

definition prompt_tokens :: "usage \<Rightarrow> nat" where
  "prompt_tokens u = u_input_tokens u + u_cache_read_tokens u + u_cache_creation_tokens u"

definition total_tokens :: "usage \<Rightarrow> nat" where
  "total_tokens u = prompt_tokens u + u_output_tokens u"

definition no_usage :: usage where
  "no_usage = \<lparr>u_input_tokens = 0, u_output_tokens = 0, u_cache_read_tokens = 0, u_cache_creation_tokens = 0\<rparr>"

definition usage_json :: "usage \<Rightarrow> json" where
  "usage_json u = JObj [(''input_tokens'', JInt (int (u_input_tokens u))), (''output_tokens'', JInt (int (u_output_tokens u))),
     (''cache_read_tokens'', JInt (int (u_cache_read_tokens u))), (''cache_creation_tokens'', JInt (int (u_cache_creation_tokens u)))]"

section \<open>Steps\<close>

record llm_step =
  st_reasoning :: string
  st_actions :: "(string \<times> obj) list"
  st_final :: "json option"

definition step_json :: "llm_step \<Rightarrow> json" where
  "step_json s = JObj [(''reasoning'', JStr (st_reasoning s)),
     (''actions'', JArr (map (\<lambda>(t, a). JObj [(''tool'', JStr t), (''args'', JObj a)]) (st_actions s))), (''final'', jopt id (st_final s))]"

record llm_error =
  le_code :: string
  le_message :: string
  le_retryable :: bool
  le_retry_after_s :: "rat option"
  le_attempts :: nat

definition LLMError :: "string \<Rightarrow> string \<Rightarrow> bool \<Rightarrow> rat option \<Rightarrow> llm_error" where
  "LLMError code message retryable after =
     \<lparr>le_code = code, le_message = message, le_retryable = retryable, le_retry_after_s = after, le_attempts = 1\<rparr>"

text \<open>\<open>str(e)\<close>\<close>

definition llm_error_text :: "llm_error \<Rightarrow> string" where
  "llm_error_text e = le_code e @ '': '' @ le_message e"

record llm_result =
  lr_step :: llm_step
  lr_usage :: usage
  lr_model :: string
  lr_backend :: string
  lr_request_hash :: string
  lr_attempts :: nat

type_synonym 's backend = "llm_request \<Rightarrow> 's \<Rightarrow> (llm_error + llm_result) \<times> 's"

fun type_name :: "json \<Rightarrow> string" where
  "type_name JNull = ''NoneType''"
| "type_name (JBool b) = ''bool''"
| "type_name (JInt i) = ''int''"
| "type_name (JFloat t) = ''float''"
| "type_name (JStr s) = ''str''"
| "type_name (JArr xs) = ''list''"
| "type_name (JObj kvs) = ''dict''"

text \<open>\<open>{"tool": a["tool"], "args": a.get("args", {})}\<close>, if \<open>a\<close> has that shape.\<close>

definition action_of :: "json \<Rightarrow> (string \<times> obj) option" where
  "action_of a =
     (case a of
        JObj kvs \<Rightarrow>
          (case (jget kvs ''tool'', jget kvs ''args'') of
             (Some (JStr t), None) \<Rightarrow> Some (t, [])
           | (Some (JStr t), Some (JObj args)) \<Rightarrow> Some (t, args)
           | _ \<Rightarrow> None)
      | _ \<Rightarrow> None)"

definition invalid_output :: "string \<Rightarrow> llm_error + 'a" where
  "invalid_output message = Inl (LLMError ''invalid_output'' message True None)"

definition normalize_step :: "json \<Rightarrow> llm_error + llm_step" where
  "normalize_step raw =
     (case raw of
        JObj kvs \<Rightarrow>
          (let reasoning = (case jget kvs ''reasoning'' of Some (JStr s) \<Rightarrow> s | _ \<Rightarrow> '''');
               actions = (case jget kvs ''actions'' of Some a \<Rightarrow> if truthy a then a else JArr [] | None \<Rightarrow> JArr []);
               final = (case jget kvs ''final'' of Some JNull \<Rightarrow> None | f \<Rightarrow> f)
           in case actions of
                JArr as \<Rightarrow>
                  if \<not> list_all (\<lambda>a. action_of a \<noteq> None) as
                  then invalid_output ''actions must be a list of {tool, args}''
                  else if final = None \<and> as = [] then invalid_output ''a step needs actions or a final answer''
                  else Inr \<lparr>st_reasoning = reasoning, st_actions = List.map_filter action_of as,
                            st_final = (if as = [] then final else None)\<rparr>
              | _ \<Rightarrow> invalid_output ''actions must be a list of {tool, args}'')
      | _ \<Rightarrow> invalid_output (''step is '' @ type_name raw @ '', not an object''))"

text \<open>A step is either actions or a final answer.\<close>

lemma normalize_step_Inr:
  "normalize_step raw = Inr s \<Longrightarrow> (st_final s = None \<longleftrightarrow> st_actions s \<noteq> [])"
proof -
  have "list_all (\<lambda>a. action_of a \<noteq> None) as \<Longrightarrow> List.map_filter action_of as = [] \<longleftrightarrow> as = []" for as
    by (cases as) (auto simp: map_filter_simps)
  then show "normalize_step raw = Inr s \<Longrightarrow> ?thesis"
    by (auto simp: normalize_step_def invalid_output_def Let_def split: json.splits if_splits)
qed

lemma normalize_step_Inl:
  "normalize_step raw = Inl e \<Longrightarrow> le_code e = ''invalid_output'' \<and> le_retryable e"
  by (auto simp: normalize_step_def invalid_output_def LLMError_def Let_def split: json.splits if_splits)

text \<open>A stored step reads back as itself.\<close>

definition wf_step :: "llm_step \<Rightarrow> bool" where
  "wf_step s \<longleftrightarrow> (st_final s = None \<longleftrightarrow> st_actions s \<noteq> []) \<and> st_final s \<noteq> Some JNull"

lemma normalize_step_wf: "normalize_step raw = Inr s \<Longrightarrow> wf_step s"
  using normalize_step_Inr [of raw s]
  by (auto simp: wf_step_def normalize_step_def invalid_output_def Let_def split: json.splits if_splits option.splits)

lemma normalize_step_json: "wf_step s \<Longrightarrow> normalize_step (step_json s) = Inr s"
proof -
  assume wf: "wf_step s"
  let ?f = "\<lambda>(t, a). JObj [(''tool'', JStr t), (''args'', JObj a)]"
  have one: "action_of (?f ta) = Some ta" for ta by (cases ta) (simp add: action_of_def jget_def)
  have all: "list_all (\<lambda>a. action_of a \<noteq> None) (map ?f as)" for as by (simp add: list_all_iff one)
  have reads: "List.map_filter action_of (map ?f as) = as" for as
    by (induction as) (simp_all add: map_filter_simps one [simplified case_prod_beta] case_prod_beta)
  show ?thesis
    using wf all [of "st_actions s"] reads [of "st_actions s"]
    by (cases "st_final s"; cases "st_actions s")
      (auto simp: normalize_step_def step_json_def jget_def jopt_def wf_step_def Let_def split: json.splits)
qed

section \<open>Retries\<close>

text \<open>
  \<open>RetryingBackend.step\<close> after \<open>n\<close> attempts: \<open>jitter\<close> is \<open>random.random()\<close>, \<open>slept\<close> the
  waits so far.
\<close>

record retry_policy =
  ry_retries :: nat
  ry_base_s :: rat
  ry_max_wait_s :: rat

function retry_loop ::
    "retry_policy \<Rightarrow> 's backend \<Rightarrow> (nat \<Rightarrow> rat) \<Rightarrow> llm_request \<Rightarrow> nat \<Rightarrow> rat list \<Rightarrow> 's \<Rightarrow> (llm_error + llm_result) \<times> rat list \<times> 's" where
  "retry_loop p inner jitter r n slept s =
     (let attempt = Suc n
      in case inner r s of
           (Inr res, s') \<Rightarrow> (Inr (if 1 < attempt then res\<lparr>lr_attempts := attempt\<rparr> else res), slept, s')
         | (Inl e, s') \<Rightarrow>
             (let e' = e\<lparr>le_attempts := attempt\<rparr>; wait = ry_base_s p * 2 ^ (attempt - 1) * (1 + jitter attempt / 2)
              in if \<not> le_retryable e \<or> ry_retries p < attempt then (Inl e', slept, s')
                 else case le_retry_after_s e of
                        None \<Rightarrow> retry_loop p inner jitter r attempt (slept @ [min wait (ry_max_wait_s p)]) s'
                      | Some t \<Rightarrow>
                          if ry_max_wait_s p < t then (Inl e', slept, s')
                          else retry_loop p inner jitter r attempt (slept @ [min (max wait t) (ry_max_wait_s p)]) s'))"
  by pat_completeness auto
termination
  by (relation "measure (\<lambda>(p, inner, jitter, r, n, slept, s). Suc (ry_retries p) - n)") auto

declare retry_loop.simps [simp del]

definition retrying :: "retry_policy \<Rightarrow> (nat \<Rightarrow> rat) \<Rightarrow> 's backend \<Rightarrow> 's backend" where
  "retrying p jitter inner r s = (case retry_loop p inner jitter r 0 [] s of (res, slept, s') \<Rightarrow> (res, s'))"

text \<open>
  How often it asks and how long it sleeps: every wait is at most the cap, there are as many as
  attempts after the first, and at most \<open>retries\<close>.
\<close>

lemma retry_loop_bounds:
  assumes "n \<le> ry_retries p" "length slept = n" "list_all (\<lambda>w. w \<le> ry_max_wait_s p) slept"
  shows "case retry_loop p inner jitter r n slept s of
      (res, slept', s') \<Rightarrow> list_all (\<lambda>w. w \<le> ry_max_wait_s p) slept' \<and> length slept' \<le> ry_retries p \<and>
        (case res of Inl e \<Rightarrow> le_attempts e = Suc (length slept')
           | Inr x \<Rightarrow> slept' \<noteq> [] \<longrightarrow> lr_attempts x = Suc (length slept'))"
  using assms
proof (induction p inner jitter r n slept s rule: retry_loop.induct)
  case (1 p inner jitter r n slept s)
  show ?case
  proof (cases "inner r s")
    case (Pair res s')
    show ?thesis
    proof (cases res)
      case (Inr x)
      with Pair 1 show ?thesis by (subst retry_loop.simps) auto
    next
      case (Inl e)
      show ?thesis
      proof (cases "\<not> le_retryable e \<or> ry_retries p < Suc n \<or> (\<exists>t. le_retry_after_s e = Some t \<and> ry_max_wait_s p < t)")
        case True
        with Inl Pair 1(3-5) show ?thesis by (subst retry_loop.simps) (auto simp: Let_def split: option.splits)
      next
        case False
        note IH = 1(1,2) [OF refl Pair [symmetric, unfolded Inl] refl refl]
        from False Inl Pair 1(3-5) show ?thesis
          by (subst retry_loop.simps) (cases "le_retry_after_s e"; use IH in \<open>fastforce simp: Let_def\<close>)
      qed
    qed
  qed
qed

section \<open>Record and replay of steps\<close>

record llm_entry =
  ln_agent :: string
  ln_prompt_version :: string
  ln_request_hash :: string
  ln_model :: string
  ln_step :: llm_step
  ln_usage :: usage
  ln_backend :: string

definition replay_key :: "string \<Rightarrow> string \<Rightarrow> string \<Rightarrow> string" where
  "replay_key agent prompt_version hash = agent @ ''|'' @ prompt_version @ ''|'' @ hash"

definition cassette_add :: "llm_request \<Rightarrow> llm_result \<Rightarrow> llm_entry list \<Rightarrow> llm_entry list" where
  "cassette_add r res entries = entries @
     [\<lparr>ln_agent = rq_agent r, ln_prompt_version = rq_prompt_version r, ln_request_hash = lr_request_hash res,
       ln_model = lr_model res, ln_step = lr_step res, ln_usage = lr_usage res, ln_backend = lr_backend res\<rparr>]"

definition recording_backend :: "'s backend \<Rightarrow> ('s \<times> llm_entry list) backend" where
  "recording_backend live r st =
     (case live r (fst st) of
        (Inl e, s') \<Rightarrow> (Inl e, (s', snd st))
      | (Inr res, s') \<Rightarrow> (Inr res, (s', cassette_add r res (snd st))))"

text \<open>The dictionary built by \<open>__init__\<close>: the last entry of a key.\<close>

definition replay_entries :: "llm_entry list \<Rightarrow> string \<Rightarrow> llm_entry option" where
  "replay_entries entries =
     foldl (\<lambda>m e. m(replay_key (ln_agent e) (ln_prompt_version e) (ln_request_hash e) \<mapsto> e)) Map.empty entries"

definition replay_backend :: "(string \<Rightarrow> string) \<Rightarrow> llm_entry list \<Rightarrow> 's backend" where
  "replay_backend sha entries r s =
     (let h = request_hash sha r
      in case replay_entries entries (replay_key (rq_agent r) (rq_prompt_version r) h) of
           None \<Rightarrow> (Inl (LLMError ''replay_miss'' (''no recorded step for '' @ rq_agent r @ '' (prompt '' @ rq_prompt_version r @
                     '', request '' @ take 12 h @ ''); the prompt, the tools or the transcript changed since the recording'') False None), s)
         | Some e \<Rightarrow> (Inr \<lparr>lr_step = ln_step e, lr_usage = ln_usage e, lr_model = ln_model e, lr_backend = ''replay'',
                         lr_request_hash = h, lr_attempts = 1\<rparr>, s))"

lemma replay_entries_snoc:
  "replay_entries (es @ [e]) = (replay_entries es)(replay_key (ln_agent e) (ln_prompt_version e) (ln_request_hash e) \<mapsto> e)"
  by (simp add: replay_entries_def)

text \<open>A request recorded with its hash is answered by the last recorded step of its key.\<close>

lemma replay_of_recorded:
  assumes "recording_backend live r (s, es) = (Inr res, (s', es'))" "lr_request_hash res = request_hash sha r"
  shows "\<exists>res'. replay_backend sha es' r x = (Inr res', x) \<and> lr_step res' = lr_step res \<and> lr_usage res' = lr_usage res \<and>
    lr_model res' = lr_model res \<and> lr_request_hash res' = lr_request_hash res"
  using assms
  by (auto simp: recording_backend_def replay_backend_def replay_entries_snoc cassette_add_def Let_def split: sum.splits prod.splits)

section \<open>Which model\<close>

definition model_for :: "(string \<times> string) list \<Rightarrow> string \<Rightarrow> string \<Rightarrow> string" where
  "model_for role_models dflt role =
     (let family = fst (partition_at CHR ''.'' role); get = (\<lambda>k. case map_of role_models k of None \<Rightarrow> '''' | Some m \<Rightarrow> m)
      in if get role \<noteq> '''' then get role else if get family \<noteq> '''' then get family else dflt)"

end
