(* ===== verification/AgentStore.thy ===== *)
theory AgentStore
  imports Llm Runner
begin

text \<open>
  The agents' store (\<open>app/agents/store.py\<close>): the checkpoint of every agent's run and the
  blackboard, in Postgres (\<open>PgAgentStore\<close>) and in memory (\<open>MemoryAgentStore\<close>, which also takes
  the evidence). Both keep the same contract, the locale \<open>agent_store\<close>; within it, running an
  agent behind its checkpoint happens at most once.
\<close>

record board_entry =
  be_kind :: entry_kind
  be_author :: string
  be_body :: body
  be_evidence_ids :: "string list"

record run_record =
  ru_agent :: string
  ru_status :: run_status
  ru_model :: string
  ru_prompt_version :: string
  ru_steps :: nat
  ru_result :: run_result

definition no_result :: run_result where
  "no_result = \<lparr>rr_counts = [], rr_report_summary = None, rr_plan = None\<rparr>"

record llm_call_record =
  lc_tenant :: string
  lc_incident :: "string option"
  lc_agent :: string
  lc_step_no :: nat
  lc_backend :: string
  lc_model :: string
  lc_prompt_version :: string
  lc_request_hash :: string
  lc_ok :: bool
  lc_usage :: usage
  lc_attempts :: nat
  lc_step :: "json option"
  lc_error_code :: "string option"
  lc_error :: "string option"

section \<open>In Postgres\<close>

definition llm_call_row_of :: "nat \<Rightarrow> llm_call_record \<Rightarrow> llm_call_row" where
  "llm_call_row_of k c = \<lparr>l_id = k, l_tenant = lc_tenant c, l_incident = lc_incident c, l_agent = lc_agent c,
     l_step_no = lc_step_no c, l_backend = lc_backend c, l_model = lc_model c, l_prompt_version = lc_prompt_version c,
     l_request_hash = lc_request_hash c, l_ok = lc_ok c, l_error_code = lc_error_code c, l_error = lc_error c,
     l_attempts = lc_attempts c, l_usage = lc_usage c, l_step = lc_step c\<rparr>"

definition pg_record_llm_call :: "llm_call_record \<Rightarrow> db \<Rightarrow> db" where
  "pg_record_llm_call c d = d\<lparr>llm_calls := llm_calls d @ [llm_call_row_of (next_id (map l_id (llm_calls d))) c]\<rparr>"

definition pg_tokens_used :: "db \<Rightarrow> string \<Rightarrow> int" where
  "pg_tokens_used d inc = int (sum_list (map (\<lambda>c. total_tokens (l_usage c)) (filter (\<lambda>c. l_incident c = Some inc) (llm_calls d))))"

definition pg_evidence_tools :: "db \<Rightarrow> string \<Rightarrow> string list \<Rightarrow> string \<Rightarrow> string option" where
  "pg_evidence_tools d inc ids ev =
     (if ev \<in> set ids then map_option e_tool (find (\<lambda>e. e_id e = ev \<and> e_incident e = Some inc) (evidence d)) else None)"

definition run_of_row :: "agent_run_row \<Rightarrow> run_record" where
  "run_of_row r = \<lparr>ru_agent = r_agent r, ru_status = r_status r, ru_model = r_model r, ru_prompt_version = r_prompt_version r,
     ru_steps = r_steps r, ru_result = r_result r\<rparr>"

definition run_at :: "string \<Rightarrow> string \<Rightarrow> agent_run_row \<Rightarrow> bool" where
  "run_at inc agent r \<longleftrightarrow> r_incident r = inc \<and> r_agent r = agent"

definition pg_runs :: "db \<Rightarrow> string \<Rightarrow> string \<Rightarrow> run_record option" where
  "pg_runs d inc agent = map_option run_of_row (find (run_at inc agent) (agent_runs d))"

definition pg_start_run :: "string \<Rightarrow> string \<Rightarrow> string \<Rightarrow> string \<Rightarrow> string \<Rightarrow> db \<Rightarrow> db" where
  "pg_start_run tenant inc agent model pv d =
     (if \<exists>r \<in> set (agent_runs d). run_at inc agent r
      then d\<lparr>agent_runs := sql_update (\<lambda>r. run_at inc agent r \<and> r_status r \<noteq> RunDone)
             (\<lambda>r. r\<lparr>r_status := RunRunning, r_model := model, r_prompt_version := pv, r_steps := 0, r_error := None,
                   r_result := no_result\<rparr>) (agent_runs d)\<rparr>
      else d\<lparr>agent_runs := agent_runs d @
             [\<lparr>r_id = next_id (map r_id (agent_runs d)), r_tenant = tenant, r_incident = inc, r_agent = agent,
               r_status = RunRunning, r_model = model, r_prompt_version = pv, r_steps = 0, r_result = no_result, r_error = None\<rparr>]\<rparr>)"

definition board_row :: "string \<Rightarrow> string \<Rightarrow> nat \<Rightarrow> board_entry \<Rightarrow> blackboard_row" where
  "board_row tenant inc k e = \<lparr>b_id = k, b_tenant = tenant, b_incident = inc, b_kind = be_kind e, b_author = be_author e,
     b_body = be_body e, b_evidence_ids = be_evidence_ids e\<rparr>"

fun insert_entries :: "string \<Rightarrow> string \<Rightarrow> board_entry list \<Rightarrow> blackboard_row list \<Rightarrow> blackboard_row list" where
  "insert_entries tenant inc [] rows = rows"
| "insert_entries tenant inc (e # es) rows =
     insert_entries tenant inc es (rows @ [board_row tenant inc (next_id (map b_id rows)) e])"

definition unfinished :: "string \<Rightarrow> string \<Rightarrow> agent_run_row \<Rightarrow> bool" where
  "unfinished inc agent r \<longleftrightarrow> run_at inc agent r \<and> r_status r \<noteq> RunDone"

definition pg_finish_run :: "string \<Rightarrow> string \<Rightarrow> string \<Rightarrow> nat \<Rightarrow> run_result \<Rightarrow> board_entry list \<Rightarrow> db \<Rightarrow> db" where
  "pg_finish_run tenant inc agent steps result es d =
     (if \<not> (\<exists>r \<in> set (agent_runs d). unfinished inc agent r) then d
      else d\<lparr>agent_runs := sql_update (unfinished inc agent)
               (\<lambda>r. r\<lparr>r_status := RunDone, r_steps := steps, r_result := result\<rparr>) (agent_runs d),
             blackboard := insert_entries tenant inc es (blackboard d)\<rparr>)"

definition pg_fail_run :: "string \<Rightarrow> string \<Rightarrow> nat \<Rightarrow> string \<Rightarrow> db \<Rightarrow> db" where
  "pg_fail_run inc agent steps error d =
     d\<lparr>agent_runs := sql_update (unfinished inc agent)
         (\<lambda>r. r\<lparr>r_status := RunFailed, r_steps := steps, r_error := Some (take 2000 error)\<rparr>) (agent_runs d)\<rparr>"

definition entry_of_row :: "blackboard_row \<Rightarrow> board_entry" where
  "entry_of_row b = \<lparr>be_kind = b_kind b, be_author = b_author b, be_body = b_body b, be_evidence_ids = b_evidence_ids b\<rparr>"

definition pg_entries :: "db \<Rightarrow> string \<Rightarrow> board_entry list" where
  "pg_entries d inc = map entry_of_row (sort_key b_id (filter (\<lambda>b. b_incident b = inc) (blackboard d)))"

text \<open>\<open>_write\<close>: the statements in a transaction that asserts the job's fence.\<close>

definition fenced_write :: "job option \<Rightarrow> (db \<Rightarrow> db) \<Rightarrow> unit tx" where
  "fenced_write job f d = (case job of None \<Rightarrow> Inr ((), f d) | Some h \<Rightarrow> job_transaction h (\<lambda>d. Inr ((), f d)) d)"

section \<open>In memory\<close>

record mem_store =
  ms_evidence :: "(string \<times> (string option \<times> string)) list"
  ms_tool_calls :: "call_record list"
  ms_calls :: "llm_call_record list"
  ms_runs :: "string \<times> string \<Rightarrow> run_record option"
  ms_board :: "string \<Rightarrow> board_entry list"

definition mem_save :: "evidence_row option \<Rightarrow> call_record \<Rightarrow> mem_store \<Rightarrow> mem_store" where
  "mem_save ev c s =
     s\<lparr>ms_evidence := (case ev of None \<Rightarrow> ms_evidence s
         | Some e \<Rightarrow> if e_id e \<in> set (map fst (ms_evidence s)) then ms_evidence s
                     else ms_evidence s @ [(e_id e, (e_incident e, e_tool e))]),
       ms_tool_calls := ms_tool_calls s @ [c]\<rparr>"

definition mem_record_llm_call :: "llm_call_record \<Rightarrow> mem_store \<Rightarrow> mem_store" where
  "mem_record_llm_call c s = s\<lparr>ms_calls := ms_calls s @ [c]\<rparr>"

definition mem_tokens_used :: "mem_store \<Rightarrow> string \<Rightarrow> int" where
  "mem_tokens_used s inc = int (sum_list (map (\<lambda>c. total_tokens (lc_usage c)) (filter (\<lambda>c. lc_incident c = Some inc) (ms_calls s))))"

definition mem_evidence_tools :: "mem_store \<Rightarrow> string \<Rightarrow> string list \<Rightarrow> string \<Rightarrow> string option" where
  "mem_evidence_tools s inc ids ev =
     (if ev \<in> set ids then (case map_of (ms_evidence s) ev of Some (i, t) \<Rightarrow> if i = Some inc then Some t else None | None \<Rightarrow> None)
      else None)"

definition mem_runs :: "mem_store \<Rightarrow> string \<Rightarrow> string \<Rightarrow> run_record option" where
  "mem_runs s inc agent = ms_runs s (inc, agent)"

definition mem_start_run :: "string \<Rightarrow> string \<Rightarrow> string \<Rightarrow> string \<Rightarrow> string \<Rightarrow> mem_store \<Rightarrow> mem_store" where
  "mem_start_run tenant inc agent model pv s =
     (let fresh = \<lparr>ru_agent = agent, ru_status = RunRunning, ru_model = model, ru_prompt_version = pv, ru_steps = 0,
                   ru_result = no_result\<rparr>
      in case ms_runs s (inc, agent) of
           None \<Rightarrow> s\<lparr>ms_runs := (ms_runs s)((inc, agent) \<mapsto> fresh)\<rparr>
         | Some r \<Rightarrow> if ru_status r \<noteq> RunDone then s\<lparr>ms_runs := (ms_runs s)((inc, agent) \<mapsto> fresh)\<rparr> else s)"

text \<open>A run that was never started is a \<open>KeyError\<close>.\<close>

definition mem_finish_run :: "string \<Rightarrow> string \<Rightarrow> string \<Rightarrow> nat \<Rightarrow> run_result \<Rightarrow> board_entry list \<Rightarrow> mem_store \<Rightarrow> exn + mem_store" where
  "mem_finish_run tenant inc agent steps result es s =
     (case ms_runs s (inc, agent) of
        None \<Rightarrow> Inl KeyError
      | Some r \<Rightarrow> Inr (s\<lparr>ms_runs := (ms_runs s)((inc, agent) \<mapsto> r\<lparr>ru_agent := agent, ru_status := RunDone, ru_steps := steps, ru_result := result\<rparr>),
                       ms_board := (ms_board s)(inc := ms_board s inc @ es)\<rparr>))"

definition mem_fail_run :: "string \<Rightarrow> string \<Rightarrow> nat \<Rightarrow> string \<Rightarrow> mem_store \<Rightarrow> exn + mem_store" where
  "mem_fail_run inc agent steps error s =
     (case ms_runs s (inc, agent) of
        None \<Rightarrow> Inl KeyError
      | Some r \<Rightarrow> Inr (s\<lparr>ms_runs := (ms_runs s)((inc, agent) \<mapsto> r\<lparr>ru_agent := agent, ru_status := RunFailed, ru_steps := steps,
                       ru_result := no_result\<lparr>rr_counts := [(''error'', JStr error)]\<rparr>\<rparr>)\<rparr>))"

definition mem_entries :: "mem_store \<Rightarrow> string \<Rightarrow> board_entry list" where
  "mem_entries s inc = ms_board s inc"

section \<open>The contract\<close>

definition is_done :: "run_record option \<Rightarrow> bool" where
  "is_done r \<longleftrightarrow> (case r of None \<Rightarrow> False | Some r \<Rightarrow> ru_status r = RunDone)"

definition fresh_run :: "string \<Rightarrow> string \<Rightarrow> string \<Rightarrow> run_record" where
  "fresh_run agent model pv = \<lparr>ru_agent = agent, ru_status = RunRunning, ru_model = model, ru_prompt_version = pv,
     ru_steps = 0, ru_result = no_result\<rparr>"

definition done_run :: "nat \<Rightarrow> run_result \<Rightarrow> run_record \<Rightarrow> run_record" where
  "done_run steps result r = r\<lparr>ru_status := RunDone, ru_steps := steps, ru_result := result\<rparr>"

locale agent_store =
  fixes inv :: "'s \<Rightarrow> bool"
    and runs :: "'s \<Rightarrow> string \<Rightarrow> string \<Rightarrow> run_record option"
    and entries :: "'s \<Rightarrow> string \<Rightarrow> board_entry list"
    and start :: "string \<Rightarrow> string \<Rightarrow> string \<Rightarrow> string \<Rightarrow> string \<Rightarrow> 's \<Rightarrow> 's"
    and complete :: "string \<Rightarrow> string \<Rightarrow> string \<Rightarrow> nat \<Rightarrow> run_result \<Rightarrow> board_entry list \<Rightarrow> 's \<Rightarrow> 's"
    and abandon :: "string \<Rightarrow> string \<Rightarrow> nat \<Rightarrow> string \<Rightarrow> 's \<Rightarrow> 's"
  assumes start_inv: "inv s \<Longrightarrow> inv (start t i a m p s)"
    and start_runs: "inv s \<Longrightarrow> runs (start t i a m p s) =
          (if is_done (runs s i a) then runs s else (runs s)(i := (runs s i)(a \<mapsto> fresh_run a m p)))"
    and start_entries: "inv s \<Longrightarrow> entries (start t i a m p s) = entries s"
    and complete_inv: "inv s \<Longrightarrow> inv (complete t i a n res es s)"
    and complete_runs: "inv s \<Longrightarrow> runs s i a = Some r \<Longrightarrow> ru_status r \<noteq> RunDone \<Longrightarrow>
          runs (complete t i a n res es s) = (runs s)(i := (runs s i)(a \<mapsto> done_run n res r))"
    and complete_entries: "inv s \<Longrightarrow> runs s i a = Some r \<Longrightarrow> ru_status r \<noteq> RunDone \<Longrightarrow>
          entries (complete t i a n res es s) = (entries s)(i := entries s i @ es)"
    and abandon_inv: "inv s \<Longrightarrow> inv (abandon i a n e s)"
    and abandon_runs: "inv s \<Longrightarrow> runs s i a = Some r \<Longrightarrow> ru_status r \<noteq> RunDone \<Longrightarrow>
          \<exists>r'. ru_status r' = RunFailed \<and> runs (abandon i a n e s) = (runs s)(i := (runs s i)(a \<mapsto> r'))"
    and abandon_entries: "inv s \<Longrightarrow> runs s i a = Some r \<Longrightarrow> ru_status r \<noteq> RunDone \<Longrightarrow> entries (abandon i a n e s) = entries s"
begin

text \<open>One attempt that works: started, then finished with its entries, exactly once.\<close>

lemma attempt_done:
  assumes "inv s" "\<not> is_done (runs s i a)"
  shows "is_done (runs (complete t i a n res es (start t i a m p s)) i a) \<and>
    entries (complete t i a n res es (start t i a m p s)) = (entries s)(i := entries s i @ es)"
proof -
  let ?s = "start t i a m p s"
  have r: "runs ?s i a = Some (fresh_run a m p)" using assms by (simp add: start_runs)
  have nd: "ru_status (fresh_run a m p) \<noteq> RunDone" by (simp add: fresh_run_def)
  show ?thesis
    using complete_runs [OF start_inv [OF assms(1)] r nd] complete_entries [OF start_inv [OF assms(1)] r nd]
    by (simp add: start_entries assms is_done_def done_run_def)
qed

text \<open>A finished run stays as it is when another attempt starts it.\<close>

lemma start_after_done:
  assumes "inv s" "is_done (runs s i a)"
  shows "runs (start t i a m p s) = runs s \<and> entries (start t i a m p s) = entries s"
  using assms by (simp add: start_runs start_entries)

text \<open>An attempt that failed can be made again, and leaves no entries.\<close>

lemma attempt_failed:
  assumes "inv s" "\<not> is_done (runs s i a)"
  shows "\<not> is_done (runs (abandon i a n e (start t i a m p s)) i a) \<and>
    entries (abandon i a n e (start t i a m p s)) = entries s"
proof -
  let ?s = "start t i a m p s"
  have r: "runs ?s i a = Some (fresh_run a m p)" using assms by (simp add: start_runs)
  have nd: "ru_status (fresh_run a m p) \<noteq> RunDone" by (simp add: fresh_run_def)
  obtain r' where "ru_status r' = RunFailed" "runs (abandon i a n e ?s) = (runs ?s)(i := (runs ?s i)(a \<mapsto> r'))"
    using abandon_runs [OF start_inv [OF assms(1)] r nd] by blast
  then show ?thesis
    using abandon_entries [OF start_inv [OF assms(1)] r nd] by (simp add: is_done_def start_entries assms)
qed

end

section \<open>Both stores keep it\<close>

definition mem_ok :: "mem_store \<Rightarrow> bool" where
  "mem_ok s \<longleftrightarrow> (\<forall>i a r. ms_runs s (i, a) = Some r \<longrightarrow> ru_agent r = a)"

definition or_same :: "'s \<Rightarrow> exn + 's \<Rightarrow> 's" where
  "or_same s r = (case r of Inl e \<Rightarrow> s | Inr s' \<Rightarrow> s')"

interpretation mem: agent_store mem_ok mem_runs mem_entries mem_start_run
  "\<lambda>t i a n res es s. or_same s (mem_finish_run t i a n res es s)" "\<lambda>i a n e s. or_same s (mem_fail_run i a n e s)"
proof unfold_locales
  fix s i a r n e
  assume "mem_runs s i a = Some r"
  then show "\<exists>r'. ru_status r' = RunFailed \<and> mem_runs (or_same s (mem_fail_run i a n e s)) = (mem_runs s)(i := (mem_runs s i)(a \<mapsto> r'))"
    by (intro exI [of _ "r\<lparr>ru_agent := a, ru_status := RunFailed, ru_steps := n,
          ru_result := no_result\<lparr>rr_counts := [(''error'', JStr e)]\<rparr>\<rparr>"])
      (auto simp: mem_runs_def or_same_def mem_fail_run_def fun_eq_iff)
qed (auto simp: mem_ok_def mem_runs_def mem_entries_def mem_start_run_def mem_finish_run_def mem_fail_run_def or_same_def
      is_done_def fresh_run_def done_run_def fun_eq_iff Let_def split: option.splits)

definition pg_ok :: "db \<Rightarrow> bool" where
  "pg_ok d \<longleftrightarrow> distinct (map run_key (agent_runs d)) \<and> sorted_wrt (<) (map b_id (blackboard d))"

lemma run_at_key: "run_at i a r \<longleftrightarrow> run_key r = (i, a)"
  by (auto simp: run_at_def run_key_def)

lemma pg_runs_Some: "pg_runs d i a = Some ru \<longleftrightarrow> (\<exists>r. find (run_at i a) (agent_runs d) = Some r \<and> ru = run_of_row r)"
  by (auto simp: pg_runs_def)

lemma find_run_update:
  assumes "\<And>r. p r \<Longrightarrow> run_key (f r) = run_key r"
  shows "find (run_at i a) (sql_update p f rows) = map_option (\<lambda>r. if p r then f r else r) (find (run_at i a) rows)"
  using assms by (induction rows) (auto simp: run_at_key)

lemma find_run_append: "find (run_at i a) (rows @ [r]) = (case find (run_at i a) rows of None \<Rightarrow> if run_at i a r then Some r else None | Some x \<Rightarrow> Some x)"
  by (simp add: find_append split: option.splits)

lemma unfinished_run_at: "unfinished i a r \<Longrightarrow> run_at i' a' r \<longleftrightarrow> (i', a') = (i, a)"
  by (auto simp: unfinished_def run_at_def)

lemma find_run_at: "find (run_at i a) rows = Some r \<Longrightarrow> run_at i a r \<and> r \<in> set rows"
  using find_in_set by fast

lemma find_run_None: "find (run_at i a) rows = None \<longleftrightarrow> (\<forall>r \<in> set rows. \<not> run_at i a r)"
  by (auto simp: find_None_iff)

text \<open>The blackboard is read in the order it was written.\<close>

lemma pg_entries_eq: "pg_ok d \<Longrightarrow> pg_entries d i = map entry_of_row (filter (\<lambda>b. b_incident b = i) (blackboard d))"
proof -
  assume "pg_ok d"
  then have "sorted (map b_id (blackboard d))" by (auto simp: pg_ok_def intro: sorted_wrt_mono_rel [rotated])
  then have "sorted (map b_id (filter (\<lambda>b. b_incident b = i) (blackboard d)))" by (rule sorted_filter)
  then show ?thesis by (simp add: pg_entries_def sort_key_id_if_sorted)
qed

lemma insert_entries_sorted: "sorted_wrt (<) (map b_id rows) \<Longrightarrow> sorted_wrt (<) (map b_id (insert_entries t i es rows))"
  by (induction es arbitrary: rows) (simp_all add: sorted_wrt_append board_row_def next_id_gt)

lemma insert_entries_filter:
  "map entry_of_row (filter (\<lambda>b. b_incident b = i') (insert_entries t i es rows)) =
     map entry_of_row (filter (\<lambda>b. b_incident b = i') rows) @ (if i' = i then es else [])"
  by (induction es arbitrary: rows) (simp_all add: board_row_def entry_of_row_def)

lemma pg_runs_start:
  "pg_runs (pg_start_run t i a m p d) =
     (if is_done (pg_runs d i a) then pg_runs d else (pg_runs d)(i := (pg_runs d i)(a \<mapsto> fresh_run a m p)))"
proof (intro ext)
  fix i' a'
  show "pg_runs (pg_start_run t i a m p d) i' a' =
     (if is_done (pg_runs d i a) then pg_runs d else (pg_runs d)(i := (pg_runs d i)(a \<mapsto> fresh_run a m p))) i' a'"
  proof (cases "\<exists>r \<in> set (agent_runs d). run_at i a r")
    case False
    then have "find (run_at i a) (agent_runs d) = None" by (simp add: find_run_None)
    then show ?thesis using False
      by (auto simp: pg_runs_def pg_start_run_def find_run_append is_done_def fresh_run_def run_of_row_def run_at_def split: option.splits)
  next
    case True
    then obtain r where r: "find (run_at i a) (agent_runs d) = Some r" using find_run_None by fastforce
    let ?p = "\<lambda>r. run_at i a r \<and> r_status r \<noteq> RunDone"
    let ?f = "\<lambda>r. r\<lparr>r_status := RunRunning, r_model := m, r_prompt_version := p, r_steps := 0, r_error := None, r_result := no_result\<rparr>"
    have k: "run_key (?f r) = run_key r" for r by (simp add: run_key_def)
    have upd: "pg_runs (pg_start_run t i a m p d) i' a' =
        map_option (\<lambda>r. run_of_row (if ?p r then ?f r else r)) (find (run_at i' a') (agent_runs d))"
      using True find_run_update [of ?p ?f i' a' "agent_runs d", OF k] by (simp add: pg_runs_def pg_start_run_def option.map_comp comp_def)
    show ?thesis
    proof (cases "i' = i \<and> a' = a")
      case True
      then show ?thesis using upd r find_run_at [OF r]
        by (auto simp: pg_runs_def is_done_def fresh_run_def run_of_row_def run_at_def)
    next
      case False
      show ?thesis
      proof (cases "find (run_at i' a') (agent_runs d)")
        case (Some r')
        then have "\<not> run_at i a r'" using False by (auto simp: run_at_def dest!: find_run_at)
        with Some upd False show ?thesis by (auto simp: pg_runs_def)
      qed (use upd False in \<open>auto simp: pg_runs_def\<close>)
    qed
  qed
qed

lemma pg_runs_unfinished:
  assumes "find (run_at i a) (agent_runs d) = Some r" "r_status r \<noteq> RunDone" "\<And>r. run_key (f r) = run_key r"
  shows "map_option run_of_row (find (run_at i' a') (sql_update (unfinished i a) f (agent_runs d))) =
    ((pg_runs d)(i := (pg_runs d i)(a \<mapsto> run_of_row (f r)))) i' a'"
proof -
  have upd: "find (run_at i' a') (sql_update (unfinished i a) f (agent_runs d)) =
      map_option (\<lambda>r. if unfinished i a r then f r else r) (find (run_at i' a') (agent_runs d))"
    by (rule find_run_update) (rule assms(3))
  then show ?thesis
  proof (cases "i' = i \<and> a' = a")
    case True
    then show ?thesis using upd assms find_run_at [OF assms(1)] by (simp add: unfinished_def)
  next
    case False
    show ?thesis
    proof (cases "find (run_at i' a') (agent_runs d)")
      case (Some r')
      then have "\<not> unfinished i a r'" using False by (auto simp: unfinished_def run_at_def dest!: find_run_at)
      with Some upd False show ?thesis by (auto simp: pg_runs_def)
    qed (use upd False in \<open>auto simp: pg_runs_def\<close>)
  qed
qed

lemma pg_unfinished_row:
  assumes "pg_runs d i a = Some ru" "ru_status ru \<noteq> RunDone"
  obtains r where "find (run_at i a) (agent_runs d) = Some r" "r_status r \<noteq> RunDone" "ru = run_of_row r"
    "\<exists>r \<in> set (agent_runs d). unfinished i a r"
proof -
  from assms obtain r where r: "find (run_at i a) (agent_runs d) = Some r" "ru = run_of_row r" by (auto simp: pg_runs_Some)
  moreover from r assms(2) have "r_status r \<noteq> RunDone" by (simp add: run_of_row_def)
  moreover from this find_run_at [OF r(1)] have "\<exists>r \<in> set (agent_runs d). unfinished i a r" by (auto simp: unfinished_def)
  ultimately show thesis by (intro that)
qed

lemma pg_runs_fail:
  assumes "pg_runs d i a = Some ru" "ru_status ru \<noteq> RunDone"
  shows "pg_runs (pg_fail_run i a n e d) = (pg_runs d)(i := (pg_runs d i)(a \<mapsto> ru\<lparr>ru_status := RunFailed, ru_steps := n\<rparr>))"
proof -
  from assms obtain r where r: "find (run_at i a) (agent_runs d) = Some r" "r_status r \<noteq> RunDone" "ru = run_of_row r"
    by (rule pg_unfinished_row)
  let ?f = "\<lambda>r. r\<lparr>r_status := RunFailed, r_steps := n, r_error := Some (take 2000 e)\<rparr>"
  show ?thesis using pg_runs_unfinished [OF r(1,2), of ?f] r(3)
    by (auto simp: fun_eq_iff pg_fail_run_def pg_runs_def [of "d\<lparr>agent_runs := x\<rparr>" for x] run_key_def run_of_row_def)
qed

interpretation pg: agent_store pg_ok pg_runs pg_entries pg_start_run pg_finish_run pg_fail_run
proof unfold_locales
  fix s t i a m p
  assume ok: "pg_ok s"
  show "pg_ok (pg_start_run t i a m p s)"
    using ok by (auto simp: pg_ok_def pg_start_run_def map_sql_update run_key_def run_at_def)
  show "pg_runs (pg_start_run t i a m p s) =
      (if is_done (pg_runs s i a) then pg_runs s else (pg_runs s)(i := (pg_runs s i)(a \<mapsto> fresh_run a m p)))"
    by (rule pg_runs_start)
  show "pg_entries (pg_start_run t i a m p s) = pg_entries s"
    by (simp add: fun_eq_iff pg_entries_def pg_start_run_def)
next
  fix s t i a n res es
  assume ok: "pg_ok s"
  show "pg_ok (pg_finish_run t i a n res es s)"
    using ok by (auto simp: pg_ok_def pg_finish_run_def map_sql_update run_key_def insert_entries_sorted)
  fix ru
  assume "pg_runs s i a = Some ru" "ru_status ru \<noteq> RunDone"
  then obtain r where r: "find (run_at i a) (agent_runs s) = Some r" "r_status r \<noteq> RunDone" "ru = run_of_row r"
    "\<exists>r \<in> set (agent_runs s). unfinished i a r" by (rule pg_unfinished_row)
  let ?f = "\<lambda>r. r\<lparr>r_status := RunDone, r_steps := n, r_result := res\<rparr>"
  have fin: "pg_finish_run t i a n res es s = s\<lparr>agent_runs := sql_update (unfinished i a) ?f (agent_runs s),
      blackboard := insert_entries t i es (blackboard s)\<rparr>" using r(4) by (simp add: pg_finish_run_def)
  show "pg_runs (pg_finish_run t i a n res es s) = (pg_runs s)(i := (pg_runs s i)(a \<mapsto> done_run n res ru))"
    using pg_runs_unfinished [OF r(1,2), of ?f] r(3)
    by (auto simp: fun_eq_iff fin pg_runs_def [of "s\<lparr>agent_runs := x, blackboard := y\<rparr>" for x y] run_key_def run_of_row_def done_run_def)
  have ok': "pg_ok (pg_finish_run t i a n res es s)" by fact
  show "pg_entries (pg_finish_run t i a n res es s) = (pg_entries s)(i := pg_entries s i @ es)"
    using pg_entries_eq [OF ok] pg_entries_eq [OF ok'] by (simp add: fun_eq_iff fin insert_entries_filter)
next
  fix s i a n e
  assume ok: "pg_ok s"
  show "pg_ok (pg_fail_run i a n e s)"
    using ok by (auto simp: pg_ok_def pg_fail_run_def map_sql_update run_key_def)
  fix ru
  assume "pg_runs s i a = Some ru" "ru_status ru \<noteq> RunDone"
  then show "\<exists>r'. ru_status r' = RunFailed \<and> pg_runs (pg_fail_run i a n e s) = (pg_runs s)(i := (pg_runs s i)(a \<mapsto> r'))"
    by (intro exI [of _ "ru\<lparr>ru_status := RunFailed, ru_steps := n\<rparr>"]) (simp add: pg_runs_fail)
  show "pg_entries (pg_fail_run i a n e s) = pg_entries s"
    by (simp add: fun_eq_iff pg_entries_def pg_fail_run_def)
qed

section \<open>The stores agree\<close>

text \<open>
  The operations a worker performs, guarded as the code performs them: a run is finished or failed
  only after it was started and while it is not done. Under any sequence of them the two stores
  show the same runs and the same board; only the error of a failed run is kept in another place.
\<close>

datatype store_op =
    StartOp string string string string string
  | FinishOp string string string nat run_result "board_entry list"
  | FailOp string string nat string

fun pg_op :: "store_op \<Rightarrow> db \<Rightarrow> db" where
  "pg_op (StartOp t i a m p) d = pg_start_run t i a m p d"
| "pg_op (FinishOp t i a n res es) d = pg_finish_run t i a n res es d"
| "pg_op (FailOp i a n e) d = pg_fail_run i a n e d"

fun mem_op :: "store_op \<Rightarrow> mem_store \<Rightarrow> exn + mem_store" where
  "mem_op (StartOp t i a m p) s = Inr (mem_start_run t i a m p s)"
| "mem_op (FinishOp t i a n res es) s = mem_finish_run t i a n res es s"
| "mem_op (FailOp i a n e) s = mem_fail_run i a n e s"

fun guarded_op :: "store_op \<Rightarrow> db \<Rightarrow> bool" where
  "guarded_op (StartOp t i a m p) d = True"
| "guarded_op (FinishOp t i a n res es) d = (case pg_runs d i a of None \<Rightarrow> False | Some r \<Rightarrow> ru_status r \<noteq> RunDone)"
| "guarded_op (FailOp i a n e) d = (case pg_runs d i a of None \<Rightarrow> False | Some r \<Rightarrow> ru_status r \<noteq> RunDone)"

fun guarded_ops :: "store_op list \<Rightarrow> db \<Rightarrow> bool" where
  "guarded_ops [] d = True"
| "guarded_ops (op # ops) d = (guarded_op op d \<and> guarded_ops ops (pg_op op d))"

fun mem_ops :: "store_op list \<Rightarrow> mem_store \<Rightarrow> exn + mem_store" where
  "mem_ops [] s = Inr s"
| "mem_ops (op # ops) s = bindS (mem_op op s) (mem_ops ops)"

definition same_run :: "run_record option \<Rightarrow> run_record option \<Rightarrow> bool" where
  "same_run x y \<longleftrightarrow> x = y \<or>
     (\<exists>r r'. x = Some r \<and> y = Some r' \<and> ru_status r = RunFailed \<and> r\<lparr>ru_result := no_result\<rparr> = r'\<lparr>ru_result := no_result\<rparr>)"

definition same_view :: "db \<Rightarrow> mem_store \<Rightarrow> bool" where
  "same_view d s \<longleftrightarrow> pg_ok d \<and> mem_ok s \<and> (\<forall>i a. same_run (pg_runs d i a) (mem_runs s i a)) \<and> pg_entries d = mem_entries s"

lemma same_run_simps [simp]: "same_run x x"
  by (simp add: same_run_def)

lemma same_run_failed: "ru_status r = RunFailed \<Longrightarrow> r\<lparr>ru_result := no_result\<rparr> = r'\<lparr>ru_result := no_result\<rparr> \<Longrightarrow> same_run (Some r) (Some r')"
  by (simp add: same_run_def)

lemma same_run_Some:
  assumes "same_run (Some r) y" "ru_status r \<noteq> RunDone"
  obtains r' where "y = Some r'" "ru_status r' \<noteq> RunDone" "r\<lparr>ru_result := no_result\<rparr> = r'\<lparr>ru_result := no_result\<rparr>"
proof -
  have st: "ru_status r = ru_status r'" if "r\<lparr>ru_result := no_result\<rparr> = r'\<lparr>ru_result := no_result\<rparr>" for r'
    using arg_cong [OF that, of ru_status] by simp
  from assms(1) consider "y = Some r" | r' where "y = Some r'" "r\<lparr>ru_result := no_result\<rparr> = r'\<lparr>ru_result := no_result\<rparr>"
    unfolding same_run_def by blast
  then show thesis
  proof cases
    case 1
    then show thesis using assms(2) by (rule that) (rule refl)
  next
    case (2 r')
    then show thesis using assms(2) st [OF 2(2)] that [OF 2(1) _ 2(2)] by metis
  qed
qed

lemma same_run_done: "same_run x y \<Longrightarrow> is_done x \<longleftrightarrow> is_done y"
proof -
  have "ru_status r = ru_status r'" if "r\<lparr>ru_result := no_result\<rparr> = r'\<lparr>ru_result := no_result\<rparr>" for r r'
    using arg_cong [OF that, of ru_status] by simp
  then have st: "ru_status r = RunFailed \<Longrightarrow> r\<lparr>ru_result := no_result\<rparr> = r'\<lparr>ru_result := no_result\<rparr> \<Longrightarrow> ru_status r' = RunFailed" for r r'
    by metis
  assume "same_run x y"
  then consider "x = y" | r r' where "x = Some r" "y = Some r'" "ru_status r = RunFailed" "ru_status r' = RunFailed"
    unfolding same_run_def using st by blast
  then show ?thesis by cases (simp_all add: is_done_def)
qed

lemma same_result: "r\<lparr>ru_result := no_result\<rparr> = r'\<lparr>ru_result := no_result\<rparr> \<Longrightarrow> r\<lparr>ru_status := s, ru_steps := n, ru_result := res\<rparr> = r'\<lparr>ru_status := s, ru_steps := n, ru_result := res\<rparr>"
  by (cases r, cases r') simp

lemma stores_step:
  assumes "same_view d s" "guarded_op op d"
  shows "\<exists>s'. mem_op op s = Inr s' \<and> same_view (pg_op op d) s'"
proof (cases op)
  case (StartOp t i a m p)
  from assms(1) have ok: "pg_ok d" "mem_ok s" and v: "\<And>i a. same_run (pg_runs d i a) (mem_runs s i a)"
    and e: "pg_entries d = mem_entries s" by (auto simp: same_view_def)
  note dn = same_run_done [OF v, of i a]
  have "same_run (pg_runs (pg_start_run t i a m p d) i' a') (mem_runs (mem_start_run t i a m p s) i' a')" for i' a'
  proof (cases "is_done (pg_runs d i a)")
    case True
    with dn have "is_done (mem_runs s i a)" by simp
    with True show ?thesis by (simp only: pg.start_runs [OF ok(1)] mem.start_runs [OF ok(2)] if_True v)
  next
    case False
    with dn have "\<not> is_done (mem_runs s i a)" by simp
    with False show ?thesis by (simp only: pg.start_runs [OF ok(1)] mem.start_runs [OF ok(2)] if_False) (simp add: v)
  qed
  then have "same_view (pg_start_run t i a m p d) (mem_start_run t i a m p s)"
    by (simp add: same_view_def pg.start_inv ok mem.start_inv pg.start_entries mem.start_entries e)
  then show ?thesis by (simp add: StartOp)
next
  case (FinishOp t i a n res es)
  then obtain r where r: "pg_runs d i a = Some r" "ru_status r \<noteq> RunDone" using assms(2) by (auto split: option.splits)
  from assms(1) have ok: "pg_ok d" "mem_ok s" and "same_run (Some r) (mem_runs s i a)" by (auto simp: same_view_def r(1) [symmetric])
  with r(2) obtain r' where r': "mem_runs s i a = Some r'" "ru_status r' \<noteq> RunDone" "r\<lparr>ru_result := no_result\<rparr> = r'\<lparr>ru_result := no_result\<rparr>"
    by (auto elim: same_run_Some)
  obtain s' where s': "mem_finish_run t i a n res es s = Inr s'" using r'(1) by (simp add: mem_finish_run_def mem_runs_def)
  note m = mem.complete_inv [OF ok(2), of t i a n res es] mem.complete_runs [OF ok(2) r'(1,2), of t n res es]
    mem.complete_entries [OF ok(2) r'(1,2), of t n res es]
  have "done_run n res r = done_run n res r'" using same_result [OF r'(3)] by (simp add: done_run_def)
  then show ?thesis using assms(1) FinishOp m s' pg.complete_inv [OF ok(1), of t i a n res es]
      pg.complete_runs [OF ok(1) r, of t n res es] pg.complete_entries [OF ok(1) r, of t n res es]
    by (auto simp: same_view_def or_same_def)
next
  case (FailOp i a n e)
  then obtain r where r: "pg_runs d i a = Some r" "ru_status r \<noteq> RunDone" using assms(2) by (auto split: option.splits)
  from assms(1) have ok: "pg_ok d" "mem_ok s" and "same_run (Some r) (mem_runs s i a)" by (auto simp: same_view_def r(1) [symmetric])
  with r(2) obtain r' where r': "mem_runs s i a = Some r'" "ru_status r' \<noteq> RunDone" "r\<lparr>ru_result := no_result\<rparr> = r'\<lparr>ru_result := no_result\<rparr>"
    by (auto elim: same_run_Some)
  let ?g = "r'\<lparr>ru_agent := a, ru_status := RunFailed, ru_steps := n, ru_result := no_result\<lparr>rr_counts := [(''error'', JStr e)]\<rparr>\<rparr>"
  let ?s = "s\<lparr>ms_runs := (ms_runs s)((i, a) \<mapsto> ?g)\<rparr>"
  have s': "mem_fail_run i a n e s = Inr ?s" using r'(1) by (simp add: mem_fail_run_def mem_runs_def)
  have ag: "ru_agent r' = a" using ok(2) r'(1) by (auto simp: mem_ok_def mem_runs_def)
  have "same_run (Some (r\<lparr>ru_status := RunFailed, ru_steps := n\<rparr>)) (Some ?g)"
    using same_result [OF r'(3), where s = RunFailed and n = n and res = no_result] ag by (intro same_run_failed) (cases r', simp_all)
  then show ?thesis using assms(1) FailOp s' pg.abandon_inv [OF ok(1), of i a n e] pg_runs_fail [OF r, of n e]
      pg.abandon_entries [OF ok(1) r, of n e] mem.abandon_inv [OF ok(2), of i a n e]
    by (auto simp: same_view_def or_same_def mem_runs_def mem_entries_def)
qed

lemma stores_agree:
  assumes "same_view d s" "guarded_ops ops d"
  shows "\<exists>s'. mem_ops ops s = Inr s' \<and> same_view (fold pg_op ops d) s'"
  using assms
proof (induction ops arbitrary: d s)
  case (Cons op ops)
  then obtain s1 where "mem_op op s = Inr s1" "same_view (pg_op op d) s1" using stores_step [of d s op] by auto
  with Cons.IH [of "pg_op op d" s1] Cons.prems show ?case by auto
qed simp

definition empty_mem :: mem_store where
  "empty_mem = \<lparr>ms_evidence = [], ms_tool_calls = [], ms_calls = [], ms_runs = (\<lambda>k. None), ms_board = (\<lambda>i. [])\<rparr>"

lemma same_view_empty: "same_view empty_db empty_mem"
  by (auto simp: same_view_def pg_ok_def mem_ok_def empty_db_def empty_mem_def pg_runs_def mem_runs_def pg_entries_def mem_entries_def)

end
