(* ===== verification/Citations.thy ===== *)
theory Citations
  imports Actions AgentSchemas
begin

text \<open>
  The citation check (\<open>app/agents/citations.py\<close>): which of an agent's claims stand. \<open>known\<close>
  maps the evidence ids of the incident to the tool that produced them, \<open>shown\<close> lists the
  ids the agent was given.
\<close>

type_synonym known = "string \<Rightarrow> string option"

fun signal_text :: "signal \<Rightarrow> string" where
  "signal_text SMetrics = ''metrics''"
| "signal_text SLogs = ''logs''"
| "signal_text STraces = ''traces''"
| "signal_text SChanges = ''changes''"
| "signal_text SFlags = ''flags''"

fun finding_kind_text :: "finding_kind \<Rightarrow> string" where
  "finding_kind_text Fact = ''fact''"
| "finding_kind_text Inference = ''inference''"
| "finding_kind_text Hypothesis = ''hypothesis''"

fun SIGNAL_TOOLS :: "signal \<Rightarrow> string list" where
  "SIGNAL_TOOLS SMetrics = [''prom_query'', ''prom_range'']"
| "SIGNAL_TOOLS SLogs = [''logs_search'']"
| "SIGNAL_TOOLS STraces = [''traces_search'', ''trace_get'']"
| "SIGNAL_TOOLS SChanges = [''rollout_history'', ''deploy_diff'', ''k8s_events'']"
| "SIGNAL_TOOLS SFlags = [''flag_state'']"

definition KNOWLEDGE_TOOLS :: "string list" where
  "KNOWLEDGE_TOOLS = [''kb_search'']"

definition KNOWLEDGE_ONLY :: string where
  "KNOWLEDGE_ONLY =
     ''cites only knowledge base results; a runbook says what usually happens, not what happened now. '' @
     ''Cite a live result too, or call it a hypothesis''"

record 'a checked =
  ck_value :: 'a
  ck_problems :: "string list"
  ck_dropped :: nat

section \<open>The checks\<close>

fun id_problems :: "string list \<Rightarrow> known \<Rightarrow> string list \<Rightarrow> string \<Rightarrow> string list" where
  "id_problems [] known shown label = []"
| "id_problems (ev # ids) known shown label =
     (if known ev = None then (label @ '': '' @ ev @ '' is not an evidence id of this incident'') # id_problems ids known shown label
      else if ev \<notin> set shown then (label @ '': '' @ ev @ '' was not in the results you were given'') # id_problems ids known shown label
      else id_problems ids known shown label)"

text \<open>The set of tools behind the cited ids.\<close>

definition tools_of :: "known \<Rightarrow> string list \<Rightarrow> string list" where
  "tools_of known ids = remdups (List.map_filter known ids)"

definition live_of :: "string list \<Rightarrow> string list" where
  "live_of tools = filter (\<lambda>t. t \<notin> set KNOWLEDGE_TOOLS) tools"

definition finding_problems :: "finding \<Rightarrow> string \<Rightarrow> known \<Rightarrow> string list \<Rightarrow> string list" where
  "finding_problems f label known shown =
     (let tools = tools_of known (f_evidence_ids f); live = live_of tools; kind = finding_kind_text (f_kind f)
      in id_problems (f_evidence_ids f) known shown label @
         (if f_kind f \<noteq> Hypothesis \<and> f_evidence_ids f = []
          then [label @ '': a '' @ kind @ '' needs at least one evidence id (or call it a hypothesis)''] else []) @
         (if f_kind f \<noteq> Hypothesis \<and> tools \<noteq> [] \<and> live = []
          then [label @ '': a '' @ kind @ '' '' @ KNOWLEDGE_ONLY]
          else if live \<noteq> [] \<and> \<not> list_ex (\<lambda>t. t \<in> set (SIGNAL_TOOLS (f_signal f))) live
          then [label @ '': signal is '' @ signal_text (f_signal f) @ '' but it cites only '' @
                join '', '' (sort tools) @ '' results; cite a '' @ join ''/'' (sort (SIGNAL_TOOLS (f_signal f))) @
                '' result or fix the signal'']
          else []))"

text \<open>The loop over the items of a list: the ones without a problem, and all problems.\<close>

fun keep_from :: "nat \<Rightarrow> (string \<Rightarrow> 'a \<Rightarrow> string list) \<Rightarrow> string \<Rightarrow> 'a list \<Rightarrow> 'a list \<times> string list" where
  "keep_from i probs name [] = ([], [])"
| "keep_from i probs name (x # xs) =
     (let p = probs (name @ ''['' @ dec i @ '']'') x; (kept, ps) = keep_from (Suc i) probs name xs
      in (if p = [] then x # kept else kept, p @ ps))"

definition check_report :: "investigator_report \<Rightarrow> known \<Rightarrow> string list \<Rightarrow> investigator_report checked" where
  "check_report rep known shown =
     (let (kept, problems) = keep_from 0 (\<lambda>label f. finding_problems f label known shown) ''findings'' (ir_findings rep)
      in \<lparr>ck_value = rep\<lparr>ir_findings := kept\<rparr>, ck_problems = problems,
          ck_dropped = length (ir_findings rep) - length kept\<rparr>)"

text \<open>What \<open>_keep\<close> asks of one item that cites \<open>ids\<close>.\<close>

definition cited_problems :: "bool \<Rightarrow> known \<Rightarrow> string list \<Rightarrow> string \<Rightarrow> string list \<Rightarrow> string list" where
  "cited_problems live known shown label ids =
     (let tools = tools_of known ids
      in id_problems ids known shown label @
         (if live \<and> tools \<noteq> [] \<and> list_all (\<lambda>t. t \<in> set KNOWLEDGE_TOOLS) tools
          then [label @ '': '' @ KNOWLEDGE_ONLY] else []))"

definition keep_items :: "('a \<Rightarrow> string list) \<Rightarrow> bool \<Rightarrow> string \<Rightarrow> known \<Rightarrow> string list \<Rightarrow> 'a list \<Rightarrow> 'a list \<times> string list" where
  "keep_items ids live name known shown items =
     keep_from 0 (\<lambda>label x. cited_problems live known shown label (ids x)) name items"

definition check_diagnosis :: "diagnosis \<Rightarrow> known \<Rightarrow> string list \<Rightarrow> diagnosis checked" where
  "check_diagnosis dx known shown =
     (let (root_causes, p1) = keep_items rc_evidence_ids True ''root_causes'' known shown (dx_root_causes dx);
          (facts, p2) = keep_items cl_evidence_ids True ''facts'' known shown (dx_facts dx);
          (inferences, p3) = keep_items cl_evidence_ids True ''inferences'' known shown (dx_inferences dx)
      in \<lparr>ck_value = dx\<lparr>dx_root_causes := root_causes, dx_facts := facts, dx_inferences := inferences\<rparr>,
          ck_problems = p1 @ p2 @ p3,
          ck_dropped = (length (dx_root_causes dx) - length root_causes) + (length (dx_facts dx) - length facts) +
            (length (dx_inferences dx) - length inferences)\<rparr>)"

definition check_plan :: "remediation_plan \<Rightarrow> known \<Rightarrow> string list \<Rightarrow> remediation_plan checked" where
  "check_plan plan known shown =
     (let (actions, problems) = keep_items a_evidence_ids False ''actions'' known shown (rp_actions plan)
      in \<lparr>ck_value = plan\<lparr>rp_actions := actions\<rparr>, ck_problems = problems,
          ck_dropped = length (rp_actions plan) - length actions\<rparr>)"

section \<open>What passes\<close>

definition shown_and_known :: "known \<Rightarrow> string list \<Rightarrow> string list \<Rightarrow> bool" where
  "shown_and_known known shown ids \<longleftrightarrow> list_all (\<lambda>ev. known ev \<noteq> None \<and> ev \<in> set shown) ids"

definition cites_live :: "known \<Rightarrow> string list \<Rightarrow> bool" where
  "cites_live known ids \<longleftrightarrow> list_ex (\<lambda>ev. case known ev of None \<Rightarrow> False | Some t \<Rightarrow> t \<notin> set KNOWLEDGE_TOOLS) ids"

lemma id_problems_Nil [simp]: "id_problems ids known shown label = [] \<longleftrightarrow> shown_and_known known shown ids"
  by (induction ids) (auto simp: shown_and_known_def)

lemma set_tools_of: "t \<in> set (tools_of known ids) \<longleftrightarrow> (\<exists>ev \<in> set ids. known ev = Some t)"
  by (force simp: tools_of_def List.map_filter_def)

lemma live_of_tools: "live_of (tools_of known ids) = [] \<longleftrightarrow> \<not> cites_live known ids"
  by (auto simp: live_of_def filter_empty_conv set_tools_of cites_live_def list_ex_iff split: option.splits)

lemma tools_of_Nil: "shown_and_known known shown ids \<Longrightarrow> tools_of known ids = [] \<longleftrightarrow> ids = []"
proof -
  assume "shown_and_known known shown ids"
  then have "set (tools_of known ids) = {} \<longleftrightarrow> ids = []"
    by (cases ids) (auto simp: set_tools_of shown_and_known_def set_eq_iff)
  then show ?thesis by simp
qed

text \<open>What a finding without a problem cites.\<close>

definition supported :: "known \<Rightarrow> string list \<Rightarrow> finding \<Rightarrow> bool" where
  "supported known shown f \<longleftrightarrow>
     shown_and_known known shown (f_evidence_ids f) \<and>
     (f_kind f \<noteq> Hypothesis \<longrightarrow> cites_live known (f_evidence_ids f)) \<and>
     (cites_live known (f_evidence_ids f) \<longrightarrow>
        list_ex (\<lambda>ev. case known ev of None \<Rightarrow> False | Some t \<Rightarrow> t \<notin> set KNOWLEDGE_TOOLS \<and> t \<in> set (SIGNAL_TOOLS (f_signal f)))
          (f_evidence_ids f))"

lemma finding_problems_Nil: "finding_problems f label known shown = [] \<longleftrightarrow> supported known shown f"
proof (cases "shown_and_known known shown (f_evidence_ids f)")
  case True
  have "list_ex (\<lambda>t. t \<in> set (SIGNAL_TOOLS (f_signal f))) (live_of (tools_of known (f_evidence_ids f))) \<longleftrightarrow>
      list_ex (\<lambda>ev. case known ev of None \<Rightarrow> False | Some t \<Rightarrow> t \<notin> set KNOWLEDGE_TOOLS \<and> t \<in> set (SIGNAL_TOOLS (f_signal f)))
        (f_evidence_ids f)"
    by (auto simp: list_ex_iff live_of_def set_tools_of split: option.splits)
  with True show ?thesis
    using tools_of_Nil [OF True] live_of_tools [of known "f_evidence_ids f"]
    by (auto simp: finding_problems_def supported_def Let_def cites_live_def)
qed (simp add: finding_problems_def supported_def Let_def)

lemma cited_problems_Nil:
  "cited_problems live known shown label ids = [] \<longleftrightarrow>
     shown_and_known known shown ids \<and> (live \<and> ids \<noteq> [] \<longrightarrow> cites_live known ids)"
proof (cases "shown_and_known known shown ids")
  case True
  have "list_all (\<lambda>t. t \<in> set KNOWLEDGE_TOOLS) (tools_of known ids) \<longleftrightarrow> live_of (tools_of known ids) = []"
    by (auto simp: list_all_iff live_of_def filter_empty_conv)
  with True tools_of_Nil [OF True] live_of_tools [of known ids] show ?thesis
    by (auto simp: cited_problems_def Let_def)
qed (simp add: cited_problems_def Let_def)

text \<open>The loop keeps exactly the items without a problem, in order.\<close>

lemma keep_from_filter:
  assumes "\<And>label x. probs label x = [] \<longleftrightarrow> ok x"
  shows "fst (keep_from i probs name xs) = filter ok xs \<and>
    (snd (keep_from i probs name xs) = [] \<longleftrightarrow> list_all ok xs)"
  by (induction xs arbitrary: i) (simp_all add: assms Let_def case_prod_beta)

lemma keep_from_eq:
  assumes "keep_from i probs name xs = (kept, ps)" "\<And>label x. probs label x = [] \<longleftrightarrow> ok x"
  shows "kept = filter ok xs" "ps = [] \<longleftrightarrow> list_all ok xs"
  using keep_from_filter [of probs ok i name xs] assms by simp_all

definition cites_ok :: "bool \<Rightarrow> known \<Rightarrow> string list \<Rightarrow> string list \<Rightarrow> bool" where
  "cites_ok live known shown ids \<longleftrightarrow> shown_and_known known shown ids \<and> (live \<and> ids \<noteq> [] \<longrightarrow> cites_live known ids)"

lemma keep_items_eq:
  "fst (keep_items ids live name known shown xs) = filter (\<lambda>x. cites_ok live known shown (ids x)) xs"
  "snd (keep_items ids live name known shown xs) = [] \<longleftrightarrow> list_all (\<lambda>x. cites_ok live known shown (ids x)) xs"
  using keep_from_filter [of "\<lambda>label x. cited_problems live known shown label (ids x)"
      "\<lambda>x. cites_ok live known shown (ids x)" 0 name xs]
  by (simp_all add: keep_items_def cited_problems_Nil cites_ok_def)

lemma check_report_eq:
  "ck_value (check_report rep known shown) = rep\<lparr>ir_findings := filter (supported known shown) (ir_findings rep)\<rparr>"
  "ck_problems (check_report rep known shown) = [] \<longleftrightarrow> list_all (supported known shown) (ir_findings rep)"
  "ck_dropped (check_report rep known shown) = length (filter (\<lambda>f. \<not> supported known shown f) (ir_findings rep))"
  using keep_from_eq [OF prod.collapse [symmetric], of "\<lambda>label f. finding_problems f label known shown" "supported known shown"
      0 "''findings''" "ir_findings rep"] sum_length_filter_compl [of "supported known shown" "ir_findings rep"]
  by (auto simp: check_report_def finding_problems_Nil case_prod_beta)

lemma check_diagnosis_value:
  "ck_value (check_diagnosis dx known shown) =
     dx\<lparr>dx_root_causes := filter (\<lambda>r. cites_ok True known shown (rc_evidence_ids r)) (dx_root_causes dx),
       dx_facts := filter (\<lambda>c. cites_ok True known shown (cl_evidence_ids c)) (dx_facts dx),
       dx_inferences := filter (\<lambda>c. cites_ok True known shown (cl_evidence_ids c)) (dx_inferences dx)\<rparr>"
  by (simp add: check_diagnosis_def case_prod_beta keep_items_eq)

lemma check_diagnosis_problems:
  "ck_problems (check_diagnosis dx known shown) = [] \<longleftrightarrow>
     list_all (\<lambda>r. cites_ok True known shown (rc_evidence_ids r)) (dx_root_causes dx) \<and>
     list_all (\<lambda>c. cites_ok True known shown (cl_evidence_ids c)) (dx_facts dx) \<and>
     list_all (\<lambda>c. cites_ok True known shown (cl_evidence_ids c)) (dx_inferences dx)"
  by (simp add: check_diagnosis_def case_prod_beta keep_items_eq)

lemma check_plan_eq:
  "ck_value (check_plan p known shown) = p\<lparr>rp_actions := filter (\<lambda>a. cites_ok False known shown (a_evidence_ids a)) (rp_actions p)\<rparr>"
  "ck_problems (check_plan p known shown) = [] \<longleftrightarrow> list_all (\<lambda>a. cites_ok False known shown (a_evidence_ids a)) (rp_actions p)"
  by (simp_all add: check_plan_def case_prod_beta keep_items_eq)

section \<open>What the checks guarantee\<close>

text \<open>Checking a checked answer changes nothing and reports nothing.\<close>

lemma check_report_idem:
  "check_report (ck_value (check_report rep known shown)) known shown =
     \<lparr>ck_value = ck_value (check_report rep known shown), ck_problems = [], ck_dropped = 0\<rparr>"
  by (rule checked.equality) (simp_all add: check_report_eq list_all_iff filter_empty_conv)

lemma check_diagnosis_ok:
  "ck_problems (check_diagnosis dx known shown) = [] \<Longrightarrow> ck_value (check_diagnosis dx known shown) = dx"
  by (simp add: check_diagnosis_problems check_diagnosis_value list_all_iff)

lemma check_diagnosis_valid: "valid_diagnosis dx \<Longrightarrow> valid_diagnosis (ck_value (check_diagnosis dx known shown))"
  by (auto simp: check_diagnosis_value valid_diagnosis_def list_all_iff intro: le_trans [OF length_filter_le])

lemma check_report_valid: "valid_report rep \<Longrightarrow> valid_report (ck_value (check_report rep known shown))"
  by (auto simp: check_report_eq valid_report_def list_all_iff intro: le_trans [OF length_filter_le])

text \<open>Every root cause, fact and inference that is left rests on a live result the agent was shown.\<close>

definition rests_on :: "known \<Rightarrow> string list \<Rightarrow> string list \<Rightarrow> bool" where
  "rests_on known shown ids \<longleftrightarrow>
     list_all (\<lambda>ev. known ev \<noteq> None \<and> ev \<in> set shown) ids \<and>
     list_ex (\<lambda>ev. case known ev of None \<Rightarrow> False | Some t \<Rightarrow> t \<notin> set KNOWLEDGE_TOOLS) ids"

lemma cites_ok_rests_on: "cites_ok True known shown ids \<Longrightarrow> ids \<noteq> [] \<Longrightarrow> rests_on known shown ids"
  by (simp add: cites_ok_def rests_on_def shown_and_known_def cites_live_def)

lemma check_diagnosis_rests:
  assumes "valid_diagnosis dx"
  shows "list_all (\<lambda>r. rests_on known shown (rc_evidence_ids r)) (dx_root_causes (ck_value (check_diagnosis dx known shown))) \<and>
    list_all (\<lambda>c. rests_on known shown (cl_evidence_ids c)) (dx_facts (ck_value (check_diagnosis dx known shown))) \<and>
    list_all (\<lambda>c. rests_on known shown (cl_evidence_ids c)) (dx_inferences (ck_value (check_diagnosis dx known shown)))"
  using assms
  by (fastforce simp: check_diagnosis_value list_all_iff valid_diagnosis_def valid_root_cause_def valid_claim_def
      intro!: cites_ok_rests_on)

lemma check_report_supported: "list_all (supported known shown) (ir_findings (ck_value (check_report rep known shown)))"
  by (simp add: check_report_eq list_all_iff)

text \<open>What the diagnosis cites after the check was shown to the agent.\<close>

lemma check_diagnosis_cited: "ev \<in> set (dx_cited (ck_value (check_diagnosis dx known shown))) \<Longrightarrow> known ev \<noteq> None \<and> ev \<in> set shown"
  by (auto simp: dx_cited_iff check_diagnosis_value cites_ok_def shown_and_known_def list_all_iff)

end
