(* ===== verification/Backends.thy ===== *)
theory Backends
  imports Llm
begin

text \<open>
  How a request is put to a model and its answer read: the Messages API (\<open>app/llm/api.py\<close>) and
  the text prompt (\<open>app/llm/render.py\<close>; its step schema is in StepSchema). The HTTP exchange is a parameter. Content blocks of an answer are the
  dictionaries the API documents: a text block has a text, a tool use a name.
\<close>

section \<open>Messages\<close>

datatype block = TextBlock string | ToolUse string string json | ToolResult string string bool

datatype role = User | Assistant

type_synonym message = "role \<times> block list"

definition FINAL_TOOL :: string where
  "FINAL_TOOL = ''submit_final''"

definition append_block :: "role \<Rightarrow> block \<Rightarrow> message list \<Rightarrow> message list" where
  "append_block rl b ms =
     (if ms \<noteq> [] \<and> fst (last ms) = rl then butlast ms @ [(rl, snd (last ms) @ [b])] else ms @ [(rl, [b])])"

definition append_blocks :: "role \<Rightarrow> block list \<Rightarrow> message list \<Rightarrow> message list" where
  "append_blocks rl bs ms = foldl (\<lambda>ms b. append_block rl b ms) ms bs"

definition final_id :: "nat \<Rightarrow> string" where
  "final_id i = ''final_'' @ dec i"

definition step_blocks :: "nat \<Rightarrow> string \<Rightarrow> llm_action list \<Rightarrow> json option \<Rightarrow> block list" where
  "step_blocks i reasoning actions final =
     (if reasoning \<noteq> '''' then [TextBlock reasoning] else []) @
     map (\<lambda>a. ToolUse (ac_id a) (ac_tool a) (JObj (ac_args a))) actions @
     (case final of None \<Rightarrow> [] | Some f \<Rightarrow> [ToolUse (final_id i) FINAL_TOOL f])"

text \<open>The loop of \<open>render_messages\<close>: the turn's number, the pending final, the messages so far.\<close>

fun render_from :: "nat \<Rightarrow> string option \<Rightarrow> message list \<Rightarrow> turn list \<Rightarrow> message list" where
  "render_from i pending ms [] = ms"
| "render_from i pending ms (UserTurn t # ts) =
     (case pending of
        Some p \<Rightarrow> render_from (Suc i) None (append_block User (ToolResult p t True) ms) ts
      | None \<Rightarrow> render_from (Suc i) None (append_block User (TextBlock t) ms) ts)"
| "render_from i pending ms (StepTurn reasoning actions final # ts) =
     render_from (Suc i) (case final of None \<Rightarrow> pending | Some f \<Rightarrow> Some (final_id i))
       (append_blocks Assistant (step_blocks i reasoning actions final) ms) ts"
| "render_from i pending ms (ResultsTurn rs # ts) =
     render_from (Suc i) pending (append_blocks User (map (\<lambda>r. ToolResult (rs_id r) (rs_content r) False) rs) ms) ts"

definition render_messages :: "turn list \<Rightarrow> message list" where
  "render_messages ts = render_from 0 None [] ts"

text \<open>What the API asks of a conversation: every tool use is answered first thing in the next message.\<close>

fun use_id :: "block \<Rightarrow> string option" where
  "use_id (ToolUse i n a) = Some i"
| "use_id b = None"

fun result_id :: "block \<Rightarrow> string option" where
  "result_id (ToolResult i c e) = Some i"
| "result_id b = None"

definition uses :: "block list \<Rightarrow> string list" where
  "uses bs = List.map_filter use_id bs"

definition answered_by :: "block list \<Rightarrow> block list \<Rightarrow> bool" where
  "answered_by bs cs \<longleftrightarrow> (\<exists>n. map result_id cs = map Some (uses bs) @ replicate n None)"

definition conversation :: "message list \<Rightarrow> bool" where
  "conversation ms \<longleftrightarrow>
     ms \<noteq> [] \<and> fst (hd ms) = User \<and> fst (last ms) = User \<and>
     successively (\<lambda>a b. fst a \<noteq> fst b \<and> (fst a = Assistant \<longrightarrow> answered_by (snd a) (snd b))) ms"

text \<open>The transcripts the agent loop builds: a step is answered by its results, a final by feedback.\<close>

fun wf_turns :: "turn list \<Rightarrow> bool" where
  "wf_turns [] = True"
| "wf_turns (UserTurn t # ts) = wf_turns ts"
| "wf_turns (StepTurn r as None # ResultsTurn rs # ts) = (as \<noteq> [] \<and> map ac_id as = map rs_id rs \<and> wf_turns ts)"
| "wf_turns (StepTurn r as (Some f) # UserTurn t # ts) = (as = [] \<and> wf_turns ts)"
| "wf_turns ts = False"

definition wf_transcript :: "turn list \<Rightarrow> bool" where
  "wf_transcript ts \<longleftrightarrow> (\<exists>t rest. ts = UserTurn t # rest) \<and> wf_turns ts"

lemma append_blocks_same: "append_blocks rl bs (ms @ [(rl, cs)]) = ms @ [(rl, cs @ bs)]"
  by (induction bs arbitrary: cs) (simp_all add: append_blocks_def append_block_def)

lemma append_blocks_new:
  assumes "bs \<noteq> []" "rl' \<noteq> rl"
  shows "append_blocks rl bs (ms @ [(rl', cs)]) = ms @ [(rl', cs), (rl, bs)]"
proof -
  obtain b bs' where bs: "bs = b # bs'" using assms(1) by (cases bs) auto
  have "append_blocks rl bs (ms @ [(rl', cs)]) = append_blocks rl bs' ((ms @ [(rl', cs)]) @ [(rl, [b])])"
    using assms(2) by (simp add: bs append_blocks_def append_block_def)
  also have "\<dots> = (ms @ [(rl', cs)]) @ [(rl, [b] @ bs')]" by (rule append_blocks_same)
  finally show ?thesis by (simp add: bs)
qed

lemma append_block_eq: "append_block rl b ms = append_blocks rl [b] ms"
  by (simp add: append_blocks_def)

lemma uses_simps [simp]: "uses [] = []" "uses (b # bs) = (case use_id b of None \<Rightarrow> uses bs | Some i \<Rightarrow> i # uses bs)"
  by (simp_all add: uses_def map_filter_simps split: option.splits)

lemma uses_append: "uses (xs @ ys) = uses xs @ uses ys"
  by (induction xs) (auto split: option.splits)

lemma uses_actions: "uses (map (\<lambda>a. ToolUse (ac_id a) (ac_tool a) (JObj (ac_args a))) as) = map ac_id as"
  by (induction as) simp_all

lemma uses_step: "uses (step_blocks i r as f) = map ac_id as @ (case f of None \<Rightarrow> [] | Some x \<Rightarrow> [final_id i])"
  by (auto simp: step_blocks_def uses_append uses_actions split: option.splits)

lemma conversation_snoc: "conversation ms \<Longrightarrow> \<exists>ms' cs. ms = ms' @ [(User, cs)]"
  by (cases ms rule: rev_cases) (auto simp: conversation_def)

lemma answered_by_text: "answered_by bs cs \<Longrightarrow> answered_by bs (cs @ [TextBlock t])"
  unfolding answered_by_def
  by (metis append.assoc list.simps(8) list.simps(9) map_append replicate_Suc replicate_append_same result_id.simps(2))

lemma conversation_text:
  assumes "conversation (ms @ [(User, cs)])"
  shows "conversation (ms @ [(User, cs @ [TextBlock t])])"
  using assms answered_by_text
  by (cases ms rule: rev_cases) (auto simp: conversation_def successively_append_iff hd_append split: if_splits)

lemma conversation_turn:
  assumes "conversation (ms @ [(User, cs)])" "answered_by bs ds"
  shows "conversation (ms @ [(User, cs), (Assistant, bs), (User, ds)])"
  using assms
  by (cases ms rule: rev_cases) (auto simp: conversation_def successively_append_iff hd_append split: if_splits)

lemma render_conversation: "wf_turns ts \<Longrightarrow> conversation ms \<Longrightarrow> conversation (render_from i None ms ts)"
proof (induction ts arbitrary: i ms rule: wf_turns.induct)
  case (2 t ts)
  obtain ms' cs where ms: "ms = ms' @ [(User, cs)]" using conversation_snoc [OF 2(3)] by blast
  have "conversation (append_block User (TextBlock t) ms)"
    using conversation_text [of ms' cs t] 2(3) by (simp add: ms append_block_eq append_blocks_same)
  with 2 show ?case by simp
next
  case (3 r as rs ts)
  obtain ms' cs where ms: "ms = ms' @ [(User, cs)]" using conversation_snoc [OF 3(3)] by blast
  let ?bs = "step_blocks i r as None" and ?ds = "map (\<lambda>r. ToolResult (rs_id r) (rs_content r) False) rs"
  have ne: "?bs \<noteq> []" "?ds \<noteq> []" using 3(2) by (auto simp: step_blocks_def)
  have r1: "append_blocks Assistant ?bs ms = ms' @ [(User, cs), (Assistant, ?bs)]"
    using append_blocks_new [OF ne(1)] by (simp add: ms)
  have r2: "append_blocks User ?ds (ms' @ [(User, cs), (Assistant, ?bs)]) = ms' @ [(User, cs), (Assistant, ?bs), (User, ?ds)]"
    using append_blocks_new [OF ne(2), of Assistant User "ms' @ [(User, cs)]"] by simp
  have "map result_id ?ds = map Some (map rs_id rs)" by simp
  then have "answered_by ?bs ?ds" using 3(2) by (auto simp: answered_by_def uses_step intro!: exI [of _ 0])
  from conversation_turn [OF 3(3) [unfolded ms] this] 3 show ?case by (simp add: r1 r2)
next
  case (4 r as f t ts)
  obtain ms' cs where ms: "ms = ms' @ [(User, cs)]" using conversation_snoc [OF 4(3)] by blast
  from 4(2) have as: "as = []" by simp
  let ?bs = "step_blocks i r [] (Some f)" and ?ds = "[ToolResult (final_id i) t True]"
  have ne: "?bs \<noteq> []" by (simp add: step_blocks_def)
  have r1: "append_blocks Assistant ?bs ms = ms' @ [(User, cs), (Assistant, ?bs)]"
    using append_blocks_new [OF ne] by (simp add: ms)
  have r2: "append_blocks User ?ds (ms' @ [(User, cs), (Assistant, ?bs)]) = ms' @ [(User, cs), (Assistant, ?bs), (User, ?ds)]"
    using append_blocks_new [of ?ds Assistant User "ms' @ [(User, cs)]"] by simp
  have "answered_by ?bs ?ds" by (auto simp: answered_by_def uses_step intro!: exI [of _ 0])
  from conversation_turn [OF 4(3) [unfolded ms] this] 4 show ?case by (simp add: as r1 r2 append_block_eq)
qed simp_all

lemma render_wf: "wf_transcript ts \<Longrightarrow> conversation (render_messages ts)"
  using render_conversation [of _ "[(User, [TextBlock _])]" 1]
  by (auto simp: wf_transcript_def render_messages_def append_block_def conversation_def)

section \<open>The request body\<close>

fun block_json :: "block \<Rightarrow> obj" where
  "block_json (TextBlock t) = [(''type'', JStr ''text''), (''text'', JStr t)]"
| "block_json (ToolUse i n a) = [(''type'', JStr ''tool_use''), (''id'', JStr i), (''name'', JStr n), (''input'', a)]"
| "block_json (ToolResult i c e) =
     [(''type'', JStr ''tool_result''), (''tool_use_id'', JStr i), (''content'', JStr c)] @
     (if e then [(''is_error'', JBool True)] else [])"

fun role_text :: "role \<Rightarrow> string" where
  "role_text User = ''user''"
| "role_text Assistant = ''assistant''"

definition CACHE :: json where
  "CACHE = JObj [(''type'', JStr ''ephemeral'')]"

definition with_cache :: "obj \<Rightarrow> obj" where
  "with_cache kvs = dict_put ''cache_control'' CACHE kvs"

definition on_last :: "('a \<Rightarrow> 'a) \<Rightarrow> 'a list \<Rightarrow> 'a list" where
  "on_last f xs = (if xs = [] then [] else butlast xs @ [f (last xs)])"

text \<open>The messages as JSON, the last block of the last one marked as a cache breakpoint.\<close>

definition messages_json :: "message list \<Rightarrow> json" where
  "messages_json ms =
     (let blocks = map (\<lambda>(rl, bs). (rl, map block_json bs)) ms;
          marked = on_last (\<lambda>(rl, bs). (rl, on_last with_cache bs)) blocks
      in JArr (map (\<lambda>(rl, bs). JObj [(''role'', JStr (role_text rl)), (''content'', JArr (map JObj bs))]) marked))"

definition final_tool :: "json \<Rightarrow> obj" where
  "final_tool schema = [(''name'', JStr FINAL_TOOL),
     (''description'', JStr ''Give your final answer. Call it alone, when you have enough evidence.''), (''input_schema'', schema)]"

definition tool_choice :: "llm_request \<Rightarrow> json" where
  "tool_choice r =
     (if rq_tools r \<noteq> [] \<and> \<not> rq_force_final r
      then JObj [(''type'', JStr ''any''), (''disable_parallel_tool_use'', JBool False)]
      else JObj [(''type'', JStr ''tool''), (''name'', JStr FINAL_TOOL)])"

definition request_body :: "nat \<Rightarrow> llm_request \<Rightarrow> json" where
  "request_body max_tokens r = JObj
     [(''model'', JStr (rq_model r)), (''max_tokens'', JInt (int max_tokens)),
      (''system'', JArr [JObj [(''type'', JStr ''text''), (''text'', JStr (rq_system r)), (''cache_control'', CACHE)]]),
      (''tools'', JArr (rq_tools r @ [JObj (with_cache (final_tool (rq_final_schema r)))])),
      (''tool_choice'', tool_choice r), (''messages'', messages_json (render_messages (rq_turns r)))]"

section \<open>The answer\<close>

definition get_str :: "obj \<Rightarrow> string \<Rightarrow> string" where
  "get_str kvs k = (case jget kvs k of Some (JStr s) \<Rightarrow> s | _ \<Rightarrow> '''')"

definition block_type :: "obj \<Rightarrow> string" where
  "block_type b = get_str b ''type''"

definition parse_content :: "obj list \<Rightarrow> json" where
  "parse_content content =
     (let reasoning = strip (join '' '' (map (\<lambda>b. strip (get_str b ''text'')) (filter (\<lambda>b. block_type b = ''text'') content)));
          calls = filter (\<lambda>b. block_type b = ''tool_use'') content;
          finals = filter (\<lambda>b. get_str b ''name'' = FINAL_TOOL) calls;
          actions = map (\<lambda>b. JObj [(''tool'', JStr (get_str b ''name'')),
              (''args'', case jget b ''input'' of Some a \<Rightarrow> if truthy a then a else JObj [] | None \<Rightarrow> JObj [])])
            (filter (\<lambda>b. get_str b ''name'' \<noteq> FINAL_TOOL) calls);
          final = (if finals \<noteq> [] \<and> actions = [] then jopt id (jget (hd finals) ''input'') else JNull)
      in JObj [(''reasoning'', JStr reasoning), (''actions'', JArr actions), (''final'', final)])"

text \<open>\<open>retry_after\<close> is the header as a float, if it is one; \<open>detail\<close> the error's message.\<close>

definition classify_status :: "int \<Rightarrow> string \<Rightarrow> rat option \<Rightarrow> llm_error" where
  "classify_status status detail retry_after =
     (let message = ''HTTP '' @ dec_int status @ '': '' @ detail
      in if status = 429 then LLMError ''rate_limited'' message True retry_after
         else if status = 529 then LLMError ''overloaded'' message True None
         else if status \<ge> 500 then LLMError ''unavailable'' message True None
         else if status = 401 \<or> status = 403 then LLMError ''auth'' message False None
         else LLMError ''bad_request'' message False None)"

text \<open>How the HTTP exchange ends; the fields of a 200 answer that are read.\<close>

datatype api_answer =
    ApiTimeout string
  | ApiHTTPError string
  | ApiStatus int string "rat option"
  | ApiOk string "obj list" usage string

definition api_step :: "(string \<Rightarrow> string) \<Rightarrow> nat \<Rightarrow> (json \<Rightarrow> 's \<Rightarrow> api_answer \<times> 's) \<Rightarrow> 's backend" where
  "api_step sha max_tokens post r s =
     (case post (request_body max_tokens r) s of
        (ApiTimeout e, s') \<Rightarrow> (Inl (LLMError ''timeout'' (''Messages API: '' @ e) True None), s')
      | (ApiHTTPError e, s') \<Rightarrow> (Inl (LLMError ''unavailable'' (''Messages API: '' @ e) True None), s')
      | (ApiStatus status detail after, s') \<Rightarrow> (Inl (classify_status status detail after), s')
      | (ApiOk stop_reason content usage model, s') \<Rightarrow>
          if stop_reason = ''max_tokens''
          then (Inl (LLMError ''invalid_output'' (''the step was cut off at '' @ dec max_tokens @ '' tokens'') True None), s')
          else (bindS (normalize_step (parse_content content)) (\<lambda>st.
            Inr \<lparr>lr_step = st, lr_usage = usage, lr_model = (if model = '''' then rq_model r else model), lr_backend = ''api'',
                 lr_request_hash = request_hash sha r, lr_attempts = 1\<rparr>), s'))"

text \<open>A step the API gives back is well formed: actions or a final answer, the final only alone.\<close>

lemma parse_content_obj: "\<exists>re as f. parse_content content = JObj [(''reasoning'', JStr re), (''actions'', JArr as), (''final'', f)]"
  by (auto simp: parse_content_def Let_def)

lemma api_step_wf:
  "api_step sha n post r s = (Inr res, s') \<Longrightarrow> wf_step (lr_step res) \<and> lr_request_hash res = request_hash sha r"
  by (auto simp: api_step_def bindS_Inr_iff dest: normalize_step_wf split: api_answer.splits prod.splits if_splits)

text \<open>Only errors that may go away are retryable.\<close>

lemma classify_retryable: "le_retryable (classify_status status detail after) \<longleftrightarrow> status = 429 \<or> 500 \<le> status"
  by (auto simp: classify_status_def LLMError_def Let_def)

text \<open>A final answer is forced exactly where the request allows nothing else.\<close>

lemma tool_choice_final: "rq_tools r = [] \<or> rq_force_final r \<Longrightarrow> tool_choice r = JObj [(''type'', JStr ''tool''), (''name'', JStr FINAL_TOOL)]"
  by (auto simp: tool_choice_def)

section \<open>The text prompt\<close>

text \<open>\<open>json.dumps(value, ensure_ascii=False)\<close>: with blanks, in insertion order.\<close>

primrec dumps :: "json \<Rightarrow> string" where
  "dumps JNull = ''null''"
| "dumps (JBool b) = (if b then ''true'' else ''false'')"
| "dumps (JInt i) = dec_int i"
| "dumps (JFloat t) = t"
| "dumps (JStr s) = quoted s"
| "dumps (JArr xs) = ''['' @ join '', '' (map dumps xs) @ '']''"
| "dumps (JObj kvs) = ''{'' @ join '', '' (map (\<lambda>(k, t). quoted k @ '': '' @ t) (map (map_prod id dumps) kvs)) @ ''}''"

definition NL :: string where
  "NL = [CHR 0x0A]"

definition result_text :: "tool_result \<Rightarrow> string" where
  "result_text r = ''<result id='' @ [CHR 0x22] @ rs_id r @ [CHR 0x22] @ '' tool='' @ [CHR 0x22] @ rs_tool r @ [CHR 0x22] @ ''>'' @ NL @
     rs_content r @ NL @ ''</result>''"

fun transcript_parts :: "nat \<Rightarrow> turn list \<Rightarrow> string list" where
  "transcript_parts n [] = []"
| "transcript_parts n (UserTurn t # ts) = (''<message>'' @ NL @ t @ NL @ ''</message>'') # transcript_parts n ts"
| "transcript_parts n (StepTurn reasoning actions final # ts) =
     (let body = [(''reasoning'', JStr reasoning), (''actions'', JArr (map action_item actions))] @
            (case final of None \<Rightarrow> [] | Some f \<Rightarrow> [(''final'', f)])
      in (''<your_step n='' @ dec (Suc n) @ ''>'' @ NL @ dumps (JObj body) @ NL @ ''</your_step>'') # transcript_parts (Suc n) ts)"
| "transcript_parts n (ResultsTurn rs # ts) =
     (''<tool_results step='' @ dec n @ ''>'' @ NL @ join NL (map result_text rs) @ NL @ ''</tool_results>'') # transcript_parts n ts"

definition transcript_text :: "turn list \<Rightarrow> string \<Rightarrow> string" where
  "transcript_text turns final_instruction = join (NL @ NL) (transcript_parts 0 turns @ [final_instruction])"

end
