(* ===== verification/Loop.thy ===== *)
theory Loop
  imports AgentStore Citations Backends
begin

text \<open>
  The agent loop (\<open>app/agents/loop.py\<close>). An agent runs over the model backend and the tool
  source, which have a state of their own, and over the database, where every statement is a
  transaction of its own: what others commit before the \<open>k\<close>-th statement is \<open>dp_others k\<close>. The
  three tool calls of a step run in parallel in the code; here one after the other, each with
  what others do in between. Prompts are parameters, spans and costs are not modelled.
\<close>

definition MAX_ACTIONS :: nat where
  "MAX_ACTIONS = 3"

definition LAST_STEP_NOTE :: string where
  "LAST_STEP_NOTE = ''You have no more query steps. Give your final answer now, from the results you have.''"

datatype agent_exn = BudgetExceeded string | AgentFailed string | LLMRaisedError llm_error

text \<open>\<open>sp_parse\<close> is \<open>final_model.model_validate\<close>: the problems as (location, message), or the model.\<close>

record 'f agent_spec =
  sp_name :: string
  sp_prompt_text :: string
  sp_prompt_version :: string
  sp_tools :: "string list"
  sp_final_schema :: json
  sp_parse :: "json \<Rightarrow> (string \<times> string) list + 'f"
  sp_max_steps :: nat
  sp_max_rewrites :: nat

record 'f agent_run =
  run_final :: "'f option"
  run_steps :: nat
  run_tool_calls :: nat
  run_tool_errors :: nat
  run_rewrites :: nat
  run_dropped :: nat
  run_problems :: "string list"
  run_turns :: "turn list"
  run_shown :: "(string \<times> string) list"
  run_usage :: usage

definition new_run :: "string \<Rightarrow> 'f agent_run" where
  "new_run task = \<lparr>run_final = None, run_steps = 0, run_tool_calls = 0, run_tool_errors = 0, run_rewrites = 0, run_dropped = 0,
     run_problems = [], run_turns = [UserTurn task], run_shown = [], run_usage = no_usage\<rparr>"

definition run_summary :: "'f agent_run \<Rightarrow> obj" where
  "run_summary r =
     [(''steps'', JInt (int (run_steps r))), (''tool_calls'', JInt (int (run_tool_calls r))),
      (''tool_errors'', JInt (int (run_tool_errors r))), (''rewrites'', JInt (int (run_rewrites r))),
      (''dropped'', JInt (int (run_dropped r))), (''problems'', jstrs (take 10 (run_problems r))), (''usage'', usage_json (run_usage r))]"

record 's deps =
  dp_sha :: "string \<Rightarrow> string"
  dp_backend :: "'s backend"
  dp_backend_name :: string
  dp_registry :: registry
  dp_source :: "'s source"
  dp_tenant :: string
  dp_incident :: string
  dp_token_budget :: int
  dp_others :: "nat \<Rightarrow> db \<Rightarrow> db"

record 's agent_world =
  aw_ext :: 's
  aw_tick :: nat
  aw_db :: db

text \<open>Before a statement: what the others have committed meanwhile.\<close>

definition sync :: "'s deps \<Rightarrow> 's agent_world \<Rightarrow> 's agent_world" where
  "sync dp aw = aw\<lparr>aw_tick := Suc (aw_tick aw), aw_db := dp_others dp (aw_tick aw) (aw_db aw)\<rparr>"

section \<open>One step\<close>

definition agent_context :: "'s deps \<Rightarrow> 'f agent_spec \<Rightarrow> tool_context" where
  "agent_context dp sp = \<lparr>tc_tenant = dp_tenant dp, tc_incident = Some (dp_incident dp), tc_agent = Some (sp_name sp), tc_scope = None\<rparr>"

text \<open>\<open>registry.specs(spec.tools)\<close>; a name that is not registered is a \<open>KeyError\<close> (no agent has one).\<close>

definition agent_tools :: "'s deps \<Rightarrow> 'f agent_spec \<Rightarrow> json list" where
  "agent_tools dp sp = List.map_filter (\<lambda>n. case registry_tool (dp_registry dp) n of Inr t \<Rightarrow> Some (tool_spec t) | Inl e \<Rightarrow> None) (sp_tools sp)"

definition agent_request :: "'s deps \<Rightarrow> 'f agent_spec \<Rightarrow> string \<Rightarrow> 'f agent_run \<Rightarrow> llm_request" where
  "agent_request dp sp model r =
     \<lparr>rq_agent = sp_name sp, rq_model = model, rq_prompt_version = sp_prompt_version sp, rq_system = sp_prompt_text sp,
      rq_turns = run_turns r, rq_tools = agent_tools dp sp, rq_final_schema = sp_final_schema sp, rq_max_actions = MAX_ACTIONS,
      rq_force_final = (agent_tools dp sp \<noteq> [] \<and> sp_max_steps sp \<le> run_steps r)\<rparr>"

definition add_usage :: "usage \<Rightarrow> usage \<Rightarrow> usage" where
  "add_usage u v = \<lparr>u_input_tokens = u_input_tokens u + u_input_tokens v, u_output_tokens = u_output_tokens u + u_output_tokens v,
     u_cache_read_tokens = u_cache_read_tokens u + u_cache_read_tokens v,
     u_cache_creation_tokens = u_cache_creation_tokens u + u_cache_creation_tokens v\<rparr>"

definition llm_record :: "'s deps \<Rightarrow> 'f agent_spec \<Rightarrow> llm_request \<Rightarrow> nat \<Rightarrow> llm_call_record" where
  "llm_record dp sp rq step_no =
     \<lparr>lc_tenant = dp_tenant dp, lc_incident = Some (dp_incident dp), lc_agent = sp_name sp, lc_step_no = step_no,
      lc_backend = dp_backend_name dp, lc_model = rq_model rq, lc_prompt_version = rq_prompt_version rq,
      lc_request_hash = request_hash (dp_sha dp) rq, lc_ok = False, lc_usage = no_usage, lc_attempts = 1, lc_step = None,
      lc_error_code = None, lc_error = None\<rparr>"

text \<open>\<open>_step\<close>: ask the model; the call is recorded, answered or not.\<close>

definition model_step ::
    "'s deps \<Rightarrow> 'f agent_spec \<Rightarrow> llm_request \<Rightarrow> 'f agent_run \<Rightarrow> 's agent_world \<Rightarrow> (llm_error + llm_step \<times> 'f agent_run) \<times> 's agent_world" where
  "model_step dp sp rq r aw =
     (let record = llm_record dp sp rq (run_steps r); (got, ext) = dp_backend dp rq (aw_ext aw);
          aw1 = sync dp (aw\<lparr>aw_ext := ext\<rparr>); save = (\<lambda>c. aw1\<lparr>aw_db := pg_record_llm_call c (aw_db aw1)\<rparr>)
      in case got of
           Inl e \<Rightarrow> (Inl e, save (record\<lparr>lc_error_code := Some (le_code e), lc_error := Some (take 2000 (le_message e)), lc_attempts := le_attempts e\<rparr>))
         | Inr res \<Rightarrow>
             (Inr (lr_step res, r\<lparr>run_usage := add_usage (run_usage r) (lr_usage res)\<rparr>),
              save (record\<lparr>lc_ok := True, lc_backend := lr_backend res, lc_model := lr_model res, lc_usage := lr_usage res,
                      lc_attempts := lr_attempts res, lc_step := Some (step_json (lr_step res))\<rparr>)))"

text \<open>\<open>_call\<close>: a tool outside the agent's role is answered with an error, not run.\<close>

definition call_action :: "'s deps \<Rightarrow> 'f agent_spec \<Rightarrow> llm_action \<Rightarrow> 's agent_world \<Rightarrow> tool_outcome \<times> 's agent_world" where
  "call_action dp sp a aw =
     (if ac_tool a \<notin> set (sp_tools sp)
      then (\<lparr>to_tool = ac_tool a, to_args = ac_args a, to_evidence_id = None, to_summary = None,
             to_error = Some (ToolError ''unknown_tool'' (ac_tool a @ '' is not one of your data sources: '' @ join '', '' (sp_tools sp)) False),
             to_attempts = 1, to_fetched_at = None\<rparr>, aw)
      else case registry_call (dp_sha dp) (dp_registry dp) (dp_source dp) (dp_others dp (aw_tick aw)) (ac_tool a) (ac_args a)
                  (agent_context dp sp) (aw_ext aw) (aw_db aw) of
             (oc, ext, d) \<Rightarrow> (oc, \<lparr>aw_ext = ext, aw_tick = Suc (aw_tick aw), aw_db = d\<rparr>))"

fun call_actions :: "'s deps \<Rightarrow> 'f agent_spec \<Rightarrow> llm_action list \<Rightarrow> 's agent_world \<Rightarrow> tool_outcome list \<times> 's agent_world" where
  "call_actions dp sp [] aw = ([], aw)"
| "call_actions dp sp (a # as) aw =
     (let (oc, aw1) = call_action dp sp a aw; (ocs, aw2) = call_actions dp sp as aw1 in (oc # ocs, aw2))"

definition assoc_put :: "'a \<Rightarrow> 'b \<Rightarrow> ('a \<times> 'b) list \<Rightarrow> ('a \<times> 'b) list" where
  "assoc_put k v kvs = (if k \<in> set (map fst kvs) then map (\<lambda>(a, b). (a, if a = k then v else b)) kvs else kvs @ [(k, v)])"

definition note_outcome :: "tool_outcome \<Rightarrow> 'f agent_run \<Rightarrow> 'f agent_run" where
  "note_outcome oc r =
     (let ev = (case to_evidence_id oc of None \<Rightarrow> '''' | Some ev \<Rightarrow> ev)
      in if outcome_ok oc \<and> ev \<noteq> ''''
         then r\<lparr>run_tool_calls := run_tool_calls r + 1, run_shown := assoc_put ev (to_tool oc) (run_shown r)\<rparr>
         else r\<lparr>run_tool_calls := run_tool_calls r + 1, run_tool_errors := run_tool_errors r + 1\<rparr>)"

definition add_turn :: "turn \<Rightarrow> 'f agent_run \<Rightarrow> 'f agent_run" where
  "add_turn t r = r\<lparr>run_turns := run_turns r @ [t]\<rparr>"

definition feedback_text :: "string list \<Rightarrow> string" where
  "feedback_text problems =
     ''Your final answer was not accepted:'' @ NL @ join NL (map (\<lambda>p. ''- '' @ p) problems) @ NL @
     ''Fix these and give the final answer again. Items that still fail will be dropped.''"

definition feedback :: "string list \<Rightarrow> 'f agent_run \<Rightarrow> 'f agent_run" where
  "feedback problems r = add_turn (UserTurn (feedback_text problems)) (r\<lparr>run_rewrites := run_rewrites r + 1\<rparr>)"

text \<open>How one pass of the \<open>while True\<close> ends.\<close>

datatype 'f pass = Continue "'f agent_run" | Finish "'f agent_run" | Raise agent_exn "'f agent_run"

text \<open>A check sees the database: it looks the cited evidence up.\<close>

type_synonym 'f check_fn = "'f \<Rightarrow> (string \<times> string) list \<Rightarrow> db \<Rightarrow> 'f checked"

definition numbered_actions :: "nat \<Rightarrow> (string \<times> obj) list \<Rightarrow> llm_action list" where
  "numbered_actions step as =
     map (\<lambda>(i, t, a). \<lparr>ac_id = ''c'' @ dec step @ ''_'' @ dec i, ac_tool = t, ac_args = a\<rparr>) (enumerate 1 (take MAX_ACTIONS as))"

definition tool_pass :: "'s deps \<Rightarrow> 'f agent_spec \<Rightarrow> llm_action list \<Rightarrow> 'f agent_run \<Rightarrow> 's agent_world \<Rightarrow> 'f pass \<times> 's agent_world" where
  "tool_pass dp sp actions r aw =
     (let (ocs, aw1) = call_actions dp sp actions aw; r1 = foldl (\<lambda>r oc. note_outcome oc r) r ocs;
          r2 = add_turn (ResultsTurn (map2 (\<lambda>a oc. \<lparr>rs_id = ac_id a, rs_tool = ac_tool a, rs_content = for_model oc\<rparr>) actions ocs)) r1;
          r3 = (if sp_max_steps sp \<le> run_steps r + 1 then add_turn (UserTurn LAST_STEP_NOTE) r2 else r2)
      in (Continue r3, aw1))"

definition validation_problems :: "(string \<times> string) list \<Rightarrow> string list" where
  "validation_problems errs = map (\<lambda>(l, m). l @ '': '' @ m) (take 8 errs)"

definition final_pass :: "'s deps \<Rightarrow> 'f agent_spec \<Rightarrow> 'f check_fn \<Rightarrow> json \<Rightarrow> 'f agent_run \<Rightarrow> 's agent_world \<Rightarrow> 'f pass \<times> 's agent_world" where
  "final_pass dp sp chk f r aw =
     (case sp_parse sp f of
        Inl errs \<Rightarrow>
          if run_rewrites r < sp_max_rewrites sp then (Continue (feedback (validation_problems errs) r), aw)
          else (Raise (AgentFailed (sp_name sp @ '': final answer does not match the schema: '' @
                  ''['' @ join '', '' (map py_repr (validation_problems errs)) @ '']'')) r, aw)
      | Inr parsed \<Rightarrow>
          (let aw1 = sync dp aw; ck = chk parsed (run_shown r) (aw_db aw1); r1 = r\<lparr>run_problems := ck_problems ck\<rparr>
           in if ck_problems ck \<noteq> [] \<and> run_rewrites r < sp_max_rewrites sp then (Continue (feedback (ck_problems ck) r1), aw1)
              else (Finish (r1\<lparr>run_final := Some (ck_value ck), run_dropped := ck_dropped ck\<rparr>), aw1)))"

text \<open>What the loop makes of the model's step.\<close>

definition after_step ::
    "'s deps \<Rightarrow> 'f agent_spec \<Rightarrow> 'f check_fn \<Rightarrow> bool \<Rightarrow> llm_step \<Rightarrow> 'f agent_run \<Rightarrow> 's agent_world \<Rightarrow> 'f pass \<times> 's agent_world" where
  "after_step dp sp chk force_final step r1 aw1 =
     (let actions = numbered_actions (run_steps r1) (st_actions step);
          r2 = add_turn (StepTurn (st_reasoning step) actions (st_final step)) r1
      in case st_final step of
           None \<Rightarrow>
             if force_final then (Raise (AgentFailed (sp_name sp @ '': no final answer on the last step'')) r2, aw1)
             else tool_pass dp sp actions r2 aw1
         | Some f \<Rightarrow> final_pass dp sp chk f r2 aw1)"

definition agent_pass ::
    "'s deps \<Rightarrow> 'f agent_spec \<Rightarrow> string \<Rightarrow> 'f check_fn \<Rightarrow> 'f agent_run \<Rightarrow> 's agent_world \<Rightarrow> 'f pass \<times> 's agent_world" where
  "agent_pass dp sp model chk r0 aw0 =
     (let r = r0\<lparr>run_steps := run_steps r0 + 1\<rparr>; aw = sync dp aw0; used = pg_tokens_used (aw_db aw) (dp_incident dp)
      in if dp_token_budget dp \<le> used
         then (Raise (BudgetExceeded (dec_int used @ '' tokens used, budget '' @ dec_int (dp_token_budget dp))) r, aw)
         else (let rq = agent_request dp sp model r
           in case model_step dp sp rq r aw of
                (Inl e, aw1) \<Rightarrow> (Raise (LLMRaisedError e) r, aw1)
              | (Inr (step, r1), aw1) \<Rightarrow> after_step dp sp chk (rq_force_final rq) step r1 aw1))"

datatype 'f run_end = RunDone "'f agent_run" | RunRaised agent_exn "'f agent_run" | RunOutOfFuel

fun agent_loop ::
    "nat \<Rightarrow> 's deps \<Rightarrow> 'f agent_spec \<Rightarrow> string \<Rightarrow> 'f check_fn \<Rightarrow> 'f agent_run \<Rightarrow> 's agent_world \<Rightarrow> 'f run_end \<times> 's agent_world" where
  "agent_loop 0 dp sp model chk r aw = (RunOutOfFuel, aw)"
| "agent_loop (Suc n) dp sp model chk r aw =
     (case agent_pass dp sp model chk r aw of
        (Continue r', aw') \<Rightarrow> agent_loop n dp sp model chk r' aw'
      | (Finish r', aw') \<Rightarrow> (RunDone r', aw')
      | (Raise e r', aw') \<Rightarrow> (RunRaised e r', aw'))"

text \<open>\<open>run_agent\<close>, with the fuel that is enough for an agent that has tools (shown below).\<close>

definition run_fuel :: "'f agent_spec \<Rightarrow> nat" where
  "run_fuel sp = max 1 (sp_max_steps sp) + sp_max_rewrites sp"

definition run_agent ::
    "nat \<Rightarrow> 's deps \<Rightarrow> 'f agent_spec \<Rightarrow> string \<Rightarrow> string \<Rightarrow> 'f check_fn \<Rightarrow> 's agent_world \<Rightarrow> 'f run_end \<times> 's agent_world" where
  "run_agent fuel dp sp task model chk aw = agent_loop fuel dp sp model chk (new_run task) aw"

section \<open>What a pass does\<close>

lemma call_actions_length [simp]: "length (fst (call_actions dp sp as aw)) = length as"
  by (induction as arbitrary: aw) (simp_all add: Let_def case_prod_beta)

lemma numbered_actions_Nil [simp]: "numbered_actions n as = [] \<longleftrightarrow> as = []"
  by (cases as) (simp_all add: numbered_actions_def MAX_ACTIONS_def)

text \<open>A tool outside the agent's role runs nothing: no source is asked, nothing is stored.\<close>

lemma call_action_outside:
  "ac_tool a \<notin> set (sp_tools sp) \<Longrightarrow> snd (call_action dp sp a aw) = aw \<and> \<not> outcome_ok (fst (call_action dp sp a aw))"
  by (simp add: call_action_def outcome_ok_def)

lemma note_outcomes_frame:
  "run_turns (foldl (\<lambda>r oc. note_outcome oc r) r ocs) = run_turns r \<and>
   run_steps (foldl (\<lambda>r oc. note_outcome oc r) r ocs) = run_steps r \<and>
   run_rewrites (foldl (\<lambda>r oc. note_outcome oc r) r ocs) = run_rewrites r \<and>
   run_final (foldl (\<lambda>r oc. note_outcome oc r) r ocs) = run_final r"
  by (induction ocs arbitrary: r) (simp_all add: note_outcome_def Let_def)

lemma note_outcomes_count:
  "run_tool_calls (foldl (\<lambda>r oc. note_outcome oc r) r ocs) = run_tool_calls r + length ocs"
  by (induction ocs arbitrary: r) (simp_all add: note_outcome_def Let_def)

lemma add_turn_simps [simp]:
  "run_turns (add_turn t r) = run_turns r @ [t]" "run_steps (add_turn t r) = run_steps r"
  "run_rewrites (add_turn t r) = run_rewrites r" "run_final (add_turn t r) = run_final r" "run_shown (add_turn t r) = run_shown r"
  by (simp_all add: add_turn_def)

lemma feedback_simps [simp]:
  "run_turns (feedback ps r) = run_turns r @ [UserTurn (feedback_text ps)]" "run_steps (feedback ps r) = run_steps r"
  "run_rewrites (feedback ps r) = run_rewrites r + 1"
  by (simp_all add: feedback_def)

text \<open>The budget is looked at before the model is asked; when it is used up the model is not asked.\<close>

lemma agent_pass_budget:
  assumes "dp_token_budget dp \<le> pg_tokens_used (dp_others dp (aw_tick aw) (aw_db aw)) (dp_incident dp)"
  shows "\<exists>msg r'. agent_pass dp sp model chk r aw = (Raise (BudgetExceeded msg) r', sync dp aw) \<and> aw_ext (sync dp aw) = aw_ext aw"
  using assms by (auto simp: agent_pass_def sync_def Let_def)

lemma agent_pass_cases:
  assumes "agent_pass dp sp model chk r aw = (p, aw')"
  obtains (raised) e r' where "p = Raise e r'" "run_steps r' = run_steps r + 1"
  | (tools) step rq usage aw1 where
      "rq = agent_request dp sp model (r\<lparr>run_steps := run_steps r + 1\<rparr>)"
      "model_step dp sp rq (r\<lparr>run_steps := run_steps r + 1\<rparr>) (sync dp aw) = (Inr (step, r\<lparr>run_steps := run_steps r + 1, run_usage := usage\<rparr>), aw1)"
      "st_final step = None" "\<not> rq_force_final rq"
      "tool_pass dp sp (numbered_actions (run_steps r + 1) (st_actions step))
         (add_turn (StepTurn (st_reasoning step) (numbered_actions (run_steps r + 1) (st_actions step)) None)
           (r\<lparr>run_steps := run_steps r + 1, run_usage := usage\<rparr>)) aw1 = (p, aw')"
  | (final) step rq usage aw1 f where
      "rq = agent_request dp sp model (r\<lparr>run_steps := run_steps r + 1\<rparr>)"
      "model_step dp sp rq (r\<lparr>run_steps := run_steps r + 1\<rparr>) (sync dp aw) = (Inr (step, r\<lparr>run_steps := run_steps r + 1, run_usage := usage\<rparr>), aw1)"
      "st_final step = Some f"
      "final_pass dp sp chk f (add_turn (StepTurn (st_reasoning step) (numbered_actions (run_steps r + 1) (st_actions step)) (Some f))
           (r\<lparr>run_steps := run_steps r + 1, run_usage := usage\<rparr>)) aw1 = (p, aw')"
proof -
  let ?r = "r\<lparr>run_steps := run_steps r + 1\<rparr>"
  let ?rq = "agent_request dp sp model ?r"
  have shape: "\<exists>usage. r1 = ?r\<lparr>run_usage := usage\<rparr>" if "model_step dp sp ?rq ?r (sync dp aw) = (Inr (step, r1), aw1)" for step r1 aw1
    using that by (auto simp: model_step_def Let_def split: sum.splits prod.splits)
  show thesis
  proof (cases "dp_token_budget dp \<le> pg_tokens_used (aw_db (sync dp aw)) (dp_incident dp)")
    case True
    with assms that(1) show thesis by (auto simp: agent_pass_def Let_def)
  next
    case False
    obtain got aw1 where m: "model_step dp sp ?rq ?r (sync dp aw) = (got, aw1)" by force
    show thesis
    proof (cases got)
      case (Inl e)
      with assms False m that(1) show thesis by (auto simp: agent_pass_def Let_def)
    next
      case (Inr x)
      obtain step r1 where x: "x = (step, r1)" by force
      with shape m Inr obtain usage where r1: "r1 = ?r\<lparr>run_usage := usage\<rparr>" by blast
      note m' = m [unfolded Inr x r1]
      show thesis
      proof (cases "st_final step")
        case None
        show thesis
        proof (cases "rq_force_final ?rq")
          case True
          with assms False m' None that(1) show thesis by (auto simp: agent_pass_def after_step_def Let_def)
        next
          case F: False
          have "tool_pass dp sp (numbered_actions (run_steps r + 1) (st_actions step))
              (add_turn (StepTurn (st_reasoning step) (numbered_actions (run_steps r + 1) (st_actions step)) None)
                (?r\<lparr>run_usage := usage\<rparr>)) aw1 = (p, aw')"
            using assms False m' None F by (simp add: agent_pass_def after_step_def Let_def)
          from that(2) [OF refl _ None F] m' this show thesis by simp
        qed
      next
        case (Some f)
        have "final_pass dp sp chk f (add_turn (StepTurn (st_reasoning step) (numbered_actions (run_steps r + 1) (st_actions step)) (Some f))
            (?r\<lparr>run_usage := usage\<rparr>)) aw1 = (p, aw')"
          using assms False m' Some by (simp add: agent_pass_def after_step_def Let_def)
        from that(3) [OF refl _ Some] m' this show thesis by simp
      qed
    qed
  qed
qed

section \<open>The loop ends\<close>

text \<open>
  What is left of a run: the tool passes before the last step, and the rewrites. An agent with
  tools is made to give its final answer on the last step; one without must be given one by its
  backend, since nothing makes it (see \<open>toolless_never_ends\<close>).
\<close>

definition passes_left :: "'f agent_spec \<Rightarrow> 'f agent_run \<Rightarrow> nat" where
  "passes_left sp r = (sp_max_steps sp - 1 - run_steps r) + (sp_max_rewrites sp - run_rewrites r) + 1"

definition final_only :: "'s backend \<Rightarrow> bool" where
  "final_only b \<longleftrightarrow> (\<forall>rq s res s'. rq_tools rq = [] \<longrightarrow> b rq s = (Inr res, s') \<longrightarrow> st_final (lr_step res) \<noteq> None)"

lemma model_step_Inr:
  "model_step dp sp rq r aw = (Inr (step, r1), aw1) \<Longrightarrow>
    \<exists>res ext. dp_backend dp rq (aw_ext aw) = (Inr res, ext) \<and> lr_step res = step"
  by (auto simp: model_step_def Let_def split: sum.splits prod.splits)

lemma final_pass_cases:
  assumes "final_pass dp sp chk f r aw = (p, aw')"
  obtains e r' where "p = Raise e r'" "run_steps r' = run_steps r"
  | ps r' where "p = Continue (feedback ps r')" "run_rewrites r < sp_max_rewrites sp" "run_steps r' = run_steps r"
      "run_rewrites r' = run_rewrites r" "run_turns r' = run_turns r"
  | parsed shown d r' where "p = Finish r'" "sp_parse sp f = Inr parsed" "shown = run_shown r" "d = aw_db aw'"
      "run_final r' = Some (ck_value (chk parsed shown d))" "run_dropped r' = ck_dropped (chk parsed shown d)" "run_steps r' = run_steps r"
      "ck_problems (chk parsed shown d) = [] \<or> sp_max_rewrites sp \<le> run_rewrites r"
proof (cases "sp_parse sp f")
  case (Inl errs)
  with assms that(1,2) show thesis by (auto simp: final_pass_def split: if_splits)
next
  case (Inr parsed)
  let ?d = "aw_db (sync dp aw)"
  let ?ck = "chk parsed (run_shown r) ?d"
  let ?r = "r\<lparr>run_problems := ck_problems ?ck\<rparr>"
  show thesis
  proof (cases "ck_problems ?ck \<noteq> [] \<and> run_rewrites r < sp_max_rewrites sp")
    case True
    with assms Inr have "p = Continue (feedback (ck_problems ?ck) ?r)" by (auto simp: final_pass_def Let_def)
    from that(2) [OF this] True show thesis by simp
  next
    case False
    with assms Inr have "p = Finish (?r\<lparr>run_final := Some (ck_value ?ck), run_dropped := ck_dropped ?ck\<rparr>)"
      by (auto simp: final_pass_def Let_def)
    from that(3) [OF this Inr refl, of ?d] False assms Inr show thesis by (auto simp: final_pass_def Let_def)
  qed
qed

lemma passes_left_continue:
  assumes "agent_pass dp sp model chk r aw = (Continue r', aw')"
    and "agent_tools dp sp \<noteq> [] \<or> final_only (dp_backend dp)"
  shows "passes_left sp r' < passes_left sp r \<and> run_steps r' = run_steps r + 1"
  using assms(1)
proof (cases rule: agent_pass_cases)
  case (tools step rq usage aw1)
  have "agent_tools dp sp \<noteq> []"
  proof (rule ccontr)
    assume none: "\<not> agent_tools dp sp \<noteq> []"
    then have "rq_tools rq = []" by (simp add: tools(1) agent_request_def)
    moreover obtain res ext where "dp_backend dp rq (aw_ext (sync dp aw)) = (Inr res, ext)" "lr_step res = step"
      using model_step_Inr [OF tools(2)] by blast
    moreover have "final_only (dp_backend dp)" using none assms(2) by blast
    ultimately show False using tools(3) unfolding final_only_def by blast
  qed
  with tools(1,4) have "run_steps r + 1 < sp_max_steps sp" by (simp add: agent_request_def)
  moreover have "run_rewrites r' = run_rewrites r" "run_steps r' = run_steps r + 1"
    using tools(5) by (auto simp: tool_pass_def Let_def note_outcomes_frame split: prod.splits if_splits)
  ultimately show ?thesis by (simp add: passes_left_def)
next
  case (final step rq usage aw1 f)
  from final(4) show ?thesis
    by (cases rule: final_pass_cases) (auto simp: passes_left_def)
qed simp

lemma agent_loop_ends:
  assumes "agent_tools dp sp \<noteq> [] \<or> final_only (dp_backend dp)" "passes_left sp r \<le> n"
  shows "fst (agent_loop n dp sp model chk r aw) \<noteq> RunOutOfFuel"
  using assms(2)
proof (induction n arbitrary: r aw)
  case 0
  then show ?case by (simp add: passes_left_def)
next
  case (Suc n)
  obtain p aw' where p: "agent_pass dp sp model chk r aw = (p, aw')" by force
  show ?case
  proof (cases p)
    case (Continue r')
    with passes_left_continue [OF p [unfolded Continue] assms(1)] Suc.prems have "passes_left sp r' \<le> n" by simp
    with Suc.IH p Continue show ?thesis by simp
  qed (simp_all add: p)
qed

lemma run_agent_ends:
  assumes "agent_tools dp sp \<noteq> [] \<or> final_only (dp_backend dp)" "run_fuel sp \<le> n"
  shows "fst (run_agent n dp sp task model chk aw) \<noteq> RunOutOfFuel"
  unfolding run_agent_def
  by (rule agent_loop_ends [OF assms(1)]) (use assms(2) in \<open>simp add: passes_left_def new_run_def run_fuel_def\<close>)

text \<open>And in as many steps.\<close>

lemma agent_loop_steps:
  assumes "agent_tools dp sp \<noteq> [] \<or> final_only (dp_backend dp)"
    and "agent_loop n dp sp model chk r aw = (RunDone r', aw') \<or> (\<exists>e. agent_loop n dp sp model chk r aw = (RunRaised e r', aw'))"
  shows "run_steps r' \<le> run_steps r + passes_left sp r"
  using assms(2)
proof (induction n arbitrary: r aw)
  case (Suc n)
  obtain p aw1 where p: "agent_pass dp sp model chk r aw = (p, aw1)" by force
  show ?case
  proof (cases p)
    case (Continue r1)
    from passes_left_continue [OF p [unfolded Continue] assms(1)] Suc.IH [of r1 aw1] Suc.prems p Continue show ?thesis by auto
  next
    case (Finish r1)
    from p [unfolded Finish] have "run_steps r1 = run_steps r + 1"
      by (cases rule: agent_pass_cases) (auto simp: tool_pass_def Let_def elim: final_pass_cases split: prod.splits if_splits)
    with Suc.prems p Finish show ?thesis by (auto simp: passes_left_def)
  next
    case (Raise e r1)
    from p [unfolded Raise] have "run_steps r1 = run_steps r + 1"
      by (cases rule: agent_pass_cases) (auto simp: tool_pass_def Let_def elim: final_pass_cases split: prod.splits if_splits)
    with Suc.prems p Raise show ?thesis by (auto simp: passes_left_def)
  qed
qed simp

section \<open>The transcript\<close>

lemma wf_turns_append: "wf_turns xs \<Longrightarrow> wf_turns (xs @ ys) = wf_turns ys"
  by (induction xs rule: wf_turns.induct) simp_all

lemma wf_transcript_append: "wf_transcript xs \<Longrightarrow> wf_turns ys \<Longrightarrow> wf_transcript (xs @ ys)"
  by (auto simp: wf_transcript_def wf_turns_append [of "UserTurn _ # _", simplified])

definition wf_backend :: "'s backend \<Rightarrow> bool" where
  "wf_backend b \<longleftrightarrow> (\<forall>rq s res s'. b rq s = (Inr res, s') \<longrightarrow> wf_step (lr_step res))"

lemma agent_pass_transcript:
  assumes "agent_pass dp sp model chk r aw = (Continue r', aw')" "wf_transcript (run_turns r)" "wf_backend (dp_backend dp)"
  shows "wf_transcript (run_turns r')"
  using assms(1)
proof (cases rule: agent_pass_cases)
  case (tools step rq usage aw1)
  obtain res ext where "dp_backend dp rq (aw_ext (sync dp aw)) = (Inr res, ext)" "lr_step res = step"
    using model_step_Inr [OF tools(2)] by blast
  with assms(3) have "wf_step step" unfolding wf_backend_def by blast
  with tools(3) have ne: "st_actions step \<noteq> []" by (simp add: wf_step_def)
  let ?as = "numbered_actions (run_steps r + 1) (st_actions step)"
  let ?rs = "map2 (\<lambda>a oc. \<lparr>rs_id = ac_id a, rs_tool = ac_tool a, rs_content = for_model oc\<rparr>) ?as (fst (call_actions dp sp ?as aw1))"
  have ids: "map ac_id as = map rs_id (map2 (\<lambda>a oc. \<lparr>rs_id = ac_id a, rs_tool = ac_tool a, rs_content = for_model oc\<rparr>) as ocs)"
    if "length ocs = length as" for as ocs
    using that by (induction as ocs rule: list_induct2') simp_all
  have "run_turns r' = run_turns r @ StepTurn (st_reasoning step) ?as None # ResultsTurn ?rs #
      (if sp_max_steps sp \<le> run_steps r + 2 then [UserTurn LAST_STEP_NOTE] else [])"
    using tools(5) by (auto simp: tool_pass_def Let_def note_outcomes_frame case_prod_beta split: if_splits)
  moreover have "wf_turns (StepTurn (st_reasoning step) ?as None # ResultsTurn ?rs #
      (if sp_max_steps sp \<le> run_steps r + 2 then [UserTurn LAST_STEP_NOTE] else []))"
    using ne ids [of "fst (call_actions dp sp ?as aw1)" ?as] by simp
  ultimately show ?thesis using wf_transcript_append [OF assms(2)] by simp
next
  case (final step rq usage aw1 f)
  obtain res ext where "dp_backend dp rq (aw_ext (sync dp aw)) = (Inr res, ext)" "lr_step res = step"
    using model_step_Inr [OF final(2)] by blast
  with assms(3) have "wf_step step" unfolding wf_backend_def by blast
  with final(3) have none: "st_actions step = []" by (simp add: wf_step_def)
  from final(4) obtain ps r1 where "r' = feedback ps r1" "run_turns r1 = run_turns r @ [StepTurn (st_reasoning step) [] (Some f)]"
    by (cases rule: final_pass_cases) (auto simp: none numbered_actions_def)
  then show ?thesis using wf_transcript_append [OF assms(2), of "[StepTurn (st_reasoning step) [] (Some f), UserTurn (feedback_text ps)]"] by simp
qed simp

text \<open>The requests of a run, in order: every one renders as a conversation the API accepts.\<close>

fun requests_of ::
    "nat \<Rightarrow> 's deps \<Rightarrow> 'f agent_spec \<Rightarrow> string \<Rightarrow> 'f check_fn \<Rightarrow> 'f agent_run \<Rightarrow> 's agent_world \<Rightarrow> llm_request list" where
  "requests_of 0 dp sp model chk r aw = []"
| "requests_of (Suc n) dp sp model chk r aw =
     agent_request dp sp model (r\<lparr>run_steps := run_steps r + 1\<rparr>) #
     (case agent_pass dp sp model chk r aw of (Continue r', aw') \<Rightarrow> requests_of n dp sp model chk r' aw' | _ \<Rightarrow> [])"

lemma requests_conversation:
  assumes "wf_backend (dp_backend dp)" "wf_transcript (run_turns r)"
  shows "list_all (\<lambda>rq. conversation (render_messages (rq_turns rq))) (requests_of n dp sp model chk r aw)"
  using assms(2)
proof (induction n arbitrary: r aw)
  case (Suc n)
  obtain p aw' where p: "agent_pass dp sp model chk r aw = (p, aw')" by force
  have "conversation (render_messages (run_turns r))" by (rule render_wf) (rule Suc.prems)
  with Suc.IH agent_pass_transcript [OF _ Suc.prems assms(1)] p show ?case
    by (cases p) (simp_all add: agent_request_def)
qed simp

section \<open>The answer\<close>

text \<open>A run that ends has a parsed answer that went through the check, on the database as it is then.\<close>

lemma agent_loop_final:
  assumes "agent_loop n dp sp model chk r aw = (RunDone r', aw')"
  shows "\<exists>f parsed shown. sp_parse sp f = Inr parsed \<and> run_final r' = Some (ck_value (chk parsed shown (aw_db aw'))) \<and>
    run_dropped r' = ck_dropped (chk parsed shown (aw_db aw'))"
  using assms
proof (induction n arbitrary: r aw)
  case (Suc n)
  obtain p aw1 where p: "agent_pass dp sp model chk r aw = (p, aw1)" by force
  show ?case
  proof (cases p)
    case (Continue r1)
    with Suc p show ?thesis by simp
  next
    case (Finish r1)
    with Suc.prems p have r1: "r1 = r'" "aw1 = aw'" by simp_all
    from p [unfolded Finish] show ?thesis
    proof (cases rule: agent_pass_cases)
      case (final step rq usage aw1' f)
      from final(4) show ?thesis by (cases rule: final_pass_cases) (auto simp: r1)
    qed (auto simp: tool_pass_def Let_def split: prod.splits)
  next
    case (Raise e r1)
    with Suc.prems p show ?thesis by simp
  qed
qed simp

text \<open>
  An agent without tools is not made to answer: a backend that keeps asking for tools keeps it
  going for ever, as long as the budget lasts.
\<close>

definition asking_backend :: "'s backend" where
  "asking_backend rq s =
     (Inr \<lparr>lr_step = \<lparr>st_reasoning = '''', st_actions = [(''prom_query'', [])], st_final = None\<rparr>, lr_usage = no_usage,
           lr_model = rq_model rq, lr_backend = ''api'', lr_request_hash = '''', lr_attempts = 1\<rparr>, s)"

lemma tokens_unchanged:
  "total_tokens (lc_usage c) = 0 \<Longrightarrow> pg_tokens_used (pg_record_llm_call c d) inc = pg_tokens_used d inc"
  by (simp add: pg_tokens_used_def pg_record_llm_call_def llm_call_row_of_def)

lemma toolless_never_ends:
  assumes "sp_tools sp = []" "dp_backend dp = asking_backend" "dp_others dp = (\<lambda>k d. d)"
    and "pg_tokens_used (aw_db aw) (dp_incident dp) < dp_token_budget dp"
  shows "fst (agent_loop n dp sp model chk r aw) = RunOutOfFuel"
  using assms(4)
proof (induction n arbitrary: r aw)
  case (Suc n)
  let ?r = "r\<lparr>run_steps := run_steps r + 1\<rparr>"
  have nt: "agent_tools dp sp = []" by (simp add: agent_tools_def assms(1) map_filter_simps)
  have nu: "total_tokens no_usage = 0" by (simp add: total_tokens_def prompt_tokens_def no_usage_def)
  obtain r' aw' where p: "agent_pass dp sp model chk r aw = (Continue r', aw')"
      and t: "pg_tokens_used (aw_db aw') (dp_incident dp) = pg_tokens_used (aw_db aw) (dp_incident dp)"
    using Suc.prems
    by (simp add: agent_pass_def after_step_def model_step_def sync_def assms(1-3) Let_def asking_backend_def agent_request_def nt tool_pass_def
        numbered_actions_def MAX_ACTIONS_def call_action_def tokens_unchanged nu split: prod.splits)
  from Suc.IH [of aw' r'] Suc.prems t p show ?case by simp
qed simp

section \<open>What a run does to the database\<close>

text \<open>
  A relation between databases that the others keep and that the agent's own statements keep (the
  record of a model call, the saving of a tool's result) holds between the start and the end of a
  run, however it ends.
\<close>

definition keeps :: "(db \<Rightarrow> db \<Rightarrow> bool) \<Rightarrow> 's deps \<Rightarrow> string \<Rightarrow> bool" where
  "keeps R dp agent \<longleftrightarrow>
     (\<forall>d. R d d) \<and> (\<forall>a b c. R a b \<longrightarrow> R b c \<longrightarrow> R a c) \<and> (\<forall>k d. R d (dp_others dp k d)) \<and>
     (\<forall>c d. lc_incident c = Some (dp_incident dp) \<longrightarrow> lc_agent c = agent \<longrightarrow> R d (pg_record_llm_call c d)) \<and>
     (\<forall>ev c d. R d (evidence_save ev c d))"

lemma keepsD:
  assumes "keeps R dp agent"
  shows "R d d" and "R a b \<Longrightarrow> R b c \<Longrightarrow> R a c" and "R d (dp_others dp k d)"
    and "lc_incident call = Some (dp_incident dp) \<Longrightarrow> lc_agent call = agent \<Longrightarrow> R d (pg_record_llm_call call d)"
    and "R d (evidence_save ev cr d)"
  using assms unfolding keeps_def by blast+

lemma sync_keeps: "keeps R dp agent \<Longrightarrow> R d (aw_db aw) \<Longrightarrow> R d (aw_db (sync dp aw))"
  using keepsD(2,3) [of R dp agent] by (simp add: sync_def)

lemma call_actions_keeps:
  assumes "keeps R dp agent" "R d (aw_db aw)"
  shows "R d (aw_db (snd (call_actions dp sp as aw)))"
  using assms(2)
proof (induction as arbitrary: aw)
  case (Cons a as)
  have "R d (aw_db (snd (call_action dp sp a aw)))"
  proof (cases "ac_tool a \<in> set (sp_tools sp)")
    case True
    have "\<exists>ev c. aw_db (snd (call_action dp sp a aw)) = evidence_save ev c (dp_others dp (aw_tick aw) (aw_db aw))"
      using True by (auto simp: call_action_def registry_call_def split: prod.splits)
    with keepsD(3,5) [OF assms(1)] keepsD(2) [OF assms(1)] Cons.prems show ?thesis by metis
  qed (simp add: call_action_def Cons.prems)
  with Cons.IH show ?case by (simp add: Let_def case_prod_beta)
qed simp

lemma model_step_keeps:
  assumes "keeps R dp (sp_name sp)" "R d (aw_db aw)"
  shows "R d (aw_db (snd (model_step dp sp rq r aw)))"
proof -
  let ?aw = "sync dp (aw\<lparr>aw_ext := snd (dp_backend dp rq (aw_ext aw))\<rparr>)"
  have "\<exists>c. lc_incident c = Some (dp_incident dp) \<and> lc_agent c = sp_name sp \<and>
      aw_db (snd (model_step dp sp rq r aw)) = pg_record_llm_call c (aw_db ?aw)"
  proof (cases "fst (dp_backend dp rq (aw_ext aw))")
    case (Inl e)
    show ?thesis
      by (rule exI [where x = "(llm_record dp sp rq (run_steps r))\<lparr>lc_error_code := Some (le_code e), lc_error := Some (take 2000 (le_message e)), lc_attempts := le_attempts e\<rparr>"])
        (simp add: model_step_def Let_def llm_record_def case_prod_beta Inl)
  next
    case (Inr res)
    show ?thesis
      by (rule exI [where x = "(llm_record dp sp rq (run_steps r))\<lparr>lc_ok := True, lc_backend := lr_backend res, lc_model := lr_model res, lc_usage := lr_usage res,
                      lc_attempts := lr_attempts res, lc_step := Some (step_json (lr_step res))\<rparr>"])
        (simp add: model_step_def Let_def llm_record_def case_prod_beta Inr)
  qed
  moreover have "R d (aw_db ?aw)" by (rule sync_keeps [OF assms(1)]) (simp add: assms(2))
  ultimately show ?thesis using keepsD(2) [OF assms(1) _ keepsD(4) [OF assms(1)]] by fastforce
qed

lemma after_step_keeps:
  assumes "keeps R dp agent" "R d (aw_db aw)"
  shows "R d (aw_db (snd (after_step dp sp chk ff step r aw)))"
proof -
  have "R d (aw_db (snd (tool_pass dp sp as r aw)))" for as r
    by (simp add: tool_pass_def Let_def case_prod_beta call_actions_keeps [OF assms])
  moreover have "R d (aw_db (snd (final_pass dp sp chk f r aw)))" for f r
    by (auto simp: final_pass_def Let_def sync_keeps [OF assms] assms(2) split: sum.splits)
  ultimately show ?thesis by (auto simp: after_step_def Let_def assms(2) split: option.splits)
qed

lemma agent_pass_keeps:
  assumes "keeps R dp (sp_name sp)" "R d (aw_db aw)"
  shows "R d (aw_db (snd (agent_pass dp sp model chk r aw)))"
proof -
  let ?rq = "agent_request dp sp model (r\<lparr>run_steps := run_steps r + 1\<rparr>)"
  note s = sync_keeps [OF assms]
  note m = model_step_keeps [OF assms(1) s, of ?rq "r\<lparr>run_steps := run_steps r + 1\<rparr>"]
  obtain got aw1 where g: "model_step dp sp ?rq (r\<lparr>run_steps := run_steps r + 1\<rparr>) (sync dp aw) = (got, aw1)" by force
  show ?thesis
  proof (cases got)
    case (Inl e)
    with g m s show ?thesis by (simp add: agent_pass_def Let_def)
  next
    case (Inr x)
    with g m s after_step_keeps [OF assms(1), of d aw1 sp chk] show ?thesis by (simp add: agent_pass_def Let_def case_prod_beta)
  qed
qed

lemma agent_loop_keeps:
  assumes "keeps R dp (sp_name sp)" "R d (aw_db aw)"
  shows "R d (aw_db (snd (agent_loop n dp sp model chk r aw)))"
  using assms(2)
proof (induction n arbitrary: r aw)
  case (Suc n)
  obtain p aw1 where p: "agent_pass dp sp model chk r aw = (p, aw1)" by force
  with agent_pass_keeps [OF assms(1) Suc.prems, of model chk r] have "R d (aw_db aw1)" by simp
  with Suc.IH p show ?case by (cases p) simp_all
qed simp

lemma run_agent_keeps: "keeps R dp (sp_name sp) \<Longrightarrow> R (aw_db aw) (aw_db (snd (run_agent n dp sp task model chk aw)))"
  unfolding run_agent_def by (rule agent_loop_keeps) (simp_all add: keepsD(1))

section \<open>The budget\<close>

text \<open>
  The budget is exceeded by at most what one answer costs: the tokens used never grow past the
  budget by a whole answer (others working on the same incident aside).
\<close>

definition spends_at_most :: "nat \<Rightarrow> 's backend \<Rightarrow> bool" where
  "spends_at_most m b \<longleftrightarrow> (\<forall>rq s res s'. b rq s = (Inr res, s') \<longrightarrow> total_tokens (lr_usage res) \<le> m)"

lemma tokens_recorded:
  "pg_tokens_used (pg_record_llm_call c d) inc =
     pg_tokens_used d inc + (if lc_incident c = Some inc then int (total_tokens (lc_usage c)) else 0)"
  by (simp add: pg_tokens_used_def pg_record_llm_call_def llm_call_row_of_def)

lemma tokens_frame: "llm_calls d' = llm_calls d \<Longrightarrow> pg_tokens_used d' inc = pg_tokens_used d inc"
  by (simp add: pg_tokens_used_def)

lemma registry_call_llm:
  "registry_call sha rg fetch others name raw ctx s d = (oc, s', d') \<Longrightarrow> llm_calls d' = llm_calls (others d)"
  by (auto simp: registry_call_def evidence_save_def split: prod.splits)

lemma call_actions_tokens:
  assumes "\<And>k d. pg_tokens_used (dp_others dp k d) inc = pg_tokens_used d inc"
  shows "pg_tokens_used (aw_db (snd (call_actions dp sp as aw))) inc = pg_tokens_used (aw_db aw) inc"
proof (induction as arbitrary: aw)
  case (Cons a as)
  have "pg_tokens_used (aw_db (snd (call_action dp sp a aw))) inc = pg_tokens_used (aw_db aw) inc"
    using assms by (auto simp: call_action_def tokens_frame [OF registry_call_llm] split: prod.splits)
  with Cons show ?case by (simp add: Let_def case_prod_beta)
qed simp

lemma model_step_tokens:
  assumes "model_step dp sp rq r aw = (got, aw')" "spends_at_most m (dp_backend dp)"
    and "\<And>k d. pg_tokens_used (dp_others dp k d) (dp_incident dp) = pg_tokens_used d (dp_incident dp)"
  shows "pg_tokens_used (aw_db aw') (dp_incident dp) \<le> pg_tokens_used (aw_db aw) (dp_incident dp) + int m"
proof -
  obtain b ext where b: "dp_backend dp rq (aw_ext aw) = (b, ext)" by force
  have nu: "total_tokens no_usage = 0" by (simp add: total_tokens_def prompt_tokens_def no_usage_def)
  show ?thesis
  proof (cases b)
    case (Inl e)
    with assms(1) b show ?thesis
      by (auto simp: model_step_def Let_def sync_def tokens_recorded assms(3) llm_record_def nu)
  next
    case (Inr res)
    with assms(2) b have "total_tokens (lr_usage res) \<le> m" unfolding spends_at_most_def by blast
    with Inr assms(1) b show ?thesis
      by (auto simp: model_step_def Let_def sync_def tokens_recorded assms(3) llm_record_def)
  qed
qed

lemma agent_pass_tokens:
  assumes "agent_pass dp sp model chk r aw = (p, aw')" "spends_at_most m (dp_backend dp)"
    and "\<And>k d. pg_tokens_used (dp_others dp k d) (dp_incident dp) = pg_tokens_used d (dp_incident dp)"
  shows "pg_tokens_used (aw_db aw') (dp_incident dp) \<le>
    max (pg_tokens_used (aw_db aw) (dp_incident dp)) (dp_token_budget dp - 1 + int m)"
proof -
  let ?t = "\<lambda>aw. pg_tokens_used (aw_db aw) (dp_incident dp)"
  have s: "?t (sync dp aw) = ?t aw" for aw by (simp add: sync_def assms(3))
  show ?thesis
  proof (cases "dp_token_budget dp \<le> ?t (sync dp aw)")
    case True
    with assms(1) have "aw' = sync dp aw" by (auto simp: agent_pass_def Let_def)
    with s show ?thesis by simp
  next
    case False
    let ?rq = "agent_request dp sp model (r\<lparr>run_steps := run_steps r + 1\<rparr>)"
    obtain got aw1 where m: "model_step dp sp ?rq (r\<lparr>run_steps := run_steps r + 1\<rparr>) (sync dp aw) = (got, aw1)" by force
    have "?t aw1 \<le> ?t (sync dp aw) + int m" by (rule model_step_tokens [OF m assms(2,3)])
    with False have le: "?t aw1 \<le> dp_token_budget dp - 1 + int m" by simp
    have t: "?t (snd (tool_pass dp sp as r2 aw1)) = ?t aw1" for as r2
      by (simp add: tool_pass_def Let_def case_prod_beta call_actions_tokens assms(3))
    have f: "?t (snd (final_pass dp sp chk f r2 aw1)) = ?t aw1" for f r2
      by (auto simp: final_pass_def Let_def s split: sum.splits)
    have "?t aw' = ?t aw1"
    proof (cases got)
      case (Inl e)
      with assms(1) m False show ?thesis by (auto simp: agent_pass_def Let_def)
    next
      case (Inr x)
      obtain step r1 where "x = (step, r1)" by force
      with assms(1) m False Inr have "aw' = snd (after_step dp sp chk (rq_force_final ?rq) step r1 aw1)"
        by (simp add: agent_pass_def Let_def)
      then show ?thesis by (auto simp: after_step_def Let_def t f split: option.splits if_splits)
    qed
    with le show ?thesis by simp
  qed
qed

lemma agent_loop_tokens:
  assumes "spends_at_most m (dp_backend dp)"
    and "\<And>k d. pg_tokens_used (dp_others dp k d) (dp_incident dp) = pg_tokens_used d (dp_incident dp)"
  shows "pg_tokens_used (aw_db (snd (agent_loop n dp sp model chk r aw))) (dp_incident dp) \<le>
    max (pg_tokens_used (aw_db aw) (dp_incident dp)) (dp_token_budget dp - 1 + int m)"
proof (induction n arbitrary: r aw)
  case (Suc n)
  obtain p aw1 where p: "agent_pass dp sp model chk r aw = (p, aw1)" by force
  note t = agent_pass_tokens [OF p assms]
  show ?case
  proof (cases p)
    case (Continue r1)
    with p Suc.IH [of r1 aw1] t show ?thesis by simp
  qed (use p t in simp_all)
qed simp

end
