(* ===== verification/Prompts.thy ===== *)
theory Prompts
  imports Llm
begin

text \<open>
  The role prompts and their versions (\<open>app/agents/prompts.py\<close>), and the variants of an
  investigation (\<open>app/agents/variants.py\<close>). The texts of the files under \<open>agents/prompts/\<close> and
  SHA-256 are parameters. A \<open>ValueError\<close> is its message.
\<close>

record prompt =
  pr_name :: string
  pr_text :: string
  pr_version :: string

record prompt_env =
  pe_sha :: "string \<Rightarrow> string"
  pe_file :: "string \<Rightarrow> string"

type_synonym prompt_fn = "prompt_env \<Rightarrow> string + prompt"

text \<open>\<open>_part\<close>: the number on the first line, and the rest.\<close>

definition prompt_part :: "prompt_env \<Rightarrow> string \<Rightarrow> string + string \<times> string" where
  "prompt_part pe name =
     (let (first, body) = partition_at CHR 0x0A (pe_file pe name)
      in if \<not> starts_with ''version: '' first
         then Inl (''prompts/'' @ name @ ''.md must start with '' @ [CHR 0x27] @ ''version: N'' @ [CHR 0x27])
         else Inr (strip (drop (length ''version: '') first), strip body))"

definition compose :: "string \<Rightarrow> string list \<Rightarrow> prompt_fn" where
  "compose name parts pe =
     bindS (mapS (prompt_part pe) parts) (\<lambda>loaded.
       let txt = join [CHR 0x0A, CHR 0x0A] (map snd loaded); numbers = join ''.'' (map fst loaded)
       in Inr \<lparr>pr_name = name, pr_text = txt, pr_version = name @ ''@'' @ numbers @ ''-'' @ take 8 (pe_sha pe txt)\<rparr>)"

definition coordinator_prompt :: prompt_fn where
  "coordinator_prompt = compose ''coordinator'' [''coordinator'', ''environment'']"

definition investigator_prompt :: "string \<Rightarrow> bool \<Rightarrow> prompt_fn" where
  "investigator_prompt focus knowledge =
     compose (''investigator.'' @ focus)
       ([''investigator'', focus] @ (if knowledge then [''knowledge''] else []) @ [''environment''])"

definition synthesizer_prompt :: prompt_fn where
  "synthesizer_prompt = compose ''synthesizer'' [''synthesizer'', ''environment'']"

definition solo_prompt :: "bool \<Rightarrow> prompt_fn" where
  "solo_prompt knowledge =
     compose ''solo'' ([''solo'', ''metrics'', ''logs_traces'', ''changes''] @ (if knowledge then [''knowledge''] else []) @ [''environment''])"

definition canary_synthesizer_prompt :: prompt_fn where
  "canary_synthesizer_prompt = compose ''synthesizer'' [''canary_synthesizer'', ''environment'']"

definition planner_prompt :: prompt_fn where
  "planner_prompt = compose ''planner'' [''planner'', ''environment'']"

section \<open>Variants\<close>

datatype mode = Multi | Single

record variant =
  vr_name :: string
  vr_mode :: mode
  vr_models :: "(string \<times> string) list"
  vr_prompts :: "(string \<times> prompt_fn) list"
  vr_knowledge :: bool

definition new_variant :: "string \<Rightarrow> variant" where
  "new_variant name = \<lparr>vr_name = name, vr_mode = Multi, vr_models = [], vr_prompts = [], vr_knowledge = False\<rparr>"

definition variant_prompt :: "variant \<Rightarrow> string \<Rightarrow> prompt_fn \<Rightarrow> prompt_fn" where
  "variant_prompt v role dflt = (case map_of (vr_prompts v) role of None \<Rightarrow> dflt | Some f \<Rightarrow> f)"

definition STRONG_MODEL :: string where
  "STRONG_MODEL = ''claude-sonnet-5-5''"

definition DEFAULT_VARIANT :: variant where
  "DEFAULT_VARIANT = new_variant ''default''"

definition VARIANTS :: "variant list" where
  "VARIANTS =
     [DEFAULT_VARIANT,
      (new_variant ''single'')\<lparr>vr_mode := Single\<rparr>,
      (new_variant ''strong-plan'')\<lparr>vr_models := [(''coordinator'', STRONG_MODEL), (''synthesizer'', STRONG_MODEL)]\<rparr>,
      (new_variant ''rag'')\<lparr>vr_knowledge := True\<rparr>,
      (new_variant ''canary'')\<lparr>vr_prompts := [(''synthesizer'', canary_synthesizer_prompt)]\<rparr>]"

definition variant_get :: "string \<Rightarrow> string + variant" where
  "variant_get name =
     (case find (\<lambda>v. vr_name v = name) VARIANTS of
        Some v \<Rightarrow> Inr v
      | None \<Rightarrow> Inl (''unknown agent variant '' @ py_repr name @ ''; known: '' @ join '', '' (map vr_name VARIANTS)))"

definition for_tenant :: "string \<Rightarrow> (string \<times> string) list \<Rightarrow> string + variant" where
  "for_tenant tenant_id tenant_variants =
     variant_get (case map_of tenant_variants tenant_id of None \<Rightarrow> vr_name DEFAULT_VARIANT | Some n \<Rightarrow> n)"

section \<open>What a version says\<close>

lemma compose_Inr:
  "compose name parts pe = Inr p \<Longrightarrow>
     pr_name p = name \<and> (\<exists>numbers. pr_version p = name @ ''@'' @ numbers @ ''-'' @ take 8 (pe_sha pe (pr_text p)))"
  by (auto simp: compose_def Let_def tx_simps)

text \<open>
  An edit nobody bumped shows: two prompts with one version have texts whose hashes start with
  the same eight digits.
\<close>

lemma same_version_same_hash:
  assumes "compose name parts pe = Inr p" "compose name parts' pe' = Inr p'" "pr_version p = pr_version p'"
    and "pe_sha pe' = pe_sha pe" "\<And>x. 8 \<le> length (pe_sha pe x)"
  shows "take 8 (pe_sha pe (pr_text p)) = take 8 (pe_sha pe (pr_text p'))"
proof -
  obtain n where n: "pr_version p = name @ ''@'' @ n @ ''-'' @ take 8 (pe_sha pe (pr_text p))"
    using compose_Inr [OF assms(1)] by blast
  obtain n' where n': "pr_version p' = name @ ''@'' @ n' @ ''-'' @ take 8 (pe_sha pe (pr_text p'))"
    using compose_Inr [OF assms(2)] unfolding assms(4) by blast
  have "name @ ''@'' @ n @ ''-'' @ take 8 (pe_sha pe (pr_text p)) = name @ ''@'' @ n' @ ''-'' @ take 8 (pe_sha pe (pr_text p'))"
    using assms(3) unfolding n n' .
  moreover have "length (take 8 (pe_sha pe x)) = 8" for x using assms(5) [of x] by simp
  ultimately show ?thesis
    using append_eq_append_conv [of "take 8 (pe_sha pe (pr_text p))" "take 8 (pe_sha pe (pr_text p'))"
        "name @ ''@'' @ n @ ''-''" "name @ ''@'' @ n' @ ''-''"] by simp
qed

text \<open>Production runs the default; every variant of the table is found under its name.\<close>

lemma for_tenant_default: "map_of tv t = None \<Longrightarrow> for_tenant t tv = Inr DEFAULT_VARIANT"
  by (simp add: for_tenant_def variant_get_def VARIANTS_def DEFAULT_VARIANT_def new_variant_def)

lemma variant_get_Inr: "variant_get name = Inr v \<Longrightarrow> v \<in> set VARIANTS \<and> vr_name v = name"
  by (auto simp: variant_get_def find_Some_iff split: option.splits)

lemma variant_get_Inl: "(\<exists>e. variant_get name = Inl e) \<longleftrightarrow> name \<notin> set (map vr_name VARIANTS)"
  by (auto simp: variant_get_def find_None_iff find_Some_iff split: option.splits)

end
