(* ===== verification/Views.thy ===== *)
theory Views
  imports Loop Prompts RemediateJobs Ingest
begin

text \<open>
  What the agents are told about an incident: \<open>incident_view\<close> (\<open>app/db/investigations.py\<close>), its
  text (\<open>IncidentView.describe\<close> in \<open>app/agents/investigation.py\<close>) and the task texts of the
  investigators, the synthesizer and the planner. Ties between equal keys of an ORDER BY are
  broken by the order of the table, and text sorts by code point.
\<close>

section \<open>The view\<close>

record related =
  rl_title :: string
  rl_service :: string
  rl_priority :: string
  rl_created_at :: time

record inc_view =
  iv_id :: string
  iv_tenant :: string
  iv_title :: string
  iv_service :: string
  iv_environment :: string
  iv_priority :: string
  iv_created_at :: time
  iv_labels :: "(string \<times> string) list"
  iv_annotations :: "(string \<times> string) list"
  iv_related :: "related list"

definition RELATED_BEFORE :: int where
  "RELATED_BEFORE = 30 * 60 * 1000000"

text \<open>\<open>closed_at IS NULL OR closed_at > :created\<close>, and the rows of the query over the other incidents.\<close>

definition open_after :: "time \<Rightarrow> incident_row \<Rightarrow> bool" where
  "open_after t r \<longleftrightarrow> (case i_closed_at r of None \<Rightarrow> True | Some c \<Rightarrow> t < c)"

definition related_rows :: "db \<Rightarrow> incident_row \<Rightarrow> incident_row list" where
  "related_rows d inc =
     sort_key (\<lambda>r. (i_created_at r, i_service r, i_title r))
       (filter (\<lambda>r. i_tenant r = i_tenant inc \<and> i_environment r = i_environment inc \<and> i_id r \<noteq> i_id inc \<and>
            i_created_at inc - RELATED_BEFORE \<le> i_created_at r \<and> i_created_at r \<le> i_created_at inc \<and>
            open_after (i_created_at inc) r) (incidents d))"

definition first_annotations :: "db \<Rightarrow> string \<Rightarrow> (string \<times> string) list" where
  "first_annotations d incident_id =
     (case sort_key al_id (filter (\<lambda>a. al_incident a = Some incident_id \<and> al_status a = Firing) (alerts d)) of
        [] \<Rightarrow> [] | a # as \<Rightarrow> al_annotations a)"

definition incident_view :: "db \<Rightarrow> incident_row \<Rightarrow> inc_view" where
  "incident_view d inc =
     \<lparr>iv_id = i_id inc, iv_tenant = i_tenant inc, iv_title = i_title inc, iv_service = i_service inc,
      iv_environment = i_environment inc, iv_priority = PRIORITY_NAMES ! i_priority inc, iv_created_at = i_created_at inc,
      iv_labels = i_labels inc, iv_annotations = first_annotations d (i_id inc),
      iv_related = map (\<lambda>r. \<lparr>rl_title = i_title r, rl_service = i_service r, rl_priority = PRIORITY_NAMES ! i_priority r,
        rl_created_at = i_created_at r\<rparr>) (related_rows d inc)\<rparr>"

text \<open>\<open>iso\<close> of a datetime (\<open>app/tools/compress.py\<close>): to the second, with \<open>Z\<close>.\<close>

definition iso :: "(time \<Rightarrow> string) \<Rightarrow> time \<Rightarrow> string" where
  "iso isoformat t = replace_all 0 ''+00:00'' ''Z'' (isoformat (t - t mod 1000000))"

text \<open>\<open>json.dumps(m, sort_keys=True)\<close> of a dict of strings.\<close>

definition dumps_sorted :: "(string \<times> string) list \<Rightarrow> string" where
  "dumps_sorted kvs =
     ''{'' @ join '', '' (map (\<lambda>(k, v). ascii_quoted k @ '': '' @ ascii_quoted v) (sort_key fst kvs)) @ ''}''"

definition describe :: "(time \<Rightarrow> string) \<Rightarrow> inc_view \<Rightarrow> string" where
  "describe isof v =
     join NL
       ([''Incident: '' @ iv_title v @ '' on service '' @ iv_service v @ '' (priority '' @ iv_priority v @
           '', environment '' @ iv_environment v @ '').'',
         ''Opened at '' @ iso isof (iv_created_at v) @ ''.'',
         ''Alert labels: '' @ dumps_sorted (iv_labels v)] @
        (if iv_annotations v \<noteq> [] then [''Alert annotations: '' @ dumps_sorted (iv_annotations v)] else []) @
        (if iv_related v \<noteq> []
         then ''Other open incidents in this environment:'' #
              map (\<lambda>r. ''- '' @ rl_title r @ '' on '' @ rl_service r @ '' ('' @ rl_priority r @ ''), opened '' @
                     iso isof (rl_created_at r)) (iv_related v)
         else [''No other open incidents in this environment.'']))"

section \<open>Tasks\<close>

fun hypothesis_lines :: "nat \<Rightarrow> string list \<Rightarrow> string list" where
  "hypothesis_lines i [] = []"
| "hypothesis_lines i (h # hs) = (dec i @ ''. '' @ h) # hypothesis_lines (Suc i) hs"

text \<open>\<open>_plan_text\<close>; the text of no plan, or its summary and hypotheses.\<close>

definition investigation_plan_text :: "coordinator_plan option \<Rightarrow> string" where
  "investigation_plan_text plan =
     (case plan of
        None \<Rightarrow> ''The coordinator did not produce a plan.''
      | Some p \<Rightarrow>
          (let hypotheses = join NL (hypothesis_lines 1 (cp_hypotheses p))
           in ''Coordinator'' @ [CHR 0x27] @ ''s summary: '' @ cp_summary p @ NL @ ''Hypotheses to check:'' @ NL @
              (if hypotheses \<noteq> '''' then hypotheses else ''(none)'')))"

definition DEFAULT_BRIEFS :: briefs where
  "DEFAULT_BRIEFS =
     \<lparr>br_metrics = ''Find which services have elevated errors or latency, and which went bad first.'',
      br_logs_traces = ''Find the error messages and the failing or slow spans in the alerting service and its dependencies.'',
      br_changes = ''Find rollouts, configuration changes, flag changes or pod problems shortly before the alert.''\<rparr>"

text \<open>\<open>getattr(plan.briefs, focus)\<close> for the three investigators.\<close>

definition brief_of :: "briefs \<Rightarrow> string \<Rightarrow> string" where
  "brief_of b focus =
     (if focus = ''metrics'' then br_metrics b else if focus = ''logs_traces'' then br_logs_traces b else br_changes b)"

definition investigator_task :: "(time \<Rightarrow> string) \<Rightarrow> inc_view \<Rightarrow> coordinator_plan option \<Rightarrow> string \<Rightarrow> string" where
  "investigator_task isof v plan focus =
     describe isof v @ NL @ NL @ investigation_plan_text plan @ NL @ NL @ ''Your brief: '' @
     brief_of (case plan of Some p \<Rightarrow> cp_briefs p | None \<Rightarrow> DEFAULT_BRIEFS) focus"

definition cite_text :: "known \<Rightarrow> string \<Rightarrow> string" where
  "cite_text known ev = ev @ '' ('' @ (case known ev of Some t \<Rightarrow> t | None \<Rightarrow> ''?'') @ '')''"

definition finding_line :: "known \<Rightarrow> finding \<Rightarrow> string" where
  "finding_line known f =
     (let cites = join '', '' (map (cite_text known) (f_evidence_ids f));
          about = (case f_service f of None \<Rightarrow> '''' | Some s \<Rightarrow> if s = '''' then '''' else '', service '' @ s)
      in ''- ('' @ finding_kind_text (f_kind f) @ '', '' @ signal_text (f_signal f) @ about @ '', confidence '' @
         fmt_fixed 2 (f_confidence f) @ '') '' @ f_statement f @ '' [evidence: '' @ (if cites \<noteq> '''' then cites else ''none'') @ '']'')"

definition synthesizer_task ::
    "(time \<Rightarrow> string) \<Rightarrow> inc_view \<Rightarrow> coordinator_plan option \<Rightarrow> (string \<times> finding) list \<Rightarrow> (string \<Rightarrow> string) \<Rightarrow> known \<Rightarrow> string" where
  "synthesizer_task isof v plan findings summaries known =
     join NL
       ([describe isof v, investigation_plan_text plan, ''Findings:''] @
        concat (map (\<lambda>author. (NL @ ''['' @ author @ ''] '' @ summaries author) #
            map (\<lambda>(a, f). finding_line known f) (filter (\<lambda>(a, f). a = author) findings)) (sorted_set (map fst findings))))"

fun cause_lines :: "known \<Rightarrow> nat \<Rightarrow> root_cause list \<Rightarrow> string list" where
  "cause_lines known i [] = []"
| "cause_lines known i (rc # rcs) =
     (dec i @ ''. '' @ rc_service rc @ '' ('' @ fmt_percent (rc_confidence rc) @ ''): '' @ rc_cause rc @ '' [evidence: '' @
        join '', '' (map (cite_text known) (rc_evidence_ids rc)) @ '']'') # cause_lines known (Suc i) rcs"

definition claim_line :: "known \<Rightarrow> claim \<Rightarrow> string" where
  "claim_line known c = ''- '' @ cl_statement c @ '' [evidence: '' @ join '', '' (map (cite_text known) (cl_evidence_ids c)) @ '']''"

text \<open>\<open>task_text\<close> of the planner.\<close>

definition planner_task :: "(time \<Rightarrow> string) \<Rightarrow> inc_view \<Rightarrow> diagnosis \<Rightarrow> known \<Rightarrow> string" where
  "planner_task isof v dx known =
     join NL
       ([describe isof v, '''', ''Diagnosis: '' @ dx_summary dx, ''Root cause candidates, most likely first:''] @
        cause_lines known 1 (dx_root_causes dx) @
        (if dx_facts dx \<noteq> [] then ''Facts:'' # map (claim_line known) (dx_facts dx) else []) @
        (if dx_inferences dx \<noteq> [] then ''Inferences:'' # map (claim_line known) (dx_inferences dx) else []) @
        (if dx_hypotheses dx \<noteq> [] then ''Not verified:'' # map (\<lambda>h. ''- '' @ oq_statement h) (dx_hypotheses dx) else []))"

section \<open>The text does not drift\<close>

lemma insort_key_map: "(\<And>x. k (f x) = k x) \<Longrightarrow> insort_key k (f x) (map f xs) = map f (insort_key k x xs)"
  by (induction xs) auto

lemma sort_key_map: "(\<And>x. k (f x) = k x) \<Longrightarrow> sort_key k (map f xs) = map f (sort_key k xs)"
  by (induction xs) (simp_all add: insort_key_map)

text \<open>What may happen to a row without changing what an agent reads of it.\<close>

definition same_face :: "incident_row \<Rightarrow> incident_row \<Rightarrow> bool" where
  "same_face r r' \<longleftrightarrow>
     i_id r' = i_id r \<and> i_tenant r' = i_tenant r \<and> i_title r' = i_title r \<and> i_service r' = i_service r \<and>
     i_environment r' = i_environment r \<and> i_priority r' = i_priority r \<and> i_created_at r' = i_created_at r \<and>
     i_labels r' = i_labels r"

lemma related_rows_stable:
  assumes "\<And>r. same_face r (f r)" "incidents d' = map f (incidents d) @ opened"
    and "\<And>r. r \<in> set (incidents d) \<Longrightarrow> i_closed_at (f r) = i_closed_at r \<or>
        (i_closed_at r = None \<and> (\<exists>c. i_closed_at (f r) = Some c \<and> i_created_at inc < c))"
    and "\<And>r. r \<in> set opened \<Longrightarrow> i_created_at inc < i_created_at r"
  shows "related_rows d' (f inc) = map f (related_rows d inc)"
proof -
  have face: "i_id (f r) = i_id r" "i_tenant (f r) = i_tenant r" "i_title (f r) = i_title r" "i_service (f r) = i_service r"
      "i_environment (f r) = i_environment r" "i_created_at (f r) = i_created_at r" for r
    using assms(1) [of r] by (simp_all add: same_face_def)
  have "open_after (i_created_at inc) (f r) = open_after (i_created_at inc) r" if "r \<in> set (incidents d)" for r
    using assms(3) [OF that] by (auto simp: open_after_def)
  moreover have "filter (\<lambda>r. i_tenant r = i_tenant inc \<and> i_environment r = i_environment inc \<and> i_id r \<noteq> i_id inc \<and>
            i_created_at inc - RELATED_BEFORE \<le> i_created_at r \<and> i_created_at r \<le> i_created_at inc \<and>
            open_after (i_created_at inc) r) opened = []"
    using assms(4) by (force simp: filter_empty_conv)
  ultimately show ?thesis
    by (simp add: related_rows_def assms(2) filter_map o_def face sort_key_map cong: filter_cong)
qed

text \<open>
  The text stays the same while incidents are opened later, are merged at no higher priority, move
  on and are closed, and while alerts arrive after the first.
\<close>

lemma view_stable:
  assumes "\<And>r. same_face r (f r)" "incidents d' = map f (incidents d) @ opened"
    and "\<And>r. r \<in> set (incidents d) \<Longrightarrow> i_closed_at (f r) = i_closed_at r \<or>
        (i_closed_at r = None \<and> (\<exists>c. i_closed_at (f r) = Some c \<and> i_created_at inc < c))"
    and "\<And>r. r \<in> set opened \<Longrightarrow> i_created_at inc < i_created_at r"
    and "alerts d' = alerts d @ news" "sorted_wrt (<) (map al_id (alerts d'))"
    and "a \<in> set (alerts d)" "al_incident a = Some (i_id inc)" "al_status a = Firing"
  shows "incident_view d' (f inc) = incident_view d inc"
proof -
  let ?P = "\<lambda>a. al_incident a = Some (i_id inc) \<and> al_status a = Firing"
  have face: "same_face inc (f inc)" by (rule assms(1))
  have face': "i_title (f r) = i_title r" "i_service (f r) = i_service r" "i_priority (f r) = i_priority r"
      "i_created_at (f r) = i_created_at r" for r using assms(1) [of r] by (simp_all add: same_face_def)
  have srt: "sort_key al_id (filter ?P (alerts e)) = filter ?P (alerts e)" if "sorted_wrt (<) (map al_id (alerts e))" for e
    using that by (intro sort_key_id_if_sorted) (simp add: sorted_filter strict_sorted_imp_sorted)
  have "sorted_wrt (<) (map al_id (alerts d))" using assms(5,6) by (simp add: sorted_wrt_append)
  moreover have "filter ?P (alerts d) \<noteq> []" using assms(7-9) by (auto simp: filter_empty_conv)
  ultimately have "first_annotations d' (i_id inc) = first_annotations d (i_id inc)"
    using srt [of d'] srt [of d] assms(5,6) by (auto simp: first_annotations_def split: list.splits)
  moreover have "related_rows d' (f inc) = map f (related_rows d inc)"
    by (rule related_rows_stable [OF assms(1-4)]) simp_all
  ultimately show ?thesis using face by (simp add: incident_view_def same_face_def face' o_def)
qed

text \<open>A duplicate of higher priority changes it: what a rerun is told is not what the first run was told.\<close>

lemma merged_priority_drifts:
  assumes "priority < i_priority r" "i_priority r \<le> 3"
  shows "iv_priority (incident_view d' (merge_alert w priority r)) \<noteq> iv_priority (incident_view d r)"
proof -
  have "i_priority r \<in> {1, 2, 3}" "priority \<in> {0, 1, 2}" using assms by auto
  with assms show ?thesis by (auto simp: incident_view_def merge_alert_def PRIORITY_NAMES_def min_def)
qed

end
