(* ===== verification/Investigation.thy ===== *)
theory Investigation
  imports Views
begin

text \<open>
  One incident's investigation (\<open>app/agents/investigation.py\<close>) and the job that runs it
  (\<open>app/worker/investigate.py\<close>). An agent runs behind its checkpoint: started, run, and its entries
  written with the checkpoint in one transaction of the job. What the others commit comes before
  each statement (\<open>dp_others\<close>); the three investigators, concurrent in the code, run one after the
  other, and each sees what others write in between. Pydantic's validation of the answers
  (\<open>model_validate\<close>) and the schemas shown to the model are parameters.
\<close>

section \<open>Statements that fail\<close>

text \<open>A step changes a state and returns or raises; \<open>spec_of\<close> is its triple.\<close>

type_synonym ('w, 'e, 'a) step_of = "'w \<Rightarrow> ('e + 'a) \<times> 'w"

definition give :: "'a \<Rightarrow> ('w, 'e, 'a) step_of" where
  "give a w = (Inr a, w)"

definition raise_exn :: "'e \<Rightarrow> ('w, 'e, 'a) step_of" where
  "raise_exn e w = (Inl e, w)"

definition andthen :: "('w, 'e, 'a) step_of \<Rightarrow> ('a \<Rightarrow> ('w, 'e, 'b) step_of) \<Rightarrow> ('w, 'e, 'b) step_of" where
  "andthen m f w = (case m w of (Inl e, w') \<Rightarrow> (Inl e, w') | (Inr a, w') \<Rightarrow> f a w')"

definition spec_of :: "('w \<Rightarrow> bool) \<Rightarrow> ('w, 'e, 'a) step_of \<Rightarrow> ('a \<Rightarrow> 'w \<Rightarrow> bool) \<Rightarrow> ('e \<Rightarrow> 'w \<Rightarrow> bool) \<Rightarrow> bool" where
  "spec_of P m Q E \<longleftrightarrow> (\<forall>w. P w \<longrightarrow> (case m w of (Inr a, w') \<Rightarrow> Q a w' | (Inl e, w') \<Rightarrow> E e w'))"

named_theorems steps

lemma spec_give [steps]: "(\<And>w. P w \<Longrightarrow> Q a w) \<Longrightarrow> spec_of P (give a) Q E"
  by (simp add: spec_of_def give_def)

lemma spec_raise [steps]: "(\<And>w. P w \<Longrightarrow> E e w) \<Longrightarrow> spec_of P (raise_exn e) Q E"
  by (simp add: spec_of_def raise_exn_def)

lemma spec_andthen:
  "spec_of P m M E \<Longrightarrow> (\<And>a. spec_of (M a) (f a) Q E) \<Longrightarrow> spec_of P (andthen m f) Q E"
  by (fastforce simp: spec_of_def andthen_def split: sum.splits prod.splits)

lemma spec_conseq:
  "spec_of P' m Q' E' \<Longrightarrow> (\<And>w. P w \<Longrightarrow> P' w) \<Longrightarrow> (\<And>a w. Q' a w \<Longrightarrow> Q a w) \<Longrightarrow> (\<And>e w. E' e w \<Longrightarrow> E e w) \<Longrightarrow> spec_of P m Q E"
  by (fastforce simp: spec_of_def split: sum.splits prod.splits)

text \<open>When the value does not matter.\<close>

lemma spec_state: "(\<And>w. P w \<Longrightarrow> Q (snd (m w)) \<and> S (snd (m w))) \<Longrightarrow> spec_of P m (\<lambda>_ w. Q w \<and> S w) (\<lambda>_. Q)"
  by (fastforce simp: spec_of_def split: sum.splits prod.splits)

section \<open>An agent behind its checkpoint\<close>

datatype agent_status = AgentDone | AgentReused | AgentFailedStatus

record 's inv_state =
  is_world :: "'s agent_world"
  is_agents :: "(string \<times> agent_status) list"

text \<open>What ends an investigation early; \<open>IOutOfFuel\<close>: an agent did not end within the fuel.\<close>

datatype inv_exn = IBudget string | ILLM llm_error | IExn exn | IValueError string | IInvalid | IOutOfFuel

type_synonym ('s, 'a) inv_step = "('s inv_state, inv_exn, 'a) step_of"

record answer_models =
  am_plan_parse :: "json \<Rightarrow> (string \<times> string) list + coordinator_plan"
  am_plan_schema :: json
  am_report_parse :: "json \<Rightarrow> (string \<times> string) list + investigator_report"
  am_report_schema :: json
  am_dx_parse :: "json \<Rightarrow> (string \<times> string) list + diagnosis"
  am_dx_schema :: json
  am_repair_parse :: "json \<Rightarrow> (string \<times> string) list + remediation_plan"
  am_repair_schema :: json

record agent_config =
  cf_model_for :: "string \<Rightarrow> string"
  cf_max_steps :: nat
  cf_variant :: variant

definition config_model :: "agent_config \<Rightarrow> string \<Rightarrow> string" where
  "config_model cf role =
     (case map_of (vr_models (cf_variant cf)) role of
        Some m \<Rightarrow> if m = '''' then cf_model_for cf role else m
      | None \<Rightarrow> cf_model_for cf role)"

record 's inv_env =
  ie_deps :: "'s deps"
  ie_job :: "job option"
  ie_config :: agent_config
  ie_prompts :: prompt_env
  ie_models :: answer_models
  ie_iso :: "time \<Rightarrow> string"
  ie_fuel :: nat

definition note_agent :: "string \<Rightarrow> agent_status \<Rightarrow> ('s, unit) inv_step" where
  "note_agent agent status st = (Inr (), st\<lparr>is_agents := assoc_put agent status (is_agents st)\<rparr>)"

text \<open>A read of the store, and a write of it in a transaction of the job.\<close>

definition ask_store :: "'s inv_env \<Rightarrow> (db \<Rightarrow> 'a) \<Rightarrow> ('s, 'a) inv_step" where
  "ask_store env f st = (let aw = sync (ie_deps env) (is_world st) in (Inr (f (aw_db aw)), st\<lparr>is_world := aw\<rparr>))"

definition write_store :: "'s inv_env \<Rightarrow> (db \<Rightarrow> db) \<Rightarrow> ('s, unit) inv_step" where
  "write_store env f st =
     (let aw = sync (ie_deps env) (is_world st)
      in case fenced_write (ie_job env) f (aw_db aw) of
           Inl e \<Rightarrow> (Inl (IExn e), st\<lparr>is_world := aw\<rparr>)
         | Inr (_, d) \<Rightarrow> (Inr (), st\<lparr>is_world := aw\<lparr>aw_db := d\<rparr>\<rparr>))"

definition run_step :: "'s inv_env \<Rightarrow> 'f agent_spec \<Rightarrow> string \<Rightarrow> string \<Rightarrow> 'f check_fn \<Rightarrow> ('s, 'f run_end) inv_step" where
  "run_step env sp task model chk st =
     (case run_agent (ie_fuel env) (ie_deps env) sp task model chk (is_world st) of
        (stop, aw) \<Rightarrow> (Inr stop, st\<lparr>is_world := aw\<rparr>))"

text \<open>\<open>to_entries\<close>: the entries, and an investigator's summary as the extra item of the result.\<close>

type_synonym 'f to_entries = "'f \<Rightarrow> 'f agent_run \<Rightarrow> board_entry list \<times> string option"

definition finish_agent ::
    "'s inv_env \<Rightarrow> 'f agent_spec \<Rightarrow> 'f to_entries \<Rightarrow> 'f agent_run \<Rightarrow> ('s, board_entry list option) inv_step" where
  "finish_agent env sp to_entries r =
     (case run_final r of
        None \<Rightarrow> raise_exn IInvalid
      | Some f \<Rightarrow>
          (let (entries, extra) = to_entries f r
           in andthen (write_store env (pg_finish_run (dp_tenant (ie_deps env)) (dp_incident (ie_deps env)) (sp_name sp) (run_steps r)
                     \<lparr>rr_counts = run_summary r, rr_report_summary = extra, rr_plan = None\<rparr> entries)) (\<lambda>_.
              andthen (note_agent (sp_name sp) AgentDone) (\<lambda>_. give (Some entries)))))"

definition fail_agent :: "'s inv_env \<Rightarrow> 'f agent_spec \<Rightarrow> string \<Rightarrow> ('s, 'a) inv_step \<Rightarrow> ('s, 'a) inv_step" where
  "fail_agent env sp msg k =
     andthen (write_store env (pg_fail_run (dp_incident (ie_deps env)) (sp_name sp) 0 msg)) (\<lambda>_. k)"

definition failed_agent :: "'f agent_spec \<Rightarrow> ('s, board_entry list option) inv_step" where
  "failed_agent sp = andthen (note_agent (sp_name sp) AgentFailedStatus) (\<lambda>_. give None)"

definition after_run ::
    "'s inv_env \<Rightarrow> 'f agent_spec \<Rightarrow> 'f to_entries \<Rightarrow> 'f run_end \<Rightarrow> ('s, board_entry list option) inv_step" where
  "after_run env sp to_entries stop =
     (case stop of
        RunDone r \<Rightarrow> finish_agent env sp to_entries r
      | RunRaised (BudgetExceeded m) r \<Rightarrow> fail_agent env sp ''token budget exhausted'' (raise_exn (IBudget m))
      | RunRaised (LLMRaisedError e) r \<Rightarrow>
          fail_agent env sp (llm_error_text e)
            (if le_retryable e \<and> le_code e \<noteq> ''invalid_output'' then raise_exn (ILLM e) else failed_agent sp)
      | RunRaised (AgentFailed m) r \<Rightarrow> fail_agent env sp m (failed_agent sp)
      | RunOutOfFuel \<Rightarrow> raise_exn IOutOfFuel)"

text \<open>\<open>once\<close>: unless the checkpoint says the agent is done.\<close>

definition once ::
    "'s inv_env \<Rightarrow> (string \<Rightarrow> run_record option) \<Rightarrow> board_entry list \<Rightarrow> 'f agent_spec \<Rightarrow> string \<Rightarrow> 'f check_fn \<Rightarrow> 'f to_entries \<Rightarrow>
       ('s, board_entry list option) inv_step" where
  "once env runs board sp task chk to_entries =
     (if is_done (runs (sp_name sp))
      then andthen (note_agent (sp_name sp) AgentReused) (\<lambda>_. give (Some (filter (\<lambda>e. be_author e = sp_name sp) board)))
      else let model = config_model (ie_config env) (sp_name sp) in
        andthen (write_store env (pg_start_run (dp_tenant (ie_deps env)) (dp_incident (ie_deps env)) (sp_name sp) model (sp_prompt_version sp))) (\<lambda>_.
        andthen (run_step env sp task model chk) (after_run env sp to_entries)))"

section \<open>The agents\<close>

definition INVESTIGATOR_TOOLS :: "(string \<times> string list) list" where
  "INVESTIGATOR_TOOLS =
     [(''metrics'', [''prom_query'', ''prom_range'']),
      (''logs_traces'', [''logs_search'', ''traces_search'', ''trace_get'']),
      (''changes'', [''rollout_history'', ''deploy_diff'', ''k8s_events'', ''flag_state''])]"

definition tools_for :: "string \<Rightarrow> string list" where
  "tools_for focus = the (map_of INVESTIGATOR_TOOLS focus)"

definition agent_spec_of :: "string \<Rightarrow> prompt \<Rightarrow> string list \<Rightarrow> (json \<Rightarrow> (string \<times> string) list + 'f) \<Rightarrow> json \<Rightarrow> nat \<Rightarrow> 'f agent_spec" where
  "agent_spec_of name p tools parse schema max_steps =
     \<lparr>sp_name = name, sp_prompt_text = pr_text p, sp_prompt_version = pr_version p, sp_tools = tools, sp_final_schema = schema,
      sp_parse = parse, sp_max_steps = max_steps, sp_max_rewrites = 1\<rparr>"

definition with_prompt :: "'s inv_env \<Rightarrow> prompt_fn \<Rightarrow> (prompt \<Rightarrow> ('s, 'a) inv_step) \<Rightarrow> ('s, 'a) inv_step" where
  "with_prompt env f k = (case f (ie_prompts env) of Inl m \<Rightarrow> raise_exn (IValueError m) | Inr p \<Rightarrow> k p)"

text \<open>\<open>_accept\<close>\<close>

definition accept_plan :: "coordinator_plan check_fn" where
  "accept_plan plan seen d = \<lparr>ck_value = plan, ck_problems = [], ck_dropped = 0\<rparr>"

definition check_findings :: "string \<Rightarrow> investigator_report check_fn" where
  "check_findings inc rep seen d =
     check_report rep (pg_evidence_tools d inc (concat (map f_evidence_ids (ir_findings rep)))) (map fst seen)"

definition check_dx_shown :: "string \<Rightarrow> diagnosis check_fn" where
  "check_dx_shown inc dx seen d = check_diagnosis dx (pg_evidence_tools d inc (dx_cited dx)) (map fst seen)"

text \<open>The synthesizer sees no tool result: it may cite what the findings cite.\<close>

definition check_dx_cited :: "string \<Rightarrow> string list \<Rightarrow> diagnosis check_fn" where
  "check_dx_cited inc cited dx seen d = check_diagnosis dx (pg_evidence_tools d inc (dx_cited dx)) cited"

definition plan_entry :: "coordinator_plan to_entries" where
  "plan_entry plan r = ([\<lparr>be_kind = KPlan, be_author = ''coordinator'', be_body = BPlan plan, be_evidence_ids = []\<rparr>], None)"

definition finding_entries :: "string \<Rightarrow> investigator_report to_entries" where
  "finding_entries author rep r =
     (map (\<lambda>f. \<lparr>be_kind = KFinding, be_author = author, be_body = BFinding f, be_evidence_ids = f_evidence_ids f\<rparr>) (ir_findings rep),
      Some (ir_summary rep))"

definition dx_entry :: "string \<Rightarrow> diagnosis to_entries" where
  "dx_entry author dx r =
     ([\<lparr>be_kind = KDiagnosis, be_author = author, be_body = BDiagnosis dx, be_evidence_ids = sort (dx_cited dx)\<rparr>], None)"

text \<open>\<open>Plan.model_validate(entries[0].body)\<close> and the like, on what the board holds.\<close>

definition plan_of :: "board_entry list option \<Rightarrow> inv_exn + coordinator_plan option" where
  "plan_of entries =
     (case entries of Some (e # es) \<Rightarrow> (case be_body e of BPlan p \<Rightarrow> Inr (Some p) | _ \<Rightarrow> Inl IInvalid) | _ \<Rightarrow> Inr None)"

definition findings_of :: "board_entry list \<Rightarrow> inv_exn + (string \<times> finding) list" where
  "findings_of board =
     mapS (\<lambda>e. case be_body e of BFinding f \<Rightarrow> Inr (be_author e, f) | _ \<Rightarrow> Inl IInvalid) (filter (\<lambda>e. be_kind e = KFinding) board)"

definition give_or_raise :: "inv_exn + 'a \<Rightarrow> ('s, 'a) inv_step" where
  "give_or_raise x = (case x of Inl e \<Rightarrow> raise_exn e | Inr a \<Rightarrow> give a)"

record inv_outcome =
  oc_diagnosis :: "diagnosis option"
  oc_escalate :: "string option"

definition new_outcome :: inv_outcome where
  "new_outcome = \<lparr>oc_diagnosis = None, oc_escalate = None\<rparr>"

text \<open>\<open>_concluded\<close>\<close>

definition concluded :: "board_entry list option \<Rightarrow> inv_exn + inv_outcome" where
  "concluded entries =
     (case entries of
        Some (e # es) \<Rightarrow>
          (case be_body e of
             BDiagnosis dx \<Rightarrow>
               Inr \<lparr>oc_diagnosis = Some dx,
                    oc_escalate = (if dx_root_causes dx = [] then Some ''no root cause candidate is supported by the evidence'' else None)\<rparr>
           | _ \<Rightarrow> Inl IInvalid)
      | _ \<Rightarrow> Inr (new_outcome\<lparr>oc_escalate := Some ''the synthesizer could not produce a diagnosis''\<rparr>))"

definition coordinator_spec :: "'s inv_env \<Rightarrow> prompt \<Rightarrow> coordinator_plan agent_spec" where
  "coordinator_spec env p =
     agent_spec_of ''coordinator'' p [] (am_plan_parse (ie_models env)) (am_plan_schema (ie_models env)) 1"

definition knowledge_tools :: "'s inv_env \<Rightarrow> string list" where
  "knowledge_tools env = (if vr_knowledge (cf_variant (ie_config env)) then KNOWLEDGE_TOOLS else [])"

definition investigator_name :: "string \<Rightarrow> string" where
  "investigator_name focus = ''investigator.'' @ focus"

definition investigator_spec :: "'s inv_env \<Rightarrow> string \<Rightarrow> prompt \<Rightarrow> investigator_report agent_spec" where
  "investigator_spec env focus p =
     agent_spec_of (investigator_name focus) p (tools_for focus @ knowledge_tools env)
       (am_report_parse (ie_models env)) (am_report_schema (ie_models env)) (cf_max_steps (ie_config env))"

definition synthesizer_spec :: "'s inv_env \<Rightarrow> prompt \<Rightarrow> diagnosis agent_spec" where
  "synthesizer_spec env p = agent_spec_of ''synthesizer'' p [] (am_dx_parse (ie_models env)) (am_dx_schema (ie_models env)) 1"

definition solo_spec :: "'s inv_env \<Rightarrow> prompt \<Rightarrow> diagnosis agent_spec" where
  "solo_spec env p =
     agent_spec_of ''solo'' p (concat (map tools_for INVESTIGATORS) @ knowledge_tools env)
       (am_dx_parse (ie_models env)) (am_dx_schema (ie_models env)) (cf_max_steps (ie_config env) * length INVESTIGATORS)"

section \<open>The investigation\<close>

definition investigator ::
    "'s inv_env \<Rightarrow> (string \<Rightarrow> run_record option) \<Rightarrow> board_entry list \<Rightarrow> inc_view \<Rightarrow> coordinator_plan option \<Rightarrow> string \<Rightarrow>
       ('s, board_entry list option) inv_step" where
  "investigator env runs board v plan focus =
     with_prompt env (investigator_prompt focus (vr_knowledge (cf_variant (ie_config env)))) (\<lambda>p.
       once env runs board (investigator_spec env focus p) (investigator_task (ie_iso env) v plan focus)
         (check_findings (dp_incident (ie_deps env))) (finding_entries (investigator_name focus)))"

fun all_investigators ::
    "'s inv_env \<Rightarrow> (string \<Rightarrow> run_record option) \<Rightarrow> board_entry list \<Rightarrow> inc_view \<Rightarrow> coordinator_plan option \<Rightarrow> string list \<Rightarrow>
       ('s, unit) inv_step" where
  "all_investigators env runs board v plan [] = give ()"
| "all_investigators env runs board v plan (focus # rest) =
     andthen (investigator env runs board v plan focus) (\<lambda>_. all_investigators env runs board v plan rest)"

text \<open>The findings' text; \<open>cited\<close> are the ids the synthesizer may use.\<close>

definition report_summaries :: "(string \<Rightarrow> run_record option) \<Rightarrow> string \<Rightarrow> string" where
  "report_summaries runs agent =
     (case runs agent of None \<Rightarrow> '''' | Some r \<Rightarrow> (case rr_report_summary (ru_result r) of None \<Rightarrow> '''' | Some s \<Rightarrow> s))"

text \<open>The last part, on the runs and the board as they are after the investigators.\<close>

definition synthesize ::
    "'s inv_env \<Rightarrow> (string \<Rightarrow> run_record option) \<Rightarrow> board_entry list \<Rightarrow> inc_view \<Rightarrow> coordinator_plan option \<Rightarrow>
       ('s, inv_outcome) inv_step" where
  "synthesize env runs board v plan =
     (let inc = dp_incident (ie_deps env) in
      andthen (give_or_raise (findings_of board)) (\<lambda>findings.
        if findings = [] then give (new_outcome\<lparr>oc_escalate := Some ''the investigators found nothing they could support with evidence''\<rparr>)
        else let cited = concat (map (\<lambda>(a, f). f_evidence_ids f) findings) in
          andthen (ask_store env (\<lambda>d. pg_evidence_tools d inc cited)) (\<lambda>known.
          andthen (with_prompt env (variant_prompt (cf_variant (ie_config env)) ''synthesizer'' synthesizer_prompt) (\<lambda>p.
              once env runs board (synthesizer_spec env p)
                (synthesizer_task (ie_iso env) v plan findings (report_summaries runs) known)
                (check_dx_cited inc cited) (dx_entry ''synthesizer''))) (\<lambda>es.
            give_or_raise (concluded es)))))"

definition multi ::
    "'s inv_env \<Rightarrow> (string \<Rightarrow> run_record option) \<Rightarrow> board_entry list \<Rightarrow> inc_view \<Rightarrow> ('s, inv_outcome) inv_step" where
  "multi env runs board v =
     (let inc = dp_incident (ie_deps env) in
      andthen (with_prompt env coordinator_prompt (\<lambda>p.
          once env runs board (coordinator_spec env p) (describe (ie_iso env) v) accept_plan plan_entry)) (\<lambda>es.
      andthen (give_or_raise (plan_of es)) (\<lambda>plan.
      andthen (all_investigators env runs board v plan INVESTIGATORS) (\<lambda>_.
      andthen (ask_store env (\<lambda>d. pg_runs d inc)) (\<lambda>runs.
      andthen (ask_store env (\<lambda>d. pg_entries d inc)) (\<lambda>board.
        synthesize env runs board v plan))))))"

text \<open>\<open>_solo\<close>\<close>

definition solo ::
    "'s inv_env \<Rightarrow> (string \<Rightarrow> run_record option) \<Rightarrow> board_entry list \<Rightarrow> inc_view \<Rightarrow> ('s, inv_outcome) inv_step" where
  "solo env runs board v =
     andthen (with_prompt env (solo_prompt (vr_knowledge (cf_variant (ie_config env)))) (\<lambda>p.
        once env runs board (solo_spec env p) (describe (ie_iso env) v) (check_dx_shown (dp_incident (ie_deps env))) (dx_entry ''solo'')))
       (\<lambda>es. give_or_raise (concluded es))"

text \<open>\<open>except BudgetExceeded\<close>\<close>

definition on_budget :: "('s, inv_outcome) inv_step \<Rightarrow> ('s, inv_outcome) inv_step" where
  "on_budget m st =
     (case m st of
        (Inl (IBudget msg), st') \<Rightarrow> (Inr (new_outcome\<lparr>oc_escalate := Some (''token budget exhausted ('' @ msg @ '')'')\<rparr>), st')
      | x \<Rightarrow> x)"

definition investigate :: "'s inv_env \<Rightarrow> inc_view \<Rightarrow> ('s, inv_outcome) inv_step" where
  "investigate env v =
     (let inc = dp_incident (ie_deps env) in
      andthen (ask_store env (\<lambda>d. pg_runs d inc)) (\<lambda>runs.
      andthen (ask_store env (\<lambda>d. pg_entries d inc)) (\<lambda>board.
        on_budget (if vr_mode (cf_variant (ie_config env)) = Single then solo env runs board v else multi env runs board v))))"

section \<open>Every diagnosis rests on evidence\<close>

text \<open>The tool behind an evidence id of the incident, and what it means to rest on live data.\<close>

definition knows :: "db \<Rightarrow> string \<Rightarrow> known" where
  "knows d inc ev = map_option e_tool (find (\<lambda>e. e_id e = ev \<and> e_incident e = Some inc) (evidence d))"

definition live_ids :: "known \<Rightarrow> string list \<Rightarrow> bool" where
  "live_ids known ids \<longleftrightarrow>
     list_all (\<lambda>ev. known ev \<noteq> None) ids \<and>
     list_ex (\<lambda>ev. case known ev of None \<Rightarrow> False | Some t \<Rightarrow> t \<notin> set KNOWLEDGE_TOOLS) ids"

definition dx_grounded :: "known \<Rightarrow> diagnosis \<Rightarrow> bool" where
  "dx_grounded known dx \<longleftrightarrow>
     list_all (\<lambda>rc. live_ids known (rc_evidence_ids rc)) (dx_root_causes dx) \<and>
     list_all (\<lambda>c. live_ids known (cl_evidence_ids c)) (dx_facts dx) \<and>
     list_all (\<lambda>c. live_ids known (cl_evidence_ids c)) (dx_inferences dx)"

definition body_grounded :: "known \<Rightarrow> body \<Rightarrow> bool" where
  "body_grounded known b = (case b of BDiagnosis dx \<Rightarrow> dx_grounded known dx | _ \<Rightarrow> True)"

text \<open>A repair plan kept as the planner's result cites known evidence.\<close>

definition plan_known :: "known \<Rightarrow> remediation_plan \<Rightarrow> bool" where
  "plan_known known p \<longleftrightarrow> list_all (\<lambda>a. list_all (\<lambda>ev. known ev \<noteq> None) (a_evidence_ids a)) (rp_actions p)"

definition result_known :: "known \<Rightarrow> run_result \<Rightarrow> bool" where
  "result_known known res = (case rr_plan res of None \<Rightarrow> True | Some p \<Rightarrow> plan_known known p)"

definition board_grounded :: "db \<Rightarrow> bool" where
  "board_grounded d \<longleftrightarrow>
     list_all (\<lambda>b. body_grounded (knows d (b_incident b)) (b_body b)) (blackboard d) \<and>
     list_all (\<lambda>r. result_known (knows d (r_incident r)) (r_result r)) (agent_runs d)"

text \<open>What everybody does to the database: evidence stays, and the board stays grounded.\<close>

definition more_known :: "db \<Rightarrow> db \<Rightarrow> bool" where
  "more_known d d' \<longleftrightarrow> (\<forall>inc ev t. knows d inc ev = Some t \<longrightarrow> knows d' inc ev = Some t)"

definition keeps_board :: "db \<Rightarrow> db \<Rightarrow> bool" where
  "keeps_board d d' \<longleftrightarrow> more_known d d' \<and> (board_grounded d \<longrightarrow> board_grounded d')"

definition fair_others :: "'s deps \<Rightarrow> bool" where
  "fair_others dp \<longleftrightarrow> (\<forall>k d. keeps_board d (dp_others dp k d))"

lemma live_ids_mono:
  assumes "live_ids known ids" "\<And>ev t. known ev = Some t \<Longrightarrow> known' ev = Some t"
  shows "live_ids known' ids"
  using assms unfolding live_ids_def list_all_iff list_ex_iff by (fastforce split: option.splits)

lemma body_grounded_mono:
  assumes "body_grounded (knows d inc) b" "more_known d d'"
  shows "body_grounded (knows d' inc) b"
proof (cases b)
  case (BDiagnosis dx)
  have m: "live_ids (knows d inc) ids \<Longrightarrow> live_ids (knows d' inc) ids" for ids
    using live_ids_mono [of "knows d inc" ids "knows d' inc"] assms(2) by (simp add: more_known_def)
  from assms(1) BDiagnosis show ?thesis by (auto simp: body_grounded_def dx_grounded_def list_all_iff m)
qed (simp_all add: body_grounded_def)

lemma more_known_refl [simp]: "more_known d d"
  by (simp add: more_known_def)

lemma keeps_board_refl [simp]: "keeps_board d d"
  by (simp add: keeps_board_def)

lemma keeps_board_trans: "keeps_board a b \<Longrightarrow> keeps_board b c \<Longrightarrow> keeps_board a c"
  by (simp add: keeps_board_def more_known_def)

lemma result_known_mono:
  assumes "result_known (knows d inc) res" "more_known d d'"
  shows "result_known (knows d' inc) res"
proof (cases "rr_plan res")
  case (Some p)
  have "knows d' inc ev \<noteq> None" if "knows d inc ev \<noteq> None" for ev using that assms(2) by (force simp: more_known_def)
  with assms(1) Some show ?thesis unfolding result_known_def plan_known_def list_all_iff by fastforce
qed (simp add: result_known_def)

lemma board_grounded_mono:
  assumes "board_grounded d" "more_known d d'"
    and "\<And>b. b \<in> set (blackboard d') \<Longrightarrow> b \<in> set (blackboard d) \<or> body_grounded (knows d (b_incident b)) (b_body b)"
    and "\<And>r. r \<in> set (agent_runs d') \<Longrightarrow> r \<in> set (agent_runs d) \<or> result_known (knows d (r_incident r)) (r_result r)"
  shows "board_grounded d'"
  using assms(1,3,4) body_grounded_mono [OF _ assms(2)] result_known_mono [OF _ assms(2)] unfolding board_grounded_def list_all_iff by blast

lemma keeps_board_same:
  assumes "evidence d' = evidence d" "blackboard d' = blackboard d" "agent_runs d' = agent_runs d"
  shows "keeps_board d d'"
proof -
  have k: "knows d' = knows d" using assms(1) by (simp add: knows_def fun_eq_iff)
  then show ?thesis using assms by (simp add: keeps_board_def more_known_def board_grounded_def)
qed

lemma keeps_board_save: "keeps_board d (evidence_save ev c d)"
proof -
  have "more_known d (evidence_save ev c d)"
    by (auto simp: more_known_def knows_def evidence_save_def insert_evidence_def find_append split: option.splits)
  moreover from this have "board_grounded d \<Longrightarrow> board_grounded (evidence_save ev c d)"
    by (rule board_grounded_mono [rotated]) (simp_all add: evidence_save_def)
  ultimately show ?thesis by (simp add: keeps_board_def)
qed

lemma result_known_none [simp]: "result_known known no_result"
  by (simp add: result_known_def no_result_def)

lemma keeps_board_rows:
  assumes "evidence d' = evidence d"
    and "\<And>b. board_grounded d \<Longrightarrow> b \<in> set (blackboard d') \<Longrightarrow> b \<in> set (blackboard d) \<or> body_grounded (knows d (b_incident b)) (b_body b)"
    and "\<And>r. board_grounded d \<Longrightarrow> r \<in> set (agent_runs d') \<Longrightarrow> r \<in> set (agent_runs d) \<or> result_known (knows d (r_incident r)) (r_result r)"
  shows "keeps_board d d'"
proof -
  have mk: "more_known d d'" using assms(1) by (simp add: more_known_def knows_def)
  with board_grounded_mono [OF _ mk] assms(2,3) show ?thesis by (auto simp: keeps_board_def)
qed

lemma keeps_board_runs:
  "keeps_board d (pg_start_run t i a m p d)" "keeps_board d (pg_fail_run i a n e d)" "keeps_board d (pg_record_llm_call c d)"
  by (rule keeps_board_rows; auto simp: pg_start_run_def pg_fail_run_def pg_record_llm_call_def sql_update_def
      board_grounded_def list_all_iff split: if_splits)+

lemma agents_keep_board: "fair_others dp \<Longrightarrow> keeps keeps_board dp agent"
  unfolding keeps_def by (metis keeps_board_refl keeps_board_trans keeps_board_save keeps_board_runs(3) fair_others_def)

lemma insert_entries_rows:
  "b \<in> set (insert_entries t i es rows) \<Longrightarrow> b \<in> set rows \<or> (\<exists>e \<in> set es. b_incident b = i \<and> b_body b = be_body e)"
  by (induction es arbitrary: rows) (force simp: board_row_def)+

definition entries_grounded :: "db \<Rightarrow> string \<Rightarrow> board_entry list \<Rightarrow> bool" where
  "entries_grounded d inc es = list_all (\<lambda>e. body_grounded (knows d inc) (be_body e)) es"

lemma entries_grounded_mono: "entries_grounded d inc es \<Longrightarrow> keeps_board d d' \<Longrightarrow> entries_grounded d' inc es"
  unfolding entries_grounded_def list_all_iff keeps_board_def using body_grounded_mono by blast

lemma entries_grounded_board: "board_grounded d \<Longrightarrow> entries_grounded d inc (pg_entries d inc)"
  by (auto simp: entries_grounded_def board_grounded_def pg_entries_def entry_of_row_def list_all_iff)

lemma keeps_board_finish:
  assumes "entries_grounded d i es" "result_known (knows d i) res"
  shows "keeps_board d (pg_finish_run t i a n res es d)"
  by (rule keeps_board_rows)
    (use assms in \<open>auto simp: pg_finish_run_def entries_grounded_def list_all_iff sql_update_def unfinished_def run_at_def
      dest: insert_entries_rows split: if_splits\<close>)

subsection \<open>The steps keep the board grounded\<close>

definition db_of :: "'s inv_state \<Rightarrow> db" where
  "db_of st = aw_db (is_world st)"

text \<open>Reached from \<open>d1\<close>, with the board grounded.\<close>

definition good :: "db \<Rightarrow> 's inv_state \<Rightarrow> bool" where
  "good d1 st \<longleftrightarrow> keeps_board d1 (db_of st) \<and> board_grounded (db_of st)"

lemma good_keeps: "good d1 st \<Longrightarrow> keeps_board (db_of st) (db_of st') \<Longrightarrow> good d1 st'"
  unfolding good_def using keeps_board_trans by (auto simp: keeps_board_def more_known_def)

lemma good_entries: "good d1 st \<Longrightarrow> entries_grounded d1 inc es \<Longrightarrow> entries_grounded (db_of st) inc es"
  unfolding good_def by (blast intro: entries_grounded_mono)

text \<open>The statements relate the database before and after; so does a sequence of them.\<close>

definition moves :: "(db \<Rightarrow> db \<Rightarrow> bool) \<Rightarrow> ('s, 'a) inv_step \<Rightarrow> bool" where
  "moves R m \<longleftrightarrow> (\<forall>st. R (db_of st) (db_of (snd (m st))))"

lemma fair_step: "fair_others dp \<Longrightarrow> keeps_board (aw_db aw) (aw_db (sync dp aw))"
  by (simp add: sync_def fair_others_def)

lemma write_store_moves:
  assumes "fair_others (ie_deps env)" "\<And>d. keeps_board (db_of st) d \<Longrightarrow> keeps_board d (f d)"
  shows "keeps_board (db_of st) (db_of (snd (write_store env f st)))"
proof -
  let ?d = "aw_db (sync (ie_deps env) (is_world st))"
  have s: "keeps_board (db_of st) ?d" by (simp add: db_of_def fair_step [OF assms(1)])
  have "db_of (snd (write_store env f st)) \<in> {?d, f ?d}"
    by (auto simp: write_store_def fenced_write_def Let_def db_of_def job_transaction_Inr split: sum.splits option.splits prod.splits)
  with keeps_board_trans [OF s assms(2) [OF s]] s show ?thesis by auto
qed

lemma write_store_spec [steps]:
  assumes "fair_others (ie_deps env)" "\<And>d. keeps_board d (f d)"
  shows "spec_of (good d1) (write_store env f) (\<lambda>_. good d1) (\<lambda>_. good d1)"
  using good_keeps [OF _ write_store_moves [OF assms(1,2)]] by (fastforce simp: spec_of_def split: sum.splits prod.splits)

lemma note_agent_spec [steps]:
  "spec_of (\<lambda>st. good d1 st \<and> G (db_of st)) (note_agent a s) (\<lambda>_ st. good d1 st \<and> G (db_of st)) (\<lambda>_. good d1)"
  by (simp add: spec_of_def note_agent_def good_def db_of_def)

lemma ask_store_spec [steps]:
  assumes "fair_others (ie_deps env)"
  shows "spec_of (good d1) (ask_store env f) (\<lambda>a st. good d1 st \<and> a = f (db_of st)) (\<lambda>_. good d1)"
proof -
  have "good d1 (st\<lparr>is_world := sync (ie_deps env) (is_world st)\<rparr>)" if "good d1 st" for st
    by (rule good_keeps [OF that]) (simp add: db_of_def fair_step [OF assms])
  then show ?thesis by (simp add: spec_of_def ask_store_def Let_def db_of_def)
qed

lemma ask_any_spec:
  assumes "fair_others (ie_deps env)"
  shows "spec_of (good d1) (ask_store env f) (\<lambda>_. good d1) (\<lambda>_. good d1)"
  by (rule spec_conseq [OF ask_store_spec [OF assms]]) simp_all

lemma good_start: "good d1 st \<Longrightarrow> good (db_of st) st"
  by (simp add: good_def)

lemma spec_from:
  assumes "\<And>d0. spec_of (good d0) m (\<lambda>a st. Q a st \<and> good d0 st) (\<lambda>_. good d0)"
  shows "spec_of (good d1) m (\<lambda>a st. Q a st \<and> good d1 st) (\<lambda>_. good d1)"
  using assms by simp

text \<open>The answer of an agent whose entries are grounded whenever its check let them pass.\<close>

definition sound_entries :: "string \<Rightarrow> 'f agent_spec \<Rightarrow> 'f check_fn \<Rightarrow> 'f to_entries \<Rightarrow> bool" where
  "sound_entries inc sp chk to_entries \<longleftrightarrow>
     (\<forall>j f seen d r. sp_parse sp j = Inr f \<longrightarrow> entries_grounded d inc (fst (to_entries (ck_value (chk f seen d)) r)))"

definition run_sound :: "'s inv_env \<Rightarrow> 'f to_entries \<Rightarrow> 'f run_end \<Rightarrow> db \<Rightarrow> bool" where
  "run_sound env to_entries stop d \<longleftrightarrow>
     (\<forall>r f. stop = RunDone r \<longrightarrow> run_final r = Some f \<longrightarrow> entries_grounded d (dp_incident (ie_deps env)) (fst (to_entries f r)))"

text \<open>A run that is done has an answer that passed the check on the database as it is now.\<close>

definition answered :: "'f agent_spec \<Rightarrow> 'f check_fn \<Rightarrow> 'f run_end \<Rightarrow> db \<Rightarrow> bool" where
  "answered sp chk stop d \<longleftrightarrow>
     (\<forall>r. stop = RunDone r \<longrightarrow> (\<exists>j parsed seen. sp_parse sp j = Inr parsed \<and> run_final r = Some (ck_value (chk parsed seen d))))"

lemma run_step_answer:
  assumes "fair_others (ie_deps env)"
  shows "spec_of (good d1) (run_step env sp task model chk) (\<lambda>stop st. good d1 st \<and> answered sp chk stop (db_of st)) (\<lambda>_. good d1)"
proof -
  have "good d1 (st\<lparr>is_world := aw\<rparr>) \<and> answered sp chk stop (aw_db aw)"
    if g: "good d1 st" and e: "run_agent (ie_fuel env) (ie_deps env) sp task model chk (is_world st) = (stop, aw)" for st stop aw
  proof
    have "keeps_board (db_of st) (aw_db aw)"
      using run_agent_keeps [OF agents_keep_board [OF assms(1)], of "is_world st" "ie_fuel env" sp task model chk] e
      by (simp add: db_of_def)
    with g show "good d1 (st\<lparr>is_world := aw\<rparr>)" by (auto intro: good_keeps simp: db_of_def)
    show "answered sp chk stop (aw_db aw)"
      unfolding answered_def
    proof (intro allI impI)
      fix r assume "stop = RunDone r"
      with e have "agent_loop (ie_fuel env) (ie_deps env) sp model chk (new_run task) (is_world st) = (RunDone r, aw)"
        by (simp add: run_agent_def)
      from agent_loop_final [OF this] show "\<exists>j parsed seen. sp_parse sp j = Inr parsed \<and> run_final r = Some (ck_value (chk parsed seen (aw_db aw)))"
        by blast
    qed
  qed
  then show ?thesis by (auto simp: spec_of_def run_step_def db_of_def split: prod.splits)
qed

lemma run_step_spec:
  assumes "fair_others (ie_deps env)" "sound_entries (dp_incident (ie_deps env)) sp chk to_entries"
  shows "spec_of (good d1) (run_step env sp task model chk) (\<lambda>stop st. good d1 st \<and> run_sound env to_entries stop (db_of st)) (\<lambda>_. good d1)"
  by (rule spec_conseq [OF run_step_answer [OF assms(1)]])
    (use assms(2) in \<open>fastforce simp: run_sound_def answered_def sound_entries_def\<close>)+

lemma fail_agent_spec:
  assumes "fair_others (ie_deps env)" "spec_of (good d1) k Q (\<lambda>_. good d1)"
  shows "spec_of (good d1) (fail_agent env sp msg k) Q (\<lambda>_. good d1)"
  unfolding fail_agent_def
  by (rule spec_andthen [OF write_store_spec [OF assms(1) keeps_board_runs(2)]]) (rule assms(2))

definition es_good :: "'s inv_env \<Rightarrow> db \<Rightarrow> board_entry list option \<Rightarrow> 's inv_state \<Rightarrow> bool" where
  "es_good env d1 es st \<longleftrightarrow> good d1 st \<and> (\<forall>l. es = Some l \<longrightarrow> entries_grounded (db_of st) (dp_incident (ie_deps env)) l)"

lemma noted_spec:
  assumes "\<And>st. good d1 st \<and> G (db_of st) \<Longrightarrow> es_good env d1 es st"
  shows "spec_of (\<lambda>st. good d1 st \<and> G (db_of st)) (andthen (note_agent a s) (\<lambda>_. give es)) (es_good env d1) (\<lambda>_. good d1)"
  by (rule spec_andthen [OF note_agent_spec [where G = G]]) (rule spec_give, rule assms)

lemma failed_agent_spec: "spec_of (good d1) (failed_agent sp) (es_good env d1) (\<lambda>_. good d1)"
  unfolding failed_agent_def using noted_spec [of d1 "\<lambda>_. True" env None] by (simp add: es_good_def)

lemma finish_agent_spec:
  assumes "fair_others (ie_deps env)"
  shows "spec_of (\<lambda>st. good d1 st \<and> run_sound env to_entries (RunDone r) (db_of st)) (finish_agent env sp to_entries r)
    (es_good env d1) (\<lambda>_. good d1)"
proof (cases "run_final r")
  case None
  then show ?thesis by (simp add: finish_agent_def spec_of_def raise_exn_def)
next
  case (Some f)
  let ?inc = "dp_incident (ie_deps env)" and ?es = "fst (to_entries f r)"
  let ?f = "pg_finish_run (dp_tenant (ie_deps env)) ?inc (sp_name sp) (run_steps r)
                     \<lparr>rr_counts = run_summary r, rr_report_summary = snd (to_entries f r), rr_plan = None\<rparr> ?es"
  have w: "spec_of (\<lambda>st. good d1 st \<and> entries_grounded (db_of st) ?inc ?es) (write_store env ?f)
      (\<lambda>_ st. good d1 st \<and> entries_grounded (db_of st) ?inc ?es) (\<lambda>_. good d1)"
  proof -
    have "keeps_board (db_of st) (db_of (snd (write_store env ?f st)))" if "entries_grounded (db_of st) ?inc ?es" for st
      by (rule write_store_moves [OF assms keeps_board_finish [OF entries_grounded_mono [OF that]]]) (simp_all add: result_known_def)
    then have "good d1 (snd (write_store env ?f st)) \<and> entries_grounded (db_of (snd (write_store env ?f st))) ?inc ?es"
      if "good d1 st \<and> entries_grounded (db_of st) ?inc ?es" for st
      using that good_keeps entries_grounded_mono by blast
    then show ?thesis by (rule spec_state)
  qed
  have n: "spec_of (\<lambda>st. good d1 st \<and> entries_grounded (db_of st) ?inc ?es)
      (andthen (note_agent (sp_name sp) AgentDone) (\<lambda>_. give (Some ?es))) (es_good env d1) (\<lambda>_. good d1)"
    by (rule noted_spec) (simp add: es_good_def)
  have eq: "finish_agent env sp to_entries r = andthen (write_store env ?f) (\<lambda>_. andthen (note_agent (sp_name sp) AgentDone) (\<lambda>_. give (Some ?es)))"
    by (simp add: finish_agent_def Let_def case_prod_beta Some)
  show ?thesis unfolding eq
    by (rule spec_conseq [OF spec_andthen [OF w n]]) (simp_all add: run_sound_def Some)
qed

lemma after_run_spec:
  assumes "fair_others (ie_deps env)"
  shows "spec_of (\<lambda>st. good d1 st \<and> run_sound env to_entries stop (db_of st)) (after_run env sp to_entries stop)
    (es_good env d1) (\<lambda>_. good d1)"
proof (cases stop)
  case (RunDone r)
  with finish_agent_spec [OF assms] show ?thesis by (simp add: after_run_def)
next
  case RunOutOfFuel
  then show ?thesis by (simp add: after_run_def spec_of_def raise_exn_def)
next
  case (RunRaised e r)
  have r: "spec_of (good d1) (raise_exn x) (es_good env d1) (\<lambda>_. good d1)" for x by (rule spec_raise) simp
  have "spec_of (good d1) (after_run env sp to_entries stop) (es_good env d1) (\<lambda>_. good d1)"
    by (cases e) (auto simp: after_run_def RunRaised intro!: fail_agent_spec [OF assms] r failed_agent_spec)
  then show ?thesis by (rule spec_conseq) simp_all
qed

lemma once_spec:
  assumes "fair_others (ie_deps env)" "sound_entries (dp_incident (ie_deps env)) sp chk to_entries"
    and "entries_grounded d1 (dp_incident (ie_deps env)) board"
  shows "spec_of (good d1) (once env runs board sp task chk to_entries) (es_good env d1) (\<lambda>_. good d1)"
proof (cases "is_done (runs (sp_name sp))")
  case True
  have "entries_grounded d1 (dp_incident (ie_deps env)) (filter (\<lambda>e. be_author e = sp_name sp) board)"
    using assms(3) by (auto simp: entries_grounded_def list_all_iff)
  with noted_spec [of d1 "\<lambda>_. True" env "Some (filter (\<lambda>e. be_author e = sp_name sp) board)"] True show ?thesis
    by (auto simp: once_def es_good_def good_entries)
next
  case False
  let ?f = "pg_start_run (dp_tenant (ie_deps env)) (dp_incident (ie_deps env)) (sp_name sp)
      (config_model (ie_config env) (sp_name sp)) (sp_prompt_version sp)"
  have "spec_of (good d1) (andthen (write_store env ?f) (\<lambda>_. andthen (run_step env sp task (config_model (ie_config env) (sp_name sp)) chk)
      (after_run env sp to_entries))) (es_good env d1) (\<lambda>_. good d1)"
    by (intro spec_andthen [OF write_store_spec [OF assms(1)]] spec_andthen [OF run_step_spec [OF assms(1,2)]]
        after_run_spec [OF assms(1)] keeps_board_runs(1))
  with False show ?thesis by (simp add: once_def Let_def)
qed

text \<open>What pydantic accepts keeps the limits of the model: a parameter with a named hypothesis.\<close>

definition parses_valid :: "answer_models \<Rightarrow> bool" where
  "parses_valid am \<longleftrightarrow> (\<forall>j dx. am_dx_parse am j = Inr dx \<longrightarrow> valid_diagnosis dx)"

lemma rests_on_live: "rests_on (pg_evidence_tools d inc ids') seen ids \<Longrightarrow> live_ids (knows d inc) ids"
  unfolding rests_on_def live_ids_def list_all_iff list_ex_iff pg_evidence_tools_def knows_def
  by (fastforce split: if_splits option.splits)

lemma checked_dx_grounded:
  assumes "valid_diagnosis dx"
  shows "dx_grounded (knows d inc) (ck_value (check_diagnosis dx (pg_evidence_tools d inc ids) seen))"
  using check_diagnosis_rests [OF assms, of "pg_evidence_tools d inc ids" seen]
  by (auto simp: dx_grounded_def list_all_iff intro: rests_on_live)

lemma sound_agents:
  "sound_entries inc (coordinator_spec env p) accept_plan plan_entry"
  "sound_entries inc (investigator_spec env focus p) (check_findings inc) (finding_entries a)"
  "parses_valid (ie_models env) \<Longrightarrow> sound_entries inc (synthesizer_spec env p) (check_dx_cited inc cited) (dx_entry a)"
  "parses_valid (ie_models env) \<Longrightarrow> sound_entries inc (solo_spec env p) (check_dx_shown inc) (dx_entry a)"
  by (auto simp: sound_entries_def plan_entry_def finding_entries_def dx_entry_def entries_grounded_def body_grounded_def
      list_all_iff check_dx_cited_def check_dx_shown_def synthesizer_spec_def solo_spec_def agent_spec_of_def parses_valid_def
      intro!: checked_dx_grounded)

lemma with_prompt_spec:
  assumes "\<And>p. spec_of (good d1) (k p) Q (\<lambda>_. good d1)"
  shows "spec_of (good d1) (with_prompt env f k) Q (\<lambda>_. good d1)"
  using assms by (auto simp: with_prompt_def spec_of_def raise_exn_def split: sum.splits)

lemma give_or_raise_spec:
  assumes "\<And>a st. x = Inr a \<Longrightarrow> P st \<Longrightarrow> Q a st" "\<And>st. P st \<Longrightarrow> good d1 st"
  shows "spec_of P (give_or_raise x) Q (\<lambda>_. good d1)"
  using assms by (auto simp: give_or_raise_def spec_of_def raise_exn_def give_def split: sum.splits)

text \<open>The outcome's diagnosis is grounded.\<close>

definition oc_good :: "'s inv_env \<Rightarrow> db \<Rightarrow> inv_outcome \<Rightarrow> 's inv_state \<Rightarrow> bool" where
  "oc_good env d1 oc st \<longleftrightarrow>
     good d1 st \<and> (\<forall>dx. oc_diagnosis oc = Some dx \<longrightarrow> dx_grounded (knows (db_of st) (dp_incident (ie_deps env))) dx)"

lemma es_goodD: "es_good env d1 es st \<Longrightarrow> good d1 st"
  by (simp add: es_good_def)

lemma oc_new [simp]: "oc_good env d1 (new_outcome\<lparr>oc_escalate := x\<rparr>) st = good d1 st"
  by (simp add: oc_good_def new_outcome_def)

lemma concluded_spec: "spec_of (es_good env d1 es) (give_or_raise (concluded es)) (oc_good env d1) (\<lambda>_. good d1)"
proof (rule give_or_raise_spec [OF _ es_goodD])
  fix oc st assume c: "concluded es = Inr oc" and g: "es_good env d1 es st"
  show "oc_good env d1 oc st"
  proof (cases "oc_diagnosis oc")
    case None
    with es_goodD [OF g] show ?thesis by (simp add: oc_good_def)
  next
    case (Some dx)
    with c obtain e l where "es = Some (e # l)" "be_body e = BDiagnosis dx"
      by (auto simp: concluded_def new_outcome_def split: option.splits list.splits body.splits)
    with g Some show ?thesis by (auto simp: es_good_def oc_good_def entries_grounded_def body_grounded_def)
  qed
qed

lemma solo_spec_of:
  assumes "fair_others (ie_deps env)" "parses_valid (ie_models env)" "entries_grounded d1 (dp_incident (ie_deps env)) board"
  shows "spec_of (good d1) (solo env runs board v) (oc_good env d1) (\<lambda>_. good d1)"
  unfolding solo_def
  by (intro spec_andthen [OF with_prompt_spec concluded_spec] once_spec assms sound_agents)

lemma investigators_spec:
  assumes "fair_others (ie_deps env)" "entries_grounded d1 (dp_incident (ie_deps env)) board"
  shows "spec_of (good d1) (all_investigators env runs board v plan fs) (\<lambda>_. good d1) (\<lambda>_. good d1)"
proof (induction fs)
  case Nil
  show ?case by (simp, rule spec_give)
next
  case (Cons f fs)
  have "spec_of (good d1) (investigator env runs board v plan f) (es_good env d1) (\<lambda>_. good d1)"
    unfolding investigator_def by (intro with_prompt_spec once_spec assms sound_agents)
  then have "spec_of (good d1) (investigator env runs board v plan f) (\<lambda>_. good d1) (\<lambda>_. good d1)"
    by (rule spec_conseq) (auto dest: es_goodD)
  from spec_andthen [OF this Cons] show ?case by simp
qed

lemma good_trans: "good d1 st \<Longrightarrow> good (db_of st) st' \<Longrightarrow> good d1 st'"
  unfolding good_def using keeps_board_trans by blast

text \<open>A new base: the database as it is now.\<close>

lemma spec_rebase:
  fixes env :: "'s inv_env" and m :: "('s, inv_outcome) inv_step"
  assumes "\<And>d0. board_grounded d0 \<Longrightarrow> Pre d0 \<Longrightarrow> spec_of (good d0) m (oc_good env d0) (\<lambda>_. good d0)"
  shows "spec_of (\<lambda>st. good d1 st \<and> Pre (db_of st)) m (oc_good env d1) (\<lambda>_. good d1)"
  unfolding spec_of_def
proof (intro allI impI)
  fix st :: "'s inv_state"
  assume st: "good d1 st \<and> Pre (db_of st)"
  then have g: "good (db_of st) st" "board_grounded (db_of st)" by (auto simp: good_def)
  with assms [of "db_of st"] st have m: "case m st of (Inr oc, st') \<Rightarrow> oc_good env (db_of st) oc st' | (Inl e, st') \<Rightarrow> good (db_of st) st'"
    by (simp add: spec_of_def)
  obtain x st' where "m st = (x, st')" by force
  with m st good_trans show "case m st of (Inl e, st') \<Rightarrow> good d1 st' | (Inr oc, st') \<Rightarrow> oc_good env d1 oc st'"
    by (cases x) (auto simp: oc_good_def)
qed

lemma synthesize_spec:
  assumes "fair_others (ie_deps env)" "parses_valid (ie_models env)" "entries_grounded d1 (dp_incident (ie_deps env)) board"
  shows "spec_of (good d1) (synthesize env runs board v plan) (oc_good env d1) (\<lambda>_. good d1)"
proof -
  have once: "spec_of (good d1) (once env runs board (synthesizer_spec env p) task (check_dx_cited (dp_incident (ie_deps env)) cited) (dx_entry a))
      (es_good env d1) (\<lambda>_. good d1)" for p task cited a
    by (intro once_spec assms sound_agents)
  have weak: "spec_of (\<lambda>st. good d1 st \<and> G st) m Q (\<lambda>_. good d1)" if "spec_of (good d1) m Q (\<lambda>_. good d1)" for m Q G
    by (rule spec_conseq [OF that]) simp_all
  show ?thesis
    unfolding synthesize_def Let_def
  proof (rule spec_andthen [OF give_or_raise_spec [where Q = "\<lambda>_. good d1"]])
    fix findings
    show "spec_of (good d1)
        (if findings = [] then give (new_outcome\<lparr>oc_escalate := Some ''the investigators found nothing they could support with evidence''\<rparr>)
         else andthen (ask_store env (\<lambda>d. pg_evidence_tools d (dp_incident (ie_deps env)) (concat (map (\<lambda>(a, f). f_evidence_ids f) findings)))) (\<lambda>known.
           andthen (with_prompt env (variant_prompt (cf_variant (ie_config env)) ''synthesizer'' synthesizer_prompt) (\<lambda>p.
              once env runs board (synthesizer_spec env p) (synthesizer_task (ie_iso env) v plan findings (report_summaries runs) known)
                (check_dx_cited (dp_incident (ie_deps env)) (concat (map (\<lambda>(a, f). f_evidence_ids f) findings))) (dx_entry ''synthesizer''))) (\<lambda>es.
            give_or_raise (concluded es)))) (oc_good env d1) (\<lambda>_. good d1)"
      by (auto intro!: spec_give spec_andthen [OF ask_store_spec [OF assms(1)]] weak spec_andthen [OF with_prompt_spec concluded_spec] once)
  qed simp_all
qed

lemma multi_spec:
  assumes "fair_others (ie_deps env)" "parses_valid (ie_models env)" "entries_grounded d1 (dp_incident (ie_deps env)) board"
  shows "spec_of (good d1) (multi env runs board v) (oc_good env d1) (\<lambda>_. good d1)"
proof -
  let ?inc = "dp_incident (ie_deps env)"
  have coord: "spec_of (good d1) (with_prompt env coordinator_prompt (\<lambda>p.
      once env runs board (coordinator_spec env p) (describe (ie_iso env) v) accept_plan plan_entry)) (es_good env d1) (\<lambda>_. good d1)"
    by (intro with_prompt_spec once_spec assms sound_agents)
  have plan: "spec_of (es_good env d1 es) (give_or_raise (plan_of es)) (\<lambda>_. good d1) (\<lambda>_. good d1)" for es
    by (rule give_or_raise_spec) (auto dest: es_goodD)
  have synth: "spec_of (\<lambda>st. good d1 st \<and> board = pg_entries (db_of st) ?inc) (synthesize env runs board v plan)
      (oc_good env d1) (\<lambda>_. good d1)" for runs board plan
    by (rule spec_rebase [where Pre = "\<lambda>d. board = pg_entries d ?inc"])
      (auto intro: synthesize_spec [OF assms(1,2)] entries_grounded_board)
  show ?thesis
    unfolding multi_def Let_def
    by (intro spec_andthen [OF coord] spec_andthen [OF plan] spec_andthen [OF investigators_spec [OF assms(1,3)]]
        spec_andthen [OF ask_any_spec [OF assms(1)]] spec_andthen [OF ask_store_spec [OF assms(1)] synth])
qed

lemma on_budget_spec:
  assumes "spec_of P m (oc_good env d1) (\<lambda>_. good d1)"
  shows "spec_of P (on_budget m) (oc_good env d1) (\<lambda>_. good d1)"
  unfolding spec_of_def
proof (intro allI impI)
  fix st assume "P st"
  with assms have m: "case m st of (Inr oc, st') \<Rightarrow> oc_good env d1 oc st' | (Inl e, st') \<Rightarrow> good d1 st'" by (simp add: spec_of_def)
  obtain x st' where x: "m st = (x, st')" by force
  show "case on_budget m st of (Inl e, st') \<Rightarrow> good d1 st' | (Inr oc, st') \<Rightarrow> oc_good env d1 oc st'"
  proof (cases x)
    case (Inl e)
    with m x show ?thesis by (cases e) (simp_all add: on_budget_def)
  qed (use m x in \<open>simp add: on_budget_def\<close>)
qed

lemma investigate_spec:
  assumes "fair_others (ie_deps env)" "parses_valid (ie_models env)"
  shows "spec_of (good d1) (investigate env v) (oc_good env d1) (\<lambda>_. good d1)"
proof -
  let ?inc = "dp_incident (ie_deps env)"
  have body: "spec_of (\<lambda>st. good d1 st \<and> board = pg_entries (db_of st) ?inc)
      (on_budget (if vr_mode (cf_variant (ie_config env)) = Single then solo env runs board v else multi env runs board v))
      (oc_good env d1) (\<lambda>_. good d1)" for runs board
    by (rule spec_rebase [where Pre = "\<lambda>d. board = pg_entries d ?inc"])
      (auto intro!: on_budget_spec solo_spec_of [OF assms] multi_spec [OF assms] entries_grounded_board)
  show ?thesis
    unfolding investigate_def Let_def
    by (intro spec_andthen [OF ask_any_spec [OF assms(1)]] spec_andthen [OF ask_store_spec [OF assms(1)] body])
qed

section \<open>A finished agent is not asked again\<close>

text \<open>
  What every statement of an investigation keeps, the whole investigation keeps: the statements of
  the store for an agent of \<open>A\<close> (with entries of its own), its model calls, the tool results, and
  what the others do. Agents outside \<open>A\<close> are known to be done when the runs are read.
\<close>

definition kept_by_agents :: "(db \<Rightarrow> bool) \<Rightarrow> string set \<Rightarrow> string \<Rightarrow> 's deps \<Rightarrow> bool" where
  "kept_by_agents I A inc dp \<longleftrightarrow>
     (\<forall>k d. I d \<longrightarrow> I (dp_others dp k d)) \<and>
     (\<forall>ev c d. I d \<longrightarrow> I (evidence_save ev c d)) \<and>
     (\<forall>c d. lc_incident c = Some inc \<longrightarrow> lc_agent c \<in> A \<longrightarrow> I d \<longrightarrow> I (pg_record_llm_call c d)) \<and>
     (\<forall>t a m p d. a \<in> A \<longrightarrow> I d \<longrightarrow> I (pg_start_run t inc a m p d)) \<and>
     (\<forall>a n e d. a \<in> A \<longrightarrow> I d \<longrightarrow> I (pg_fail_run inc a n e d)) \<and>
     (\<forall>t a n res es d. a \<in> A \<longrightarrow> (\<forall>e \<in> set es. be_author e = a) \<longrightarrow> I d \<longrightarrow> I (pg_finish_run t inc a n res es d)) \<and>
     (\<forall>d a. I d \<longrightarrow> a \<notin> A \<longrightarrow> is_done (pg_runs d inc a))"

lemma keptD:
  assumes "kept_by_agents I A inc dp" "I d"
  shows "I (dp_others dp k d)" and "I (evidence_save ev c d)"
    and "lc_incident call = Some inc \<Longrightarrow> lc_agent call \<in> A \<Longrightarrow> I (pg_record_llm_call call d)"
    and "a \<in> A \<Longrightarrow> I (pg_start_run t inc a m p d)" and "a \<in> A \<Longrightarrow> I (pg_fail_run inc a n e d)"
    and "a \<in> A \<Longrightarrow> (\<And>e. e \<in> set es \<Longrightarrow> be_author e = a) \<Longrightarrow> I (pg_finish_run t inc a n res es d)"
    and "a \<notin> A \<Longrightarrow> is_done (pg_runs d inc a)"
  using assms unfolding kept_by_agents_def by auto

abbreviation keeps_I :: "(db \<Rightarrow> bool) \<Rightarrow> ('s, 'a) inv_step \<Rightarrow> bool" where
  "keeps_I I m \<equiv> spec_of (\<lambda>st. I (db_of st)) m (\<lambda>_ st. I (db_of st)) (\<lambda>_ st. I (db_of st))"

lemma keeps_andthen: "keeps_I I m \<Longrightarrow> (\<And>a. keeps_I I (f a)) \<Longrightarrow> keeps_I I (andthen m f)"
  by (rule spec_andthen)

lemma keeps_pure [intro]: "keeps_I I (give a)" "keeps_I I (raise_exn e)" "keeps_I I (note_agent n s)" "keeps_I I (give_or_raise x)"
  by (auto simp: spec_of_def give_def raise_exn_def note_agent_def db_of_def give_or_raise_def split: sum.splits)

lemma keeps_write:
  assumes "kept_by_agents I A inc (ie_deps env)" "\<And>d. I d \<Longrightarrow> I (f d)"
  shows "keeps_I I (write_store env f)"
  using keptD(1) [OF assms(1)] assms(2)
  by (auto simp: spec_of_def write_store_def db_of_def sync_def Let_def fenced_write_def job_transaction_Inr
      split: sum.splits prod.splits option.splits)

lemma keeps_ask:
  assumes "kept_by_agents I A inc (ie_deps env)"
  shows "spec_of (\<lambda>st. I (db_of st)) (ask_store env f) (\<lambda>x st. I (db_of st) \<and> (\<exists>d. I d \<and> x = f d)) (\<lambda>_ st. I (db_of st))"
  using keptD(1) [OF assms] by (auto simp: spec_of_def ask_store_def db_of_def sync_def Let_def)

text \<open>The step after a read may use what holds of the value.\<close>

lemma keeps_ask_then:
  assumes "kept_by_agents I A inc (ie_deps env)" "\<And>d. I d \<Longrightarrow> keeps_I I (k (f d))"
  shows "keeps_I I (andthen (ask_store env f) k)"
proof (rule spec_andthen [OF keeps_ask [OF assms(1)]])
  fix a
  show "spec_of (\<lambda>st. I (db_of st) \<and> (\<exists>d. I d \<and> a = f d)) (k a) (\<lambda>_ st. I (db_of st)) (\<lambda>_ st. I (db_of st))"
  proof (cases "\<exists>d. I d \<and> a = f d")
    case True
    with assms(2) have "keeps_I I (k a)" by auto
    then show ?thesis by (rule spec_conseq) simp_all
  next
    case False
    then show ?thesis unfolding spec_of_def by blast
  qed
qed

lemma keeps_run_step:
  assumes "kept_by_agents I A (dp_incident (ie_deps env)) (ie_deps env)" "sp_name sp \<in> A"
  shows "keeps_I I (run_step env sp task model chk)"
proof -
  have "keeps (\<lambda>d d'. I d \<longrightarrow> I d') (ie_deps env) (sp_name sp)"
    using keptD(1-3) [OF assms(1)] assms(2) by (simp add: keeps_def)
  note k = run_agent_keeps [OF this]
  show ?thesis
    unfolding spec_of_def
  proof (intro allI impI)
    fix st :: "'a inv_state"
    assume "I (db_of st)"
    with k [of "is_world st" "ie_fuel env" task model chk]
    have "I (aw_db (snd (run_agent (ie_fuel env) (ie_deps env) sp task model chk (is_world st))))" by (simp add: db_of_def)
    then show "case run_step env sp task model chk st of (Inl e, st') \<Rightarrow> I (db_of st') | (Inr a, st') \<Rightarrow> I (db_of st')"
      by (simp add: run_step_def db_of_def case_prod_beta)
  qed
qed

definition authored :: "string \<Rightarrow> 'f to_entries \<Rightarrow> bool" where
  "authored a to_entries \<longleftrightarrow> (\<forall>f r. \<forall>e \<in> set (fst (to_entries f r)). be_author e = a)"

lemma keeps_once:
  assumes "kept_by_agents I A (dp_incident (ie_deps env)) (ie_deps env)" "authored (sp_name sp) to_entries"
    and "sp_name sp \<in> A \<or> is_done (runs (sp_name sp))"
  shows "keeps_I I (once env runs board sp task chk to_entries)"
proof (cases "is_done (runs (sp_name sp))")
  case True
  then show ?thesis by (auto simp: once_def intro!: keeps_andthen)
next
  case False
  with assms(3) have A: "sp_name sp \<in> A" by simp
  note k = keptD [OF assms(1)]
  have fa: "keeps_I I (failed_agent sp)" unfolding failed_agent_def by (intro keeps_andthen keeps_pure)
  have fl: "keeps_I I (fail_agent env sp msg m)" if "keeps_I I m" for msg and m :: "('a, 'd) inv_step"
    unfolding fail_agent_def by (intro keeps_andthen keeps_write [OF assms(1)] k(5) A that)
  have fin: "keeps_I I (finish_agent env sp to_entries r)" for r
    using assms(2) unfolding finish_agent_def
    by (auto simp: authored_def Let_def case_prod_beta split: option.splits
        intro!: keeps_andthen keeps_write [OF assms(1)] k(6) A)
  have "keeps_I I (after_run env sp to_entries stop)" for stop
    unfolding after_run_def by (cases stop) (auto split: agent_exn.splits intro!: fin fl fa)
  with False show ?thesis
    by (simp add: once_def Let_def)
      (intro keeps_andthen keeps_write [OF assms(1)] k(4) A keeps_run_step [OF assms(1) A])
qed

lemma keeps_with_prompt: "(\<And>p. keeps_I I (k p)) \<Longrightarrow> keeps_I I (with_prompt env f k)"
  by (auto simp: with_prompt_def split: sum.splits)

lemma keeps_on_budget:
  assumes "keeps_I I m"
  shows "keeps_I I (on_budget m)"
  unfolding spec_of_def
proof (intro allI impI)
  fix st :: "'a inv_state"
  assume "I (db_of st)"
  with assms have m: "case m st of (Inl e, st') \<Rightarrow> I (db_of st') | (Inr a, st') \<Rightarrow> I (db_of st')" by (simp add: spec_of_def)
  obtain x st' where x: "m st = (x, st')" by force
  show "case on_budget m st of (Inl e, st') \<Rightarrow> I (db_of st') | (Inr a, st') \<Rightarrow> I (db_of st')"
  proof (cases x)
    case (Inl e)
    with m x show ?thesis by (cases e) (simp_all add: on_budget_def)
  qed (use m x in \<open>simp add: on_budget_def\<close>)
qed

definition runs_known :: "string set \<Rightarrow> (string \<Rightarrow> run_record option) \<Rightarrow> bool" where
  "runs_known A runs \<longleftrightarrow> (\<forall>a. a \<notin> A \<longrightarrow> is_done (runs a))"

lemma authored_agents:
  "authored (sp_name (coordinator_spec env p)) plan_entry"
  "authored (sp_name (investigator_spec env focus p)) (finding_entries (investigator_name focus))"
  "authored (sp_name (synthesizer_spec env p)) (dx_entry ''synthesizer'')"
  "authored (sp_name (solo_spec env p)) (dx_entry ''solo'')"
  by (simp_all add: authored_def plan_entry_def finding_entries_def dx_entry_def coordinator_spec_def investigator_spec_def
      synthesizer_spec_def solo_spec_def agent_spec_of_def)

lemma keeps_known:
  assumes "kept_by_agents I A (dp_incident (ie_deps env)) (ie_deps env)" "runs_known A runs" "authored (sp_name sp) to_entries"
  shows "keeps_I I (once env runs board sp task chk to_entries)"
  using assms keeps_once [OF assms(1,3), of runs] by (auto simp: runs_known_def)

lemma investigate_keeps:
  assumes k: "kept_by_agents I A (dp_incident (ie_deps env)) (ie_deps env)"
  shows "keeps_I I (investigate env v)"
proof -
  let ?inc = "dp_incident (ie_deps env)"
  have kn: "runs_known A (pg_runs d ?inc)" if "I d" for d using keptD(7) [OF k that] by (simp add: runs_known_def)
  have inv: "keeps_I I (all_investigators env runs board v plan fs)" if "runs_known A runs" for runs board plan fs
    by (induction fs) (auto simp: investigator_def intro!: keeps_andthen keeps_with_prompt keeps_known [OF k that] authored_agents)
  have synth: "keeps_I I (synthesize env runs board v plan)" if "runs_known A runs" for runs board plan
    unfolding synthesize_def Let_def
    by (auto intro!: keeps_andthen keeps_ask_then [OF k] keeps_with_prompt keeps_known [OF k that] authored_agents)
  have multi: "keeps_I I (multi env runs board v)" if "runs_known A runs" for runs board
    unfolding multi_def Let_def
    by (intro keeps_andthen keeps_with_prompt keeps_known [OF k that] authored_agents keeps_pure inv [OF that] keeps_ask_then [OF k] synth kn)
  have solo: "keeps_I I (solo env runs board v)" if "runs_known A runs" for runs board
    unfolding solo_def by (intro keeps_andthen keeps_with_prompt keeps_known [OF k that] authored_agents keeps_pure)
  show ?thesis
    unfolding investigate_def Let_def
    by (intro keeps_ask_then [OF k] keeps_on_budget) (auto intro: multi solo kn)
qed

text \<open>Done: the checkpoint, the calls the agent has made and its entries on the board.\<close>

definition calls_of :: "string \<Rightarrow> string \<Rightarrow> db \<Rightarrow> llm_call_row list" where
  "calls_of inc a d = filter (\<lambda>c. l_incident c = Some inc \<and> l_agent c = a) (llm_calls d)"

definition entries_of :: "string \<Rightarrow> string \<Rightarrow> db \<Rightarrow> blackboard_row list" where
  "entries_of inc a d = filter (\<lambda>b. b_incident b = inc \<and> b_author b = a) (blackboard d)"

definition same_work :: "string \<Rightarrow> string \<Rightarrow> db \<Rightarrow> db \<Rightarrow> bool" where
  "same_work inc a d d' \<longleftrightarrow> is_done (pg_runs d' inc a) \<and> calls_of inc a d' = calls_of inc a d \<and> entries_of inc a d' = entries_of inc a d"

lemma done_row_stays:
  assumes "is_done (pg_runs d i a)" "\<And>r. run_key (f r) = run_key r"
  shows "is_done (pg_runs (d\<lparr>agent_runs := sql_update (unfinished i' a') f (agent_runs d)\<rparr>) i a)"
proof -
  from assms(1) obtain r where r: "find (run_at i a) (agent_runs d) = Some r" "r_status r = run_status.RunDone"
    by (auto simp: is_done_def pg_runs_def run_of_row_def split: option.splits)
  then have "find (run_at i a) (sql_update (unfinished i' a') f (agent_runs d)) = Some r"
    using find_run_update [of "unfinished i' a'" f i a "agent_runs d"] assms(2) by (auto simp: unfinished_def)
  with r(2) show ?thesis by (simp add: is_done_def pg_runs_def run_of_row_def)
qed

lemma insert_entries_other:
  "(\<And>e. e \<in> set es \<Longrightarrow> be_author e \<noteq> a) \<Longrightarrow>
     filter (\<lambda>b. b_incident b = i' \<and> b_author b = a) (insert_entries t i es rows) = filter (\<lambda>b. b_incident b = i' \<and> b_author b = a) rows"
  by (induction es arbitrary: rows) (simp_all add: board_row_def)

lemma is_done_runs: "agent_runs d' = agent_runs d \<Longrightarrow> is_done (pg_runs d' i a) = is_done (pg_runs d i a)"
  by (simp add: pg_runs_def)

lemma done_agent_kept:
  assumes "\<And>k d'. same_work inc a d d' \<Longrightarrow> same_work inc a d (dp_others dp k d')"
  shows "kept_by_agents (same_work inc a d) (- {a}) inc dp"
proof -
  have start: "same_work inc a d (pg_start_run t inc b m p d')" if "same_work inc a d d'" for t b m p d'
  proof -
    have "is_done (pg_runs (pg_start_run t inc b m p d') inc a)" using that by (auto simp: same_work_def pg_runs_start)
    then show ?thesis using that by (simp add: same_work_def calls_of_def entries_of_def pg_start_run_def)
  qed
  have "same_work inc a d (pg_fail_run inc b n e d')" if "same_work inc a d d'" for b n e d'
    using that done_row_stays [of d' inc a "\<lambda>r. r\<lparr>r_status := RunFailed, r_steps := n, r_error := Some (take 2000 e)\<rparr>" inc b]
    by (simp add: same_work_def pg_fail_run_def calls_of_def entries_of_def run_key_def)
  moreover have "same_work inc a d (pg_finish_run t inc b n res es d')"
    if w: "same_work inc a d d'" and b: "b \<in> - {a}" "\<forall>e \<in> set es. be_author e = b" for t b n res es d'
  proof -
    have "is_done (pg_runs (pg_finish_run t inc b n res es d') inc a)"
      using w done_row_stays [of d' inc a "\<lambda>r. r\<lparr>r_status := run_status.RunDone, r_steps := n, r_result := res\<rparr>" inc b]
      by (simp add: same_work_def pg_finish_run_def run_key_def pg_runs_def)
    moreover have "entries_of inc a (pg_finish_run t inc b n res es d') = entries_of inc a d'"
      using b by (auto simp: entries_of_def pg_finish_run_def intro!: insert_entries_other)
    ultimately show ?thesis using w by (simp add: same_work_def calls_of_def pg_finish_run_def)
  qed
  moreover have "same_work inc a d (evidence_save ev c d')" if "same_work inc a d d'" for ev c d'
    using that by (simp add: same_work_def evidence_save_def calls_of_def entries_of_def pg_runs_def)
  moreover have "same_work inc a d (pg_record_llm_call c d')" if "same_work inc a d d'" "lc_agent c \<in> - {a}" for c d'
    using that by (simp add: same_work_def pg_record_llm_call_def calls_of_def entries_of_def pg_runs_def llm_call_row_of_def)
  ultimately show ?thesis using start assms by (simp add: kept_by_agents_def same_work_def)
qed

lemma finished_agent_stays:
  assumes "is_done (pg_runs d inc a)" "dp_incident (ie_deps env) = inc" "aw_db aw = d"
    and "\<And>k d'. same_work inc a d d' \<Longrightarrow> same_work inc a d (dp_others (ie_deps env) k d')"
  shows "same_work inc a d (db_of (snd (investigate env v \<lparr>is_world = aw, is_agents = ag\<rparr>)))"
proof -
  let ?st = "\<lparr>is_world = aw, is_agents = ag\<rparr>"
  have k: "kept_by_agents (same_work inc a d) (- {a}) (dp_incident (ie_deps env)) (ie_deps env)"
    unfolding assms(2) by (rule done_agent_kept) (rule assms(4))
  have "same_work inc a d (db_of ?st)" using assms(1,3) by (simp add: same_work_def db_of_def)
  with investigate_keeps [OF k, of v] show ?thesis
    by (cases "fst (investigate env v ?st)") (auto simp: spec_of_def case_prod_beta dest!: spec [where x = ?st])
qed

section \<open>An investigation ends\<close>

text \<open>
  With enough fuel no agent runs out of it, provided the backend answers a request without tools
  with a final answer (the coordinator and the synthesizer have none, and nothing else makes them).
\<close>

abbreviation ends :: "('s, 'a) inv_step \<Rightarrow> bool" where
  "ends m \<equiv> spec_of (\<lambda>_. True) m (\<lambda>_ _. True) (\<lambda>e _. e \<noteq> IOutOfFuel)"

lemma ends_andthen: "ends m \<Longrightarrow> (\<And>a. ends (f a)) \<Longrightarrow> ends (andthen m f)"
  by (rule spec_andthen)

lemma ends_simple:
  "ends (give a)" "e \<noteq> IOutOfFuel \<Longrightarrow> ends (raise_exn e)" "ends (note_agent n s)" "ends (write_store env f)" "ends (ask_store env g)"
  by (auto simp: spec_of_def give_def raise_exn_def note_agent_def write_store_def ask_store_def Let_def split: sum.splits)

lemma ends_once:
  assumes "final_only (dp_backend (ie_deps env))" "run_fuel sp \<le> ie_fuel env"
  shows "ends (once env runs board sp task chk to_entries)"
proof -
  note agent = run_agent_ends [OF disjI2 [OF assms(1)] assms(2)]
  have fin: "ends (finish_agent env sp to_entries r)" for r
    unfolding finish_agent_def by (auto simp: Let_def case_prod_beta split: option.splits intro!: ends_andthen ends_simple)
  have after: "ends (after_run env sp to_entries stop)" if "stop \<noteq> RunOutOfFuel" for stop
    using that unfolding after_run_def fail_agent_def failed_agent_def
    by (cases stop) (auto split: agent_exn.splits intro!: ends_andthen ends_simple fin)
  have run: "spec_of (\<lambda>_. True) (run_step env sp task model chk) (\<lambda>stop _. stop \<noteq> RunOutOfFuel) (\<lambda>e _. e \<noteq> IOutOfFuel)" for model
    using agent [of task model chk] by (auto simp: spec_of_def run_step_def split: prod.splits)
      (metis fst_conv)
  have run_after: "ends (andthen (run_step env sp task model chk) (after_run env sp to_entries))" for model
  proof (rule spec_andthen [OF run])
    fix stop
    show "spec_of (\<lambda>_. stop \<noteq> RunOutOfFuel) (after_run env sp to_entries stop) (\<lambda>_ _. True) (\<lambda>e _. e \<noteq> IOutOfFuel)"
      using after [of stop] by (auto simp: spec_of_def)
  qed
  show ?thesis unfolding once_def Let_def by (auto intro!: ends_andthen ends_simple run_after)
qed

lemma ends_with_prompt: "(\<And>p. ends (k p)) \<Longrightarrow> ends (with_prompt env f k)"
  by (auto simp: with_prompt_def ends_simple split: sum.splits)

lemma ends_give_or_raise: "x \<noteq> Inl IOutOfFuel \<Longrightarrow> ends (give_or_raise x)"
  by (auto simp: give_or_raise_def spec_of_def give_def raise_exn_def split: sum.splits)

lemma findings_of_raises: "findings_of board = Inl e \<Longrightarrow> e = IInvalid"
proof -
  have "mapS (\<lambda>e. case be_body e of BFinding f \<Rightarrow> Inr (be_author e, f) | _ \<Rightarrow> Inl IInvalid) es = Inl e \<Longrightarrow> e = IInvalid" for es
    by (induction es) (auto simp: bindS_Inl_iff split: body.splits)
  then show "findings_of board = Inl e \<Longrightarrow> e = IInvalid" by (auto simp: findings_of_def)
qed

lemma body_raises: "plan_of es \<noteq> Inl IOutOfFuel" "concluded es \<noteq> Inl IOutOfFuel" "findings_of board \<noteq> Inl IOutOfFuel"
  using findings_of_raises [of board IOutOfFuel] by (auto simp: plan_of_def concluded_def split: option.splits list.splits body.splits)

lemma fuel_of_specs:
  "run_fuel (coordinator_spec env p) \<le> 2" "run_fuel (synthesizer_spec env p) \<le> 2"
  "run_fuel (investigator_spec env focus p) \<le> cf_max_steps (ie_config env) + 2"
  "run_fuel (solo_spec env p) \<le> 3 * cf_max_steps (ie_config env) + 2"
  by (simp_all add: run_fuel_def coordinator_spec_def synthesizer_spec_def investigator_spec_def solo_spec_def agent_spec_of_def INVESTIGATORS_def)

lemma investigate_ends:
  assumes "final_only (dp_backend (ie_deps env))" "3 * cf_max_steps (ie_config env) + 2 \<le> ie_fuel env"
  shows "ends (investigate env v)"
proof -
  note once = ends_once [OF assms(1)]
  note le = order_trans [OF fuel_of_specs(1)] order_trans [OF fuel_of_specs(2)] order_trans [OF fuel_of_specs(3)] order_trans [OF fuel_of_specs(4)]
  have inv: "ends (all_investigators env runs board v plan fs)" for runs board plan fs
    by (induction fs) (use assms(2) in \<open>auto simp: investigator_def intro!: ends_andthen ends_simple ends_with_prompt once le\<close>)
  have synth: "ends (synthesize env runs board v plan)" for runs board plan
    unfolding synthesize_def Let_def
    by (use assms(2) in \<open>auto intro!: ends_andthen ends_simple ends_with_prompt once le ends_give_or_raise body_raises\<close>)
  have multi: "ends (multi env runs board v)" for runs board
    unfolding multi_def Let_def
    by (use assms(2) in \<open>auto intro!: ends_andthen ends_simple ends_with_prompt once le ends_give_or_raise body_raises inv synth\<close>)
  have solo: "ends (solo env runs board v)" for runs board
    unfolding solo_def
    by (use assms(2) in \<open>auto intro!: ends_andthen ends_simple ends_with_prompt once le ends_give_or_raise body_raises\<close>)
  have budget: "ends (on_budget m)" if "ends m" for m :: "('a, inv_outcome) inv_step"
    using that unfolding spec_of_def on_budget_def by (fastforce split: prod.splits sum.splits inv_exn.splits)
  show ?thesis
    unfolding investigate_def Let_def by (intro ends_andthen ends_simple budget) (simp add: multi solo)
qed

end
