(* ===== verification/InvestigateJob.thy ===== *)
theory InvestigateJob
  imports Investigation
begin

text \<open>
  The investigate job (\<open>app/worker/investigate.py\<close>) and the planner (\<open>app/remediation/planner.py\<close>),
  the two places where agents work for the pipeline. The job's first transaction moves the
  incident to INVESTIGATING or finds it there, the agents run, and the last transaction moves it
  to DIAGNOSED, with the plan job, or to ESCALATED. The result of a handler is \<open>None\<close> when an
  agent did not end within the fuel.
\<close>

section \<open>The investigate job\<close>

record 's services =
  sv_backend :: "'s backend"
  sv_backend_name :: string
  sv_registry :: registry
  sv_source :: "'s source"
  sv_prompts :: prompt_env
  sv_models :: answer_models
  sv_role_models :: "(string \<times> string) list"
  sv_model :: string
  sv_tenant_variants :: "(string \<times> string) list"
  sv_others :: "nat \<Rightarrow> db \<Rightarrow> db"
  sv_fuel :: nat

definition services_deps :: "world \<Rightarrow> settings \<Rightarrow> 's services \<Rightarrow> inc_view \<Rightarrow> 's deps" where
  "services_deps w st sv v =
     \<lparr>dp_sha = w_sha w, dp_backend = sv_backend sv, dp_backend_name = sv_backend_name sv, dp_registry = sv_registry sv,
      dp_source = sv_source sv, dp_tenant = iv_tenant v, dp_incident = iv_id v,
      dp_token_budget = llm_incident_token_budget st, dp_others = sv_others sv\<rparr>"

definition services_env :: "world \<Rightarrow> settings \<Rightarrow> 's services \<Rightarrow> job \<Rightarrow> inc_view \<Rightarrow> variant \<Rightarrow> 's inv_env" where
  "services_env w st sv job v variant =
     \<lparr>ie_deps = services_deps w st sv v, ie_job = Some job,
      ie_config = \<lparr>cf_model_for = model_for (sv_role_models sv) (sv_model sv), cf_max_steps = agent_max_steps st, cf_variant = variant\<rparr>,
      ie_prompts = sv_prompts sv, ie_models = sv_models sv, ie_iso = w_iso w, ie_fuel = sv_fuel sv\<rparr>"

definition worker_actor :: "string \<Rightarrow> string" where
  "worker_actor worker_id = ''worker:'' @ worker_id"

text \<open>The first transaction: the version the incident has from here on and what the agents are told.\<close>

definition investigate_begin :: "world \<Rightarrow> string \<Rightarrow> job \<Rightarrow> string \<Rightarrow> (nat \<times> inc_view) option tx" where
  "investigate_begin w actor job incident_id =
     job_transaction job (\<lambda>d.
       case incidents_get d incident_id None of
         None \<Rightarrow> Inl PermanentJobError
       | Some incident \<Rightarrow>
           if i_state incident = TRIAGED then
             bindS (transition w (i_id incident) TRIAGED INVESTIGATING (i_version incident) actor ''investigation started'' d)
               (\<lambda>(version, d1). Inr (Some (version, incident_view d1 incident), d1))
           else if i_state incident = INVESTIGATING then Inr (Some (i_version incident, incident_view d incident), d)
           else Inr (None, d))"

definition cause_reason :: "root_cause \<Rightarrow> string" where
  "cause_reason rc =
     take 500 (''root cause candidate: '' @ rc_service rc @ '' ('' @ fmt_percent (rc_confidence rc) @ ''): '' @ rc_cause rc)"

definition priority_index :: "string \<Rightarrow> nat" where
  "priority_index p = (case index_of p PRIORITY_NAMES of Some i \<Rightarrow> i | None \<Rightarrow> 0)"

text \<open>
  The last transaction. A diagnosis without root causes comes with a reason to escalate, so the
  first root cause exists (an \<open>IndexError\<close> otherwise, which is a \<open>LookupError\<close> like \<open>KeyError\<close>).
\<close>

definition investigate_commit :: "world \<Rightarrow> settings \<Rightarrow> string \<Rightarrow> job \<Rightarrow> inc_view \<Rightarrow> nat \<Rightarrow> inv_outcome \<Rightarrow> unit tx" where
  "investigate_commit w st actor job v version oc =
     job_transaction job (\<lambda>d.
       case (oc_escalate oc, oc_diagnosis oc) of
         (None, Some dx) \<Rightarrow>
           (case dx_root_causes dx of
              [] \<Rightarrow> Inl KeyError
            | cause # others \<Rightarrow>
                bindS (transition w (iv_id v) INVESTIGATING DIAGNOSED version actor (cause_reason cause) d) (\<lambda>(_, d1).
                  if auto_remediate st
                  then bindS (enqueue w (iv_tenant v) ''plan'' (priority_index (iv_priority v)) (queue_max_attempts st)
                         (queue_aging_step_s st) (Some (iv_id v)) [] (Some (iv_id v @ '':plan'')) 0 d1) (\<lambda>(_, d2). Inr ((), d2))
                  else Inr ((), d1)))
       | _ \<Rightarrow>
           bindS (transition w (iv_id v) INVESTIGATING ESCALATED version actor
                    (take 500 (case oc_escalate oc of None \<Rightarrow> ''no diagnosis'' | Some m \<Rightarrow> if m = '''' then ''no diagnosis'' else m)) d)
             (\<lambda>(_, d1). Inr ((), d1)))"

text \<open>What the handler makes of what the investigation came to.\<close>

datatype inv_end = Conclude inv_outcome | GiveUp "handler_end option"

definition after_investigation :: "job \<Rightarrow> inv_exn + inv_outcome \<Rightarrow> inv_end" where
  "after_investigation job res =
     (case res of
        Inr oc \<Rightarrow> Conclude oc
      | Inl (ILLM e) \<Rightarrow>
          if \<not> le_retryable e \<or> jb_max_attempts job \<le> jb_attempts job
          then Conclude (new_outcome\<lparr>oc_escalate := Some (''the model was unavailable: '' @ llm_error_text e)\<rparr>)
          else GiveUp (Some (RaisedOther ''LLMError'' (llm_error_text e)))
      | Inl (IBudget m) \<Rightarrow> GiveUp (Some (RaisedOther ''BudgetExceeded'' m))
      | Inl (IExn e) \<Rightarrow> GiveUp (Some (Raised e ''''))
      | Inl (IValueError m) \<Rightarrow> GiveUp (Some (RaisedOther ''ValueError'' m))
      | Inl IInvalid \<Rightarrow> GiveUp (Some (RaisedOther ''ValidationError'' ''''))
      | Inl IOutOfFuel \<Rightarrow> GiveUp None)"

definition investigate_job ::
    "world \<Rightarrow> settings \<Rightarrow> string \<Rightarrow> 's services \<Rightarrow> job \<Rightarrow> 's \<Rightarrow> db \<Rightarrow> handler_end option \<times> 's \<times> db" where
  "investigate_job w st worker_id sv job s d =
     (case job_incident job of
        Inl e \<Rightarrow> (Some (Raised e ''''), s, d)
      | Inr incident_id \<Rightarrow>
          (case investigate_begin w (worker_actor worker_id) job incident_id d of
             Inl e \<Rightarrow> (Some (Raised e ''''), s, d)
           | Inr (None, d1) \<Rightarrow> (Some Returned, s, d1)
           | Inr (Some (version, v), d1) \<Rightarrow>
               (case for_tenant (iv_tenant v) (sv_tenant_variants sv) of
                  Inl m \<Rightarrow> (Some (RaisedOther ''ValueError'' m), s, d1)
                | Inr variant \<Rightarrow>
                    (let env = services_env w st sv job v variant;
                         (res, st1) = investigate env v \<lparr>is_world = \<lparr>aw_ext = s, aw_tick = 0, aw_db = d1\<rparr>, is_agents = []\<rparr>
                     in case after_investigation job res of
                          GiveUp r \<Rightarrow> (r, aw_ext (is_world st1), db_of st1)
                        | Conclude oc \<Rightarrow>
                            (let aw = sync (ie_deps env) (is_world st1)
                             in case investigate_commit w st (worker_actor worker_id) job v version oc (aw_db aw) of
                                  Inl e \<Rightarrow> (Some (Raised e ''''), aw_ext aw, aw_db aw)
                                | Inr (_, d2) \<Rightarrow> (Some Returned, aw_ext aw, d2))))))"

section \<open>The planner\<close>

definition PLANNER :: string where
  "PLANNER = ''planner''"

definition PLANNER_TOOLS :: "string list" where
  "PLANNER_TOOLS = [''rollout_history'', ''deploy_diff'', ''k8s_events'']"

definition plan_cited :: "remediation_plan \<Rightarrow> string list" where
  "plan_cited p = remdups (concat (map a_evidence_ids (rp_actions p)))"

definition planner_spec :: "'s inv_env \<Rightarrow> nat \<Rightarrow> prompt \<Rightarrow> remediation_plan agent_spec" where
  "planner_spec env max_steps p =
     agent_spec_of PLANNER p PLANNER_TOOLS (am_repair_parse (ie_models env)) (am_repair_schema (ie_models env)) max_steps"

definition check_repair :: "string \<Rightarrow> string list \<Rightarrow> remediation_plan check_fn" where
  "check_repair inc cited plan seen d = check_plan plan (pg_evidence_tools d inc (plan_cited plan)) (map fst seen @ cited)"

definition finish_planner :: "'s inv_env \<Rightarrow> remediation_plan agent_run \<Rightarrow> ('s, proposal) inv_step" where
  "finish_planner env r =
     (case run_final r of
        None \<Rightarrow> raise_exn IInvalid
      | Some plan \<Rightarrow>
          andthen (write_store env (pg_finish_run (dp_tenant (ie_deps env)) (dp_incident (ie_deps env)) PLANNER (run_steps r)
                     \<lparr>rr_counts = run_summary r, rr_report_summary = None, rr_plan = Some plan\<rparr> []))
            (\<lambda>_. give \<lparr>pp_plan = Some plan, pp_error = None\<rparr>))"

definition no_plan :: "string \<Rightarrow> ('s, proposal) inv_step" where
  "no_plan error = give \<lparr>pp_plan = None, pp_error = Some error\<rparr>"

definition after_planner :: "'s inv_env \<Rightarrow> remediation_plan agent_spec \<Rightarrow> remediation_plan run_end \<Rightarrow> ('s, proposal) inv_step" where
  "after_planner env sp stop =
     (case stop of
        RunDone r \<Rightarrow> finish_planner env r
      | RunRaised (BudgetExceeded m) r \<Rightarrow>
          fail_agent env sp ''token budget exhausted'' (no_plan (''token budget exhausted ('' @ m @ '')''))
      | RunRaised (LLMRaisedError e) r \<Rightarrow>
          fail_agent env sp (llm_error_text e)
            (if le_retryable e \<and> le_code e \<noteq> ''invalid_output'' then raise_exn (ILLM e)
             else no_plan (''the planner failed: '' @ llm_error_text e))
      | RunRaised (AgentFailed m) r \<Rightarrow> fail_agent env sp m (no_plan m)
      | RunOutOfFuel \<Rightarrow> raise_exn IOutOfFuel)"

definition propose_fresh :: "'s inv_env \<Rightarrow> nat \<Rightarrow> inc_view \<Rightarrow> diagnosis \<Rightarrow> ('s, proposal) inv_step" where
  "propose_fresh env max_steps v dx =
     (let inc = dp_incident (ie_deps env); tenant = dp_tenant (ie_deps env) in
      with_prompt env planner_prompt (\<lambda>p.
        let sp = planner_spec env max_steps p; model = cf_model_for (ie_config env) PLANNER in
        andthen (ask_store env (\<lambda>d. pg_evidence_tools d inc (dx_cited dx))) (\<lambda>known.
        andthen (write_store env (pg_start_run tenant inc PLANNER model (sp_prompt_version sp))) (\<lambda>_.
        andthen (run_step env sp (planner_task (ie_iso env) v dx known) model (check_repair inc (dx_cited dx)))
          (after_planner env sp)))))"

text \<open>A finished planner's plan is read back from its checkpoint.\<close>

definition propose :: "'s inv_env \<Rightarrow> nat \<Rightarrow> inc_view \<Rightarrow> diagnosis \<Rightarrow> ('s, proposal) inv_step" where
  "propose env max_steps v dx =
     andthen (ask_store env (\<lambda>d. pg_runs d (dp_incident (ie_deps env)) PLANNER)) (\<lambda>run.
       case (is_done run, run) of
         (True, Some r) \<Rightarrow>
           (case rr_plan (ru_result r) of None \<Rightarrow> raise_exn (IExn KeyError) | Some p \<Rightarrow> give \<lparr>pp_plan = Some p, pp_error = None\<rparr>)
       | _ \<Rightarrow> propose_fresh env max_steps v dx)"

text \<open>The planner as \<open>plan_job\<close> calls it; an agent that does not end is cut off by the runner's timeout.\<close>

definition planner_end :: "inv_exn + proposal \<Rightarrow> planner_end" where
  "planner_end res =
     (case res of
        Inr p \<Rightarrow> Proposed p
      | Inl (ILLM e) \<Rightarrow> LLMRaised (le_retryable e) (llm_error_text e)
      | Inl (IBudget m) \<Rightarrow> PlannerRaised (RaisedOther ''BudgetExceeded'' m)
      | Inl (IExn e) \<Rightarrow> PlannerRaised (Raised e '''')
      | Inl (IValueError m) \<Rightarrow> PlannerRaised (RaisedOther ''ValueError'' m)
      | Inl IInvalid \<Rightarrow> PlannerRaised (RaisedOther ''ValidationError'' '''')
      | Inl IOutOfFuel \<Rightarrow> PlannerRaised (RaisedOther ''TimeoutError'' ''''))"

definition plan_proposer :: "world \<Rightarrow> settings \<Rightarrow> 's services \<Rightarrow> job \<Rightarrow> 's \<Rightarrow> incident_row \<Rightarrow> diagnosis \<Rightarrow> db \<Rightarrow> planner_end \<times> db" where
  "plan_proposer w st sv job s incident dx d =
     (let v = incident_view d incident;
          (res, st1) = propose (services_env w st sv job v DEFAULT_VARIANT) (planner_max_steps st) v dx
            \<lparr>is_world = \<lparr>aw_ext = s, aw_tick = 0, aw_db = d\<rparr>, is_agents = []\<rparr>
      in (planner_end res, db_of st1))"

section \<open>What the jobs keep\<close>

lemma transition_keeps_board: "transition w i s t v a r d = Inr (v', d') \<Longrightarrow> keeps_board d d'"
  by (rule keeps_board_same) (auto dest: transition_frame)

lemma enqueue_keeps_board: "enqueue w tn k p m st inc pl key dl d = Inr (r, d') \<Longrightarrow> keeps_board d d'"
  by (rule keeps_board_same) (auto dest!: enqueue_Inr)

lemma investigate_begin_keeps: "investigate_begin w actor job inc d = Inr (x, d1) \<Longrightarrow> keeps_board d d1"
  by (auto simp: investigate_begin_def job_transaction_Inr tx_simps split: option.splits if_splits dest!: transition_keeps_board)

lemma investigate_commit_keeps: "investigate_commit w st actor job v version oc d = Inr (u, d1) \<Longrightarrow> keeps_board d d1"
  by (auto simp: investigate_commit_def job_transaction_Inr tx_simps split: option.splits list.splits if_splits
      dest!: transition_keeps_board enqueue_keeps_board intro: keeps_board_trans)

text \<open>Evidence only ever grows, whatever the board was like before.\<close>

lemma investigate_knows:
  assumes "fair_others (ie_deps env)"
  shows "more_known (db_of st) (db_of (snd (investigate env v st)))"
proof -
  let ?d = "db_of st"
  have m: "more_known ?d d' \<Longrightarrow> keeps_board d' d'' \<Longrightarrow> more_known ?d d''" for d' d'' by (simp add: more_known_def keeps_board_def)
  have ev: "evidence (pg_finish_run t i a n res es d') = evidence d'" for t i a n res es d' by (simp add: pg_finish_run_def)
  have k: "knows (pg_finish_run t i a n res es d') = knows d'" for t i a n res es d' by (simp add: knows_def fun_eq_iff ev)
  have "kept_by_agents (more_known ?d) UNIV (dp_incident (ie_deps env)) (ie_deps env)"
    using m [OF _ keeps_board_save] m [OF _ keeps_board_runs(1)] m [OF _ keeps_board_runs(2)] m [OF _ keeps_board_runs(3)] assms m
    by (auto simp: kept_by_agents_def fair_others_def k more_known_def [of _ "pg_finish_run t i a n res es d'" for t i a n res es d']
        simp flip: more_known_def)
  from investigate_keeps [OF this, of v] show ?thesis
    by (cases "fst (investigate env v st)") (auto simp: spec_of_def case_prod_beta dest!: spec [where x = st])
qed

text \<open>
  The investigation keeps what it relies on of the others: two workers that investigate at the
  same time are each other's others.
\<close>

lemma investigate_is_fair:
  assumes "fair_others (ie_deps env)" "parses_valid (ie_models env)"
  shows "keeps_board (db_of st) (db_of (snd (investigate env v st)))"
proof -
  have "board_grounded (db_of (snd (investigate env v st)))" if "board_grounded (db_of st)"
  proof -
    have "good (db_of st) st" using that by (simp add: good_def)
    with investigate_spec [OF assms, of "db_of st" v] have "good (db_of st) (snd (investigate env v st))"
      by (cases "fst (investigate env v st)") (auto simp: spec_of_def oc_good_def case_prod_beta dest!: spec [where x = st])
    then show ?thesis by (simp add: good_def)
  qed
  with investigate_knows [OF assms(1), of st v] show ?thesis by (simp add: keeps_board_def)
qed

lemma services_fair: "(\<And>k d. keeps_board d (sv_others sv k d)) \<Longrightarrow> fair_others (ie_deps (services_env w st sv job v variant))"
  by (simp add: fair_others_def services_env_def services_deps_def)

lemma investigate_job_ends:
  assumes "investigate_job w st wid sv job s d = (r, s', d')"
  obtains "d' = d"
  | iid y d1 where "investigate_begin w (worker_actor wid) job iid d = Inr (y, d1)" "d' = d1"
  | iid version v variant env d1 res st1 aw where
      "investigate_begin w (worker_actor wid) job iid d = Inr (Some (version, v), d1)"
      "env = services_env w st sv job v variant"
      "investigate env v \<lparr>is_world = \<lparr>aw_ext = s, aw_tick = 0, aw_db = d1\<rparr>, is_agents = []\<rparr> = (res, st1)"
      "aw = sync (ie_deps env) (is_world st1)"
      "d' = db_of st1 \<or> d' = aw_db aw \<or> (\<exists>oc. investigate_commit w st (worker_actor wid) job v version oc (aw_db aw) = Inr ((), d'))"
proof (cases "job_incident job")
  case (Inl e)
  with assms that(1) show thesis by (simp add: investigate_job_def)
next
  case i: (Inr iid)
  show thesis
  proof (cases "investigate_begin w (worker_actor wid) job iid d")
    case (Inl e)
    with assms i that(1) show thesis by (simp add: investigate_job_def)
  next
    case (Inr x)
    obtain y d1 where x: "x = (y, d1)" by force
    note b = Inr [unfolded x]
    show thesis
    proof (cases "\<exists>version v variant. y = Some (version, v) \<and> for_tenant (iv_tenant v) (sv_tenant_variants sv) = Inr variant")
      case False
      with assms i b have "d' = d1" by (auto simp: investigate_job_def split: option.splits sum.splits)
      with b show thesis by (rule that(2))
    next
      case True
      then obtain version v variant where y: "y = Some (version, v)" "for_tenant (iv_tenant v) (sv_tenant_variants sv) = Inr variant" by blast
      let ?env = "services_env w st sv job v variant"
      obtain res st1 where inv: "investigate ?env v \<lparr>is_world = \<lparr>aw_ext = s, aw_tick = 0, aw_db = d1\<rparr>, is_agents = []\<rparr> = (res, st1)" by force
      let ?aw = "sync (ie_deps ?env) (is_world st1)"
      have "d' = db_of st1 \<or> d' = aw_db ?aw \<or> (\<exists>oc. investigate_commit w st (worker_actor wid) job v version oc (aw_db ?aw) = Inr ((), d'))"
        using assms i b y inv by (auto simp: investigate_job_def Let_def split: inv_end.splits sum.splits)
      from that(3) [OF b [unfolded y(1)] refl inv refl this] show thesis .
    qed
  qed
qed

lemma investigate_job_keeps:
  assumes "\<And>k d. keeps_board d (sv_others sv k d)" "parses_valid (sv_models sv)"
    and "investigate_job w st wid sv job s d = (r, s', d')"
  shows "keeps_board d d'"
  using assms(3)
proof (cases rule: investigate_job_ends)
  case (2 iid y d1)
  then show ?thesis by (auto dest: investigate_begin_keeps)
next
  case (3 iid version v variant env d1 res st1 aw)
  have fair: "fair_others (ie_deps env)" unfolding 3(2) by (rule services_fair) (rule assms(1))
  have "parses_valid (ie_models env)" using assms(2) by (simp add: 3(2) services_env_def)
  from investigate_is_fair [OF fair this, of "\<lparr>is_world = \<lparr>aw_ext = s, aw_tick = 0, aw_db = d1\<rparr>, is_agents = []\<rparr>" v] 3(3)
  have "keeps_board d1 (db_of st1)" by (simp add: db_of_def)
  with investigate_begin_keeps [OF 3(1)] have k: "keeps_board d (db_of st1)" by (rule keeps_board_trans)
  have "keeps_board (db_of st1) (aw_db aw)" unfolding db_of_def 3(4) by (rule fair_step [OF fair])
  with k have "keeps_board d (aw_db aw)" by (rule keeps_board_trans)
  with 3(5) k show ?thesis by (auto dest: investigate_commit_keeps intro: keeps_board_trans)
qed simp

lemma flow_diagnosis_grounded:
  assumes "board_grounded d" "flow_diagnosis d inc = Some dx"
  shows "dx_grounded (knows d inc) dx"
proof -
  from assms(2) obtain b where "latest b_id (filter (\<lambda>b. b_incident b = inc \<and> b_kind b = KDiagnosis) (blackboard d)) = Some b"
      "b_body b = BDiagnosis dx" by (auto simp: flow_diagnosis_def split: option.splits body.splits)
  with latest_mem [of b_id] assms(1) show ?thesis by (force simp: board_grounded_def list_all_iff body_grounded_def)
qed

lemma grounded_causes:
  "dx_grounded known dx \<Longrightarrow> rc \<in> set (dx_root_causes dx) \<Longrightarrow>
     (\<forall>ev \<in> set (rc_evidence_ids rc). known ev \<noteq> None) \<and>
     (\<exists>ev \<in> set (rc_evidence_ids rc). \<exists>t. known ev = Some t \<and> t \<notin> set KNOWLEDGE_TOOLS)"
  by (fastforce simp: dx_grounded_def live_ids_def list_all_iff list_ex_iff split: option.splits)

section \<open>What the planner proposes\<close>

definition plan_good :: "'s inv_env \<Rightarrow> db \<Rightarrow> proposal \<Rightarrow> 's inv_state \<Rightarrow> bool" where
  "plan_good env d1 p st \<longleftrightarrow>
     good d1 st \<and> (\<forall>plan. pp_plan p = Some plan \<longrightarrow> plan_known (knows (db_of st) (dp_incident (ie_deps env))) plan)"

lemma plan_known_mono: "plan_known (knows d inc) p \<Longrightarrow> keeps_board d d' \<Longrightarrow> plan_known (knows d' inc) p"
  using result_known_mono [of d inc "\<lparr>rr_counts = [], rr_report_summary = None, rr_plan = Some p\<rparr>" d']
  by (simp add: result_known_def keeps_board_def)

lemma check_repair_known: "plan_known (knows d inc) (ck_value (check_repair inc cited plan seen d))"
  by (auto simp: check_repair_def check_plan_eq plan_known_def list_all_iff cites_ok_def shown_and_known_def pg_evidence_tools_def
      knows_def split: if_splits)

lemma finish_planner_spec:
  assumes "fair_others (ie_deps env)"
  shows "spec_of (\<lambda>st. good d1 st \<and> answered sp (check_repair (dp_incident (ie_deps env)) cited) (RunDone r) (db_of st))
    (finish_planner env r) (plan_good env d1) (\<lambda>_. good d1)"
proof (cases "run_final r")
  case None
  then show ?thesis by (simp add: finish_planner_def spec_of_def raise_exn_def)
next
  case (Some plan)
  let ?inc = "dp_incident (ie_deps env)"
  let ?f = "pg_finish_run (dp_tenant (ie_deps env)) ?inc PLANNER (run_steps r)
                     \<lparr>rr_counts = run_summary r, rr_report_summary = None, rr_plan = Some plan\<rparr> []"
  have w: "good d1 (snd (write_store env ?f st)) \<and> plan_known (knows (db_of (snd (write_store env ?f st))) ?inc) plan"
    if "good d1 st \<and> plan_known (knows (db_of st) ?inc) plan" for st
  proof -
    have "keeps_board d (?f d)" if "keeps_board (db_of st) d" for d
      by (rule keeps_board_finish)
        (use plan_known_mono [OF _ that] \<open>good d1 st \<and> _\<close> in \<open>simp_all add: entries_grounded_def result_known_def\<close>)
    from write_store_moves [OF assms this] that show ?thesis by (auto intro: good_keeps plan_known_mono)
  qed
  have "spec_of (\<lambda>st. good d1 st \<and> plan_known (knows (db_of st) ?inc) plan) (finish_planner env r) (plan_good env d1) (\<lambda>_. good d1)"
    unfolding finish_planner_def Some option.case
    by (rule spec_andthen [OF spec_state [where Q = "good d1" and S = "\<lambda>st. plan_known (knows (db_of st) ?inc) plan", OF w]]) (auto intro!: spec_give simp: plan_good_def)
  then show ?thesis
    by (rule spec_conseq) (use Some check_repair_known in \<open>auto simp: answered_def\<close>)
qed

lemma no_plan_spec: "spec_of (good d1) (no_plan m) (plan_good env d1) (\<lambda>_. good d1)"
  unfolding no_plan_def by (rule spec_give) (simp add: plan_good_def)

lemma after_planner_spec:
  assumes "fair_others (ie_deps env)"
  shows "spec_of (\<lambda>st. good d1 st \<and> answered sp (check_repair (dp_incident (ie_deps env)) cited) stop (db_of st))
    (after_planner env sp stop) (plan_good env d1) (\<lambda>_. good d1)"
proof (cases stop)
  case (RunDone r)
  with finish_planner_spec [OF assms] show ?thesis by (simp add: after_planner_def)
next
  case RunOutOfFuel
  then show ?thesis by (simp add: after_planner_def spec_of_def raise_exn_def)
next
  case (RunRaised e r)
  have r: "spec_of (good d1) (raise_exn x) (plan_good env d1) (\<lambda>_. good d1)" for x by (rule spec_raise) simp
  have "spec_of (good d1) (after_planner env sp stop) (plan_good env d1) (\<lambda>_. good d1)"
    by (cases e) (auto simp: after_planner_def RunRaised intro!: fail_agent_spec [OF assms] r no_plan_spec)
  then show ?thesis by (rule spec_conseq) simp_all
qed

text \<open>Every action of a proposed plan cites evidence of the incident, read back or newly made.\<close>

lemma propose_fresh_spec:
  assumes "fair_others (ie_deps env)"
  shows "spec_of (good d1) (propose_fresh env n v dx) (plan_good env d1) (\<lambda>_. good d1)"
  unfolding propose_fresh_def Let_def
  by (intro with_prompt_spec spec_andthen [OF ask_any_spec [OF assms]]
      spec_andthen [OF write_store_spec [OF assms keeps_board_runs(1)]] spec_andthen [OF run_step_answer [OF assms]]
      after_planner_spec [OF assms])

lemma stored_plan_known:
  assumes "board_grounded d" "pg_runs d inc a = Some r" "rr_plan (ru_result r) = Some p"
  shows "plan_known (knows d inc) p"
proof -
  from assms(2) obtain row where "find (run_at inc a) (agent_runs d) = Some row" "r = run_of_row row" by (auto simp: pg_runs_Some)
  with find_run_at [OF this(1)] assms(1,3) show ?thesis
    by (auto simp: board_grounded_def list_all_iff run_of_row_def run_at_def result_known_def)
qed

lemma propose_spec:
  assumes "fair_others (ie_deps env)"
  shows "spec_of (good d1) (propose env n v dx) (plan_good env d1) (\<lambda>_. good d1)"
  unfolding propose_def
proof (rule spec_andthen [OF ask_store_spec [OF assms]])
  let ?inc = "dp_incident (ie_deps env)"
  fix run
  have fresh: "spec_of (\<lambda>st. good d1 st \<and> run = pg_runs (db_of st) ?inc PLANNER) (propose_fresh env n v dx) (plan_good env d1) (\<lambda>_. good d1)"
    for run by (rule spec_conseq [OF propose_fresh_spec [OF assms]]) simp_all
  have stored: "plan_good env d1 \<lparr>pp_plan = Some p, pp_error = None\<rparr> st"
    if "good d1 st \<and> run = pg_runs (db_of st) ?inc PLANNER" "run = Some r" "rr_plan (ru_result r) = Some p" for st r p
    using that stored_plan_known [of "db_of st" ?inc PLANNER r p] by (simp add: plan_good_def good_def)
  show "spec_of (\<lambda>st. good d1 st \<and> run = pg_runs (db_of st) ?inc PLANNER)
      (case (is_done run, run) of
          (True, Some r) \<Rightarrow>
            (case rr_plan (ru_result r) of None \<Rightarrow> raise_exn (IExn KeyError) | Some p \<Rightarrow> give \<lparr>pp_plan = Some p, pp_error = None\<rparr>)
        | _ \<Rightarrow> propose_fresh env n v dx) (plan_good env d1) (\<lambda>_. good d1)"
    using stored by (auto split: bool.splits option.splits intro!: fresh spec_give spec_raise)
qed

lemma proposal_cites_evidence:
  assumes "\<And>k d. keeps_board d (sv_others sv k d)" "board_grounded d"
    and "plan_proposer w st sv job s incident dx d = (Proposed p, d')" "pp_plan p = Some plan"
  shows "plan_known (knows d' (i_id incident)) plan"
proof -
  let ?v = "incident_view d incident"
  let ?env = "services_env w st sv job ?v DEFAULT_VARIANT"
  let ?st = "\<lparr>is_world = \<lparr>aw_ext = s, aw_tick = 0, aw_db = d\<rparr>, is_agents = []\<rparr>"
  obtain res st1 where r: "propose ?env (planner_max_steps st) ?v dx ?st = (res, st1)" by force
  with assms(3) have e: "planner_end res = Proposed p" "d' = db_of st1" by (simp_all add: plan_proposer_def)
  have "good d ?st" using assms(2) by (simp add: good_def db_of_def)
  moreover have "fair_others (ie_deps ?env)" by (rule services_fair) (rule assms(1))
  ultimately have "case res of Inr p \<Rightarrow> plan_good ?env d p st1 | Inl e \<Rightarrow> good d st1"
    using propose_spec [of ?env d "planner_max_steps st" ?v dx] r by (fastforce simp: spec_of_def)
  with e assms(4) show ?thesis
    by (auto simp: planner_end_def plan_good_def services_env_def services_deps_def incident_view_def split: sum.splits inv_exn.splits if_splits)
qed

section \<open>How the job ends\<close>

text \<open>
  The last transaction moves the incident, at the version of the first one, to DIAGNOSED or to
  ESCALATED: DIAGNOSED exactly with a diagnosis that has a root cause and nothing to escalate, and
  then, if repairs are on, with a plan job of this incident in the queue.
\<close>

lemma investigate_commit_moves:
  assumes "investigate_commit w st actor job v version oc d = Inr (u, d')" "distinct (map i_id (incidents d))"
  shows "holds d job \<and>
    (\<exists>r r'. incidents_get d (iv_id v) None = Some r \<and> i_state r = INVESTIGATING \<and> i_version r = version \<and>
      incidents_get d' (iv_id v) None = Some r' \<and>
      (i_state r' = DIAGNOSED \<longleftrightarrow> oc_escalate oc = None \<and> (\<exists>dx. oc_diagnosis oc = Some dx \<and> dx_root_causes dx \<noteq> [])) \<and>
      (i_state r' \<noteq> DIAGNOSED \<longrightarrow> i_state r' = ESCALATED \<and> jobs d' = jobs d) \<and>
      (i_state r' = DIAGNOSED \<longrightarrow> auto_remediate st \<longrightarrow> iv_id v @ '':plan'' \<in> set (job_keys d')))"
proof -
  have get: "\<exists>r. incidents_get d (iv_id v) None = Some r \<and> i_state r = INVESTIGATING \<and> i_version r = version \<and>
      incidents_get d1 (iv_id v) None = Some (moved w t r)"
    if "transition w (iv_id v) INVESTIGATING t version actor rs d = Inr (v', d1)" for t rs v' d1
    using transition_get [OF that assms(2)] by blast
  have h: "holds d job" using assms(1) by (simp add: investigate_commit_def job_transaction_Inr)
  show ?thesis
  proof (cases "oc_escalate oc = None \<and> (\<exists>dx. oc_diagnosis oc = Some dx)")
    case True
    then obtain dx where dx: "oc_diagnosis oc = Some dx" "oc_escalate oc = None" by blast
    with assms(1) obtain rc rcs v' d1 where rc: "dx_root_causes dx = rc # rcs"
        and t: "transition w (iv_id v) INVESTIGATING DIAGNOSED version actor (cause_reason rc) d = Inr (v', d1)"
        and q: "if auto_remediate st then \<exists>k. enqueue w (iv_tenant v) ''plan'' (priority_index (iv_priority v)) (queue_max_attempts st)
                         (queue_aging_step_s st) (Some (iv_id v)) [] (Some (iv_id v @ '':plan'')) 0 d1 = Inr (k, d') else d' = d1"
      by (auto simp: investigate_commit_def job_transaction_Inr tx_simps split: list.splits if_splits)
    from q have "incidents d' = incidents d1" by (auto split: if_splits dest!: enqueue_Inr)
    moreover from q have "auto_remediate st \<Longrightarrow> iv_id v @ '':plan'' \<in> set (job_keys d')"
      by (auto dest!: enqueue_Inr simp: job_keys_def queued_row_def map_filter_simps map_filter_append)
    ultimately show ?thesis using get [OF t] h dx rc by (auto simp: incidents_get_def)
  next
    case False
    with assms(1) obtain rs v' where t: "transition w (iv_id v) INVESTIGATING ESCALATED version actor rs d = Inr (v', d')"
      by (auto simp: investigate_commit_def job_transaction_Inr tx_simps split: option.splits)
    from get [OF t] transition_frame(1) [OF t] h False show ?thesis by auto
  qed
qed

text \<open>A model that is away for a while: the queue retries the job while attempts are left.\<close>

lemma after_investigation_retries:
  "after_investigation job (Inl (ILLM e)) =
     (if le_retryable e \<and> jb_attempts job < jb_max_attempts job then GiveUp (Some (RaisedOther ''LLMError'' (llm_error_text e)))
      else Conclude (new_outcome\<lparr>oc_escalate := Some (''the model was unavailable: '' @ llm_error_text e)\<rparr>))"
  by (simp add: after_investigation_def)

end
