(* ===== verification/AgentScenario.thy ===== *)
theory AgentScenario
  imports Scenario Sources InvestigateJob
begin

text \<open>
  Concrete inputs for the agents: an investigation that was interrupted after its investigators
  had finished, a model that answers every request with a final answer, and what pydantic makes of
  it. The properties of the agents with hypotheses are applied to them.
\<close>

definition finding0 :: finding where
  "finding0 = \<lparr>f_statement = ''restarts'', f_kind = Fact, f_signal = SChanges, f_service = Some ''cart'',
     f_evidence_ids = [''ev''], f_confidence = 9 / 10\<rparr>"

definition coordinator_plan0 :: coordinator_plan where
  "coordinator_plan0 = \<lparr>cp_summary = ''s'', cp_hypotheses = [''h''], cp_briefs = DEFAULT_BRIEFS\<rparr>"

definition run_row0 :: "nat \<Rightarrow> string \<Rightarrow> agent_run_row" where
  "run_row0 k a = \<lparr>r_id = k, r_tenant = ''t'', r_incident = ''i'', r_agent = a, r_status = run_status.RunDone, r_model = ''m'',
     r_prompt_version = ''1'', r_steps = 1, r_result = no_result, r_error = None\<rparr>"

definition board0 :: "nat \<Rightarrow> string \<Rightarrow> body \<Rightarrow> blackboard_row" where
  "board0 k a b = \<lparr>b_id = k, b_tenant = ''t'', b_incident = ''i'', b_kind = kind_of_body b, b_author = a, b_body = b, b_evidence_ids = []\<rparr>"

definition live0 :: evidence_row where
  "live0 = ev0\<lparr>e_tool := ''rollout_history''\<rparr>"

definition interrupted0 :: db where
  "interrupted0 = empty_db\<lparr>incidents := [inc0 INVESTIGATING 4], jobs := [job0 ''investigate''], evidence := [live0],
     agent_runs := [run_row0 1 ''coordinator'', run_row0 2 ''investigator.metrics'', run_row0 3 ''investigator.logs_traces'',
       run_row0 4 ''investigator.changes''],
     blackboard := [board0 1 ''coordinator'' (BPlan coordinator_plan0), board0 2 ''investigator.changes'' (BFinding finding0)]\<rparr>"

text \<open>A model that always gives a final answer, for a hundred and ten tokens; it counts its calls.\<close>

definition final_backend :: "nat backend" where
  "final_backend rq n =
     (Inr \<lparr>lr_step = \<lparr>st_reasoning = '''', st_actions = [], st_final = Some (JObj [])\<rparr>,
           lr_usage = \<lparr>u_input_tokens = 100, u_output_tokens = 10, u_cache_read_tokens = 0, u_cache_creation_tokens = 0\<rparr>,
           lr_model = rq_model rq, lr_backend = ''api'', lr_request_hash = '''', lr_attempts = 1\<rparr>, Suc n)"

definition models0 :: answer_models where
  "models0 = \<lparr>am_plan_parse = (\<lambda>j. Inr coordinator_plan0), am_plan_schema = JObj [],
     am_report_parse = (\<lambda>j. Inr \<lparr>ir_summary = ''s'', ir_findings = [finding0]\<rparr>), am_report_schema = JObj [],
     am_dx_parse = (\<lambda>j. Inr dx0), am_dx_schema = JObj [], am_repair_parse = (\<lambda>j. Inr plan0), am_repair_schema = JObj []\<rparr>"

definition services0 :: "nat services" where
  "services0 = \<lparr>sv_backend = final_backend, sv_backend_name = ''api'', sv_registry = \<lparr>rg_tools = [], rg_max_summary_chars = 100\<rparr>,
     sv_source = (\<lambda>t args a tn s. (Inl (ToolError ''unavailable'' '''' False), s)),
     sv_prompts = \<lparr>pe_sha = sha0, pe_file = (\<lambda>n. ''version: 1'' @ NL @ n)\<rparr>, sv_models = models0, sv_role_models = [],
     sv_model = ''m'', sv_tenant_variants = [], sv_others = (\<lambda>k d. d), sv_fuel = 20\<rparr>"

lemma models0_valid: "parses_valid models0"
  by (simp add: parses_valid_def models0_def dx0_def valid_diagnosis_def valid_root_cause_def)

lemma final_backend_ok: "final_only final_backend" "wf_backend final_backend" "spends_at_most 110 final_backend"
  by (auto simp: final_only_def wf_backend_def spends_at_most_def final_backend_def wf_step_def total_tokens_def prompt_tokens_def)

lemma interrupted0_grounded: "board_grounded interrupted0"
  by code_simp

text \<open>The rerun asks the model once, for the synthesizer, and the incident is diagnosed.\<close>

lemma rerun_diagnoses:
  "(case investigate_job w0 st0 ''w'' services0 (held0 ''investigate'') 0 interrupted0 of
      (r, calls, d) \<Rightarrow> r = Some Returned \<and> calls = 1 \<and> map i_state (incidents d) = [DIAGNOSED] \<and> flow_diagnosis d ''i'' = Some dx0)"
  by code_simp

lemma interrupted0_constraints: "constraints interrupted0"
  by (simp add: constraints_def interrupted0_def empty_db_def job_keys_def map_filter_simps inc0_def job0_def run_row0_def run_key_def)

lemma db0_grounded: "board_grounded (db0 s [] k)"
  by (simp add: board_grounded_def db0_def empty_db_def body_grounded_def dx_row0_def dx_grounded_def dx0_def live_ids_def knows_def ev0_def
      KNOWLEDGE_TOOLS_def)

lemma commit_diagnosed:
  "ends_in (investigate_commit w0 st0 ''w'' (held0 ''investigate'') (incident_view interrupted0 (inc0 INVESTIGATING 4)) 4
     \<lparr>oc_diagnosis = Some dx0, oc_escalate = None\<rparr> interrupted0) (\<lambda>x. True)"
  by code_simp

lemma planner_proposes:
  "(case plan_proposer w0 st0 services0 (held0 ''plan'') 0 (inc0 DIAGNOSED 4) dx0 (db0 DIAGNOSED [] ''plan'') of
      (Proposed p, d) \<Rightarrow> pp_plan p = Some plan0 | _ \<Rightarrow> False)"
  by code_simp

definition prompt0 :: prompt where
  "prompt0 = \<lparr>pr_name = ''coordinator'', pr_text = ''Plan.'', pr_version = ''coordinator@1.1-abc''\<rparr>"

definition view0 :: inc_view where
  "view0 = incident_view interrupted0 (inc0 INVESTIGATING 4)"

definition deps0 :: "nat deps" where
  "deps0 = services_deps w0 st0 services0 view0"

definition env0 :: "nat inv_env" where
  "env0 = services_env w0 st0 services0 (held0 ''investigate'') view0 DEFAULT_VARIANT"

definition ops0 :: "store_op list" where
  "ops0 = [StartOp ''t'' ''i'' ''solo'' ''m'' ''1'', FailOp ''i'' ''solo'' 0 ''timeout'', StartOp ''t'' ''i'' ''solo'' ''m'' ''1'',
     FinishOp ''t'' ''i'' ''solo'' 2 no_result [\<lparr>be_kind = KDiagnosis, be_author = ''solo'', be_body = BDiagnosis dx0, be_evidence_ids = []\<rparr>]]"

definition call0 :: "string \<Rightarrow> tool_call" where
  "call0 a = \<lparr>ca_agent = a, ca_tool = \<lparr>tl_name = ''prom_query'', tl_description = '''', tl_schema = [], tl_backend = ''prometheus'',
     tl_validate = (\<lambda>a. Inr a), tl_summarize = (\<lambda>r a. Inr []), tl_timeout_s = 1, tl_max_result_bytes = 10\<rparr>, ca_args = [], ca_tenant = ''t''\<rparr>"

definition live_source0 :: "nat source" where
  "live_source0 t args a tn n = (Inl (ToolError ''timeout'' (dec n) False), Suc n)"

end
