(* ===== verification/System.thy ===== *)
theory System
  imports InvestigateJob ExecutorJob Ingest
begin

text \<open>
  All processes together: any sequence of the transactions that the API, the workers, the agents
  and the executors run on the database. Shown: what holds of every incident in every database
  that is reached, which moves an incident makes from one commit to the next, and that the jobs of
  the workers are made of these transactions.
\<close>

section \<open>Steps\<close>

text \<open>
  One transaction, of any process. Ingest is the one that is not atomic: its statements see what
  other transactions commit in between, which is again a run of steps. The agents' statements are
  fenced by a job or (outside of a worker) by none.
\<close>

inductive sys_step :: "db \<Rightarrow> db \<Rightarrow> bool" where
  y_ingest: "ingest others fresh w st tn actor alerts_in d = Inr (r, d') \<Longrightarrow> \<forall>i k x. sys_step\<^sup>*\<^sup>* x (others i k x) \<Longrightarrow> sys_step d d'"
| y_claim: "claim locked w owner ttl mp ks d = (r, d') \<Longrightarrow> sys_step d d'"
| y_heartbeat: "heartbeat w job ttl d = (r, d') \<Longrightarrow> sys_step d d'"
| y_job_end: "execute_end rnd w st wid lost job stop d = (r, d') \<Longrightarrow> sys_step d d'"
| y_reap: "reap_round locked w wid d = d' \<Longrightarrow> sys_step d d'"
| y_triage: "triage w st wid job d = Inr (r, d') \<Longrightarrow> sys_step d d'"
| y_begin: "investigate_begin w actor job iid d = Inr (r, d') \<Longrightarrow> sys_step d d'"
| y_concluded: "investigate_commit w st actor job v version oc d = Inr (r, d') \<Longrightarrow> sys_step d d'"
| y_model_call: "sys_step d (pg_record_llm_call call d)"
| y_tool_call: "sys_step d (evidence_save ev cr d)"
| y_start_run: "fenced_write job (pg_start_run tn iid a m p) d = Inr (r, d') \<Longrightarrow> sys_step d d'"
| y_finish_run: "fenced_write job (pg_finish_run tn iid a n res es) d = Inr (r, d') \<Longrightarrow> sys_step d d'"
| y_fail_run: "fenced_write job (pg_fail_run iid a n e) d = Inr (r, d') \<Longrightarrow> sys_step d d'"
| y_planned: "plan_commit w st job iid prop d = Inr (r, d') \<Longrightarrow> sys_step d d'"
| y_revise: "api_revise_plan w st tn subject iid plan d = Inr (r, d') \<Longrightarrow> sys_step d d'"
| y_decide: "api_decide w st tn subject iid choice hash_seen comment d = Inr (r, d') \<Longrightarrow> sys_step d d'"
| y_timeout: "approval_timeout w st job d = Inr (r, d') \<Longrightarrow> sys_step d d'"
| y_execute: "attempt_step w st ev a d h = (a', d', h') \<Longrightarrow> sys_step d d'"
| y_verified: "verified w tx job iid ok why samples plan d = Inr (r, d') \<Longrightarrow> sys_step d d'"

section \<open>What holds of every incident\<close>

text \<open>
  The plan an incident is executed with: allowed by the policy without an approval, or approved by
  its hash by someone who did not propose it.
\<close>

definition cleared :: "db \<Rightarrow> plan_row \<Rightarrow> bool" where
  "cleared d p \<longleftrightarrow>
     p_verdict p = Allow \<or>
     p_verdict p = RequireApproval \<and>
       (\<exists>a \<in> set (approvals d). ap_plan a = p_id p \<and> ap_decision a = Approve \<and> ap_plan_hash a = p_hash p \<and>
          ap_approver a \<noteq> p_proposed_by p)"

definition has_job :: "db \<Rightarrow> plan_row \<Rightarrow> string \<Rightarrow> bool" where
  "has_job d p kind \<longleftrightarrow> plan_job_key (p_id p) kind \<in> set (job_keys d)"

definition running_states :: "istate list" where
  "running_states = [EXECUTING, VERIFYING, RESOLVED]"

text \<open>
  By state: a repair that runs or ran has a cleared plan and was enqueued; an incident that waits
  has a plan that needs an approval and the job that ends the waiting; the states inside of a
  submission are never committed.
\<close>

definition incident_ok :: "db \<Rightarrow> string \<Rightarrow> istate \<Rightarrow> bool" where
  "incident_ok d iid s \<longleftrightarrow>
     s \<noteq> PLANNED \<and> s \<noteq> SAFETY_REVIEWED \<and>
     (s \<in> set running_states \<longrightarrow> (\<exists>p. current_plan d iid = Some p \<and> cleared d p \<and> has_job d p ''execute'')) \<and>
     (s = AWAITING_APPROVAL \<longrightarrow>
        (\<exists>p. current_plan d iid = Some p \<and> p_verdict p = RequireApproval \<and> has_job d p ''approval_timeout''))"

definition system_ok :: "db \<Rightarrow> bool" where
  "system_ok d \<longleftrightarrow> distinct (map i_id (incidents d)) \<and> (\<forall>r \<in> set (incidents d). incident_ok d (i_id r) (i_state r))"

section \<open>Moves between commits\<close>

text \<open>The life of an incident as others see it; \<open>submit\<close> passes two states in one transaction.\<close>

inductive cmove :: "istate \<Rightarrow> istate \<Rightarrow> bool" where
  c_triage: "cmove RECEIVED TRIAGED"
| c_begin: "cmove TRIAGED INVESTIGATING"
| c_diagnose: "cmove INVESTIGATING DIAGNOSED"
| c_ask: "cmove DIAGNOSED AWAITING_APPROVAL"
| c_allow: "cmove DIAGNOSED EXECUTING"
| c_revise: "cmove AWAITING_APPROVAL AWAITING_APPROVAL"
| c_revise_allowed: "cmove AWAITING_APPROVAL EXECUTING"
| c_executed: "cmove EXECUTING VERIFYING"
| c_resolve: "cmove VERIFYING RESOLVED"
| c_escalate: "s \<noteq> RESOLVED \<Longrightarrow> s \<noteq> ESCALATED \<Longrightarrow> cmove s ESCALATED"

inductive_simps cmove_RESOLVED [simp]: "cmove RESOLVED t"
inductive_simps cmove_ESCALATED [simp]: "cmove ESCALATED t"

definition moves_ok :: "db \<Rightarrow> db \<Rightarrow> bool" where
  "moves_ok d d' \<longleftrightarrow>
     (\<forall>r \<in> set (incidents d). \<exists>r' \<in> set (incidents d'). i_id r' = i_id r \<and> cmove\<^sup>*\<^sup>* (i_state r) (i_state r'))"

lemma moves_ok_refl: "moves_ok d d"
  by (auto simp: moves_ok_def)

lemma moves_ok_trans: "moves_ok a b \<Longrightarrow> moves_ok b c \<Longrightarrow> moves_ok a c"
  unfolding moves_ok_def by (metis rtranclp_trans)

text \<open>How far along a state is.\<close>

fun stage :: "istate \<Rightarrow> nat" where
  "stage RECEIVED = 0"
| "stage TRIAGED = 1"
| "stage INVESTIGATING = 2"
| "stage DIAGNOSED = 3"
| "stage PLANNED = 4"
| "stage SAFETY_REVIEWED = 5"
| "stage AWAITING_APPROVAL = 6"
| "stage EXECUTING = 7"
| "stage VERIFYING = 8"
| "stage RESOLVED = 9"
| "stage ESCALATED = 9"

lemma cmove_stage: "cmove s t \<Longrightarrow> stage s \<le> stage t \<and> (stage s = stage t \<longrightarrow> s = t)"
  by (induction rule: cmove.induct) (auto split: istate.splits; case_tac s; simp)+

lemma cmoves_stage: "cmove\<^sup>*\<^sup>* s t \<Longrightarrow> stage s \<le> stage t \<and> (stage s = stage t \<longrightarrow> s = t)"
  by (induction rule: rtranclp_induct) (auto dest!: cmove_stage)

section \<open>Steady transactions\<close>

text \<open>
  Most transactions leave the plans alone, only add approvals and jobs, and move incidents to
  states that ask for nothing or along a repair that runs.
\<close>

definition sound :: "db \<Rightarrow> db \<Rightarrow> bool" where
  "sound d d' \<longleftrightarrow> (system_ok d \<longrightarrow> system_ok d' \<and> moves_ok d d')"

lemma sound_refl [simp]: "sound d d"
  by (simp add: sound_def moves_ok_refl)

lemma sound_trans: "sound a b \<Longrightarrow> sound b c \<Longrightarrow> sound a c"
  unfolding sound_def using moves_ok_trans by blast

definition idle_states :: "istate list" where
  "idle_states = [RECEIVED, TRIAGED, INVESTIGATING, DIAGNOSED, ESCALATED]"

definition calm :: "istate \<Rightarrow> istate \<Rightarrow> bool" where
  "calm s t \<longleftrightarrow> t = s \<or> t \<in> set idle_states \<or> s \<in> set running_states \<and> t \<in> set running_states"

definition grows :: "db \<Rightarrow> db \<Rightarrow> bool" where
  "grows d d' \<longleftrightarrow> set (approvals d) \<subseteq> set (approvals d') \<and> set (job_keys d) \<subseteq> set (job_keys d')"

lemma grows_refl [simp]: "grows d d"
  by (simp add: grows_def)

lemma grows_trans: "grows a b \<Longrightarrow> grows b c \<Longrightarrow> grows a c"
  by (auto simp: grows_def)

definition rows_from :: "incident_row list \<Rightarrow> incident_row list \<Rightarrow> bool" where
  "rows_from rs rs' \<longleftrightarrow>
     (\<forall>r' \<in> set rs'. i_state r' \<in> set idle_states \<or> (\<exists>r \<in> set rs. i_id r = i_id r' \<and> calm (i_state r) (i_state r')))"

definition steady :: "db \<Rightarrow> db \<Rightarrow> bool" where
  "steady d d' \<longleftrightarrow> remediation_plans d' = remediation_plans d \<and> grows d d' \<and>
     (distinct (map i_id (incidents d)) \<longrightarrow> distinct (map i_id (incidents d'))) \<and>
     rows_from (incidents d) (incidents d') \<and> moves_ok d d'"

lemma idle_ok: "s \<in> set idle_states \<Longrightarrow> incident_ok d i s"
  by (auto simp: idle_states_def incident_ok_def running_states_def)

lemma incident_ok_mono:
  assumes "incident_ok d i s" "grows d d'" "current_plan d' i = current_plan d i" "calm s t"
  shows "incident_ok d' i t"
proof (cases "t \<in> set idle_states")
  case False
  with assms(4) have "t = s \<or> s \<in> set running_states \<and> t \<in> set running_states" by (auto simp: calm_def)
  moreover have "AWAITING_APPROVAL \<notin> set running_states" "PLANNED \<notin> set running_states" "SAFETY_REVIEWED \<notin> set running_states"
    by (simp_all add: running_states_def)
  ultimately show ?thesis
    using assms(1-3) by (fastforce simp: incident_ok_def grows_def cleared_def has_job_def)
qed (rule idle_ok)

lemma current_plan_same: "remediation_plans d' = remediation_plans d \<Longrightarrow> current_plan d' i = current_plan d i"
  by (simp add: current_plan_def incident_plans_def)

lemma steady_sound: "steady d d' \<Longrightarrow> sound d d'"
  unfolding sound_def
proof (intro impI)
  assume s: "steady d d'" and ok: "system_ok d"
  have "incident_ok d' (i_id r') (i_state r')" if "r' \<in> set (incidents d')" for r'
    using s that ok unfolding steady_def rows_from_def system_ok_def
    by (metis idle_ok incident_ok_mono current_plan_same)
  with s ok show "system_ok d' \<and> moves_ok d d'" by (simp add: steady_def system_ok_def)
qed

lemma steady_same:
  assumes "incidents d' = incidents d" "remediation_plans d' = remediation_plans d" "grows d d'"
  shows "steady d d'"
proof -
  have "moves_ok d d'" using assms(1) by (auto simp: moves_ok_def)
  with assms show ?thesis by (auto simp: steady_def rows_from_def calm_def)
qed

lemma steady_refl [simp]: "steady d d"
  by (rule steady_same) simp_all

lemma calm_trans: "calm s t \<Longrightarrow> calm t u \<Longrightarrow> calm s u"
  by (auto simp: calm_def idle_states_def running_states_def)

lemma rows_from_trans:
  assumes "rows_from a b" "rows_from b c"
  shows "rows_from a c"
  unfolding rows_from_def
proof
  fix r'' assume "r'' \<in> set c"
  with assms(2) consider "i_state r'' \<in> set idle_states" | r' where "r' \<in> set b" "i_id r' = i_id r''" "calm (i_state r') (i_state r'')"
    unfolding rows_from_def by blast
  then show "i_state r'' \<in> set idle_states \<or> (\<exists>r \<in> set a. i_id r = i_id r'' \<and> calm (i_state r) (i_state r''))"
  proof cases
    case 2
    with assms(1) consider "i_state r' \<in> set idle_states" | r where "r \<in> set a" "i_id r = i_id r'" "calm (i_state r) (i_state r')"
      unfolding rows_from_def by blast
    then show ?thesis
    proof cases
      case 1
      with 2(3) have "i_state r'' \<in> set idle_states" by (auto simp: calm_def idle_states_def running_states_def)
      then show ?thesis by simp
    qed (use 2 in \<open>auto intro: calm_trans\<close>)
  qed simp
qed

lemma steady_trans: "steady a b \<Longrightarrow> steady b c \<Longrightarrow> steady a c"
  by (auto simp: steady_def intro: rows_from_trans moves_ok_trans grows_trans)

subsection \<open>The statements\<close>

lemma keys_sql_update:
  "(\<And>r. j_idempotency_key (f r) = j_idempotency_key r) \<Longrightarrow>
     List.map_filter j_idempotency_key (sql_update p f rows) = List.map_filter j_idempotency_key rows"
  by (induction rows) (auto simp: map_filter_simps split: option.splits)

lemma steady_jobs:
  assumes "d' = d\<lparr>jobs := js\<rparr>" "set (job_keys d) \<subseteq> set (List.map_filter j_idempotency_key js)"
  shows "steady d d'"
  by (rule steady_same) (use assms in \<open>simp_all add: grows_def job_keys_def\<close>)

lemma steady_job_rows:
  assumes "\<And>r. j_idempotency_key (f r) = j_idempotency_key r"
  shows "steady d (d\<lparr>jobs := sql_update p f (jobs d)\<rparr>)"
proof (rule steady_jobs [OF refl])
  show "set (job_keys d) \<subseteq> set (List.map_filter j_idempotency_key (sql_update p f (jobs d)))"
    unfolding job_keys_def using assms by (subst keys_sql_update) simp_all
qed

named_theorems steady_rules

lemma steady_claim [steady_rules]: "claim locked w owner ttl mp ks d = (r, d') \<Longrightarrow> steady d d'"
  by (auto simp: claim_def lease_def split: option.splits intro!: steady_job_rows)

lemma steady_heartbeat [steady_rules]: "heartbeat w job ttl d = (r, d') \<Longrightarrow> steady d d'"
  by (auto simp: heartbeat_def update_owned_def beat_row_def intro!: steady_job_rows)

lemma steady_finish: "finish job f w d = Inr (r, d') \<Longrightarrow> (\<And>x. j_idempotency_key (f x) = j_idempotency_key x) \<Longrightarrow> steady d d'"
  by (auto simp: finish_def update_owned_def finished_row_def split: if_splits intro!: steady_job_rows)

lemma steady_audit [steady_rules]: "audit_append w a e s t p d = Inr (h, d') \<Longrightarrow> steady d d'"
  by (auto dest!: audit_append_frame intro!: steady_same simp: grows_def job_keys_def)

lemma steady_enqueue [steady_rules]: "enqueue w tn k p m st inc pl key dl d = Inr (r, d') \<Longrightarrow> steady d d'"
  by (auto dest!: enqueue_Inr intro!: steady_same simp: grows_def job_keys_def map_filter_append)

lemma steady_flow_enqueue [steady_rules]: "flow_enqueue w st inc kind pid dl d = Inr (u, d') \<Longrightarrow> steady d d'"
  by (auto simp: flow_enqueue_def enqueue_for_def tx_simps intro: steady_rules)

lemma steady_transition:
  assumes "transition w iid s t v actor rs d = Inr (v', d')" "calm s t" "cmove s t"
  shows "steady d d'"
proof -
  from assms(1) have inc: "incidents d' = sql_update (at_version iid s v) (moved w t) (incidents d)" by (rule transition_InrE)
  have g: "grows d d'" "remediation_plans d' = remediation_plans d"
    using transition_frame [OF assms(1)] by (simp_all add: grows_def job_keys_def)
  have ids: "map i_id (incidents d') = map i_id (incidents d)" by (simp add: inc map_sql_update)
  have "rows_from (incidents d) (incidents d')"
    unfolding rows_from_def
  proof
    fix r' assume "r' \<in> set (incidents d')"
    then obtain r where r: "r \<in> set (incidents d)" "r' = (if at_version iid s v r then moved w t r else r)"
      by (auto simp: inc set_sql_update)
    have "i_id r = i_id r'" "calm (i_state r) (i_state r')"
      using r(2) assms(2) by (auto simp: at_version_def calm_def split: if_splits)
    with r(1) show "i_state r' \<in> set idle_states \<or> (\<exists>r \<in> set (incidents d). i_id r = i_id r' \<and> calm (i_state r) (i_state r'))"
      by blast
  qed
  moreover have "moves_ok d d'"
    unfolding moves_ok_def
  proof
    fix r assume r: "r \<in> set (incidents d)"
    show "\<exists>r' \<in> set (incidents d'). i_id r' = i_id r \<and> cmove\<^sup>*\<^sup>* (i_state r) (i_state r')"
    proof (cases "at_version iid s v r")
      case True
      with r have "moved w t r \<in> set (incidents d')" by (auto simp: inc set_sql_update)
      with True assms(3) show ?thesis by (intro bexI [of _ "moved w t r"]) (auto simp: at_version_def)
    next
      case False
      with r have "r \<in> set (incidents d')" by (auto simp: inc set_sql_update)
      then show ?thesis by blast
    qed
  qed
  ultimately show ?thesis using g by (simp add: steady_def flip: ids)
qed

subsection \<open>Transactions of the workers\<close>

lemma steady_fail: "fail rnd w job e rt b m d = Inr (r, d') \<Longrightarrow> steady d d'"
  by (auto simp: fail_def Let_def update_owned_def failed_row_def split: option.splits intro!: steady_job_rows)

lemma steady_complete: "complete w job d = Inr (r, d') \<Longrightarrow> steady d d'"
  unfolding complete_def by (erule steady_finish) (simp add: set_done_def)

lemma steady_release: "release w job d = Inr (r, d') \<Longrightarrow> steady d d'"
  unfolding release_def by (erule steady_finish) (simp add: set_queued_def)

lemma steady_runner_fail: "runner_fail rnd w st wid job n t rt d = (r, d') \<Longrightarrow> steady d d'"
  by (auto simp: runner_fail_def Let_def audit_dead_def tx_simps split: sum.splits exn.splits if_splits
      dest!: steady_fail dest: steady_audit intro: steady_trans)

lemma steady_execute_end [steady_rules]: "execute_end rnd w st wid lost job stop d = (r, d') \<Longrightarrow> steady d d'"
  by (cases stop) (auto simp: runner_release_def split: sum.splits exn.splits if_splits
      dest: steady_complete steady_release steady_runner_fail)

lemma steady_audit_reaped: "audit_reaped w wid rs d = Inr (u, d') \<Longrightarrow> steady d d'"
proof (induction w wid rs d rule: audit_reaped.induct)
  case (2 w wid job_id status rest d)
  then show ?case by (auto simp: tx_simps split: if_splits dest: steady_audit intro: steady_trans)
qed simp

lemma steady_reap [steady_rules]: "steady d (reap_round locked w wid d)"
proof -
  obtain rs d1 where r: "reap locked w d = (rs, d1)" by force
  then have "steady d d1" by (auto simp: reap_def reaped_def intro!: steady_job_rows)
  with r show ?thesis
    by (auto simp: reap_round_def split: sum.splits dest: steady_audit_reaped intro: steady_trans)
qed

lemma steady_triage [steady_rules]: "triage w st wid job d = Inr (r, d') \<Longrightarrow> steady d d'"
  by (auto simp: triage_def enqueue_for_def tx_simps split: option.splits if_splits
      dest!: steady_enqueue steady_transition simp: calm_def idle_states_def cmove.simps intro: steady_trans)

lemma steady_begin [steady_rules]: "investigate_begin w actor job iid d = Inr (r, d') \<Longrightarrow> steady d d'"
  by (auto simp: investigate_begin_def tx_simps split: option.splits if_splits
      dest!: steady_transition simp: calm_def idle_states_def cmove.simps)

lemma steady_commit [steady_rules]: "investigate_commit w st actor job v version oc d = Inr (r, d') \<Longrightarrow> steady d d'"
  by (auto simp: investigate_commit_def tx_simps split: option.splits list.splits if_splits
      dest!: steady_enqueue steady_transition simp: calm_def idle_states_def cmove.simps intro: steady_trans)

lemma steady_timeout [steady_rules]: "approval_timeout w st job d = Inr (r, d') \<Longrightarrow> steady d d'"
  by (cases "d' = d") (auto dest!: approval_timeout_Inr steady_transition simp: calm_def idle_states_def cmove.simps)

lemma steady_verified [steady_rules]: "verified w tx job iid ok why samples plan d = Inr (r, d') \<Longrightarrow> steady d d'"
  by (cases "d' = d"; cases ok)
    (auto dest!: verified_Inr steady_audit steady_transition simp: calm_def idle_states_def running_states_def cmove.simps
      intro: steady_trans)

subsection \<open>Statements of the agents\<close>

lemma steady_model_call [steady_rules]: "steady d (pg_record_llm_call call d)"
  by (rule steady_same) (simp_all add: pg_record_llm_call_def grows_def job_keys_def)

lemma steady_tool_call [steady_rules]: "steady d (evidence_save ev cr d)"
  by (rule steady_same) (simp_all add: evidence_save_def grows_def job_keys_def)

lemma steady_runs:
  "steady d (pg_start_run tn iid a m p d)" "steady d (pg_finish_run tn iid a n res es d)" "steady d (pg_fail_run iid a n e d)"
  by (rule steady_same; simp add: pg_start_run_def pg_finish_run_def pg_fail_run_def grows_def job_keys_def)+

lemma steady_fenced: "fenced_write job f d = Inr (r, d') \<Longrightarrow> (\<And>x. steady x (f x)) \<Longrightarrow> steady d d'"
  by (auto simp: fenced_write_def tx_simps split: option.splits)

subsection \<open>Statements of the executor\<close>

lemma steady_record: "record_execution job me inc plan i a s dry bf e d = Inr (r, d') \<Longrightarrow> steady d d'"
  by (auto simp: record_execution_def tx_simps grows_def job_keys_def split: if_splits intro!: steady_same)

lemma steady_finish_execution: "finish_execution job k s af e d = Inr (r, d') \<Longrightarrow> steady d d'"
  by (auto simp: finish_execution_def tx_simps grows_def job_keys_def intro!: steady_same)

lemma steady_mark_unknown: "mark_unknown job k d = Inr (r, d') \<Longrightarrow> steady d d'"
  by (auto simp: mark_unknown_def tx_simps grows_def job_keys_def intro!: steady_same)

lemma steady_execution_audit: "execution_audit w job me inc ev pl d = Inr (r, d') \<Longrightarrow> steady d d'"
  by (auto simp: execution_audit_def tx_simps simp del: One_nat_def dest: steady_audit)

lemma steady_escalate: "escalate w job iid actor why u d = Inr (r, d') \<Longrightarrow> steady d d'"
  by (auto simp: escalate_def Let_def tx_simps TERMINAL_def split: option.splits if_splits
      dest!: steady_transition simp: calm_def idle_states_def cmove.simps)

lemma steady_to_verifying: "to_verifying w st job me iid plan d = Inr (r, d') \<Longrightarrow> steady d d'"
  by (auto simp: to_verifying_def tx_simps split: option.splits if_splits
      dest!: steady_flow_enqueue steady_transition simp: calm_def running_states_def cmove.simps intro: steady_trans)

lemma steady_after_tx: "after_tx m c d = (c', d') \<Longrightarrow> (\<And>u d''. m d = Inr (u, d'') \<Longrightarrow> steady d d'') \<Longrightarrow> steady d d'"
  by (auto simp: after_tx_def split: sum.splits)

lemmas steady_execution = steady_record steady_finish_execution steady_mark_unknown steady_execution_audit steady_escalate
  steady_to_verifying

lemma plan_step_steady: "plan_step w st ev job wid inc plan c d h = (c', d', h') \<Longrightarrow> steady d d'"
  by (cases c) (auto split: if_splits option.splits execution_status.splits prod.splits sum.splits kexn.splits
      elim!: steady_after_tx intro: steady_execution)

lemma steady_attempt [steady_rules]: "attempt_step w st ev a d h = (a', d', h') \<Longrightarrow> steady d d'"
  by (auto simp: attempt_step_def split: option.splits prod.splits pc.splits dest: plan_step_steady
      elim!: steady_after_tx intro: steady_escalate)

section \<open>Ingest\<close>

lemma open_or_merge_sound:
  assumes "open_or_merge_loop others w new n d = Inr (r, d')" "\<And>k x. sound x (others k x)" "i_state new = RECEIVED"
  shows "sound d d'"
  using assms(1)
proof (induction n arbitrary: d)
  case (Suc k)
  let ?q = "open_for (i_tenant new) (i_fingerprint new)"
  show ?case
  proof (cases "find ?q (incidents d)")
    case None
    with Suc.prems have d': "d' = d\<lparr>incidents := incidents d @ [new]\<rparr>" "i_id new \<notin> set (map i_id (incidents d))"
      by (auto split: if_splits)
    have "rows_from (incidents d) (incidents d')" "moves_ok d d'"
      using assms(3) by (auto simp: d' rows_from_def calm_def idle_states_def moves_ok_def)
    with d' show ?thesis by (intro steady_sound) (simp add: steady_def grows_def job_keys_def)
  next
    case (Some x)
    let ?d1 = "others k d"
    have o: "sound d ?d1" by (rule assms(2))
    show ?thesis
    proof (cases "find ?q (incidents ?d1)")
      case None
      with Some Suc.prems have "open_or_merge_loop others w new k ?d1 = Inr (r, d')" by simp
      from sound_trans [OF o Suc.IH [OF this]] show ?thesis .
    next
      case (Some y)
      let ?rows = "sql_update ?q (merge_alert w (i_priority new)) (incidents ?d1)"
      have d': "d' = ?d1\<lparr>incidents := ?rows\<rparr>"
        using Suc.prems Some \<open>find ?q (incidents d) = Some x\<close> by (simp add: Let_def)
      have "list_all2 (\<lambda>a b. i_id b = i_id a \<and> i_state b = i_state a) (incidents ?d1) ?rows"
        by (rule list_all2_sql_update) simp_all
      then have same: "\<forall>r' \<in> set ?rows. \<exists>r \<in> set (incidents ?d1). i_id r = i_id r' \<and> i_state r = i_state r'"
        "\<forall>r \<in> set (incidents ?d1). \<exists>r' \<in> set ?rows. i_id r' = i_id r \<and> i_state r' = i_state r"
        by (fastforce simp: list_all2_conv_all_nth in_set_conv_nth)+
      have "map i_id ?rows = map i_id (incidents ?d1)" by (rule map_sql_update) simp
      moreover have "rows_from (incidents ?d1) ?rows" using same(1) unfolding rows_from_def calm_def by metis
      moreover have "moves_ok ?d1 d'" using same(2) unfolding moves_ok_def d' by fastforce
      ultimately have "steady ?d1 d'" by (simp add: steady_def grows_def job_keys_def d')
      from sound_trans [OF o steady_sound [OF this]] show ?thesis .
    qed
  qed
qed simp

lemma created_steady: "on_incident_created w st tn actor iid ident alert d = Inr (u, d') \<Longrightarrow> steady d d'"
  by (auto simp: on_incident_created_def Let_def tx_simps simp del: One_nat_def
      dest!: steady_enqueue dest: steady_audit intro: steady_trans)

lemma record_alert_steady: "steady d (record_alert tn iid fp alert d)"
  by (rule steady_same) (simp_all add: record_alert_def grows_def job_keys_def)

lemma ingest_one_sound:
  assumes "ingest_one others nid w st tn actor p d = Inr (r, d')" "\<And>k x. sound x (others k x)"
  shows "sound d d'"
proof -
  obtain ident alert where p: "p = (ident, alert)" by (cases p)
  show ?thesis
  proof (cases "am_status alert")
    case Resolved
    with assms(1) p show ?thesis
      by (auto simp: ingest_one_def Let_def intro!: steady_sound record_alert_steady)
  next
    case Firing
    from assms(1) Firing p obtain iid created d1 d2 u where
      o: "open_or_merge others w nid tn (ident_fingerprint ident) (ident_title ident) (ident_service ident)
            (ident_environment ident) (priority_of (am_labels alert)) (am_labels alert) d = Inr ((iid, created), d1)"
      and c: "(if created then on_incident_created w st tn actor iid ident alert d1 else Inr ((), d1)) = Inr (u, d2)"
      and d': "d' = record_alert tn (Some iid) (ident_fingerprint ident) alert d2"
      by (auto simp: ingest_one_def Let_def tx_simps)
    have "sound d d1" by (rule open_or_merge_sound [OF o [unfolded open_or_merge_def] assms(2)]) (simp add: new_incident_def)
    moreover have "steady d1 d2" using c by (auto dest: created_steady split: if_splits)
    ultimately show ?thesis
      unfolding d' by (blast intro: sound_trans steady_sound record_alert_steady)
  qed
qed

lemma ingest_sound:
  assumes "ingest others fresh w st tn actor alerts_in d = Inr (r, d')" "\<And>i k x. sound x (others i k x)"
  shows "sound d d'"
proof -
  have "sound d d'" if "ingest_loop others fresh i w st tn actor ps d = Inr (rs, d')" for i ps d rs
    using that
  proof (induction ps arbitrary: i d rs)
    case (Cons p ps)
    then obtain r1 d1 rs1 where "ingest_one (others i) (fresh i) w st tn actor p d = Inr (r1, d1)"
      "ingest_loop others fresh (i + 1) w st tn actor ps d1 = Inr (rs1, d')"
      by (auto simp: tx_simps)
    then have "sound d d1" "sound d1 d'" using ingest_one_sound assms(2) Cons.IH by blast+
    then show ?case by (rule sound_trans)
  qed simp
  with assms(1) show ?thesis by (auto simp: ingest_def tx_simps)
qed

section \<open>Submitting and deciding\<close>

text \<open>The incidents other than one.\<close>

definition elsewhere :: "string \<Rightarrow> db \<Rightarrow> incident_row set" where
  "elsewhere iid d = {r \<in> set (incidents d). i_id r \<noteq> iid}"

definition only_moves :: "string \<Rightarrow> db \<Rightarrow> db \<Rightarrow> bool" where
  "only_moves iid d d' \<longleftrightarrow> map i_id (incidents d') = map i_id (incidents d) \<and> elsewhere iid d' = elsewhere iid d"

lemma only_moves_trans: "only_moves i a b \<Longrightarrow> only_moves i b c \<Longrightarrow> only_moves i a c"
  by (simp add: only_moves_def)

lemma only_moves_same: "incidents d' = incidents d \<Longrightarrow> only_moves i d d'"
  by (simp add: only_moves_def elsewhere_def)

lemma transition_only_moves:
  assumes "transition w iid s t v actor rs d = Inr (v', d')"
  shows "only_moves iid d d'"
proof -
  from assms have inc: "incidents d' = sql_update (at_version iid s v) (moved w t) (incidents d)" by (rule transition_InrE)
  have "r \<in> elsewhere iid d' \<longleftrightarrow> r \<in> elsewhere iid d" for r
    by (auto simp: elsewhere_def inc set_sql_update at_version_def split: if_splits)
  then show ?thesis by (auto simp: only_moves_def inc map_sql_update)
qed

text \<open>One incident moved and got the plan it has now; the others and their plans are as they were.\<close>

lemma one_moved_sound:
  assumes "system_ok d" "only_moves iid d d'" "grows d d'"
    and "\<And>i. i \<noteq> iid \<Longrightarrow> incident_plans d' i = incident_plans d i"
    and "incidents_get d iid None = Some r" "incidents_get d' iid None = Some r'"
    and "cmove (i_state r) (i_state r')" "incident_ok d' iid (i_state r')"
  shows "system_ok d' \<and> moves_ok d d'"
proof -
  from assms(1,2) have dist: "distinct (map i_id (incidents d))" "distinct (map i_id (incidents d'))"
    by (simp_all add: system_ok_def only_moves_def)
  have r: "r \<in> set (incidents d)" "i_id r = iid" and r': "r' \<in> set (incidents d')" "i_id r' = iid"
    using assms(5,6) find_in_set unfolding incidents_get_def by fastforce+
  have other: "x \<in> set (incidents d') \<longleftrightarrow> x \<in> set (incidents d)" if "i_id x \<noteq> iid" for x
    using assms(2) that unfolding only_moves_def elsewhere_def by blast
  have "incident_ok d' (i_id x) (i_state x)" if x: "x \<in> set (incidents d')" for x
  proof (cases "i_id x = iid")
    case True
    with distinct_key_inj [OF dist(2) x r'(1)] r' have "x = r'" by simp
    with assms(8) r' show ?thesis by simp
  next
    case False
    with x other have "x \<in> set (incidents d)" by simp
    with assms(1) have "incident_ok d (i_id x) (i_state x)" by (simp add: system_ok_def)
    moreover have "current_plan d' (i_id x) = current_plan d (i_id x)" by (simp add: current_plan_def assms(4) [OF False])
    moreover have "calm (i_state x) (i_state x)" by (simp add: calm_def)
    ultimately show ?thesis using assms(3) incident_ok_mono by blast
  qed
  moreover have "moves_ok d d'"
    unfolding moves_ok_def
  proof
    fix x assume x: "x \<in> set (incidents d)"
    show "\<exists>x' \<in> set (incidents d'). i_id x' = i_id x \<and> cmove\<^sup>*\<^sup>* (i_state x) (i_state x')"
    proof (cases "i_id x = iid")
      case True
      with distinct_key_inj [OF dist(1) x r(1)] r have "x = r" by simp
      with r r' assms(7) show ?thesis by auto
    next
      case False
      with x other show ?thesis by blast
    qed
  qed
  ultimately show ?thesis using dist(2) by (simp add: system_ok_def)
qed

lemma submit_grows:
  assumes "submit w st inc plan by actor d = Inr ((row, s'), d')"
  shows "grows d d'" "only_moves (i_id inc) d d'" "s' = AWAITING_APPROVAL \<Longrightarrow> has_job d' row ''approval_timeout''"
proof -
  let ?dn = "review w st d inc plan"
  from assms obtain d1 d2 d3 d4 h rs1 rs2 v1 v2 where
    a: "insert_plan w st inc plan by ?dn d = Inr (row, d1)"
    "audit_append w actor ''remediation.plan'' (i_id inc) (Some (i_tenant inc)) (plan_payload row) d1 = Inr (h, d2)"
    "transition w (i_id inc) (i_state inc) PLANNED (i_version inc) actor rs1 d2 = Inr (v1, d3)"
    "transition w (i_id inc) PLANNED SAFETY_REVIEWED v1 ''policy'' rs2 d3 = Inr (v2, d4)"
    and v: "submit_verdict w st inc ?dn row v2 d4 = Inr (s', d')"
    by (auto simp: submit_def tx_simps Let_def)
  have tr: "grows x x' \<and> only_moves (i_id inc) x x'" if "transition w (i_id inc) f t vn ac rs x = Inr (v', x')" for f t vn ac rs x v' x'
    using transition_frame [OF that] transition_only_moves [OF that] by (simp add: grows_def job_keys_def)
  have q: "grows x x' \<and> only_moves (i_id inc) x x' \<and> has_job x' row kind"
    if "flow_enqueue w st inc kind (p_id row) dl x = Inr (u, x')" for kind dl x u x'
  proof -
    have "incidents x' = incidents x" using flow_enqueue_frame [OF that] by (metis db.surjective db.update_convs(3) db.select_convs(1))
    with steady_flow_enqueue [OF that] flow_enqueue_frame [OF that] show ?thesis
      by (simp add: only_moves_same has_job_def steady_def)
  qed
  have 1: "grows d d1 \<and> only_moves (i_id inc) d d1"
    using insert_plan_Inr [OF a(1)] by (auto simp: grows_def job_keys_def intro!: only_moves_same)
  have 2: "grows d1 d2 \<and> only_moves (i_id inc) d1 d2"
    using audit_append_frame [OF a(2)] by (auto simp: grows_def job_keys_def intro!: only_moves_same)
  have 3: "grows d4 d' \<and> only_moves (i_id inc) d4 d' \<and> (s' = AWAITING_APPROVAL \<longrightarrow> has_job d' row ''approval_timeout'')"
  proof (cases "dn_verdict ?dn")
    case Allow
    with v obtain rs v3 d5 u where "transition w (i_id inc) SAFETY_REVIEWED EXECUTING v2 ''policy'' rs d4 = Inr (v3, d5)"
      "flow_enqueue w st inc ''execute'' (p_id row) 0 d5 = Inr (u, d')" "s' = EXECUTING"
      by (auto simp: submit_verdict_def tx_simps)
    with tr q show ?thesis by (blast intro: grows_trans only_moves_trans)
  next
    case RequireApproval
    with v obtain rs v3 d5 u where "transition w (i_id inc) SAFETY_REVIEWED AWAITING_APPROVAL v2 ''policy'' rs d4 = Inr (v3, d5)"
      "flow_enqueue w st inc ''approval_timeout'' (p_id row) (remediation_approval_ttl_s st) d5 = Inr (u, d')"
      by (auto simp: submit_verdict_def tx_simps)
    with tr q show ?thesis by (blast intro: grows_trans only_moves_trans)
  next
    case Deny
    with v obtain rs v3 where "transition w (i_id inc) SAFETY_REVIEWED ESCALATED v2 ''policy'' rs d4 = Inr (v3, d')" "s' = ESCALATED"
      by (auto simp: submit_verdict_def tx_simps)
    with tr show ?thesis by blast
  qed
  from 1 2 3 tr [OF a(3)] tr [OF a(4)]
  show "grows d d'" "only_moves (i_id inc) d d'" "s' = AWAITING_APPROVAL \<Longrightarrow> has_job d' row ''approval_timeout''"
    by (blast intro: grows_trans only_moves_trans)+
qed

lemma submit_sound:
  assumes "submit w st inc plan by actor d = Inr ((row, s'), d')"
  shows "sound d d'"
  unfolding sound_def
proof
  assume ok: "system_ok d"
  note s = submit_Inr [OF assms] and g = submit_grows [OF assms]
  from ok have dist: "distinct (map i_id (incidents d))" by (simp add: system_ok_def)
  from submit_incident [OF assms dist] obtain r r' where r: "incidents_get d (i_id inc) None = Some r" "i_state r = i_state inc"
    "incidents_get d' (i_id inc) None = Some r'" "i_state r' = s'" by blast
  have "cmove (i_state inc) s' \<and> incident_ok d' (i_id inc) s'"
  proof (cases "p_verdict row")
    case Allow
    with s(6,12-) show ?thesis
      by (auto simp: state_after_def incident_ok_def running_states_def cleared_def has_job_def imove.simps cmove.simps)
  next
    case RequireApproval
    with s(6,12) have s': "s' = AWAITING_APPROVAL" "cmove (i_state inc) AWAITING_APPROVAL"
      by (auto simp: state_after_def imove.simps cmove.simps)
    with s(13) g(3) RequireApproval show ?thesis by (auto simp: incident_ok_def running_states_def)
  next
    case Deny
    with s(6,12) show ?thesis
      by (auto simp: state_after_def incident_ok_def running_states_def imove.simps cmove.simps)
  qed
  with r one_moved_sound [OF ok g(2,1) s(14) r(1,3)] show "system_ok d' \<and> moves_ok d d'" by simp
qed

lemma decide_keys:
  assumes "decide w st inc approver choice hash_seen comment d = Inr (s', d')"
  shows "set (job_keys d) \<subseteq> set (job_keys d')"
proof -
  have e: "set (job_keys x) \<subseteq> set (job_keys x')" if "flow_enqueue w st inc kind pid dl x = Inr (u, x')" for kind pid dl x u x'
    using steady_flow_enqueue [OF that] by (simp add: steady_def grows_def)
  have t: "job_keys x' = job_keys x" if "transition w i s t v ac rs x = Inr (v', x')" for i s t v ac rs x v' x'
    using transition_frame [OF that] by (simp add: job_keys_def)
  have a: "job_keys x' = job_keys x" if "audit_append w ac ev i tn pl x = Inr (h, x')" for ac ev i tn pl x h x'
    using audit_append_frame [OF that] by (auto simp: job_keys_def)
  consider row aps h d2 rs v d3 u pid where
      "audit_append w approver ''remediation.approved'' (i_id inc) (Some (i_tenant inc)) row (d\<lparr>approvals := aps\<rparr>) = Inr (h, d2)"
      "transition w (i_id inc) AWAITING_APPROVAL EXECUTING (i_version inc) approver rs d2 = Inr (v, d3)"
      "flow_enqueue w st inc ''execute'' pid 0 d3 = Inr (u, d')"
    | row aps h d2 rs v where
      "audit_append w approver ''remediation.rejected'' (i_id inc) (Some (i_tenant inc)) row (d\<lparr>approvals := aps\<rparr>) = Inr (h, d2)"
      "transition w (i_id inc) AWAITING_APPROVAL ESCALATED (i_version inc) approver rs d2 = Inr (v, d')"
    using assms by (cases choice) (auto simp: decide_def tx_simps(1) bindS_Inr_iff guard_Inr Let_def split: option.splits if_splits)
  then show ?thesis
  proof cases
    case 1
    have "job_keys d3 = job_keys d" using a [OF 1(1)] t [OF 1(2)] by (simp add: job_keys_def)
    with e [OF 1(3)] show ?thesis by simp
  next
    case 2
    have "job_keys d' = job_keys d" using a [OF 2(1)] t [OF 2(2)] by (simp add: job_keys_def)
    then show ?thesis by simp
  qed
qed

lemma decide_sound:
  assumes "decide w st inc approver choice hash_seen comment d = Inr (s', d')"
  shows "sound d d'"
  unfolding sound_def
proof
  assume ok: "system_ok d"
  from assms obtain plan arow h d1 rs v d2 where
    p: "i_state inc = AWAITING_APPROVAL" "current_plan d (i_id inc) = Some plan" "p_verdict plan = RequireApproval"
    and self: "choice = Approve \<longrightarrow> approver \<noteq> p_proposed_by plan"
    and row: "ap_plan arow = p_id plan" "ap_plan_hash arow = p_hash plan" "ap_approver arow = approver" "ap_decision arow = choice"
    and a: "audit_append w approver (if choice = Approve then ''remediation.approved'' else ''remediation.rejected'')
       (i_id inc) (Some (i_tenant inc))
       (JObj [(''plan_id'', JInt (int (p_id plan))), (''plan_hash'', JStr (p_hash plan)), (''comment'', JStr comment)])
       (d\<lparr>approvals := approvals d @ [arow]\<rparr>) = Inr (h, d1)"
    and t: "transition w (i_id inc) AWAITING_APPROVAL s' (i_version inc) approver rs d1 = Inr (v, d2)" and d': "d' = d2\<lparr>jobs := jobs d'\<rparr>"
    and s': "s' = (if choice = Approve then EXECUTING else ESCALATED)"
    and job: "choice = Approve \<longrightarrow> plan_job_key (p_id plan) ''execute'' \<in> set (job_keys d')"
    by (auto elim!: decide_Inr)
  obtain lrow where d1: "d1 = d\<lparr>approvals := approvals d @ [arow], audit_log := audit_log d @ [lrow]\<rparr>"
    using audit_append_frame [OF a] by auto
  note f = transition_frame [OF t]
  have same: "incidents d' = incidents d2" "remediation_plans d' = remediation_plans d" "approvals d' = approvals d @ [arow]"
    using arg_cong [OF d', of incidents] arg_cong [OF d', of remediation_plans] arg_cong [OF d', of approvals] f d1 by simp_all
  have om: "only_moves (i_id inc) d d'"
  proof (rule only_moves_trans [OF only_moves_trans [OF only_moves_same transition_only_moves [OF t]] only_moves_same])
  qed (simp_all add: d1 same)
  from ok d1 have dist: "distinct (map i_id (incidents d1))" by (simp add: system_ok_def)
  from transition_get [OF t dist] obtain r where "incidents_get d1 (i_id inc) None = Some r" "i_state r = AWAITING_APPROVAL"
    "incidents_get d2 (i_id inc) None = Some (moved w s' r)" by blast
  then have r: "incidents_get d (i_id inc) None = Some r" "i_state r = AWAITING_APPROVAL" "incidents_get d' (i_id inc) None = Some (moved w s' r)"
    by (simp_all add: incidents_get_def d1 same)
  have g: "grows d d'" using decide_keys [OF assms] same by (auto simp: grows_def)
  have plan: "current_plan d' i = current_plan d i" for i by (rule current_plan_same) (rule same)
  have "incident_ok d' (i_id inc) s'"
  proof (cases choice)
    case Approve
    with p plan same row self job s' show ?thesis
      by (auto simp: incident_ok_def running_states_def cleared_def has_job_def)
  next
    case Reject
    with s' show ?thesis by (simp add: idle_ok idle_states_def)
  qed
  moreover have "cmove AWAITING_APPROVAL s'" using s' by (simp add: cmove.simps)
  ultimately show "system_ok d' \<and> moves_ok d d'"
    using one_moved_sound [OF ok om g _ r(1,3)] r(2) same by (simp add: incident_plans_def)
qed

lemma plan_commit_sound: "plan_commit w st job iid prop d = Inr (r, d') \<Longrightarrow> sound d d'"
  by (auto simp: plan_commit_def tx_simps split: option.splits if_splits intro: submit_sound
      dest!: steady_transition dest: steady_sound simp: calm_def idle_states_def cmove.simps)

lemma map_error_Inr: "map_error f m = Inr a \<longleftrightarrow> m = Inr a"
  by (simp add: map_error_def split: sum.splits)

lemma revise_sound: "api_revise_plan w st tn subject iid plan d = Inr (r, d') \<Longrightarrow> sound d d'"
  by (cases r) (auto simp: api_revise_plan_def tx_simps map_error_Inr intro: submit_sound)

lemma api_decide_sound: "api_decide w st tn subject iid choice hash_seen comment d = Inr (r, d') \<Longrightarrow> sound d d'"
  by (auto simp: api_decide_def tx_simps map_error_Inr intro: decide_sound)

section \<open>Every step\<close>

lemma sys_step_sound: "sys_step d d' \<Longrightarrow> sound d d'"
proof (induction rule: sys_step.induct)
  case (y_ingest others fresh w st tn actor alerts_in d r d')
  have "sound x (others i k x)" for i k x
  proof -
    from y_ingest(2) have "(\<lambda>a b. sys_step a b \<and> sound a b)\<^sup>*\<^sup>* x (others i k x)" by simp
    then show ?thesis by (induction rule: rtranclp_induct) (auto intro: sound_trans)
  qed
  with y_ingest(1) show ?case by (rule ingest_sound)
qed (auto intro: steady_sound steady_rules steady_fenced steady_runs plan_commit_sound revise_sound api_decide_sound)

lemma sys_run_sound: "sys_step\<^sup>*\<^sup>* d d' \<Longrightarrow> sound d d'"
  by (induction rule: rtranclp_induct) (auto intro: sound_trans sys_step_sound)

lemma empty_ok: "system_ok empty_db"
  by (simp add: system_ok_def empty_db_def)

lemma reached_ok: "sys_step\<^sup>*\<^sup>* empty_db d \<Longrightarrow> system_ok d"
  using sys_run_sound empty_ok by (auto simp: sound_def)

section \<open>The jobs are made of steps\<close>

lemma keeps_propose:
  assumes k: "kept_by_agents I A (dp_incident (ie_deps env)) (ie_deps env)" and p: "PLANNER \<in> A"
  shows "keeps_I I (propose env ms v dx)"
proof -
  have name: "sp_name (planner_spec env ms q) = PLANNER" for q by (simp add: planner_spec_def agent_spec_of_def)
  note kd = keptD [OF k]
  have fl: "keeps_I I (fail_agent env (planner_spec env ms q) msg m)" if "keeps_I I m"
    for q msg and m :: "('a, proposal) inv_step"
    unfolding fail_agent_def name by (intro keeps_andthen keeps_write [OF k] kd(5) p that)
  have fin: "keeps_I I (finish_planner env r)" for r
    unfolding finish_planner_def
    by (auto split: option.splits intro!: keeps_andthen keeps_write [OF k] kd(6) p)
  have after: "keeps_I I (after_planner env (planner_spec env ms q) stop)" for q stop
    unfolding after_planner_def no_plan_def
    by (cases stop) (auto split: agent_exn.splits intro!: fin fl)
  have run: "keeps_I I (run_step env (planner_spec env ms q) task m chk)" for q task m chk
    by (rule keeps_run_step [OF k]) (simp add: name p)
  have "keeps_I I (propose_fresh env ms v dx)"
    unfolding propose_fresh_def Let_def
    by (intro keeps_with_prompt keeps_ask_then [OF k] keeps_andthen keeps_write [OF k] kd(4) p run after)
  then show ?thesis
    unfolding propose_def by (intro keeps_ask_then [OF k]) (auto split: option.splits bool.splits)
qed

lemma runs_kept:
  assumes "\<And>k x. sys_step\<^sup>*\<^sup>* x (dp_others dp k x)"
  shows "kept_by_agents (sys_step\<^sup>*\<^sup>* d) UNIV inc dp"
proof -
  have s: "sys_step\<^sup>*\<^sup>* d (f x)" if "sys_step\<^sup>*\<^sup>* d x" "sys_step x (f x)" for f x
    using that by (rule rtranclp.rtrancl_into_rtrancl)
  have "sys_step x (pg_start_run t i a m p x)" "sys_step x (pg_finish_run t i a n res es x)" "sys_step x (pg_fail_run i a n e x)"
    for t i a m p n res es e x
    by (rule y_start_run [of None] y_finish_run [of None] y_fail_run [of None]; simp add: fenced_write_def)+
  then show ?thesis
    unfolding kept_by_agents_def using rtranclp_trans [OF _ assms] s y_tool_call y_model_call by simp
qed

text \<open>
  What a handler leaves is reached by steps, whatever the model, the tools and pydantic answer, if
  what other processes commit in between is.
\<close>

lemma investigate_job_run:
  assumes "\<And>k x. sys_step\<^sup>*\<^sup>* x (sv_others sv k x)" "investigate_job w st wid sv job s d = (r, s', d')"
  shows "sys_step\<^sup>*\<^sup>* d d'"
  using assms(2)
proof (cases rule: investigate_job_ends)
  case (2 iid y d1)
  then show ?thesis by (auto intro: y_begin)
next
  case (3 iid version v variant env d1 res st1 aw)
  have oth: "sys_step\<^sup>*\<^sup>* x (dp_others (ie_deps env) k x)" for k x
    using assms(1) by (simp add: 3 services_env_def services_deps_def)
  have "keeps_I (sys_step\<^sup>*\<^sup>* d1) (investigate env v)" by (rule investigate_keeps [OF runs_kept]) (rule oth)
  from this [unfolded spec_of_def, rule_format, of "\<lparr>is_world = \<lparr>aw_ext = s, aw_tick = 0, aw_db = d1\<rparr>, is_agents = []\<rparr>"] 3(3)
  have "sys_step\<^sup>*\<^sup>* d1 (db_of st1)" by (simp add: db_of_def split: sum.splits)
  with y_begin [OF 3(1)] have 1: "sys_step\<^sup>*\<^sup>* d (db_of st1)" by (rule converse_rtranclp_into_rtranclp)
  have "sys_step\<^sup>*\<^sup>* (db_of st1) (aw_db aw)" unfolding 3(4) by (simp add: sync_def db_of_def oth)
  with 1 have 2: "sys_step\<^sup>*\<^sup>* d (aw_db aw)" by (rule rtranclp_trans)
  from 3(5) show ?thesis using 1 2 by (auto intro: rtranclp.rtrancl_into_rtrancl y_concluded)
qed simp

lemma plan_job_run:
  assumes "\<And>k x. sys_step\<^sup>*\<^sup>* x (sv_others sv k x)" "plan_job w st (plan_proposer w st sv job s) job d = (r, d')"
  shows "sys_step\<^sup>*\<^sup>* d d'"
proof -
  have asked: "sys_step\<^sup>*\<^sup>* d d1" if "plan_proposer w st sv job s inc dx d = (p, d1)" for inc dx p d1
  proof -
    let ?env = "services_env w st sv job (incident_view d inc) DEFAULT_VARIANT"
    have "sys_step\<^sup>*\<^sup>* x (dp_others (ie_deps ?env) k x)" for k x
      using assms(1) by (simp add: services_env_def services_deps_def)
    note k = runs_kept [OF this]
    have "keeps_I (sys_step\<^sup>*\<^sup>* d) (propose ?env (planner_max_steps st) (incident_view d inc) dx)"
      by (rule keeps_propose [OF k]) simp
    from this [unfolded spec_of_def, rule_format, of "\<lparr>is_world = \<lparr>aw_ext = s, aw_tick = 0, aw_db = d\<rparr>, is_agents = []\<rparr>"] that
    show ?thesis by (auto simp: plan_proposer_def Let_def db_of_def split: prod.splits sum.splits)
  qed
  have com: "sys_step\<^sup>*\<^sup>* d d2" if "sys_step\<^sup>*\<^sup>* d d1" "plan_commit w st job iid prp d1 = Inr (u, d2)" for d1 iid prp u d2
    using that by (blast intro: rtranclp.rtrancl_into_rtrancl y_planned)
  show ?thesis
    using assms(2)
    by (auto simp: plan_job_def Let_def split: sum.splits option.splits if_splits prod.splits planner_end.splits
        dest: asked intro: com)
qed

lemma verify_job_run:
  assumes "sys_step\<^sup>*\<^sup>* d (later d)" "verify_job w st tx prometheus clock later job d = (r, d')"
  shows "sys_step\<^sup>*\<^sup>* d d'"
proof -
  have "d' = d \<or> d' = later d \<or> (\<exists>iid ok why samples plan. verified w tx job iid ok why samples plan (later d) = Inr ((), d'))"
    using assms(2)
    by (auto simp: verify_job_def Let_def split: sum.splits option.splits if_splits verify_end.splits)
  with assms(1) show ?thesis by (auto intro: rtranclp.rtrancl_into_rtrancl y_verified)
qed

lemma attempt_run_steps: "attempt_run w st ev n a d h = (a', d', h') \<Longrightarrow> sys_step\<^sup>*\<^sup>* d d'"
proof (induction n arbitrary: a d h)
  case (Suc n)
  obtain a1 d1 h1 where 1: "attempt_step w st ev a d h = (a1, d1, h1)" by (metis prod_cases3)
  with Suc.prems have "attempt_run w st ev n a1 d1 h1 = (a', d', h')" by simp
  from converse_rtranclp_into_rtranclp [OF y_execute [OF 1] Suc.IH [OF this]] show ?case .
qed simp

text \<open>The worker around them: a handler that only steps, and how its attempt ends.\<close>

lemma execute_run:
  assumes "\<And>h job x r x'. handlers (jb_kind job) = Some h \<Longrightarrow> h job x = (r, x') \<Longrightarrow> sys_step\<^sup>*\<^sup>* x x'"
    and "execute rnd w st wid handlers lost job d = (oc, d')"
  shows "sys_step\<^sup>*\<^sup>* d d'"
proof (cases "handlers (jb_kind job)")
  case None
  with assms(2) have "execute_end rnd w st wid lost job (Raised PermanentJobError (''no handler for job kind '' @ py_repr (jb_kind job))) d = (oc, d')"
    by (simp add: execute_def)
  then show ?thesis by (blast intro: y_job_end)
next
  case (Some h)
  obtain r x where h: "h job d = (r, x)" by force
  with assms(2) Some have "execute_end rnd w st wid lost job r x = (oc, d')" by (simp add: execute_def)
  with assms(1) [OF Some h] show ?thesis by (blast intro: rtranclp.rtrancl_into_rtrancl y_job_end)
qed

end
