(* ===== verification/Security.thy ===== *)
theory Security
  imports Flow
begin

text \<open>
  Authentication and roles (\<open>app/core/security.py\<close>) and the requests that change state behind
  them. The JWT library is a parameter; what the code relies on is \<open>jwt_law\<close>. Shown: a minted
  token gives back the principal it was minted for until it expires, a higher role includes the
  lower ones, and what a request has shown before its handler runs.
\<close>

section \<open>Roles\<close>

definition ROLE_RANK :: "(string \<times> nat) list" where
  "ROLE_RANK = [(''viewer'', 1), (''responder'', 2), (''approver'', 3), (''admin'', 4)]"

definition SERVICE_ROLES :: "string list" where
  "SERVICE_ROLES = [''ingest'']"

definition ALL_ROLES :: "string list" where
  "ALL_ROLES = map fst ROLE_RANK @ SERVICE_ROLES"

record principal =
  pr_subject :: string
  pr_tenant :: string
  pr_roles :: "string set"

text \<open>\<open>ROLE_RANK.get(r, 0)\<close> and \<open>Principal.has\<close>; a role without a rank is a \<open>KeyError\<close>.\<close>

definition rank_of :: "string \<Rightarrow> nat" where
  "rank_of r = (case map_of ROLE_RANK r of None \<Rightarrow> 0 | Some n \<Rightarrow> n)"

definition has_role :: "principal \<Rightarrow> string \<Rightarrow> exn + bool" where
  "has_role p role =
     (if role \<in> set SERVICE_ROLES then Inr (role \<in> pr_roles p)
      else case map_of ROLE_RANK role of
        None \<Rightarrow> Inl KeyError
      | Some needed \<Rightarrow> Inr (\<exists>r \<in> pr_roles p. needed \<le> rank_of r))"

section \<open>Tokens\<close>

record token_settings =
  jwt_secret :: "string option"
  jwt_issuer :: string
  jwt_audience :: string

text \<open>What \<open>jwt.decode\<close> is asked to check.\<close>

record decode_options =
  do_audience :: string
  do_issuer :: string
  do_leeway :: int
  do_require :: "string list"

record 'tok jwt_lib =
  jl_encode :: "(string \<times> json) list \<Rightarrow> string \<Rightarrow> 'tok"
  jl_decode :: "decode_options \<Rightarrow> int \<Rightarrow> string \<Rightarrow> 'tok \<Rightarrow> string + (string \<times> json) list"
  jl_str :: "json \<Rightarrow> string"

datatype sec_error = AuthError string | WeakSecret string | SecValueError string | NoSubject

definition LEEWAY_S :: int where
  "LEEWAY_S = 30"

definition secret_of :: "token_settings \<Rightarrow> sec_error + string" where
  "secret_of ts =
     (case jwt_secret ts of
        None \<Rightarrow> Inl (WeakSecret ''SRE_JWT_SECRET is not set'')
      | Some s \<Rightarrow> if length s < 32 then Inl (WeakSecret ''SRE_JWT_SECRET must be at least 32 characters'') else Inr s)"

definition token_claims :: "token_settings \<Rightarrow> string \<Rightarrow> string \<Rightarrow> string list \<Rightarrow> int \<Rightarrow> int \<Rightarrow> (string \<times> json) list" where
  "token_claims ts subject tenant_id roles ttl_s now =
     [(''sub'', JStr subject), (''tenant'', JStr tenant_id), (''roles'', JArr (map JStr roles)),
      (''iss'', JStr (jwt_issuer ts)), (''aud'', JStr (jwt_audience ts)), (''iat'', JInt now), (''exp'', JInt (now + ttl_s))]"

definition mint_token ::
    "'tok jwt_lib \<Rightarrow> token_settings \<Rightarrow> string \<Rightarrow> string \<Rightarrow> string list \<Rightarrow> int \<Rightarrow> int \<Rightarrow> sec_error + 'tok" where
  "mint_token lib ts subject tenant_id roles ttl_s now =
     (let unknown = filter (\<lambda>r. r \<notin> set ALL_ROLES) roles in
      if unknown \<noteq> []
      then Inl (SecValueError (''unknown roles: ['' @ join '', '' (map py_repr (sort (remdups unknown))) @ '']''))
      else bindS (secret_of ts) (\<lambda>secret. Inr (jl_encode lib (token_claims ts subject tenant_id roles ttl_s now) secret)))"

definition decode_opts :: "token_settings \<Rightarrow> decode_options" where
  "decode_opts ts = \<lparr>do_audience = jwt_audience ts, do_issuer = jwt_issuer ts, do_leeway = LEEWAY_S,
     do_require = [''sub'', ''exp'', ''iss'', ''aud'']\<rparr>"

definition claimed_tenant :: "(string \<times> json) list \<Rightarrow> sec_error + string" where
  "claimed_tenant claims =
     (case jget claims ''tenant'' of
        Some (JStr t) \<Rightarrow> if t = [] then Inl (AuthError ''token has no tenant'') else Inr t
      | _ \<Rightarrow> Inl (AuthError ''token has no tenant''))"

fun as_strings :: "json list \<Rightarrow> string list option" where
  "as_strings [] = Some []"
| "as_strings (JStr s # js) = map_option (\<lambda>r. s # r) (as_strings js)"
| "as_strings (j # js) = None"

definition claimed_roles :: "(string \<times> json) list \<Rightarrow> sec_error + string list" where
  "claimed_roles claims =
     (case jget claims ''roles'' of
        Some (JArr js) \<Rightarrow> (case as_strings js of None \<Rightarrow> Inl (AuthError ''token has no valid roles claim'') | Some rs \<Rightarrow> Inr rs)
      | _ \<Rightarrow> Inl (AuthError ''token has no valid roles claim''))"

definition decode_token :: "'tok jwt_lib \<Rightarrow> token_settings \<Rightarrow> int \<Rightarrow> 'tok \<Rightarrow> sec_error + principal" where
  "decode_token lib ts now token =
     bindS (secret_of ts) (\<lambda>secret.
       case jl_decode lib (decode_opts ts) now secret token of
         Inl e \<Rightarrow> Inl (AuthError e)
       | Inr claims \<Rightarrow>
           bindS (claimed_tenant claims) (\<lambda>tenant. bindS (claimed_roles claims) (\<lambda>roles.
             case jget claims ''sub'' of
               None \<Rightarrow> Inl NoSubject
             | Some sub \<Rightarrow> Inr \<lparr>pr_subject = jl_str lib sub, pr_tenant = tenant, pr_roles = set roles \<inter> set ALL_ROLES\<rparr>)))"

section \<open>Dependencies of the requests\<close>

text \<open>\<open>authenticate\<close>: only an \<open>AuthError\<close> is a 401, anything else is the server's own error.\<close>

definition authenticate :: "'tok jwt_lib \<Rightarrow> token_settings \<Rightarrow> int \<Rightarrow> 'tok option \<Rightarrow> exn + principal" where
  "authenticate lib ts now credentials =
     (case credentials of
        None \<Rightarrow> Inl (HTTPException 401)
      | Some token \<Rightarrow>
          (case decode_token lib ts now token of
             Inr p \<Rightarrow> Inr p
           | Inl (AuthError e) \<Rightarrow> Inl (HTTPException 401)
           | Inl NoSubject \<Rightarrow> Inl KeyError
           | Inl _ \<Rightarrow> Inl RuntimeError))"

text \<open>\<open>require(role)\<close>: an unknown role is refused when the route is declared.\<close>

definition require :: "string \<Rightarrow> principal \<Rightarrow> exn + principal" where
  "require role p =
     bindS (has_role p role) (\<lambda>ok. if ok then Inr p else Inl (HTTPException 403))"

definition authorized :: "'tok jwt_lib \<Rightarrow> token_settings \<Rightarrow> int \<Rightarrow> 'tok option \<Rightarrow> string \<Rightarrow> exn + principal" where
  "authorized lib ts now credentials role = bindS (authenticate lib ts now credentials) (require role)"

section \<open>The requests\<close>

definition hex_digits :: string where
  "hex_digits = ''0123456789abcdef''"

text \<open>\<open>ApprovalIn\<close>: the pattern of the hash and the length of the comment; 422 otherwise.\<close>

definition approval_in_ok :: "string \<Rightarrow> string \<Rightarrow> bool" where
  "approval_in_ok plan_hash_seen comment \<longleftrightarrow>
     length plan_hash_seen = 64 \<and> list_all (\<lambda>c. c \<in> set hex_digits) plan_hash_seen \<and> length comment \<le> 500"

definition decide_request ::
    "'tok jwt_lib \<Rightarrow> token_settings \<Rightarrow> int \<Rightarrow> 'tok option \<Rightarrow> world \<Rightarrow> settings \<Rightarrow> string \<Rightarrow> approval_decision \<Rightarrow> string \<Rightarrow>
       string \<Rightarrow> istate tx" where
  "decide_request lib ts now credentials w st incident_id decision plan_hash_seen comment d =
     bindS (authorized lib ts now credentials ''approver'') (\<lambda>p.
     bindS (guard (approval_in_ok plan_hash_seen comment) (HTTPException 422)) (\<lambda>_.
       api_decide w st (pr_tenant p) (pr_subject p) incident_id decision plan_hash_seen comment d))"

definition revise_request ::
    "'tok jwt_lib \<Rightarrow> token_settings \<Rightarrow> int \<Rightarrow> 'tok option \<Rightarrow> world \<Rightarrow> settings \<Rightarrow> string \<Rightarrow> remediation_plan \<Rightarrow>
       (plan_row \<times> istate) tx" where
  "revise_request lib ts now credentials w st incident_id plan d =
     bindS (authorized lib ts now credentials ''responder'') (\<lambda>p.
       api_revise_plan w st (pr_tenant p) (pr_subject p) incident_id plan d)"

section \<open>What the library promises\<close>

text \<open>
  PyJWT's documented behaviour: \<open>decode\<close> with the key of \<open>encode\<close> gives the claims back if the
  required ones are there, audience and issuer are the expected ones, the token has not expired
  and was not issued in the future (both up to the leeway), and raises otherwise; \<open>str\<close> of a text is the text.
\<close>

definition claims_valid :: "decode_options \<Rightarrow> int \<Rightarrow> (string \<times> json) list \<Rightarrow> bool" where
  "claims_valid opts now claims \<longleftrightarrow>
     list_all (\<lambda>k. jget claims k \<noteq> None) (do_require opts) \<and>
     jget claims ''aud'' = Some (JStr (do_audience opts)) \<and> jget claims ''iss'' = Some (JStr (do_issuer opts)) \<and>
     (case jget claims ''exp'' of Some (JInt t) \<Rightarrow> now - do_leeway opts < t | _ \<Rightarrow> False) \<and>
     (case jget claims ''iat'' of None \<Rightarrow> True | Some (JInt t) \<Rightarrow> t \<le> now + do_leeway opts | _ \<Rightarrow> False)"

definition jwt_law :: "'tok jwt_lib \<Rightarrow> bool" where
  "jwt_law lib \<longleftrightarrow>
     (\<forall>claims secret opts now.
        if claims_valid opts now claims then jl_decode lib opts now secret (jl_encode lib claims secret) = Inr claims
        else \<exists>e. jl_decode lib opts now secret (jl_encode lib claims secret) = Inl e) \<and>
     (\<forall>s. jl_str lib (JStr s) = s)"

section \<open>Lemmas\<close>

lemma ranks: "role \<in> set ALL_ROLES \<longleftrightarrow> role \<in> set SERVICE_ROLES \<or> rank_of role \<noteq> 0"
  by (auto simp: ALL_ROLES_def rank_of_def ROLE_RANK_def SERVICE_ROLES_def split: if_splits)

text \<open>A role that a route can ask for has an answer, and it is the rank that counts.\<close>

lemma has_role_rank:
  assumes "rank_of role \<noteq> 0"
  shows "has_role p role = Inr (\<exists>r \<in> pr_roles p. rank_of role \<le> rank_of r)"
proof -
  from assms obtain n where n: "map_of ROLE_RANK role = Some n" by (auto simp: rank_of_def split: option.splits)
  then have "rank_of role = n" "role \<notin> set SERVICE_ROLES"
    by (auto simp: rank_of_def ROLE_RANK_def SERVICE_ROLES_def split: if_splits)
  with n show ?thesis by (simp add: has_role_def)
qed

lemma has_role_total: "role \<in> set ALL_ROLES \<Longrightarrow> \<exists>b. has_role p role = Inr b"
  using has_role_rank by (fastforce simp: ranks has_role_def)

lemma higher_role:
  assumes "has_role p high = Inr True" "rank_of low \<le> rank_of high" "rank_of low \<noteq> 0"
  shows "has_role p low = Inr True"
proof -
  from assms have "rank_of high \<noteq> 0" by simp
  with assms obtain r where "r \<in> pr_roles p" "rank_of high \<le> rank_of r" by (auto simp: has_role_rank)
  with assms show ?thesis by (auto simp: has_role_rank intro: order_trans)
qed

lemma service_role_is_apart: "rank_of ''ingest'' = 0" "rank_of role \<noteq> 0 \<Longrightarrow> pr_roles p = {''ingest''} \<Longrightarrow> has_role p role = Inr False"
proof -
  show i: "rank_of ''ingest'' = 0" by (simp add: rank_of_def ROLE_RANK_def)
  show "rank_of role \<noteq> 0 \<Longrightarrow> pr_roles p = {''ingest''} \<Longrightarrow> has_role p role = Inr False"
    using i by (simp add: has_role_rank)
qed

lemma as_strings_map [simp]: "as_strings (map JStr rs) = Some rs"
  by (induction rs) auto

lemma claimed_minted:
  "claimed_tenant (token_claims ts subject tenant roles ttl now) = (if tenant = [] then Inl (AuthError ''token has no tenant'') else Inr tenant)"
  "claimed_roles (token_claims ts subject tenant roles ttl now) = Inr roles"
  "jget (token_claims ts subject tenant roles ttl now) ''sub'' = Some (JStr subject)"
  by (simp_all add: claimed_tenant_def claimed_roles_def token_claims_def jget_def)

lemma minted_valid:
  "claims_valid (decode_opts ts) now' (token_claims ts subject tenant roles ttl now) \<longleftrightarrow>
     now' < now + ttl + 30 \<and> now \<le> now' + 30"
  by (auto simp: claims_valid_def decode_opts_def token_claims_def jget_def LEEWAY_S_def)

text \<open>A minted token, decoded: until it expires the principal it was minted for, then no one.\<close>

lemma mint_decode:
  assumes "jwt_law lib" "mint_token lib ts subject tenant roles ttl now = Inr tok" "tenant \<noteq> []"
  shows "if now' < now + ttl + 30 \<and> now \<le> now' + 30
    then decode_token lib ts now' tok = Inr \<lparr>pr_subject = subject, pr_tenant = tenant, pr_roles = set roles\<rparr>
    else \<exists>e. decode_token lib ts now' tok = Inl (AuthError e)"
proof -
  let ?c = "token_claims ts subject tenant roles ttl now"
  from assms(2) obtain secret where s: "secret_of ts = Inr secret" "tok = jl_encode lib ?c secret"
    and known: "set roles \<subseteq> set ALL_ROLES"
    by (auto simp: mint_token_def Let_def bindS_Inr_iff filter_empty_conv split: if_splits)
  have law: "if claims_valid (decode_opts ts) now' ?c then jl_decode lib (decode_opts ts) now' secret tok = Inr ?c
      else \<exists>e. jl_decode lib (decode_opts ts) now' secret tok = Inl e" "jl_str lib (JStr subject) = subject"
    using assms(1) s(2) unfolding jwt_law_def by auto
  show ?thesis
  proof (cases "claims_valid (decode_opts ts) now' ?c")
    case True
    with law s known assms(3) show ?thesis
      by (auto simp: decode_token_def claimed_minted minted_valid)
  next
    case False
    with law s show ?thesis by (auto simp: decode_token_def minted_valid)
  qed
qed

text \<open>Whatever the library does, a principal has a tenant and only roles the program knows.\<close>

lemma decode_token_Inr:
  assumes "decode_token lib ts now tok = Inr p"
  obtains secret claims where "jwt_secret ts = Some secret" "32 \<le> length secret"
    "jl_decode lib (decode_opts ts) now secret tok = Inr claims" "jget claims ''tenant'' = Some (JStr (pr_tenant p))"
    "pr_tenant p \<noteq> []" "pr_roles p \<subseteq> set ALL_ROLES"
proof -
  from assms obtain secret where s: "secret_of ts = Inr secret"
    and r: "(case jl_decode lib (decode_opts ts) now secret tok of Inl e \<Rightarrow> Inl (AuthError e)
       | Inr claims \<Rightarrow> bindS (claimed_tenant claims) (\<lambda>tenant. bindS (claimed_roles claims) (\<lambda>roles.
             case jget claims ''sub'' of None \<Rightarrow> Inl NoSubject
             | Some sub \<Rightarrow> Inr \<lparr>pr_subject = jl_str lib sub, pr_tenant = tenant, pr_roles = set roles \<inter> set ALL_ROLES\<rparr>))) = Inr p"
    unfolding decode_token_def bindS_Inr_iff by blast
  then obtain claims where c: "jl_decode lib (decode_opts ts) now secret tok = Inr claims" by (auto split: sum.splits)
  with r obtain tenant where "claimed_tenant claims = Inr tenant" "pr_tenant p = tenant" "pr_roles p \<subseteq> set ALL_ROLES"
    by (auto simp: bindS_Inr_iff split: option.splits)
  note d = s c this
  from d(1) have "jwt_secret ts = Some secret" "32 \<le> length secret" by (auto simp: secret_of_def split: option.splits if_splits)
  moreover from d(3) have "jget claims ''tenant'' = Some (JStr tenant)" "tenant \<noteq> []"
    by (auto simp: claimed_tenant_def split: option.splits json.splits if_splits)
  ultimately show thesis using d that by blast
qed

lemma authorized_Inr:
  assumes "authorized lib ts now credentials role = Inr p"
  obtains tok where "credentials = Some tok" "decode_token lib ts now tok = Inr p" "has_role p role = Inr True"
proof -
  from assms obtain q where q: "authenticate lib ts now credentials = Inr q" "require role q = Inr p"
    by (auto simp: authorized_def bindS_Inr_iff)
  then have "q = p" "has_role p role = Inr True" by (auto simp: require_def bindS_Inr_iff split: if_splits)
  with q(1) that show thesis by (auto simp: authenticate_def split: option.splits sum.splits sec_error.splits)
qed

text \<open>What a decision that was taken has shown: who decided, with which role, on whose incident.\<close>

lemma decide_request_Inr:
  assumes "decide_request lib ts now credentials w st iid choice h comment d = Inr (s', d')"
  obtains tok p inc where "credentials = Some tok" "decode_token lib ts now tok = Inr p" "has_role p ''approver'' = Inr True"
    "incidents_get d iid (Some (pr_tenant p)) = Some inc" "approval_in_ok h comment"
    "decide w st inc (user_actor (pr_subject p)) choice h comment d = Inr (s', d')"
proof -
  from assms obtain p where a: "authorized lib ts now credentials ''approver'' = Inr p" and ok: "approval_in_ok h comment"
    and r: "api_decide w st (pr_tenant p) (pr_subject p) iid choice h comment d = Inr (s', d')"
    by (auto simp: decide_request_def tx_simps)
  from r obtain inc where "incidents_get d iid (Some (pr_tenant p)) = Some inc"
    "decide w st inc (user_actor (pr_subject p)) choice h comment d = Inr (s', d')"
    by (auto simp: api_decide_def api_incident_def map_error_def tx_simps split: option.splits sum.splits)
  with authorized_Inr [OF a] ok that show thesis by metis
qed

lemma approver_roles: "has_role p ''approver'' = Inr True \<longleftrightarrow> ''approver'' \<in> pr_roles p \<or> ''admin'' \<in> pr_roles p"
proof -
  have "rank_of ''approver'' = 3" by (simp add: rank_of_def ROLE_RANK_def)
  moreover have "3 \<le> rank_of r \<longleftrightarrow> r = ''approver'' \<or> r = ''admin''" for r
    by (auto simp: rank_of_def ROLE_RANK_def split: if_splits)
  ultimately show ?thesis by (auto simp: has_role_rank)
qed

end
