(* ===== verification/EventStream.thy ===== *)
theory EventStream
  imports AuditLog
begin

text \<open>
  The console's change stream (\<open>app/api/stream.py\<close>): the cursor and its text, one poll of the
  tables, and what a connection delivers. Shown: a cursor's text gives the cursor back, a
  connection delivers every audit row of its tenant once and in order however many rows come in
  between the polls, and a client that reconnects with the last id it got misses none.
\<close>

section \<open>Cursors\<close>

record cursor =
  cu_audit :: nat
  cu_llm :: nat
  cu_tool :: nat

definition cursor_text :: "cursor \<Rightarrow> string" where
  "cursor_text c = dec (cu_audit c) @ ''.'' @ dec (cu_llm c) @ ''.'' @ dec (cu_tool c)"

text \<open>\<open>s.split(c)\<close> for a one-character separator.\<close>

fun split_at :: "char \<Rightarrow> string \<Rightarrow> string list" where
  "split_at sep [] = [[]]"
| "split_at sep (c # s) =
     (if c = sep then [] # split_at sep s
      else case split_at sep s of p # ps \<Rightarrow> (c # p) # ps | [] \<Rightarrow> [[c]])"

text \<open>\<open>Cursor.parse\<close>: another number of parts than three is a \<open>ValueError\<close> too.\<close>

definition cursor_parse :: "string option \<Rightarrow> cursor option" where
  "cursor_parse value =
     (case map py_int (split_at CHR ''.'' (case value of None \<Rightarrow> [] | Some v \<Rightarrow> v)) of
        [Some a, Some m, Some t] \<Rightarrow>
          (if 0 \<le> min a (min m t) then Some \<lparr>cu_audit = nat a, cu_llm = nat m, cu_tool = nat t\<rparr> else None)
      | _ \<Rightarrow> None)"

section \<open>One poll\<close>

definition BATCH :: nat where
  "BATCH = 500"

definition max_or_zero :: "nat list \<Rightarrow> nat" where
  "max_or_zero ns = foldr max ns 0"

text \<open>\<open>now\<close>: where a client without an id starts.\<close>

definition stream_now :: "db \<Rightarrow> string \<Rightarrow> cursor" where
  "stream_now d tenant_id =
     \<lparr>cu_audit = max_or_zero (map a_seq (filter (\<lambda>a. a_tenant a = Some tenant_id) (audit_log d))),
      cu_llm = max_or_zero (map l_id (filter (\<lambda>l. l_tenant l = tenant_id) (llm_calls d))),
      cu_tool = max_or_zero (map t_id (filter (\<lambda>t. t_tenant t = tenant_id) (tool_calls d)))\<rparr>"

datatype change =
    AuditChange audit_row
  | ActivityChange string "string list"

text \<open>\<open>WHERE tenant_id = :t AND key > :since ORDER BY key LIMIT :n\<close>.\<close>

definition rows_after :: "('a \<Rightarrow> nat) \<Rightarrow> ('a \<Rightarrow> bool) \<Rightarrow> nat \<Rightarrow> 'a list \<Rightarrow> 'a list" where
  "rows_after key mine since rows = sort_key key (filter (\<lambda>r. mine r \<and> since < key r) rows)"

definition last_key :: "('a \<Rightarrow> nat) \<Rightarrow> nat \<Rightarrow> 'a list \<Rightarrow> nat" where
  "last_key key since rows = (if rows = [] then since else key (last rows))"

definition audit_batch :: "db \<Rightarrow> string \<Rightarrow> nat \<Rightarrow> audit_row list" where
  "audit_batch d tenant_id since =
     take BATCH (rows_after a_seq (\<lambda>a. a_tenant a = Some tenant_id) since (audit_log d))"

definition llm_batch :: "db \<Rightarrow> string \<Rightarrow> nat \<Rightarrow> llm_call_row list" where
  "llm_batch d tenant_id since = take BATCH (rows_after l_id (\<lambda>l. l_tenant l = tenant_id) since (llm_calls d))"

definition tool_batch :: "db \<Rightarrow> string \<Rightarrow> nat \<Rightarrow> tool_call_row list" where
  "tool_batch d tenant_id since = take BATCH (rows_after t_id (\<lambda>t. t_tenant t = tenant_id) since (tool_calls d))"

text \<open>The agents that took a step, by incident; a call outside of an incident is left out.\<close>

definition steps_taken :: "llm_call_row list \<Rightarrow> tool_call_row list \<Rightarrow> (string \<times> string) list" where
  "steps_taken ls ts =
     List.map_filter (\<lambda>l. map_option (\<lambda>i. (i, l_agent l)) (l_incident l)) ls @
     List.map_filter (\<lambda>t. map_option (\<lambda>i. (i, case t_agent t of None \<Rightarrow> '''' | Some a \<Rightarrow> a)) (t_incident t)) ts"

definition activity :: "(string \<times> string) list \<Rightarrow> (string \<times> string list) list" where
  "activity steps =
     map (\<lambda>i. (i, sorted_set (filter (\<lambda>a. a \<noteq> '''') (map snd (filter (\<lambda>s. fst s = i) steps)))))
       (sorted_set (map fst steps))"

text \<open>
  \<open>changes\<close>: what happened, each change with the cursor to resume from, and the new cursor. The
  three queries see one database; what is committed between them is as if it came after the poll.
\<close>

definition changes_since :: "db \<Rightarrow> string \<Rightarrow> cursor \<Rightarrow> (change \<times> cursor) list \<times> cursor" where
  "changes_since d tenant_id since =
     (let audits = audit_batch d tenant_id (cu_audit since);
          ls = llm_batch d tenant_id (cu_llm since);
          ts = tool_batch d tenant_id (cu_tool since);
          after = \<lparr>cu_audit = last_key a_seq (cu_audit since) audits, cu_llm = last_key l_id (cu_llm since) ls,
                   cu_tool = last_key t_id (cu_tool since) ts\<rparr>
      in (map (\<lambda>a. (AuditChange a, since\<lparr>cu_audit := a_seq a\<rparr>)) audits @
          map (\<lambda>(i, agents). (ActivityChange i agents, after)) (activity (steps_taken ls ts)), after))"

section \<open>A connection\<close>

text \<open>
  \<open>events\<close>: the start from the client's id or from now, then one poll after another; \<open>dbs k\<close> is
  the database poll \<open>k\<close> sees. Pings and the time limit only decide how many polls there are.
\<close>

definition stream_start :: "db \<Rightarrow> string \<Rightarrow> string option \<Rightarrow> cursor" where
  "stream_start d tenant_id last_event_id =
     (case cursor_parse last_event_id of Some c \<Rightarrow> c | None \<Rightarrow> stream_now d tenant_id)"

fun stream_polls :: "(nat \<Rightarrow> db) \<Rightarrow> string \<Rightarrow> nat \<Rightarrow> nat \<Rightarrow> cursor \<Rightarrow> (change \<times> cursor) list \<times> cursor" where
  "stream_polls dbs tenant_id k 0 c = ([], c)"
| "stream_polls dbs tenant_id k (Suc n) c =
     (let (found, c1) = changes_since (dbs k) tenant_id c;
          (rest, c2) = stream_polls dbs tenant_id (k + 1) n c1
      in (found @ rest, c2))"

definition audit_rows_of :: "(change \<times> cursor) list \<Rightarrow> audit_row list" where
  "audit_rows_of cs = List.map_filter (\<lambda>(ch, c). case ch of AuditChange a \<Rightarrow> Some a | _ \<Rightarrow> None) cs"

section \<open>The text of a cursor\<close>

lemma split_at_piece: "sep \<notin> set p \<Longrightarrow> split_at sep (p @ sep # s) = p # split_at sep s"
  by (induction p) auto

lemma split_at_none: "sep \<notin> set p \<Longrightarrow> split_at sep p = [p]"
  by (induction p) auto

lemma no_dot: "CHR ''.'' \<notin> set (dec n)"
  using dec_digits [of "CHR ''.''" n] by (auto simp: is_digit_def)

lemma py_digits_dec: "\<forall>c \<in> set s. is_digit c \<Longrightarrow> py_digits n s = Some (foldl (\<lambda>n c. n * 10 + digit c) n s)"
  by (induction n s rule: py_digits.induct) auto

lemma dropWhile_id: "xs \<noteq> [] \<Longrightarrow> \<not> P (hd xs) \<Longrightarrow> dropWhile P xs = xs"
  by (cases xs) auto

lemma digit_no_space: "is_digit c \<Longrightarrow> \<not> is_space c"
  by (auto simp: is_digit_def is_space_def)

lemma py_int_dec: "py_int (dec n) = Some (int n)"
proof -
  have d: "\<forall>c \<in> set (dec n). is_digit c" using dec_digits by blast
  have "is_digit (hd (dec n))" "is_digit (hd (rev (dec n)))"
    using d dec_nonempty by (auto simp: hd_rev)
  then have "strip (dec n) = dec n"
    unfolding strip_def by (simp add: dropWhile_id digit_no_space)
  moreover obtain c r where cr: "dec n = c # r" using dec_nonempty by (meson neq_Nil_conv)
  moreover have "is_digit c" using d cr by simp
  moreover have "py_digits 0 (c # r) = Some n"
    using py_digits_dec [OF d, of 0] undec_dec [of n] by (simp add: undec_def cr)
  moreover have "c \<noteq> CHR ''-''" "c \<noteq> CHR ''+''" using \<open>is_digit c\<close> by (auto simp: is_digit_def)
  ultimately show ?thesis by (simp add: py_int_def)
qed

lemma cursor_parse_text: "cursor_parse (Some (cursor_text c)) = Some c"
proof -
  have "split_at CHR ''.'' (cursor_text c) = [dec (cu_audit c), dec (cu_llm c), dec (cu_tool c)]"
    by (simp add: cursor_text_def split_at_piece split_at_none no_dot)
  then show ?thesis by (simp add: cursor_parse_def py_int_dec)
qed

section \<open>Nothing is lost\<close>

text \<open>A log that is only appended to, in the order of its numbers.\<close>

definition log_grows :: "audit_row list \<Rightarrow> audit_row list \<Rightarrow> bool" where
  "log_grows as as' \<longleftrightarrow> (\<exists>new. as' = as @ new \<and> (\<forall>a \<in> set as. \<forall>b \<in> set new. a_seq a < a_seq b))"

definition tenant_rows :: "db \<Rightarrow> string \<Rightarrow> nat \<Rightarrow> audit_row list" where
  "tenant_rows d tenant_id since = filter (\<lambda>a. a_tenant a = Some tenant_id \<and> since < a_seq a) (audit_log d)"

lemma tenant_rows_above: "s \<le> t \<Longrightarrow> tenant_rows d tn t = filter (\<lambda>x. t < a_seq x) (tenant_rows d tn s)"
  unfolding tenant_rows_def filter_filter by (rule filter_cong) auto

lemma sorted_key_filter: "sorted_wrt (<) (map key rows) \<Longrightarrow> sort_key key (filter p rows) = filter p (rows :: 'a list)" for key :: "'a \<Rightarrow> nat"
proof -
  assume "sorted_wrt (<) (map key rows)"
  then have "sorted (map key rows)" by (rule strict_sorted_imp_sorted)
  then show ?thesis by (intro sort_key_id_if_sorted sorted_filter)
qed

lemma rows_after_sorted:
  "sorted_wrt (<) (map a_seq (audit_log d)) \<Longrightarrow>
     rows_after a_seq (\<lambda>a. a_tenant a = Some tenant_id) since (audit_log d) = tenant_rows d tenant_id since"
  by (simp add: rows_after_def tenant_rows_def sorted_key_filter)

text \<open>Cutting a sorted list after its \<open>n\<close>-th element is taking what is above that element.\<close>

lemma drop_is_above:
  "sorted_wrt (<) (map key xs) \<Longrightarrow> 0 < n \<Longrightarrow> n \<le> length xs \<Longrightarrow> filter (\<lambda>x. key (xs ! (n - 1)) < key x) xs = drop n xs"
  for key :: "'a \<Rightarrow> nat"
proof -
  assume s: "sorted_wrt (<) (map key xs)" and n: "0 < n" "n \<le> length xs"
  have "filter (\<lambda>x. key (xs ! (n - 1)) < key x) (take n xs) = []"
  proof -
    have "\<not> key (xs ! (n - 1)) < key x" if x: "x \<in> set (take n xs)" for x
    proof -
      from x obtain i where "i < n" "i < length xs" "x = xs ! i" by (auto simp: in_set_conv_nth)
      then consider "i = n - 1" | "i < n - 1" by linarith
      then show ?thesis
      proof cases
        case 2
        moreover have "n - 1 < length xs" using n by simp
        ultimately show ?thesis
          using sorted_wrt_nth_less [OF s, of i "n - 1"] \<open>x = xs ! i\<close> by simp
      qed (simp add: \<open>x = xs ! i\<close>)
    qed
    then show ?thesis by (simp add: filter_empty_conv)
  qed
  moreover have "filter (\<lambda>x. key (xs ! (n - 1)) < key x) (drop n xs) = drop n xs"
  proof -
    have "key (xs ! (n - 1)) < key x" if x: "x \<in> set (drop n xs)" for x
    proof -
      from x obtain i where "i < length (drop n xs)" "x = drop n xs ! i" by (auto simp: in_set_conv_nth)
      then have i: "n + i < length xs" "x = xs ! (n + i)" by simp_all
      have "n - 1 < n + i" using n by linarith
      with i n sorted_wrt_nth_less [OF s, of "n - 1" "n + i"] show ?thesis by simp
    qed
    then show ?thesis by (simp add: filter_id_conv)
  qed
  moreover have "xs = take n xs @ drop n xs" by simp
  ultimately show "filter (\<lambda>x. key (xs ! (n - 1)) < key x) xs = drop n xs" by (metis append_Nil filter_append)
qed

lemma map_filter_map_Some: "List.map_filter f (map g xs) = List.map_filter (f \<circ> g) xs"
  by (induction xs) (auto simp: map_filter_simps split: option.splits)

lemma audit_rows_simps [simp]:
  "audit_rows_of (xs @ ys) = audit_rows_of xs @ audit_rows_of ys"
  "audit_rows_of (map (\<lambda>a. (AuditChange a, f a)) as) = as"
  "audit_rows_of (map (\<lambda>(i, agents). (ActivityChange i agents, c)) acts) = []"
proof -
  show "audit_rows_of (xs @ ys) = audit_rows_of xs @ audit_rows_of ys"
    unfolding audit_rows_of_def by (induction xs) (auto simp: map_filter_simps split: option.splits)
  show "audit_rows_of (map (\<lambda>a. (AuditChange a, f a)) as) = as"
    by (induction as) (simp_all add: audit_rows_of_def map_filter_simps)
  show "audit_rows_of (map (\<lambda>(i, agents). (ActivityChange i agents, c)) acts) = []"
    by (induction acts) (auto simp: audit_rows_of_def map_filter_simps)
qed

lemma audit_rows_cons: "audit_rows_of ((AuditChange a, x) # cs) = a # audit_rows_of cs"
  by (simp add: audit_rows_of_def map_filter_simps)

text \<open>One poll: what it delivers is the front of what was due, and the cursor is behind it.\<close>

lemma poll_delivers:
  assumes "changes_since d tn c = (found, c')" "sorted_wrt (<) (map a_seq (audit_log d))"
  shows "audit_rows_of found = take BATCH (tenant_rows d tn (cu_audit c))"
    and "tenant_rows d tn (cu_audit c') = drop BATCH (tenant_rows d tn (cu_audit c))"
    and "c' = c \<lparr>cu_llm := cu_llm c', cu_tool := cu_tool c'\<rparr> \<or> (\<exists>a \<in> set (audit_log d). cu_audit c' = a_seq a \<and> cu_audit c < a_seq a)"
    and "\<forall>(ch, x) \<in> set found. \<forall>a. ch = AuditChange a \<longrightarrow> cu_audit x = a_seq a"
proof -
  let ?rows = "tenant_rows d tn (cu_audit c)"
  have b: "audit_batch d tn (cu_audit c) = take BATCH ?rows" using assms(2) by (simp add: audit_batch_def rows_after_sorted)
  from assms(1) show f: "audit_rows_of found = take BATCH ?rows" by (auto simp: changes_since_def Let_def b)
  from assms(1) have c': "cu_audit c' = last_key a_seq (cu_audit c) (take BATCH ?rows)" by (auto simp: changes_since_def Let_def b)
  have s: "sorted_wrt (<) (map a_seq ?rows)"
    using assms(2) unfolding tenant_rows_def by (simp add: sorted_wrt_map sorted_wrt_filter)
  have mem: "set ?rows \<subseteq> set (audit_log d)" "\<forall>a \<in> set ?rows. cu_audit c < a_seq a" by (auto simp: tenant_rows_def)
  have B: "0 < BATCH" by (simp add: BATCH_def)
  have "tenant_rows d tn (cu_audit c') = drop BATCH ?rows \<and>
      (c' = c \<lparr>cu_llm := cu_llm c', cu_tool := cu_tool c'\<rparr> \<or> (\<exists>a \<in> set (audit_log d). cu_audit c' = a_seq a \<and> cu_audit c < a_seq a))"
  proof (cases "?rows = []")
    case True
    then show ?thesis using c' by (simp add: last_key_def)
  next
    case False
    let ?n = "min BATCH (length ?rows)" and ?a = "last (take BATCH ?rows)"
    have n: "0 < ?n" "?n \<le> length ?rows" "?a = ?rows ! (?n - 1)" using False B by (auto simp: last_conv_nth min_def)
    have a: "cu_audit c' = a_seq ?a" using False B c' by (auto simp: last_key_def)
    have "?n - 1 < length ?rows" using n(1,2) by linarith
    then have "?a \<in> set ?rows" unfolding n(3) by (rule nth_mem)
    note a = a this
    have "tenant_rows d tn (cu_audit c') = filter (\<lambda>x. a_seq ?a < a_seq x) ?rows"
      unfolding a(1) by (rule tenant_rows_above) (use bspec [OF mem(2) a(2)] in simp)
    also have "\<dots> = drop ?n ?rows" unfolding n(3) by (rule drop_is_above [OF s n(1,2)])
    also have "\<dots> = drop BATCH ?rows" by (simp add: min_def)
    finally show ?thesis using a mem by blast
  qed
  then show "tenant_rows d tn (cu_audit c') = drop BATCH ?rows"
    "c' = c \<lparr>cu_llm := cu_llm c', cu_tool := cu_tool c'\<rparr> \<or> (\<exists>a \<in> set (audit_log d). cu_audit c' = a_seq a \<and> cu_audit c < a_seq a)"
    by simp_all
  from assms(1) show "\<forall>(ch, x) \<in> set found. \<forall>a. ch = AuditChange a \<longrightarrow> cu_audit x = a_seq a"
    by (auto simp: changes_since_def Let_def)
qed

lemma log_grows_refl: "log_grows as as"
  by (simp add: log_grows_def)

lemma log_grows_trans: "log_grows a b \<Longrightarrow> log_grows b c \<Longrightarrow> log_grows a c"
  unfolding log_grows_def by fastforce

lemma log_grows_chain:
  assumes "\<And>k. log_grows (audit_log (dbs k)) (audit_log (dbs (Suc k)))" "i \<le> j"
  shows "log_grows (audit_log (dbs i)) (audit_log (dbs j))"
  using assms(2) by (induction rule: dec_induct) (auto intro: log_grows_refl log_grows_trans assms(1))

lemma log_grows_sorted: "log_grows as as' \<Longrightarrow> sorted_wrt (<) (map a_seq as') \<Longrightarrow> sorted_wrt (<) (map a_seq as)"
  by (auto simp: log_grows_def sorted_wrt_append)

text \<open>Any number of polls, with rows coming in between.\<close>

lemma polls_deliver:
  assumes "\<And>k. log_grows (audit_log (dbs k)) (audit_log (dbs (Suc k)))" "sorted_wrt (<) (map a_seq (audit_log (dbs m)))"
    and "stream_polls dbs tn k n c = (found, c')" "k + n \<le> m"
  shows "audit_rows_of found @ tenant_rows (dbs m) tn (cu_audit c') = tenant_rows (dbs m) tn (cu_audit c) \<and>
    (\<forall>(ch, x) \<in> set found. \<forall>a. ch = AuditChange a \<longrightarrow> cu_audit x = a_seq a)"
  using assms(3,4)
proof (induction n arbitrary: k c found)
  case (Suc n)
  obtain f1 c1 f2 where f: "changes_since (dbs k) tn c = (f1, c1)" "stream_polls dbs tn (k + 1) n c1 = (f2, c')" "found = f1 @ f2"
    using Suc.prems(1) by (auto simp: Let_def split: prod.splits)
  have ih: "audit_rows_of f2 @ tenant_rows (dbs m) tn (cu_audit c') = tenant_rows (dbs m) tn (cu_audit c1)"
    "\<forall>(ch, x) \<in> set f2. \<forall>a. ch = AuditChange a \<longrightarrow> cu_audit x = a_seq a"
    using Suc.IH [OF f(2)] Suc.prems(2) by simp_all
  have g: "log_grows (audit_log (dbs k)) (audit_log (dbs m))" using log_grows_chain [of dbs k m, OF assms(1)] Suc.prems(2) by simp
  then obtain new where new: "audit_log (dbs m) = audit_log (dbs k) @ new"
    "\<forall>a \<in> set (audit_log (dbs k)). \<forall>b \<in> set new. a_seq a < a_seq b" by (auto simp: log_grows_def)
  note p = poll_delivers [OF f(1) log_grows_sorted [OF g assms(2)]]
  let ?new = "\<lambda>s. filter (\<lambda>a. a_tenant a = Some tn \<and> s < a_seq a) new"
  have split: "tenant_rows (dbs m) tn s = tenant_rows (dbs k) tn s @ ?new s" for s by (simp add: tenant_rows_def new(1))
  have "?new (cu_audit c1) = ?new (cu_audit c)"
  proof (cases "cu_audit c1 = cu_audit c")
    case False
    with p(3) obtain a where "a \<in> set (audit_log (dbs k))" "cu_audit c1 = a_seq a" "cu_audit c < a_seq a"
      by (auto dest: arg_cong [of _ _ cu_audit])
    with new(2) show ?thesis by (intro filter_cong) (auto intro: less_trans)
  qed simp
  with p(1,2) have "audit_rows_of f1 @ tenant_rows (dbs m) tn (cu_audit c1) = tenant_rows (dbs m) tn (cu_audit c)"
    unfolding split by simp
  with ih p(4) show ?case by (auto simp: f(3))
qed (simp add: audit_rows_of_def map_filter_simps)

text \<open>A client cut off after any event it got, that comes back with that event's id.\<close>

lemma resume_after:
  assumes "sorted_wrt (<) (map a_seq (audit_log d))" "tenant_rows d tn s = xs @ a # ys"
  shows "tenant_rows d tn (a_seq a) = ys"
proof -
  let ?rows = "tenant_rows d tn s"
  have st: "sorted_wrt (<) (map a_seq ?rows)" using assms(1) unfolding tenant_rows_def by (simp add: sorted_wrt_map sorted_wrt_filter)
  have "a \<in> set ?rows" by (simp add: assms(2))
  then have "s < a_seq a" by (simp add: tenant_rows_def)
  then have "tenant_rows d tn (a_seq a) = filter (\<lambda>x. a_seq a < a_seq x) ?rows"
    by (intro tenant_rows_above) simp
  also have "a = ?rows ! (Suc (length xs) - 1)" by (simp add: assms(2))
  then have "filter (\<lambda>x. a_seq a < a_seq x) ?rows = drop (Suc (length xs)) ?rows"
    using drop_is_above [OF st, of "Suc (length xs)"] by (simp add: assms(2))
  also have "\<dots> = ys" by (simp add: assms(2))
  finally show ?thesis .
qed

text \<open>A backlog drains: 500 rows a poll.\<close>

lemma polls_drain:
  assumes "\<And>k. audit_log (dbs k) = audit_log d" "sorted_wrt (<) (map a_seq (audit_log d))"
    and "stream_polls dbs tn k n c = (found, c')"
  shows "length (tenant_rows d tn (cu_audit c')) = length (tenant_rows d tn (cu_audit c)) - BATCH * n"
  using assms(3)
proof (induction n arbitrary: k c found)
  case (Suc n)
  obtain f1 c1 f2 where f: "changes_since (dbs k) tn c = (f1, c1)" "stream_polls dbs tn (k + 1) n c1 = (f2, c')"
    using Suc.prems by (auto simp: Let_def split: prod.splits)
  have "tenant_rows d tn (cu_audit c1) = drop BATCH (tenant_rows d tn (cu_audit c))"
    using poll_delivers(2) [OF f(1)] assms(1,2) by (simp add: tenant_rows_def)
  with Suc.IH [OF f(2)] show ?case by simp
qed simp

end
