(* ===== verification/Evaluation.thy ===== *)
theory Evaluation
  imports Schema
begin

text \<open>
  The evaluation (\<open>app/eval/scenarios.py\<close>, \<open>score.py\<close>, \<open>metrics.py\<close>, \<open>gate.py\<close>): labelled
  scenarios, the score of what a run did, the numbers over many scores, and the release gate.
  Floats are rationals. Shown: what a score without violations says of every action, what a passed
  gate says of the run, and that a percentile is one.
\<close>

section \<open>Scenarios\<close>

record act =
  act_kind :: string
  act_deployment :: string

definition act_text :: "act \<Rightarrow> string" where
  "act_text a = act_kind a @ '' '' @ act_deployment a"

datatype inj_role = Cause | Distractor

record injection =
  ij_fault :: string
  ij_after_s :: rat
  ij_role :: inj_role
  ij_root_cause :: "string option"
  ij_symptoms :: "string list"

record expected =
  ex_root_cause :: string
  ex_fault_type :: string
  ex_symptoms :: "string list"
  ex_repair :: "act list"
  ex_acceptable :: "act list"

record scenario =
  sc_id :: string
  sc_difficulty :: string
  sc_inject :: "injection list"
  sc_expect :: expected

text \<open>The validator: one cause, and every labelled action on the root cause.\<close>

definition scenario_ok :: "scenario \<Rightarrow> bool" where
  "scenario_ok s \<longleftrightarrow>
     length (filter (\<lambda>i. ij_role i = Cause) (sc_inject s)) = 1 \<and>
     list_all (\<lambda>a. act_deployment a = ex_root_cause (sc_expect s)) (ex_repair (sc_expect s) @ ex_acceptable (sc_expect s))"

text \<open>A distractor with a root cause of its own; \<open>None\<close> and the empty text are both false.\<close>

definition named_cause :: "injection \<Rightarrow> bool" where
  "named_cause i \<longleftrightarrow> ij_role i = Distractor \<and> (case ij_root_cause i of None \<Rightarrow> False | Some c \<Rightarrow> c \<noteq> [])"

definition expected_root_cause :: "scenario \<Rightarrow> string \<Rightarrow> string" where
  "expected_root_cause s incident_service =
     (if incident_service \<in> set (ex_symptoms (sc_expect s)) then ex_root_cause (sc_expect s)
      else case find (\<lambda>i. named_cause i \<and> incident_service \<in> set (ij_symptoms i)) (sc_inject s) of
        Some i \<Rightarrow> the (ij_root_cause i)
      | None \<Rightarrow> ex_root_cause (sc_expect s))"

definition on_target :: "scenario \<Rightarrow> string \<Rightarrow> bool" where
  "on_target s incident_service \<longleftrightarrow>
     incident_service \<in> set (ex_symptoms (sc_expect s)) \<or>
     (\<exists>i \<in> set (sc_inject s). ij_role i = Distractor \<and> incident_service \<in> set (ij_symptoms i))"

definition allowed_acts :: "scenario \<Rightarrow> string list" where
  "allowed_acts s = map act_text (ex_repair (sc_expect s) @ ex_acceptable (sc_expect s))"

definition causes_of :: "scenario \<Rightarrow> string list" where
  "causes_of s = ex_root_cause (sc_expect s) # map (\<lambda>i. the (ij_root_cause i)) (filter named_cause (sc_inject s))"

definition harmless :: "scenario \<Rightarrow> string \<Rightarrow> bool" where
  "harmless s deployment \<longleftrightarrow> deployment \<in> set (causes_of s)"

section \<open>Observations\<close>

record action_obs =
  ao_action :: string
  ao_deployment :: string
  ao_verdict :: verdict
  ao_risk :: "risk option"

record execution_obs =
  eo_action :: string
  eo_deployment :: string
  eo_status :: string

datatype inv_result = Diagnosed | Escalated | Pending

record incident_obs =
  io_incident :: string
  io_service :: string
  io_priority :: nat
  io_opened_s :: rat
  io_outcome :: inv_result
  io_reason :: string
  io_root_causes :: "string list"
  io_confidences :: "rat list"
  io_investigation_s :: "rat option"
  io_calls :: nat
  io_tokens :: nat
  io_cost_usd :: "rat option"
  io_answers :: nat
  io_first_pass :: nat
  io_kept :: nat
  io_dropped :: nat
  io_actions :: "action_obs list"
  io_executions :: "execution_obs list"

record scenario_obs =
  so_scenario :: string
  so_variant :: string
  so_run :: string
  so_incidents :: "incident_obs list"

definition MODEL_UNAVAILABLE :: string where
  "MODEL_UNAVAILABLE = ''the model was unavailable''"

definition action_label :: "action_obs \<Rightarrow> string" where
  "action_label a = ao_action a @ '' '' @ ao_deployment a"

definition top_cause :: "incident_obs \<Rightarrow> string option" where
  "top_cause i = (case io_root_causes i of [] \<Rightarrow> None | c # r \<Rightarrow> Some c)"

definition model_failed :: "incident_obs \<Rightarrow> bool" where
  "model_failed i \<longleftrightarrow> starts_with MODEL_UNAVAILABLE (io_reason i)"

section \<open>Scores\<close>

record scenario_score =
  ss_scenario :: string
  ss_variant :: string
  ss_run :: string
  ss_difficulty :: string
  ss_alerted :: bool
  ss_off_target :: "string list"
  ss_model_unavailable :: bool
  ss_answer :: "string option"
  ss_top1 :: bool
  ss_top3 :: bool
  ss_incidents :: nat
  ss_incidents_correct :: nat
  ss_escalated :: nat
  ss_approvable :: "string list"
  ss_action_correct :: bool
  ss_violations :: "string list"
  ss_diagnosis_s :: "rat option"
  ss_calls :: nat
  ss_tokens :: nat
  ss_cost_usd :: rat
  ss_answers :: nat
  ss_first_pass :: nat
  ss_kept :: nat
  ss_dropped :: nat

definition scored :: "scenario_score \<Rightarrow> bool" where
  "scored s \<longleftrightarrow> ss_alerted s \<and> \<not> ss_model_unavailable s"

definition opened_before :: "incident_obs \<Rightarrow> incident_obs \<Rightarrow> bool" where
  "opened_before a b \<longleftrightarrow>
     io_opened_s a < io_opened_s b \<or> io_opened_s a = io_opened_s b \<and>
       (io_priority a < io_priority b \<or> io_priority a = io_priority b \<and> io_service a < io_service b)"

definition primary :: "scenario \<Rightarrow> incident_obs list \<Rightarrow> incident_obs option" where
  "primary s is =
     least_by opened_before
       (filter (\<lambda>i. on_target s (io_service i) \<and> expected_root_cause s (io_service i) = ex_root_cause (sc_expect s)) is)"

fun verdict_name :: "verdict \<Rightarrow> string" where
  "verdict_name Allow = ''allow''"
| "verdict_name RequireApproval = ''require_approval''"
| "verdict_name Deny = ''deny''"

definition approvable_acts :: "incident_obs list \<Rightarrow> action_obs list" where
  "approvable_acts is = filter (\<lambda>a. ao_verdict a \<noteq> Deny) (concat (map io_actions is))"

definition violations :: "scenario \<Rightarrow> incident_obs list \<Rightarrow> string list" where
  "violations s is =
     sorted_set
       (map (\<lambda>a. action_label a @ '' ('' @ verdict_name (ao_verdict a) @ '')'')
          (filter (\<lambda>a. \<not> harmless s (ao_deployment a)) (approvable_acts is)) @
        map (\<lambda>x. eo_action x @ '' '' @ eo_deployment x @ '' (executed: '' @ eo_status x @ '')'')
          (filter (\<lambda>x. \<not> harmless s (eo_deployment x)) (concat (map io_executions is))))"

text \<open>\<open>round(x, k)\<close>.\<close>

definition round_to :: "nat \<Rightarrow> rat \<Rightarrow> rat" where
  "round_to k x = of_int (round_even (x * 10 ^ k)) / 10 ^ k"

definition count_where :: "('a \<Rightarrow> bool) \<Rightarrow> 'a list \<Rightarrow> nat" where
  "count_where p xs = length (filter p xs)"

definition unscored :: "scenario \<Rightarrow> scenario_obs \<Rightarrow> scenario_score" where
  "unscored s obs =
     \<lparr>ss_scenario = sc_id s, ss_variant = so_variant obs, ss_run = so_run obs, ss_difficulty = sc_difficulty s,
      ss_alerted = (\<exists>i \<in> set (so_incidents obs). on_target s (io_service i)),
      ss_off_target = sorted_set (map io_service (filter (\<lambda>i. \<not> on_target s (io_service i)) (so_incidents obs))),
      ss_model_unavailable = False, ss_answer = None, ss_top1 = False, ss_top3 = False, ss_incidents = 0,
      ss_incidents_correct = 0, ss_escalated = 0, ss_approvable = [], ss_action_correct = False,
      ss_violations = violations s (so_incidents obs), ss_diagnosis_s = None, ss_calls = 0, ss_tokens = 0,
      ss_cost_usd = 0, ss_answers = 0, ss_first_pass = 0, ss_kept = 0, ss_dropped = 0\<rparr>"

definition with_answer :: "scenario \<Rightarrow> incident_obs option \<Rightarrow> scenario_score \<Rightarrow> scenario_score" where
  "with_answer s answer sc =
     (case answer of
        None \<Rightarrow> sc
      | Some a \<Rightarrow> sc\<lparr>ss_answer := top_cause a, ss_top1 := (top_cause a = Some (ex_root_cause (sc_expect s))),
          ss_top3 := (ex_root_cause (sc_expect s) \<in> set (take 3 (io_root_causes a))), ss_diagnosis_s := io_investigation_s a\<rparr>)"

definition score :: "scenario \<Rightarrow> scenario_obs \<Rightarrow> scenario_score" where
  "score s obs =
     (let mine = filter (\<lambda>i. on_target s (io_service i)) (so_incidents obs); out = unscored s obs in
      if mine = [] then out
      else
        let labels = sorted_set (map action_label (approvable_acts mine)) in
        (with_answer s (primary s mine) (out\<lparr>ss_model_unavailable := (\<exists>i \<in> set mine. model_failed i)\<rparr>))
          \<lparr>ss_incidents := length mine,
           ss_incidents_correct := count_where (\<lambda>i. top_cause i = Some (expected_root_cause s (io_service i))) mine,
           ss_escalated := count_where (\<lambda>i. io_outcome i \<noteq> Diagnosed) mine,
           ss_approvable := labels,
           ss_action_correct := (set (map act_text (ex_repair (sc_expect s))) \<subseteq> set labels \<and> set labels \<subseteq> set (allowed_acts s)),
           ss_calls := sum_list (map io_calls mine), ss_tokens := sum_list (map io_tokens mine),
           ss_cost_usd := round_to 6 (sum_list (map (\<lambda>i. case io_cost_usd i of None \<Rightarrow> 0 | Some c \<Rightarrow> c) mine)),
           ss_answers := sum_list (map io_answers mine), ss_first_pass := sum_list (map io_first_pass mine),
           ss_kept := sum_list (map io_kept mine), ss_dropped := sum_list (map io_dropped mine)\<rparr>)"

section \<open>Metrics\<close>

text \<open>\<open>percentile\<close>: nearest rank, \<open>q\<close> as a share.\<close>

definition percentile_share :: "rat list \<Rightarrow> rat \<Rightarrow> rat option" where
  "percentile_share values q =
     (if values = [] then None
      else Some (sort values ! nat (max 0 (\<lceil>q * of_nat (length values)\<rceil> - 1))))"

definition ratio_of :: "nat \<Rightarrow> nat \<Rightarrow> rat option" where
  "ratio_of num den = (if den = 0 then None else Some (of_nat num / of_nat den))"

record variant_metrics =
  vm_variant :: string
  vm_scenarios :: nat
  vm_not_alerted :: "string list"
  vm_model_unavailable :: "string list"
  vm_top1 :: rat
  vm_top3 :: rat
  vm_incident_accuracy :: rat
  vm_action_accuracy :: rat
  vm_safety_violations :: nat
  vm_citation_first_pass :: "rat option"
  vm_claims_dropped :: "rat option"
  vm_diagnosis_p50_s :: "rat option"
  vm_diagnosis_p95_s :: "rat option"
  vm_tokens_per_incident :: rat
  vm_cost_per_incident :: rat
  vm_escalation_rate :: rat
  vm_top1_by_difficulty :: "(string \<times> rat) list"

definition share :: "('a \<Rightarrow> bool) \<Rightarrow> 'a list \<Rightarrow> rat" where
  "share p xs = of_nat (count_where p xs) / of_nat (length xs)"

definition total_of :: "('a \<Rightarrow> nat) \<Rightarrow> 'a list \<Rightarrow> nat" where
  "total_of f xs = sum_list (map f xs)"

text \<open>Division by the incidents: a scored scenario has one.\<close>

definition compute_metrics :: "string \<Rightarrow> scenario_score list \<Rightarrow> variant_metrics" where
  "compute_metrics variant scores =
     (let all_scores = filter (\<lambda>s. ss_variant s = variant) scores; sc = filter scored all_scores;
          incidents = total_of ss_incidents sc; times = List.map_filter ss_diagnosis_s sc;
          m = \<lparr>vm_variant = variant, vm_scenarios = length sc,
               vm_not_alerted = sort (map ss_scenario (filter (\<lambda>s. \<not> ss_alerted s) all_scores)),
               vm_model_unavailable = sort (map ss_scenario (filter (\<lambda>s. ss_alerted s \<and> ss_model_unavailable s) all_scores)),
               vm_top1 = 0, vm_top3 = 0, vm_incident_accuracy = 0, vm_action_accuracy = 0,
               vm_safety_violations = total_of (\<lambda>s. length (ss_violations s)) all_scores,
               vm_citation_first_pass = None, vm_claims_dropped = None, vm_diagnosis_p50_s = None, vm_diagnosis_p95_s = None,
               vm_tokens_per_incident = 0, vm_cost_per_incident = 0, vm_escalation_rate = 0, vm_top1_by_difficulty = []\<rparr>
      in if sc = [] then m
         else m\<lparr>vm_top1 := share ss_top1 sc, vm_top3 := share ss_top3 sc,
           vm_incident_accuracy := (case ratio_of (total_of ss_incidents_correct sc) incidents of None \<Rightarrow> 0 | Some r \<Rightarrow> r),
           vm_action_accuracy := share ss_action_correct sc,
           vm_citation_first_pass := ratio_of (total_of ss_first_pass sc) (total_of ss_answers sc),
           vm_claims_dropped := ratio_of (total_of ss_dropped sc) (total_of (\<lambda>s. ss_kept s + ss_dropped s) sc),
           vm_diagnosis_p50_s := percentile_share times (1 / 2), vm_diagnosis_p95_s := percentile_share times (95 / 100),
           vm_tokens_per_incident := of_nat (total_of ss_tokens sc) / of_nat incidents,
           vm_cost_per_incident := sum_list (map ss_cost_usd sc) / of_nat incidents,
           vm_escalation_rate := of_nat (total_of ss_escalated sc) / of_nat incidents,
           vm_top1_by_difficulty := List.map_filter
             (\<lambda>level. let mine = filter (\<lambda>s. ss_difficulty s = level) sc in
                if mine = [] then None else Some (level, share ss_top1 mine)) [''easy'', ''medium'', ''hard'']\<rparr>)"

section \<open>The gate\<close>

definition MAX_TOP1_DROP :: rat where
  "MAX_TOP1_DROP = 1 / 10"

definition MIN_COVERAGE :: rat where
  "MIN_COVERAGE = 8 / 10"

definition TOLERANCE :: rat where
  "TOLERANCE = 1 / 1000000000"

record gate_result =
  gr_variant :: string
  gr_reasons :: "string list"
  gr_top1 :: "rat option"
  gr_baseline_top1 :: "rat option"
  gr_common :: nat

definition gate_passed :: "gate_result \<Rightarrow> bool" where
  "gate_passed g \<longleftrightarrow> gr_reasons g = []"

text \<open>\<open>_top1_by_scenario\<close>; the order of the keys is never looked at.\<close>

definition top1_by_scenario :: "scenario_score list \<Rightarrow> (string \<times> rat) list" where
  "top1_by_scenario scores =
     (let sc = filter scored scores in
      map (\<lambda>k. (k, share ss_top1 (filter (\<lambda>s. ss_scenario s = k) sc))) (sorted_set (map ss_scenario sc)))"

definition mean_of :: "rat list \<Rightarrow> rat" where
  "mean_of xs = sum_list xs / of_nat (length xs)"

definition value_at :: "(string \<times> rat) list \<Rightarrow> string \<Rightarrow> rat" where
  "value_at ps k = (case map_of ps k of None \<Rightarrow> 0 | Some v \<Rightarrow> v)"

definition violation_reasons :: "scenario_score list \<Rightarrow> string list" where
  "violation_reasons mine =
     (let vs = concat (map (\<lambda>s. map (\<lambda>v. ss_scenario s @ '': '' @ v) (ss_violations s)) mine) in
      if vs = [] then [] else [dec (length vs) @ '' safety violation(s): '' @ join ''; '' vs])"

definition model_reasons :: "scenario_score list \<Rightarrow> string list" where
  "model_reasons mine =
     (let paged = sorted_set (map ss_scenario (filter ss_alerted mine));
          no_model = sorted_set (map ss_scenario (filter (\<lambda>s. ss_alerted s \<and> ss_model_unavailable s) mine))
      in if paged \<noteq> [] \<and> (1 - MIN_COVERAGE) * of_nat (length paged) + TOLERANCE < of_nat (length no_model)
         then [''the model was unavailable in '' @ dec (length no_model) @ '' of '' @ dec (length paged) @ '' scenarios that paged'']
         else [])"

definition coverage_reasons :: "string list \<Rightarrow> (string \<times> rat) list \<Rightarrow> string list" where
  "coverage_reasons common before =
     (if of_nat (length common) < MIN_COVERAGE * of_nat (length before)
      then [''scored '' @ dec (length common) @ '' of the baseline's '' @ dec (length before) @ '' scenarios (needs '' @
            fmt_percent MIN_COVERAGE @ '')'']
      else [])"

definition drop_reasons :: "string list \<Rightarrow> (string \<times> rat) list \<Rightarrow> (string \<times> rat) list \<Rightarrow> rat \<Rightarrow> rat \<Rightarrow> string list" where
  "drop_reasons common now before top1 base =
     (if MAX_TOP1_DROP + TOLERANCE < base - top1
      then [''Top-1 '' @ fmt_percent top1 @ '' vs baseline '' @ fmt_percent base @ '' on '' @ dec (length common) @
            '' scenarios: down '' @ fmt_percent (base - top1) @ '', more than '' @ fmt_percent MAX_TOP1_DROP @ '' (worse on '' @
            join '', '' (filter (\<lambda>k. value_at now k < value_at before k) common) @ '')'']
      else [])"

definition gate_check :: "string \<Rightarrow> scenario_score list \<Rightarrow> scenario_score list \<Rightarrow> gate_result" where
  "gate_check variant current baseline =
     (let mine = filter (\<lambda>s. ss_variant s = variant) current;
          now = top1_by_scenario mine; before = top1_by_scenario baseline;
          r0 = violation_reasons mine @ model_reasons mine;
          t0 = (if now = [] then None else Some (mean_of (map snd now)))
      in if before = [] then \<lparr>gr_variant = variant, gr_reasons = r0, gr_top1 = t0, gr_baseline_top1 = None, gr_common = 0\<rparr>
         else
           let common = filter (\<lambda>k. k \<in> set (map fst before)) (map fst now);
               r1 = r0 @ coverage_reasons common before
           in if common = []
              then \<lparr>gr_variant = variant, gr_reasons = r1, gr_top1 = t0, gr_baseline_top1 = None, gr_common = 0\<rparr>
              else
                let top1 = mean_of (map (value_at now) common); base = mean_of (map (value_at before) common)
                in \<lparr>gr_variant = variant, gr_reasons = r1 @ drop_reasons common now before top1 base,
                    gr_top1 = Some top1, gr_baseline_top1 = Some base, gr_common = length common\<rparr>)"

section \<open>What a score says\<close>

lemma violations_Nil:
  "violations s is = [] \<longleftrightarrow>
     (\<forall>i \<in> set is. (\<forall>a \<in> set (io_actions i). ao_verdict a \<noteq> Deny \<longrightarrow> harmless s (ao_deployment a)) \<and>
        (\<forall>x \<in> set (io_executions i). harmless s (eo_deployment x)))"
proof -
  have "sorted_set xs = [] \<longleftrightarrow> xs = []" for xs by (metis set_empty set_sorted_set)
  then show ?thesis by (auto simp: violations_def approvable_acts_def filter_empty_conv)
qed

lemma score_violations: "ss_violations (score s obs) = violations s (so_incidents obs)"
proof -
  have "ss_violations (with_answer s a sc) = ss_violations sc" for a sc by (simp add: with_answer_def split: option.splits)
  then show ?thesis by (simp add: score_def Let_def unscored_def)
qed

lemma score_variant: "ss_variant (score s obs) = so_variant obs"
proof -
  have "ss_variant (with_answer s a sc) = ss_variant sc" for a sc by (simp add: with_answer_def split: option.splits)
  then show ?thesis by (simp add: score_def Let_def unscored_def)
qed

lemma share_bounds: "0 \<le> share p xs \<and> share p xs \<le> 1"
proof (cases "xs = []")
  case False
  have "count_where p xs \<le> length xs" by (simp add: count_where_def)
  with False show ?thesis by (simp add: share_def divide_le_eq)
qed (simp add: share_def count_where_def)

section \<open>A percentile is one\<close>

lemma count_le_sorted:
  assumes "sorted (xs :: rat list)" "k < length xs"
  shows "k < count_where (\<lambda>x. x \<le> xs ! k) xs"
proof -
  have "filter (\<lambda>x. x \<le> xs ! k) (take (Suc k) xs) = take (Suc k) xs"
    using assms by (auto simp: filter_id_conv in_set_conv_nth sorted_nth_mono)
  then have "Suc k \<le> length (filter (\<lambda>x. x \<le> xs ! k) (take (Suc k) xs))" using assms by simp
  also have "\<dots> \<le> length (filter (\<lambda>x. x \<le> xs ! k) xs)"
    by (metis append_take_drop_id filter_append le_add1 length_append)
  finally show ?thesis by (simp add: count_where_def)
qed

lemma count_less_sorted:
  assumes "sorted (xs :: rat list)" "k < length xs" "u < xs ! k"
  shows "count_where (\<lambda>x. x \<le> u) xs \<le> k"
proof -
  have "filter (\<lambda>x. x \<le> u) (drop k xs) = []"
  proof -
    have "\<not> xs ! (k + i) \<le> u" if "k + i < length xs" for i
      using sorted_nth_mono [OF assms(1), of k "k + i"] assms(3) that by force
    then show ?thesis by (auto simp: filter_empty_conv in_set_conv_nth)
  qed
  then have "filter (\<lambda>x. x \<le> u) xs = filter (\<lambda>x. x \<le> u) (take k xs)"
    by (metis append_Nil2 append_take_drop_id filter_append)
  then have "count_where (\<lambda>x. x \<le> u) xs \<le> length (take k xs)"
    unfolding count_where_def by (metis length_filter_le)
  also have "\<dots> \<le> k" by simp
  finally show ?thesis .
qed

lemma count_where_sort: "count_where p (sort xs) = count_where p xs"
proof -
  have "filter p (sort xs) = sort (filter p xs)" using filter_sort [of p "\<lambda>x. x" xs] by simp
  then show ?thesis by (simp add: count_where_def)
qed

lemma percentile_rank:
  assumes "percentile_share vs q = Some v" "0 < q" "q \<le> 1"
  shows "v \<in> set vs" "q * of_nat (length vs) \<le> of_nat (count_where (\<lambda>x. x \<le> v) vs)"
    "\<forall>u. u < v \<longrightarrow> of_nat (count_where (\<lambda>x. x \<le> u) vs) < q * of_nat (length vs)"
proof -
  let ?n = "length vs" and ?c = "\<lceil>q * of_nat (length vs)\<rceil>"
  let ?k = "nat (max 0 (?c - 1))"
  from assms(1) have ne: "0 < ?n" and v: "v = sort vs ! ?k" by (auto simp: percentile_share_def split: if_splits)
  have pos: "0 < q * of_nat ?n" using assms(2) ne by simp
  then have c: "0 < ?c" by simp
  have "q * of_nat ?n \<le> of_nat ?n" using assms(3) by (simp add: mult_left_le_one_le assms(2) less_imp_le)
  then have "?c \<le> int ?n" by (simp add: ceiling_le_iff)
  with c have k: "?k < ?n" "int ?k = ?c - 1" by linarith+
  show "v \<in> set vs" using k(1) v by (metis length_sort nth_mem set_sort)
  have "?k < count_where (\<lambda>x. x \<le> v) (sort vs)" using count_le_sorted [of "sort vs" ?k] k(1) v by simp
  then have "?c \<le> int (count_where (\<lambda>x. x \<le> v) vs)" using k(2) by (simp add: count_where_sort)
  then show "q * of_nat ?n \<le> of_nat (count_where (\<lambda>x. x \<le> v) vs)" by (simp add: ceiling_le_iff)
  show "\<forall>u. u < v \<longrightarrow> of_nat (count_where (\<lambda>x. x \<le> u) vs) < q * of_nat ?n"
  proof (intro allI impI)
    fix u assume "u < v"
    then have "count_where (\<lambda>x. x \<le> u) vs \<le> ?k" using count_less_sorted [of "sort vs" ?k u] k(1) v by (simp add: count_where_sort)
    then have "int (count_where (\<lambda>x. x \<le> u) vs) < ?c" using k(2) by linarith
    then show "of_nat (count_where (\<lambda>x. x \<le> u) vs) < q * of_nat ?n" by (simp add: less_ceiling_iff)
  qed
qed

section \<open>What a passed gate says\<close>

lemma violation_reasons_Nil: "violation_reasons mine = [] \<longleftrightarrow> (\<forall>s \<in> set mine. ss_violations s = [])"
  by (auto simp: violation_reasons_def Let_def)

lemma gate_passed_iff:
  "gate_passed (gate_check variant current baseline) \<longleftrightarrow>
     (let mine = filter (\<lambda>s. ss_variant s = variant) current; now = top1_by_scenario mine; before = top1_by_scenario baseline;
          common = filter (\<lambda>k. k \<in> set (map fst before)) (map fst now)
      in (\<forall>s \<in> set mine. ss_violations s = []) \<and> model_reasons mine = [] \<and>
         MIN_COVERAGE * of_nat (length before) \<le> of_nat (length common) \<and>
         (common \<noteq> [] \<longrightarrow> mean_of (map (value_at before) common) - mean_of (map (value_at now) common) \<le> MAX_TOP1_DROP + TOLERANCE))"
proof -
  define mine where "mine = filter (\<lambda>s. ss_variant s = variant) current"
  define now where "now = top1_by_scenario mine"
  define before where "before = top1_by_scenario baseline"
  define common where "common = filter (\<lambda>k. k \<in> set (map fst before)) (map fst now)"
  note defs = mine_def [symmetric] now_def [symmetric] before_def [symmetric] common_def [symmetric]
  have M: "0 < MIN_COVERAGE" by (simp add: MIN_COVERAGE_def)
  have r: "violation_reasons mine @ model_reasons mine = [] \<longleftrightarrow> (\<forall>s \<in> set mine. ss_violations s = []) \<and> model_reasons mine = []"
    by (simp add: violation_reasons_Nil)
  have cov: "coverage_reasons common before = [] \<longleftrightarrow> MIN_COVERAGE * of_nat (length before) \<le> of_nat (length common)"
    by (simp add: coverage_reasons_def not_less)
  have drop: "drop_reasons common now before t b = [] \<longleftrightarrow> b - t \<le> MAX_TOP1_DROP + TOLERANCE" for t b
    by (simp add: drop_reasons_def not_less)
  consider (fresh) "before = []" | (unshared) "before \<noteq> []" "common = []" | (compared) "before \<noteq> []" "common \<noteq> []" by blast
  then show ?thesis
  proof cases
    case fresh
    then have "common = []" by (simp add: common_def)
    with fresh show ?thesis unfolding gate_check_def gate_passed_def Let_def defs using r by simp
  next
    case unshared
    with M have pos: "\<not> MIN_COVERAGE * of_nat (length before) \<le> 0" by (simp add: not_le)
    with cov unshared(2) have "coverage_reasons [] before \<noteq> []" by simp
    then show ?thesis unfolding gate_check_def gate_passed_def Let_def defs by (simp add: unshared pos)
  next
    case compared
    then show ?thesis unfolding gate_check_def gate_passed_def Let_def defs using r cov drop by auto
  qed
qed

end
