(* ===== verification/SystemScenario.thy ===== *)
theory SystemScenario
  imports AgentScenario System Security EventStream Evaluation
begin

text \<open>
  Concrete inputs for the properties of the whole system: a plan that is allowed at once, a token
  library whose tokens are the claims with the key, a decision by HTTP, and a log that grows
  between two polls.
\<close>

section \<open>A plan that runs\<close>

definition proposal0 :: proposal where
  "proposal0 = \<lparr>pp_plan = Some plan0, pp_error = None\<rparr>"

lemma plan_commit_executes: "ends_in (plan_commit w0 st0 (held0 ''plan'') ''i'' proposal0 (db0 DIAGNOSED [] ''plan''))
    (\<lambda>(u, d). map (\<lambda>r. (i_id r, i_state r)) (incidents d) = [(''i'', EXECUTING)])"
  by code_simp

lemma plan_commit_run:
  obtains d' r where "sys_step\<^sup>*\<^sup>* (db0 DIAGNOSED [] ''plan'') d'" "r \<in> set (incidents d')" "i_id r = ''i''" "i_state r = EXECUTING"
proof -
  from plan_commit_executes obtain u d' where d': "plan_commit w0 st0 (held0 ''plan'') ''i'' proposal0 (db0 DIAGNOSED [] ''plan'') = Inr (u, d')"
    "map (\<lambda>r. (i_id r, i_state r)) (incidents d') = [(''i'', EXECUTING)]"
    by (rule ends_inE) (auto split: prod.splits)
  then obtain r where "r \<in> set (incidents d')" "i_id r = ''i''" "i_state r = EXECUTING" by (cases "incidents d'") auto
  with y_planned [OF d'(1)] that show thesis by blast
qed

lemma db0_system_ok: "system_ok (db0 DIAGNOSED [] ''plan'')"
  by (simp add: system_ok_def db0_def inc0_def incident_ok_def running_states_def)

section \<open>Tokens\<close>

text \<open>A token of this library is its claims and the key they were signed with.\<close>

definition lib0 :: "((string \<times> json) list \<times> string) jwt_lib" where
  "lib0 = \<lparr>jl_encode = (\<lambda>claims key. (claims, key)),
     jl_decode = (\<lambda>opts now key tok.
       if snd tok = key \<and> claims_valid opts now (fst tok) then Inr (fst tok) else Inl ''Signature verification failed''),
     jl_str = (\<lambda>j. case j of JStr s \<Rightarrow> s | _ \<Rightarrow> [])\<rparr>"

lemma lib0_law: "jwt_law lib0"
  by (simp add: jwt_law_def lib0_def)

definition ts0 :: token_settings where
  "ts0 = \<lparr>jwt_secret = Some (replicate 32 CHR ''k''), jwt_issuer = ''sre-blackboard'', jwt_audience = ''sre-blackboard''\<rparr>"

definition token0 :: "string list \<Rightarrow> (string \<times> json) list \<times> string" where
  "token0 roles = (token_claims ts0 ''ann'' ''t'' roles 3600 0, replicate 32 CHR ''k'')"

definition hash64 :: string where
  "hash64 = replicate 64 CHR ''a''"

definition waiting0 :: db where
  "waiting0 = db0 AWAITING_APPROVAL [(plan_row0 RequireApproval)\<lparr>p_hash := hash64\<rparr>] ''plan''"

lemma token_mints: "mint_token lib0 ts0 ''ann'' ''t'' [''approver''] 3600 0 = Inr (token0 [''approver''])"
  by code_simp

lemma request_approves: "ends_in (decide_request lib0 ts0 10 (Some (token0 [''approver''])) w0 st1 ''i'' Approve hash64 '''' waiting0)
    (\<lambda>(s, d). s = EXECUTING)"
  by code_simp

section \<open>A log that grows\<close>

definition audit_row0 :: "nat \<Rightarrow> string \<Rightarrow> audit_row" where
  "audit_row0 n t = \<lparr>a_seq = n, a_ts = 0, a_tenant = Some t, a_actor = ''x'', a_event = ''e'', a_subject = ''i'', a_payload = JNull,
     a_prev_hash = '''', a_hash = ''h''\<rparr>"

definition log0 :: "nat \<Rightarrow> db" where
  "log0 k = empty_db\<lparr>audit_log := [audit_row0 1 ''t'', audit_row0 2 ''u''] @ (if k = 0 then [] else [audit_row0 3 ''t''])\<rparr>"

lemma log0_grows: "log_grows (audit_log (log0 k)) (audit_log (log0 (Suc k)))"
  by (auto simp: log_grows_def log0_def audit_row0_def)

lemma log0_polls: "map (\<lambda>(ch, c). case ch of AuditChange a \<Rightarrow> a_seq a | _ \<Rightarrow> 0)
    (fst (stream_polls log0 ''t'' 0 2 \<lparr>cu_audit = 0, cu_llm = 0, cu_tool = 0\<rparr>)) = [1, 3]"
  by code_simp

section \<open>A scored run\<close>

definition scenario_eval0 :: scenario where
  "scenario_eval0 = \<lparr>sc_id = ''cart-bad-release'', sc_difficulty = ''easy'',
     sc_inject = [\<lparr>ij_fault = ''release'', ij_after_s = 0, ij_role = Cause, ij_root_cause = None, ij_symptoms = []\<rparr>],
     sc_expect = \<lparr>ex_root_cause = ''cart'', ex_fault_type = ''release'', ex_symptoms = [''web''],
       ex_repair = [\<lparr>act_kind = ''rollback_deployment'', act_deployment = ''cart''\<rparr>], ex_acceptable = []\<rparr>\<rparr>"

definition incident_eval0 :: incident_obs where
  "incident_eval0 = \<lparr>io_incident = ''i'', io_service = ''web'', io_priority = 0, io_opened_s = 30, io_outcome = Diagnosed,
     io_reason = ''r'', io_root_causes = [''cart''], io_confidences = [9 / 10], io_investigation_s = Some 60, io_calls = 3, io_tokens = 100, io_cost_usd = None,
     io_answers = 1, io_first_pass = 1, io_kept = 1, io_dropped = 0,
     io_actions = [\<lparr>ao_action = ''rollback_deployment'', ao_deployment = ''cart'', ao_verdict = RequireApproval, ao_risk = Some R2\<rparr>], io_executions = []\<rparr>"

definition obs_eval0 :: scenario_obs where
  "obs_eval0 = \<lparr>so_scenario = ''cart-bad-release'', so_variant = ''default'', so_run = ''1'', so_incidents = [incident_eval0]\<rparr>"

lemma eval0_passes: "gate_passed (gate_check ''default'' [score scenario_eval0 obs_eval0] [score scenario_eval0 obs_eval0])"
  by code_simp

lemma eval0_clean: "ss_violations (score scenario_eval0 obs_eval0) = []"
  by code_simp

lemma eval0_top1: "top1_by_scenario [score scenario_eval0 obs_eval0] = [(''cart-bad-release'', 1)]"
  by code_simp

lemma eval0_run: "so_variant obs_eval0 = ''default''" "so_incidents obs_eval0 = [incident_eval0]"
  by (simp_all add: obs_eval0_def)

lemma eval0_action: "\<exists>a. io_actions incident_eval0 = [a] \<and> ao_verdict a \<noteq> Deny"
  by (simp add: incident_eval0_def)

lemma eval0_median: "percentile_share [3, 1, 2 :: rat] (1 / 2) = Some 2"
  by code_simp

end
