(* ===== verification/Chunking.thy ===== *)
theory Chunking
  imports Json
begin

text \<open>
  The knowledge base's documents (\<open>app/kb/chunking.py\<close>): the size of a text, front matter, the
  cutting of a document into sections, blocks and chunks, and the removal of secrets. The
  YAML parser is the parameter \<open>yaml\<close>. Shown: no secret is left in a chunk, no block is
  lost, what a piece over the target size holds, and which code fences stay whole.
\<close>

section \<open>Sizes, labels, secrets\<close>

definition word_char :: "char \<Rightarrow> bool" where
  "word_char c \<longleftrightarrow> is_digit c \<or> (65 \<le> (of_char c :: nat) \<and> (of_char c :: nat) \<le> 90) \<or>
     (97 \<le> (of_char c :: nat) \<and> (of_char c :: nat) \<le> 122) \<or> c = CHR ''_''"

text \<open>\<open>len(_TOKEN.findall(text))\<close>; the flag says that the character before was in a word.\<close>

primrec token_count :: "bool \<Rightarrow> string \<Rightarrow> nat" where
  "token_count inside [] = 0"
| "token_count inside (c # s) =
     (if word_char c then (if inside then 0 else 1) + token_count True s
      else (if is_space c then 0 else 1) + token_count False s)"

definition tokens :: "string \<Rightarrow> nat" where
  "tokens s = token_count False s"

definition slug_char :: "char \<Rightarrow> bool" where
  "slug_char c \<longleftrightarrow> is_digit c \<or> (97 \<le> (of_char c :: nat) \<and> (of_char c :: nat) \<le> 122)"

text \<open>\<open>re.sub(r"[^a-z0-9]+", "-", s)\<close>; the flag says that a dash has just been written.\<close>

primrec dashed :: "bool \<Rightarrow> string \<Rightarrow> string" where
  "dashed d [] = []"
| "dashed d (c # s) =
     (if slug_char c then c # dashed False s else (if d then [] else ''-'') @ dashed True s)"

definition strip_char :: "char \<Rightarrow> string \<Rightarrow> string" where
  "strip_char c s = rev (dropWhile (\<lambda>x. x = c) (rev (dropWhile (\<lambda>x. x = c) s)))"

definition slug :: "string \<Rightarrow> string" where
  "slug heading = strip_char CHR ''-'' (dashed False (map lower_char heading))"

text \<open>\<open>_SECRET\<close>: how long a match at the start of the text is, if there is one.\<close>

definition key_char :: "char \<Rightarrow> bool" where
  "key_char c \<longleftrightarrow> word_char c \<or> c = CHR ''-''"

definition upper_alnum :: "char \<Rightarrow> bool" where
  "upper_alnum c \<longleftrightarrow> is_digit c \<or> (65 \<le> (of_char c :: nat) \<and> (of_char c :: nat) \<le> 90)"

definition sk_match :: "string \<Rightarrow> nat option" where
  "sk_match s =
     (let n = length (takeWhile key_char (drop 3 s)) in if starts_with ''sk-'' s \<and> 8 \<le> n then Some (3 + n) else None)"

definition jwt_match :: "string \<Rightarrow> nat option" where
  "jwt_match s =
     (let n = length (takeWhile key_char (drop 3 s)); r = drop (3 + n) s; m = length (takeWhile key_char (drop 1 r))
      in if starts_with ''eyJ'' s \<and> 20 \<le> n \<and> starts_with ''.'' r \<and> 1 \<le> m then Some (4 + n + m) else None)"

definition aws_match :: "string \<Rightarrow> nat option" where
  "aws_match s =
     (if starts_with ''AKIA'' s \<and> 16 \<le> length (takeWhile upper_alnum (drop 4 s)) then Some 20 else None)"

definition secret_at :: "string \<Rightarrow> nat option" where
  "secret_at s =
     (case sk_match s of Some n \<Rightarrow> Some n | None \<Rightarrow> (case jwt_match s of Some n \<Rightarrow> Some n | None \<Rightarrow> aws_match s))"

definition REDACTED :: string where
  "REDACTED = ''[REDACTED]''"

lemma secret_at_pos: "secret_at s = Some n \<Longrightarrow> 0 < n"
  by (auto simp: secret_at_def sk_match_def jwt_match_def aws_match_def Let_def split: if_splits option.splits)

text \<open>\<open>_SECRET.sub("[REDACTED]", text)\<close>\<close>

function redact :: "string \<Rightarrow> string" where
  "redact s =
     (case s of
        [] \<Rightarrow> []
      | c # r \<Rightarrow> (case secret_at s of Some n \<Rightarrow> REDACTED @ redact (drop n s) | None \<Rightarrow> c # redact r))"
  by pat_completeness auto
termination
  by (relation "measure length") (auto dest: secret_at_pos)

declare redact.simps [simp del]

section \<open>Parameters and documents\<close>

record chunk_params =
  cp_name :: string
  cp_target :: nat
  cp_min :: nat
  cp_max :: nat
  cp_overlap :: nat

definition ORIGINAL :: chunk_params where
  "ORIGINAL = \<lparr>cp_name = ''original'', cp_target = 450, cp_min = 200, cp_max = 700, cp_overlap = 80\<rparr>"

definition SECTION :: chunk_params where
  "SECTION = \<lparr>cp_name = ''section'', cp_target = 450, cp_min = 0, cp_max = 700, cp_overlap = 80\<rparr>"

record document =
  dc_id :: string
  dc_kind :: string
  dc_title :: string
  dc_services :: "string list"
  dc_version :: string
  dc_body :: string
  dc_path :: string

definition content_hash :: "(string \<Rightarrow> string) \<Rightarrow> document \<Rightarrow> string" where
  "content_hash sha d =
     sha (dc_kind d @ [CHR 0x0A] @ dc_title d @ [CHR 0x0A] @ join '','' (dc_services d) @ [CHR 0x0A] @
          dc_version d @ [CHR 0x0A] @ dc_body d)"

record chunk =
  ck_doc_id :: string
  ck_ordinal :: nat
  ck_headings :: "string list"
  ck_content :: string
  ck_sections :: "string list"

text \<open>\<open>f"{n:02d}"\<close>\<close>

definition chunk_id :: "chunk \<Rightarrow> string" where
  "chunk_id c = ck_doc_id c @ ''#'' @ zeros 2 (dec (ck_ordinal c))"

definition chunk_tokens :: "chunk \<Rightarrow> nat" where
  "chunk_tokens c = tokens (ck_content c)"

definition text_for_embedding :: "chunk \<Rightarrow> string \<Rightarrow> string" where
  "text_for_embedding c title = title @ '' > '' @ join '' / '' (ck_headings c) @ [CHR 0x0A] @ ck_content c"

section \<open>Front matter\<close>

datatype kb_exn = ValueError string | OtherExn string

text \<open>\<open>s.partition(sep)\<close> for a separator that is not empty: None where it does not occur.\<close>

fun partition_str :: "string \<Rightarrow> string \<Rightarrow> (string \<times> string) option" where
  "partition_str sep [] = None"
| "partition_str sep (c # s) =
     (if starts_with sep (c # s) then Some ([], drop (length sep) (c # s))
      else map_option (\<lambda>(a, b). (c # a, b)) (partition_str sep s))"

definition KINDS :: "string list" where
  "KINDS = [''runbook'', ''postmortem'']"

text \<open>\<open>re.fullmatch(r"[A-Z0-9][A-Z0-9-]+", s)\<close>\<close>

definition doc_id_ok :: "string \<Rightarrow> bool" where
  "doc_id_ok s \<longleftrightarrow> 2 \<le> length s \<and> upper_alnum (hd s) \<and> list_all (\<lambda>c. upper_alnum c \<or> c = CHR ''-'') (tl s)"

text \<open>\<open>tuple(str(s) for s in value)\<close>\<close>

definition iterated :: "json \<Rightarrow> kb_exn + string list" where
  "iterated j =
     (case j of JArr xs \<Rightarrow> Inr (map json_str xs) | JStr s \<Rightarrow> Inr (map (\<lambda>c. [c]) s) | JObj kvs \<Rightarrow> Inr (map fst kvs)
      | _ \<Rightarrow> Inl (OtherExn ''TypeError''))"

definition REQUIRED :: "string list" where
  "REQUIRED = [''id'', ''kind'', ''title'', ''services'', ''version'']"

text \<open>
  \<open>yaml.safe_load\<close> gives JSON-like data (a date stands as its text) or raises \<open>YAMLError\<close>.
\<close>

definition parse_document :: "(string \<Rightarrow> string + json) \<Rightarrow> string \<Rightarrow> string \<Rightarrow> kb_exn + document" where
  "parse_document yaml s path =
     (let at_path = (if path = '''' then ''document'' else path)
      in bindS (guard (starts_with (''---'' @ [CHR 0x0A]) s) (ValueError (at_path @ '': missing front matter (--- ... ---)'')))
           (\<lambda>_. case partition_str ([CHR 0x0A] @ ''---'' @ [CHR 0x0A]) (drop 4 s) of
              None \<Rightarrow> Inl (ValueError (at_path @ '': front matter is not closed''))
            | Some (raw_meta, body) \<Rightarrow>
                (case yaml raw_meta of
                   Inl e \<Rightarrow> Inl (OtherExn e)
                 | Inr m \<Rightarrow>
                     (case (if truthy m then m else JObj []) of
                        JObj meta \<Rightarrow>
                          (let field = (\<lambda>k. case jget meta k of None \<Rightarrow> JNull | Some v \<Rightarrow> v);
                               missing = filter (\<lambda>k. \<not> truthy (field k)) REQUIRED
                           in if missing \<noteq> []
                              then Inl (ValueError (at_path @ '': front matter lacks '' @ join '', '' missing))
                              else if field ''kind'' \<notin> set (map JStr KINDS)
                              then Inl (ValueError (at_path @ '': kind must be one of '' @ join '', '' KINDS))
                              else if \<not> doc_id_ok (json_str (field ''id''))
                              then Inl (ValueError (at_path @ '': id must be upper case letters, digits and dashes''))
                              else bindS (iterated (field ''services'')) (\<lambda>services.
                                Inr \<lparr>dc_id = json_str (field ''id''), dc_kind = json_str (field ''kind''),
                                     dc_title = json_str (field ''title''), dc_services = services,
                                     dc_version = json_str (field ''version''), dc_body = strip body, dc_path = path\<rparr>))
                      | _ \<Rightarrow> Inl (OtherExn ''AttributeError'')))))"

text \<open>The files come as their paths and texts, sorted by path.\<close>

definition file_name :: "string \<Rightarrow> string" where
  "file_name path = rev (takeWhile (\<lambda>c. c \<noteq> CHR ''/'') (rev path))"

fun check_ids :: "(string \<times> string) list \<Rightarrow> document list \<Rightarrow> kb_exn + unit" where
  "check_ids seen [] = Inr ()"
| "check_ids seen (d # ds) =
     (case map_of seen (dc_id d) of
        Some p \<Rightarrow> Inl (ValueError (dc_path d @ '': id '' @ dc_id d @ '' is also used by '' @ p))
      | None \<Rightarrow> check_ids ((dc_id d, dc_path d) # seen) ds)"

definition load_dir :: "(string \<Rightarrow> string + json) \<Rightarrow> (string \<times> string) list \<Rightarrow> kb_exn + document list" where
  "load_dir yaml files =
     bindS (mapS (\<lambda>(path, s). parse_document yaml s path) (filter (\<lambda>(path, s). file_name path \<noteq> ''README.md'') files))
       (\<lambda>docs. bindS (check_ids [] docs) (\<lambda>_. Inr docs))"

section \<open>Headings and sections\<close>

definition newline :: char where
  "newline = CHR 0x0A"

definition rstrip :: "string \<Rightarrow> string" where
  "rstrip s = rev (dropWhile is_space (rev s))"

text \<open>
  \<open>^(#{2,3})\s+(.+?)\s*$\<close> at the start of a line: the title and the length up to its end.
  The blanks after the marks may run over line ends; at the end of the text the title is the
  last of them that is no line end.
\<close>

definition heading_at :: "string \<Rightarrow> (string \<times> nat) option" where
  "heading_at s =
     (let h = length (takeWhile (\<lambda>c. c = CHR ''#'') s); w = takeWhile is_space (drop h s); r = drop (h + length w) s
      in if h \<notin> {2, 3} \<or> w = [] then None
         else if r \<noteq> [] then (let t = rstrip (takeWhile (\<lambda>c. c \<noteq> newline) r) in Some (t, h + length w + length t))
         else (case find (\<lambda>c. c \<noteq> newline) (rev (tl w)) of None \<Rightarrow> None | Some c \<Rightarrow> Some ([c], length s)))"

text \<open>\<open>_HEADING.finditer(body)\<close>: the place and the title of every match, from the place \<open>pos\<close> on.\<close>

definition line_length :: "string \<Rightarrow> nat" where
  "line_length s = length (takeWhile (\<lambda>c. c \<noteq> newline) s)"

function marks_from :: "nat \<Rightarrow> string \<Rightarrow> (nat \<times> string) list" where
  "marks_from pos s =
     (if s = [] then []
      else let n = (case heading_at s of None \<Rightarrow> 0 | Some (t, n) \<Rightarrow> n); k = n + line_length (drop n s) + 1
           in (case heading_at s of None \<Rightarrow> [] | Some (t, n) \<Rightarrow> [(pos, t)]) @ marks_from (pos + k) (drop k s))"
  by pat_completeness auto
termination
  by (relation "measure (\<lambda>(pos, s). length s)") auto

declare marks_from.simps [simp del]

text \<open>\<open>body[a:b].strip()\<close> between one mark and the next or the end.\<close>

fun section_texts :: "string \<Rightarrow> (nat \<times> string) list \<Rightarrow> (string \<times> string) list" where
  "section_texts body [] = []"
| "section_texts body [(a, t)] = [(t, strip (drop a body))]"
| "section_texts body ((a, t) # (b, u) # ms) =
     (t, strip (take (b - a) (drop a body))) # section_texts body ((b, u) # ms)"

definition sections :: "string \<Rightarrow> (string \<times> string) list" where
  "sections body =
     (let marks = marks_from 0 body; intro = (case marks of [] \<Rightarrow> body | (a, t) # ms \<Rightarrow> take a body)
      in (if strip intro \<noteq> [] then [(''Overview'', strip intro)] else []) @ section_texts body marks)"

section \<open>Blocks\<close>

text \<open>\<open>s.splitlines()\<close> and \<open>s.split()\<close>.\<close>

definition line_break :: "char \<Rightarrow> bool" where
  "line_break c \<longleftrightarrow> of_char c \<in> {10, 11, 12, 13, 28, 29, 30, 133 :: nat}"

definition after_break :: "char \<Rightarrow> string \<Rightarrow> string" where
  "after_break c s = (if c = CHR 0x0D \<and> starts_with [newline] s then tl s else s)"

lemma length_after_break [termination_simp]: "length (after_break c s) \<le> length s"
  by (simp add: after_break_def)

fun lines_from :: "string \<Rightarrow> string \<Rightarrow> string list" where
  "lines_from l [] = (if l = [] then [] else [l])"
| "lines_from l (c # s) =
     (if line_break c then l # lines_from [] (after_break c s) else lines_from (l @ [c]) s)"

definition splitlines :: "string \<Rightarrow> string list" where
  "splitlines s = lines_from [] s"

primrec words_from :: "string \<Rightarrow> string \<Rightarrow> string list" where
  "words_from w [] = (if w = [] then [] else [w])"
| "words_from w (c # s) =
     (if is_space c then (if w = [] then [] else [w]) @ words_from [] s else words_from (w @ [c]) s)"

definition split_words :: "string \<Rightarrow> string list" where
  "split_words s = words_from [] s"

definition is_fence :: "string \<Rightarrow> bool" where
  "is_fence line = starts_with ''```'' line"

text \<open>\<open>re.match(r"\s{0,1}([-*]|\d+\.)\s", line)\<close>\<close>

definition starts_item :: "string \<Rightarrow> bool" where
  "starts_item line =
     (let s = (if line \<noteq> [] \<and> is_space (hd line) then tl line else line); r = dropWhile is_digit s
      in (case s of c # d # u \<Rightarrow> c \<in> {CHR ''-'', CHR ''*''} \<and> is_space d | _ \<Rightarrow> False) \<or>
         (is_digit (hd (s @ '' '')) \<and> (case r of c # d # u \<Rightarrow> c = CHR ''.'' \<and> is_space d | _ \<Rightarrow> False)))"

text \<open>The state of the loop: the blocks so far, the lines of the next one, whether a fence is open.\<close>

record block_state =
  bk_done :: "string list"
  bk_buf :: "string list"
  bk_fence :: bool

definition block_line :: "string \<Rightarrow> block_state \<Rightarrow> block_state" where
  "block_line line b =
     (let fence = (if is_fence line then \<not> bk_fence b else bk_fence b); blank = (strip line = []);
          item = (\<not> fence \<and> starts_item line); cut = (\<not> fence \<and> (blank \<or> item) \<and> bk_buf b \<noteq> []);
          buf = (if cut then [] else bk_buf b)
      in \<lparr>bk_done = (if cut then bk_done b @ [join [newline] (bk_buf b)] else bk_done b),
          bk_buf = (if \<not> blank \<or> fence then buf @ [line] else buf), bk_fence = fence\<rparr>)"

definition blocks :: "string \<Rightarrow> string list" where
  "blocks s =
     (let b = fold block_line (splitlines s) \<lparr>bk_done = [], bk_buf = [], bk_fence = False\<rparr>
      in bk_done b @ (if bk_buf b = [] then [] else [join [newline] (bk_buf b)]))"

section \<open>Pieces and chunks\<close>

fun tail_words :: "nat \<Rightarrow> string list \<Rightarrow> string list \<Rightarrow> string list" where
  "tail_words n [] out = out"
| "tail_words n (w # ws) out =
     (let out' = w # out in if n \<le> tokens (join '' '' out') then out' else tail_words n ws out')"

definition tail_of :: "string \<Rightarrow> nat \<Rightarrow> string" where
  "tail_of s n =
     (let ws = split_words (join [newline] (filter (\<lambda>l. \<not> is_fence l) (splitlines s)))
      in join '' '' (tail_words n (rev ws) []))"

definition gap :: string where
  "gap = [newline, newline]"

definition split_step :: "chunk_params \<Rightarrow> string \<Rightarrow> string list \<times> string \<Rightarrow> string list \<times> string" where
  "split_step params block st =
     (let (pieces, buf) = st
      in if buf \<noteq> [] \<and> cp_target params < tokens buf + tokens block
         then (pieces @ [buf], tail_of buf (cp_overlap params) @ gap @ block)
         else (pieces, if buf \<noteq> [] then buf @ gap @ block else block))"

definition split_text :: "chunk_params \<Rightarrow> string \<Rightarrow> string list" where
  "split_text params s =
     (if tokens s \<le> cp_max params then [s]
      else let (pieces, buf) = fold (split_step params) (blocks s) ([], [])
           in if buf \<noteq> [] then pieces @ [buf] else pieces)"

text \<open>Only the first piece of a section may be merged into the chunk before it.\<close>

definition add_piece :: "chunk_params \<Rightarrow> string \<Rightarrow> nat \<times> string \<Rightarrow> (string list \<times> string) list \<Rightarrow> (string list \<times> string) list" where
  "add_piece params heading ip merged =
     (let (i, piece) = ip
      in if i = 0 \<and> merged \<noteq> [] \<and> tokens piece < cp_min params \<and>
            tokens (snd (last merged)) + tokens piece \<le> cp_max params
         then (let (headings, prev) = last merged
               in butlast merged @
                  [(if heading \<in> set headings then headings else headings @ [heading], prev @ gap @ piece)])
         else merged @ [([heading], piece)])"

definition add_section :: "chunk_params \<Rightarrow> string \<times> string \<Rightarrow> (string list \<times> string) list \<Rightarrow> (string list \<times> string) list" where
  "add_section params ht merged = fold (add_piece params (fst ht)) (enumerate 0 (split_text params (snd ht))) merged"

definition merged_sections :: "chunk_params \<Rightarrow> string \<Rightarrow> (string list \<times> string) list" where
  "merged_sections params body = fold (add_section params) (sections body) []"

definition chunk_document :: "document \<Rightarrow> chunk_params \<Rightarrow> chunk list" where
  "chunk_document d params =
     map (\<lambda>(n, headings, s). \<lparr>ck_doc_id = dc_id d, ck_ordinal = n, ck_headings = headings, ck_content = redact s,
            ck_sections = map (\<lambda>h. dc_id d @ ''#'' @ slug h) headings\<rparr>)
       (enumerate 1 (merged_sections params (dc_body d)))"

section \<open>No secret is left\<close>

lemma starts_with_iff: "starts_with p s \<longleftrightarrow> (\<exists>t. s = p @ t)"
  by (metis append_take_drop_id starts_with_append starts_with_def)

lemma starts_with_Cons: "starts_with (a # p) s \<longleftrightarrow> (\<exists>t. s = a # t \<and> starts_with p t)"
  by (auto simp: starts_with_iff)

lemma starts_with_Nil [simp]: "starts_with [] s"
  by (simp add: starts_with_def)

text \<open>What the pattern calls a secret.\<close>

definition secret_word :: "string \<Rightarrow> bool" where
  "secret_word q \<longleftrightarrow>
     (\<exists>u. q = ''sk-'' @ u \<and> 8 \<le> length u \<and> list_all key_char u) \<or>
     (\<exists>u v. q = ''eyJ'' @ u @ ''.'' @ v \<and> 20 \<le> length u \<and> v \<noteq> [] \<and> list_all key_char (u @ v)) \<or>
     (\<exists>u. q = ''AKIA'' @ u \<and> length u = 16 \<and> list_all upper_alnum u)"

lemma takeWhile_prefix: "list_all P u \<Longrightarrow> length u \<le> length (takeWhile P (u @ t))"
  by (induction u) auto

lemma takeWhile_stop: "list_all P u \<Longrightarrow> \<not> P c \<Longrightarrow> takeWhile P (u @ c # t) = u"
  by (induction u) auto

lemma key_char_simps [simp]: "\<not> key_char CHR ''.''" "\<not> key_char CHR ''[''"
  by (simp_all add: key_char_def word_char_def is_digit_def)

lemma upper_alnum_bracket [simp]: "\<not> upper_alnum CHR ''[''"
  by (simp add: upper_alnum_def is_digit_def)

lemma secret_word_found: "secret_word q \<Longrightarrow> secret_at (q @ t) \<noteq> None"
proof -
  assume "secret_word q"
  then consider u where "q = ''sk-'' @ u" "8 \<le> length u" "list_all key_char u"
    | u v where "q = ''eyJ'' @ u @ ''.'' @ v" "20 \<le> length u" "v \<noteq> []" "list_all key_char u" "list_all key_char v"
    | u where "q = ''AKIA'' @ u" "length u = 16" "list_all upper_alnum u"
    by (auto simp: secret_word_def)
  then show ?thesis
  proof cases
    case 1
    with takeWhile_prefix [of key_char u t] show ?thesis
      by (auto simp: secret_at_def sk_match_def Let_def starts_with_def)
  next
    case 2
    then have "takeWhile key_char (u @ CHR ''.'' # v @ t) = u" by (intro takeWhile_stop) auto
    moreover have "1 \<le> length (takeWhile key_char (v @ t))" using 2 by (cases v) auto
    ultimately have "jwt_match (q @ t) \<noteq> None" using 2 by (simp add: jwt_match_def Let_def starts_with_def eval_nat_numeral)
    then show ?thesis by (auto simp: secret_at_def split: option.splits)
  next
    case 3
    with takeWhile_prefix [of upper_alnum u t] have "aws_match (q @ t) \<noteq> None"
      by (simp add: aws_match_def starts_with_def)
    then show ?thesis by (auto simp: secret_at_def split: option.splits)
  qed
qed

lemma secret_word_shape: "secret_word q \<Longrightarrow> CHR ''['' \<notin> set q \<and>
    (\<exists>r. q = ''sk-'' @ r \<or> q = ''eyJ'' @ r \<or> q = ''AKIA'' @ r)"
  unfolding secret_word_def list_all_iff by (elim disjE exE; force)

lemma redact_Nil [simp]: "redact [] = []"
  by (simp add: redact.simps)

lemma redact_Cons: "redact (c # r) = (case secret_at (c # r) of Some n \<Rightarrow> REDACTED @ redact (drop n (c # r)) | None \<Rightarrow> c # redact r)"
  by (subst redact.simps) simp

lemma redact_prefix: "CHR ''['' \<notin> set q \<Longrightarrow> starts_with q (redact s) \<Longrightarrow> starts_with q s"
proof (induction s arbitrary: q)
  case (Cons c s)
  show ?case
  proof (cases q)
    case (Cons a p)
    with Cons.prems have "secret_at (c # s) = None"
      by (auto simp: redact_Cons REDACTED_def starts_with_Cons split: option.splits)
    with Cons.prems Cons.IH [of p] Cons show ?thesis by (auto simp: redact_Cons starts_with_Cons)
  qed simp
qed simp

lemma redacted_no_secret: "secret_word q \<Longrightarrow> REDACTED @ t = u @ q @ v \<Longrightarrow> \<exists>u'. t = u' @ q @ v"
proof -
  assume q: "secret_word q" and eq: "REDACTED @ t = u @ q @ v"
  have "length REDACTED \<le> length u"
  proof (rule ccontr)
    assume "\<not> length REDACTED \<le> length u"
    then have "length u \<in> {0, 1, 2, 3, 4, 5, 6, 7, 8, 9}" by (auto simp: REDACTED_def not_le less_Suc_eq)
    moreover have "drop (length u) (REDACTED @ t) = q @ v" using eq by simp
    ultimately show False using secret_word_shape [OF q] by (auto simp: REDACTED_def)
  qed
  then have "u = REDACTED @ drop (length REDACTED) u" using eq by (metis append_eq_append_conv_if append_take_drop_id take_all_iff)
  then have "t = drop (length REDACTED) u @ q @ v" using eq by (metis append.assoc same_append_eq)
  then show ?thesis by blast
qed

lemma redact_clean: "secret_word q \<Longrightarrow> redact s \<noteq> u @ q @ v"
proof (induction s arbitrary: u rule: redact.induct)
  case (1 s)
  show ?case
  proof (cases s)
    case (Cons c r)
    show ?thesis
    proof (cases "secret_at s")
      case None
      then have s: "redact s = c # redact r" using Cons by (simp add: redact_Cons)
      have "redact r \<noteq> u' @ q @ v" for u' using "1.IH"(1) [OF Cons None "1.prems"] .
      moreover have "redact s \<noteq> q @ v"
      proof
        assume "redact s = q @ v"
        then have "starts_with q s" using redact_prefix [of q s] secret_word_shape [OF "1.prems"] by simp
        then obtain t where "s = q @ t" by (auto simp: starts_with_iff)
        then show False using secret_word_found [OF "1.prems", of t] None by simp
      qed
      ultimately show ?thesis using s by (cases u) auto
    next
      case (Some n)
      then have s: "redact s = REDACTED @ redact (drop n s)" using Cons by (simp add: redact_Cons)
      have "redact (drop n s) \<noteq> u' @ q @ v" for u' using "1.IH"(2) [OF Cons Some "1.prems"] .
      then show ?thesis unfolding s using redacted_no_secret [OF "1.prems"] by blast
    qed
  qed (use secret_word_shape [OF "1.prems"] in auto)
qed

section \<open>What a piece holds\<close>

lemma token_count_gap: "token_count f (s @ newline # t) = token_count f s + token_count False t"
  by (induction s arbitrary: f) (auto simp: newline_def word_char_def is_digit_def is_space_def)

lemma tokens_gap [simp]: "tokens (s @ gap @ t) = tokens s + tokens t"
proof -
  have "token_count False (newline # t) = token_count False t"
    using token_count_gap [of False "[]" t] by simp
  then show ?thesis by (simp add: tokens_def gap_def token_count_gap)
qed

lemma token_count_space: "token_count f (s @ CHR '' '' # t) = token_count f s + token_count False t"
  by (induction s arbitrary: f) (auto simp: word_char_def is_digit_def is_space_def)

text \<open>A carried-over tail has fewer than \<open>n\<close> tokens without its first word.\<close>

lemma tail_words_suffix: "\<exists>us. rev ws @ out = us @ tail_words n ws out"
proof (induction n ws out rule: tail_words.induct)
  case (2 n w ws out)
  then show ?case by (cases "n \<le> tokens (join '' '' (w # out))") (auto simp: Let_def)
qed simp

lemma tail_shorter: "tl out \<noteq> [] \<Longrightarrow> tokens (join '' '' out) < n \<Longrightarrow> tokens (join '' '' (tl out)) < n"
  by (cases out; cases "tl out") (auto simp: tokens_def token_count_space)

lemma tail_words_short:
  "out = [] \<or> tokens (join '' '' out) < n \<Longrightarrow> ts = tail_words n ws out \<Longrightarrow> ts = [] \<or> tl ts = [] \<or> tokens (join '' '' (tl ts)) < n"
proof (induction n ws out rule: tail_words.induct)
  case (1 n out)
  then show ?case by (cases "tl out = []") (auto simp: tail_shorter)
next
  case (2 n w ws out)
  then show ?case by (cases "n \<le> tokens (join '' '' (w # out))") (auto simp: Let_def)
qed

definition infix_of :: "string \<Rightarrow> string \<Rightarrow> bool" where
  "infix_of b p \<longleftrightarrow> (\<exists>u v. p = u @ b @ v)"

lemma infix_of_refl [simp]: "infix_of b b"
  unfolding infix_of_def by (rule exI [of _ "[]"], rule exI [of _ "[]"]) simp

lemma infix_of_append: "infix_of b p \<Longrightarrow> infix_of b (u @ p @ v)"
  by (auto simp: infix_of_def) (metis append.assoc)

lemma infix_of_left: "infix_of b p \<Longrightarrow> infix_of b (p @ v)"
  using infix_of_append [of b p "[]" v] by simp

lemma infix_of_right: "infix_of b p \<Longrightarrow> infix_of b (u @ p)"
  using infix_of_append [of b p u "[]"] by simp

lemma infix_of_Nil [simp]: "infix_of [] p" "infix_of b [] \<longleftrightarrow> b = []"
  by (auto simp: infix_of_def)

lemma infix_of_end [simp]: "infix_of b (u @ v @ b)"
  using infix_of_right [of b b "u @ v"] by simp

definition held :: "string \<Rightarrow> string list \<times> string \<Rightarrow> bool" where
  "held b st \<longleftrightarrow> (\<exists>p \<in> set (fst st). infix_of b p) \<or> infix_of b (snd st)"

lemma held_step: "held b st \<Longrightarrow> held b (split_step params x st)"
  by (auto simp: held_def split_step_def case_prod_beta intro: infix_of_left)

lemma held_new: "held b (split_step params b st)"
  by (auto simp: held_def split_step_def case_prod_beta intro: infix_of_right)

lemma held_fold: "held b st \<or> b \<in> set bs \<Longrightarrow> held b (fold (split_step params) bs st)"
proof (induction bs arbitrary: st)
  case (Cons a bs)
  have "held b (split_step params a st) \<or> b \<in> set bs" using Cons.prems held_step [of b st params a] held_new [of a params st] by auto
  then show ?case using Cons.IH by simp
qed simp

text \<open>A piece over the target size is one block, after what is carried over.\<close>

definition fits :: "chunk_params \<Rightarrow> string set \<Rightarrow> string \<Rightarrow> bool" where
  "fits params B p \<longleftrightarrow> tokens p \<le> cp_target params \<or>
     (\<exists>b \<in> B. p = b \<or> (\<exists>t. p = tail_of t (cp_overlap params) @ gap @ b))"

lemma fits_step:
  assumes "\<forall>p \<in> set (fst st). fits params B p" "snd st \<noteq> [] \<longrightarrow> fits params B (snd st)" "x \<in> B"
  shows "(\<forall>p \<in> set (fst (split_step params x st)). fits params B p) \<and> fits params B (snd (split_step params x st))"
proof (cases "snd st \<noteq> [] \<and> cp_target params < tokens (snd st) + tokens x")
  case True
  with assms show ?thesis by (auto simp: split_step_def case_prod_beta fits_def)
next
  case False
  then have "snd (split_step params x st) = (if snd st \<noteq> [] then snd st @ gap @ x else x)"
    "fst (split_step params x st) = fst st" by (auto simp: split_step_def case_prod_beta)
  moreover have "fits params B (if snd st \<noteq> [] then snd st @ gap @ x else x)"
    using False assms(3) by (auto simp: fits_def simp del: append_assoc)
  ultimately show ?thesis using assms(1) by simp
qed

lemma fits_fold:
  assumes "\<forall>p \<in> set (fst st). fits params B p" "snd st \<noteq> [] \<longrightarrow> fits params B (snd st)" "set bs \<subseteq> B"
  shows "(\<forall>p \<in> set (fst (fold (split_step params) bs st)). fits params B p) \<and>
    (snd (fold (split_step params) bs st) \<noteq> [] \<longrightarrow> fits params B (snd (fold (split_step params) bs st)))"
  using assms
proof (induction bs arbitrary: st)
  case (Cons x bs)
  from fits_step [of st params B x] Cons.prems Cons.IH [of "split_step params x st"] show ?case by simp
qed simp

lemma split_text_long:
  "cp_max params < tokens s \<Longrightarrow> set (split_text params s) =
     set (fst (fold (split_step params) (blocks s) ([], []))) \<union>
     (let b = snd (fold (split_step params) (blocks s) ([], [])) in if b = [] then {} else {b})"
  by (auto simp: split_text_def case_prod_beta Let_def)

lemma split_text_fits:
  "p \<in> set (split_text params s) \<Longrightarrow> cp_max params < tokens s \<Longrightarrow> fits params (set (blocks s)) p"
  using fits_fold [of "([], [])" params "set (blocks s)" "blocks s"]
  by (auto simp: split_text_long Let_def split: if_splits)

section \<open>Lines and fences\<close>

definition fences :: "string list \<Rightarrow> nat" where
  "fences ls = length (filter is_fence ls)"

lemma fences_simps [simp]:
  "fences [] = 0" "fences (l # ls) = (if is_fence l then 1 else 0) + fences ls" "fences (ks @ ls) = fences ks + fences ls"
  by (simp_all add: fences_def)

definition unbroken :: "string \<Rightarrow> bool" where
  "unbroken l \<longleftrightarrow> list_all (\<lambda>c. \<not> line_break c) l"

lemma newline_breaks [simp]: "line_break newline" "newline \<noteq> CHR 0x0D" "is_space newline"
  by (simp_all add: newline_def line_break_def is_space_def)

lemma breaks_are_blank: "line_break c \<Longrightarrow> is_space c"
  by (auto simp: line_break_def is_space_def)

lemma lines_from_unbroken: "unbroken l \<Longrightarrow> k \<in> set (lines_from l s) \<Longrightarrow> unbroken k"
  by (induction l s arbitrary: k rule: lines_from.induct) (auto simp: unbroken_def split: if_splits)

lemma splitlines_unbroken: "k \<in> set (splitlines s) \<Longrightarrow> unbroken k"
  using lines_from_unbroken [of "[]" k s] by (simp add: splitlines_def unbroken_def)

lemma lines_from_line: "unbroken x \<Longrightarrow> lines_from l (x @ newline # s) = (l @ x) # lines_from [] s"
  by (induction x arbitrary: l) (simp_all add: unbroken_def after_break_def)

lemma lines_from_last: "unbroken x \<Longrightarrow> lines_from l x = (if l @ x = [] then [] else [l @ x])"
  by (induction x arbitrary: l) (simp_all add: unbroken_def)

text \<open>Lines that a text joined from them splits into again.\<close>

definition tidy :: "string list \<Rightarrow> bool" where
  "tidy ls \<longleftrightarrow> ls \<noteq> [] \<and> list_all unbroken ls \<and> last ls \<noteq> []"

lemma tidy_Cons: "tidy (l # k # ls) \<longleftrightarrow> unbroken l \<and> tidy (k # ls)"
  by (auto simp: tidy_def)

lemma splitlines_tidy: "tidy ls \<Longrightarrow> splitlines (join [newline] ls) = ls"
proof (induction ls rule: induct_list012)
  case (2 l)
  then show ?case by (simp add: tidy_def splitlines_def lines_from_last)
next
  case (3 l k ls)
  then show ?case by (simp add: tidy_Cons splitlines_def lines_from_line)
qed (simp add: tidy_def)

lemma tidy_nonempty: "tidy ls \<Longrightarrow> join [newline] ls \<noteq> []"
  using splitlines_tidy [of ls] by (auto simp: tidy_def splitlines_def)

lemma join_gap: "ks \<noteq> [] \<Longrightarrow> ls \<noteq> [] \<Longrightarrow> join [newline] ks @ gap @ join [newline] ls = join [newline] (ks @ [[]] @ ls)"
proof (induction ks rule: induct_list012)
  case (2 k)
  then show ?case by (cases ls) (simp_all add: gap_def)
next
  case (3 k m ks)
  then show ?case by (cases ls) (simp_all add: gap_def)
qed simp

text \<open>The lines that reach a block: all but the blank ones outside code.\<close>

primrec kept_lines :: "bool \<Rightarrow> string list \<Rightarrow> string list" where
  "kept_lines fence [] = []"
| "kept_lines fence (l # ls) =
     (let f = (if is_fence l then \<not> fence else fence)
      in (if strip l \<noteq> [] \<or> f then [l] else []) @ kept_lines f ls)"

lemma strip_Nil [simp]: "strip [] = []"
  by (simp add: strip_def)

lemma fence_not_empty [simp]: "\<not> is_fence []"
  by (simp add: is_fence_def starts_with_def)

lemma fence_not_blank: "is_fence l \<Longrightarrow> strip l \<noteq> []"
  by (auto simp: is_fence_def starts_with_iff strip_def is_space_def)

lemma fence_no_item: "is_fence l \<Longrightarrow> \<not> starts_item l"
  by (auto simp: is_fence_def starts_with_iff starts_item_def is_space_def is_digit_def)

lemma fences_kept [simp]: "fences (kept_lines f ls) = fences ls"
  by (induction ls arbitrary: f) (auto simp: Let_def fence_not_blank)

definition blocks_inv :: "block_state \<Rightarrow> string list list \<Rightarrow> bool" where
  "blocks_inv b D \<longleftrightarrow>
     bk_done b = map (join [newline]) D \<and> (\<forall>d \<in> set D. tidy d \<and> even (fences d)) \<and>
     even (fences (bk_buf b)) = (\<not> bk_fence b) \<and> list_all unbroken (bk_buf b) \<and>
     (bk_buf b \<noteq> [] \<longrightarrow> hd (bk_buf b) \<noteq> [] \<and> (\<not> bk_fence b \<longrightarrow> last (bk_buf b) \<noteq> []))"

lemma block_line_inv:
  assumes "blocks_inv b D" "unbroken l"
  shows "\<exists>D'. blocks_inv (block_line l b) D' \<and>
    concat D @ bk_buf b @ kept_lines (bk_fence b) (l # ls) =
    concat D' @ bk_buf (block_line l b) @ kept_lines (bk_fence (block_line l b)) ls"
proof -
  let ?f = "if is_fence l then \<not> bk_fence b else bk_fence b"
  let ?cut = "\<not> ?f \<and> (strip l = [] \<or> \<not> ?f \<and> starts_item l) \<and> bk_buf b \<noteq> []"
  show ?thesis
  proof (cases ?cut)
    case True
    then have l: "\<not> is_fence l" "\<not> bk_fence b" using fence_not_blank fence_no_item by (auto split: if_splits)
    then have "blocks_inv (block_line l b) (D @ [bk_buf b])"
      using True assms by (auto simp: blocks_inv_def block_line_def Let_def tidy_def)
    then show ?thesis
      using True l by (intro exI [of _ "D @ [bk_buf b]"]) (auto simp: block_line_def Let_def)
  next
    case False
    then have e: "block_line l b =
        \<lparr>bk_done = bk_done b, bk_buf = (if strip l \<noteq> [] \<or> ?f then bk_buf b @ [l] else bk_buf b), bk_fence = ?f\<rparr>"
      by (cases "is_fence l"; cases "bk_fence b") (auto simp: block_line_def Let_def fence_no_item fence_not_blank)
    have "blocks_inv (block_line l b) D"
      using assms unfolding e
      by (cases "is_fence l"; cases "bk_fence b"; cases "strip l = []") (auto simp: blocks_inv_def fence_not_blank hd_append)
    then show ?thesis
      unfolding e by (intro exI [of _ D]) (auto simp: Let_def)
  qed
qed

lemma blocks_fold:
  assumes "blocks_inv b D" "list_all unbroken ls"
  shows "\<exists>D'. blocks_inv (fold block_line ls b) D' \<and>
    concat D @ bk_buf b @ kept_lines (bk_fence b) ls = concat D' @ bk_buf (fold block_line ls b)"
  using assms
proof (induction ls arbitrary: b D)
  case (Cons l ls)
  then obtain D' where D': "blocks_inv (block_line l b) D'"
    "concat D @ bk_buf b @ kept_lines (bk_fence b) (l # ls) =
     concat D' @ bk_buf (block_line l b) @ kept_lines (bk_fence (block_line l b)) ls"
    using block_line_inv [of b D l ls] by auto
  with Cons.IH [OF D'(1)] Cons.prems show ?case by auto
qed auto

lemma even_concat: "\<forall>d \<in> set D. even (fences d) \<Longrightarrow> even (fences (concat D))"
  by (induction D) auto

lemma blocks_shape:
  "\<exists>D. blocks s = map (join [newline]) D \<and> concat D = kept_lines False (splitlines s) \<and>
     (\<forall>d \<in> set D. join [newline] d \<noteq> []) \<and>
     (even (fences (splitlines s)) \<longrightarrow> (\<forall>d \<in> set D. tidy d \<and> even (fences d)))"
proof -
  let ?b = "fold block_line (splitlines s) \<lparr>bk_done = [], bk_buf = [], bk_fence = False\<rparr>"
  have "list_all unbroken (splitlines s)" using splitlines_unbroken by (auto simp: list_all_iff)
  then obtain D where D: "blocks_inv ?b D" "kept_lines False (splitlines s) = concat D @ bk_buf ?b"
    using blocks_fold [of "\<lparr>bk_done = [], bk_buf = [], bk_fence = False\<rparr>" "[]" "splitlines s"]
    by (auto simp: blocks_inv_def)
  let ?D = "D @ (if bk_buf ?b = [] then [] else [bk_buf ?b])"
  have even_D: "even (fences (concat D))" using even_concat D(1) by (auto simp: blocks_inv_def)
  have "even (fences (splitlines s)) \<longleftrightarrow> even (fences (concat D @ bk_buf ?b))"
    using D(2) fences_kept by metis
  then have "even (fences (splitlines s)) \<longleftrightarrow> \<not> bk_fence ?b" using even_D D(1) by (simp add: blocks_inv_def)
  moreover have "bk_buf ?b \<noteq> [] \<Longrightarrow> join [newline] (bk_buf ?b) \<noteq> []"
    using D(1) by (cases "bk_buf ?b"; cases "tl (bk_buf ?b)") (auto simp: blocks_inv_def)
  ultimately show ?thesis
    using D by (intro exI [of _ ?D]) (auto simp: blocks_inv_def blocks_def Let_def tidy_def tidy_nonempty)
qed

lemma blocks_nonempty: "[] \<notin> set (blocks s)"
  using blocks_shape [of s] by force
lemma split_text_holds: "b \<in> set (blocks s) \<Longrightarrow> \<exists>p \<in> set (split_text params s). cp_max params < tokens s \<longrightarrow> infix_of b p"
proof (cases "cp_max params < tokens s")
  case True
  assume b: "b \<in> set (blocks s)"
  let ?st = "fold (split_step params) (blocks s) ([], [])"
  from held_fold [of b "([], [])" "blocks s" params] b have "held b ?st" by blast
  then consider p where "p \<in> set (fst ?st)" "infix_of b p" | "snd ?st \<noteq> []" "infix_of b (snd ?st)" | "snd ?st = []" "b = []"
    by (cases "snd ?st = []") (auto simp: held_def)
  then show ?thesis
  proof cases
    case 3
    have "[] \<notin> set (blocks s)" by (rule blocks_nonempty)
    with 3 b show ?thesis by simp
  qed (auto simp: split_text_long [OF True] Let_def)
next
  case False
  then show ?thesis by (simp add: split_text_def)
qed

section \<open>Code fences stay whole\<close>

text \<open>
  No line has a word that starts with a fence, except a fence line: the words that \<open>_tail\<close>
  carries over come from the other lines.
\<close>

definition plain_words :: "string list \<Rightarrow> bool" where
  "plain_words ls \<longleftrightarrow> (\<forall>l \<in> set ls. \<not> is_fence l \<longrightarrow> (\<forall>w \<in> set (split_words l). \<not> is_fence w))"

lemma words_from_space: "is_space c \<Longrightarrow> words_from w (x @ c # s) = words_from w x @ words_from [] s"
  by (induction x arbitrary: w) auto

lemma split_words_lines: "split_words (join [newline] ls) = concat (map split_words ls)"
  by (induction ls rule: induct_list012) (simp_all add: split_words_def words_from_space)

definition is_word :: "string \<Rightarrow> bool" where
  "is_word w \<longleftrightarrow> w \<noteq> [] \<and> list_all (\<lambda>c. \<not> is_space c) w"

lemma words_from_words: "list_all (\<lambda>c. \<not> is_space c) v \<Longrightarrow> w \<in> set (words_from v s) \<Longrightarrow> is_word w"
proof (induction s arbitrary: v)
  case (Cons c s)
  show ?case using Cons.prems Cons.IH [of "[]"] Cons.IH [of "v @ [c]"] by (auto simp: is_word_def [of v] split: if_splits)
qed (auto simp: is_word_def split: if_splits)

lemma words_from_last: "list_all (\<lambda>c. \<not> is_space c) x \<Longrightarrow> words_from w x = (if w @ x = [] then [] else [w @ x])"
  by (induction x arbitrary: w) auto

lemma split_words_join: "list_all is_word ws \<Longrightarrow> split_words (join '' '' ws) = ws"
  by (induction ws rule: induct_list012)
    (simp_all add: split_words_def words_from_space words_from_last is_word_def is_space_def)

lemma is_fence_append: "is_fence (w @ CHR '' '' # r) \<longleftrightarrow> is_fence w"
  by (cases w; cases "tl w"; cases "tl (tl w)") (auto simp: is_fence_def starts_with_Cons)

lemma is_fence_join: "is_fence (join '' '' ws) \<Longrightarrow> is_fence (hd ws) \<and> ws \<noteq> []"
  by (cases ws; cases "tl ws") (auto simp: is_fence_append)

lemma split_words_Nil [simp]: "split_words [] = []"
  by (simp add: split_words_def)

lemma word_unbroken: "is_word w \<Longrightarrow> unbroken w"
  by (auto simp: is_word_def unbroken_def list_all_iff breaks_are_blank)

lemma words_unbroken: "list_all is_word ws \<Longrightarrow> unbroken (join '' '' ws)"
proof (induction ws rule: induct_list012)
  case (3 v w ws)
  then show ?case using word_unbroken [of v] by (simp add: unbroken_def line_break_def)
qed (use word_unbroken in \<open>auto simp: unbroken_def\<close>)

definition whole :: "string list \<Rightarrow> bool" where
  "whole ls \<longleftrightarrow> tidy ls \<and> even (fences ls) \<and> plain_words ls"

lemma tail_whole:
  assumes "whole ls"
  shows "unbroken (tail_of (join [newline] ls) n) \<and> \<not> is_fence (tail_of (join [newline] ls) n) \<and>
    plain_words [tail_of (join [newline] ls) n]"
proof -
  let ?ws = "split_words (join [newline] (filter (\<lambda>l. \<not> is_fence l) ls))"
  obtain ts where ts_def: "ts = tail_words n (rev ?ws) []" by blast
  have t: "tail_of (join [newline] ls) n = join '' '' ts"
    using assms by (simp add: tail_of_def Let_def splitlines_tidy whole_def ts_def)
  obtain us where "?ws = us @ ts" using tail_words_suffix [of "rev ?ws" "[]" n] by (auto simp: ts_def)
  then have sub: "set ts \<subseteq> set ?ws" by (metis Un_upper2 set_append)
  have "\<forall>w \<in> set ?ws. is_word w"
    unfolding split_words_def by (intro ballI words_from_words [of "[]"]) simp_all
  then have ts: "list_all is_word ts" using sub unfolding list_all_iff by blast
  have "\<forall>w \<in> set ?ws. \<not> is_fence w"
    using assms by (auto simp: split_words_lines whole_def plain_words_def)
  then have nf: "\<forall>w \<in> set ts. \<not> is_fence w" using sub by blast
  show ?thesis
    unfolding t
  proof (intro conjI)
    show "unbroken (join '' '' ts)" by (rule words_unbroken [OF ts])
    show "\<not> is_fence (join '' '' ts)" using is_fence_join nf hd_in_set by blast
    show "plain_words [join '' '' ts]" using nf by (simp add: plain_words_def split_words_join [OF ts])
  qed
qed

lemma whole_gap: "whole ks \<Longrightarrow> whole ls \<Longrightarrow> whole (ks @ [[]] @ ls)"
  by (auto simp: whole_def tidy_def plain_words_def unbroken_def is_fence_def starts_with_def)

lemma whole_after_tail:
  assumes "whole ls" "unbroken t" "\<not> is_fence t" "plain_words [t]"
  shows "whole ([t] @ [[]] @ ls)"
  using assms by (auto simp: whole_def tidy_def plain_words_def unbroken_def is_fence_def starts_with_def)

definition whole_piece :: "string \<Rightarrow> bool" where
  "whole_piece p \<longleftrightarrow> (\<exists>ls. whole ls \<and> p = join [newline] ls)"

lemma whole_pieceI: "whole ls \<Longrightarrow> whole_piece (join [newline] ls)"
  by (auto simp: whole_piece_def)

lemma whole_pieces:
  assumes "whole_piece p" "whole_piece b"
  shows "whole_piece (p @ gap @ b) \<and> whole_piece (tail_of p n @ gap @ b)"
proof
  from assms obtain ks ls where k: "whole ks" "p = join [newline] ks" and l: "whole ls" "b = join [newline] ls"
    by (auto simp: whole_piece_def)
  have ne: "ks \<noteq> []" "ls \<noteq> []" using k(1) l(1) by (auto simp: whole_def tidy_def)
  show "whole_piece (p @ gap @ b)"
    unfolding k(2) l(2) join_gap [OF ne] by (rule whole_pieceI [OF whole_gap [OF k(1) l(1)]])
  have "tail_of p n @ gap @ b = join [newline] ([tail_of p n] @ [[]] @ ls)"
    using join_gap [of "[tail_of p n]" ls] ne l(2) by simp
  moreover have "whole ([tail_of p n] @ [[]] @ ls)"
    unfolding k(2) by (rule whole_after_tail [OF l(1)]) (use tail_whole [OF k(1), of n] in blast)+
  ultimately show "whole_piece (tail_of p n @ gap @ b)" by (metis whole_pieceI)
qed

lemma whole_fold:
  assumes "\<forall>p \<in> set (fst st). whole_piece p" "snd st \<noteq> [] \<longrightarrow> whole_piece (snd st)" "\<forall>b \<in> set bs. whole_piece b"
  shows "(\<forall>p \<in> set (fst (fold (split_step params) bs st)). whole_piece p) \<and>
    (snd (fold (split_step params) bs st) \<noteq> [] \<longrightarrow> whole_piece (snd (fold (split_step params) bs st)))"
  using assms
proof (induction bs arbitrary: st)
  case (Cons x bs)
  have "(\<forall>p \<in> set (fst (split_step params x st)). whole_piece p) \<and> whole_piece (snd (split_step params x st))"
    using Cons.prems whole_pieces [of "snd st" x "cp_overlap params"] by (auto simp: split_step_def case_prod_beta)
  with Cons.IH [of "split_step params x st"] Cons.prems show ?case by simp
qed simp

lemma plain_words_blocks:
  assumes "concat D = kept_lines f ls" "plain_words ls" "d \<in> set D"
  shows "plain_words d"
proof -
  have "set (kept_lines f ls) \<subseteq> set ls" for f by (induction ls arbitrary: f) (auto simp: Let_def split: if_splits)
  moreover have "set d \<subseteq> set (concat D)" using assms(3) by auto
  ultimately show ?thesis using assms(1,2) unfolding plain_words_def by (metis subset_iff)
qed

lemma split_text_whole:
  assumes "even (fences (splitlines s))" "plain_words (splitlines s)" "p \<in> set (split_text params s)"
  shows "even (fences (splitlines p))"
proof (cases "cp_max params < tokens s")
  case True
  obtain D where D: "blocks s = map (join [newline]) D" "concat D = kept_lines False (splitlines s)"
    "\<forall>d \<in> set D. tidy d \<and> even (fences d)"
    using blocks_shape [of s] assms(1) by blast
  have "\<forall>b \<in> set (blocks s). whole_piece b"
  proof
    fix b
    assume "b \<in> set (blocks s)"
    then obtain d where d: "d \<in> set D" "b = join [newline] d" using D(1) by auto
    with D(3) plain_words_blocks [OF D(2) assms(2) d(1)] show "whole_piece b"
      using whole_pieceI [of d] by (simp add: whole_def)
  qed
  then have "(\<forall>p \<in> set (fst (fold (split_step params) (blocks s) ([], []))). whole_piece p) \<and>
      (snd (fold (split_step params) (blocks s) ([], [])) \<noteq> [] \<longrightarrow> whole_piece (snd (fold (split_step params) (blocks s) ([], []))))"
    by (intro whole_fold) simp_all
  then have "whole_piece p"
    using assms(3) unfolding split_text_long [OF True] Let_def by (auto split: if_splits)
  then show ?thesis by (auto simp: whole_piece_def whole_def splitlines_tidy)
next
  case False
  with assms show ?thesis by (simp add: split_text_def)
qed

section \<open>What the chunks of a document hold\<close>

definition in_chunk :: "string \<Rightarrow> string \<Rightarrow> (string list \<times> string) list \<Rightarrow> bool" where
  "in_chunk h p merged \<longleftrightarrow> (\<exists>(hs, s) \<in> set merged. h \<in> set hs \<and> infix_of p s)"

lemma in_chunk_add: "in_chunk h p merged \<Longrightarrow> in_chunk h p (add_piece params k ip merged)"
proof (cases "merged = []")
  case False
  assume "in_chunk h p merged"
  then have "in_chunk h p (butlast merged) \<or> h \<in> set (fst (last merged)) \<and> infix_of p (snd (last merged))"
    using append_butlast_last_id [OF False] by (metis (no_types, lifting) Un_iff case_prod_beta in_chunk_def set_ConsD set_append list.set_cases set_simps(2) singletonD empty_set)
  moreover have "in_chunk h p merged \<Longrightarrow> in_chunk h p (merged @ x)" for x by (auto simp: in_chunk_def)
  ultimately show ?thesis
    using \<open>in_chunk h p merged\<close> by (auto simp: add_piece_def case_prod_beta Let_def in_chunk_def intro: infix_of_left)
qed (simp add: in_chunk_def)

lemma in_chunk_new: "in_chunk h p (add_piece params h (i, p) merged)"
  by (auto simp: add_piece_def case_prod_beta Let_def in_chunk_def)

lemma in_chunk_pieces: "in_chunk h p merged \<or> (h = k \<and> p \<in> set (map snd ips)) \<Longrightarrow> in_chunk h p (fold (add_piece params k) ips merged)"
proof (induction ips arbitrary: merged)
  case (Cons ip ips)
  then have "in_chunk h p (add_piece params k ip merged) \<or> h = k \<and> p \<in> set (map snd ips)"
    using in_chunk_add [of h p merged params k ip] in_chunk_new [of h p params "fst ip" merged] by auto
  then show ?case using Cons.IH by simp
qed simp

lemma in_chunk_sections:
  "in_chunk h p merged \<or> (\<exists>t. (h, t) \<in> set ss \<and> p \<in> set (split_text params t)) \<Longrightarrow>
   in_chunk h p (fold (add_section params) ss merged)"
proof (induction ss arbitrary: merged)
  case (Cons kt ss)
  then have "in_chunk h p (add_section params kt merged) \<or> (\<exists>t. (h, t) \<in> set ss \<and> p \<in> set (split_text params t))"
    using in_chunk_pieces [of h p merged "fst kt" "enumerate 0 (split_text params (snd kt))" params]
    by (auto simp: add_section_def)
  then show ?case using Cons.IH by simp
qed simp

lemma chunk_document_holds:
  assumes "(h, t) \<in> set (sections (dc_body d))" "p \<in> set (split_text params t)"
  shows "\<exists>c \<in> set (chunk_document d params). \<exists>s. h \<in> set (ck_headings c) \<and> ck_content c = redact s \<and> infix_of p s"
proof -
  have "in_chunk h p (merged_sections params (dc_body d))"
    unfolding merged_sections_def using assms by (intro in_chunk_sections) auto
  then obtain hs s where "(hs, s) \<in> set (map snd (enumerate 1 (merged_sections params (dc_body d))))"
    "h \<in> set hs" "infix_of p s"
    by (auto simp: in_chunk_def)
  then obtain n where "(n, hs, s) \<in> set (enumerate 1 (merged_sections params (dc_body d)))"
    "h \<in> set hs" "infix_of p s"
    by (auto simp del: map_snd_enumerate)
  then show ?thesis by (force simp: chunk_document_def)
qed

lemma undec_zeros: "undec (zeros k s) = undec s"
proof -
  have "foldl (\<lambda>n c. n * 10 + digit c) 0 (replicate m CHR ''0'' @ s) = undec s" for m
    by (induction m) (simp_all add: undec_def digit_def)
  then show ?thesis by (simp add: undec_def)
qed

lemma chunk_id_inject: "ck_doc_id c = ck_doc_id e \<Longrightarrow> chunk_id c = chunk_id e \<longleftrightarrow> ck_ordinal c = ck_ordinal e"
  by (metis append_same_eq chunk_id_def same_append_eq undec_dec undec_zeros)

lemma chunk_ids_distinct: "distinct (map chunk_id (chunk_document d params))"
proof -
  let ?cs = "chunk_document d params"
  have "map ck_ordinal ?cs = map fst (enumerate 1 (merged_sections params (dc_body d)))"
    by (simp add: chunk_document_def comp_def case_prod_beta del: map_fst_enumerate)
  then have "distinct (map ck_ordinal ?cs)" by (simp del: upt_Suc)
  moreover have "\<forall>c \<in> set ?cs. ck_doc_id c = dc_id d" by (auto simp: chunk_document_def)
  ultimately show ?thesis using chunk_id_inject by (simp add: distinct_map inj_on_def)
qed

lemma chunk_no_secret: "c \<in> set (chunk_document d params) \<Longrightarrow> secret_word q \<Longrightarrow> ck_content c \<noteq> u @ q @ v"
  using redact_clean by (auto simp: chunk_document_def)

end
