(* ===== verification/Knowledge.thy ===== *)
theory Knowledge
  imports Chunking Tools "HOL-Library.Product_Lexorder" "HOL-Library.AList" "HOL-Library.Multiset"
begin

text \<open>
  The knowledge base's index and its search (\<open>app/kb/store.py\<close>, \<open>app/kb/search.py\<close>,
  \<open>app/tools/kb.py\<close>). The two tables are a state of their own. The embedding model, the
  reranker and what Postgres computes over a row (text rank, vector distance, collation) are
  parameters; scores are rationals. One ingest runs at a time. Shown: a search returns and
  depends on nothing outside its tenant, fused ranks are the sums they stand for, ingest keeps the index consistent, leaves other tenants alone and is idempotent.
\<close>

section \<open>The index\<close>

record kb_document_row =
  kd_id :: nat
  kd_tenant :: string
  kd_doc_id :: string
  kd_kind :: string
  kd_title :: string
  kd_services :: "string list"
  kd_version :: string
  kd_hash :: string
  kd_path :: string
  kd_embedder :: string
  kd_chunking :: string

type_synonym vector = "rat list"

record kb_chunk_row =
  kc_tenant :: string
  kc_document :: nat
  kc_chunk_id :: string
  kc_ordinal :: nat
  kc_headings :: "string list"
  kc_sections :: "string list"
  kc_content :: string
  kc_tokens :: nat
  kc_header :: string
  kc_embedding :: vector

record kb_db =
  kb_documents :: "kb_document_row list"
  kb_chunks :: "kb_chunk_row list"

text \<open>\<open>em_documents\<close> may raise; \<open>em_query\<close> stands for the vector as the query sends it.\<close>

record embedder =
  em_name :: string
  em_documents :: "string list \<Rightarrow> kb_exn + vector list"
  em_query :: "string \<Rightarrow> vector"

section \<open>Ingest\<close>

definition EMBED_TOKEN_LIMIT :: nat where
  "EMBED_TOKEN_LIMIT = 390"

record ingest_report =
  ir_added :: "string list"
  ir_updated :: "string list"
  ir_unchanged :: "string list"
  ir_removed :: "string list"
  ir_chunks :: nat
  ir_over_embed_limit :: "string list"

definition empty_report :: ingest_report where
  "empty_report = \<lparr>ir_added = [], ir_updated = [], ir_unchanged = [], ir_removed = [], ir_chunks = 0, ir_over_embed_limit = []\<rparr>"

type_synonym stored = "(string \<times> string \<times> string \<times> string) list"

definition stored_rows :: "kb_db \<Rightarrow> string \<Rightarrow> stored" where
  "stored_rows d tenant =
     map (\<lambda>r. (kd_doc_id r, kd_hash r, kd_embedder r, kd_chunking r)) (filter (\<lambda>r. kd_tenant r = tenant) (kb_documents d))"

definition document_row :: "(string \<Rightarrow> string) \<Rightarrow> string \<Rightarrow> nat \<Rightarrow> document \<Rightarrow> embedder \<Rightarrow> chunk_params \<Rightarrow> kb_document_row" where
  "document_row sha tenant n doc em params =
     \<lparr>kd_id = n, kd_tenant = tenant, kd_doc_id = dc_id doc, kd_kind = dc_kind doc, kd_title = dc_title doc,
      kd_services = dc_services doc, kd_version = dc_version doc, kd_hash = content_hash sha doc, kd_path = dc_path doc,
      kd_embedder = em_name em, kd_chunking = cp_name params\<rparr>"

definition chunk_row :: "string \<Rightarrow> nat \<Rightarrow> document \<Rightarrow> chunk \<times> vector \<Rightarrow> kb_chunk_row" where
  "chunk_row tenant n doc cv =
     (let (c, v) = cv
      in \<lparr>kc_tenant = tenant, kc_document = n, kc_chunk_id = chunk_id c, kc_ordinal = ck_ordinal c,
          kc_headings = ck_headings c, kc_sections = ck_sections c, kc_content = ck_content c, kc_tokens = chunk_tokens c,
          kc_header = dc_title doc @ '' '' @ join '' '' (ck_headings c), kc_embedding = v\<rparr>)"

definition row_key :: "kb_document_row \<Rightarrow> string \<times> string" where
  "row_key r = (kd_tenant r, kd_doc_id r)"

definition chunk_key :: "kb_chunk_row \<Rightarrow> string \<times> string" where
  "chunk_key c = (kc_tenant c, kc_chunk_id c)"

text \<open>\<open>UPDATE ... RETURNING id\<close> with its chunks deleted, or \<open>INSERT ... RETURNING id\<close>.\<close>

definition put_document ::
    "(string \<Rightarrow> string) \<Rightarrow> string \<Rightarrow> document \<Rightarrow> embedder \<Rightarrow> chunk_params \<Rightarrow> bool \<Rightarrow> kb_db \<Rightarrow> kb_exn + nat \<times> kb_db" where
  "put_document sha tenant doc em params known d =
     (let mine = (\<lambda>r. row_key r = (tenant, dc_id doc))
      in if known
         then (case filter mine (kb_documents d) of
                 [r] \<Rightarrow> Inr (kd_id r, \<lparr>kb_documents = sql_update mine (\<lambda>r. document_row sha tenant (kd_id r) doc em params) (kb_documents d),
                                     kb_chunks = filter (\<lambda>c. kc_document c \<noteq> kd_id r) (kb_chunks d)\<rparr>)
               | [] \<Rightarrow> Inl (OtherExn ''NoResultFound'')
               | _ \<Rightarrow> Inl (OtherExn ''MultipleResultsFound''))
         else if \<exists>r \<in> set (kb_documents d). mine r then Inl (OtherExn ''IntegrityError'')
         else (let n = next_id (map kd_id (kb_documents d))
               in Inr (n, d\<lparr>kb_documents := kb_documents d @ [document_row sha tenant n doc em params]\<rparr>)))"

text \<open>
  The insert of the chunks: the key \<open>(tenant_id, chunk_id)\<close> is unique, and with no
  parameters at all the statement inserts one row of defaults, which the NOT NULL columns refuse.
\<close>

definition insert_chunks :: "kb_chunk_row list \<Rightarrow> kb_db \<Rightarrow> kb_exn + kb_db" where
  "insert_chunks rows d =
     bindS (guard (rows \<noteq> [] \<and> distinct (map chunk_key (kb_chunks d @ rows))) (OtherExn ''IntegrityError''))
       (\<lambda>_. Inr (d\<lparr>kb_chunks := kb_chunks d @ rows\<rparr>))"

definition ingest_document ::
    "(string \<Rightarrow> string) \<Rightarrow> string \<Rightarrow> document \<Rightarrow> embedder \<Rightarrow> chunk_params \<Rightarrow> bool \<Rightarrow> kb_db \<Rightarrow> kb_exn + chunk list \<times> kb_db" where
  "ingest_document sha tenant doc em params known d =
     (let pieces = chunk_document doc params
      in bindS (em_documents em (map (\<lambda>c. text_for_embedding c (dc_title doc)) pieces)) (\<lambda>vectors.
         bindS (put_document sha tenant doc em params known d) (\<lambda>(n, d1).
         bindS (guard (length vectors = length pieces) (ValueError ''zip() argument lengths'')) (\<lambda>_.
         bindS (insert_chunks (map (chunk_row tenant n doc) (zip pieces vectors)) d1) (\<lambda>d2.
         Inr (pieces, d2))))))"

definition known_as :: "(string \<Rightarrow> string) \<Rightarrow> stored \<Rightarrow> document \<Rightarrow> embedder \<Rightarrow> chunk_params \<Rightarrow> bool" where
  "known_as sha stored doc em params \<longleftrightarrow> map_of stored (dc_id doc) = Some (content_hash sha doc, em_name em, cp_name params)"

definition report_document :: "bool \<Rightarrow> document \<Rightarrow> chunk list \<Rightarrow> ingest_report \<Rightarrow> ingest_report" where
  "report_document known doc pieces rep =
     rep\<lparr>ir_added := (if known then ir_added rep else ir_added rep @ [dc_id doc]),
         ir_updated := (if known then ir_updated rep @ [dc_id doc] else ir_updated rep),
         ir_chunks := ir_chunks rep + length pieces,
         ir_over_embed_limit := ir_over_embed_limit rep @ map chunk_id (filter (\<lambda>c. EMBED_TOKEN_LIMIT < chunk_tokens c) pieces)\<rparr>"

text \<open>The loop over the documents: a transaction per document, so an exception keeps the earlier ones.\<close>

fun ingest_documents ::
    "(string \<Rightarrow> string) \<Rightarrow> string \<Rightarrow> embedder \<Rightarrow> chunk_params \<Rightarrow> stored \<Rightarrow> document list \<Rightarrow> ingest_report \<Rightarrow> kb_db \<Rightarrow>
     (kb_exn + ingest_report) \<times> kb_db" where
  "ingest_documents sha tenant em params stored [] rep d = (Inr rep, d)"
| "ingest_documents sha tenant em params stored (doc # docs) rep d =
     (if known_as sha stored doc em params
      then ingest_documents sha tenant em params stored docs (rep\<lparr>ir_unchanged := ir_unchanged rep @ [dc_id doc]\<rparr>) d
      else let known = dc_id doc \<in> set (map fst stored)
           in case ingest_document sha tenant doc em params known d of
                Inl e \<Rightarrow> (Inl e, d)
              | Inr (pieces, d') \<Rightarrow>
                  ingest_documents sha tenant em params stored docs (report_document known doc pieces rep) d')"

text \<open>\<open>ON DELETE CASCADE\<close> takes the chunks along.\<close>

definition delete_documents :: "(kb_document_row \<Rightarrow> bool) \<Rightarrow> kb_db \<Rightarrow> kb_db" where
  "delete_documents p d =
     (let ids = map kd_id (filter p (kb_documents d))
      in \<lparr>kb_documents = filter (\<lambda>r. \<not> p r) (kb_documents d), kb_chunks = filter (\<lambda>c. kc_document c \<notin> set ids) (kb_chunks d)\<rparr>)"

text \<open>\<open>sorted(set(stored) - {d.id for d in docs})\<close>\<close>

definition gone_ids :: "stored \<Rightarrow> document list \<Rightarrow> string list" where
  "gone_ids stored docs = sorted_set (filter (\<lambda>k. k \<notin> set (map dc_id docs)) (map fst stored))"

definition kb_ingest ::
    "(string \<Rightarrow> string) \<Rightarrow> string \<Rightarrow> document list \<Rightarrow> embedder \<Rightarrow> chunk_params \<Rightarrow> bool \<Rightarrow> kb_db \<Rightarrow> (kb_exn + ingest_report) \<times> kb_db" where
  "kb_ingest sha tenant docs em params prune d =
     (let stored = stored_rows d tenant
      in case ingest_documents sha tenant em params stored docs empty_report d of
           (Inl e, d') \<Rightarrow> (Inl e, d')
         | (Inr rep, d') \<Rightarrow>
             if \<not> prune then (Inr rep, d')
             else let gone = gone_ids stored docs
                  in (Inr (rep\<lparr>ir_removed := gone\<rparr>),
                      delete_documents (\<lambda>r. kd_tenant r = tenant \<and> kd_doc_id r \<in> set gone) d'))"

section \<open>Search\<close>

datatype search_mode = Bm25 | Vector | Hybrid | Rerank

definition RRF_K :: nat where
  "RRF_K = 60"

definition CANDIDATES :: nat where
  "CANDIDATES = 20"

record hit =
  h_chunk_id :: string
  h_doc_id :: string
  h_kind :: string
  h_title :: string
  h_version :: string
  h_headings :: "string list"
  h_sections :: "string list"
  h_content :: string
  h_services :: "string list"
  h_score :: rat
  h_ranks :: "(string \<times> nat) list"

record search_result =
  sr_hits :: "hit list"
  sr_mode :: search_mode
  sr_degraded :: bool

definition search_status :: "search_result \<Rightarrow> string" where
  "search_status r = (if sr_hits r \<noteq> [] then ''ok'' else ''no_relevant_knowledge'')"

text \<open>
  What Postgres computes: \<open>ts_rank_cd\<close> of a chunk that matches the query, the cosine
  distance, the collation key of a text.
\<close>

record sql_functions =
  fn_rank :: "string \<Rightarrow> kb_chunk_row \<Rightarrow> rat option"
  fn_distance :: "vector \<Rightarrow> vector \<Rightarrow> rat"
  fn_collation :: "string \<Rightarrow> nat list"

text \<open>The reranker raises or takes too long (None), or scores every passage.\<close>

record knowledge_base =
  kn_sql :: sql_functions
  kn_embedder :: embedder
  kn_reranker :: "(string \<Rightarrow> string list \<Rightarrow> rat list option) option"
  kn_min_score :: rat
  kn_candidates :: nat

text \<open>\<open>_TERM.findall\<close>: the maximal runs of letters and digits.\<close>

definition term_char :: "char \<Rightarrow> bool" where
  "term_char c \<longleftrightarrow> word_char c \<and> c \<noteq> CHR ''_''"

primrec terms_from :: "string \<Rightarrow> string \<Rightarrow> string list" where
  "terms_from w [] = (if w = [] then [] else [w])"
| "terms_from w (c # s) =
     (if term_char c then terms_from (w @ [c]) s else (if w = [] then [] else [w]) @ terms_from [] s)"

definition or_query :: "string \<Rightarrow> string option" where
  "or_query q =
     (let terms = sorted_set (map (map lower_char) (terms_from [] q)) in if terms = [] then None else Some (join '' | '' terms))"

text \<open>The two queries: the joined rows that pass their WHERE, in order, at most \<open>limit\<close> of them.\<close>

definition joined_rows :: "kb_db \<Rightarrow> string \<Rightarrow> string list option \<Rightarrow> (kb_chunk_row \<times> kb_document_row) list" where
  "joined_rows d tenant services =
     filter (\<lambda>(c, r). kc_document c = kd_id r \<and> kc_tenant c = tenant \<and> kd_tenant r = tenant \<and>
               (case services of None \<Rightarrow> True | Some svc \<Rightarrow> set (kd_services r) \<inter> set svc \<noteq> {}))
       (List.product (kb_chunks d) (kb_documents d))"

definition bm25_sql :: "sql_functions \<Rightarrow> kb_db \<Rightarrow> string \<Rightarrow> string \<Rightarrow> string list option \<Rightarrow> nat \<Rightarrow>
    ((kb_chunk_row \<times> kb_document_row) \<times> rat) list" where
  "bm25_sql fn d tenant q services limit =
     take limit (sort_key (\<lambda>((c, r), s). (- s, fn_collation fn (kc_chunk_id c)))
       (List.map_filter (\<lambda>(c, r). map_option (\<lambda>s. ((c, r), s)) (fn_rank fn q c)) (joined_rows d tenant services)))"

definition vector_sql :: "sql_functions \<Rightarrow> kb_db \<Rightarrow> string \<Rightarrow> vector \<Rightarrow> string \<Rightarrow> string list option \<Rightarrow> nat \<Rightarrow>
    ((kb_chunk_row \<times> kb_document_row) \<times> rat) list" where
  "vector_sql fn d tenant v embedder services limit =
     map (\<lambda>(c, r). ((c, r), 1 - fn_distance fn (kc_embedding c) v))
       (take limit (sort_key (\<lambda>(c, r). (fn_distance fn (kc_embedding c) v, fn_collation fn (kc_chunk_id c)))
         (filter (\<lambda>(c, r). kd_embedder r = embedder) (joined_rows d tenant services))))"

definition hit_of :: "string \<Rightarrow> nat \<times> (kb_chunk_row \<times> kb_document_row) \<times> rat \<Rightarrow> hit" where
  "hit_of path row =
     (let (i, (c, r), s) = row
      in \<lparr>h_chunk_id = kc_chunk_id c, h_doc_id = kd_doc_id r, h_kind = kd_kind r, h_title = kd_title r,
          h_version = kd_version r, h_headings = kc_headings c, h_sections = kc_sections c, h_content = kc_content c,
          h_services = kd_services r, h_score = s, h_ranks = [(path, i)]\<rparr>)"

definition fetch_hits :: "string \<Rightarrow> ((kb_chunk_row \<times> kb_document_row) \<times> rat) list \<Rightarrow> hit list" where
  "fetch_hits path rows = map (hit_of path) (enumerate 1 rows)"

definition kb_bm25 :: "knowledge_base \<Rightarrow> kb_db \<Rightarrow> string \<Rightarrow> string \<Rightarrow> string list option \<Rightarrow> hit list" where
  "kb_bm25 kn d tenant query services =
     (case or_query query of
        None \<Rightarrow> []
      | Some q \<Rightarrow> fetch_hits ''bm25'' (bm25_sql (kn_sql kn) d tenant q services (kn_candidates kn)))"

definition kb_vector :: "knowledge_base \<Rightarrow> kb_db \<Rightarrow> string \<Rightarrow> string \<Rightarrow> string list option \<Rightarrow> hit list" where
  "kb_vector kn d tenant query services =
     fetch_hits ''vector'' (vector_sql (kn_sql kn) d tenant (em_query (kn_embedder kn) query) (em_name (kn_embedder kn))
       services (kn_candidates kn))"

text \<open>Reciprocal rank fusion: the dictionaries \<open>by_id\<close> (its values, in order) and \<open>scores\<close>.\<close>

definition value_of :: "'k \<Rightarrow> ('k \<times> rat) list \<Rightarrow> rat" where
  "value_of k kvs = (case map_of kvs k of None \<Rightarrow> 0 | Some v \<Rightarrow> v)"

definition merge_ranks :: "(string \<times> nat) list \<Rightarrow> (string \<times> nat) list \<Rightarrow> (string \<times> nat) list" where
  "merge_ranks a b = foldl (\<lambda>acc kv. AList.update (fst kv) (snd kv) acc) a b"

definition rrf_add :: "nat \<Rightarrow> nat \<times> hit \<Rightarrow> hit list \<times> (string \<times> rat) list \<Rightarrow> hit list \<times> (string \<times> rat) list" where
  "rrf_add k rh st =
     (let (rank, h) = rh; (by_id, scores) = st; same = (\<lambda>x. h_chunk_id x = h_chunk_id h)
      in (if list_ex same by_id then map (\<lambda>x. if same x then x\<lparr>h_ranks := merge_ranks (h_ranks x) (h_ranks h)\<rparr> else x) by_id
          else by_id @ [h],
          AList.update (h_chunk_id h) (value_of (h_chunk_id h) scores + 1 / of_nat (k + rank)) scores))"

definition rrf :: "nat \<Rightarrow> hit list list \<Rightarrow> hit list" where
  "rrf k ranked =
     (let (by_id, scores) = fold (\<lambda>hits. fold (rrf_add k) (enumerate 1 hits)) ranked ([], [])
      in map (\<lambda>h. h\<lparr>h_score := value_of (h_chunk_id h) scores\<rparr>)
           (sort_key (\<lambda>h. (- value_of (h_chunk_id h) scores, h_chunk_id h)) by_id))"

definition passage :: "hit \<Rightarrow> string" where
  "passage h = h_title h @ '' > '' @ join '' / '' (h_headings h) @ [newline] @ h_content h"

definition kb_rerank :: "knowledge_base \<Rightarrow> (string \<Rightarrow> string list \<Rightarrow> rat list option) \<Rightarrow> string \<Rightarrow> hit list \<Rightarrow> nat \<Rightarrow>
    kb_exn + search_result" where
  "kb_rerank kn scorer query fused k =
     (if fused = [] then Inr \<lparr>sr_hits = [], sr_mode = Rerank, sr_degraded = False\<rparr>
      else case scorer query (map passage fused) of
        None \<Rightarrow> Inr \<lparr>sr_hits = take k fused, sr_mode = Rerank, sr_degraded = True\<rparr>
      | Some scores \<Rightarrow>
          bindS (guard (length scores = length fused) (ValueError ''zip() argument lengths''))
            (\<lambda>_. let scored = map (\<lambda>(h, s). h\<lparr>h_score := s\<rparr>) (zip fused scores);
                     ranked = sort_key (\<lambda>h. (- h_score h, h_chunk_id h)) scored
                 in Inr \<lparr>sr_hits = take k (filter (\<lambda>h. kn_min_score kn \<le> h_score h) ranked),
                         sr_mode = Rerank, sr_degraded = False\<rparr>))"

text \<open>\<open>list(services) if services else None\<close>\<close>

definition some_services :: "string list option \<Rightarrow> string list option" where
  "some_services services = (case services of Some (s # ss) \<Rightarrow> Some (s # ss) | _ \<Rightarrow> None)"

definition kb_search :: "knowledge_base \<Rightarrow> kb_db \<Rightarrow> string \<Rightarrow> string \<Rightarrow> nat \<Rightarrow> search_mode \<Rightarrow> string list option \<Rightarrow> kb_exn + search_result" where
  "kb_search kn d tenant query k mode services =
     bindS (guard (tenant \<noteq> '''') (ValueError ''a knowledge search needs a tenant'')) (\<lambda>_.
     bindS (guard (\<not> (mode = Rerank \<and> kn_reranker kn = None)) (ValueError ''mode 'rerank' needs a reranker'')) (\<lambda>_.
       let svc = some_services services;
           bm25 = (if mode \<noteq> Vector then kb_bm25 kn d tenant query svc else []);
           vec = (if mode \<noteq> Bm25 then kb_vector kn d tenant query svc else []);
           fused = take (kn_candidates kn) (rrf RRF_K [bm25, vec])
       in case mode of
            Bm25 \<Rightarrow> Inr \<lparr>sr_hits = take k bm25, sr_mode = Bm25, sr_degraded = False\<rparr>
          | Vector \<Rightarrow> Inr \<lparr>sr_hits = take k vec, sr_mode = Vector, sr_degraded = False\<rparr>
          | Hybrid \<Rightarrow> Inr \<lparr>sr_hits = take k fused, sr_mode = Hybrid, sr_degraded = False\<rparr>
          | Rerank \<Rightarrow> (case kn_reranker kn of
                         Some scorer \<Rightarrow> kb_rerank kn scorer query fused k
                       | None \<Rightarrow> Inl (OtherExn ''AssertionError''))))"

section \<open>Fusion is the sum over the lists\<close>

definition ranked_pairs :: "hit list list \<Rightarrow> (nat \<times> hit) list" where
  "ranked_pairs ranked = concat (map (enumerate 1) ranked)"

definition rrf_score :: "nat \<Rightarrow> (nat \<times> hit) list \<Rightarrow> string \<Rightarrow> rat" where
  "rrf_score k rhs i = sum_list (map (\<lambda>(rank, h). if h_chunk_id h = i then 1 / of_nat (k + rank) else 0) rhs)"

lemma fold_ranked: "fold (\<lambda>hits. fold (rrf_add k) (enumerate 1 hits)) ranked st = fold (rrf_add k) (ranked_pairs ranked) st"
  by (induction ranked arbitrary: st) (simp_all add: ranked_pairs_def)

text \<open>The score and the ranks aside, a hit is what the row says.\<close>

definition core :: "hit \<Rightarrow> hit" where
  "core h = h\<lparr>h_score := 0, h_ranks := []\<rparr>"

lemma core_simps [simp]:
  "core (h\<lparr>h_score := s\<rparr>) = core h" "core (h\<lparr>h_ranks := rs\<rparr>) = core h" "h_chunk_id (core h) = h_chunk_id h"
  by (simp_all add: core_def)

definition fused_ok :: "nat \<Rightarrow> (nat \<times> hit) list \<Rightarrow> hit list \<times> (string \<times> rat) list \<Rightarrow> bool" where
  "fused_ok k rhs st \<longleftrightarrow>
     distinct (map h_chunk_id (fst st)) \<and> set (map h_chunk_id (fst st)) = set (map (h_chunk_id \<circ> snd) rhs) \<and>
     core ` set (fst st) \<subseteq> core ` set (map snd rhs) \<and> (\<forall>i. value_of i (snd st) = rrf_score k rhs i)"

lemma value_of_update: "value_of i (AList.update j v kvs) = (if i = j then v else value_of i kvs)"
  by (simp add: value_of_def update_conv')

lemma rrf_add_ok:
  assumes "fused_ok k rhs st"
  shows "fused_ok k (rhs @ [rh]) (rrf_add k rh st)"
proof -
  obtain rank h where rh: "rh = (rank, h)" by (cases rh)
  obtain by_id scores where st: "st = (by_id, scores)" by (cases st)
  let ?same = "\<lambda>x. h_chunk_id x = h_chunk_id h"
  have scores: "\<forall>i. value_of i (snd (rrf_add k rh st)) = rrf_score k (rhs @ [rh]) i"
    using assms by (simp add: fused_ok_def rrf_add_def rh st value_of_update rrf_score_def)
  show ?thesis
  proof (cases "list_ex ?same by_id")
    case True
    obtain l where l: "l = map (\<lambda>x. if ?same x then x\<lparr>h_ranks := merge_ranks (h_ranks x) (h_ranks h)\<rparr> else x) by_id"
      by blast
    then have e: "fst (rrf_add k rh st) = l" using True by (simp add: rrf_add_def rh st Let_def)
    have ids: "map h_chunk_id l = map h_chunk_id by_id" by (simp add: l)
    have "core ` set l = core ` set by_id"
      unfolding l set_map image_image by (rule image_cong) auto
    moreover have "h_chunk_id h \<in> set (map h_chunk_id by_id)" using True unfolding list_ex_iff by (metis image_eqI set_map)
    ultimately show ?thesis
      using assms scores unfolding fused_ok_def e ids unfolding rh st by auto
  next
    case False
    then have e: "fst (rrf_add k rh st) = by_id @ [h]" by (simp add: rrf_add_def rh st)
    moreover have "h_chunk_id h \<notin> set (map h_chunk_id by_id)" using False by (auto simp: list_ex_iff)
    ultimately show ?thesis
      using assms scores unfolding fused_ok_def rh st by auto
  qed
qed

lemma rrf_fold_ok: "fused_ok k done st \<Longrightarrow> fused_ok k (done @ rhs) (fold (rrf_add k) rhs st)"
proof (induction rhs arbitrary: "done" st)
  case (Cons rh rhs)
  from Cons.IH [OF rrf_add_ok [OF Cons.prems, of rh]] show ?case by simp
qed simp

lemma rrf_ok: "fused_ok k (ranked_pairs ranked) (fold (rrf_add k) (ranked_pairs ranked) ([], []))"
  using rrf_fold_ok [of k "[]" "([], [])" "ranked_pairs ranked"] by (simp add: fused_ok_def value_of_def rrf_score_def)

lemma rrf_eq:
  obtains by_id where "distinct (map h_chunk_id by_id)" "set (map h_chunk_id by_id) = set (map h_chunk_id (concat ranked))"
    "core ` set by_id \<subseteq> core ` set (concat ranked)"
    "rrf k ranked = map (\<lambda>h. h\<lparr>h_score := rrf_score k (ranked_pairs ranked) (h_chunk_id h)\<rparr>)
       (sort_key (\<lambda>h. (- rrf_score k (ranked_pairs ranked) (h_chunk_id h), h_chunk_id h)) by_id)"
proof -
  let ?st = "fold (rrf_add k) (ranked_pairs ranked) ([], [])"
  have snds: "map snd (ranked_pairs ranked) = concat ranked"
    by (simp add: ranked_pairs_def map_concat comp_def)
  show ?thesis
  proof (rule that [of "fst ?st"])
    show "distinct (map h_chunk_id (fst ?st))" using rrf_ok [of k ranked] by (simp add: fused_ok_def)
    show "set (map h_chunk_id (fst ?st)) = set (map h_chunk_id (concat ranked))"
      using rrf_ok [of k ranked] unfolding fused_ok_def snds [symmetric] by (simp del: set_map)
    show "core ` set (fst ?st) \<subseteq> core ` set (concat ranked)"
      using rrf_ok [of k ranked] unfolding fused_ok_def snds by blast
    have "value_of i (snd ?st) = rrf_score k (ranked_pairs ranked) i" for i
      using rrf_ok [of k ranked] by (simp add: fused_ok_def)
    then show "rrf k ranked = map (\<lambda>h. h\<lparr>h_score := rrf_score k (ranked_pairs ranked) (h_chunk_id h)\<rparr>)
       (sort_key (\<lambda>h. (- rrf_score k (ranked_pairs ranked) (h_chunk_id h), h_chunk_id h)) (fst ?st))"
      unfolding rrf_def fold_ranked case_prod_beta Let_def by simp
  qed
qed

text \<open>The fused list in one formula: every chunk once, by the sum of its reciprocal ranks.\<close>

definition rrf_reference :: "nat \<Rightarrow> hit list list \<Rightarrow> (string \<times> rat) list" where
  "rrf_reference k ranked =
     sort_key (\<lambda>(i, s). (- s, i))
       (map (\<lambda>i. (i, \<Sum>hits\<leftarrow>ranked. \<Sum>(rank, h)\<leftarrow>enumerate 1 hits. if h_chunk_id h = i then 1 / of_nat (k + rank) else 0))
         (remdups (map h_chunk_id (concat ranked))))"

lemma rrf_score_lists:
  "rrf_score k (ranked_pairs ranked) i =
     (\<Sum>hits\<leftarrow>ranked. \<Sum>(rank, h)\<leftarrow>enumerate 1 hits. if h_chunk_id h = i then 1 / of_nat (k + rank) else 0)"
  by (induction ranked) (simp_all add: rrf_score_def ranked_pairs_def)

lemma rrf_is_reference: "map (\<lambda>h. (h_chunk_id h, h_score h)) (rrf k ranked) = rrf_reference k ranked"
proof -
  obtain s where s_def: "s = rrf_score k (ranked_pairs ranked)" by blast
  obtain by_id where b: "distinct (map h_chunk_id by_id)" "set (map h_chunk_id by_id) = set (map h_chunk_id (concat ranked))"
    "rrf k ranked = map (\<lambda>h. h\<lparr>h_score := s (h_chunk_id h)\<rparr>) (sort_key (\<lambda>h. (- s (h_chunk_id h), h_chunk_id h)) by_id)"
    unfolding s_def by (rule rrf_eq [of ranked k])
  let ?ys = "map (\<lambda>h. (h_chunk_id h, h_score h)) (rrf k ranked)"
  let ?xs = "map (\<lambda>i. (i, s i)) (remdups (map h_chunk_id (concat ranked)))"
  have ys: "?ys = map (\<lambda>h. (h_chunk_id h, s (h_chunk_id h))) (sort_key (\<lambda>h. (- s (h_chunk_id h), h_chunk_id h)) by_id)"
    by (simp add: b(3))
  have "mset (map h_chunk_id by_id) = mset (remdups (map h_chunk_id (concat ranked)))"
    by (rule set_eq_iff_mset_eq_distinct [THEN iffD1]) (use b in auto)
  moreover have "mset ?ys = image_mset (\<lambda>i. (i, s i)) (mset (map h_chunk_id by_id))"
    by (simp add: ys multiset.map_comp comp_def)
  ultimately have "mset ?xs = mset ?ys" by (simp add: multiset.map_comp)
  moreover have "sorted (map (\<lambda>(i, s). (- s, i)) ?ys)"
    unfolding ys by (simp add: comp_def)
  moreover have "inj_on (\<lambda>(i, s). (- s, i)) (set ?xs)" by (auto simp: inj_on_def)
  ultimately have "sort_key (\<lambda>(i, s). (- s, i)) ?xs = ?ys" by (intro sort_key_inj_key_eq)
  then show ?thesis unfolding rrf_reference_def s_def rrf_score_lists by simp
qed

lemma rrf_core: "h \<in> set (rrf k ranked) \<Longrightarrow> core h \<in> core ` set (concat ranked)"
  by (rule rrf_eq [of ranked k]) force

section \<open>A search stays inside its tenant\<close>

definition from_tenant :: "kb_db \<Rightarrow> string \<Rightarrow> hit \<Rightarrow> bool" where
  "from_tenant d tenant h \<longleftrightarrow>
     (\<exists>c \<in> set (kb_chunks d). \<exists>r \<in> set (kb_documents d).
        kc_tenant c = tenant \<and> kd_tenant r = tenant \<and> kc_document c = kd_id r \<and>
        h_chunk_id h = kc_chunk_id c \<and> h_content h = kc_content c \<and> h_headings h = kc_headings c \<and>
        h_sections h = kc_sections c \<and> h_doc_id h = kd_doc_id r \<and> h_title h = kd_title r \<and> h_services h = kd_services r)"

lemma from_tenant_core: "core h = core g \<Longrightarrow> from_tenant d tenant h \<longleftrightarrow> from_tenant d tenant g"
  by (cases h; cases g) (simp add: core_def from_tenant_def)

lemma fetch_hits_mem: "h \<in> set (fetch_hits path rows) \<Longrightarrow> \<exists>i row. row \<in> set rows \<and> h = hit_of path (i, row)"
proof -
  assume "h \<in> set (fetch_hits path rows)"
  then obtain p where p: "p \<in> set (enumerate 1 rows)" "h = hit_of path p" by (auto simp: fetch_hits_def)
  then have "snd p \<in> set (map snd (enumerate 1 rows))" by (simp del: map_snd_enumerate)
  with p(2) show ?thesis by (cases p) auto
qed

lemma hit_of_tenant: "(c, r) \<in> set (joined_rows d tenant services) \<Longrightarrow> from_tenant d tenant (hit_of path (i, (c, r), s))"
  by (auto simp: joined_rows_def from_tenant_def hit_of_def)

lemma bm25_from_tenant: "h \<in> set (kb_bm25 kn d tenant query services) \<Longrightarrow> from_tenant d tenant h"
  by (auto simp: kb_bm25_def bm25_sql_def map_filter_def hit_of_tenant split: option.splits
      dest!: fetch_hits_mem in_set_takeD)

lemma vector_from_tenant: "h \<in> set (kb_vector kn d tenant query services) \<Longrightarrow> from_tenant d tenant h"
  by (auto simp: kb_vector_def vector_sql_def hit_of_tenant dest!: fetch_hits_mem in_set_takeD)

lemma rrf_from_tenant:
  assumes "\<forall>g \<in> set (concat ranked). from_tenant d tenant g" "h \<in> set (rrf k ranked)"
  shows "from_tenant d tenant h"
proof -
  obtain g where "g \<in> set (concat ranked)" "core h = core g" using rrf_core [OF assms(2)] by (auto simp del: set_concat)
  with assms(1) from_tenant_core show ?thesis by blast
qed

lemma rerank_Inr:
  assumes "kb_rerank kn scorer query fused k = Inr res"
  shows "core ` set (sr_hits res) \<subseteq> core ` set fused" "length (sr_hits res) \<le> k"
    "sr_degraded res \<Longrightarrow> sr_hits res = take k fused"
    "\<not> sr_degraded res \<Longrightarrow> (\<forall>h \<in> set (sr_hits res). kn_min_score kn \<le> h_score h) \<and>
       sorted (map (\<lambda>h. (- h_score h, h_chunk_id h)) (sr_hits res))"
proof -
  let ?scored = "\<lambda>scores. map (\<lambda>(h, s). h\<lparr>h_score := s\<rparr>) (zip fused scores)"
  have core: "core ` set (?scored scores) \<subseteq> core ` set fused" for scores
    by (auto dest: set_zip_leftD)
  have sorted: "sorted (map f (take k (filter p (sort_key f xs))))" for f :: "hit \<Rightarrow> rat \<times> string" and p xs
    by (simp add: take_map [symmetric] sorted_wrt_take sorted_filter)
  consider "fused = []" "res = \<lparr>sr_hits = [], sr_mode = Rerank, sr_degraded = False\<rparr>"
    | "res = \<lparr>sr_hits = take k fused, sr_mode = Rerank, sr_degraded = True\<rparr>"
    | scores where "res = \<lparr>sr_hits = take k (filter (\<lambda>h. kn_min_score kn \<le> h_score h)
          (sort_key (\<lambda>h. (- h_score h, h_chunk_id h)) (?scored scores))), sr_mode = Rerank, sr_degraded = False\<rparr>"
    using assms by (auto simp: kb_rerank_def bindS_Inr_iff split: if_splits option.splits)
  note cs = this
  show "core ` set (sr_hits res) \<subseteq> core ` set fused"
    using cs
  proof cases
    case (3 scores)
    then have "set (sr_hits res) \<subseteq> set (?scored scores)" by (auto dest: in_set_takeD)
    with core show ?thesis by blast
  qed (auto dest: in_set_takeD)
  show "length (sr_hits res) \<le> k" using cs by cases auto
  show "sr_degraded res \<Longrightarrow> sr_hits res = take k fused" using cs by cases auto
  show "\<not> sr_degraded res \<Longrightarrow> (\<forall>h \<in> set (sr_hits res). kn_min_score kn \<le> h_score h) \<and>
       sorted (map (\<lambda>h. (- h_score h, h_chunk_id h)) (sr_hits res))"
    using cs by cases (auto dest: in_set_takeD simp: sorted)
qed

lemma search_cases:
  assumes "kb_search kn d tenant query k mode services = Inr res"
  obtains bm25 vec where "bm25 = (if mode \<noteq> Vector then kb_bm25 kn d tenant query (some_services services) else [])"
    "vec = (if mode \<noteq> Bm25 then kb_vector kn d tenant query (some_services services) else [])"
    "(mode = Bm25 \<and> sr_hits res = take k bm25) \<or> (mode = Vector \<and> sr_hits res = take k vec) \<or>
     (mode = Hybrid \<and> sr_hits res = take k (take (kn_candidates kn) (rrf RRF_K [bm25, vec]))) \<or>
     (\<exists>scorer. kn_reranker kn = Some scorer \<and> mode = Rerank \<and>
        kb_rerank kn scorer query (take (kn_candidates kn) (rrf RRF_K [bm25, vec])) k = Inr res)"
  using assms
  by (cases mode) (auto simp: kb_search_def bindS_Inr_iff guard_Inr Let_def simp del: take_take split: option.splits)

lemma search_from_tenant:
  assumes "kb_search kn d tenant query k mode services = Inr res" "h \<in> set (sr_hits res)"
  shows "from_tenant d tenant h"
proof -
  from assms(1) obtain bm25 vec where
    bm25: "bm25 = (if mode \<noteq> Vector then kb_bm25 kn d tenant query (some_services services) else [])"
    and vec: "vec = (if mode \<noteq> Bm25 then kb_vector kn d tenant query (some_services services) else [])"
    and cs: "(mode = Bm25 \<and> sr_hits res = take k bm25) \<or> (mode = Vector \<and> sr_hits res = take k vec) \<or>
     (mode = Hybrid \<and> sr_hits res = take k (take (kn_candidates kn) (rrf RRF_K [bm25, vec]))) \<or>
     (\<exists>scorer. kn_reranker kn = Some scorer \<and> mode = Rerank \<and>
        kb_rerank kn scorer query (take (kn_candidates kn) (rrf RRF_K [bm25, vec])) k = Inr res)"
    by (rule search_cases)
  have lists: "\<forall>g \<in> set (concat [bm25, vec]). from_tenant d tenant g"
    using bm25_from_tenant vector_from_tenant by (auto simp: bm25 vec)
  then have fused: "\<forall>g \<in> set (take n (rrf RRF_K [bm25, vec])). from_tenant d tenant g" for n
    using rrf_from_tenant by (meson in_set_takeD)
  note mem = assms(2) in_set_takeD
  from cs show ?thesis
  proof (elim disjE exE conjE)
    assume "sr_hits res = take k bm25"
    then have "h \<in> set bm25" using mem by metis
    with lists show ?thesis by simp
  next
    assume "sr_hits res = take k vec"
    then have "h \<in> set vec" using mem by metis
    with lists show ?thesis by simp
  next
    assume "sr_hits res = take k (take (kn_candidates kn) (rrf RRF_K [bm25, vec]))"
    then have "h \<in> set (take (kn_candidates kn) (rrf RRF_K [bm25, vec]))" using mem by metis
    with fused show ?thesis by blast
  next
    fix scorer
    assume "kb_rerank kn scorer query (take (kn_candidates kn) (rrf RRF_K [bm25, vec])) k = Inr res"
    from rerank_Inr(1) [OF this] assms(2) obtain g where
      "g \<in> set (take (kn_candidates kn) (rrf RRF_K [bm25, vec]))" "core h = core g" by blast
    with fused from_tenant_core show ?thesis by blast
  qed
qed

lemma search_length: "kb_search kn d tenant query k mode services = Inr res \<Longrightarrow> length (sr_hits res) \<le> k"
  using rerank_Inr(2) by (elim search_cases) auto

text \<open>What another tenant stores is not seen at all.\<close>

definition same_tenant :: "string \<Rightarrow> kb_db \<Rightarrow> kb_db \<Rightarrow> bool" where
  "same_tenant tenant d d' \<longleftrightarrow>
     filter (\<lambda>c. kc_tenant c = tenant) (kb_chunks d) = filter (\<lambda>c. kc_tenant c = tenant) (kb_chunks d') \<and>
     filter (\<lambda>r. kd_tenant r = tenant) (kb_documents d) = filter (\<lambda>r. kd_tenant r = tenant) (kb_documents d')"

lemma same_tenant_refl [simp]: "same_tenant t d d"
  by (simp add: same_tenant_def)

lemma same_tenant_trans: "same_tenant t d d' \<Longrightarrow> same_tenant t d' d'' \<Longrightarrow> same_tenant t d d''"
  by (simp add: same_tenant_def)

lemma filter_product:
  assumes "\<And>a b. P (a, b) \<Longrightarrow> p a \<and> q b"
  shows "filter P (List.product xs ys) = filter P (List.product (filter p xs) (filter q ys))"
proof -
  have "filter (\<lambda>b. P (a, b)) ys = filter (\<lambda>b. P (a, b)) (filter q ys)" for a
    using assms by (auto intro!: filter_cong)
  moreover have "\<not> p a \<Longrightarrow> filter (\<lambda>b. P (a, b)) ys = []" for a using assms by (auto simp: filter_empty_conv)
  ultimately show ?thesis by (induction xs) (auto simp: filter_map comp_def)
qed

lemma joined_rows_same: "same_tenant tenant d d' \<Longrightarrow> joined_rows d tenant services = joined_rows d' tenant services"
  unfolding joined_rows_def same_tenant_def
  by (subst (1 2) filter_product [where p = "\<lambda>c. kc_tenant c = tenant" and q = "\<lambda>r. kd_tenant r = tenant"]) auto

lemma search_same_tenant: "same_tenant tenant d d' \<Longrightarrow>
    kb_search kn d tenant query k mode services = kb_search kn d' tenant query k mode services"
proof -
  assume s: "same_tenant tenant d d'"
  have "kb_bm25 kn d tenant query svc = kb_bm25 kn d' tenant query svc"
    "kb_vector kn d tenant query svc = kb_vector kn d' tenant query svc" for svc
    by (simp_all add: kb_bm25_def bm25_sql_def kb_vector_def vector_sql_def joined_rows_same [OF s] split: option.split)
  then show ?thesis by (simp only: kb_search_def)
qed

section \<open>Ingest keeps the index\<close>

text \<open>
  The unique keys, the foreign key with its tenant, and that no secret was stored.
\<close>

definition index_ok :: "kb_db \<Rightarrow> bool" where
  "index_ok d \<longleftrightarrow>
     distinct (map kd_id (kb_documents d)) \<and> distinct (map row_key (kb_documents d)) \<and>
     distinct (map chunk_key (kb_chunks d)) \<and>
     (\<forall>c \<in> set (kb_chunks d). (\<exists>r \<in> set (kb_documents d). kd_id r = kc_document c \<and> kd_tenant r = kc_tenant c) \<and>
        (\<forall>q u v. secret_word q \<longrightarrow> kc_content c \<noteq> u @ q @ v))"

lemma index_okD:
  assumes "index_ok d"
  shows "distinct (map kd_id (kb_documents d))" "distinct (map row_key (kb_documents d))"
    "distinct (map chunk_key (kb_chunks d))"
    "c \<in> set (kb_chunks d) \<Longrightarrow> \<exists>r \<in> set (kb_documents d). kd_id r = kc_document c \<and> kd_tenant r = kc_tenant c"
    "c \<in> set (kb_chunks d) \<Longrightarrow> secret_word q \<Longrightarrow> kc_content c \<noteq> u @ q @ v"
  using assms by (auto simp: index_ok_def)

text \<open>A document's id names its tenant, so its chunks belong to that tenant too.\<close>

lemma chunk_tenant:
  assumes "index_ok d" "c \<in> set (kb_chunks d)" "r \<in> set (kb_documents d)" "kc_document c = kd_id r"
  shows "kc_tenant c = kd_tenant r"
proof -
  obtain r' where "r' \<in> set (kb_documents d)" "kd_id r' = kc_document c" "kd_tenant r' = kc_tenant c"
    using index_okD(4) [OF assms(1,2)] by blast
  with assms(3,4) distinct_key_inj [OF index_okD(1) [OF assms(1)]] show ?thesis by metis
qed

lemma filter_chunks_same:
  assumes "index_ok d" "\<forall>n \<in> N. \<exists>r \<in> set (kb_documents d). kd_id r = n \<and> kd_tenant r = tenant" "t \<noteq> tenant"
  shows "filter (\<lambda>c. kc_tenant c = t) (filter (\<lambda>c. kc_document c \<notin> N) (kb_chunks d)) = filter (\<lambda>c. kc_tenant c = t) (kb_chunks d)"
proof -
  have "kc_tenant c = t \<Longrightarrow> c \<in> set (kb_chunks d) \<Longrightarrow> kc_document c \<notin> N" for c
    using chunk_tenant [OF assms(1)] assms(2,3) by metis
  then show ?thesis by (auto simp: filter_filter intro!: filter_cong)
qed

text \<open>What putting a document does: one row with the document's values, no chunk under its id.\<close>

definition put_ok :: "(string \<Rightarrow> string) \<Rightarrow> string \<Rightarrow> document \<Rightarrow> embedder \<Rightarrow> chunk_params \<Rightarrow> kb_db \<Rightarrow> nat \<Rightarrow> kb_db \<Rightarrow> bool" where
  "put_ok sha tenant doc em params d n d1 \<longleftrightarrow>
     document_row sha tenant n doc em params \<in> set (kb_documents d1) \<and> index_ok d1 \<and>
     (\<forall>t. t \<noteq> tenant \<longrightarrow> same_tenant t d d1) \<and>
     (\<forall>e. e \<noteq> dc_id doc \<longrightarrow> map_of (stored_rows d1 tenant) e = map_of (stored_rows d tenant) e)"

lemma document_row_simps [simp]:
  "kd_id (document_row sha tenant n doc em params) = n" "kd_tenant (document_row sha tenant n doc em params) = tenant"
  "row_key (document_row sha tenant n doc em params) = (tenant, dc_id doc)"
  "kd_doc_id (document_row sha tenant n doc em params) = dc_id doc"
  by (simp_all add: document_row_def row_key_def)

lemma filter_row_single:
  assumes "filter p xs = [x]"
  shows "x \<in> set xs" "p x" "y \<in> set xs \<Longrightarrow> p y \<Longrightarrow> y = x"
proof -
  have s: "{y \<in> set xs. p y} = {x}" using arg_cong [OF assms, of set] by simp
  show "x \<in> set xs" "p x" "y \<in> set xs \<Longrightarrow> p y \<Longrightarrow> y = x" using s by auto
qed

lemma stored_sql_update:
  "e \<noteq> dc_id doc \<Longrightarrow>
   map_of (map g' (filter (\<lambda>r. kd_tenant r = tenant) (sql_update (\<lambda>r. row_key r = (tenant, dc_id doc))
     (\<lambda>r. document_row sha tenant (kd_id r) doc em params) rows))) e =
   map_of (map g' (filter (\<lambda>r. kd_tenant r = tenant) rows)) e"
  if "g' = (\<lambda>r. (kd_doc_id r, kd_hash r, kd_embedder r, kd_chunking r))" for g'
  using that by (induction rows) (auto simp: row_key_def)

lemma put_update_ok:
  assumes ok: "index_ok d" and one: "filter (\<lambda>r. row_key r = (tenant, dc_id doc)) (kb_documents d) = [r]"
    and d1: "d1 = \<lparr>kb_documents = sql_update (\<lambda>r. row_key r = (tenant, dc_id doc))
        (\<lambda>r. document_row sha tenant (kd_id r) doc em params) (kb_documents d),
      kb_chunks = filter (\<lambda>c. kc_document c \<noteq> kd_id r) (kb_chunks d)\<rparr>"
  shows "put_ok sha tenant doc em params d (kd_id r) d1"
proof -
  let ?p = "\<lambda>r. row_key r = (tenant, dc_id doc)" and ?f = "\<lambda>r. document_row sha tenant (kd_id r) doc em params"
  have r: "r \<in> set (kb_documents d)" "?p r" using filter_row_single [OF one] by blast+
  have docs: "map kd_id (kb_documents d1) = map kd_id (kb_documents d)" "map row_key (kb_documents d1) = map row_key (kb_documents d)"
    by (simp_all add: d1 map_sql_update sql_update_def)
  have mem: "\<exists>x' \<in> set (kb_documents d1). kd_id x' = kd_id x \<and> kd_tenant x' = kd_tenant x" if "x \<in> set (kb_documents d)" for x
    using that by (intro bexI [of _ "if ?p x then ?f x else x"]) (auto simp: d1 set_sql_update row_key_def)
  have "index_ok d1"
    unfolding index_ok_def docs
  proof (intro conjI ballI)
    fix c
    assume "c \<in> set (kb_chunks d1)"
    then have c: "c \<in> set (kb_chunks d)" by (simp add: d1)
    obtain x where "x \<in> set (kb_documents d)" "kd_id x = kc_document c" "kd_tenant x = kc_tenant c"
      using index_okD(4) [OF ok c] by blast
    with mem [of x] show "\<exists>r \<in> set (kb_documents d1). kd_id r = kc_document c \<and> kd_tenant r = kc_tenant c" by metis
    show "\<forall>q u v. secret_word q \<longrightarrow> kc_content c \<noteq> u @ q @ v" using index_okD(5) [OF ok c] by blast
  qed (use index_okD [OF ok] in \<open>auto simp: d1 distinct_map intro: inj_on_subset\<close>)
  moreover have "?f r \<in> set (kb_documents d1)" using r by (auto simp: d1 set_sql_update)
  moreover have "same_tenant t d d1" if "t \<noteq> tenant" for t
  proof -
    have "filter (\<lambda>c. kc_tenant c = t) (filter (\<lambda>c. kc_document c \<notin> {kd_id r}) (kb_chunks d)) = filter (\<lambda>c. kc_tenant c = t) (kb_chunks d)"
      by (rule filter_chunks_same [OF ok _ that]) (use r in \<open>auto simp: row_key_def\<close>)
    moreover have "filter (\<lambda>r. kd_tenant r = t) (kb_documents d1) = filter (\<lambda>r. kd_tenant r = t) (kb_documents d)"
      unfolding d1 kb_db.simps using that by (intro filter_sql_update_frame) (auto simp: row_key_def)
    ultimately show ?thesis by (simp add: same_tenant_def d1)
  qed
  moreover have "map_of (stored_rows d1 tenant) e = map_of (stored_rows d tenant) e" if "e \<noteq> dc_id doc" for e
    using that stored_sql_update by (simp add: stored_rows_def d1)
  ultimately show ?thesis by (simp add: put_ok_def)
qed

lemma put_insert_ok:
  assumes ok: "index_ok d" and new: "\<not> (\<exists>r \<in> set (kb_documents d). row_key r = (tenant, dc_id doc))"
    and n: "n = next_id (map kd_id (kb_documents d))"
    and d1: "d1 = d\<lparr>kb_documents := kb_documents d @ [document_row sha tenant n doc em params]\<rparr>"
  shows "put_ok sha tenant doc em params d n d1"
proof -
  have "index_ok d1"
    using ok new next_id_fresh [of "map kd_id (kb_documents d)"] by (auto simp: index_ok_def d1 n image_iff)
  moreover have "map_of (stored_rows d1 tenant) e = map_of (stored_rows d tenant) e" if "e \<noteq> dc_id doc" for e
    using that by (auto simp: stored_rows_def d1 map_add_def document_row_def split: option.splits)
  ultimately show ?thesis by (simp add: put_ok_def d1 same_tenant_def)
qed

lemma put_document_ok:
  assumes "index_ok d" "put_document sha tenant doc em params known d = Inr (n, d1)"
  shows "put_ok sha tenant doc em params d n d1"
proof (cases known)
  case True
  with assms(2) obtain r where "filter (\<lambda>r. row_key r = (tenant, dc_id doc)) (kb_documents d) = [r]" "n = kd_id r"
    "d1 = \<lparr>kb_documents = sql_update (\<lambda>r. row_key r = (tenant, dc_id doc))
        (\<lambda>r. document_row sha tenant (kd_id r) doc em params) (kb_documents d),
      kb_chunks = filter (\<lambda>c. kc_document c \<noteq> kd_id r) (kb_chunks d)\<rparr>"
    by (auto simp: put_document_def Let_def split: list.splits)
  with put_update_ok [OF assms(1)] show ?thesis by simp
next
  case False
  with assms(2) have "\<not> (\<exists>r \<in> set (kb_documents d). row_key r = (tenant, dc_id doc))"
    "n = next_id (map kd_id (kb_documents d))" "d1 = d\<lparr>kb_documents := kb_documents d @ [document_row sha tenant n doc em params]\<rparr>"
    by (auto simp: put_document_def Let_def split: if_splits)
  then show ?thesis by (rule put_insert_ok [OF assms(1)])
qed

lemma stored_found:
  assumes "index_ok d" "r \<in> set (kb_documents d)" "kd_tenant r = tenant"
  shows "map_of (stored_rows d tenant) (kd_doc_id r) = Some (kd_hash r, kd_embedder r, kd_chunking r)"
proof (rule map_of_is_SomeI)
  have "inj_on kd_doc_id (set (filter (\<lambda>r. kd_tenant r = tenant) (kb_documents d)))"
    using index_okD(2) [OF assms(1)] by (auto simp: distinct_map inj_on_def row_key_def)
  moreover have "distinct (kb_documents d)" using index_okD(2) [OF assms(1)] by (simp add: distinct_map)
  ultimately show "distinct (map fst (stored_rows d tenant))"
    by (simp add: stored_rows_def distinct_map comp_inj_on_iff comp_def)
qed (use assms in \<open>auto simp: stored_rows_def\<close>)

lemma ingest_document_ok:
  assumes ok: "index_ok d" and run: "ingest_document sha tenant doc em params known d = Inr (pieces, d2)"
  shows "index_ok d2 \<and> (\<forall>t. t \<noteq> tenant \<longrightarrow> same_tenant t d d2) \<and>
    (\<forall>e. e \<noteq> dc_id doc \<longrightarrow> map_of (stored_rows d2 tenant) e = map_of (stored_rows d tenant) e) \<and>
    known_as sha (stored_rows d2 tenant) doc em params"
proof -
  from run obtain vectors n d1 where put: "put_document sha tenant doc em params known d = Inr (n, d1)"
    and p: "pieces = chunk_document doc params" and len: "length vectors = length pieces"
    and ins: "insert_chunks (map (chunk_row tenant n doc) (zip pieces vectors)) d1 = Inr d2"
    by (auto simp: ingest_document_def Let_def bindS_Inr_iff guard_Inr)
  let ?rows = "map (chunk_row tenant n doc) (zip pieces vectors)"
  note put1 = put_document_ok [OF ok put]
  from ins have d2: "d2 = d1\<lparr>kb_chunks := kb_chunks d1 @ ?rows\<rparr>" and dist: "distinct (map chunk_key (kb_chunks d1 @ ?rows))"
    by (auto simp: insert_chunks_def bindS_Inr_iff guard_Inr)
  have row: "document_row sha tenant n doc em params \<in> set (kb_documents d1)" and ok1: "index_ok d1"
    using put1 by (auto simp: put_ok_def)
  have mine: "kc_tenant c = tenant \<and> kc_document c = n \<and> (\<forall>q u v. secret_word q \<longrightarrow> kc_content c \<noteq> u @ q @ v)"
    if "c \<in> set ?rows" for c
    using that chunk_no_secret by (auto simp: chunk_row_def p dest!: set_zip_leftD)
  have "index_ok d2"
    unfolding index_ok_def
  proof (intro conjI ballI)
    fix c
    assume c: "c \<in> set (kb_chunks d2)"
    show "\<exists>r \<in> set (kb_documents d2). kd_id r = kc_document c \<and> kd_tenant r = kc_tenant c"
    proof (cases "c \<in> set ?rows")
      case True
      have "kc_tenant c = tenant" "kc_document c = n" using mine [OF True] by blast+
      moreover have "document_row sha tenant n doc em params \<in> set (kb_documents d2)" using row by (simp add: d2)
      ultimately show ?thesis by (metis document_row_simps(1,2))
    next
      case False
      with c have "c \<in> set (kb_chunks d1)" by (simp add: d2)
      with index_okD(4) [OF ok1] show ?thesis by (simp add: d2)
    qed
    show "\<forall>q u v. secret_word q \<longrightarrow> kc_content c \<noteq> u @ q @ v"
      using c mine [of c] index_okD(5) [OF ok1, of c] by (cases "c \<in> set ?rows") (auto simp: d2)
  qed (use index_okD [OF ok1] dist in \<open>simp_all add: d2\<close>)
  moreover have "same_tenant t d1 d2" if "t \<noteq> tenant" for t
  proof -
    have "filter (\<lambda>c. kc_tenant c = t) ?rows = []" unfolding filter_empty_conv using mine that by blast
    then show ?thesis by (simp add: same_tenant_def d2)
  qed
  moreover have stored: "stored_rows d2 tenant = stored_rows d1 tenant" by (simp add: stored_rows_def d2)
  moreover have "known_as sha (stored_rows d2 tenant) doc em params"
    using stored_found [OF ok1 row] stored by (simp add: known_as_def document_row_def)
  moreover have "same_tenant t d d1" if "t \<noteq> tenant" for t using put1 that by (simp add: put_ok_def)
  moreover have "map_of (stored_rows d1 tenant) e = map_of (stored_rows d tenant) e" if "e \<noteq> dc_id doc" for e
    using put1 that by (simp add: put_ok_def)
  ultimately show ?thesis using same_tenant_trans [of _ d d1 d2] by simp
qed

lemma ingest_documents_ok:
  assumes "ingest_documents sha tenant em params stored docs rep d = (res, d')" "index_ok d"
  shows "index_ok d' \<and> (\<forall>t. t \<noteq> tenant \<longrightarrow> same_tenant t d d') \<and>
    (\<forall>e. e \<notin> set (map dc_id docs) \<longrightarrow> map_of (stored_rows d' tenant) e = map_of (stored_rows d tenant) e)"
  using assms
proof (induction docs arbitrary: rep d)
  case (Cons doc docs)
  show ?case
  proof (cases "known_as sha stored doc em params")
    case True
    with Cons show ?thesis by simp
  next
    case False
    show ?thesis
    proof (cases "ingest_document sha tenant doc em params (dc_id doc \<in> set (map fst stored)) d")
      case (Inl e)
      with Cons.prems False show ?thesis by (simp add: Let_def)
    next
      case (Inr x)
      obtain pieces d1 where x: "x = (pieces, d1)" by (cases x)
      note step = ingest_document_ok [OF Cons.prems(2) Inr [unfolded x]]
      from Cons.prems(1) False Inr x have "ingest_documents sha tenant em params stored docs
          (report_document (dc_id doc \<in> set (map fst stored)) doc pieces rep) d1 = (res, d')" by (simp add: Let_def)
      from Cons.IH [OF this] step show ?thesis by (auto intro: same_tenant_trans [of _ d d1 d'])
    qed
  qed
qed simp

lemma delete_documents_ok:
  assumes ok: "index_ok d" and p: "\<And>r. p r \<Longrightarrow> kd_tenant r = tenant"
  shows "index_ok (delete_documents p d)" "t \<noteq> tenant \<Longrightarrow> same_tenant t d (delete_documents p d)"
proof -
  let ?d = "delete_documents p d"
  let ?N = "set (map kd_id (filter p (kb_documents d)))"
  have docs: "kb_documents ?d = filter (\<lambda>r. \<not> p r) (kb_documents d)"
    and chunks: "kb_chunks ?d = filter (\<lambda>c. kc_document c \<notin> ?N) (kb_chunks d)"
    by (simp_all add: delete_documents_def)
  show "index_ok ?d"
    unfolding index_ok_def
  proof (intro conjI ballI)
    show "distinct (map kd_id (kb_documents ?d))" "distinct (map row_key (kb_documents ?d))" "distinct (map chunk_key (kb_chunks ?d))"
      unfolding docs chunks using index_okD(1-3) [OF ok] distinct_map_filter by blast+
    fix c
    assume "c \<in> set (kb_chunks ?d)"
    then have c: "c \<in> set (kb_chunks d)" "kc_document c \<notin> ?N" by (simp_all add: chunks)
    then obtain r where r: "r \<in> set (kb_documents d)" "kd_id r = kc_document c" "kd_tenant r = kc_tenant c"
      using index_okD(4) [OF ok] by blast
    have "\<not> p r"
    proof
      assume "p r"
      with r(1) have "kd_id r \<in> ?N" by simp
      with c(2) r(2) show False by simp
    qed
    with r show "\<exists>r \<in> set (kb_documents ?d). kd_id r = kc_document c \<and> kd_tenant r = kc_tenant c"
      unfolding docs by auto
    show "\<forall>q u v. secret_word q \<longrightarrow> kc_content c \<noteq> u @ q @ v" using index_okD(5) [OF ok c(1)] by blast
  qed
  assume t: "t \<noteq> tenant"
  have "filter (\<lambda>c. kc_tenant c = t) (kb_chunks ?d) = filter (\<lambda>c. kc_tenant c = t) (kb_chunks d)"
    unfolding chunks using p by (intro filter_chunks_same [OF ok _ t]) auto
  moreover have "filter (\<lambda>r. kd_tenant r = t) (kb_documents ?d) = filter (\<lambda>r. kd_tenant r = t) (kb_documents d)"
    unfolding docs filter_filter using p t by (intro filter_cong) auto
  ultimately show "same_tenant t d ?d" by (simp add: same_tenant_def)
qed

lemma kb_ingest_ok:
  assumes "index_ok d" "kb_ingest sha tenant docs em params prune d = (res, d')"
  shows "index_ok d' \<and> (\<forall>t. t \<noteq> tenant \<longrightarrow> same_tenant t d d')"
proof -
  obtain r1 d1 where run: "ingest_documents sha tenant em params (stored_rows d tenant) docs empty_report d = (r1, d1)"
    by (metis surj_pair)
  note ok1 = ingest_documents_ok [OF run assms(1)]
  from assms(2) run consider "d' = d1"
    | gone where "d' = delete_documents (\<lambda>r. kd_tenant r = tenant \<and> kd_doc_id r \<in> set gone) d1"
    by (auto simp: kb_ingest_def Let_def split: sum.splits if_splits)
  then show ?thesis
  proof cases
    case 2
    have "index_ok d'" "t \<noteq> tenant \<Longrightarrow> same_tenant t d1 d'" for t
      unfolding 2 using ok1 by (auto intro!: delete_documents_ok [where tenant = tenant])
    with ok1 show ?thesis by (metis same_tenant_trans)
  qed (use ok1 in simp)
qed

lemma set_gone_ids: "k \<in> set (gone_ids stored docs) \<longleftrightarrow> k \<in> set (map fst stored) \<and> k \<notin> set (map dc_id docs)"
  by (simp add: gone_ids_def conj_commute)

section \<open>A second ingest finds nothing to do\<close>

lemma ingest_known:
  "\<forall>doc \<in> set docs. known_as sha stored doc em params \<Longrightarrow>
   ingest_documents sha tenant em params stored docs rep d =
     (Inr (rep\<lparr>ir_unchanged := ir_unchanged rep @ map dc_id docs\<rparr>), d)"
  by (induction docs arbitrary: rep) simp_all

lemma known_as_same: "map_of stored (dc_id doc) = map_of stored' (dc_id doc) \<Longrightarrow>
    known_as sha stored doc em params = known_as sha stored' doc em params"
  by (simp add: known_as_def)

lemma ingest_documents_known:
  assumes "ingest_documents sha tenant em params stored docs rep d = (Inr rep', d')" "index_ok d" "distinct (map dc_id docs)"
    and "\<forall>doc \<in> set docs. map_of stored (dc_id doc) = map_of (stored_rows d tenant) (dc_id doc)"
  shows "\<forall>doc \<in> set docs. known_as sha (stored_rows d' tenant) doc em params"
  using assms
proof (induction docs arbitrary: rep d)
  case (Cons doc docs)
  have fresh: "dc_id doc \<notin> set (map dc_id docs)" "\<forall>e \<in> set docs. dc_id e \<noteq> dc_id doc"
    using Cons.prems(3) by (simp_all add: image_iff) metis
  show ?case
  proof (cases "known_as sha stored doc em params")
    case True
    then have run: "ingest_documents sha tenant em params stored docs (rep\<lparr>ir_unchanged := ir_unchanged rep @ [dc_id doc]\<rparr>) d = (Inr rep', d')"
      using Cons.prems(1) by simp
    have "\<forall>e \<in> set docs. known_as sha (stored_rows d' tenant) e em params"
      using Cons.IH [OF run Cons.prems(2)] Cons.prems(3,4) by simp
    moreover have "known_as sha (stored_rows d' tenant) doc em params"
      using ingest_documents_ok [OF run Cons.prems(2)] fresh Cons.prems(4) True
      by (simp add: known_as_def)
    ultimately show ?thesis by simp
  next
    case False
    with Cons.prems(1) obtain pieces d1 where
      one: "ingest_document sha tenant doc em params (dc_id doc \<in> set (map fst stored)) d = Inr (pieces, d1)"
      and run: "ingest_documents sha tenant em params stored docs (report_document (dc_id doc \<in> set (map fst stored)) doc pieces rep) d1 = (Inr rep', d')"
      by (auto simp: Let_def split: sum.splits)
    note step = ingest_document_ok [OF Cons.prems(2) one]
    then have ok1: "index_ok d1" by blast
    have same: "\<forall>e \<in> set docs. map_of stored (dc_id e) = map_of (stored_rows d1 tenant) (dc_id e)"
      using step Cons.prems(4) fresh(2) by simp
    have "\<forall>e \<in> set docs. known_as sha (stored_rows d' tenant) e em params"
      using Cons.IH [OF run ok1 _ same] Cons.prems(3) by simp
    moreover have "known_as sha (stored_rows d' tenant) doc em params"
      using ingest_documents_ok [OF run ok1] fresh(1) step by (metis known_as_same)
    ultimately show ?thesis by simp
  qed
qed simp

lemma stored_rows_delete:
  "stored_rows (delete_documents (\<lambda>r. kd_tenant r = tenant \<and> kd_doc_id r \<in> G) d) tenant = filter (\<lambda>x. fst x \<notin> G) (stored_rows d tenant)"
  by (simp add: stored_rows_def delete_documents_def filter_map filter_filter comp_def) (metis (no_types, lifting))

lemma map_of_filter_keys: "k \<notin> G \<Longrightarrow> map_of (filter (\<lambda>x. fst x \<notin> G) xs) k = map_of xs k"
  by (induction xs) auto

lemma delete_nothing: "delete_documents (\<lambda>r. kd_tenant r = t \<and> kd_doc_id r \<in> {}) d = d"
  by (simp add: delete_documents_def)

lemma reingest_idle:
  assumes ok: "index_ok d" and ids: "distinct (map dc_id docs)"
    and run: "kb_ingest sha tenant docs em params prune d = (Inr rep, d1)"
  shows "kb_ingest sha tenant docs em params prune d1 = (Inr (empty_report\<lparr>ir_unchanged := map dc_id docs\<rparr>), d1)"
proof -
  let ?s = "stored_rows d tenant"
  obtain rep0 d0 where run0: "ingest_documents sha tenant em params ?s docs empty_report d = (Inr rep0, d0)"
    using run by (auto simp: kb_ingest_def Let_def split: prod.splits sum.splits)
  let ?gone = "set (gone_ids ?s docs)"
  have d1: "d1 = (if prune then delete_documents (\<lambda>r. kd_tenant r = tenant \<and> kd_doc_id r \<in> ?gone) d0 else d0)"
    using run run0 by (auto simp: kb_ingest_def Let_def)
  have known0: "\<forall>doc \<in> set docs. known_as sha (stored_rows d0 tenant) doc em params"
    using ingest_documents_known [OF run0 ok ids] by simp
  have s1: "stored_rows d1 tenant = (if prune then filter (\<lambda>x. fst x \<notin> ?gone) (stored_rows d0 tenant) else stored_rows d0 tenant)"
    unfolding d1 using stored_rows_delete [of tenant ?gone d0] by auto
  have "\<forall>doc \<in> set docs. known_as sha (stored_rows d1 tenant) doc em params"
  proof
    fix doc
    assume doc: "doc \<in> set docs"
    then have "dc_id doc \<notin> ?gone" by (simp add: set_gone_ids)
    then have "map_of (stored_rows d1 tenant) (dc_id doc) = map_of (stored_rows d0 tenant) (dc_id doc)"
      unfolding s1 using map_of_filter_keys [of "dc_id doc" ?gone "stored_rows d0 tenant"] by presburger
    with known0 doc show "known_as sha (stored_rows d1 tenant) doc em params" using known_as_same by metis
  qed
  note again = ingest_known [OF this, of tenant empty_report d1]
  have gone: "gone_ids (stored_rows d1 tenant) docs = []" if prune
  proof -
    have "k \<notin> set (gone_ids (stored_rows d1 tenant) docs)" for k
    proof
      assume "k \<in> set (gone_ids (stored_rows d1 tenant) docs)"
      then have n: "k \<notin> set (map dc_id docs)" and k: "k \<in> set (map fst (stored_rows d1 tenant))"
        by (simp_all add: set_gone_ids)
      from k \<open>prune\<close> have "k \<notin> ?gone" "k \<in> set (map fst (stored_rows d0 tenant))" by (auto simp: s1)
      moreover have "map_of (stored_rows d0 tenant) k = map_of ?s k" using ingest_documents_ok [OF run0 ok] n by blast
      ultimately show False using n by (metis map_of_eq_None_iff set_gone_ids set_map)
    qed
    then show ?thesis by (metis list.set_intros(1) neq_Nil_conv)
  qed
  show ?thesis
  proof (cases prune)
    case True
    with again gone [OF True] show ?thesis
      by (simp add: kb_ingest_def empty_report_def delete_documents_def)
  next
    case False
    with again show ?thesis by (simp add: kb_ingest_def empty_report_def)
  qed
qed

section \<open>The search as a tool\<close>

text \<open>\<open>search_for_tool\<close>; \<open>fl\<close> is the \<open>repr\<close> of a float, rounded to four places before.\<close>

definition round4 :: "rat \<Rightarrow> rat" where
  "round4 x = of_int (round_even (x * 10000)) / 10000"

definition search_for_tool :: "(rat \<Rightarrow> string) \<Rightarrow> knowledge_base \<Rightarrow> kb_db \<Rightarrow> string \<Rightarrow> string \<Rightarrow> nat \<Rightarrow> kb_exn + json" where
  "search_for_tool fl kn d tenant query k =
     bindS (kb_search kn d tenant query k Rerank None) (\<lambda>res.
       Inr (JObj [(''status'', JStr (search_status res)), (''degraded'', JBool (sr_degraded res)),
         (''hits'', JArr (map (\<lambda>h. JObj [(''chunk_id'', JStr (h_chunk_id h)), (''doc_id'', JStr (h_doc_id h)),
            (''kind'', JStr (h_kind h)), (''title'', JStr (h_title h)), (''version'', JStr (h_version h)),
            (''headings'', JArr (map JStr (h_headings h))), (''score'', JFloat (fl (round4 (h_score h)))),
            (''content'', JStr (h_content h))]) (sr_hits res)))]))"

text \<open>\<open>_search\<close>: the tenant comes from the clients, never from the arguments.\<close>

datatype kb_fetch_error = FetchRefused tool_error | FetchRaised kb_exn

definition kb_fetch ::
    "(rat \<Rightarrow> string) \<Rightarrow> (knowledge_base \<times> kb_db) option \<Rightarrow> string option \<Rightarrow> string \<Rightarrow> nat \<Rightarrow> kb_fetch_error + json" where
  "kb_fetch fl kb tenant query k =
     (case kb of
        None \<Rightarrow> Inl (FetchRefused (ToolError ''unavailable'' ''the knowledge base is not configured on this worker'' False))
      | Some (kn, d) \<Rightarrow>
          (case tenant of
             Some (c # t) \<Rightarrow> (case search_for_tool fl kn d (c # t) query k of Inl e \<Rightarrow> Inl (FetchRaised e) | Inr j \<Rightarrow> Inr j)
           | _ \<Rightarrow> Inl (FetchRefused (ToolError ''forbidden'' ''a knowledge search needs the incident's tenant'' False))))"

definition MAX_CHARS_PER_HIT :: nat where
  "MAX_CHARS_PER_HIT = 900"

fun kb_lines_from :: "nat \<Rightarrow> string list \<Rightarrow> string list" where
  "kb_lines_from used [] = []"
| "kb_lines_from used (raw # lines) =
     (let line = strip raw
      in if line = [] then kb_lines_from used lines
         else if MAX_CHARS_PER_HIT < used + length line then [take (MAX_CHARS_PER_HIT - used) line @ [ellipsis]]
         else line # kb_lines_from (used + length line) lines)"

definition kb_lines :: "string \<Rightarrow> string list" where
  "kb_lines content = kb_lines_from 0 (splitlines content)"

text \<open>The summary of a result of the shape above; \<open>round3\<close> rounds the text of a float to three places.\<close>

definition kb_passage :: "(string \<Rightarrow> string) \<Rightarrow> obj \<Rightarrow> obj option" where
  "kb_passage round3 h =
     (case (jget h ''doc_id'', jget h ''kind'', jget h ''version'', jget h ''headings'', jget h ''score'', jget h ''content'') of
        (Some (JStr doc), Some (JStr kind), Some (JStr version), Some (JArr hs), Some (JFloat score), Some (JStr content)) \<Rightarrow>
          Some [(''source'', JStr (doc @ '' ('' @ kind @ '', version '' @ version @ '')'')),
                (''section'', JStr (join '' / '' (map json_str hs))), (''relevance'', JFloat (round3 score)),
                (''text'', JArr (map JStr (kb_lines content)))]
      | _ \<Rightarrow> None)"

definition KB_NOTE :: string where
  "KB_NOTE = ''Background from runbooks and past incidents: what usually goes wrong and what to check. '' @
     ''It is not data about this incident; confirm with live queries before relying on it.''"

definition kb_summarize :: "(string \<Rightarrow> string) \<Rightarrow> obj \<Rightarrow> obj option" where
  "kb_summarize round3 raw =
     (case (jget raw ''status'', jget raw ''hits'') of
        (Some status, Some (JArr hits)) \<Rightarrow>
          (if list_all (\<lambda>h. case h of JObj kvs \<Rightarrow> kb_passage round3 kvs \<noteq> None | _ \<Rightarrow> False) hits
           then Some ([(''status'', status),
               (''note'', JStr (if hits = [] then ''Nothing in the knowledge base is relevant enough. Rely on live data.'' else KB_NOTE)),
               (''passages'', JArr (map JObj (List.map_filter (\<lambda>h. case h of JObj kvs \<Rightarrow> kb_passage round3 kvs | _ \<Rightarrow> None) hits)))] @
             (case jget raw ''degraded'' of
                Some b \<Rightarrow> (if truthy b then [(''degraded'', JStr ''the reranker was unavailable; passages are in their fused order, unfiltered'')] else [])
              | None \<Rightarrow> []))
           else None)
      | _ \<Rightarrow> None)"

lemma kb_lines_from_length: "used \<le> MAX_CHARS_PER_HIT \<Longrightarrow>
    used + sum_list (map length (kb_lines_from used lines)) \<le> MAX_CHARS_PER_HIT + 1"
proof (induction used lines rule: kb_lines_from.induct)
  case (2 used raw lines)
  then show ?case by (auto simp: Let_def)
qed simp

lemma kb_fetch_tenant:
  assumes "same_tenant tenant d d'"
  shows "kb_fetch fl (Some (kn, d)) (Some tenant) query k = kb_fetch fl (Some (kn, d')) (Some tenant) query k"
proof -
  have "search_for_tool fl kn d tenant query k = search_for_tool fl kn d' tenant query k"
    unfolding search_for_tool_def search_same_tenant [OF assms] ..
  then show ?thesis by (cases tenant) (simp_all add: kb_fetch_def)
qed

end
