(* ===== verification/Retrieval.thy ===== *)
theory Retrieval
  imports Knowledge
begin

text \<open>
  The lexical reranker (\<open>app/kb/models.py\<close>) and the retrieval evaluation
  (\<open>app/kb/evaluate.py\<close>): ranks, metrics and the choice of the reranker's threshold. Scores are rationals. Shown: the chosen threshold separates the
  development queries as well as any threshold can.
\<close>

section \<open>The overlap reranker\<close>

primrec words_in :: "string \<Rightarrow> string \<Rightarrow> string list" where
  "words_in w [] = (if w = [] then [] else [w])"
| "words_in w (c # s) =
     (if slug_char c then words_in (w @ [c]) s else (if w = [] then [] else [w]) @ words_in [] s)"

definition word_set :: "string \<Rightarrow> string list" where
  "word_set s = remdups (words_in [] (map lower_char s))"

definition overlap_scores :: "string \<Rightarrow> string list \<Rightarrow> rat list" where
  "overlap_scores query passages =
     (let q = word_set query
      in map (\<lambda>p. of_nat (length (filter (\<lambda>w. w \<in> set (word_set p)) q)) / of_nat (if q = [] then 1 else length q)) passages)"

section \<open>Queries and outcomes\<close>

definition KS :: "nat list" where
  "KS = [1, 3, 5]"

definition MRR_DEPTH :: nat where
  "MRR_DEPTH = 10"

record query =
  qu_id :: string
  qu_kind :: string
  qu_query :: string
  qu_relevant :: "string list"

text \<open>\<open>int(self.id.lstrip("q")) % 2\<close>; None is \<open>ValueError\<close>.\<close>

definition query_split :: "query \<Rightarrow> string option" where
  "query_split q =
     map_option (\<lambda>n. if n mod 2 \<noteq> 0 then ''dev'' else ''test'') (py_int (dropWhile (\<lambda>c. c = CHR ''q'') (qu_id q)))"

definition answerable :: "query \<Rightarrow> bool" where
  "answerable q \<longleftrightarrow> qu_relevant q \<noteq> []"

text \<open>Labels that name no section of the corpus.\<close>

definition check_labels :: "query list \<Rightarrow> document list \<Rightarrow> string list" where
  "check_labels queries docs =
     (let known = concat (map (\<lambda>d. concat (map ck_sections (chunk_document d SECTION))) docs)
      in concat (map (\<lambda>q. map (\<lambda>s. qu_id q @ '': '' @ s) (filter (\<lambda>s. s \<notin> set known) (sorted_set (qu_relevant q)))) queries))"

fun first_relevant_from :: "nat \<Rightarrow> hit list \<Rightarrow> string list \<Rightarrow> nat option" where
  "first_relevant_from rank [] relevant = None"
| "first_relevant_from rank (h # hs) relevant =
     (if set relevant \<inter> set (h_sections h) \<noteq> {} then Some rank else first_relevant_from (Suc rank) hs relevant)"

definition first_relevant :: "hit list \<Rightarrow> string list \<Rightarrow> nat option" where
  "first_relevant hits relevant = first_relevant_from 1 hits relevant"

record query_outcome =
  oc_query :: query
  oc_rank :: "nat option"
  oc_top_score :: "rat option"
  oc_top_relevant :: bool
  oc_context_tokens :: nat

definition one_outcome :: "query \<Rightarrow> hit list \<Rightarrow> query_outcome" where
  "one_outcome q hits =
     (let rank = first_relevant hits (qu_relevant q)
      in \<lparr>oc_query = q, oc_rank = rank, oc_top_score = (if hits = [] then None else Some (h_score (hd hits))),
          oc_top_relevant = (rank = Some 1),
          oc_context_tokens = sum_list (map (\<lambda>h. tokens (h_content h)) (take 3 hits))\<rparr>)"

definition round3 :: "rat \<Rightarrow> rat" where
  "round3 x = of_int (round_even (x * 1000)) / 1000"

definition portion :: "('a \<Rightarrow> bool) \<Rightarrow> 'a list \<Rightarrow> rat" where
  "portion p xs = of_nat (length (filter p xs)) / of_nat (length xs)"

definition rank_metrics :: "query_outcome list \<Rightarrow> (string \<times> rat) list" where
  "rank_metrics ocs =
     (let positives = filter (\<lambda>oc. answerable (oc_query oc)) ocs
      in if positives = [] then [(''n'', 0)]
         else (''n'', of_nat (length positives)) #
              map (\<lambda>k. (''hit@'' @ dec k, round3 (portion (\<lambda>oc. case oc_rank oc of None \<Rightarrow> False | Some r \<Rightarrow> r \<le> k) positives))) KS @
              [(''mrr'', round3 (sum_list (map (\<lambda>oc. case oc_rank oc of None \<Rightarrow> 0 | Some r \<Rightarrow> 1 / of_nat r) positives) /
                  of_nat (length positives))),
               (''context_tokens'', of_int (round_even (of_nat (sum_list (map oc_context_tokens positives)) / of_nat (length positives))))])"

section \<open>The threshold\<close>

definition top_or_zero :: "query_outcome \<Rightarrow> rat" where
  "top_or_zero oc = (case oc_top_score oc of None \<Rightarrow> 0 | Some s \<Rightarrow> s)"

definition dev_scores :: "bool \<Rightarrow> query_outcome list \<Rightarrow> rat list" where
  "dev_scores good dev = map top_or_zero (filter (\<lambda>oc. answerable (oc_query oc) = good) dev)"

definition balanced :: "rat list \<Rightarrow> rat list \<Rightarrow> rat \<Rightarrow> rat" where
  "balanced good bad t =
     ((if good = [] then 0 else portion (\<lambda>s. t \<le> s) good) + (if bad = [] then 0 else portion (\<lambda>s. s < t) bad)) / 2"

text \<open>The loop over the cuts in rising order: the first cut of the best score.\<close>

fun best_cut :: "(rat \<Rightarrow> rat) \<Rightarrow> rat list \<Rightarrow> rat \<times> rat \<Rightarrow> rat \<times> rat" where
  "best_cut acc [] b = b"
| "best_cut acc (t # ts) (best, best_score) =
     best_cut acc ts (if best_score < acc t then (t, acc t) else (best, best_score))"

definition choose_threshold :: "query_outcome list \<Rightarrow> rat" where
  "choose_threshold dev =
     (let good = dev_scores True dev; bad = dev_scores False dev;
          best = fst (best_cut (balanced good bad) (sort (remdups (0 # good @ bad))) (0, - 1));
          lower = filter (\<lambda>s. s < best) (good @ bad)
      in if lower = [] then best else (best + foldr max lower (hd lower)) / 2)"

definition round4_opt :: "bool \<Rightarrow> rat \<Rightarrow> rat option" where
  "round4_opt some x = (if some then Some (round3 x) else None)"

definition thresholded :: "query_outcome list \<Rightarrow> rat \<Rightarrow> rat \<times> rat option \<times> rat option \<times> rat option" where
  "thresholded ocs threshold =
     (let pos = filter (\<lambda>oc. answerable (oc_query oc)) ocs; neg = filter (\<lambda>oc. \<not> answerable (oc_query oc)) ocs;
          above = (\<lambda>oc. case oc_top_score oc of None \<Rightarrow> False | Some s \<Rightarrow> threshold \<le> s)
      in (round4 threshold, round4_opt (pos \<noteq> []) (portion (\<lambda>oc. above oc \<and> oc_top_relevant oc) pos),
          round4_opt (pos \<noteq> []) (portion (\<lambda>oc. \<not> above oc) pos), round4_opt (neg \<noteq> []) (portion (\<lambda>oc. \<not> above oc) neg)))"

section \<open>The threshold is the best there is\<close>

lemma best_cut_result:
  assumes "best_cut acc ts (b, acc' ) = (t, a)"
  shows "acc' \<le> a \<and> (\<forall>u \<in> set ts. acc u \<le> a) \<and> ((t = b \<and> a = acc') \<or> (t \<in> set ts \<and> a = acc t))"
  using assms
proof (induction ts arbitrary: b acc')
  case (Cons u us)
  then show ?case by (cases "acc' < acc u") fastforce+
qed simp

lemma portion_cong: "(\<And>x. x \<in> set xs \<Longrightarrow> p x = q x) \<Longrightarrow> portion p xs = portion q xs"
  by (simp add: portion_def cong: filter_cong)

lemma portion_le: "(\<And>x. x \<in> set xs \<Longrightarrow> p x \<Longrightarrow> q x) \<Longrightarrow> portion p xs \<le> portion q xs"
proof -
  assume "\<And>x. x \<in> set xs \<Longrightarrow> p x \<Longrightarrow> q x"
  then have "length (filter p xs) \<le> length (filter q xs)" by (induction xs) auto
  then show ?thesis by (simp add: portion_def divide_right_mono)
qed

lemma portion_bounds: "0 \<le> portion p xs" "portion p xs \<le> 1"
  by (simp_all add: portion_def divide_le_eq_1)

lemma balanced_cong:
  "(\<And>s. s \<in> set (good @ bad) \<Longrightarrow> t \<le> s \<longleftrightarrow> u \<le> s) \<Longrightarrow> balanced good bad t = balanced good bad u"
proof -
  assume eq: "\<And>s. s \<in> set (good @ bad) \<Longrightarrow> t \<le> s \<longleftrightarrow> u \<le> s"
  have "portion (\<lambda>s. t \<le> s) good = portion (\<lambda>s. u \<le> s) good" using eq by (intro portion_cong) simp
  moreover have "portion (\<lambda>s. s < t) bad = portion (\<lambda>s. s < u) bad"
    using eq by (intro portion_cong) (simp add: not_le [symmetric])
  ultimately show ?thesis by (simp add: balanced_def)
qed

lemma foldr_max_in: "xs \<noteq> [] \<Longrightarrow> foldr max xs (hd xs) \<in> set xs \<and> (\<forall>x \<in> set xs. x \<le> foldr max xs (hd (xs :: rat list)))"
proof -
  have "foldr max ys a \<in> insert a (set ys) \<and> a \<le> foldr max ys a \<and> (\<forall>y \<in> set ys. y \<le> foldr max ys a)" for ys and a :: rat
    by (induction ys) (auto simp: max_def)
  then show "xs \<noteq> [] \<Longrightarrow> ?thesis" by (metis hd_in_set insert_absorb)
qed

text \<open>Halfway to the next lower score, every query falls on the side it falls on at the score itself.\<close>

lemma halfway_same:
  assumes "lower = filter (\<lambda>s. s < best) ss" "lower \<noteq> []" "s \<in> set ss"
  shows "(best + foldr max lower (hd lower)) / 2 \<le> s \<longleftrightarrow> best \<le> (s :: rat)"
proof -
  let ?m = "foldr max lower (hd lower)"
  have m: "?m \<in> set lower" "\<forall>x \<in> set lower. x \<le> ?m" using foldr_max_in [OF assms(2)] by blast+
  then have "?m < best" using assms(1) by auto
  show ?thesis
  proof (cases "s < best")
    case True
    then have "s \<le> ?m" using m(2) assms(1,3) by auto
    with \<open>?m < best\<close> show ?thesis by (simp add: field_simps)
  next
    case False
    with \<open>?m < best\<close> show ?thesis by (simp add: field_simps)
  qed
qed

lemma cut_covered:
  assumes "good \<noteq> []" "\<forall>s \<in> set (good @ bad). 0 \<le> s"
  shows "\<exists>u \<in> set (0 # good @ bad). balanced good bad t \<le> balanced good bad (u :: rat)"
proof (cases "\<exists>s \<in> set (0 # good @ bad). t \<le> s")
  case True
  obtain S where S: "S = {s \<in> set (0 # good @ bad). t \<le> s}" by blast
  have fin: "finite S" unfolding S by simp
  have "S \<noteq> {}" using True S by blast
  then have "Min S \<in> S" by (rule Min_in [OF fin])
  then obtain u where u: "u = Min S" "u \<in> set (0 # good @ bad)" "t \<le> u" using S by blast
  have "t \<le> s \<longleftrightarrow> u \<le> s" if "s \<in> set (good @ bad)" for s
  proof
    assume "t \<le> s"
    with that have "s \<in> S" by (simp add: S)
    then show "u \<le> s" unfolding u(1) by (rule Min_le [OF fin])
  qed (use u(3) in simp)
  then have "balanced good bad t = balanced good bad u" by (rule balanced_cong)
  with u(2) show ?thesis by auto
next
  case False
  then have "portion (\<lambda>s. t \<le> s) good = 0" by (auto simp: portion_def filter_empty_conv)
  then have "balanced good bad t \<le> 1 / 2" using portion_bounds(2) [of "\<lambda>s. s < t" bad] by (simp add: balanced_def)
  moreover have "portion (\<lambda>s. 0 \<le> s) good = 1" using assms by (simp add: portion_def filter_id_conv [THEN iffD2])
  then have "1 / 2 \<le> balanced good bad 0" using assms(1) portion_bounds(1) [of "\<lambda>s. s < 0" bad] by (simp add: balanced_def)
  ultimately show ?thesis by auto
qed

lemma choose_threshold_best:
  assumes "dev_scores True dev \<noteq> []" "\<forall>s \<in> set (dev_scores True dev @ dev_scores False dev). 0 \<le> s"
  shows "balanced (dev_scores True dev) (dev_scores False dev) t \<le>
    balanced (dev_scores True dev) (dev_scores False dev) (choose_threshold dev)"
proof -
  let ?good = "dev_scores True dev" and ?bad = "dev_scores False dev"
  let ?acc = "balanced ?good ?bad" and ?cuts = "sort (remdups (0 # dev_scores True dev @ dev_scores False dev))"
  obtain best a where b: "best_cut ?acc ?cuts (0, - 1) = (best, a)" by (metis surj_pair)
  note r = best_cut_result [OF b]
  have pos: "0 \<le> ?acc u" for u
    by (simp add: balanced_def portion_bounds add_nonneg_nonneg)
  have cuts: "set ?cuts = set (0 # ?good @ ?bad)" by auto
  have "(0 :: rat) \<in> set ?cuts" by simp
  then have "?acc 0 \<le> a" using r by blast
  then have "a \<noteq> - 1" using pos [of 0] by linarith
  with r have a: "a = ?acc best" by blast
  have ct: "choose_threshold dev = (if filter (\<lambda>s. s < best) (?good @ ?bad) = [] then best
      else (best + foldr max (filter (\<lambda>s. s < best) (?good @ ?bad)) (hd (filter (\<lambda>s. s < best) (?good @ ?bad)))) / 2)"
    by (simp only: choose_threshold_def Let_def b fst_conv)
  have "?acc (choose_threshold dev) = ?acc best"
  proof (cases "filter (\<lambda>s. s < best) (?good @ ?bad) = []")
    case True
    then show ?thesis unfolding ct by (simp only: if_P)
  next
    case False
    then show ?thesis unfolding ct using halfway_same [OF refl False] by (simp only: if_False) (rule balanced_cong)
  qed
  moreover obtain u where "u \<in> set (0 # ?good @ ?bad)" "?acc t \<le> ?acc u" using cut_covered [OF assms] by blast
  moreover have "?acc u \<le> a" using r cuts \<open>u \<in> set (0 # ?good @ ?bad)\<close> by blast
  ultimately show ?thesis using a by simp
qed

end
