(* ===== verification/BackendTools.thy ===== *)
theory BackendTools
  imports Tools ExecutorK8s "HOL-Library.AList"
begin

text \<open>
  The tools that read Kubernetes and flagd (\<open>app/tools/clients.py\<close>, \<open>k8s.py\<close>, \<open>flags.py\<close>):
  how an HTTP answer becomes JSON or a \<open>ToolError\<close>, what is fetched, and the summaries. A
  backend is a function from a request to its answer, \<open>datetime.fromisoformat\<close> a parameter.
  Shown: an event of the fault injector never leaves the fetch, the event counts add up, a diff
  lists exactly the paths that differ between two revisions.
\<close>

section \<open>Answers\<close>

text \<open>
  A \<open>ToolError\<close>, or another Python exception by its name. A value of a type that the backend's
  API does not have there is the exception \<open>schema\<close>; nothing is said about those.
\<close>

datatype texn = ToolRaised tool_error | PyExn string

datatype http_reply = HttpTimeout | HttpTransport string | HttpReply nat string string "json option"

definition RETRYABLE :: "nat list" where
  "RETRYABLE = [429, 500, 502, 503, 504]"

definition reply_detail :: "string \<Rightarrow> string \<Rightarrow> json option \<Rightarrow> string" where
  "reply_detail body_text phrase body =
     (case body of
        None \<Rightarrow> (if body_text = [] then phrase else take 500 body_text)
      | Some j \<Rightarrow> take 500 (json_str
          (case j of
             JObj kvs \<Rightarrow> (case List.map_filter (\<lambda>k. case jget kvs k of Some v \<Rightarrow> if truthy v then Some v else None | None \<Rightarrow> None)
                               [''error'', ''message'', ''errors''] of v # vs \<Rightarrow> v | [] \<Rightarrow> j)
           | _ \<Rightarrow> j)))"

definition get_json :: "string \<Rightarrow> http_reply \<Rightarrow> texn + json" where
  "get_json base_url reply =
     (case reply of
        HttpTimeout \<Rightarrow> Inl (ToolRaised (ToolError ''timeout'' (base_url @ '' did not answer in time'') True))
      | HttpTransport e \<Rightarrow> Inl (ToolRaised (ToolError ''unavailable'' (''cannot reach '' @ base_url @ '': '' @ e) True))
      | HttpReply status body_text phrase body \<Rightarrow>
          if 400 \<le> status
          then (let detail = reply_detail body_text phrase body
                in Inl (ToolRaised
                     (if status \<in> set RETRYABLE then ToolError ''backend_error'' (''HTTP '' @ dec status @ '': '' @ detail) True
                      else if status = 404 then ToolError ''not_found'' detail False
                      else if status \<in> {401, 403} then ToolError ''forbidden'' detail False
                      else ToolError ''bad_query'' detail False)))
          else (case body of
                  Some j \<Rightarrow> Inr j
                | None \<Rightarrow> Inl (ToolRaised (ToolError ''backend_error'' (''response is not JSON: '' @ take 200 body_text) False))))"

type_synonym http_backend = "string \<Rightarrow> (string \<times> string) list \<Rightarrow> http_reply"

section \<open>Reading JSON\<close>

text \<open>\<open>x.get(k, default)\<close>, \<open>x[k]\<close>, iteration over a list, a text.\<close>

definition tget :: "json \<Rightarrow> string \<Rightarrow> json \<Rightarrow> texn + json" where
  "tget j k dflt =
     (case j of JObj kvs \<Rightarrow> Inr (case jget kvs k of None \<Rightarrow> dflt | Some v \<Rightarrow> v) | _ \<Rightarrow> Inl (PyExn ''AttributeError''))"

definition tidx :: "json \<Rightarrow> string \<Rightarrow> texn + json" where
  "tidx j k =
     (case j of JObj kvs \<Rightarrow> (case jget kvs k of None \<Rightarrow> Inl (PyExn ''KeyError'') | Some v \<Rightarrow> Inr v) | _ \<Rightarrow> Inl (PyExn ''TypeError''))"

definition titems :: "json \<Rightarrow> texn + json list" where
  "titems j = (case j of JArr xs \<Rightarrow> Inr xs | _ \<Rightarrow> Inl (PyExn ''schema''))"

definition tobj :: "json \<Rightarrow> texn + obj" where
  "tobj j = (case j of JObj kvs \<Rightarrow> Inr kvs | _ \<Rightarrow> Inl (PyExn ''AttributeError''))"

definition ttext :: "json \<Rightarrow> texn + string" where
  "ttext j = (case j of JStr s \<Rightarrow> Inr s | _ \<Rightarrow> Inl (PyExn ''schema''))"

definition tint :: "json \<Rightarrow> texn + int" where
  "tint j =
     (case j of JInt n \<Rightarrow> Inr n | JStr s \<Rightarrow> (case py_int s of Some n \<Rightarrow> Inr n | None \<Rightarrow> Inl (PyExn ''ValueError''))
      | _ \<Rightarrow> Inl (PyExn ''schema''))"

definition or_else :: "json \<Rightarrow> json \<Rightarrow> json" where
  "or_else a b = (if truthy a then a else b)"

text \<open>A comprehension with a condition that may raise.\<close>

fun filter_mapS :: "('a \<Rightarrow> 'e + bool) \<Rightarrow> ('a \<Rightarrow> 'e + 'b) \<Rightarrow> 'a list \<Rightarrow> 'e + 'b list" where
  "filter_mapS p f [] = Inr []"
| "filter_mapS p f (x # xs) =
     bindS (p x) (\<lambda>b. if \<not> b then filter_mapS p f xs
       else bindS (f x) (\<lambda>y. bindS (filter_mapS p f xs) (\<lambda>ys. Inr (y # ys))))"

lemma filter_mapS_Inr: "filter_mapS p f xs = Inr ys \<Longrightarrow> y \<in> set ys \<Longrightarrow> \<exists>x \<in> set xs. p x = Inr True \<and> f x = Inr y"
  by (induction xs arbitrary: ys) (auto simp: bindS_Inr_iff split: if_splits)

text \<open>\<open>any(p(x) for x in xs)\<close> stops at the first that holds.\<close>

fun anyS :: "('a \<Rightarrow> 'e + bool) \<Rightarrow> 'a list \<Rightarrow> 'e + bool" where
  "anyS p [] = Inr False"
| "anyS p (x # xs) = bindS (p x) (\<lambda>b. if b then Inr True else anyS p xs)"

text \<open>\<open>sorted(xs, key=f, reverse=True)\<close> keeps the order of equal elements.\<close>

definition sort_desc :: "('a \<Rightarrow> 'b :: linorder) \<Rightarrow> 'a list \<Rightarrow> 'a list" where
  "sort_desc f xs = rev (sort_key f (rev xs))"

lemma set_sort_desc [simp]: "set (sort_desc f xs) = set xs"
  by (simp add: sort_desc_def)

lemma sorted_sort_desc: "sorted (rev (map f (sort_desc f xs)))"
  by (simp add: sort_desc_def rev_map)

section \<open>Fetching from Kubernetes\<close>

definition TOP :: nat where
  "TOP = 15"

definition HIDDEN_API_GROUPS :: "string list" where
  "HIDDEN_API_GROUPS = [''chaos-mesh.org'']"

record events_args =
  ea_object_name :: "string option"
  ea_warnings_only :: bool
  ea_minutes :: nat

text \<open>\<open>{**obj, "metadata": meta}\<close> without the managed fields.\<close>

definition strip_meta :: "json \<Rightarrow> texn + json" where
  "strip_meta j =
     bindS (tobj j) (\<lambda>kvs. bindS (tget j ''metadata'' (JObj [])) (\<lambda>m. bindS (tobj m) (\<lambda>meta.
       Inr (JObj (dict_put ''metadata'' (JObj (filter (\<lambda>kv. fst kv \<noteq> ''managedFields'') meta)) kvs)))))"

definition api_version :: "json \<Rightarrow> texn + string" where
  "api_version e =
     bindS (tget e ''involvedObject'' (JObj [])) (\<lambda>io. bindS (tget io ''apiVersion'' (JStr [])) ttext)"

definition hidden_event :: "json \<Rightarrow> texn + bool" where
  "hidden_event e = bindS (api_version e) (\<lambda>api. Inr (list_ex (\<lambda>g. starts_with g api) HIDDEN_API_GROUPS))"

definition event_time :: "json \<Rightarrow> texn + string" where
  "event_time e =
     bindS (tget e ''lastTimestamp'' JNull) (\<lambda>a. bindS (tget e ''eventTime'' JNull) (\<lambda>b.
       if truthy (or_else a b) then Inr (json_str (or_else a b))
       else bindS (tidx e ''metadata'') (\<lambda>m. bindS (tget m ''creationTimestamp'' JNull) (\<lambda>c.
         Inr (json_str (or_else c (JStr [])))))))"

text \<open>\<open>datetime.fromisoformat(when.replace("Z", "+00:00"))\<close> is \<open>parse_time when\<close>.\<close>

definition event_kept :: "(string \<Rightarrow> texn + time) \<Rightarrow> events_args \<Rightarrow> time \<Rightarrow> json \<Rightarrow> texn + bool" where
  "event_kept parse_time args now e =
     bindS (hidden_event e) (\<lambda>h. if h then Inr False else
     bindS (event_time e) (\<lambda>when.
     bindS (if when = [] then Inr False
            else bindS (parse_time when) (\<lambda>t. Inr (t < now - int (ea_minutes args) * 60000000))) (\<lambda>old. if old then Inr False else
     bindS (case ea_object_name args of
              Some (c # n) \<Rightarrow> bindS (tget e ''involvedObject'' (JObj [])) (\<lambda>io. bindS (tget io ''name'' (JStr [])) (\<lambda>nm.
                bindS (ttext nm) (\<lambda>s. Inr (starts_with (c # n) s))))
            | _ \<Rightarrow> Inr True) (\<lambda>named. if \<not> named then Inr False else
     bindS (tget e ''type'' JNull) (\<lambda>ty. Inr (\<not> (ea_warnings_only args \<and> ty \<noteq> JStr ''Warning'')))))))"

definition fetch_events :: "(string \<Rightarrow> texn + time) \<Rightarrow> string \<Rightarrow> http_backend \<Rightarrow> string \<Rightarrow> events_args \<Rightarrow> time \<Rightarrow> texn + json" where
  "fetch_events parse_time base_url api namespace args now =
     bindS (get_json base_url (api (''/api/v1/namespaces/'' @ namespace @ ''/events'') [])) (\<lambda>body.
     bindS (tget body ''items'' (JArr [])) (\<lambda>its. bindS (titems its) (\<lambda>es.
     bindS (filter_mapS (event_kept parse_time args now) strip_meta es) (\<lambda>out.
       Inr (JObj [(''namespace'', JStr namespace), (''items'', JArr out)])))))"

definition label_selector :: "json \<Rightarrow> texn + string" where
  "label_selector dep =
     bindS (tidx dep ''spec'') (\<lambda>spec. bindS (tidx spec ''selector'') (\<lambda>sel.
     bindS (tget sel ''matchLabels'' (JObj [])) (\<lambda>m. bindS (tobj m) (\<lambda>kvs.
       Inr (join '','' (map (\<lambda>(k, v). k @ ''='' @ json_str v) kvs))))))"

definition is_owned :: "json \<Rightarrow> json \<Rightarrow> texn + bool" where
  "is_owned uid r =
     bindS (tidx r ''metadata'') (\<lambda>m. bindS (tget m ''ownerReferences'' (JArr [])) (\<lambda>refs. bindS (titems refs) (\<lambda>rs.
       anyS (\<lambda>x. bindS (tget x ''uid'' JNull) (\<lambda>u. Inr (u = uid))) rs)))"

definition fetch_deployment :: "string \<Rightarrow> http_backend \<Rightarrow> string \<Rightarrow> string \<Rightarrow> texn + json" where
  "fetch_deployment base_url api namespace name =
     (let apps = ''/apis/apps/v1/namespaces/'' @ namespace
      in bindS (get_json base_url (api (apps @ ''/deployments/'' @ name) [])) (\<lambda>dep.
         bindS (label_selector dep) (\<lambda>selector.
         bindS (get_json base_url (api (apps @ ''/replicasets'') [(''labelSelector'', selector)])) (\<lambda>rs.
         bindS (tidx dep ''metadata'') (\<lambda>m. bindS (tidx m ''uid'') (\<lambda>uid.
         bindS (tget rs ''items'' (JArr [])) (\<lambda>its. bindS (titems its) (\<lambda>xs.
         bindS (filter_mapS (is_owned uid) strip_meta xs) (\<lambda>owned. bindS (strip_meta dep) (\<lambda>d.
           Inr (JObj [(''namespace'', JStr namespace), (''deployment'', d), (''replicasets'', JArr owned)])))))))))))"

section \<open>Events\<close>

type_synonym group_key = "string \<times> string \<times> string \<times> string"

record event_group =
  eg_type :: string
  eg_reason :: string
  eg_object :: string
  eg_count :: int
  eg_last_seen :: string
  eg_message :: string

text \<open>What one event says: its key, how often it occurred, when, and its message.\<close>

definition event_facts :: "json \<Rightarrow> texn + group_key \<times> int \<times> string \<times> string" where
  "event_facts e =
     bindS (tget e ''involvedObject'' (JObj [])) (\<lambda>ob.
     bindS (bindS (tget e ''type'' (JStr [])) ttext) (\<lambda>ty. bindS (bindS (tget e ''reason'' (JStr [])) ttext) (\<lambda>re.
     bindS (bindS (tget ob ''kind'' (JStr [])) ttext) (\<lambda>kind. bindS (bindS (tget ob ''name'' (JStr [])) ttext) (\<lambda>name.
     bindS (bindS (tget e ''count'' JNull) (\<lambda>n. tint (or_else n (JInt 1)))) (\<lambda>n.
     bindS (event_time e) (\<lambda>when. bindS (bindS (tget e ''message'' (JStr [])) ttext) (\<lambda>msg.
       Inr ((ty, re, kind, name), n, when, msg)))))))))"

definition new_group :: "group_key \<Rightarrow> event_group" where
  "new_group k =
     (let (ty, re, kind, name) = k
      in \<lparr>eg_type = ty, eg_reason = re, eg_object = kind @ ''/'' @ name, eg_count = 0, eg_last_seen = [], eg_message = []\<rparr>)"

definition count_event :: "int \<times> string \<times> string \<Rightarrow> event_group \<Rightarrow> event_group" where
  "count_event f g =
     (let (n, when, msg) = f
      in g\<lparr>eg_count := eg_count g + n,
           eg_last_seen := (if eg_last_seen g \<le> when then when else eg_last_seen g),
           eg_message := (if eg_last_seen g \<le> when then clip 300 msg else eg_message g)\<rparr>)"

text \<open>The dictionary of groups, in the order of their first events.\<close>

fun add_event :: "group_key \<times> int \<times> string \<times> string \<Rightarrow> (group_key \<times> event_group) list \<Rightarrow> (group_key \<times> event_group) list" where
  "add_event (k, f) [] = [(k, count_event f (new_group k))]"
| "add_event (k, f) ((k', g) # gs) = (if k = k' then (k', count_event f g) # gs else (k', g) # add_event (k, f) gs)"

definition event_groups :: "(group_key \<times> int \<times> string \<times> string) list \<Rightarrow> event_group list" where
  "event_groups facts = map snd (fold add_event facts [])"

definition group_json :: "event_group \<Rightarrow> json" where
  "group_json g = JObj [(''type'', JStr (eg_type g)), (''reason'', JStr (eg_reason g)), (''object'', JStr (eg_object g)),
     (''count'', JInt (eg_count g)), (''last_seen'', JStr (eg_last_seen g)), (''message'', JStr (eg_message g))]"

definition is_warning :: "event_group \<Rightarrow> bool" where
  "is_warning g \<longleftrightarrow> eg_type g = ''Warning''"

text \<open>Warnings first, newest first within each type.\<close>

definition ordered_groups :: "event_group list \<Rightarrow> event_group list" where
  "ordered_groups gs =
     (let newest_first = sort_desc eg_last_seen gs
      in filter is_warning newest_first @ filter (\<lambda>g. \<not> is_warning g) newest_first)"

text \<open>\<open>Counter(xs).most_common(n)\<close>\<close>

definition most_common :: "nat \<Rightarrow> string list \<Rightarrow> (string \<times> nat) list" where
  "most_common n xs = take n (sort_desc snd (map (\<lambda>x. (x, count_list xs x)) (rev (remdups (rev xs)))))"

definition summarize_events :: "json \<Rightarrow> texn + obj" where
  "summarize_events raw =
     bindS (tidx raw ''items'') (\<lambda>its. bindS (titems its) (\<lambda>es. bindS (mapS event_facts es) (\<lambda>facts.
     bindS (tidx raw ''namespace'') (\<lambda>ns.
       let gs = event_groups facts
       in Inr ([(''namespace'', ns), (''events'', JInt (sum_list (map eg_count gs))),
                (''warnings'', JInt (sum_list (map eg_count (filter is_warning gs)))),
                (''by_reason'', JObj (map (\<lambda>(r, n). (r, JInt (int n))) (most_common TOP (map eg_reason gs)))),
                (''groups'', JArr (map group_json (take TOP (ordered_groups gs))))] @
               (if gs = [] then [(''note'', JStr ''no events in this window'')] else []))))))"

section \<open>Revisions\<close>

definition rs_revision :: "json \<Rightarrow> texn + int" where
  "rs_revision rs =
     bindS (tidx rs ''metadata'') (\<lambda>m. bindS (tget m ''annotations'' (JObj [])) (\<lambda>an.
       bindS (tget an REVISION (JInt 0)) tint))"

definition rs_cause :: "json \<Rightarrow> texn + json" where
  "rs_cause m = bindS (tget m ''annotations'' (JObj [])) (\<lambda>an. tget an CHANGE_CAUSE JNull)"

definition containers_of :: "json \<Rightarrow> texn + json list" where
  "containers_of rs =
     bindS (tidx rs ''spec'') (\<lambda>s. bindS (tidx s ''template'') (\<lambda>t. bindS (tidx t ''spec'') (\<lambda>spec.
       bindS (bindS (tget spec ''initContainers'' (JArr [])) titems) (\<lambda>ini.
       bindS (bindS (tget spec ''containers'' (JArr [])) titems) (\<lambda>cs. Inr (ini @ cs))))))"

definition replicasets_of :: "json \<Rightarrow> texn + json list" where
  "replicasets_of raw = bindS (tidx raw ''replicasets'') titems"

text \<open>\<open>_revisions\<close>: each replica set with its revision, newest first.\<close>

definition revisions_of :: "json \<Rightarrow> texn + (int \<times> json) list" where
  "revisions_of raw =
     bindS (replicasets_of raw) (\<lambda>rss. bindS (mapS (\<lambda>rs. bindS (rs_revision rs) (\<lambda>r. Inr (r, rs))) rss) (\<lambda>rrs.
       Inr (sort_desc fst rrs)))"

definition condition_json :: "json \<Rightarrow> texn + json" where
  "condition_json c =
     bindS (mapS (\<lambda>k. bindS (tget c k (JStr [])) (\<lambda>v. Inr (k, JStr (clip 200 (json_str v)))))
       [''type'', ''status'', ''reason'', ''message'']) (\<lambda>kvs. Inr (JObj kvs))"

definition revision_json :: "int option \<Rightarrow> int \<times> json \<Rightarrow> texn + json" where
  "revision_json current rrs =
     (let (r, rs) = rrs
      in bindS (tidx rs ''metadata'') (\<lambda>m. bindS (tget m ''creationTimestamp'' JNull) (\<lambda>created.
         bindS (rs_cause m) (\<lambda>cause. bindS (tget rs ''status'' (JObj [])) (\<lambda>st. bindS (tget st ''replicas'' (JInt 0)) (\<lambda>n.
         bindS (containers_of rs) (\<lambda>cs. bindS (mapS (\<lambda>c. bindS (tidx c ''image'') ttext) cs) (\<lambda>images.
           Inr (JObj [(''revision'', JInt r), (''current'', JBool (Some r = current)), (''created'', created),
             (''change_cause'', cause), (''replicas'', n), (''images'', JArr (map JStr (sorted_set images)))])))))))))"

definition summarize_history :: "json \<Rightarrow> texn + obj" where
  "summarize_history raw =
     bindS (tidx raw ''deployment'') (\<lambda>dep. bindS (tget dep ''status'' (JObj [])) (\<lambda>status.
     bindS (revisions_of raw) (\<lambda>revisions.
     let current = (case revisions of [] \<Rightarrow> None | (r, rs) # rest \<Rightarrow> Some r)
     in bindS (tidx dep ''metadata'') (\<lambda>m. bindS (tidx m ''name'') (\<lambda>name. bindS (rs_cause m) (\<lambda>cause.
        bindS (tget m ''generation'' JNull) (\<lambda>generation.
        bindS (mapS (\<lambda>k. bindS (tget status k (JInt 0)) (\<lambda>v. Inr (k, v)))
          [''replicas'', ''readyReplicas'', ''updatedReplicas'', ''unavailableReplicas'']) (\<lambda>replicas.
        bindS (bindS (tget status ''conditions'' (JArr [])) titems) (\<lambda>cs. bindS (mapS condition_json cs) (\<lambda>conditions.
        bindS (mapS (revision_json current) (take 10 revisions)) (\<lambda>rows.
          Inr [(''deployment'', name), (''change_cause'', cause), (''generation'', generation),
               (''replicas'', JObj replicas), (''conditions'', JArr conditions), (''revisions'', JArr rows)])))))))))))"

section \<open>The difference of two revisions\<close>

type_synonym paths = "(string \<times> string) list"

definition ABSENT :: string where
  "ABSENT = ''<absent>''"

text \<open>\<open>out[path] = value\<close>\<close>

definition put_path :: "string \<times> string \<Rightarrow> paths \<Rightarrow> paths" where
  "put_path kv out = AList.update (fst kv) (snd kv) out"

definition env_value :: "json \<Rightarrow> texn + string \<times> string" where
  "env_value env =
     bindS (tidx env ''name'') (\<lambda>name. bindS (tobj env) (\<lambda>kvs.
       case jget kvs ''value'' of
         Some v \<Rightarrow> Inr (json_str name, json_str v)
       | None \<Rightarrow> bindS (tget env ''valueFrom'' (JObj [])) (\<lambda>f. bindS (tobj f) (\<lambda>fs.
           Inr (json_str name, ''<from '' @ json_repr (JArr (map JStr (sort (map fst fs)))) @ ''>'')))))"

definition container_paths :: "json \<Rightarrow> texn + paths" where
  "container_paths c =
     bindS (tidx c ''name'') (\<lambda>name. let prefix = ''containers.'' @ json_str name
       in bindS (bindS (tget c ''image'' (JStr [])) ttext) (\<lambda>image. bindS (tobj c) (\<lambda>kvs.
          bindS (bindS (tget c ''env'' (JArr [])) titems) (\<lambda>envs. bindS (mapS env_value envs) (\<lambda>evs.
            Inr ((prefix @ ''.image'', image) #
              List.map_filter (\<lambda>f. map_option (\<lambda>v. (prefix @ ''.'' @ f, json_str v)) (jget kvs f))
                [''command'', ''args'', ''resources'', ''ports''] @
              map (\<lambda>(n, v). (prefix @ ''.env.'' @ n, v)) evs))))))"

text \<open>\<open>_flatten\<close>: the parts of a pod template that a release changes, as path and value.\<close>

definition flatten :: "json \<Rightarrow> texn + paths" where
  "flatten rs =
     bindS (tidx rs ''spec'') (\<lambda>s. bindS (tidx s ''template'') (\<lambda>t. bindS (tidx t ''metadata'') (\<lambda>m.
     bindS (bindS (tget m ''annotations'' (JObj [])) tobj) (\<lambda>an. bindS (containers_of rs) (\<lambda>cs.
     bindS (mapS container_paths cs) (\<lambda>ps.
       Inr (fold put_path (map (\<lambda>(k, v). (''annotations.'' @ k, json_str v)) (sort_key fst an) @ concat ps) [])))))))"

definition path_value :: "paths \<Rightarrow> string \<Rightarrow> string" where
  "path_value ps path = (case map_of ps path of None \<Rightarrow> ABSENT | Some v \<Rightarrow> v)"

text \<open>The paths whose values differ, in order, with both values.\<close>

definition changed_paths :: "paths \<Rightarrow> paths \<Rightarrow> (string \<times> string \<times> string) list" where
  "changed_paths a b =
     map (\<lambda>p. (p, clip 200 (path_value a p), clip 200 (path_value b p)))
       (filter (\<lambda>p. map_of a p \<noteq> map_of b p) (sorted_set (map fst a @ map fst b)))"

text \<open>The two revisions to compare: the wanted ones, or the newest and the one before \<open>to\<close>.\<close>

definition diff_revisions :: "int option \<Rightarrow> int option \<Rightarrow> int list \<Rightarrow> int option \<times> int" where
  "diff_revisions from_revision to_revision ordered =
     (let to_rev = (case to_revision of Some r \<Rightarrow> r | None \<Rightarrow> last ordered);
          older = filter (\<lambda>r. r < to_rev) ordered
      in (case from_revision of Some r \<Rightarrow> Some r | None \<Rightarrow> (if older = [] then None else Some (last older)), to_rev))"

definition revision_facts :: "int \<Rightarrow> json \<Rightarrow> texn + json" where
  "revision_facts r rs =
     bindS (tidx rs ''metadata'') (\<lambda>m. bindS (tget m ''creationTimestamp'' JNull) (\<lambda>created. bindS (rs_cause m) (\<lambda>cause.
       Inr (JObj [(''revision'', JInt r), (''created'', created), (''change_cause'', cause)]))))"

definition int_list_text :: "int list \<Rightarrow> string" where
  "int_list_text rs = ''['' @ join '', '' (map dec_int rs) @ '']''"

definition summarize_diff :: "string \<Rightarrow> int option \<Rightarrow> int option \<Rightarrow> json \<Rightarrow> texn + obj" where
  "summarize_diff name from_revision to_revision raw =
     bindS (replicasets_of raw) (\<lambda>rss. bindS (mapS (\<lambda>rs. bindS (rs_revision rs) (\<lambda>r. Inr (r, rs))) rss) (\<lambda>rrs.
     let by_rev = fold (\<lambda>(r, rs). AList.update r rs) rrs []; ordered = sort (map fst by_rev)
     in if by_rev = [] then Inl (ToolRaised (ToolError ''not_found'' (''deployment '' @ name @ '' has no revisions'') False))
        else let (from_rev, to_rev) = diff_revisions from_revision to_revision ordered
             in case (from_rev, map_of by_rev to_rev, Option.bind from_rev (map_of by_rev)) of
                  (Some fr, Some new, Some old) \<Rightarrow>
                    bindS (flatten old) (\<lambda>a. bindS (flatten new) (\<lambda>b.
                    bindS (revision_facts fr old) (\<lambda>f. bindS (revision_facts to_rev new) (\<lambda>t.
                    let changes = changed_paths a b
                    in Inr ([(''deployment'', JStr name), (''from'', f), (''to'', t),
                             (''changes'', JArr (map (\<lambda>(p, x, y). JObj [(''path'', JStr p), (''from'', JStr x), (''to'', JStr y)])
                                (take 30 changes)))] @
                            (if changes = [] then [(''note'', JStr ''no differences in the pod template'')] else []))))))
                | _ \<Rightarrow> Inl (ToolRaised (ToolError ''not_found'' (''revisions available: '' @ int_list_text ordered @ ''; asked for '' @
                          (case from_rev of None \<Rightarrow> ''None'' | Some r \<Rightarrow> dec_int r) @ '' -> '' @ dec_int to_rev) False))))"

section \<open>Feature flags\<close>

definition fetch_flags :: "string \<Rightarrow> http_backend \<Rightarrow> texn + json" where
  "fetch_flags base_url api =
     bindS (get_json base_url (api ''/api/read'' [])) (\<lambda>body. bindS (tget body ''flags'' JNull) (\<lambda>flags.
       case flags of JObj kvs \<Rightarrow> Inr (JObj [(''flags'', flags)])
       | _ \<Rightarrow> Inl (ToolRaised (ToolError ''backend_error'' ''flag configuration has no 'flags' object'' False))))"

definition flag_is_on :: "json \<Rightarrow> texn + bool" where
  "flag_is_on f =
     bindS (tget f ''state'' (JStr ''ENABLED'')) (\<lambda>st. if st \<noteq> JStr ''ENABLED'' then Inr False else
       bindS (tget f ''defaultVariant'' (JStr ''off'')) (\<lambda>v. Inr (v \<noteq> JStr ''off'')))"

definition flag_row :: "string \<times> json \<Rightarrow> texn + json" where
  "flag_row nf =
     (let (name, f) = nf
      in bindS (tidx f ''defaultVariant'') (\<lambda>variant. bindS (tget f ''variants'' (JObj [])) (\<lambda>vs.
         bindS (bindS (ttext variant) (\<lambda>k. tget vs k JNull)) (\<lambda>v. bindS (tget f ''targeting'' JNull) (\<lambda>tg.
           Inr (JObj [(''flag'', JStr name), (''variant'', variant), (''value'', v), (''targeting'', JBool (truthy tg))]))))))"

definition summarize_flags :: "string option \<Rightarrow> json \<Rightarrow> texn + obj" where
  "summarize_flags flag raw =
     bindS (tidx raw ''flags'') (\<lambda>fj. bindS (tobj fj) (\<lambda>flags.
     bindS (filter_mapS (\<lambda>nf. flag_is_on (snd nf)) flag_row (sort_key fst flags)) (\<lambda>on.
     let notes = (if on = [] then [(''note'', JStr ''every flag is at its default (off)'')] else []);
         out = [(''flags'', JInt (int (length flags))), (''on'', JArr on)]
     in case flag of
          Some (c # n) \<Rightarrow>
            (case jget flags (c # n) of
               Some JNull \<Rightarrow> Inl (ToolRaised (ToolError ''not_found'' (''no flag '' @ py_repr (c # n) @ ''; flags: '' @ join '', '' (sort (map fst flags))) False))
             | None \<Rightarrow> Inl (ToolRaised (ToolError ''not_found'' (''no flag '' @ py_repr (c # n) @ ''; flags: '' @ join '', '' (sort (map fst flags))) False))
             | Some f \<Rightarrow>
                 bindS (flag_is_on f) (\<lambda>b. bindS (tget f ''state'' JNull) (\<lambda>st. bindS (tget f ''defaultVariant'' JNull) (\<lambda>dv.
                 bindS (tget f ''variants'' JNull) (\<lambda>vs.
                   Inr (out @ [(''flag'', JObj [(''name'', JStr (c # n)), (''on'', JBool b), (''state'', st), (''variant'', dv), (''variants'', vs)])] @ notes))))))
        | _ \<Rightarrow> Inr (out @ notes))))"

section \<open>What a summary rests on\<close>

lemma map_of_replace:
  "map_of (map (\<lambda>(a, b). (a, if a = k then v else b)) kvs) k' = (if k' = k then map_option (\<lambda>_. v) (map_of kvs k) else map_of kvs k')"
  by (induction kvs) auto

lemma jget_dict_put: "jget (dict_put k v kvs) k' = (if k' = k then Some v else jget kvs k')"
proof (cases "k \<in> set (map fst kvs)")
  case True
  then obtain w where "map_of kvs k = Some w" by (metis map_of_eq_None_iff option.exhaust set_map)
  with True show ?thesis by (simp add: dict_put_def jget_def map_of_replace)
next
  case False
  then have "map_of kvs k = None" by (simp add: map_of_eq_None_iff)
  with False show ?thesis by (auto simp: dict_put_def jget_def map_add_def split: option.split)
qed

lemma strip_meta_keeps: "strip_meta e = Inr x \<Longrightarrow> k \<noteq> ''metadata'' \<Longrightarrow> tget x k dflt = tget e k dflt"
  by (auto simp: strip_meta_def bindS_Inr_iff tobj_def tget_def jget_dict_put split: json.splits)

lemma strip_meta_hidden: "strip_meta e = Inr x \<Longrightarrow> hidden_event x = hidden_event e"
  using strip_meta_keeps [of e x "''involvedObject''"] by (simp add: hidden_event_def api_version_def)

lemma event_kept_True:
  "event_kept parse_time args now e = Inr True \<Longrightarrow>
     hidden_event e = Inr False \<and> (ea_warnings_only args \<longrightarrow> tget e ''type'' JNull = Inr (JStr ''Warning''))"
  by (auto simp: event_kept_def bindS_Inr_iff split: if_splits)

lemma fetch_events_visible:
  assumes "fetch_events parse_time base_url api namespace args now = Inr raw"
  shows "\<exists>out. raw = JObj [(''namespace'', JStr namespace), (''items'', JArr out)] \<and>
    (\<forall>e \<in> set out. hidden_event e = Inr False \<and> (ea_warnings_only args \<longrightarrow> tget e ''type'' JNull = Inr (JStr ''Warning'')))"
proof -
  from assms obtain es out where raw: "raw = JObj [(''namespace'', JStr namespace), (''items'', JArr out)]"
    and out: "filter_mapS (event_kept parse_time args now) strip_meta es = Inr out"
    by (auto simp: fetch_events_def bindS_Inr_iff)
  have "hidden_event e = Inr False \<and> (ea_warnings_only args \<longrightarrow> tget e ''type'' JNull = Inr (JStr ''Warning''))"
    if "e \<in> set out" for e
  proof -
    from filter_mapS_Inr [OF out that] obtain x where "event_kept parse_time args now x = Inr True" "strip_meta x = Inr e" by blast
    with event_kept_True strip_meta_hidden strip_meta_keeps [of x e "''type''" JNull] show ?thesis by auto
  qed
  with raw show ?thesis by blast
qed

text \<open>No occurrence of an event is lost or counted twice.\<close>

lemma add_event_count:
  "sum_list (map (\<lambda>(k, g). if P k then eg_count g else 0) (fold add_event facts gs)) =
   sum_list (map (\<lambda>(k, g). if P k then eg_count g else 0) gs) + sum_list (map (\<lambda>(k, n, w). if P k then n else 0) facts)"
proof (induction facts arbitrary: gs)
  case (Cons f facts)
  have one: "sum_list (map (\<lambda>(k, g). if P k then eg_count g else 0) (add_event f gs)) =
      sum_list (map (\<lambda>(k, g). if P k then eg_count g else 0) gs) + (\<lambda>(k, n, w). if P k then n else 0) f"
    by (induction f gs rule: add_event.induct) (auto simp: count_event_def new_group_def case_prod_beta)
  show ?case by (simp add: Cons.IH one)
qed simp

definition keyed :: "(group_key \<times> event_group) list \<Rightarrow> bool" where
  "keyed gs \<longleftrightarrow> list_all (\<lambda>(k, g). eg_type g = fst k) gs"

lemma keyed_add: "keyed gs \<Longrightarrow> keyed (add_event f gs)"
  by (induction f gs rule: add_event.induct) (auto simp: keyed_def count_event_def new_group_def case_prod_beta)

lemma keyed_fold: "keyed gs \<Longrightarrow> keyed (fold add_event facts gs)"
  by (induction facts arbitrary: gs) (auto intro: keyed_add)

lemma event_groups_count: "sum_list (map eg_count (event_groups facts)) = sum_list (map (\<lambda>(k, n, w). n) facts)"
  using add_event_count [of "\<lambda>_. True" facts "[]"] by (simp add: event_groups_def comp_def case_prod_unfold)

lemma event_groups_warnings:
  "sum_list (map eg_count (filter is_warning (event_groups facts))) =
   sum_list (map (\<lambda>(k, n, w). if fst k = ''Warning'' then n else 0) facts)"
proof -
  have "sum_list (map eg_count (filter is_warning (map snd gs))) =
      sum_list (map (\<lambda>(k, g). if fst k = ''Warning'' then eg_count g else 0) gs)" if "keyed gs" for gs
    using that by (induction gs) (auto simp: keyed_def is_warning_def)
  from this [OF keyed_fold [of "[]" facts]] show ?thesis
    using add_event_count [of "\<lambda>k. fst k = ''Warning''" facts "[]"] by (simp add: event_groups_def keyed_def)
qed

lemma changed_paths_iff:
  "(p, x, y) \<in> set (changed_paths a b) \<longleftrightarrow>
     map_of a p \<noteq> map_of b p \<and> x = clip 200 (path_value a p) \<and> y = clip 200 (path_value b p)"
proof -
  have "p \<in> set (sorted_set (map fst a @ map fst b))" if "map_of a p \<noteq> map_of b p"
    using that unfolding set_sorted_set by (metis Un_iff map_of_eq_None_iff set_append set_map)
  then show ?thesis unfolding changed_paths_def by (auto simp del: set_sorted_set)
qed

lemma changed_paths_sorted: "sorted (map fst (changed_paths a b)) \<and> distinct (map fst (changed_paths a b))"
  by (simp add: changed_paths_def comp_def sorted_filter [of id, simplified])

lemma diff_revisions_default:
  assumes "sorted ordered" "distinct ordered" "diff_revisions None None ordered = (Some f, t)"
  shows "f \<in> set ordered" "t \<in> set ordered" "f < t" "\<forall>r \<in> set ordered. r \<le> t \<and> (r < t \<longrightarrow> r \<le> f)"
proof -
  have ne: "filter (\<lambda>r. r < last ordered) ordered \<noteq> []" "t = last ordered" "f = last (filter (\<lambda>r. r < last ordered) ordered)"
    using assms(3) by (auto simp: diff_revisions_def Let_def split: if_splits)
  then have o: "ordered \<noteq> []" by auto
  have f: "f \<in> set (filter (\<lambda>r. r < last ordered) ordered)" using last_in_set [OF ne(1)] ne(3) by simp
  then show "f \<in> set ordered" "f < t" using ne(2) by auto
  show "t \<in> set ordered" using o ne(2) by simp
  have max: "x \<in> set xs \<Longrightarrow> x \<le> last xs" if "sorted xs" for xs and x :: int
    using that by (induction xs) auto
  have "sorted (filter (\<lambda>r. r < last ordered) ordered)" using assms(1) by (rule sorted_filter [of id, simplified])
  then show "\<forall>r \<in> set ordered. r \<le> t \<and> (r < t \<longrightarrow> r \<le> f)"
    using max [OF assms(1)] max [of "filter (\<lambda>r. r < last ordered) ordered"] ne(2,3) by auto
qed

end
