(* ===== verification/TraceTools.thy ===== *)
theory TraceTools
  imports BackendTools "HOL-Library.Product_Lexorder"
begin

text \<open>
  Jaeger's traces (\<open>app/tools/jaeger.py\<close>): the summary of a search and of one trace. A trace
  is its decoded answer, with the fields that Jaeger's API always sends; \<open>num\<close> stands for the
  rounding of a float to four digits. Shown: every error span is counted once in its group, the
  time a span spent itself is what its children leave of its duration.
\<close>

section \<open>Traces\<close>

record span =
  sp_id :: string
  sp_process :: string
  sp_operation :: string
  sp_start :: int
  sp_duration :: int
  sp_references :: "(string option \<times> string) list"
  sp_tags :: "(string \<times> json) list"
  sp_logs :: "(string \<times> json) list list"

text \<open>\<open>tr_processes\<close> gives a process its service name, if it has one.\<close>

record trace =
  tr_id :: string
  tr_spans :: "span list"
  tr_processes :: "(string \<times> string option) list"

definition TRACE_TOP :: nat where
  "TRACE_TOP = 10"

definition MESSAGE_TAGS :: "string list" where
  "MESSAGE_TAGS = [''otel.status_description'', ''grpc.error_message'', ''error.message'', ''exception.message'']"

definition STATUS_TAGS :: "string list" where
  "STATUS_TAGS = [''rpc.grpc.status_code'', ''http.response.status_code'', ''http.status_code'', ''error.type'']"

text \<open>\<open>{t["key"]: t["value"] for t in tags}\<close>: the last value of a key.\<close>

definition tag_value :: "span \<Rightarrow> string \<Rightarrow> json option" where
  "tag_value s k = map_of (rev (sp_tags s)) k"

definition service_of :: "trace \<Rightarrow> span \<Rightarrow> string" where
  "service_of t s = (case map_of (tr_processes t) (sp_process s) of Some (Some n) \<Rightarrow> n | _ \<Rightarrow> ''?'')"

text \<open>\<open>x in (True, "true")\<close>; Python's \<open>1 == True\<close>.\<close>

definition span_is_error :: "span \<Rightarrow> bool" where
  "span_is_error s \<longleftrightarrow>
     (case tag_value s ''error'' of
        Some v \<Rightarrow> v \<in> {JBool True, JStr ''true'', JInt 1, JFloat ''1.0''}
      | None \<Rightarrow> False) \<or>
     tag_value s ''otel.status_code'' = Some (JStr ''ERROR'')"

definition span_message :: "span \<Rightarrow> string" where
  "span_message s =
     (case List.map_filter (\<lambda>k. case tag_value s k of Some v \<Rightarrow> if truthy v then Some v else None | None \<Rightarrow> None) MESSAGE_TAGS of
        v # vs \<Rightarrow> json_str v
      | [] \<Rightarrow> (case find (\<lambda>(k, v). k = ''exception.message'') (concat (sp_logs s)) of
                 Some (k, v) \<Rightarrow> json_str v
               | None \<Rightarrow> []))"

definition span_status :: "span \<Rightarrow> string option" where
  "span_status s =
     (let found = List.map_filter (\<lambda>k. map_option (\<lambda>v. k @ ''='' @ json_str v) (tag_value s k)) STATUS_TAGS
      in if found = [] then None else Some (join '' '' found))"

text \<open>Microseconds; None is the \<open>ValueError\<close> of \<open>min\<close> over no span.\<close>

definition trace_duration :: "trace \<Rightarrow> int option" where
  "trace_duration t =
     (case tr_spans t of
        [] \<Rightarrow> None
      | s # ss \<Rightarrow> Some (foldr max (map (\<lambda>x. sp_start x + sp_duration x) ss) (sp_start s + sp_duration s) -
                       foldr min (map sp_start ss) (sp_start s)))"

definition in_ms :: "int \<Rightarrow> rat" where
  "in_ms us = of_int us / 1000"

definition root_span :: "trace \<Rightarrow> span option" where
  "root_span t =
     (let ids = map sp_id (tr_spans t);
          roots = filter (\<lambda>s. \<not> list_ex (\<lambda>r. snd r \<in> set ids) (sp_references s)) (tr_spans t)
      in least_by (\<lambda>a b. sp_start a < sp_start b) (if roots = [] then tr_spans t else roots))"

definition root_json :: "trace \<Rightarrow> span \<Rightarrow> json" where
  "root_json t s = JObj [(''service'', JStr (service_of t s)), (''operation'', JStr (sp_operation s))]"

record error_span =
  es_service :: string
  es_operation :: string
  es_message :: string
  es_status :: "string option"

definition error_of :: "trace \<Rightarrow> span \<Rightarrow> error_span" where
  "error_of t s = \<lparr>es_service = service_of t s, es_operation = sp_operation s, es_message = clip 300 (span_message s),
     es_status = span_status s\<rparr>"

definition error_spans :: "trace \<Rightarrow> error_span list" where
  "error_spans t = map (error_of t) (filter span_is_error (tr_spans t))"

definition error_json :: "error_span \<Rightarrow> obj" where
  "error_json e = [(''service'', JStr (es_service e)), (''operation'', JStr (es_operation e)),
     (''message'', JStr (es_message e)), (''status'', jopt JStr (es_status e))]"

section \<open>A search\<close>

type_synonym group_of_errors = "string \<times> string \<times> string"

definition error_key :: "error_span \<Rightarrow> group_of_errors" where
  "error_key e = (es_service e, es_operation e, es_message e)"

record error_group =
  gr_first :: error_span
  gr_count :: nat
  gr_example :: string

text \<open>\<open>setdefault\<close> and the count, for one error span of the trace \<open>tid\<close>.\<close>

fun add_error :: "string \<Rightarrow> error_span \<Rightarrow> error_group list \<Rightarrow> error_group list" where
  "add_error tid e [] = [\<lparr>gr_first = e, gr_count = 1, gr_example = tid\<rparr>]"
| "add_error tid e (g # gs) =
     (if error_key (gr_first g) = error_key e then g\<lparr>gr_count := gr_count g + 1\<rparr> # gs else g # add_error tid e gs)"

definition error_groups :: "trace list \<Rightarrow> error_group list" where
  "error_groups ts = fold (\<lambda>t. fold (add_error (tr_id t)) (error_spans t)) ts []"

definition ordered_errors :: "error_group list \<Rightarrow> error_group list" where
  "ordered_errors gs = sort_key (\<lambda>g. (- int (gr_count g), es_service (gr_first g), es_operation (gr_first g))) gs"

text \<open>Nearest-rank percentile, \<open>q\<close> in 0 to 100.\<close>

definition nearest_rank :: "rat list \<Rightarrow> rat \<Rightarrow> rat option" where
  "nearest_rank vs q =
     (if vs = [] then None
      else Some (sort vs ! (max 1 (nat \<lceil>q / 100 * of_nat (length vs)\<rceil>) - 1)))"

definition numo :: "(rat \<Rightarrow> json) \<Rightarrow> rat option \<Rightarrow> json" where
  "numo num x = jopt num x"

definition slow_json :: "(rat \<Rightarrow> json) \<Rightarrow> trace \<Rightarrow> json option" where
  "slow_json num t =
     (case (trace_duration t, root_span t) of
        (Some us, Some r) \<Rightarrow> Some (JObj [(''trace_id'', JStr (tr_id t)), (''duration_ms'', num (in_ms us)),
           (''spans'', JInt (int (length (tr_spans t)))), (''root'', root_json t r), (''error'', JBool (error_spans t \<noteq> []))])
      | _ \<Rightarrow> None)"

definition duration_key :: "trace \<Rightarrow> int" where
  "duration_key t = (case trace_duration t of None \<Rightarrow> 0 | Some us \<Rightarrow> us)"

text \<open>\<open>summarize_search\<close>; a trace without spans is a \<open>ValueError\<close>.\<close>

definition summarize_search :: "(rat \<Rightarrow> json) \<Rightarrow> nat \<Rightarrow> trace list \<Rightarrow> texn + obj" where
  "summarize_search num limit ts =
     (if list_ex (\<lambda>t. tr_spans t = []) ts then Inl (PyExn ''ValueError'')
      else let durations = map (\<lambda>t. in_ms (duration_key t)) ts;
               slowest = take 5 (sort_desc duration_key ts);
               services = concat (map (\<lambda>t. map (service_of t) (tr_spans t)) ts)
           in Inr ([(''traces'', JInt (int (length ts))), (''hit_limit'', JBool (limit \<le> length ts)),
                (''with_errors'', JInt (int (length (filter (\<lambda>t. error_spans t \<noteq> []) ts)))),
                (''duration_ms'', JObj [(''p50'', numo num (nearest_rank durations 50)), (''p95'', numo num (nearest_rank durations 95)),
                   (''max'', numo num (if durations = [] then None else Some (foldr max durations (hd durations))))]),
                (''error_spans'', JArr (map (\<lambda>g. JObj (error_json (gr_first g) @
                   [(''count'', JInt (int (gr_count g))), (''example_trace_id'', JStr (gr_example g))]))
                   (take TRACE_TOP (ordered_errors (error_groups ts))))),
                (''slowest'', JArr (List.map_filter (slow_json num) slowest)),
                (''spans_by_service'', JObj (map (\<lambda>(s, n). (s, JInt (int n))) (most_common TRACE_TOP services)))] @
               (if ts = [] then [(''note'', JStr ''no traces matched in this window'')] else [])))"

section \<open>One trace\<close>

text \<open>\<open>children\<close>: what a span's direct children took, by the references that name it.\<close>

definition is_child_of :: "string \<Rightarrow> string option \<times> string \<Rightarrow> bool" where
  "is_child_of i r \<longleftrightarrow> fst r = Some ''CHILD_OF'' \<and> snd r = i"

definition add_child :: "span \<Rightarrow> (string \<times> int) list \<Rightarrow> (string \<times> int) list" where
  "add_child s children =
     fold (\<lambda>r acc. if fst r = Some ''CHILD_OF''
             then AList.update (snd r) ((case map_of acc (snd r) of None \<Rightarrow> 0 | Some n \<Rightarrow> n) + sp_duration s) acc else acc)
       (sp_references s) children"

definition children_time :: "span list \<Rightarrow> string \<Rightarrow> int" where
  "children_time ss i = (case map_of (fold add_child ss []) i of None \<Rightarrow> 0 | Some n \<Rightarrow> n)"

definition self_time :: "span list \<Rightarrow> span \<Rightarrow> int" where
  "self_time ss s = max 0 (sp_duration s - children_time ss (sp_id s))"

definition span_row :: "(rat \<Rightarrow> json) \<Rightarrow> trace \<Rightarrow> span \<Rightarrow> json" where
  "span_row num t s = JObj [(''service'', JStr (service_of t s)), (''operation'', JStr (sp_operation s)),
     (''duration_ms'', num (in_ms (sp_duration s))), (''self_ms'', num (in_ms (self_time (tr_spans t) s))),
     (''error'', JBool (span_is_error s))]"

definition orphans :: "span list \<Rightarrow> nat" where
  "orphans ss =
     length (filter (\<lambda>s. list_ex (\<lambda>r. fst r = Some ''CHILD_OF'' \<and> snd r \<notin> set (map sp_id ss)) (sp_references s)) ss)"

text \<open>
  The rows are sorted by the rounded time, \<open>round_us\<close> of it; the rounding keeps the order, so
  that only times that round to the same number may change places.
\<close>

definition slowest_spans :: "(int \<Rightarrow> rat) \<Rightarrow> trace \<Rightarrow> span list" where
  "slowest_spans round_us t = sort_key (\<lambda>s. - round_us (self_time (tr_spans t) s)) (tr_spans t)"

definition summarize_trace :: "(rat \<Rightarrow> json) \<Rightarrow> (int \<Rightarrow> rat) \<Rightarrow> trace \<Rightarrow> texn + obj" where
  "summarize_trace num round_us t =
     (case (trace_duration t, root_span t) of
        (Some us, Some r) \<Rightarrow>
          Inr [(''trace_id'', JStr (tr_id t)), (''spans'', JInt (int (length (tr_spans t)))),
               (''orphan_spans'', JInt (int (orphans (tr_spans t)))), (''duration_ms'', num (in_ms us)), (''root'', root_json t r),
               (''services'', JArr (map JStr (sorted_set (map (service_of t) (tr_spans t))))),
               (''errors'', JArr (map (JObj \<circ> error_json) (take TRACE_TOP (error_spans t)))),
               (''slowest_spans'', JArr (map (span_row num t) (take TRACE_TOP (slowest_spans round_us t))))]
      | _ \<Rightarrow> Inl (PyExn ''ValueError''))"

section \<open>What the summaries say\<close>

lemma add_error_count: "sum_list (map gr_count (add_error tid e gs)) = sum_list (map gr_count gs) + 1"
  by (induction tid e gs rule: add_error.induct) auto

lemma fold_add_error_count: "sum_list (map gr_count (fold (add_error tid) es gs)) = sum_list (map gr_count gs) + length es"
  by (induction es arbitrary: gs) (simp_all add: add_error_count)

lemma error_groups_count: "sum_list (map gr_count (error_groups ts)) = sum_list (map (length \<circ> error_spans) ts)"
proof -
  have "sum_list (map gr_count (fold (\<lambda>t. fold (add_error (tr_id t)) (error_spans t)) ts gs)) =
      sum_list (map gr_count gs) + sum_list (map (length \<circ> error_spans) ts)" for gs
    by (induction ts arbitrary: gs) (simp_all add: fold_add_error_count)
  then show ?thesis by (simp add: error_groups_def)
qed

text \<open>The children's dictionary holds the sum of the durations of the references that name a span.\<close>

definition child_sum :: "span list \<Rightarrow> string \<Rightarrow> int" where
  "child_sum ss i = sum_list (map (\<lambda>s. sp_duration s * int (length (filter (is_child_of i) (sp_references s)))) ss)"

lemma add_refs_sum:
  "(case map_of (fold (\<lambda>r acc. if fst r = Some ''CHILD_OF''
      then AList.update (snd r) ((case map_of acc (snd r) of None \<Rightarrow> 0 | Some n \<Rightarrow> n) + d) acc else acc) rs acc) i
    of None \<Rightarrow> 0 | Some n \<Rightarrow> n) =
   (case map_of acc i of None \<Rightarrow> 0 | Some n \<Rightarrow> n) + d * int (length (filter (is_child_of i) rs))"
  by (induction rs arbitrary: acc) (auto simp: is_child_of_def update_conv' algebra_simps split: option.splits)

lemma children_time_sum: "children_time ss i = child_sum ss i"
proof -
  have "(case map_of (fold add_child ss acc) i of None \<Rightarrow> 0 | Some n \<Rightarrow> n) =
      (case map_of acc i of None \<Rightarrow> 0 | Some n \<Rightarrow> n) + child_sum ss i" for acc
  proof (induction ss arbitrary: acc)
    case (Cons s ss)
    show ?case using add_refs_sum [of "sp_duration s" "sp_references s" acc i]
      by (simp add: Cons.IH) (simp add: add_child_def child_sum_def)
  qed (simp add: child_sum_def)
  then show ?thesis by (simp add: children_time_def)
qed

lemma self_time_is:
  assumes "\<forall>s \<in> set ss. 0 \<le> sp_duration s"
  shows "self_time ss s = max 0 (sp_duration s - child_sum ss (sp_id s))" "s \<in> set ss \<Longrightarrow> self_time ss s \<le> sp_duration s"
proof -
  show "self_time ss s = max 0 (sp_duration s - child_sum ss (sp_id s))" by (simp add: self_time_def children_time_sum)
  have "0 \<le> child_sum ss i" for i
    unfolding child_sum_def using assms by (intro sum_list_nonneg) auto
  then show "s \<in> set ss \<Longrightarrow> self_time ss s \<le> sp_duration s" using assms by (simp add: self_time_def children_time_sum)
qed

end
