(* ===== verification/MetricTools.thy ===== *)
theory MetricTools
  imports BackendTools "HOL-Library.Product_Lexorder"
begin

text \<open>
  Prometheus' answers and Loki's queries (\<open>app/tools/prometheus.py\<close>, \<open>app/tools/loki.py\<close>): the
  summaries of an instant and of a range query, and the text of a log query. \<open>num\<close> is the
  rounding of a sample (None for NaN, infinities and junk), \<open>stamp\<close> the text of a time, \<open>fl\<close> the
  \<open>repr\<close> of a rounded number. Shown: the buckets of a series' shape are the series, a text to
  search for cannot end the string that quotes it.
\<close>

section \<open>Prometheus\<close>

definition PROM_TOP :: nat where
  "PROM_TOP = 10"

definition SHAPE_POINTS :: nat where
  "SHAPE_POINTS = 12"

definition prom_data :: "json \<Rightarrow> texn + obj" where
  "prom_data body =
     bindS (tobj body) (\<lambda>kvs.
       if jget kvs ''status'' \<noteq> Some (JStr ''success'')
       then Inl (ToolRaised (ToolError ''bad_query''
              (take 500 (json_str (case jget kvs ''error'' of None \<Rightarrow> body | Some e \<Rightarrow> e))) False))
       else bindS (tidx body ''data'') tobj)"

text \<open>\<open>args.step_s or max(15, args.minutes * 60 // 120)\<close>\<close>

definition range_step :: "nat option \<Rightarrow> nat \<Rightarrow> nat" where
  "range_step step_s minutes = (case step_s of Some s \<Rightarrow> if s = 0 then max 15 (minutes * 60 div 120) else s | None \<Rightarrow> max 15 (minutes * 60 div 120))"

definition float_json :: "(rat \<Rightarrow> string) \<Rightarrow> rat option \<Rightarrow> json" where
  "float_json fl x = (case x of None \<Rightarrow> JNull | Some r \<Rightarrow> JFloat (fl r))"

text \<open>One series of an instant query: its labels and its rounded value.\<close>

definition instant_series :: "(json \<Rightarrow> rat option) \<Rightarrow> json \<Rightarrow> texn + json \<times> rat option" where
  "instant_series num s =
     bindS (tidx s ''metric'') (\<lambda>m. bindS (tidx s ''value'') (\<lambda>v.
       case v of JArr (t # x # xs) \<Rightarrow> Inr (m, num x) | JArr _ \<Rightarrow> Inl (PyExn ''IndexError'') | _ \<Rightarrow> Inl (PyExn ''schema'')))"

definition value_key :: "json \<times> rat option \<Rightarrow> bool \<times> rat" where
  "value_key s = (snd s = None, - (case snd s of None \<Rightarrow> 0 | Some v \<Rightarrow> v))"

definition instant_order :: "(json \<times> rat option) list \<Rightarrow> (json \<times> rat option) list" where
  "instant_order series = sort_key value_key series"

definition summarize_query :: "(json \<Rightarrow> rat option) \<Rightarrow> (rat \<Rightarrow> string) \<Rightarrow> json \<Rightarrow> texn + obj" where
  "summarize_query num fl raw =
     bindS (tidx raw ''resultType'') (\<lambda>kind. bindS (tidx raw ''result'') (\<lambda>result.
       if kind \<in> {JStr ''scalar'', JStr ''string''}
       then (case result of
               JArr (t # x # xs) \<Rightarrow> Inr [(''result_type'', kind), (''value'', if kind = JStr ''scalar'' then float_json fl (num x) else x)]
             | JArr _ \<Rightarrow> Inl (PyExn ''IndexError'')
             | _ \<Rightarrow> Inl (PyExn ''schema''))
       else bindS (bindS (titems result) (mapS (instant_series num))) (\<lambda>series.
         Inr ([(''result_type'', kind), (''series_count'', JInt (int (length series))),
               (''top'', JArr (map (\<lambda>(m, v). JObj [(''labels'', m), (''value'', float_json fl v)]) (take PROM_TOP (instant_order series))))] @
              (if series = [] then [(''note'', JStr ''no data: the selector matched nothing at this time'')]
               else if PROM_TOP < length series
               then [(''note'', JStr (''showing the '' @ dec PROM_TOP @ '' highest of '' @ dec (length series) @ '' series''))] else [])))))"

text \<open>A series of a range query: its labels and its samples, times as they come.\<close>

type_synonym samples = "(rat \<times> rat option) list"

definition sample_mean :: "rat list \<Rightarrow> rat" where
  "sample_mean vs = sum_list vs / of_nat (length vs)"

definition bucket :: "'a list \<Rightarrow> nat \<Rightarrow> 'a list" where
  "bucket vs i = take ((i + 1) * length vs div SHAPE_POINTS - i * length vs div SHAPE_POINTS) (drop (i * length vs div SHAPE_POINTS) vs)"

definition shape_of :: "(rat \<Rightarrow> rat option) \<Rightarrow> rat option list \<Rightarrow> rat option list" where
  "shape_of rnd vs =
     (if length vs \<le> SHAPE_POINTS then vs
      else map (\<lambda>i. let b = List.map_filter id (bucket vs i) in if b = [] then None else rnd (sample_mean b)) [0..<SHAPE_POINTS])"

record series_stats =
  pm_labels :: json
  pm_first :: rat
  pm_last :: rat
  pm_min :: rat
  pm_max :: rat
  pm_mean :: "rat option"
  pm_peak_at :: rat
  pm_from :: rat
  pm_to :: rat
  pm_shape :: "rat option list"

text \<open>\<open>max(known, key=value)\<close> is the first sample of the greatest value.\<close>

definition stats_of :: "(rat \<Rightarrow> rat option) \<Rightarrow> json \<Rightarrow> samples \<Rightarrow> series_stats option" where
  "stats_of rnd labels points =
     (let known = List.map_filter (\<lambda>(t, v). map_option (\<lambda>x. (t, x)) v) points; vs = map snd known
      in case (known, least_by (\<lambda>a b. snd b < snd a) known) of
           ((t, v) # rest, Some (peak_t, peak)) \<Rightarrow>
             Some \<lparr>pm_labels = labels, pm_first = v, pm_last = last vs, pm_min = foldr min vs v, pm_max = foldr max vs v,
                   pm_mean = rnd (sample_mean vs), pm_peak_at = peak_t, pm_from = fst (hd points), pm_to = fst (last points),
                   pm_shape = shape_of rnd (map snd points)\<rparr>
         | _ \<Rightarrow> None)"

definition range_order :: "series_stats list \<Rightarrow> series_stats list" where
  "range_order stats = sort_key (\<lambda>s. - pm_max s) stats"

definition stats_json :: "(rat \<Rightarrow> string) \<Rightarrow> (rat \<Rightarrow> string) \<Rightarrow> series_stats \<Rightarrow> json" where
  "stats_json fl stamp s =
     (let f = (\<lambda>r. JFloat (fl r))
      in JObj [(''labels'', pm_labels s), (''first'', f (pm_first s)), (''last'', f (pm_last s)), (''min'', f (pm_min s)),
           (''max'', f (pm_max s)), (''mean'', float_json fl (pm_mean s)), (''peak_at'', JStr (stamp (pm_peak_at s))),
           (''from'', JStr (stamp (pm_from s))), (''to'', JStr (stamp (pm_to s))), (''shape'', JArr (map (float_json fl) (pm_shape s)))])"

definition summarize_range ::
    "(rat \<Rightarrow> rat option) \<Rightarrow> (rat \<Rightarrow> string) \<Rightarrow> (rat \<Rightarrow> string) \<Rightarrow> nat \<Rightarrow> nat \<Rightarrow> (json \<times> samples) list \<Rightarrow> obj" where
  "summarize_range rnd fl stamp step minutes series =
     (let stats = range_order (List.map_filter (\<lambda>(m, points). stats_of rnd m points) series)
      in [(''series_count'', JInt (int (length stats))), (''step_s'', JInt (int step)), (''minutes'', JInt (int minutes)),
          (''series'', JArr (map (stats_json fl stamp) (take PROM_TOP stats)))] @
         (if stats = [] then [(''note'', JStr ''no data in this window'')]
          else if PROM_TOP < length stats
          then [(''note'', JStr (''showing the '' @ dec PROM_TOP @ '' series with the highest peak of '' @ dec (length stats)))] else []))"

section \<open>Loki\<close>

record logs_args =
  la_service :: string
  la_contains :: "string option"
  la_level :: "string option"

definition RE2_SPECIAL :: string where
  "RE2_SPECIAL = CHR 0x5C # ''.+*?()|[]{}^$''"

definition re2_escape :: "string \<Rightarrow> string" where
  "re2_escape s = concat (map (\<lambda>c. if c \<in> set RE2_SPECIAL then [CHR 0x5C, c] else [c]) s)"

definition LEVEL_PATTERN :: "(string \<times> string) list" where
  "LEVEL_PATTERN = (let err = ''error|fatal|critical|crit|emergency|alert''
     in [(''error'', err), (''warn'', ''warn|warning|'' @ err)])"

text \<open>What the argument model accepts.\<close>

definition service_char :: "char \<Rightarrow> bool" where
  "service_char c \<longleftrightarrow> is_digit c \<or> (65 \<le> (of_char c :: nat) \<and> (of_char c :: nat) \<le> 90) \<or>
     (97 \<le> (of_char c :: nat) \<and> (of_char c :: nat) \<le> 122) \<or> c \<in> {CHR ''_'', CHR ''.'', CHR ''-''}"

definition backtick :: char where
  "backtick = CHR 0x60"

definition logs_args_ok :: "logs_args \<Rightarrow> bool" where
  "logs_args_ok a \<longleftrightarrow>
     1 \<le> length (la_service a) \<and> length (la_service a) \<le> 64 \<and> list_all service_char (la_service a) \<and>
     (case la_contains a of None \<Rightarrow> True | Some t \<Rightarrow> length t \<le> 200 \<and> backtick \<notin> set t) \<and>
     (case la_level a of None \<Rightarrow> True | Some l \<Rightarrow> l \<in> {''error'', ''warn''})"

definition quote :: char where
  "quote = CHR 0x22"

definition logql :: "logs_args \<Rightarrow> string" where
  "logql a =
     ''{service_name='' @ [quote] @ la_service a @ [quote] @ ''}'' @
     (case la_contains a of
        Some (c # t) \<Rightarrow> '' |~ '' @ [backtick] @ ''(?i)'' @ re2_escape (c # t) @ [backtick]
      | _ \<Rightarrow> []) @
     (case la_level a of
        None \<Rightarrow> []
      | Some l \<Rightarrow> (let p = (case map_of LEVEL_PATTERN l of None \<Rightarrow> [] | Some x \<Rightarrow> x)
          in '' | detected_level=~'' @ [quote] @ ''(?i)('' @ p @ '')'' @ [quote] @ '' or severity_text=~'' @ [quote] @ ''(?i)('' @ p @ '')'' @ [quote]))"

text \<open>\<open>_level\<close>: the first level that is set, of the line's metadata, then of the stream's labels.\<close>

definition log_level :: "(string \<times> string) list \<Rightarrow> (string \<times> string) list \<Rightarrow> string" where
  "log_level meta labels =
     (case List.map_filter (\<lambda>(src, k). case map_of src k of Some (c # t) \<Rightarrow> Some (map lower_char (c # t)) | _ \<Rightarrow> None)
             (List.product [meta, labels] [''detected_level'', ''severity_text'', ''level'']) of
        l # ls \<Rightarrow> l
      | [] \<Rightarrow> ''unknown'')"

section \<open>The buckets are the series\<close>

lemma bucket_concat:
  "concat (map (bucket vs) [0..<n]) = take (n * length vs div SHAPE_POINTS) vs"
proof (induction n)
  case (Suc n)
  have le: "n * length vs div SHAPE_POINTS \<le> Suc n * length vs div SHAPE_POINTS"
    by (rule div_le_mono) simp
  have "concat (map (bucket vs) [0..<Suc n]) = take (n * length vs div SHAPE_POINTS) vs @ bucket vs n"
    by (simp add: Suc.IH)
  also have "\<dots> = take (n * length vs div SHAPE_POINTS + (Suc n * length vs div SHAPE_POINTS - n * length vs div SHAPE_POINTS)) vs"
    by (simp add: bucket_def take_add)
  finally show ?case using le by simp
qed simp

lemma buckets_are_series: "concat (map (bucket vs) [0..<SHAPE_POINTS]) = vs"
  using bucket_concat [of vs SHAPE_POINTS] by (simp add: SHAPE_POINTS_def)

lemma shape_length: "length (shape_of rnd vs) = min (length vs) SHAPE_POINTS"
  by (simp add: shape_of_def)

section \<open>A log query cannot be escaped from\<close>

lemma re2_escape_chars: "set (re2_escape s) \<subseteq> insert (CHR 0x5C) (set s)"
  by (auto simp: re2_escape_def split: if_splits)

lemma re2_escape_inj: "re2_escape s = re2_escape t \<longleftrightarrow> s = t"
proof
  show "re2_escape s = re2_escape t \<Longrightarrow> s = t"
  proof (induction s arbitrary: t)
    case Nil
    then show ?case by (cases t) (auto simp: re2_escape_def split: if_splits)
  next
    case (Cons c s)
    then obtain e u where t: "t = e # u" by (cases t) (auto simp: re2_escape_def split: if_splits)
    have "CHR 0x5C \<in> set RE2_SPECIAL" by (simp add: RE2_SPECIAL_def)
    then have "c = e \<and> re2_escape s = re2_escape u"
      using Cons.prems unfolding t by (auto simp: re2_escape_def split: if_splits)
    with Cons.IH t show ?case by blast
  qed
qed simp

lemma level_pattern_chars: "map_of LEVEL_PATTERN l = Some p \<Longrightarrow> backtick \<notin> set p \<and> quote \<notin> set p"
  by (auto simp: LEVEL_PATTERN_def Let_def backtick_def quote_def split: if_splits)

lemma service_chars: "list_all service_char s \<Longrightarrow> backtick \<notin> set s \<and> quote \<notin> set s"
proof -
  have "\<not> service_char backtick" "\<not> service_char quote"
    by (simp_all add: service_char_def is_digit_def backtick_def quote_def)
  then show "list_all service_char s \<Longrightarrow> ?thesis" unfolding list_all_iff by blast
qed

text \<open>The query's own backticks, around the escaped text, are the only ones in it.\<close>

lemma logql_backticks:
  assumes "logs_args_ok a" "la_contains a = Some t" "t \<noteq> []"
  shows "\<exists>u v. logql a = u @ [backtick] @ ''(?i)'' @ re2_escape t @ [backtick] @ v \<and>
    backtick \<notin> set u \<and> backtick \<notin> set (re2_escape t) \<and> backtick \<notin> set v"
proof -
  obtain c s where t: "t = c # s" using assms(3) by (cases t) auto
  let ?u = "''{service_name='' @ [quote] @ la_service a @ [quote] @ ''}'' @ '' |~ ''"
  let ?v = "case la_level a of None \<Rightarrow> []
      | Some l \<Rightarrow> (let p = (case map_of LEVEL_PATTERN l of None \<Rightarrow> [] | Some x \<Rightarrow> x)
          in '' | detected_level=~'' @ [quote] @ ''(?i)('' @ p @ '')'' @ [quote] @ '' or severity_text=~'' @ [quote] @ ''(?i)('' @ p @ '')'' @ [quote])"
  have "logql a = ?u @ [backtick] @ ''(?i)'' @ re2_escape t @ [backtick] @ ?v"
    by (simp add: logql_def assms(2) t)
  moreover have "backtick \<notin> set ?u"
    using assms(1) service_chars by (auto simp: logs_args_ok_def backtick_def quote_def)
  moreover have "backtick \<notin> set (re2_escape t)"
    using assms(1,2) re2_escape_chars [of t] by (auto simp: logs_args_ok_def backtick_def)
  moreover have "backtick \<notin> set ?v"
    using level_pattern_chars by (auto simp: Let_def backtick_def quote_def split: option.splits)
  ultimately show ?thesis by blast
qed

end
