(* ===== verification/KnowledgeScenario.thy ===== *)
theory KnowledgeScenario
  imports SystemScenario Retrieval TraceTools MetricTools
begin

text \<open>
  Concrete inputs for the properties of the knowledge base and of the tools: an index with two
  tenants, a runbook with a code block, two Kubernetes events of which one is the fault
  injector's, a log query, a labelled evaluation set.
\<close>

section \<open>An index with two tenants\<close>

definition em0 :: embedder where
  "em0 = \<lparr>em_name = ''m'', em_documents = (\<lambda>ts. Inr (map (\<lambda>t. [of_nat (length t)]) ts)), em_query = (\<lambda>q. [of_nat (length q)])\<rparr>"

definition doc_kb0 :: "string \<Rightarrow> document" where
  "doc_kb0 body = \<lparr>dc_id = ''RB-1'', dc_kind = ''runbook'', dc_title = ''Cart'', dc_services = [''cart''], dc_version = ''1'',
     dc_body = body, dc_path = ''a.md''\<rparr>"

definition index0 :: kb_db where
  "index0 = \<lparr>
     kb_documents = [document_row id ''u'' 1 (doc_kb0 ''Theirs'') em0 SECTION],
     kb_chunks = [chunk_row ''u'' 1 (doc_kb0 ''Theirs'')
       (\<lparr>ck_doc_id = ''RB-1'', ck_ordinal = 1, ck_headings = [''Overview''], ck_content = ''Theirs'', ck_sections = []\<rparr>, [1])]\<rparr>"

definition sql0 :: sql_functions where
  "sql0 = \<lparr>fn_rank = (\<lambda>q c. Some 1), fn_distance = (\<lambda>v w. \<bar>hd v - hd w\<bar>), fn_collation = map of_char\<rparr>"

definition kn0 :: knowledge_base where
  "kn0 = \<lparr>kn_sql = sql0, kn_embedder = em0, kn_reranker = Some (\<lambda>q ps. Some (overlap_scores q ps)), kn_min_score = 0, kn_candidates = CANDIDATES\<rparr>"

lemma secret_is_long: "secret_word q \<Longrightarrow> 11 \<le> length q"
  by (auto simp: secret_word_def)

lemma index0_ok: "index_ok index0"
proof -
  have "''Theirs'' = u @ q @ v \<Longrightarrow> length q \<le> 6" for u q v :: string
    by (drule arg_cong [where f = length]) simp
  then have "secret_word q \<Longrightarrow> ''Theirs'' \<noteq> u @ q @ v" for u q v
    using secret_is_long [of q] by fastforce
  then show ?thesis by (simp add: index_ok_def index0_def chunk_row_def document_row_def)
qed

definition index1 :: kb_db where
  "index1 = snd (kb_ingest id ''t'' [doc_kb0 ''Roll back cart''] em0 SECTION True index0)"

lemma ingest0_report: "fst (kb_ingest id ''t'' [doc_kb0 ''Roll back cart''] em0 SECTION True index0) =
    Inr (empty_report\<lparr>ir_added := [''RB-1''], ir_chunks := 1\<rparr>)"
  by code_simp

lemma search_finds: "(case kb_search kn0 index1 ''t'' ''cart'' 3 Rerank None of Inr res \<Rightarrow> map h_content (sr_hits res) | Inl e \<Rightarrow> []) =
    [''Roll back cart'']"
  by code_simp

lemma search_theirs: "(case kb_search kn0 index1 ''u'' ''cart'' 3 Hybrid None of Inr res \<Rightarrow> map h_content (sr_hits res) | Inl e \<Rightarrow> []) =
    [''Theirs'']"
  by code_simp

section \<open>A runbook with code\<close>

definition tiny :: chunk_params where
  "tiny = \<lparr>cp_name = ''tiny'', cp_target = 4, cp_min = 0, cp_max = 4, cp_overlap = 1\<rparr>"

definition nl :: string where
  "nl = [newline]"

definition code_text0 :: string where
  "code_text0 = ''Run it now:'' @ gap @ ''```'' @ nl @ ''a'' @ gap @ ''b'' @ nl @ ''```'' @ gap @ ''Then stop.''"

lemma code_text0_split: "split_text tiny code_text0 =
    [''Run it now:'', ''now:'' @ gap @ ''```'' @ nl @ ''a'' @ gap @ ''b'' @ nl @ ''```'', ''b'' @ gap @ ''Then stop.'']"
  by code_simp

lemma code_text0_even: "even (fences (splitlines code_text0))"
  by code_simp

lemma code_text0_plain: "plain_words (splitlines code_text0)"
  by code_simp

text \<open>A line of code that looks like a heading starts a section of its own: the block is cut.\<close>

lemma heading_in_code_cuts: "map fst (sections (''## A'' @ nl @ ''```'' @ nl @ ''## x'' @ nl @ ''```'' @ nl @ ''end'')) = [''A'', ''x'']"
  by code_simp

section \<open>Events and log queries\<close>

definition event0 :: "string \<Rightarrow> json" where
  "event0 api = JObj [(''metadata'', JObj [(''creationTimestamp'', JStr ''9'')]), (''type'', JStr ''Warning''), (''reason'', JStr ''BackOff''),
     (''involvedObject'', JObj [(''apiVersion'', JStr api), (''name'', JStr ''cart'')])]"

definition k8s0 :: http_backend where
  "k8s0 path params = HttpReply 200 '''' ''OK'' (Some (JObj [(''items'', JArr [event0 ''apps/v1'', event0 ''chaos-mesh.org/v1alpha1''])]))"

definition events_args0 :: events_args where
  "events_args0 = \<lparr>ea_object_name = None, ea_warnings_only = True, ea_minutes = 60\<rparr>"

lemma events0_visible: "fetch_events (\<lambda>s. Inr 9) ''k'' k8s0 ''shop'' events_args0 10 =
    Inr (JObj [(''namespace'', JStr ''shop''), (''items'', JArr [event0 ''apps/v1''])])"
  by code_simp

definition logs0 :: logs_args where
  "logs0 = \<lparr>la_service = ''cart'', la_contains = Some ''a.b'', la_level = Some ''error''\<rparr>"

lemma logs0_ok: "logs_args_ok logs0"
  by code_simp

end
