(* ===== verification/StepSchema.thy ===== *)
theory StepSchema
  imports Backends
begin

text \<open>
  The JSON schema of a step, \<open>llm/render.py\<close>. \<open>inline_refs\<close> replaces the local references of a
  schema by what they name; Python's limit on the depth of calls is the fuel. Shown: a schema whose
  definitions do not refer to each other in a circle needs no more than some depth, one with a
  circle is too deep at any, and what comes out has no reference left.
\<close>

section \<open>The walk\<close>

definition REF_PREFIX :: string where
  "REF_PREFIX = ''#/$defs/''"

definition local_ref :: "obj \<Rightarrow> string option" where
  "local_ref node =
     (case jget node ''$ref'' of
        Some (JStr ref) \<Rightarrow> if starts_with REF_PREFIX ref then Some (drop (length REF_PREFIX) ref) else None
      | _ \<Rightarrow> None)"

text \<open>\<open>{**target, **extra}\<close>\<close>

definition dict_join :: "obj \<Rightarrow> obj \<Rightarrow> obj" where
  "dict_join target new = fold (\<lambda>kv. dict_put (fst kv) (snd kv)) new target"

definition without_key :: "string \<Rightarrow> obj \<Rightarrow> obj" where
  "without_key k node = filter (\<lambda>kv. fst kv \<noteq> k) node"

definition target_of :: "json \<Rightarrow> string \<Rightarrow> string + obj" where
  "target_of defs name =
     (case defs of
        JObj ds \<Rightarrow> (case jget ds name of None \<Rightarrow> Inl ''KeyError'' | Some (JObj target) \<Rightarrow> Inr target | Some t \<Rightarrow> Inl ''TypeError'')
      | _ \<Rightarrow> Inl ''TypeError'')"

primrec walk_refs :: "nat \<Rightarrow> json \<Rightarrow> json \<Rightarrow> string + json" where
  "walk_refs 0 defs j = Inl ''RecursionError''"
| "walk_refs (Suc depth) defs j =
     (case j of
        JObj node \<Rightarrow>
          (case local_ref node of
             Some name \<Rightarrow>
               bindS (target_of defs name) (\<lambda>target. walk_refs depth defs (JObj (dict_join target (without_key ''$ref'' node))))
           | None \<Rightarrow>
               bindS (mapS (\<lambda>kv. bindS (walk_refs depth defs (snd kv)) (\<lambda>v. Inr (fst kv, v))) (without_key ''$defs'' node))
                 (\<lambda>kvs. Inr (JObj kvs)))
      | JArr xs \<Rightarrow> bindS (mapS (walk_refs depth defs) xs) (\<lambda>ys. Inr (JArr ys))
      | _ \<Rightarrow> Inr j)"

definition inline_refs :: "nat \<Rightarrow> obj \<Rightarrow> string + obj" where
  "inline_refs depth schema =
     bindS (walk_refs depth (case jget schema ''$defs'' of None \<Rightarrow> JObj [] | Some d \<Rightarrow> d) (JObj schema))
       (\<lambda>out. case out of JObj kvs \<Rightarrow> Inr (without_key ''title'' kvs) | _ \<Rightarrow> Inl ''TypeError'')"

section \<open>No reference is left\<close>

lemma jget_without_key [simp]: "jget (without_key k node) n = (if n = k then None else jget node n)"
  by (induction node) (auto simp: without_key_def jget_def)

lemma walk_refs_obj: "walk_refs n defs (JObj node) = Inr j \<Longrightarrow> \<exists>kvs. j = JObj kvs"
  by (induction n arbitrary: node) (auto simp: bindS_Inr_iff split: option.splits)

lemma walk_refs_arr: "walk_refs n defs (JArr xs) = Inr j \<Longrightarrow> \<exists>ys. j = JArr ys"
  by (cases n) (auto simp: bindS_Inr_iff)

lemma walk_refs_atom: "walk_refs n defs v = Inr (JStr s) \<Longrightarrow> v = JStr s"
  using walk_refs_obj [of n defs] walk_refs_arr [of n defs] by (cases n; cases v) fastforce+

primrec ref_free :: "json \<Rightarrow> bool" where
  "ref_free JNull = True"
| "ref_free (JBool b) = True"
| "ref_free (JInt i) = True"
| "ref_free (JFloat t) = True"
| "ref_free (JStr s) = True"
| "ref_free (JArr xs) = list_all id (map ref_free xs)"
| "ref_free (JObj node) = (local_ref node = None \<and> list_all snd (map (map_prod id ref_free) node))"

lemma ref_free_obj: "ref_free (JObj node) \<longleftrightarrow> local_ref node = None \<and> (\<forall>kv \<in> set node. ref_free (snd kv))"
  by (auto simp: list_all_iff)

lemma ref_free_arr: "ref_free (JArr xs) \<longleftrightarrow> (\<forall>x \<in> set xs. ref_free x)"
  by (auto simp: list_all_iff)

lemma walked_items:
  assumes "mapS (\<lambda>kv. bindS (f (snd kv)) (\<lambda>v. Inr (fst kv, v))) node = Inr kvs"
  shows "map fst kvs = map fst node" "kv \<in> set kvs \<Longrightarrow> \<exists>u. (fst kv, u) \<in> set node \<and> f u = Inr (snd kv)"
    "jget kvs k = Some v \<Longrightarrow> \<exists>u. jget node k = Some u \<and> f u = Inr v"
  using assms by (induction node arbitrary: kvs) (auto simp: bindS_Inr_iff jget_def split: if_splits; blast)+

lemma walk_refs_ref_free: "walk_refs n defs j = Inr out \<Longrightarrow> ref_free out"
proof (induction n arbitrary: j out)
  case (Suc n)
  show ?case
  proof (cases j)
    case (JArr xs)
    with Suc.prems obtain ys where ys: "mapS (walk_refs n defs) xs = Inr ys" "out = JArr ys" by (auto simp: bindS_Inr_iff)
    have "ref_free y" if "y \<in> set ys" for y
      using ys(1) that Suc.IH by (auto simp: mapS_Inr list_all2_conv_all_nth in_set_conv_nth)
    with ys show ?thesis by (simp only: ref_free_arr) blast
  next
    case (JObj node)
    show ?thesis
    proof (cases "local_ref node")
      case None
      with Suc.prems JObj obtain kvs where kvs: "out = JObj kvs"
          "mapS (\<lambda>kv. bindS (walk_refs n defs (snd kv)) (\<lambda>v. Inr (fst kv, v))) (without_key ''$defs'' node) = Inr kvs"
        by (auto simp: bindS_Inr_iff)
      have "\<forall>kv \<in> set kvs. ref_free (snd kv)" using walked_items(2) [OF kvs(2)] Suc.IH by blast
      moreover have "jget kvs ''$ref'' = Some (JStr s) \<Longrightarrow> jget node ''$ref'' = Some (JStr s)" for s
        using walked_items(3) [OF kvs(2)] walk_refs_atom by fastforce
      then have "local_ref kvs = None" using None
        by (auto simp: local_ref_def split: option.splits json.splits if_splits)
      ultimately show ?thesis using kvs(1) ref_free_obj by blast
    next
      case (Some name)
      with Suc.prems JObj show ?thesis by (auto simp: bindS_Inr_iff dest: Suc.IH)
    qed
  qed (use Suc.prems in auto)
qed simp

lemma inline_refs_ref_free:
  assumes "inline_refs depth schema = Inr out"
  shows "ref_free (JObj out)"
proof -
  obtain defs j where w: "walk_refs depth defs (JObj schema) = Inr j"
      and j: "(case j of JObj kvs \<Rightarrow> Inr (without_key ''title'' kvs) | _ \<Rightarrow> Inl ''TypeError'') = Inr out"
    using assms unfolding inline_refs_def bindS_Inr_iff by blast
  then obtain kvs where kvs: "j = JObj kvs" using walk_refs_obj by blast
  with w walk_refs_ref_free have k: "ref_free (JObj kvs)" by blast
  have out: "out = without_key ''title'' kvs" using j kvs by simp
  have "local_ref out = local_ref kvs" by (simp add: out local_ref_def)
  with k show ?thesis by (auto simp: ref_free_obj out without_key_def simp del: ref_free.simps)
qed

section \<open>Enough depth\<close>

abbreviation too_deep :: "string + 'a" where
  "too_deep \<equiv> Inl ''RecursionError''"

lemma mapS_agrees:
  assumes "mapS f xs \<noteq> Inl e" "\<And>x. x \<in> set xs \<Longrightarrow> f x \<noteq> Inl e \<Longrightarrow> g x = f x"
  shows "mapS g xs = mapS f xs"
  using assms
proof (induction xs)
  case (Cons x xs)
  then have f: "f x \<noteq> Inl e" by auto
  with Cons.prems have g: "g x = f x" by simp
  show ?case
  proof (cases "f x")
    case (Inr y)
    with Cons.prems(1) have "mapS f xs \<noteq> Inl e" by auto
    with Cons g Inr show ?thesis by simp
  qed (simp add: g)
qed simp

lemma walk_refs_Suc: "walk_refs n defs j \<noteq> too_deep \<Longrightarrow> walk_refs (Suc n) defs j = walk_refs n defs j"
proof (induction n arbitrary: j)
  case (Suc n)
  let ?f = "\<lambda>m kv. bindS (walk_refs m defs (snd kv)) (\<lambda>v. Inr (fst kv, v))"
  show ?case
  proof (cases j)
    case (JArr xs)
    with Suc.prems have "mapS (walk_refs n defs) xs \<noteq> too_deep" by auto
    then have "mapS (walk_refs (Suc n) defs) xs = mapS (walk_refs n defs) xs"
      by (rule mapS_agrees) (rule Suc.IH)
    with JArr show ?thesis by (simp del: walk_refs.simps(2) add: walk_refs.simps(2) [of "Suc n"] walk_refs.simps(2) [of n])
  next
    case (JObj node)
    show ?thesis
    proof (cases "local_ref node")
      case None
      with Suc.prems JObj have "mapS (?f n) (without_key ''$defs'' node) \<noteq> too_deep" by auto
      then have "mapS (?f (Suc n)) (without_key ''$defs'' node) = mapS (?f n) (without_key ''$defs'' node)"
      proof (rule mapS_agrees)
        fix kv assume "?f n kv \<noteq> too_deep"
        then have "walk_refs n defs (snd kv) \<noteq> too_deep" by auto
        from Suc.IH [OF this] show "?f (Suc n) kv = ?f n kv" by (rule arg_cong)
      qed
      with JObj None show ?thesis
        by (simp del: walk_refs.simps(2) add: walk_refs.simps(2) [of "Suc n"] walk_refs.simps(2) [of n])
    next
      case (Some name)
      show ?thesis
      proof (cases "target_of defs name")
        case (Inr target)
        let ?j = "JObj (dict_join target (without_key ''$ref'' node))"
        have "walk_refs n defs ?j \<noteq> too_deep" using Suc.prems JObj Some Inr by simp
        from Suc.IH [OF this] JObj Some Inr show ?thesis
          by (simp del: walk_refs.simps(2) add: walk_refs.simps(2) [of "Suc n"] walk_refs.simps(2) [of n])
      qed (use JObj Some in simp)
    qed
  qed simp_all
qed simp

lemma walk_refs_mono: "n \<le> m \<Longrightarrow> walk_refs n defs j \<noteq> too_deep \<Longrightarrow> walk_refs m defs j = walk_refs n defs j"
proof (induction rule: nat_induct_at_least)
  case (Suc m)
  then show ?case using walk_refs_Suc [of m defs j] by simp
qed simp

definition walk_ends :: "json \<Rightarrow> json \<Rightarrow> bool" where
  "walk_ends defs j \<longleftrightarrow> (\<exists>n. walk_refs n defs j \<noteq> too_deep)"

text \<open>\<open>rk\<close> numbers the definitions; every reference in the value is to one below \<open>k\<close>.\<close>

primrec refs_below :: "(string \<Rightarrow> nat) \<Rightarrow> nat \<Rightarrow> json \<Rightarrow> bool" where
  "refs_below rk k JNull = True"
| "refs_below rk k (JBool b) = True"
| "refs_below rk k (JInt i) = True"
| "refs_below rk k (JFloat t) = True"
| "refs_below rk k (JStr s) = True"
| "refs_below rk k (JArr xs) = list_all id (map (refs_below rk k) xs)"
| "refs_below rk k (JObj node) =
     ((case local_ref node of None \<Rightarrow> True | Some name \<Rightarrow> rk name < k) \<and>
      list_all snd (map (map_prod id (refs_below rk k)) node))"

definition no_circle :: "(string \<Rightarrow> nat) \<Rightarrow> json \<Rightarrow> bool" where
  "no_circle rk defs =
     (case defs of JObj ds \<Rightarrow> list_all (\<lambda>kv. refs_below rk (rk (fst kv)) (snd kv)) ds | _ \<Rightarrow> True)"

lemma target_below:
  assumes "no_circle rk defs" "target_of defs name = Inr target"
  shows "refs_below rk (rk name) (JObj target)"
  using assms map_of_SomeD
  by (fastforce simp: no_circle_def target_of_def list_all_iff jget_def split: json.splits option.splits)

lemma walks_together:
  assumes "\<forall>x \<in> set xs. walk_ends defs (f x)"
  shows "\<exists>n. \<forall>x \<in> set xs. walk_refs n defs (f x) \<noteq> too_deep"
  using assms
proof (induction xs)
  case (Cons x xs)
  then obtain n m where "walk_refs n defs (f x) \<noteq> too_deep" "\<forall>x \<in> set xs. walk_refs m defs (f x) \<noteq> too_deep"
    by (auto simp: walk_ends_def)
  then show ?case using walk_refs_mono [of n "max n m"] walk_refs_mono [of m "max n m"]
    by (intro exI [of _ "max n m"]) simp
qed simp

lemma mapS_not: "\<forall>x \<in> set xs. f x \<noteq> Inl e \<Longrightarrow> mapS f xs \<noteq> Inl e"
proof (induction xs)
  case (Cons x xs)
  then show ?case by (cases "f x") (auto simp: bindS_Inl_iff)
qed simp

lemma walk_ends_arr:
  assumes "\<forall>x \<in> set xs. walk_ends defs x"
  shows "walk_ends defs (JArr xs)"
proof -
  obtain n where "\<forall>x \<in> set xs. walk_refs n defs x \<noteq> too_deep" using walks_together [of xs defs id] assms by auto
  then have "mapS (walk_refs n defs) xs \<noteq> too_deep" by (rule mapS_not)
  then have "walk_refs (Suc n) defs (JArr xs) \<noteq> too_deep" by (cases "mapS (walk_refs n defs) xs") auto
  then show ?thesis unfolding walk_ends_def by blast
qed

lemma walk_ends_plain:
  assumes "local_ref node = None" "\<forall>kv \<in> set node. walk_ends defs (snd kv)"
  shows "walk_ends defs (JObj node)"
proof -
  let ?kvs = "without_key ''$defs'' node"
  obtain n where "\<forall>kv \<in> set ?kvs. walk_refs n defs (snd kv) \<noteq> too_deep"
    using walks_together [of ?kvs defs snd] assms(2) by (auto simp: without_key_def)
  then have "\<forall>kv \<in> set ?kvs. bindS (walk_refs n defs (snd kv)) (\<lambda>v. Inr (fst kv, v)) \<noteq> too_deep"
    by (auto simp: bindS_Inl_iff)
  then have "mapS (\<lambda>kv. bindS (walk_refs n defs (snd kv)) (\<lambda>v. Inr (fst kv, v))) ?kvs \<noteq> too_deep" by (rule mapS_not)
  then have "walk_refs (Suc n) defs (JObj node) \<noteq> too_deep" using assms(1) by (auto simp: bindS_Inl_iff)
  then show ?thesis unfolding walk_ends_def by blast
qed

lemma walk_ends_ref:
  assumes "local_ref node = Some name"
    "\<And>target. target_of defs name = Inr target \<Longrightarrow> walk_ends defs (JObj (dict_join target (without_key ''$ref'' node)))"
  shows "walk_ends defs (JObj node)"
proof (cases "target_of defs name")
  case (Inl e)
  then have "e \<noteq> ''RecursionError''" by (auto simp: target_of_def split: json.split_asm option.split_asm)
  with Inl assms(1) have "walk_refs 1 defs (JObj node) \<noteq> too_deep" by simp
  then show ?thesis unfolding walk_ends_def by blast
next
  case (Inr target)
  with assms(2) obtain n where "walk_refs n defs (JObj (dict_join target (without_key ''$ref'' node))) \<noteq> too_deep"
    by (auto simp: walk_ends_def)
  with assms(1) Inr have "walk_refs (Suc n) defs (JObj node) \<noteq> too_deep" by simp
  then show ?thesis unfolding walk_ends_def by blast
qed

lemma dict_put_set: "kv \<in> set (dict_put k v kvs) \<Longrightarrow> kv = (k, v) \<or> kv \<in> set kvs"
  by (induction kvs) (auto simp: dict_put_def split: if_splits)

lemma dict_join_set: "kv \<in> set (dict_join target new) \<Longrightarrow> kv \<in> set target \<or> kv \<in> set new"
proof (induction new arbitrary: target)
  case (Cons x new)
  then have "kv \<in> set (dict_join (dict_put (fst x) (snd x) target) new)" by (simp add: dict_join_def)
  from Cons.IH [OF this] dict_put_set [of kv] show ?case by fastforce
qed (simp add: dict_join_def)

lemma jget_other: "k' \<noteq> k \<Longrightarrow> jget (dict_put k v kvs) k' = jget kvs k'"
proof -
  assume "k' \<noteq> k"
  then have "map_of (map (\<lambda>(a, b). (a, if a = k then v else b)) kvs) k' = map_of kvs k'" by (induction kvs) auto
  with \<open>k' \<noteq> k\<close> show ?thesis by (auto simp: dict_put_def jget_def map_add_def split: option.split)
qed

lemma jget_dict_join: "k \<notin> fst ` set new \<Longrightarrow> jget (dict_join target new) k = jget target k"
proof (induction new arbitrary: target)
  case (Cons x new)
  have "jget (dict_join target (x # new)) k = jget (dict_join (dict_put (fst x) (snd x) target) new) k"
    by (simp add: dict_join_def)
  with Cons show ?case by (simp add: jget_other)
qed (simp add: dict_join_def)

lemma local_ref_join: "local_ref (dict_join target (without_key ''$ref'' node)) = local_ref target"
proof -
  have "''$ref'' \<notin> fst ` set (without_key ''$ref'' node)" by (auto simp: without_key_def)
  then show ?thesis by (simp add: local_ref_def jget_dict_join)
qed

lemma refs_below_items: "refs_below rk k (JObj node) \<Longrightarrow> kv \<in> set node \<Longrightarrow> refs_below rk k (snd kv)"
  by (auto simp: list_all_iff)

text \<open>An object whose items end ends, if the references before it do.\<close>

lemma walk_ends_obj:
  assumes circle: "no_circle rk defs" and smaller: "\<And>r j. r < k \<Longrightarrow> refs_below rk r j \<Longrightarrow> walk_ends defs j"
  shows "\<forall>kv \<in> set node. walk_ends defs (snd kv) \<Longrightarrow> local_ref node = Some name \<Longrightarrow> rk name < k \<Longrightarrow>
    walk_ends defs (JObj node)"
proof (induction "rk name" arbitrary: name node rule: less_induct)
  case less
  show ?case
  proof (rule walk_ends_ref [OF less.prems(2)])
    fix target assume t: "target_of defs name = Inr target"
    let ?node = "dict_join target (without_key ''$ref'' node)"
    have below: "refs_below rk (rk name) (JObj target)" by (rule target_below [OF circle t])
    have "walk_ends defs (snd kv)" if "kv \<in> set ?node" for kv
      using dict_join_set [OF that] refs_below_items [OF below, of kv] smaller [OF less.prems(3), of "snd kv"] less.prems(1)
      by (auto simp: without_key_def)
    then have items: "\<forall>kv \<in> set ?node. walk_ends defs (snd kv)" by blast
    show "walk_ends defs (JObj ?node)"
    proof (cases "local_ref target")
      case None
      then show ?thesis by (intro walk_ends_plain items) (simp add: local_ref_join)
    next
      case (Some name')
      with below have "rk name' < rk name" by simp
      with Some items less.prems(3) show ?thesis by (intro less.hyps [of name']) (simp_all add: local_ref_join)
    qed
  qed
qed

lemma walk_refs_ends:
  assumes "no_circle rk defs" "refs_below rk k j"
  shows "walk_ends defs j"
  using assms(2)
proof (induction k arbitrary: j rule: less_induct)
  case (less k)
  from less.prems show ?case
  proof (induction j)
    case (JObj node)
    have items: "\<forall>kv \<in> set node. walk_ends defs (snd kv)"
    proof
      fix kv assume "kv \<in> set node"
      with JObj.IH [of kv "snd kv"] refs_below_items [OF JObj.prems] show "walk_ends defs (snd kv)" by (cases kv) auto
    qed
    show ?case
    proof (cases "local_ref node")
      case None
      then show ?thesis using items by (rule walk_ends_plain)
    next
      case (Some name)
      with JObj.prems have "rk name < k" by simp
      from walk_ends_obj [of rk defs k, OF assms(1) _ items Some this] less.IH show ?thesis by blast
    qed
  next
    case (JArr xs)
    then show ?case by (intro walk_ends_arr) (auto simp: list_all_iff)
  qed (auto simp: walk_ends_def intro: exI [of _ "1 :: nat"])
qed

text \<open>A definition that is a reference to itself.\<close>

lemma circle_too_deep:
  assumes "target_of defs name = Inr target" "local_ref target = Some name"
  shows "local_ref node = Some name \<Longrightarrow> walk_refs n defs (JObj node) = too_deep"
proof (induction n arbitrary: node)
  case (Suc n)
  from Suc.IH [of "dict_join target (without_key ''$ref'' node)"] Suc.prems assms show ?case by (simp add: local_ref_join)
qed simp

lemma inline_refs_ends:
  assumes "no_circle rk (JObj ds)" "jget schema ''$defs'' = Some (JObj ds)" "refs_below rk k (JObj schema)"
  shows "\<exists>depth. \<forall>n \<ge> depth. inline_refs n schema \<noteq> too_deep"
proof -
  obtain d where d: "walk_refs d (JObj ds) (JObj schema) \<noteq> too_deep"
    using walk_refs_ends [OF assms(1,3)] by (auto simp: walk_ends_def)
  have "inline_refs n schema \<noteq> too_deep" if "d \<le> n" for n
    using walk_refs_mono [OF that d] d by (auto simp: inline_refs_def assms(2) bindS_Inl_iff split: json.split_asm)
  then show ?thesis by blast
qed

section \<open>The schema of a step\<close>

definition need :: "obj \<Rightarrow> string \<Rightarrow> string + json" where
  "need t k = (case jget t k of None \<Rightarrow> Inl ''KeyError'' | Some v \<Rightarrow> Inr v)"

definition inline_json :: "nat \<Rightarrow> json \<Rightarrow> string + obj" where
  "inline_json depth j = (case j of JObj schema \<Rightarrow> inline_refs depth schema | _ \<Rightarrow> Inl ''AttributeError'')"

definition action_schema :: "nat \<Rightarrow> obj \<Rightarrow> string + json" where
  "action_schema depth t =
     bindS (need t ''input_schema'') (\<lambda>s. bindS (inline_json depth s) (\<lambda>args.
     bindS (need t ''description'') (\<lambda>about. bindS (need t ''name'') (\<lambda>name.
       Inr (JObj
         [(''type'', JStr ''object''), (''description'', about),
          (''properties'', JObj [(''tool'', JObj [(''const'', name)]), (''args'', JObj (without_key ''title'' args))]),
          (''required'', jstrs [''tool'', ''args'']), (''additionalProperties'', JBool False)])))))"

definition step_reasoning :: "string \<times> json" where
  "step_reasoning =
     (''reasoning'', JObj [(''type'', JStr ''string''),
        (''description'', JStr ''Two or three sentences: what you learned and what you do next. No chain of thought.'')])"

definition step_object :: "obj \<Rightarrow> string list \<Rightarrow> json" where
  "step_object props required =
     JObj [(''type'', JStr ''object''), (''properties'', JObj props), (''required'', jstrs required),
           (''additionalProperties'', JBool False)]"

definition step_schema :: "nat \<Rightarrow> llm_request \<Rightarrow> string + json" where
  "step_schema depth r =
     (if rq_tools r \<noteq> [] \<and> \<not> rq_force_final r
      then bindS (mapS (\<lambda>t. case t of JObj kvs \<Rightarrow> action_schema depth kvs | _ \<Rightarrow> Inl ''TypeError'') (rq_tools r)) (\<lambda>items.
        Inr (step_object
          [step_reasoning,
           (''actions'', JObj [(''type'', JStr ''array''), (''maxItems'', JInt (int (rq_max_actions r))),
              (''description'', JStr (''Data sources to query now (they run in parallel; results come in the next message). '' @
                 ''Leave empty when you give the final answer.'')),
              (''items'', JObj [(''anyOf'', JArr items)])]),
           (''final'', JObj (dict_put ''description'' (JStr ''Only when you are done; omit it otherwise.'')
              (case rq_final_schema r of JObj kvs \<Rightarrow> kvs | _ \<Rightarrow> [])))]
          [''reasoning'']))
      else Inr (step_object [step_reasoning, (''final'', rq_final_schema r)] [''reasoning'', ''final'']))"

lemma action_schema_ref_free:
  assumes "action_schema depth t = Inr j" "jget t ''name'' = Some (JStr n)" "jget t ''description'' = Some (JStr d)"
  shows "ref_free j"
proof -
  obtain s args where a: "inline_refs depth s = Inr args" and
    j: "j = JObj [(''type'', JStr ''object''), (''description'', JStr d),
          (''properties'', JObj [(''tool'', JObj [(''const'', JStr n)]), (''args'', JObj (without_key ''title'' args))]),
          (''required'', jstrs [''tool'', ''args'']), (''additionalProperties'', JBool False)]"
    using assms by (auto simp: action_schema_def inline_json_def need_def bindS_Inr_iff split: option.split_asm json.split_asm)
  have "local_ref (without_key ''title'' args) = local_ref args" by (simp add: local_ref_def)
  with inline_refs_ref_free [OF a] have "ref_free (JObj (without_key ''title'' args))"
    by (auto simp: ref_free_obj without_key_def simp del: ref_free.simps)
  then show ?thesis unfolding j by (simp add: local_ref_def jget_def jstrs_def)
qed

text \<open>A step can name a data source only if the request offers any and does not force the answer.\<close>

lemma step_schema_forced:
  "rq_force_final r \<or> rq_tools r = [] \<Longrightarrow>
   step_schema depth r = Inr (step_object [step_reasoning, (''final'', rq_final_schema r)] [''reasoning'', ''final''])"
  by (auto simp: step_schema_def)

end
