(* ===== verification/CliBackend.thy ===== *)
theory CliBackend
  imports StepSchema Ingest
begin

text \<open>
  The backend that runs \<open>claude -p\<close> (\<open>app/llm/cli.py\<close>): its command line, what an exit with its
  output means, and when a usage window reopens. The process is a parameter that ends in one of
  three ways. Shown: the wait for a clock time is positive, at most a day and ends when the clock
  shows that time; only what may pass by itself is retryable.
\<close>

section \<open>Reading the messages\<close>

text \<open>\<open>re.search\<close>: the first suffix at which a match is found.\<close>

fun first_match :: "(string \<Rightarrow> 'a option) \<Rightarrow> string \<Rightarrow> 'a option" where
  "first_match f [] = f []"
| "first_match f (c # s) = (case f (c # s) of Some x \<Rightarrow> Some x | None \<Rightarrow> first_match f s)"

definition occurs :: "string \<Rightarrow> string \<Rightarrow> bool" where
  "occurs sub s \<longleftrightarrow> first_match (\<lambda>x. if starts_with sub x then Some () else None) (map lower_char s) \<noteq> None"

text \<open>\<open>rate.?limit\<close>\<close>

definition rate_limit_at :: "string \<Rightarrow> unit option" where
  "rate_limit_at s =
     (let r = drop 4 s
      in if starts_with ''rate'' s \<and>
            (starts_with ''limit'' r \<or> (r \<noteq> [] \<and> hd r \<noteq> CHR 0x0A \<and> starts_with ''limit'' (tl r)))
         then Some () else None)"

definition rate_limited :: "string \<Rightarrow> bool" where
  "rate_limited s \<longleftrightarrow> first_match rate_limit_at (map lower_char s) \<noteq> None \<or>
     list_ex (\<lambda>w. occurs w s) [''usage limit'', ''limit reached'', ''too many requests'', ''quota'']"

definition not_logged_in :: "string \<Rightarrow> bool" where
  "not_logged_in s \<longleftrightarrow> list_ex (\<lambda>w. occurs w s) [''not logged in'', ''invalid api key'', ''authenticat'', ''/login'']"

text \<open>\<open>\w\<close> of Python's \<open>re\<close> below code point 256.\<close>

definition py_word :: "char \<Rightarrow> bool" where
  "py_word c \<longleftrightarrow>
     (let n = (of_char c :: nat)
      in is_digit c \<or> (65 \<le> n \<and> n \<le> 90) \<or> (97 \<le> n \<and> n \<le> 122) \<or> n = 95 \<or> n \<in> {0xAA, 0xB2, 0xB3, 0xB5, 0xB9, 0xBA, 0xBC, 0xBD, 0xBE} \<or>
         (0xC0 \<le> n \<and> n \<noteq> 0xD7 \<and> n \<noteq> 0xF7))"

text \<open>\<open>\|(\d{10})\b\<close>\<close>

definition reset_at_here :: "string \<Rightarrow> nat option" where
  "reset_at_here s =
     (let ds = takeWhile is_digit (take 10 (drop 1 s)); r = drop 11 s
      in if starts_with ''|'' s \<and> length ds = 10 \<and> (r = [] \<or> \<not> py_word (hd r)) then Some (undec ds) else None)"

text \<open>\<open>resets\s+(\d{1,2})(?::(\d{2}))?\s*([ap]m)\s*\(UTC\)\<close> on lower case text.\<close>

definition reset_clock_here :: "string \<Rightarrow> (nat \<times> nat \<times> bool) option" where
  "reset_clock_here s =
     (let r1 = drop 6 s; r2 = dropWhile is_space r1; ds = takeWhile is_digit r2; r3 = drop (length ds) r2;
          ms = takeWhile is_digit (take 2 (drop 1 r3)); timed = (starts_with '':'' r3 \<and> length ms = 2);
          r4 = dropWhile is_space (if timed then drop 3 r3 else r3); r5 = dropWhile is_space (drop 2 r4)
      in if starts_with ''resets'' s \<and> r1 \<noteq> [] \<and> is_space (hd r1) \<and> length ds \<in> {1, 2} \<and>
            (starts_with ''am'' r4 \<or> starts_with ''pm'' r4) \<and> starts_with ''(utc)'' r5
         then Some (undec ds, if timed then undec ms else 0, starts_with ''pm'' r4) else None)"

definition DAY_S :: rat where
  "DAY_S = 86400"

text \<open>Times are seconds since the epoch; a minute past 59 is a \<open>ValueError\<close> of \<open>replace\<close>.\<close>

definition day_start :: "rat \<Rightarrow> rat" where
  "day_start now = of_int (floor (now / DAY_S)) * DAY_S"

definition clock_wait :: "nat \<Rightarrow> nat \<Rightarrow> bool \<Rightarrow> rat \<Rightarrow> rat" where
  "clock_wait h m pm now =
     (let hour = h mod 12 + (if pm then 12 else 0); t = day_start now + of_nat (hour * 3600 + m * 60);
          later = (if t \<le> now then t + DAY_S else t)
      in later - now)"

definition seconds_until_reset :: "string \<Rightarrow> rat \<Rightarrow> string + rat option" where
  "seconds_until_reset s now =
     (case first_match reset_at_here s of
        Some t \<Rightarrow> Inr (Some (max 0 (of_nat t - now)))
      | None \<Rightarrow>
          (case first_match reset_clock_here (map lower_char s) of
             Some (h, m, pm) \<Rightarrow> if 59 < m then Inl ''ValueError'' else Inr (Some (clock_wait h m pm now))
           | None \<Rightarrow> Inr None))"

section \<open>The command\<close>

text \<open>\<open>json.dumps\<close> as it is by default: with blanks, in insertion order, ASCII only.\<close>

primrec ascii_dumps :: "json \<Rightarrow> string" where
  "ascii_dumps JNull = ''null''"
| "ascii_dumps (JBool b) = (if b then ''true'' else ''false'')"
| "ascii_dumps (JInt i) = dec_int i"
| "ascii_dumps (JFloat t) = t"
| "ascii_dumps (JStr s) = ascii_quoted s"
| "ascii_dumps (JArr xs) = ''['' @ join '', '' (map ascii_dumps xs) @ '']''"
| "ascii_dumps (JObj kvs) =
     ''{'' @ join '', '' (map (\<lambda>(k, t). ascii_quoted k @ '': '' @ t) (map (map_prod id ascii_dumps) kvs)) @ ''}''"

record cli_config =
  cc_binary :: string
  cc_timeout_s :: duration
  cc_extra_args :: "string list"
  cc_effort :: string

text \<open>\<open>system_text\<close> (\<open>app/llm/render.py\<close>) is the request's own prompt.\<close>

definition cli_command :: "nat \<Rightarrow> cli_config \<Rightarrow> llm_request \<Rightarrow> string + string list" where
  "cli_command depth cc r =
     bindS (step_schema depth r) (\<lambda>schema. Inr (
       [cc_binary cc, ''-p'', ''--model'', rq_model r, ''--system-prompt'', rq_system r, ''--tools'', '''', ''--strict-mcp-config'',
        ''--setting-sources'', '''', ''--json-schema'', ascii_dumps schema, ''--output-format'', ''json'',
        ''--no-session-persistence''] @ (if cc_effort cc \<noteq> [] then [''--effort'', cc_effort cc] else []) @ cc_extra_args cc))"

definition CLI_INSTRUCTION :: string where
  "CLI_INSTRUCTION =
     ''Reply with your next step by calling StructuredOutput, the only tool you have. Data sources are requested inside it, in `actions`.''"

section \<open>The output\<close>

text \<open>An \<open>LLMError\<close>, or another Python exception by its name.\<close>

datatype cli_exn = CliError llm_error | CliPy string

definition raised :: "string + 'a \<Rightarrow> cli_exn + 'a" where
  "raised x = (case x of Inl e \<Rightarrow> Inl (CliPy e) | Inr y \<Rightarrow> Inr y)"

definition refused :: "llm_error + 'a \<Rightarrow> cli_exn + 'a" where
  "refused x = (case x of Inl e \<Rightarrow> Inl (CliError e) | Inr y \<Rightarrow> Inr y)"

lemma refused_Inr [simp]: "refused x = Inr y \<longleftrightarrow> x = Inr y"
  by (simp add: refused_def split: sum.splits)

lemma raised_Inr [simp]: "raised x = Inr y \<longleftrightarrow> x = Inr y"
  by (simp add: raised_def split: sum.splits)

text \<open>\<open>status in (...)\<close> for a status that is a number.\<close>

definition status_in :: "json \<Rightarrow> int list \<Rightarrow> bool" where
  "status_in status ns \<longleftrightarrow> (case status of JInt n \<Rightarrow> n \<in> set ns | _ \<Rightarrow> False)"

definition field :: "obj \<Rightarrow> string \<Rightarrow> json" where
  "field kvs k = (case jget kvs k of None \<Rightarrow> JNull | Some v \<Rightarrow> v)"

definition cli_text :: "obj \<Rightarrow> string \<Rightarrow> string" where
  "cli_text out stderr =
     strip ((if truthy (field out ''result'') then json_str (field out ''result'') else []) @ '' '' @ stderr)"

definition cli_message :: "int \<Rightarrow> obj \<Rightarrow> string \<Rightarrow> string" where
  "cli_message returncode out msg =
     ''exit '' @ dec_int returncode @
     (if truthy (field out ''api_error_status'') then '', HTTP '' @ json_str (field out ''api_error_status'') else []) @
     (if msg \<noteq> [] then '': '' @ take 300 msg else [])"

definition classify_error :: "int \<Rightarrow> obj \<Rightarrow> string \<Rightarrow> rat \<Rightarrow> string + llm_error" where
  "classify_error returncode out stderr now =
     (let status = field out ''api_error_status''; msg = cli_text out stderr; message = cli_message returncode out msg
      in if status_in status [429] \<or> rate_limited msg
         then bindS (seconds_until_reset msg now) (\<lambda>wait. Inr (LLMError ''rate_limited'' message True wait))
         else if status_in status [401, 403] \<or> not_logged_in msg then Inr (LLMError ''auth'' message False None)
         else if status_in status [400, 404, 413] then Inr (LLMError ''bad_request'' message False None)
         else if status = JNull \<or> status_in status [500, 502, 503, 504, 529]
         then Inr (LLMError (if status_in status [529] then ''overloaded'' else ''unavailable'') message True None)
         else Inr (LLMError ''bad_request'' message False None))"

text \<open>Token counts are numbers that are not negative, or missing.\<close>

definition token_field :: "obj \<Rightarrow> string \<Rightarrow> nat" where
  "token_field usage k = (case field usage k of JInt n \<Rightarrow> nat n | _ \<Rightarrow> 0)"

definition cli_usage :: "obj \<Rightarrow> usage" where
  "cli_usage usage =
     \<lparr>u_input_tokens = token_field usage ''input_tokens'', u_output_tokens = token_field usage ''output_tokens'',
      u_cache_read_tokens = token_field usage ''cache_read_input_tokens'',
      u_cache_creation_tokens = token_field usage ''cache_creation_input_tokens''\<rparr>"

definition obj_field :: "obj \<Rightarrow> string \<Rightarrow> string + obj" where
  "obj_field out k =
     (let v = field out k
      in if truthy v then (case v of JObj kvs \<Rightarrow> Inr kvs | _ \<Rightarrow> Inl ''AttributeError'') else Inr [])"

text \<open>\<open>stdout\<close> comes as what \<open>json.loads\<close> makes of it, None for a \<open>ValueError\<close>.\<close>

definition parse_output ::
    "(string \<Rightarrow> string) \<Rightarrow> llm_request \<Rightarrow> int \<Rightarrow> json option \<Rightarrow> string \<Rightarrow> rat \<Rightarrow> cli_exn + llm_result" where
  "parse_output sha r returncode stdout stderr now =
     (let fails = (\<lambda>out. bindS (raised (classify_error returncode out stderr now)) (\<lambda>e. Inl (CliError e)))
      in case (case stdout of None \<Rightarrow> JObj [] | Some j \<Rightarrow> j) of
           JObj out \<Rightarrow>
             if returncode \<noteq> 0 \<or> truthy (field out ''is_error'') \<or> out = [] then fails out
             else if field out ''structured_output'' = JNull
             then Inl (CliError (LLMError ''invalid_output''
               (''no structured_output (subtype='' @ json_str (field out ''subtype'') @ '', result='' @
                py_repr (take 200 (json_str (field out ''result''))) @ '')'') True None))
             else bindS (raised (obj_field out ''modelUsage'')) (\<lambda>models.
               bindS (refused (normalize_step (field out ''structured_output''))) (\<lambda>st.
               bindS (raised (obj_field out ''usage'')) (\<lambda>usage. Inr \<lparr>lr_step = st, lr_usage = cli_usage usage,
                     lr_model = (case models of [(m, u)] \<Rightarrow> m | _ \<Rightarrow> rq_model r), lr_backend = ''cli'',
                     lr_request_hash = request_hash sha r, lr_attempts = 1\<rparr>)))
         | _ \<Rightarrow> Inl (CliPy ''AttributeError''))"

text \<open>How the process ends.\<close>

datatype cli_end = CliNotFound | CliTimedOut | CliExited int "json option" string

definition cli_step ::
    "nat \<Rightarrow> (string \<Rightarrow> string) \<Rightarrow> cli_config \<Rightarrow> (string list \<Rightarrow> string \<Rightarrow> 's \<Rightarrow> cli_end \<times> 's) \<Rightarrow> rat \<Rightarrow> llm_request \<Rightarrow> 's \<Rightarrow>
       (cli_exn + llm_result) \<times> 's" where
  "cli_step depth sha cc exec now r s =
     (case cli_command depth cc r of
        Inl e \<Rightarrow> (Inl (CliPy e), s)
      | Inr cmd \<Rightarrow>
          (case exec cmd (transcript_text (rq_turns r) CLI_INSTRUCTION) s of
             (CliNotFound, s') \<Rightarrow>
               (Inl (CliError (LLMError ''unavailable'' (cc_binary cc @ '' not found; install Claude Code'') False None)), s')
           | (CliTimedOut, s') \<Rightarrow>
               (Inl (CliError (LLMError ''timeout'' (''claude -p took longer than '' @ fmt_fixed 0 (cc_timeout_s cc) @ ''s'') True None)), s')
           | (CliExited code stdout stderr, s') \<Rightarrow> (parse_output sha r code stdout stderr now, s')))"

section \<open>The wait\<close>

lemma day_start_bounds: "day_start now \<le> now \<and> now < day_start now + DAY_S"
proof -
  have "of_int (floor (now / DAY_S)) \<le> now / DAY_S" "now / DAY_S < of_int (floor (now / DAY_S)) + 1"
    using floor_correct [of "now / DAY_S"] by simp_all
  then show ?thesis by (simp add: day_start_def DAY_S_def field_simps)
qed

text \<open>The wait ends at the next moment the clock shows the time.\<close>

lemma clock_wait_next:
  assumes "m \<le> 59"
  shows "0 < clock_wait h m pm now \<and> clock_wait h m pm now \<le> DAY_S \<and>
    (\<exists>days :: int. now + clock_wait h m pm now = of_int days * DAY_S + of_nat ((h mod 12 + (if pm then 12 else 0)) * 3600 + m * 60))"
proof -
  let ?s = "(h mod 12 + (if pm then 12 else 0)) * 3600 + m * 60"
  have "?s < 86400"
  proof -
    have "h mod 12 < 12" by simp
    then have "h mod 12 + (if pm then 12 else 0) \<le> 23" by (cases pm; simp; linarith)
    moreover have "x * 3600 + m * 60 < 86400" if "x \<le> 23" for x :: nat using that assms by linarith
    ultimately show ?thesis by blast
  qed
  then have s: "of_nat ?s < DAY_S" "0 \<le> (of_nat ?s :: rat)" unfolding DAY_S_def by linarith+
  obtain t where t: "t = day_start now + of_nat ?s" by blast
  have w: "clock_wait h m pm now = (if t \<le> now then t + DAY_S else t) - now"
    by (simp only: clock_wait_def Let_def t)
  have b: "day_start now \<le> now" "now < day_start now + DAY_S" using day_start_bounds by blast+
  have "\<exists>days :: int. (if t \<le> now then t + DAY_S else t) = of_int days * DAY_S + of_nat ?s"
  proof (cases "t \<le> now")
    case True
    then show ?thesis
      by (intro exI [of _ "floor (now / DAY_S) + 1"]) (simp add: t day_start_def algebra_simps)
  next
    case False
    then show ?thesis by (intro exI [of _ "floor (now / DAY_S)"]) (simp add: t day_start_def)
  qed
  then show ?thesis using b s by (auto simp: w t)
qed

lemma reset_wait:
  assumes "seconds_until_reset s now = Inr (Some wait)"
  shows "0 \<le> wait" "first_match reset_at_here s = None \<Longrightarrow> 0 < wait \<and> wait \<le> DAY_S"
  using assms clock_wait_next [THEN conjunct1] clock_wait_next [THEN conjunct2, THEN conjunct1]
  by (auto simp: seconds_until_reset_def not_less less_imp_le split: option.splits if_splits)

section \<open>What is tried again\<close>

lemma classify_error_retryable:
  assumes "classify_error returncode out stderr now = Inr e"
  shows "le_retryable e \<longleftrightarrow> le_code e \<in> {''rate_limited'', ''overloaded'', ''unavailable''}"
  using assms by (auto simp: classify_error_def LLMError_def Let_def bindS_Inr_iff split: if_splits)

lemma cli_step_wf:
  assumes "cli_step depth sha cc exec now r s = (Inr res, s')"
  shows "wf_step (lr_step res) \<and> lr_request_hash res = request_hash sha r"
proof -
  obtain code stdout stderr where p: "parse_output sha r code stdout stderr now = Inr res"
    using assms by (auto simp: cli_step_def split: prod.splits cli_end.splits sum.splits)
  then have "\<exists>raw. normalize_step raw = Inr (lr_step res)" "lr_request_hash res = request_hash sha r"
    by (auto simp: parse_output_def Let_def bindS_Inr_iff split: json.splits option.splits if_splits sum.splits)
  then show ?thesis using normalize_step_wf by blast
qed

end
