(* ===== verification/Recording.thy ===== *)
theory Recording
  imports Sources InvestigateJob "HOL-Library.Multiset"
begin

text \<open>
  Recordings of finished investigations (\<open>app/agents/recording.py\<close>): export out of the database,
  loading into an empty one, and the investigation run again on what was loaded. Export reads one
  state of the database: it runs on finished incidents. Shown: a recording loads, and the agents
  are then told exactly what they were told before; every question gets its stored answers back in
  order.
\<close>

section \<open>The recording\<close>

text \<open>The columns of an incident that are kept.\<close>

record recorded_incident =
  ri_id :: string
  ri_tenant :: string
  ri_fingerprint :: string
  ri_title :: string
  ri_service :: string
  ri_environment :: string
  ri_priority :: nat
  ri_state :: istate
  ri_labels :: "(string \<times> string) list"
  ri_created_at :: time
  ri_closed_at :: "time option"

definition incident_columns :: "incident_row \<Rightarrow> recorded_incident" where
  "incident_columns r =
     \<lparr>ri_id = i_id r, ri_tenant = i_tenant r, ri_fingerprint = i_fingerprint r, ri_title = i_title r, ri_service = i_service r,
      ri_environment = i_environment r, ri_priority = i_priority r, ri_state = i_state r, ri_labels = i_labels r,
      ri_created_at = i_created_at r, ri_closed_at = i_closed_at r\<rparr>"

text \<open>What is expected of a replay of one incident.\<close>

record expectation =
  xp_state :: "istate option"
  xp_diagnosis :: "body option"
  xp_agents :: "(string \<times> run_status) list"
  xp_findings :: nat
  xp_plan :: "remediation_plan option"

record recording =
  rc_incidents :: "recorded_incident list"
  rc_annotations :: "(string \<times> (string \<times> string) list) list"
  rc_llm :: "llm_entry list"
  rc_tools :: "entry list"
  rc_meta :: obj
  rc_expected :: "(string \<times> expectation) list"

text \<open>\<open>int(self.llm.meta.get("agent_max_steps", 8))\<close>\<close>

definition recorded_max_steps :: "recording \<Rightarrow> int" where
  "recorded_max_steps rec = (case jget (rc_meta rec) ''agent_max_steps'' of Some (JInt n) \<Rightarrow> n | _ \<Rightarrow> 8)"

section \<open>Export\<close>

definition LOCAL_ERRORS :: "string list" where
  "LOCAL_ERRORS = [''invalid_args'', ''unknown_tool'']"

text \<open>
  \<open>tool_entry\<close>: the evidence is what the LEFT JOIN found; without it an answered call has no
  time (an \<open>AttributeError\<close>). The time of an unanswered call, \<open>created_at\<close>, is a parameter.
\<close>

definition text_or_empty :: "string option \<Rightarrow> string" where
  "text_or_empty x = (case x of None \<Rightarrow> [] | Some s \<Rightarrow> s)"

definition tool_entry :: "(tool_call_row \<Rightarrow> time) \<Rightarrow> db \<Rightarrow> tool_call_row \<Rightarrow> string + entry option" where
  "tool_entry created d t =
     (let entry = (\<lambda>at_time res. \<lparr>en_incident = t_incident t,
            en_agent = (case t_agent t of Some [] \<Rightarrow> None | a \<Rightarrow> a), en_tool = t_tool t, en_args = t_args t,
            en_at = at_time, en_result = res\<rparr>)
      in if t_ok t
         then (case find (\<lambda>e. Some (e_id e) = t_evidence t) (evidence d) of
                 None \<Rightarrow> Inl ''AttributeError''
               | Some e \<Rightarrow> Inr (Some (entry (e_fetched_at e) (Inr (e_result e)))))
         else if \<exists>c \<in> set LOCAL_ERRORS. t_error_code t = Some c then Inr None
         else Inr (Some (entry (created t) (Inl (text_or_empty (t_error_code t), text_or_empty (t_error t))))))"

definition llm_entry_of :: "(json \<Rightarrow> llm_step) \<Rightarrow> llm_call_row \<Rightarrow> llm_entry" where
  "llm_entry_of read_step c =
     \<lparr>ln_agent = l_agent c, ln_prompt_version = l_prompt_version c, ln_request_hash = l_request_hash c, ln_model = l_model c,
      ln_step = read_step (case l_step c of None \<Rightarrow> JNull | Some s \<Rightarrow> s), ln_usage = l_usage c, ln_backend = l_backend c\<rparr>"

text \<open>The dictionaries by id keep the first place of a key.\<close>

definition setdefault :: "incident_row \<Rightarrow> incident_row list \<Rightarrow> incident_row list" where
  "setdefault r rows = (if i_id r \<in> set (map i_id rows) then rows else rows @ [r])"

definition more_rows :: "db \<Rightarrow> incident_row \<Rightarrow> incident_row list" where
  "more_rows d inc =
     filter (\<lambda>r. i_tenant r = i_tenant inc \<and> i_environment r = i_environment inc \<and> i_id r \<noteq> i_id inc \<and>
        i_created_at inc - RELATED_BEFORE \<le> i_created_at r \<and> i_created_at r \<le> i_created_at inc \<and>
        open_after (i_created_at inc) r) (incidents d)"

definition told_about :: "db \<Rightarrow> incident_row list \<Rightarrow> incident_row list" where
  "told_about d investigated =
     fold (\<lambda>inc rel. if iv_related (incident_view d inc) = [] then rel else fold setdefault (more_rows d inc) rel) investigated []"

definition everything :: "db \<Rightarrow> string list \<Rightarrow> incident_row list" where
  "everything d ids =
     (let investigated = filter (\<lambda>r. i_id r \<in> set ids) (incidents d)
      in fold setdefault investigated (told_about d investigated))"

definition recorded_annotations :: "db \<Rightarrow> incident_row list \<Rightarrow> (string \<times> (string \<times> string) list) list" where
  "recorded_annotations d rows =
     List.map_filter (\<lambda>r. if first_annotations d (i_id r) = [] then None else Some (i_id r, first_annotations d (i_id r))) rows"

definition last_diagnosis :: "board_entry list \<Rightarrow> body option" where
  "last_diagnosis board = map_option be_body (find (\<lambda>e. be_kind e = KDiagnosis) (rev board))"

definition runs_in_order :: "db \<Rightarrow> string \<Rightarrow> agent_run_row list" where
  "runs_in_order d inc = sort_key r_id (filter (\<lambda>r. r_incident r = inc) (agent_runs d))"

definition expectation_of :: "db \<Rightarrow> string \<Rightarrow> expectation" where
  "expectation_of d inc =
     (let board = pg_entries d inc; runs = runs_in_order d inc; planned = pg_runs d inc PLANNER
      in \<lparr>xp_state = map_option i_state (find (\<lambda>r. i_id r = inc) (incidents d)), xp_diagnosis = last_diagnosis board,
          xp_agents = map (\<lambda>r. (r_agent r, r_status r)) (filter (\<lambda>r. r_agent r \<noteq> PLANNER) runs),
          xp_findings = length (filter (\<lambda>e. be_kind e = KFinding) board),
          xp_plan = (case planned of Some r \<Rightarrow> if ru_status r = Schema.RunDone then rr_plan (ru_result r) else None | None \<Rightarrow> None)\<rparr>)"

definition of_incidents :: "string list \<Rightarrow> string option \<Rightarrow> bool" where
  "of_incidents ids inc \<longleftrightarrow> (case inc of None \<Rightarrow> False | Some i \<Rightarrow> i \<in> set ids)"

definition export_tools :: "(tool_call_row \<Rightarrow> time) \<Rightarrow> db \<Rightarrow> string list \<Rightarrow> string + entry list" where
  "export_tools created d ids =
     bindS (mapS (tool_entry created d) (sort_key t_id (filter (\<lambda>t. of_incidents ids (t_incident t)) (tool_calls d))))
       (\<lambda>es. Inr (List.map_filter id es))"

definition export_recording ::
    "(json \<Rightarrow> llm_step) \<Rightarrow> (tool_call_row \<Rightarrow> time) \<Rightarrow> db \<Rightarrow> string list \<Rightarrow> obj \<Rightarrow> string + recording" where
  "export_recording read_step created d ids meta =
     (let rows = everything d ids
      in bindS (export_tools created d ids) (\<lambda>tools.
         Inr \<lparr>rc_incidents = map incident_columns (sort_key (\<lambda>r. (i_created_at r, i_id r)) rows),
              rc_annotations = recorded_annotations d rows,
              rc_llm = map (llm_entry_of read_step)
                (sort_key l_id (filter (\<lambda>c. of_incidents ids (l_incident c) \<and> l_ok c) (llm_calls d))),
              rc_tools = tools, rc_meta = meta, rc_expected = map (\<lambda>i. (i, expectation_of d i)) (rev (remdups (rev ids)))\<rparr>))"

section \<open>Loading and running again\<close>

definition restored :: "recorded_incident \<Rightarrow> incident_row" where
  "restored c =
     \<lparr>i_id = ri_id c, i_tenant = ri_tenant c, i_fingerprint = ri_fingerprint c, i_title = ri_title c, i_service = ri_service c,
      i_environment = ri_environment c, i_priority = ri_priority c, i_state = ri_state c, i_version = 1, i_alert_count = 1,
      i_labels = ri_labels c, i_created_at = ri_created_at c, i_updated_at = ri_created_at c, i_closed_at = ri_closed_at c\<rparr>"

definition insert_incident :: "incident_row \<Rightarrow> unit tx" where
  "insert_incident r d =
     bindS (guard (i_priority r \<le> 3 \<and> i_id r \<notin> set (map i_id (incidents d)) \<and>
                   (is_open r \<longrightarrow> open_key r \<notin> set (map open_key (filter is_open (incidents d))))) IntegrityError)
       (\<lambda>_. Inr ((), d\<lparr>incidents := incidents d @ [r]\<rparr>))"

definition first_alert :: "recording \<Rightarrow> recorded_incident \<Rightarrow> db \<Rightarrow> db" where
  "first_alert rec c d =
     (case map_of (rc_annotations rec) (ri_id c) of
        None \<Rightarrow> d
      | Some ann \<Rightarrow> d\<lparr>alerts := alerts d @
          [\<lparr>al_id = next_id (map al_id (alerts d)), al_tenant = ri_tenant c, al_incident = Some (ri_id c),
            al_fingerprint = ri_fingerprint c, al_status = Firing, al_labels = ri_labels c, al_annotations = ann,
            al_starts_at = None, al_ends_at = None\<rparr>]\<rparr>)"

fun load_rows :: "recording \<Rightarrow> recorded_incident list \<Rightarrow> unit tx" where
  "load_rows rec [] d = Inr ((), d)"
| "load_rows rec (c # cs) d = bindS (insert_incident (restored c) d) (\<lambda>(_, d1). load_rows rec cs (first_alert rec c d1))"

definition load_incidents :: "recording \<Rightarrow> unit tx" where
  "load_incidents rec = load_rows rec (rc_incidents rec)"

definition incident_tools :: "recording \<Rightarrow> string \<Rightarrow> entry list" where
  "incident_tools rec inc = filter (\<lambda>e. case en_incident e of None \<Rightarrow> True | Some i \<Rightarrow> i = inc) (rc_tools rec)"

definition replay_view :: "db \<Rightarrow> string \<Rightarrow> inc_view option" where
  "replay_view d inc = map_option (incident_view d) (incidents_get d inc None)"

definition replay_deps :: "(string \<Rightarrow> string) \<Rightarrow> registry \<Rightarrow> recording \<Rightarrow> inc_view \<Rightarrow> replay_state deps" where
  "replay_deps sha rg rec v =
     \<lparr>dp_sha = sha, dp_backend = replay_backend sha (rc_llm rec), dp_backend_name = ''replay'', dp_registry = rg,
      dp_source = replay_fetch, dp_tenant = iv_tenant v, dp_incident = iv_id v, dp_token_budget = 1000000000,
      dp_others = (\<lambda>n d. d)\<rparr>"

definition replay_env ::
    "(string \<Rightarrow> string) \<Rightarrow> registry \<Rightarrow> agent_config \<Rightarrow> prompt_env \<Rightarrow> answer_models \<Rightarrow> (time \<Rightarrow> string) \<Rightarrow> nat \<Rightarrow>
     recording \<Rightarrow> inc_view \<Rightarrow> replay_state inv_env" where
  "replay_env sha rg cf pe am isof fuel rec v =
     \<lparr>ie_deps = replay_deps sha rg rec v, ie_job = None, ie_config = cf, ie_prompts = pe, ie_models = am, ie_iso = isof,
      ie_fuel = fuel\<rparr>"

text \<open>Both start with every question unasked; \<open>assert row is not None\<close> is the None.\<close>

definition replay_start :: "recording \<Rightarrow> string \<Rightarrow> db \<Rightarrow> replay_state inv_state" where
  "replay_start rec inc d =
     \<lparr>is_world = \<lparr>aw_ext = replay_init (incident_tools rec inc), aw_tick = 0, aw_db = d\<rparr>, is_agents = []\<rparr>"

definition replay_investigation ::
    "(recording \<Rightarrow> inc_view \<Rightarrow> replay_state inv_env) \<Rightarrow> recording \<Rightarrow> string \<Rightarrow> db \<Rightarrow> ((inv_exn + inv_outcome) \<times> replay_state inv_state) option" where
  "replay_investigation env rec inc d =
     map_option (\<lambda>v. investigate (env rec v) v (replay_start rec inc d)) (replay_view d inc)"

definition replay_plan ::
    "(recording \<Rightarrow> inc_view \<Rightarrow> replay_state inv_env) \<Rightarrow> nat \<Rightarrow> diagnosis \<Rightarrow> recording \<Rightarrow> string \<Rightarrow> db \<Rightarrow>
     ((inv_exn + proposal) \<times> replay_state inv_state) option" where
  "replay_plan env max_steps dx rec inc d =
     map_option (\<lambda>v. propose (env rec v) max_steps v dx (replay_start rec inc d)) (replay_view d inc)"

section \<open>A recording holds what the agents saw\<close>

lemma sort_key_map_key: "sort_key k (map f xs) = map f (sort_key (\<lambda>x. k (f x)) xs)"
proof -
  have "insort_key k (f a) (map f ys) = map f (insort_key (\<lambda>x. k (f x)) a ys)" for a ys
    by (induction ys) auto
  then show ?thesis by (induction xs) auto
qed

lemma sort_key_Nil: "sort_key k xs = [] \<longleftrightarrow> xs = []"
  by (metis set_empty set_sort)

lemma fold_setdefault_keys:
  assumes "inj_on i_id A" "set acc \<subseteq> A" "set rows \<subseteq> A"
  shows "set (fold setdefault rows acc) = set acc \<union> set rows"
    and "distinct (map i_id acc) \<Longrightarrow> distinct (map i_id (fold setdefault rows acc))"
proof -
  have "set (fold setdefault rows acc) = set acc \<union> set rows \<and>
      (distinct (map i_id acc) \<longrightarrow> distinct (map i_id (fold setdefault rows acc)))"
    using assms(2,3)
  proof (induction rows arbitrary: acc)
    case (Cons r rows)
    have "r \<in> set acc" if "i_id r \<in> i_id ` set acc"
      using that Cons.prems assms(1) by (auto dest: inj_onD)
    then have "set (setdefault r acc) = insert r (set acc)" by (auto simp: setdefault_def)
    moreover have "distinct (map i_id acc) \<longrightarrow> distinct (map i_id (setdefault r acc))" by (auto simp: setdefault_def)
    ultimately show ?case using Cons.IH [of "setdefault r acc"] Cons.prems by auto
  qed simp
  then show "set (fold setdefault rows acc) = set acc \<union> set rows"
    "distinct (map i_id acc) \<Longrightarrow> distinct (map i_id (fold setdefault rows acc))" by blast+
qed

lemma related_more: "related_rows d inc = sort_key (\<lambda>r. (i_created_at r, i_service r, i_title r)) (more_rows d inc)"
  by (simp add: related_rows_def more_rows_def)

lemma told_about_fold: "told_about d rows = fold setdefault (concat (map (more_rows d) rows)) []"
proof -
  have "iv_related (incident_view d inc) = [] \<longleftrightarrow> more_rows d inc = []" for inc
    by (simp add: incident_view_def related_more sort_key_Nil)
  then have "(\<lambda>inc rel. if iv_related (incident_view d inc) = [] then rel else fold setdefault (more_rows d inc) rel) =
      (\<lambda>inc. fold setdefault (more_rows d inc))"
    by (auto intro!: ext)
  then have "told_about d rows = fold (\<lambda>inc. fold setdefault (more_rows d inc)) rows []" by (simp only: told_about_def)
  also have "\<dots> = fold setdefault (concat (map (more_rows d) rows)) acc" if "acc = []" for acc
  proof -
    have "fold (\<lambda>inc. fold setdefault (more_rows d inc)) rows a = fold setdefault (concat (map (more_rows d) rows)) a" for a
      by (induction rows arbitrary: a) auto
    with that show ?thesis by simp
  qed
  finally show ?thesis by simp
qed

lemma everything_rows:
  assumes "distinct (map i_id (incidents d))"
  shows "set (everything d ids) \<subseteq> set (incidents d)" "distinct (map i_id (everything d ids))"
    "r \<in> set (incidents d) \<Longrightarrow> i_id r \<in> set ids \<Longrightarrow> insert r (set (more_rows d r)) \<subseteq> set (everything d ids)"
proof -
  let ?inv = "filter (\<lambda>r. i_id r \<in> set ids) (incidents d)"
  let ?more = "concat (map (more_rows d) ?inv)"
  have inj: "inj_on i_id (set (incidents d))" using assms by (simp add: distinct_map)
  have sub: "set ?more \<subseteq> set (incidents d)" "set ?inv \<subseteq> set (incidents d)" by (auto simp: more_rows_def)
  note told = fold_setdefault_keys [OF inj, of "[]" ?more]
  have t: "set (told_about d ?inv) = set ?more" "distinct (map i_id (told_about d ?inv))"
    using told sub by (simp_all add: told_about_fold)
  note all = fold_setdefault_keys [OF inj, of "told_about d ?inv" ?inv]
  have e: "everything d ids = fold setdefault ?inv (told_about d ?inv)" by (simp add: everything_def Let_def)
  have s: "set (everything d ids) = set ?more \<union> set ?inv" using all(1) t(1) sub by (simp add: e)
  show "set (everything d ids) \<subseteq> set (incidents d)" unfolding s using sub by auto
  show "distinct (map i_id (everything d ids))" unfolding e using all(2) t sub by simp
  show "r \<in> set (incidents d) \<Longrightarrow> i_id r \<in> set ids \<Longrightarrow> insert r (set (more_rows d r)) \<subseteq> set (everything d ids)"
    unfolding s by auto
qed

text \<open>The view is a function of the kept columns and the first annotations.\<close>

definition told_with :: "recorded_incident \<Rightarrow> recorded_incident \<Rightarrow> bool" where
  "told_with c r \<longleftrightarrow> ri_tenant r = ri_tenant c \<and> ri_environment r = ri_environment c \<and> ri_id r \<noteq> ri_id c \<and>
     ri_created_at c - RELATED_BEFORE \<le> ri_created_at r \<and> ri_created_at r \<le> ri_created_at c \<and>
     (case ri_closed_at r of None \<Rightarrow> True | Some t \<Rightarrow> ri_created_at c < t)"

definition told_order :: "recorded_incident \<Rightarrow> time \<times> string \<times> string" where
  "told_order r = (ri_created_at r, ri_service r, ri_title r)"

definition view_of_columns :: "recorded_incident list \<Rightarrow> (string \<times> string) list \<Rightarrow> recorded_incident \<Rightarrow> inc_view" where
  "view_of_columns rows ann c =
     \<lparr>iv_id = ri_id c, iv_tenant = ri_tenant c, iv_title = ri_title c, iv_service = ri_service c,
      iv_environment = ri_environment c, iv_priority = PRIORITY_NAMES ! ri_priority c, iv_created_at = ri_created_at c,
      iv_labels = ri_labels c, iv_annotations = ann,
      iv_related = map (\<lambda>r. \<lparr>rl_title = ri_title r, rl_service = ri_service r, rl_priority = PRIORITY_NAMES ! ri_priority r,
        rl_created_at = ri_created_at r\<rparr>) (sort_key told_order (filter (told_with c) rows))\<rparr>"

lemma incident_columns_simps [simp]:
  "ri_id (incident_columns r) = i_id r" "ri_tenant (incident_columns r) = i_tenant r"
  "ri_title (incident_columns r) = i_title r" "ri_service (incident_columns r) = i_service r"
  "ri_environment (incident_columns r) = i_environment r" "ri_priority (incident_columns r) = i_priority r"
  "ri_labels (incident_columns r) = i_labels r" "ri_created_at (incident_columns r) = i_created_at r"
  "ri_closed_at (incident_columns r) = i_closed_at r" "ri_fingerprint (incident_columns r) = i_fingerprint r"
  by (simp_all add: incident_columns_def)

lemma restored_simps [simp]:
  "incident_columns (restored c) = c" "i_id (restored c) = ri_id c" "i_priority (restored c) = ri_priority c"
  "is_open (restored (incident_columns r)) = is_open r" "open_key (restored (incident_columns r)) = open_key r"
  by (simp_all add: incident_columns_def restored_def is_open_def open_key_def)

lemma told_with_columns: "told_with (incident_columns inc) (incident_columns r) \<longleftrightarrow>
    i_tenant r = i_tenant inc \<and> i_environment r = i_environment inc \<and> i_id r \<noteq> i_id inc \<and>
    i_created_at inc - RELATED_BEFORE \<le> i_created_at r \<and> i_created_at r \<le> i_created_at inc \<and>
    open_after (i_created_at inc) r"
  by (auto simp: told_with_def open_after_def split: option.splits)

lemma incident_view_columns:
  "incident_view d inc =
     view_of_columns (map incident_columns (incidents d)) (first_annotations d (i_id inc)) (incident_columns inc)"
  by (simp add: incident_view_def view_of_columns_def related_more more_rows_def filter_map comp_def told_with_columns
      sort_key_map_key told_order_def)


section \<open>Loading\<close>

lemma load_rows_ok:
  assumes "distinct (map i_id (incidents d) @ map ri_id cs)" "list_all (\<lambda>c. ri_priority c \<le> 3) cs"
    and "distinct (map open_key (filter is_open (incidents d @ map restored cs)))"
  shows "\<exists>d'. load_rows rec cs d = Inr ((), d') \<and> incidents d' = incidents d @ map restored cs"
  using assms
proof (induction cs arbitrary: d)
  case (Cons c cs)
  obtain d1 where d1: "d1 = first_alert rec c (d\<lparr>incidents := incidents d @ [restored c]\<rparr>)" by blast
  then have inc: "incidents d1 = incidents d @ [restored c]" by (simp add: first_alert_def split: option.splits)
  have "insert_incident (restored c) d = Inr ((), d\<lparr>incidents := incidents d @ [restored c]\<rparr>)"
    using Cons.prems by (auto simp: insert_incident_def guard_def split: if_splits)
  then have "load_rows rec (c # cs) d = load_rows rec cs d1" by (simp add: d1)
  moreover have "\<exists>d'. load_rows rec cs d1 = Inr ((), d') \<and> incidents d' = incidents d1 @ map restored cs"
    by (rule Cons.IH) (use Cons.prems in \<open>simp_all add: inc\<close>)
  ultimately show ?case by (simp add: inc)
qed simp

definition firing_for :: "db \<Rightarrow> string \<Rightarrow> alert_row list" where
  "firing_for d i = filter (\<lambda>a. al_incident a = Some i \<and> al_status a = Firing) (alerts d)"

lemma first_alert_firing:
  "map al_annotations (firing_for (first_alert rec c d) i) = map al_annotations (firing_for d i) @
     (if ri_id c = i then (case map_of (rc_annotations rec) i of None \<Rightarrow> [] | Some a \<Rightarrow> [a]) else [])"
  by (auto simp: firing_for_def first_alert_def split: option.splits)

lemma load_rows_firing:
  assumes "load_rows rec cs d = Inr ((), d')" "distinct (map ri_id cs)"
  shows "map al_annotations (firing_for d' i) = map al_annotations (firing_for d i) @
    (if i \<in> ri_id ` set cs then (case map_of (rc_annotations rec) i of None \<Rightarrow> [] | Some a \<Rightarrow> [a]) else [])"
  using assms
proof (induction cs arbitrary: d)
  case (Cons c cs)
  obtain d1 where d1: "d1 = d\<lparr>incidents := incidents d @ [restored c]\<rparr>" by blast
  have l: "load_rows rec cs (first_alert rec c d1) = Inr ((), d')"
    using Cons.prems(1) by (auto simp: insert_incident_def tx_simps d1 guard_Inr bindS_Inr_iff)
  have "firing_for d1 i = firing_for d i" by (simp add: firing_for_def d1)
  with Cons.IH [OF l] Cons.prems(2) show ?case by (auto simp: first_alert_firing)
qed simp

lemma first_annotations_one:
  "map al_annotations (firing_for d i) = (case x of None \<Rightarrow> [] | Some a \<Rightarrow> [a]) \<Longrightarrow>
   first_annotations d i = (case x of None \<Rightarrow> [] | Some a \<Rightarrow> a)"
  by (cases x) (auto simp: first_annotations_def firing_for_def)

lemma recorded_annotations_Cons: "recorded_annotations d (r # rows) =
    (if first_annotations d (i_id r) = [] then [] else [(i_id r, first_annotations d (i_id r))]) @ recorded_annotations d rows"
  by (simp add: recorded_annotations_def map_filter_simps)

lemma recorded_annotations_none: "i \<notin> i_id ` set rows \<Longrightarrow> map_of (recorded_annotations d rows) i = None"
proof (induction rows)
  case (Cons r rows)
  then show ?case by (simp add: recorded_annotations_Cons)
qed (simp add: recorded_annotations_def map_filter_simps)

lemma recorded_annotations_of:
  assumes "distinct (map i_id rows)" "r \<in> set rows"
  shows "map_of (recorded_annotations d rows) (i_id r) =
    (if first_annotations d (i_id r) = [] then None else Some (first_annotations d (i_id r)))"
  using assms
proof (induction rows)
  case (Cons x rows)
  show ?case
  proof (cases "r = x")
    case True
    then show ?thesis using Cons.prems recorded_annotations_none [of "i_id x" rows d] by (auto simp: recorded_annotations_Cons)
  next
    case False
    then have "i_id r \<noteq> i_id x" using Cons.prems by (auto simp: image_iff)
    with False Cons.prems Cons.IH show ?thesis by (simp add: recorded_annotations_Cons)
  qed
qed simp

lemma loaded_row:
  assumes "incidents d' = map (\<lambda>r. restored (incident_columns r)) rows" "distinct (map i_id rows)" "inc \<in> set rows"
  shows "incidents_get d' (i_id inc) None = Some (restored (incident_columns inc))"
proof -
  have "incidents_get d' (i_id inc) None \<noteq> None" using assms(1,3) by (auto simp: incidents_get_def find_None_iff)
  then obtain r where r: "incidents_get d' (i_id inc) None = Some r" by blast
  then have "r \<in> set (incidents d')" "i_id r = i_id inc" by (auto simp: incidents_get_def dest: find_in_set)
  then obtain x where x: "x \<in> set rows" "r = restored (incident_columns x)" "i_id x = i_id inc" by (auto simp: assms(1))
  then have "x = inc" using assms(2,3) by (auto dest: distinct_key_inj)
  with r x(2) show ?thesis by simp
qed

lemma recording_loads:
  assumes ok: "constraints d" and rec: "export_recording read_step created d ids meta = Inr rec"
  obtains rows d' where "load_incidents rec empty_db = Inr ((), d')" "incidents d' = map (\<lambda>r. restored (incident_columns r)) rows"
    "distinct (map i_id rows)" "set rows = set (everything d ids)"
    "\<And>r. r \<in> set rows \<Longrightarrow> first_annotations d' (i_id r) = first_annotations d (i_id r)"
proof -
  have ids: "distinct (map i_id (incidents d))" and pr: "\<forall>r \<in> set (incidents d). i_priority r \<le> 3"
    and op: "distinct (map open_key (filter is_open (incidents d)))"
    using ok by (simp_all add: constraints_def list_all_iff)
  note ev = everything_rows [OF ids]
  obtain rows where rows: "rows = sort_key (\<lambda>r. (i_created_at r, i_id r)) (everything d ids)" by blast
  have rc: "rc_incidents rec = map incident_columns rows" "rc_annotations rec = recorded_annotations d (everything d ids)"
    using rec by (auto simp: export_recording_def Let_def bindS_Inr_iff rows)
  have set: "set rows = set (everything d ids)" by (simp add: rows)
  have "mset (map i_id rows) = mset (map i_id (everything d ids))" by (simp add: rows)
  then have dist: "distinct (map i_id rows)" using ev(2) by (metis mset_eq_imp_distinct_iff)
  have keys: "distinct (map open_key (filter is_open rows))"
  proof -
    have "inj_on open_key (set (filter is_open (incidents d)))" using op by (simp add: distinct_map)
    moreover have "set (filter is_open rows) \<subseteq> set (filter is_open (incidents d))" using ev(1) by (auto simp: set)
    moreover have "distinct (filter is_open rows)" using dist by (simp add: distinct_map)
    ultimately show ?thesis by (simp add: distinct_map inj_on_subset)
  qed
  have open_keys: "map open_key (filter is_open (map (\<lambda>r. restored (incident_columns r)) rows)) = map open_key (filter is_open rows)"
    by (simp add: filter_map comp_def)
  have "\<exists>d'. load_rows rec (map incident_columns rows) empty_db = Inr ((), d') \<and>
      incidents d' = incidents empty_db @ map restored (map incident_columns rows)"
    by (rule load_rows_ok)
      (use dist pr ev(1) keys in \<open>auto simp: empty_db_def list_all_iff set comp_def open_keys\<close>)
  then obtain d' where d': "load_rows rec (map incident_columns rows) empty_db = Inr ((), d')"
    "incidents d' = map (\<lambda>r. restored (incident_columns r)) rows"
    by (auto simp: empty_db_def comp_def)
  have "first_annotations d' (i_id r) = first_annotations d (i_id r)" if "r \<in> set rows" for r
  proof -
    have "i_id r \<in> ri_id ` set (map incident_columns rows)" "distinct (map ri_id (map incident_columns rows))"
      using that dist by (simp_all add: image_image comp_def)
    then have "map al_annotations (firing_for d' (i_id r)) =
        (case map_of (recorded_annotations d (everything d ids)) (i_id r) of None \<Rightarrow> [] | Some a \<Rightarrow> [a])"
      using load_rows_firing [OF d'(1), of "i_id r"] by (simp add: rc firing_for_def empty_db_def)
    from first_annotations_one [OF this] show ?thesis
      using recorded_annotations_of [OF ev(2) [of ids], of r d] that by (simp add: set split: if_splits)
  qed
  then show thesis using that [of _ rows] d' dist set by (simp add: load_incidents_def rc)
qed

lemma told_order_unique:
  assumes "mset xs = mset ys" "distinct (map told_order ys)"
  shows "sort_key told_order xs = sort_key told_order ys"
proof (rule sort_key_inj_key_eq)
  show "mset xs = mset (sort_key told_order ys)" using assms(1) by simp
  show "inj_on told_order (set xs)" using assms(2) mset_eq_setD [OF assms(1)] by (simp add: distinct_map)
qed simp

theorem recording_round_trip:
  assumes ok: "constraints d" and inc: "inc \<in> set (incidents d)" "i_id inc \<in> set ids"
    and rec: "export_recording read_step created d ids meta = Inr rec"
    and ties: "distinct (map (\<lambda>r. (i_created_at r, i_service r, i_title r)) (related_rows d inc))"
  shows "\<exists>d'. load_incidents rec empty_db = Inr ((), d') \<and> replay_view d' (i_id inc) = Some (incident_view d inc)"
proof -
  have ids: "distinct (map i_id (incidents d))" using ok by (simp add: constraints_def)
  obtain d' rows where l: "load_incidents rec empty_db = Inr ((), d')"
    and d': "incidents d' = map (\<lambda>r. restored (incident_columns r)) rows" and dist: "distinct (map i_id rows)"
    and set: "set rows = set (everything d ids)"
    and ann: "\<And>r. r \<in> set rows \<Longrightarrow> first_annotations d' (i_id r) = first_annotations d (i_id r)"
    by (rule recording_loads [OF ok rec]) blast
  have mem: "inc \<in> set rows" "set (more_rows d inc) \<subseteq> set rows" "set rows \<subseteq> set (incidents d)"
    using everything_rows [OF ids, where ids = ids] inc by (auto simp: set)
  let ?p = "\<lambda>r. told_with (incident_columns inc) (incident_columns r)"
  have more: "filter ?p (incidents d) = more_rows d inc" by (simp add: more_rows_def told_with_columns)
  have "set (more_rows d inc) = {r \<in> set (incidents d). ?p r}" using arg_cong [OF more, of set] by simp
  with mem have "set (filter ?p rows) = set (filter ?p (incidents d))" by auto
  moreover have "distinct (filter ?p rows)" "distinct (filter ?p (incidents d))" using dist ids by (auto simp: distinct_map)
  ultimately have m: "mset (filter ?p rows) = mset (filter ?p (incidents d))" by (metis set_eq_iff_mset_eq_distinct)
  have "mset (map (\<lambda>r. (i_created_at r, i_service r, i_title r)) (related_rows d inc)) =
      mset (map told_order (map incident_columns (filter ?p (incidents d))))"
    by (simp add: related_more more comp_def told_order_def)
  then have "distinct (map told_order (map incident_columns (filter ?p (incidents d))))"
    using ties mset_eq_imp_distinct_iff by blast
  with m have "sort_key told_order (map incident_columns (filter ?p rows)) =
      sort_key told_order (map incident_columns (filter ?p (incidents d)))"
    by (intro told_order_unique) simp_all
  then have "replay_view d' (i_id inc) = Some (incident_view d inc)"
    using loaded_row [OF d' dist mem(1)] ann [OF mem(1)]
    by (simp add: replay_view_def incident_view_columns d' comp_def view_of_columns_def filter_map)
  with l show ?thesis by blast
qed

section \<open>Answers\<close>

text \<open>What one incident's cassette holds: its stored calls in order, without the registry's own errors.\<close>

definition recorded_answers :: "(tool_call_row \<Rightarrow> time) \<Rightarrow> db \<Rightarrow> string \<Rightarrow> entry list" where
  "recorded_answers created d inc =
     concat (map (\<lambda>t. case tool_entry created d t of Inr (Some e) \<Rightarrow> [e] | _ \<Rightarrow> [])
       (sort_key t_id (filter (\<lambda>t. t_incident t = Some inc) (tool_calls d))))"

lemma tool_entry_incident: "tool_entry created d t = Inr (Some e) \<Longrightarrow> en_incident e = t_incident t"
  by (auto simp: tool_entry_def Let_def split: if_splits option.splits)

lemma mapS_concat:
  assumes "mapS f xs = Inr ys" "\<And>x e. f x = Inr (Some e) \<Longrightarrow> p e = q x"
  shows "filter p (List.map_filter id ys) = concat (map (\<lambda>x. case f x of Inr (Some e) \<Rightarrow> [e] | _ \<Rightarrow> []) (filter q xs))"
  using assms(1)
proof (induction xs arbitrary: ys)
  case (Cons x xs)
  then obtain y zs where y: "f x = Inr y" "mapS f xs = Inr zs" "ys = y # zs" by (auto simp: bindS_Inr_iff)
  with Cons.IH [OF y(2)] assms(2) show ?case by (cases y) (auto simp: map_filter_simps)
qed (simp add: map_filter_simps)

lemma incident_tools_answers:
  assumes "export_recording read_step created d ids meta = Inr rec" "inc \<in> set ids"
  shows "incident_tools rec inc = recorded_answers created d inc"
proof -
  obtain es where es: "mapS (tool_entry created d) (sort_key t_id (filter (\<lambda>t. of_incidents ids (t_incident t)) (tool_calls d))) = Inr es"
    "rc_tools rec = List.map_filter id es"
    using assms(1) by (auto simp: export_recording_def export_tools_def Let_def bindS_Inr_iff)
  have some: "t_incident t \<noteq> None" if "t \<in> set (filter (\<lambda>t. of_incidents ids (t_incident t)) (tool_calls d))" for t
    using that by (auto simp: of_incidents_def split: option.splits)
  have "filter (\<lambda>e. case en_incident e of None \<Rightarrow> True | Some i \<Rightarrow> i = inc) (List.map_filter id es) =
      concat (map (\<lambda>t. case tool_entry created d t of Inr (Some e) \<Rightarrow> [e] | _ \<Rightarrow> [])
        (filter (\<lambda>t. case t_incident t of None \<Rightarrow> True | Some i \<Rightarrow> i = inc)
          (sort_key t_id (filter (\<lambda>t. of_incidents ids (t_incident t)) (tool_calls d)))))"
    by (rule mapS_concat [OF es(1)]) (simp add: tool_entry_incident)
  also have "filter (\<lambda>t. case t_incident t of None \<Rightarrow> True | Some i \<Rightarrow> i = inc)
      (sort_key t_id (filter (\<lambda>t. of_incidents ids (t_incident t)) (tool_calls d))) =
      sort_key t_id (filter (\<lambda>t. t_incident t = Some inc) (tool_calls d))"
    using assms(2) by (auto simp: filter_sort filter_filter of_incidents_def intro!: arg_cong [where f = "sort_key t_id"] filter_cong
        split: option.splits)
  finally show ?thesis unfolding incident_tools_def es(2) recorded_answers_def .
qed

text \<open>So every agent's question finds its stored answers, in the order they were asked for.\<close>

lemma replayed_queue:
  assumes "export_recording read_step created d ids meta = Inr rec" "inc \<in> set ids"
  shows "rp_queues (aw_ext (is_world (replay_start rec inc d'))) (agent_key a n args) =
    filter (\<lambda>e. entry_agent_key e = Some (agent_key a n args)) (recorded_answers created d inc)"
  using replay_init_queue [of "agent_key a n args" "incident_tools rec inc"] agent_key_neq_cassette_key
  by (simp add: replay_start_def incident_tools_answers [OF assms])

end
