(* ===== verification/Reports.thy ===== *)
theory Reports
  imports InvestigateJob Security
begin

text \<open>
  What people read of an incident: usage, cited evidence and the call tree of its agents
  (\<open>app/db/investigations.py\<close>), the report (\<open>app/agents/report.py\<close>) and the requests that read
  (\<open>app/api/incidents.py\<close>, \<open>app/api/evidence.py\<close>). Columns that the row model leaves out (times,
  costs, latencies) come as functions of the row. Shown: a request answers only about its own
  tenant, each tool call stands under the step that asked for it, a table cell stays a cell.
\<close>

record columns =
  cn_started :: "agent_run_row \<Rightarrow> time"
  cn_llm_at :: "llm_call_row \<Rightarrow> time"
  cn_tool_at :: "tool_call_row \<Rightarrow> time"
  cn_cost :: "llm_call_row \<Rightarrow> rat option"
  cn_latency_ms :: "llm_call_row \<Rightarrow> nat"

section \<open>Usage and evidence\<close>

record usage_sum =
  us_calls :: nat
  us_errors :: nat
  us_prompt_tokens :: nat
  us_output_tokens :: nat
  us_tokens :: nat
  us_cost_usd :: "rat option"
  us_model_time_ms :: nat

text \<open>\<open>SUM\<close> ignores NULL and is NULL where nothing else is left.\<close>

definition sum_known :: "rat option list \<Rightarrow> rat option" where
  "sum_known xs = (case List.map_filter id xs of [] \<Rightarrow> None | ys \<Rightarrow> Some (sum_list ys))"

definition incident_calls :: "db \<Rightarrow> string \<Rightarrow> llm_call_row list" where
  "incident_calls d inc = filter (\<lambda>c. l_incident c = Some inc) (llm_calls d)"

definition usage_of :: "columns \<Rightarrow> db \<Rightarrow> string \<Rightarrow> usage_sum" where
  "usage_of cn d inc =
     (let cs = incident_calls d inc; p = sum_list (map (prompt_tokens \<circ> l_usage) cs); out = sum_list (map (u_output_tokens \<circ> l_usage) cs)
      in \<lparr>us_calls = length cs, us_errors = length (filter (\<lambda>c. \<not> l_ok c) cs), us_prompt_tokens = p, us_output_tokens = out,
          us_tokens = p + out, us_cost_usd = sum_known (map (cn_cost cn) cs),
          us_model_time_ms = sum_list (map (cn_latency_ms cn) cs)\<rparr>)"

definition evidence_index :: "db \<Rightarrow> string \<Rightarrow> string list \<Rightarrow> evidence_row list" where
  "evidence_index d inc ids =
     (if ids = [] then [] else filter (\<lambda>e. e_incident e = Some inc \<and> e_id e \<in> set ids) (evidence d))"

section \<open>The call tree\<close>

record step_node =
  sn_call :: llm_call_row
  sn_tools :: "tool_call_row list"

text \<open>The dictionary \<open>steps\<close>: per agent, in the order it first answered.\<close>

type_synonym steps = "(string \<times> step_node list) list"

definition steps_for :: "string \<Rightarrow> steps \<Rightarrow> step_node list" where
  "steps_for agent st = (case map_of st agent of None \<Rightarrow> [] | Some ns \<Rightarrow> ns)"

definition add_call :: "llm_call_row \<Rightarrow> steps \<Rightarrow> steps" where
  "add_call c st = AList.update (l_agent c) (steps_for (l_agent c) st @ [\<lparr>sn_call = c, sn_tools = []\<rparr>]) st"

text \<open>The change of the last element that satisfies \<open>p\<close>.\<close>

primrec on_first :: "('a \<Rightarrow> bool) \<Rightarrow> ('a \<Rightarrow> 'a) \<Rightarrow> 'a list \<Rightarrow> 'a list" where
  "on_first p f [] = []"
| "on_first p f (x # xs) = (if p x then f x # xs else x # on_first p f xs)"

definition attach :: "columns \<Rightarrow> tool_call_row \<Rightarrow> step_node list \<Rightarrow> step_node list" where
  "attach cn t ns =
     rev (on_first (\<lambda>n. cn_llm_at cn (sn_call n) \<le> cn_tool_at cn t) (\<lambda>n. n\<lparr>sn_tools := sn_tools n @ [t]\<rparr>) (rev ns))"

definition tool_agent :: "tool_call_row \<Rightarrow> string" where
  "tool_agent t = (case t_agent t of None \<Rightarrow> [] | Some a \<Rightarrow> a)"

definition add_tool :: "columns \<Rightarrow> tool_call_row \<Rightarrow> steps \<Rightarrow> steps" where
  "add_tool cn t st =
     (case map_of st (tool_agent t) of None \<Rightarrow> st | Some ns \<Rightarrow> AList.update (tool_agent t) (attach cn t ns) st)"

definition call_steps :: "columns \<Rightarrow> db \<Rightarrow> string \<Rightarrow> steps" where
  "call_steps cn d inc =
     fold (add_tool cn) (sort_key (\<lambda>t. (cn_tool_at cn t, t_id t)) (filter (\<lambda>t. t_incident t = Some inc) (tool_calls d)))
       (fold add_call (sort_key (\<lambda>c. (cn_llm_at cn c, l_id c)) (incident_calls d inc)) [])"

record run_node =
  rn_run :: agent_run_row
  rn_calls :: nat
  rn_prompt_tokens :: nat
  rn_output_tokens :: nat
  rn_cost_usd :: rat
  rn_model_time_ms :: nat
  rn_tool_calls :: nat
  rn_llm_calls :: "step_node list"

definition run_node_of :: "columns \<Rightarrow> steps \<Rightarrow> agent_run_row \<Rightarrow> run_node" where
  "run_node_of cn st r =
     (let mine = steps_for (r_agent r) st; us = map (l_usage \<circ> sn_call) mine
      in \<lparr>rn_run = r, rn_calls = length mine, rn_prompt_tokens = sum_list (map prompt_tokens us),
          rn_output_tokens = sum_list (map u_output_tokens us),
          rn_cost_usd = sum_list (map (\<lambda>n. case cn_cost cn (sn_call n) of None \<Rightarrow> 0 | Some x \<Rightarrow> x) mine),
          rn_model_time_ms = sum_list (map (cn_latency_ms cn \<circ> sn_call) mine),
          rn_tool_calls = sum_list (map (length \<circ> sn_tools) mine), rn_llm_calls = mine\<rparr>)"

definition agent_tree :: "columns \<Rightarrow> db \<Rightarrow> string \<Rightarrow> run_node list" where
  "agent_tree cn d inc =
     map (run_node_of cn (call_steps cn d inc))
       (sort_key (\<lambda>r. (cn_started cn r, r_id r)) (filter (\<lambda>r. r_incident r = inc) (agent_runs d)))"

section \<open>The report\<close>

record report_input =
  rpt_incident :: incident_row
  rpt_diagnosis :: "diagnosis option"
  rpt_findings :: "(string \<times> finding) list"
  rpt_evidence :: "evidence_row list"
  rpt_runs :: "agent_run_row list"
  rpt_usage :: usage_sum

text \<open>\<open>str(text).replace("|", "\|").replace("\n", " ")\<close>\<close>

definition cell :: "string \<Rightarrow> string" where
  "cell s = concat (map (\<lambda>c. if c = CHR ''|'' then [CHR 0x5C, c] else if c = CHR 0x0A then '' '' else [c]) s)"

definition evidence_url :: "string \<Rightarrow> string" where
  "evidence_url ev = ''/api/v1/evidence/'' @ ev"

definition ev_link :: "string \<Rightarrow> string" where
  "ev_link ev = ''['' @ ev @ ''](/api/v1/evidence/'' @ ev @ '')''"

definition cite :: "string list \<Rightarrow> string" where
  "cite ids = (if join '', '' (map ev_link ids) \<noteq> [] then join '', '' (map ev_link ids) else ''none'')"

definition or_none :: "string list \<Rightarrow> string list" where
  "or_none ls = (if ls \<noteq> [] then ls else [''- none''])"

text \<open>\<open>f"{n:,}"\<close>\<close>

function grouped :: "nat \<Rightarrow> string" where
  "grouped n = (if n < 1000 then dec n else grouped (n div 1000) @ '','' @ zeros 3 (dec (n mod 1000)))"
  by pat_completeness auto
termination
  by (relation "measure id") auto

declare grouped.simps [simp del]

text \<open>\<open>json.dumps(args, sort_keys=True, ensure_ascii=False)\<close>, with its blanks.\<close>

primrec json_dumps :: "json \<Rightarrow> string" where
  "json_dumps JNull = ''null''"
| "json_dumps (JBool b) = (if b then ''true'' else ''false'')"
| "json_dumps (JInt i) = dec_int i"
| "json_dumps (JFloat t) = t"
| "json_dumps (JStr s) = quoted s"
| "json_dumps (JArr xs) = ''['' @ join '', '' (map json_dumps xs) @ '']''"
| "json_dumps (JObj kvs) =
     ''{'' @ join '', '' (map (\<lambda>(k, t). quoted k @ '': '' @ t) (sort_key fst (map (map_prod id json_dumps) kvs))) @ ''}''"

definition header_lines :: "(string \<Rightarrow> time \<Rightarrow> string) \<Rightarrow> incident_row \<Rightarrow> string list" where
  "header_lines strftime inc =
     [''# '' @ i_title inc @ '' on '' @ i_service inc, [],
      ''Priority '' @ PRIORITY_NAMES ! i_priority inc @ '' '' @ [CHR 0xB7] @ '' state '' @ istate_text (i_state inc) @ '' '' @ [CHR 0xB7] @
        '' environment '' @ i_environment inc @ '' '' @ [CHR 0xB7] @ '' opened '' @
        strftime ''%Y-%m-%d %H:%M:%S %Z'' (i_created_at inc) @ '' '' @ [CHR 0xB7] @ '' incident `'' @ i_id inc @ ''`'', []]"

definition cause_row :: "nat \<times> root_cause \<Rightarrow> string" where
  "cause_row ir =
     (let (i, r) = ir
      in ''| '' @ dec i @ '' | '' @ cell (rc_service r) @ '' | '' @ cell (rc_cause r) @ '' | '' @ fmt_percent (rc_confidence r) @
         '' | '' @ cite (rc_evidence_ids r) @ '' |'')"

definition claim_item :: "claim \<Rightarrow> string" where
  "claim_item c = ''- '' @ cl_statement c @ '' ('' @ cite (cl_evidence_ids c) @ '')''"

definition diagnosis_lines :: "diagnosis option \<Rightarrow> string list" where
  "diagnosis_lines dx =
     (case dx of
        None \<Rightarrow> [''No diagnosis yet.'', []]
      | Some x \<Rightarrow>
          [''## Summary'', [], dx_summary x, [], ''## Root cause candidates'', []] @
          (if dx_root_causes x \<noteq> []
           then [''| # | service | cause | confidence | evidence |'', ''|---|---|---|---|---|''] @
                map cause_row (enumerate 1 (dx_root_causes x))
           else [''None is supported by the evidence; a person needs to take over.'']) @
          [[], ''## Facts'', [], ''Shown directly by the evidence.'', []] @ or_none (map claim_item (dx_facts x)) @
          [[], ''## High-confidence inferences'', []] @ or_none (map claim_item (dx_inferences x)) @
          [[], ''## Hypotheses to verify'', []] @
          or_none (map (\<lambda>h. ''- '' @ oq_statement h @ '' To check: '' @ oq_how_to_verify h) (dx_hypotheses x)) @ [[]])"

definition finding_row :: "finding \<Rightarrow> string" where
  "finding_row f =
     ''- **'' @ finding_kind_text (f_kind f) @ ''** ('' @ signal_text (f_signal f) @ '', '' @ fmt_percent (f_confidence f) @ ''): '' @
     f_statement f @ '' ('' @ cite (f_evidence_ids f) @ '')''"

definition finding_lines :: "(string \<times> finding) list \<Rightarrow> string list" where
  "finding_lines fs =
     (if fs = [] then []
      else [''## Findings by investigator'', []] @
        concat (map (\<lambda>a. [''### '' @ a, []] @ map (finding_row \<circ> snd) (filter (\<lambda>(b, f). b = a) fs) @ [[]])
          (sorted_set (map fst fs))))"

definition evidence_line :: "(string \<Rightarrow> time \<Rightarrow> string) \<Rightarrow> evidence_row \<Rightarrow> string" where
  "evidence_line strftime e =
     ''| '' @ ev_link (e_id e) @ '' | '' @ e_tool e @ '' | `'' @ cell (take 160 (json_dumps (JObj (e_args e)))) @ ''` | `'' @
     take 12 (e_result_hash e) @ ''` | '' @ strftime ''%H:%M:%S'' (e_fetched_at e) @ '' | '' @ e_source e @ '' |''"

definition evidence_lines :: "(string \<Rightarrow> time \<Rightarrow> string) \<Rightarrow> evidence_row list \<Rightarrow> string list" where
  "evidence_lines strftime es =
     (if es = [] then []
      else [''## Evidence'', [], ''| id | tool | arguments | result sha256 | fetched | source |'', ''|---|---|---|---|---|---|''] @
        map (evidence_line strftime) (sort_key e_id es) @ [[]])"

definition count_cell :: "run_result \<Rightarrow> string \<Rightarrow> string" where
  "count_cell res k = (case jget (rr_counts res) k of None \<Rightarrow> ''-'' | Some j \<Rightarrow> json_str j)"

fun run_status_text :: "run_status \<Rightarrow> string" where
  "run_status_text RunRunning = ''running''"
| "run_status_text Schema.RunDone = ''done''"
| "run_status_text RunFailed = ''failed''"

definition run_line :: "agent_run_row \<Rightarrow> string" where
  "run_line r =
     ''| '' @ r_agent r @ '' | '' @ run_status_text (r_status r) @ '' | '' @ r_model r @ '' | `'' @ r_prompt_version r @ ''` | '' @
     dec (r_steps r) @ '' | '' @ count_cell (r_result r) ''tool_calls'' @ '' | '' @ count_cell (r_result r) ''dropped'' @ '' |''"

definition run_lines :: "agent_run_row list \<Rightarrow> string list" where
  "run_lines rs =
     (if rs = [] then []
      else [''## Agent runs'', [], ''| agent | status | model | prompt | steps | tool calls | dropped |'', ''|---|---|---|---|---|---|---|''] @
        map run_line rs @ [[]])"

definition usage_line :: "usage_sum \<Rightarrow> string" where
  "usage_line u =
     ''Model calls: '' @ dec (us_calls u) @ '', tokens: '' @ grouped (us_tokens u) @
     (case us_cost_usd u of None \<Rightarrow> [] | Some c \<Rightarrow> '', equivalent API cost: $'' @ fmt_fixed 4 c)"

definition rstripped :: "string \<Rightarrow> string" where
  "rstripped s = rev (dropWhile is_space (rev s))"

definition render_markdown :: "(string \<Rightarrow> time \<Rightarrow> string) \<Rightarrow> report_input \<Rightarrow> string" where
  "render_markdown strftime x =
     rstripped (join [CHR 0x0A]
       (header_lines strftime (rpt_incident x) @ diagnosis_lines (rpt_diagnosis x) @ finding_lines (rpt_findings x) @
        evidence_lines strftime (rpt_evidence x) @ run_lines (rpt_runs x) @ [usage_line (rpt_usage x)])) @ [CHR 0x0A]"

section \<open>The requests\<close>

definition finding_of_entry :: "board_entry \<Rightarrow> (string \<times> finding) option" where
  "finding_of_entry e = (case be_body e of BFinding f \<Rightarrow> Some (be_author e, f) | _ \<Rightarrow> None)"

definition latest_diagnosis :: "board_entry list \<Rightarrow> diagnosis option" where
  "latest_diagnosis board =
     (case find (\<lambda>e. be_kind e = KDiagnosis) (rev board) of
        None \<Rightarrow> None
      | Some e \<Rightarrow> (case be_body e of BDiagnosis x \<Rightarrow> Some x | _ \<Rightarrow> None))"

definition investigation_data :: "columns \<Rightarrow> db \<Rightarrow> string \<Rightarrow> incident_row \<Rightarrow> report_input" where
  "investigation_data cn d inc row =
     (let board = pg_entries d inc; cited = sorted_set (concat (map be_evidence_ids board))
      in \<lparr>rpt_incident = row, rpt_diagnosis = latest_diagnosis board,
          rpt_findings = List.map_filter finding_of_entry board,
          rpt_evidence = evidence_index d inc cited,
          rpt_runs = sort_key r_id (filter (\<lambda>r. r_incident r = inc) (agent_runs d)),
          rpt_usage = usage_of cn d inc\<rparr>)"

definition get_investigation :: "columns \<Rightarrow> db \<Rightarrow> string \<Rightarrow> string \<Rightarrow> exn + report_input" where
  "get_investigation cn d inc tenant =
     (case incidents_get d inc (Some tenant) of
        None \<Rightarrow> Inl (HTTPException 404)
      | Some row \<Rightarrow> Inr (investigation_data cn d inc row))"

text \<open>The GET routes of an incident, and what they answer.\<close>

datatype incident_route = GetIncident | GetDiagnosis | GetAgents | GetReport

record incident_out =
  out_id :: string
  out_title :: string
  out_service :: string
  out_environment :: string
  out_priority :: string
  out_state :: string
  out_version :: nat
  out_alert_count :: nat
  out_labels :: "(string \<times> string) list"
  out_created_at :: time
  out_updated_at :: time
  out_closed_at :: "time option"

definition out_of_row :: "incident_row \<Rightarrow> incident_out" where
  "out_of_row r =
     \<lparr>out_id = i_id r, out_title = i_title r, out_service = i_service r, out_environment = i_environment r,
      out_priority = PRIORITY_NAMES ! i_priority r, out_state = istate_text (i_state r), out_version = i_version r,
      out_alert_count = i_alert_count r, out_labels = i_labels r, out_created_at = i_created_at r,
      out_updated_at = i_updated_at r, out_closed_at = i_closed_at r\<rparr>"

record agent_out =
  ao_status :: run_status
  ao_model :: string
  ao_prompt_version :: string
  ao_steps :: nat
  ao_result :: run_result

record diagnosis_out =
  do_incident :: string
  do_state :: string
  do_diagnosis :: "diagnosis option"
  do_findings :: "(string \<times> finding) list"
  do_agents :: "(string \<times> agent_out) list"
  do_usage :: usage_sum

definition agent_out_of :: "agent_run_row \<Rightarrow> string \<times> agent_out" where
  "agent_out_of r =
     (r_agent r, \<lparr>ao_status = r_status r, ao_model = r_model r, ao_prompt_version = r_prompt_version r, ao_steps = r_steps r,
        ao_result = r_result r\<rparr>)"

definition diagnosis_out_of :: "string \<Rightarrow> report_input \<Rightarrow> diagnosis_out" where
  "diagnosis_out_of inc x =
     \<lparr>do_incident = inc, do_state = istate_text (i_state (rpt_incident x)), do_diagnosis = rpt_diagnosis x,
      do_findings = rpt_findings x, do_agents = map agent_out_of (rpt_runs x), do_usage = rpt_usage x\<rparr>"

datatype incident_answer =
    IncidentOut incident_out
  | DiagnosisOut diagnosis_out
  | AgentsOut "run_node list"
  | ReportOut string

definition read_incident :: "(string \<Rightarrow> time \<Rightarrow> string) \<Rightarrow> columns \<Rightarrow> db \<Rightarrow> string \<Rightarrow> incident_route \<Rightarrow> string \<Rightarrow> exn + incident_answer" where
  "read_incident strftime cn d tenant route inc =
     (case route of
        GetIncident \<Rightarrow>
          (case incidents_get d inc (Some tenant) of None \<Rightarrow> Inl (HTTPException 404) | Some row \<Rightarrow> Inr (IncidentOut (out_of_row row)))
      | GetDiagnosis \<Rightarrow> bindS (get_investigation cn d inc tenant) (\<lambda>x. Inr (DiagnosisOut (diagnosis_out_of inc x)))
      | GetAgents \<Rightarrow>
          (case incidents_get d inc (Some tenant) of
             None \<Rightarrow> Inl (HTTPException 404) | Some row \<Rightarrow> Inr (AgentsOut (agent_tree cn d inc)))
      | GetReport \<Rightarrow> bindS (get_investigation cn d inc tenant) (\<lambda>x. Inr (ReportOut (render_markdown strftime x))))"

definition read_request ::
    "'tok jwt_lib \<Rightarrow> token_settings \<Rightarrow> int \<Rightarrow> 'tok option \<Rightarrow> (string \<Rightarrow> time \<Rightarrow> string) \<Rightarrow> columns \<Rightarrow> db \<Rightarrow> incident_route \<Rightarrow> string \<Rightarrow>
     exn + incident_answer" where
  "read_request lib ts now credentials strftime cn d route inc =
     bindS (authorized lib ts now credentials ''viewer'') (\<lambda>p. read_incident strftime cn d (pr_tenant p) route inc)"

text \<open>\<open>Query(ge=1, le=200)\<close>; 422 otherwise.\<close>

definition list_request :: "'tok jwt_lib \<Rightarrow> token_settings \<Rightarrow> int \<Rightarrow> 'tok option \<Rightarrow> db \<Rightarrow> nat \<Rightarrow> exn + incident_row list" where
  "list_request lib ts now credentials d limit =
     bindS (authorized lib ts now credentials ''viewer'') (\<lambda>p.
     bindS (guard (1 \<le> limit \<and> limit \<le> 200) (HTTPException 422)) (\<lambda>_. Inr (list_for_tenant d (pr_tenant p) limit)))"

definition evidence_id_ok :: "string \<Rightarrow> bool" where
  "evidence_id_ok s \<longleftrightarrow> starts_with ''ev_'' s \<and> length s = 19 \<and> list_all (\<lambda>c. c \<in> set hex_digits) (drop 3 s)"

definition evidence_request :: "'tok jwt_lib \<Rightarrow> token_settings \<Rightarrow> int \<Rightarrow> 'tok option \<Rightarrow> db \<Rightarrow> string \<Rightarrow> exn + evidence_row" where
  "evidence_request lib ts now credentials d ev =
     bindS (authorized lib ts now credentials ''viewer'') (\<lambda>p.
     bindS (guard (evidence_id_ok ev) (HTTPException 422)) (\<lambda>_.
       case evidence_load d ev (pr_tenant p) of None \<Rightarrow> Inl (HTTPException 404) | Some e \<Rightarrow> Inr e))"

section \<open>Each tool call under its step\<close>

lemma steps_for_update [simp]: "steps_for a (AList.update b ns st) = (if a = b then ns else steps_for a st)"
  by (simp add: steps_for_def update_conv')

lemma steps_for_calls: "steps_for a (fold add_call cs st) =
    steps_for a st @ map (\<lambda>c. \<lparr>sn_call = c, sn_tools = []\<rparr>) (filter (\<lambda>c. l_agent c = a) cs)"
  by (induction cs arbitrary: st) (auto simp: add_call_def)

lemma attach_Nil [simp]: "attach cn t [] = []"
  by (simp add: attach_def)

lemma steps_for_tools: "steps_for a (fold (add_tool cn) ts st) = fold (attach cn) (filter (\<lambda>t. tool_agent t = a) ts) (steps_for a st)"
proof (induction ts arbitrary: st)
  case (Cons t ts)
  have "steps_for a (add_tool cn t st) = (if tool_agent t = a then attach cn t (steps_for a st) else steps_for a st)"
    by (auto simp: add_tool_def steps_for_def update_conv' split: option.splits)
  with Cons.IH show ?case by simp
qed simp

text \<open>The reference: a step has the calls from its time on until the next step's.\<close>

fun intervals :: "columns \<Rightarrow> llm_call_row list \<Rightarrow> tool_call_row list \<Rightarrow> step_node list" where
  "intervals cn [] ts = []"
| "intervals cn (c # cs) ts =
     \<lparr>sn_call = c, sn_tools = filter (\<lambda>t. cn_llm_at cn c \<le> cn_tool_at cn t \<and>
        (cs \<noteq> [] \<longrightarrow> cn_tool_at cn t < cn_llm_at cn (hd cs))) ts\<rparr> # intervals cn cs ts"

lemma sn_call_intervals [simp]: "map sn_call (intervals cn cs ts) = cs"
  by (induction cs) auto

lemma intervals_eq_Nil [simp]: "intervals cn cs ts = [] \<longleftrightarrow> cs = []"
  by (cases cs) auto

lemma on_first_append: "on_first p f (xs @ ys) = (if \<exists>x \<in> set xs. p x then on_first p f xs @ ys else xs @ on_first p f ys)"
  by (induction xs) auto

lemma attach_Cons: "attach cn t (n # ns) =
    (if \<exists>m \<in> set ns. cn_llm_at cn (sn_call m) \<le> cn_tool_at cn t then n # attach cn t ns
     else (if cn_llm_at cn (sn_call n) \<le> cn_tool_at cn t then n\<lparr>sn_tools := sn_tools n @ [t]\<rparr> else n) # ns)"
  by (simp add: attach_def on_first_append)

lemma attach_intervals:
  "sorted (map (cn_llm_at cn) cs) \<Longrightarrow> attach cn t (intervals cn cs ts) = intervals cn cs (ts @ [t])"
proof (induction cs)
  case (Cons c cs)
  have "(\<exists>m \<in> set (intervals cn cs ts). cn_llm_at cn (sn_call m) \<le> cn_tool_at cn t) \<longleftrightarrow>
      cs \<noteq> [] \<and> cn_llm_at cn (hd cs) \<le> cn_tool_at cn t"
  proof -
    have "(\<exists>m \<in> set (intervals cn cs ts). cn_llm_at cn (sn_call m) \<le> cn_tool_at cn t) \<longleftrightarrow>
        (\<exists>x \<in> set (map sn_call (intervals cn cs ts)). cn_llm_at cn x \<le> cn_tool_at cn t)" by (simp del: sn_call_intervals)
    also have "\<dots> \<longleftrightarrow> cs \<noteq> [] \<and> cn_llm_at cn (hd cs) \<le> cn_tool_at cn t"
      unfolding sn_call_intervals using Cons.prems by (cases cs) (auto intro: order_trans)
    finally show ?thesis .
  qed
  moreover have "intervals cn cs (ts @ [t]) = intervals cn cs ts" if "cs = [] \<or> cn_tool_at cn t < cn_llm_at cn (hd cs)"
    using that Cons.prems
  proof (induction cs)
    case (Cons x xs)
    then show ?case by (cases xs) (auto simp: not_le)
  qed simp
  moreover have "attach cn t (intervals cn cs ts) = intervals cn cs (ts @ [t])" using Cons by simp
  moreover have "cn_llm_at cn c \<le> cn_llm_at cn (hd cs)" if "cs \<noteq> []" using that Cons.prems by (cases cs) auto
  ultimately show ?case by (auto simp: attach_Cons not_le)
qed simp

lemma fold_attach: "sorted (map (cn_llm_at cn) cs) \<Longrightarrow>
    fold (attach cn) ts (map (\<lambda>c. \<lparr>sn_call = c, sn_tools = []\<rparr>) cs) = intervals cn cs ts"
proof (induction ts rule: rev_induct)
  case Nil
  show ?case by (induction cs) auto
next
  case (snoc t ts)
  then show ?case by (simp add: attach_intervals)
qed

lemma sorted_fst: "sorted (map (\<lambda>x. (f x :: 'a :: linorder, g x :: 'b :: linorder)) xs) \<Longrightarrow> sorted (map f xs)"
  by (induction xs) (auto simp: less_eq_prod_def)

lemma call_steps_intervals:
  "steps_for a (call_steps cn d inc) =
     intervals cn (filter (\<lambda>c. l_agent c = a) (sort_key (\<lambda>c. (cn_llm_at cn c, l_id c)) (incident_calls d inc)))
       (filter (\<lambda>t. tool_agent t = a) (sort_key (\<lambda>t. (cn_tool_at cn t, t_id t)) (filter (\<lambda>t. t_incident t = Some inc) (tool_calls d))))"
proof -
  have s: "sorted (map (cn_llm_at cn) (filter (\<lambda>c. l_agent c = a) (sort_key (\<lambda>c. (cn_llm_at cn c, l_id c)) (incident_calls d inc))))"
    by (rule sorted_filter, rule sorted_fst [where g = l_id], rule sorted_sort_key)
  have "steps_for a [] = []" by (simp add: steps_for_def)
  then show ?thesis unfolding call_steps_def steps_for_tools steps_for_calls by (simp only: append_Nil fold_attach [OF s])
qed

lemma agent_tree_steps:
  "n \<in> set (agent_tree cn d inc) \<Longrightarrow> rn_llm_calls n =
     intervals cn (filter (\<lambda>c. l_agent c = r_agent (rn_run n)) (sort_key (\<lambda>c. (cn_llm_at cn c, l_id c)) (incident_calls d inc)))
       (filter (\<lambda>t. tool_agent t = r_agent (rn_run n))
         (sort_key (\<lambda>t. (cn_tool_at cn t, t_id t)) (filter (\<lambda>t. t_incident t = Some inc) (tool_calls d))))"
  by (auto simp: agent_tree_def run_node_of_def Let_def call_steps_intervals)

section \<open>A reader sees one tenant\<close>

definition only_tenant :: "string \<Rightarrow> db \<Rightarrow> db" where
  "only_tenant t d = d\<lparr>incidents := filter (\<lambda>r. i_tenant r = t) (incidents d), evidence := filter (\<lambda>e. e_tenant e = t) (evidence d),
     tool_calls := filter (\<lambda>c. t_tenant c = t) (tool_calls d), llm_calls := filter (\<lambda>c. l_tenant c = t) (llm_calls d),
     agent_runs := filter (\<lambda>r. r_tenant r = t) (agent_runs d), blackboard := filter (\<lambda>b. b_tenant b = t) (blackboard d)\<rparr>"

text \<open>Every row about an incident carries the incident's tenant.\<close>

definition tenants_agree :: "db \<Rightarrow> bool" where
  "tenants_agree d \<longleftrightarrow> (\<forall>r \<in> set (incidents d).
     (\<forall>e \<in> set (evidence d). e_incident e = Some (i_id r) \<longrightarrow> e_tenant e = i_tenant r) \<and>
     (\<forall>t \<in> set (tool_calls d). t_incident t = Some (i_id r) \<longrightarrow> t_tenant t = i_tenant r) \<and>
     (\<forall>c \<in> set (llm_calls d). l_incident c = Some (i_id r) \<longrightarrow> l_tenant c = i_tenant r) \<and>
     (\<forall>a \<in> set (agent_runs d). r_incident a = i_id r \<longrightarrow> r_tenant a = i_tenant r) \<and>
     (\<forall>b \<in> set (blackboard d). b_incident b = i_id r \<longrightarrow> b_tenant b = i_tenant r))"

lemma find_filter_same: "(\<And>x. x \<in> set xs \<Longrightarrow> p x \<Longrightarrow> q x) \<Longrightarrow> find p (filter q xs) = find p xs"
  by (induction xs) auto

lemma only_tenant_get: "incidents_get (only_tenant t d) inc (Some t) = incidents_get d inc (Some t)"
  unfolding incidents_get_def only_tenant_def by simp (rule find_filter_same, simp)

lemma only_tenant_rows:
  assumes "tenants_agree d" "r \<in> set (incidents d)" "i_id r = inc" "i_tenant r = t"
  shows "incident_calls (only_tenant t d) inc = incident_calls d inc"
    "filter (\<lambda>x. t_incident x = Some inc) (tool_calls (only_tenant t d)) = filter (\<lambda>x. t_incident x = Some inc) (tool_calls d)"
    "filter (\<lambda>x. r_incident x = inc) (agent_runs (only_tenant t d)) = filter (\<lambda>x. r_incident x = inc) (agent_runs d)"
    "filter (\<lambda>x. b_incident x = inc) (blackboard (only_tenant t d)) = filter (\<lambda>x. b_incident x = inc) (blackboard d)"
    "evidence_index (only_tenant t d) inc ids = evidence_index d inc ids"
  using assms by (auto simp: incident_calls_def evidence_index_def only_tenant_def tenants_agree_def intro!: filter_cong)

lemma read_only_tenant:
  assumes "tenants_agree d"
  shows "read_incident strftime cn (only_tenant t d) t route inc = read_incident strftime cn d t route inc"
proof (cases "incidents_get d inc (Some t)")
  case None
  then show ?thesis by (cases route) (simp_all add: read_incident_def get_investigation_def only_tenant_get)
next
  case (Some r)
  then have r: "r \<in> set (incidents d)" "i_id r = inc" "i_tenant r = t"
    by (auto simp: incidents_get_def find_Some_iff in_set_conv_nth)
  note rows = only_tenant_rows [OF assms r]
  have "agent_tree cn (only_tenant t d) inc = agent_tree cn d inc"
    by (simp add: agent_tree_def call_steps_def rows)
  moreover have "investigation_data cn (only_tenant t d) inc r = investigation_data cn d inc r"
    by (simp add: investigation_data_def pg_entries_def usage_of_def rows)
  ultimately show ?thesis
    by (cases route) (simp_all add: read_incident_def get_investigation_def only_tenant_get Some)
qed

lemma lists_only_tenant:
  "list_for_tenant (only_tenant t d) t limit = list_for_tenant d t limit" "evidence_load (only_tenant t d) ev t = evidence_load d ev t"
  unfolding list_for_tenant_def evidence_load_def only_tenant_def by simp_all (rule find_filter_same, simp)

section \<open>A cell stays a cell\<close>

primrec pipes_escaped :: "char \<Rightarrow> string \<Rightarrow> bool" where
  "pipes_escaped before [] = True"
| "pipes_escaped before (c # s) = ((c = CHR ''|'' \<longrightarrow> before = CHR 0x5C) \<and> pipes_escaped c s)"

lemma cell_one_line: "CHR 0x0A \<notin> set (cell s)"
  by (auto simp: cell_def)

lemma cell_pipes: "pipes_escaped c (cell s)"
  by (induction s arbitrary: c) (auto simp: cell_def)

text \<open>A backslash in front of a pipe is not escaped itself, so the two of them end the cell.\<close>

lemma cell_backslash: "cell [CHR 0x5C, CHR ''|''] = [CHR 0x5C, CHR 0x5C, CHR ''|'']"
  by (simp add: cell_def)

end
