(* ===== verification/Collect.thy ===== *)
theory Collect
  imports Evaluation Recording Reports
begin

text \<open>
  What the evaluation reads of finished incidents (\<open>app/eval/collect.py\<close>), the scores of stored
  observations (\<open>app/eval/results.py\<close>), the spread over repeated runs (\<open>summarise\<close> of
  \<open>app/eval/metrics.py\<close>) and its report (\<open>app/eval/report.py\<close>). Costs come as a function of the
  row, as in Reports. Shown: observations without violations speak of the newest plan and of every
  execution in the database; the counts of citations add up.
\<close>

section \<open>Observing an incident\<close>

definition CITING :: "string list" where
  "CITING = [''investigator.'', ''synthesizer'', ''solo'', ''planner'']"

text \<open>\<open>payload->>'k'\<close> of a payload whose values are texts.\<close>

definition payload_field :: "json \<Rightarrow> string \<Rightarrow> string option" where
  "payload_field j k = (case j of JObj kvs \<Rightarrow> (case jget kvs k of Some (JStr s) \<Rightarrow> Some s | _ \<Rightarrow> None) | _ \<Rightarrow> None)"

definition ended_row :: "db \<Rightarrow> string \<Rightarrow> audit_row option" where
  "ended_row d inc =
     find (\<lambda>a. a_subject a = inc \<and> a_event a = ''incident.transition'' \<and> payload_field (a_payload a) ''from'' = Some ''INVESTIGATING'')
       (sort_key a_seq (audit_log d))"

definition ended_as :: "audit_row option \<Rightarrow> inv_result" where
  "ended_as over =
     (case over of
        None \<Rightarrow> Pending
      | Some a \<Rightarrow> if payload_field (a_payload a) ''to'' = Some ''DIAGNOSED'' then Diagnosed else Escalated)"

definition ended_reason :: "audit_row option \<Rightarrow> string" where
  "ended_reason over = (case over of None \<Rightarrow> [] | Some a \<Rightarrow> text_or_empty (payload_field (a_payload a) ''reason''))"

text \<open>\<open>round((a - b).total_seconds(), 1)\<close>\<close>

definition seconds_between :: "time \<Rightarrow> time \<Rightarrow> rat" where
  "seconds_between a b = round_to 1 (of_int (a - b) / 1000000)"

definition observed_actions :: "db \<Rightarrow> string \<Rightarrow> action_obs list" where
  "observed_actions d inc =
     (case current_plan d inc of
        None \<Rightarrow> []
      | Some p \<Rightarrow> map (\<lambda>a. \<lparr>ao_action = action_kind a, ao_deployment = a_deployment a, ao_verdict = p_verdict p,
          ao_risk = p_risk p\<rparr>) (rp_actions (p_plan p)))"

fun execution_status_text :: "execution_status \<Rightarrow> string" where
  "execution_status_text Started = ''started''"
| "execution_status_text Succeeded = ''succeeded''"
| "execution_status_text Failed = ''failed''"
| "execution_status_text Unknown = ''unknown''"

definition observed_executions :: "db \<Rightarrow> string \<Rightarrow> execution_obs list" where
  "observed_executions d inc =
     map (\<lambda>x. \<lparr>eo_action = action_kind (x_action x), eo_deployment = a_deployment (x_action x),
        eo_status = execution_status_text (x_status x)\<rparr>)
       (sort_key x_id (filter (\<lambda>x. x_incident x = inc) (executions d)))"

text \<open>\<open>result.get(k, 0)\<close> of a count.\<close>

definition result_count :: "run_result \<Rightarrow> string \<Rightarrow> int" where
  "result_count r k = (case jget (rr_counts r) k of Some (JInt n) \<Rightarrow> n | _ \<Rightarrow> 0)"

definition findings_by :: "db \<Rightarrow> string \<Rightarrow> string \<Rightarrow> nat" where
  "findings_by d inc author =
     length (filter (\<lambda>b. b_incident b = inc \<and> b_kind b = KFinding \<and> b_author b = author) (blackboard d))"

definition kept_items :: "string \<Rightarrow> run_result \<Rightarrow> (string \<Rightarrow> nat) \<Rightarrow> diagnosis option \<Rightarrow> nat" where
  "kept_items agent result findings dx =
     (if starts_with ''investigator.'' agent then findings agent
      else if agent = ''planner'' then (case rr_plan result of None \<Rightarrow> 0 | Some p \<Rightarrow> length (rp_actions p))
      else (case dx of None \<Rightarrow> 0
        | Some x \<Rightarrow> length (dx_root_causes x) + length (dx_facts x) + length (dx_inferences x)))"

definition citing_runs :: "db \<Rightarrow> string \<Rightarrow> agent_run_row list" where
  "citing_runs d inc =
     filter (\<lambda>r. r_incident r = inc \<and> r_status r = Schema.RunDone \<and> list_ex (\<lambda>p. starts_with p (r_agent r)) CITING) (agent_runs d)"

text \<open>\<open>_one\<close>; the usage is that of the calls that were answered.\<close>

definition observe_one :: "(llm_call_row \<Rightarrow> rat option) \<Rightarrow> db \<Rightarrow> time \<Rightarrow> incident_row \<Rightarrow> incident_obs" where
  "observe_one cost d cause_at row =
     (let inc = i_id row; over = ended_row d inc; dx = flow_diagnosis d inc;
          calls = filter l_ok (incident_calls d inc); runs = citing_runs d inc;
          causes = (case dx of None \<Rightarrow> [] | Some x \<Rightarrow> dx_root_causes x)
      in \<lparr>io_incident = inc, io_service = i_service row, io_priority = i_priority row,
          io_opened_s = seconds_between (i_created_at row) cause_at, io_outcome = ended_as over, io_reason = ended_reason over,
          io_root_causes = map rc_service causes, io_confidences = map rc_confidence causes,
          io_investigation_s = map_option (\<lambda>a. seconds_between (a_ts a) (i_created_at row)) over,
          io_calls = length calls, io_tokens = sum_list (map (total_tokens \<circ> l_usage) calls),
          io_cost_usd = sum_known (map cost calls), io_answers = length runs,
          io_first_pass = length (filter (\<lambda>r. result_count (r_result r) ''rewrites'' = 0) runs),
          io_kept = sum_list (map (\<lambda>r. kept_items (r_agent r) (r_result r) (findings_by d inc) dx) runs),
          io_dropped = sum_list (map (\<lambda>r. nat (result_count (r_result r) ''dropped'')) runs),
          io_actions = observed_actions d inc, io_executions = observed_executions d inc\<rparr>)"

definition observe :: "(llm_call_row \<Rightarrow> rat option) \<Rightarrow> db \<Rightarrow> string list \<Rightarrow> time \<Rightarrow> incident_obs list" where
  "observe cost d ids cause_at =
     map (observe_one cost d cause_at) (sort_key i_created_at (filter (\<lambda>r. i_id r \<in> set ids) (incidents d)))"

section \<open>Stored observations\<close>

record result_file =
  rf_run :: string
  rf_kind :: string
  rf_observations :: "scenario_obs list"

text \<open>\<open>scenarios.get\<close> raises a \<open>KeyError\<close> for an id that is not in the catalogue.\<close>

definition scenario_get :: "scenario list \<Rightarrow> string \<Rightarrow> string + scenario" where
  "scenario_get cases i = (case find (\<lambda>s. sc_id s = i) cases of None \<Rightarrow> Inl ''KeyError'' | Some s \<Rightarrow> Inr s)"

definition score_all :: "scenario list \<Rightarrow> scenario_obs list \<Rightarrow> string + scenario_score list" where
  "score_all cases obs = mapS (\<lambda>x. bindS (scenario_get cases (so_scenario x)) (\<lambda>s. Inr (score s x))) obs"

definition load_scores :: "scenario list \<Rightarrow> result_file list \<Rightarrow> string + scenario_score list" where
  "load_scores cases files =
     bindS (mapS (\<lambda>f. score_all cases
         (map (\<lambda>x. if so_run x \<noteq> [] then x else x\<lparr>so_run := rf_run f\<rparr>) (rf_observations f))) files)
       (\<lambda>xs. Inr (concat xs))"

section \<open>Repeated runs\<close>

definition SUMMARY_FIELDS :: "(string \<times> (variant_metrics \<Rightarrow> rat option)) list" where
  "SUMMARY_FIELDS =
     [(''top1'', Some \<circ> vm_top1), (''top3'', Some \<circ> vm_top3), (''incident_accuracy'', Some \<circ> vm_incident_accuracy),
      (''action_accuracy'', Some \<circ> vm_action_accuracy), (''safety_violations'', \<lambda>m. Some (of_nat (vm_safety_violations m))),
      (''citation_first_pass'', vm_citation_first_pass), (''claims_dropped'', vm_claims_dropped),
      (''diagnosis_p50_s'', vm_diagnosis_p50_s), (''diagnosis_p95_s'', vm_diagnosis_p95_s),
      (''tokens_per_incident'', Some \<circ> vm_tokens_per_incident), (''cost_per_incident'', Some \<circ> vm_cost_per_incident),
      (''escalation_rate'', Some \<circ> vm_escalation_rate)]"

record stat =
  st_mean :: rat
  st_sd :: "rat option"
  st_values :: "rat list"

text \<open>The square root of \<open>statistics.stdev\<close> is a parameter; what it is taken of is the sample variance.\<close>

definition sample_variance :: "rat list \<Rightarrow> rat" where
  "sample_variance xs = sum_list (map (\<lambda>x. (x - mean_of xs)\<^sup>2) xs) / of_nat (length xs - 1)"

definition stat_of :: "(rat \<Rightarrow> rat) \<Rightarrow> rat list \<Rightarrow> stat option" where
  "stat_of sqrt_of xs =
     (if xs = [] then None
      else Some \<lparr>st_mean = mean_of xs, st_sd = (if 1 < length xs then Some (sqrt_of (sample_variance xs)) else None), st_values = xs\<rparr>)"

definition summarise :: "(rat \<Rightarrow> rat) \<Rightarrow> variant_metrics list \<Rightarrow> (string \<times> stat option) list" where
  "summarise sqrt_of runs = map (\<lambda>(name, field). (name, stat_of sqrt_of (List.map_filter field runs))) SUMMARY_FIELDS"

section \<open>The report\<close>

definition LABELS :: "(string \<times> string) list" where
  "LABELS =
     [(''top1'', ''Top-1''), (''top3'', ''Top-3''), (''incident_accuracy'', ''per incident''), (''action_accuracy'', ''actions right''),
      (''safety_violations'', ''safety violations''), (''citation_first_pass'', ''citations ok 1st try''),
      (''claims_dropped'', ''claims dropped''), (''diagnosis_p50_s'', ''diagnosis p50''), (''diagnosis_p95_s'', ''diagnosis p95''),
      (''tokens_per_incident'', ''tokens / incident''), (''cost_per_incident'', ''$ / incident''), (''escalation_rate'', ''escalated'')]"

definition PERCENT :: "string list" where
  "PERCENT = [''top1'', ''top3'', ''incident_accuracy'', ''action_accuracy'', ''citation_first_pass'', ''claims_dropped'', ''escalation_rate'']"

definition fmt_metric :: "string \<Rightarrow> rat \<Rightarrow> string" where
  "fmt_metric name v =
     (if name \<in> set PERCENT then fmt_percent v
      else if starts_with ''s_'' (rev name) then fmt_fixed 0 v @ ''s''
      else if name = ''cost_per_incident'' then ''$'' @ fmt_fixed 3 v
      else if name = ''tokens_per_incident'' then fmt_fixed 0 (v / 1000) @ ''k''
      else if v = of_int (floor v) then fmt_fixed 0 v else fmt_fixed 1 v)"

definition stat_text :: "string \<Rightarrow> stat option \<Rightarrow> string" where
  "stat_text name s =
     (case s of
        None \<Rightarrow> ''-''
      | Some x \<Rightarrow> fmt_metric name (st_mean x) @
          (case st_sd x of None \<Rightarrow> [] | Some sd \<Rightarrow> '' '' @ [CHR 0xB1] @ '' '' @ fmt_metric name sd))"

text \<open>The two marks of an answer lie beyond the characters of the model: they are parameters.\<close>

record marks =
  mk_right :: string
  mk_wrong :: string

definition gate_line :: "gate_result \<Rightarrow> string" where
  "gate_line g =
     ''- **'' @ gr_variant g @ ''**: '' @
     (case gr_top1 g of None \<Rightarrow> ''no scenario scored'' | Some t \<Rightarrow> ''Top-1 '' @ fmt_percent t) @
     (case gr_baseline_top1 g of
        None \<Rightarrow> [] | Some b \<Rightarrow> '' vs baseline '' @ fmt_percent b @ '' on '' @ dec (gr_common g) @ '' scenarios'') @ '': '' @
     (if gate_passed g then ''pass'' else ''FAIL: '' @ join ''; '' (gr_reasons g))"

type_synonym runs_of = "(string \<times> variant_metrics list) list"

definition bar_row :: "string list \<Rightarrow> string" where
  "bar_row cells = ''| '' @ join '' | '' cells @ '' |''"

definition metric_lines :: "(rat \<Rightarrow> rat) \<Rightarrow> runs_of \<Rightarrow> string list" where
  "metric_lines sqrt_of per_run =
     [[], ''### Metrics (mean '' @ [CHR 0xB1] @ '' sd over runs: '' @
        join '', '' (map (\<lambda>(v, m). v @ '' '' @ dec (length m)) per_run) @ '')'', [],
      ''| metric | '' @ join '' | '' (map fst per_run) @ '' |'',
      ''|---|'' @ concat (map (\<lambda>_. ''---|'') per_run)] @
     map (\<lambda>name. ''| '' @ (case map_of LABELS name of None \<Rightarrow> [] | Some l \<Rightarrow> l) @ '' | '' @
         join '' | '' (map (\<lambda>(v, m). stat_text name (case map_of (summarise sqrt_of m) name of None \<Rightarrow> None | Some x \<Rightarrow> x)) per_run) @ '' |'')
       (map fst SUMMARY_FIELDS) @
     [''| scenarios scored (all runs) | '' @
        join '' | '' (map (\<lambda>(v, m). dec (sum_list (map vm_scenarios m))) per_run) @ '' |''] @
     (let no_model = map (\<lambda>(v, m). sum_list (map (length \<circ> vm_model_unavailable) m)) per_run
      in if list_ex (\<lambda>n. n \<noteq> 0) no_model
         then [''| not scored: model unavailable | '' @ join '' | '' (map dec no_model) @ '' |''] else [])"

definition answer_cell :: "marks \<Rightarrow> scenario_score \<Rightarrow> string" where
  "answer_cell mk s =
     (if \<not> ss_alerted s
      then ''- '' @ (if ss_off_target s \<noteq> [] then ''only off target ('' @ join '', '' (ss_off_target s) @ '')'' else ''no alert'')
      else if ss_model_unavailable s then ''! model unavailable''
      else (if ss_top1 s then mk_right mk else mk_wrong mk) @ '' '' @
           (case ss_answer s of None \<Rightarrow> ''none'' | Some a \<Rightarrow> if a = [] then ''none'' else a))"

definition scenario_answers :: "marks \<Rightarrow> scenario_score list \<Rightarrow> string \<Rightarrow> string \<Rightarrow> string list" where
  "scenario_answers mk scores scenario variant =
     map (answer_cell mk) (filter (\<lambda>s. ss_scenario s = scenario \<and> ss_variant s = variant) (sort_key ss_run scores))"

definition scenario_lines :: "marks \<Rightarrow> scenario list \<Rightarrow> scenario_score list \<Rightarrow> string list \<Rightarrow> string list" where
  "scenario_lines mk cases scores variants =
     [[], ''### Scenarios (top candidate of each run; '' @ mk_right mk @ '' = the labelled root cause)'', [],
      ''| scenario | difficulty | root cause | '' @ join '' | '' variants @ '' |'',
      ''|---|---|---|'' @ concat (map (\<lambda>_. ''---|'') variants)] @
     List.map_filter (\<lambda>sc.
       if list_ex (\<lambda>v. scenario_answers mk scores (sc_id sc) v \<noteq> []) variants
       then Some (bar_row ([sc_id sc, sc_difficulty sc, ex_root_cause (sc_expect sc)] @
              map (\<lambda>v. let t = join ''<br>'' (scenario_answers mk scores (sc_id sc) v) in if t = [] then ''-'' else t) variants))
       else None) cases"

definition or_text :: "string \<Rightarrow> string \<Rightarrow> string" where
  "or_text s t = (if s = [] then t else s)"

definition problem_lines :: "scenario_score list \<Rightarrow> string list" where
  "problem_lines scores =
     (let problems = filter (\<lambda>s. ss_violations s \<noteq> [] \<or> scored s \<and> \<not> ss_action_correct s) scores
      in if problems = [] then []
         else [[], ''### Actions'', [], ''| scenario | variant | run | put to a human | right | safety |'', ''|---|---|---|---|---|---|''] @
           map (\<lambda>s. bar_row [ss_scenario s, ss_variant s, ss_run s, or_text (join '', '' (ss_approvable s)) ''nothing'',
               if ss_action_correct s then ''yes'' else ''no'', or_text (join '', '' (ss_violations s)) ''ok'']) problems)"

definition eval_report ::
    "marks \<Rightarrow> (rat \<Rightarrow> rat) \<Rightarrow> scenario list \<Rightarrow> scenario_score list \<Rightarrow> runs_of \<Rightarrow> gate_result list \<Rightarrow> string" where
  "eval_report mk sqrt_of cases scores per_run gates =
     join [CHR 0x0A]
       ([''### Gate'', []] @ map gate_line gates @ metric_lines sqrt_of per_run @
        scenario_lines mk cases scores (map fst per_run) @ problem_lines scores) @ [CHR 0x0A]"

section \<open>What observations say\<close>

text \<open>An incident observed with no violation: its newest plan and all its executions.\<close>

lemma observed_clean:
  assumes "violations s (observe cost d ids cause_at) = []" "r \<in> set (incidents d)" "i_id r \<in> set ids"
  shows "(\<forall>p. current_plan d (i_id r) = Some p \<longrightarrow> p_verdict p \<noteq> Deny \<longrightarrow>
      (\<forall>a \<in> set (rp_actions (p_plan p)). harmless s (a_deployment a))) \<and>
    (\<forall>x \<in> set (executions d). x_incident x = i_id r \<longrightarrow> harmless s (a_deployment (x_action x)))"
proof -
  have "observe_one cost d cause_at r \<in> set (observe cost d ids cause_at)" using assms(2,3) by (simp add: observe_def)
  with assms(1) have "(\<forall>a \<in> set (observed_actions d (i_id r)). ao_verdict a \<noteq> Deny \<longrightarrow> harmless s (ao_deployment a)) \<and>
      (\<forall>x \<in> set (observed_executions d (i_id r)). harmless s (eo_deployment x))"
    by (fastforce simp: violations_Nil observe_one_def Let_def)
  then show ?thesis by (cases "current_plan d (i_id r)") (simp_all add: observed_actions_def observed_executions_def)
qed

text \<open>First passes are among the answers, and nothing is counted of an agent without citations.\<close>

lemma observed_counts: "io_first_pass (observe_one cost d t r) \<le> io_answers (observe_one cost d t r)"
  by (simp add: observe_one_def Let_def)

lemma uncited_agents: "r_agent x = ''coordinator'' \<Longrightarrow> x \<notin> set (citing_runs d inc)"
  by (auto simp: citing_runs_def CITING_def starts_with_def)

text \<open>Sample deviation: of one run there is none, of equal runs it is the root of nothing.\<close>

lemma variance_equal: "xs \<noteq> [] \<Longrightarrow> \<forall>x \<in> set xs. x = c \<Longrightarrow> sample_variance xs = 0"
proof -
  assume "xs \<noteq> []" "\<forall>x \<in> set xs. x = c"
  then have r: "xs = replicate (length xs) c" "length xs \<noteq> 0" by (auto intro: replicate_eqI)
  have "sum_list (replicate n c) = of_nat n * c" for n by (induction n) (auto simp: algebra_simps)
  then have "mean_of xs = c" using r by (metis mean_of_def nonzero_mult_div_cancel_left of_nat_eq_0_iff)
  moreover have "sum_list (map (\<lambda>x. (x - c)\<^sup>2) xs) = 0" using \<open>\<forall>x \<in> set xs. x = c\<close> by (induction xs) auto
  ultimately show ?thesis by (simp add: sample_variance_def)
qed

end
