(* ===== verification/EvalReplay.thy ===== *)
theory EvalReplay
  imports Collect System
begin

text \<open>
  The evaluation without a lab or a model (\<open>app/eval/replay.py\<close>): the incidents of a recording are
  loaded as they were when they opened and run, one after the other, through the worker's own
  handlers for triage, investigation and planning; the model and the tools answer from the
  recording. Nothing else runs beside it. Time is a function of the statements counted so far.
  Shown: the loop over the queue ends, what it leaves is reached by transactions of the system, and
  nothing was approved or executed.
\<close>

section \<open>Settings\<close>

definition LAB_TARGETS :: "string list" where
  "LAB_TARGETS = [''checkout'', ''payment'', ''product-catalog'', ''recommendation'', ''frontend'', ''cart'', ''currency'', ''shipping'',
     ''ad'', ''email'', ''quote'']"

definition REPLAY_OWNER :: string where
  "REPLAY_OWNER = ''replay''"

definition REPLAY_KINDS :: "string list" where
  "REPLAY_KINDS = [''triage'', ''investigate'', ''plan'']"

text \<open>The variants of the tenants are a field of the services.\<close>

definition settings_for :: "int \<Rightarrow> settings" where
  "settings_for max_steps =
     default_settings\<lparr>agent_max_steps := nat max_steps, remediation_targets := LAB_TARGETS, auto_investigate := True,
       auto_remediate := True\<rparr>"

section \<open>Loading\<close>

definition as_received :: "string \<Rightarrow> incident_row \<Rightarrow> incident_row" where
  "as_received inc r = (if i_id r = inc then r\<lparr>i_state := RECEIVED, i_closed_at := None\<rparr> else r)"

definition reopen :: "string \<Rightarrow> unit tx" where
  "reopen inc d =
     (let rows = map (as_received inc) (incidents d)
      in bindS (guard (distinct (map open_key (filter is_open rows))) IntegrityError) (\<lambda>_. Inr ((), d\<lparr>incidents := rows\<rparr>)))"

fun queue_triage :: "world \<Rightarrow> string list \<Rightarrow> recorded_incident list \<Rightarrow> unit tx" where
  "queue_triage w investigated [] d = Inr ((), d)"
| "queue_triage w investigated (c # cs) d =
     (if ri_id c \<notin> set investigated then queue_triage w investigated cs d
      else bindS (reopen (ri_id c) d) (\<lambda>(_, d1).
           bindS (enqueue w (ri_tenant c) ''triage'' (ri_priority c) 1 0 (Some (ri_id c)) [] (Some (ri_id c @ '':triage'')) 0 d1)
             (\<lambda>(_, d2). queue_triage w investigated cs d2)))"

text \<open>Two transactions: of a failure in the second one the first stays.\<close>

definition load_replay :: "world \<Rightarrow> recording \<Rightarrow> string list \<Rightarrow> db \<Rightarrow> (exn + unit) \<times> db" where
  "load_replay w rec investigated d =
     (case load_incidents rec d of
        Inl e \<Rightarrow> (Inl e, d)
      | Inr (_, d1) \<Rightarrow>
          (case queue_triage w investigated (rc_incidents rec) d1 of Inl e \<Rightarrow> (Inl e, d1) | Inr (_, d2) \<Rightarrow> (Inr (), d2)))"

section \<open>Driving the queue\<close>

text \<open>The handlers by kind; only what was claimed is handled, and only these kinds are claimed.\<close>

definition run_handler ::
    "world \<Rightarrow> settings \<Rightarrow> 's services \<Rightarrow> job \<Rightarrow> 's \<Rightarrow> db \<Rightarrow> handler_end option \<times> 's \<times> db" where
  "run_handler w st sv job s d =
     (if jb_kind job = ''triage''
      then (case triage w st REPLAY_OWNER job d of
              Inl e \<Rightarrow> (Some (Raised e ''''), s, d) | Inr (_, d') \<Rightarrow> (Some Returned, s, d'))
      else if jb_kind job = ''investigate'' then investigate_job w st REPLAY_OWNER sv job s d
      else (case plan_job w st (plan_proposer w st sv job s) job d of (r, d') \<Rightarrow> (Some r, s, d')))"

text \<open>
  How the loop ends: nothing is left, a handler (or the completion of its job) raised, an agent's
  own loop did not end, or the turns given to this loop were used up.
\<close>

datatype drive_end = Drained | DriveRaised handler_end | AgentStuck | NoTurnsLeft

fun drive ::
    "nat \<Rightarrow> (nat \<Rightarrow> world) \<Rightarrow> settings \<Rightarrow> 's services \<Rightarrow> nat \<Rightarrow> 's \<Rightarrow> db \<Rightarrow> drive_end \<times> nat \<times> 's \<times> db" where
  "drive 0 clock st sv k s d = (NoTurnsLeft, k, s, d)"
| "drive (Suc n) clock st sv k s d =
     (case claim (\<lambda>_. False) (clock k) REPLAY_OWNER 600 3 (Some REPLAY_KINDS) d of
        (None, d1) \<Rightarrow> (Drained, Suc k, s, d1)
      | (Some job, d1) \<Rightarrow>
          (case run_handler (clock (Suc k)) st sv job s d1 of
             (None, s2, d2) \<Rightarrow> (AgentStuck, Suc k, s2, d2)
           | (Some Returned, s2, d2) \<Rightarrow>
               (case complete (clock (k + 2)) job d2 of
                  Inl e \<Rightarrow> (DriveRaised (Raised e ''''), k + 2, s2, d2)
                | Inr (_, d3) \<Rightarrow> drive n clock st sv (k + 3) s2 d3)
           | (Some r, s2, d2) \<Rightarrow> (DriveRaised r, Suc k, s2, d2)))"

section \<open>A replay\<close>

text \<open>One turn for each job of the queue and for those that triage and the investigation add.\<close>

definition kind_turns :: "string \<Rightarrow> nat" where
  "kind_turns k = (if k = ''triage'' then 3 else if k = ''investigate'' then 2 else if k = ''plan'' then 1 else 0)"

definition job_turns :: "job_row \<Rightarrow> nat" where
  "job_turns r = (if j_status r = Queued then kind_turns (j_kind r) else 0)"

definition turns_of :: "db \<Rightarrow> nat" where
  "turns_of d = sum_list (map job_turns (jobs d))"

definition DAY :: duration where
  "DAY = 86400"

definition hold_back :: "world \<Rightarrow> string \<Rightarrow> db \<Rightarrow> db" where
  "hold_back w inc d =
     d\<lparr>jobs := sql_update (\<lambda>r. j_incident r = Some inc \<and> j_status r = Queued) (\<lambda>r. r\<lparr>j_run_after := w_now w\<rparr>)
        (sql_update (\<lambda>r. j_incident r \<noteq> None \<and> j_incident r \<noteq> Some inc \<and> j_status r = Queued)
          (\<lambda>r. r\<lparr>j_run_after := w_now w + usecs DAY\<rparr>) (jobs d))\<rparr>"

definition replay_services :: "replay_state services \<Rightarrow> (string \<Rightarrow> string) \<Rightarrow> (string \<times> string) list \<Rightarrow> recording \<Rightarrow> replay_state services" where
  "replay_services sv sha variants rec =
     sv\<lparr>sv_backend := replay_backend sha (rc_llm rec), sv_backend_name := ''replay'', sv_source := replay_fetch,
        sv_tenant_variants := variants, sv_others := (\<lambda>k d. d)\<rparr>"

fun replay_each ::
    "(nat \<Rightarrow> world) \<Rightarrow> settings \<Rightarrow> replay_state services \<Rightarrow> recording \<Rightarrow> nat \<Rightarrow> string list \<Rightarrow> db \<Rightarrow> drive_end \<times> nat \<times> db" where
  "replay_each clock st sv rec k [] d = (Drained, k, d)"
| "replay_each clock st sv rec k (inc # incs) d =
     (let d1 = hold_back (clock k) inc d
      in case drive (Suc (turns_of d1)) clock st sv (Suc k) (replay_init (incident_tools rec inc)) d1 of
           (Drained, k2, s2, d2) \<Rightarrow> replay_each clock st sv rec k2 incs d2
         | (r, k2, s2, d2) \<Rightarrow> (r, k2, d2))"

record replay_outcome =
  rd_observation :: scenario_obs
  rd_llm_misses :: nat
  rd_tool_misses :: nat
  rd_notes :: "string list"

definition investigated_of :: "recording \<Rightarrow> string list" where
  "investigated_of rec = sorted_set (map fst (rc_expected rec))"

definition replay_order :: "recording \<Rightarrow> recorded_incident list" where
  "replay_order rec =
     sort_key (\<lambda>c. (ri_created_at c, ri_id c)) (filter (\<lambda>c. ri_id c \<in> set (map fst (rc_expected rec))) (rc_incidents rec))"

definition variants_of :: "recording \<Rightarrow> string \<Rightarrow> (string \<times> string) list" where
  "variants_of rec variant =
     (if variant = ''default'' then [] else map (\<lambda>t. (t, variant)) (remdups (map ri_tenant (replay_order rec))))"

definition recorded_causes :: "recording \<Rightarrow> string \<Rightarrow> string list" where
  "recorded_causes rec inc =
     (case map_of (rc_expected rec) inc of
        None \<Rightarrow> []
      | Some x \<Rightarrow> (case xp_diagnosis x of Some (BDiagnosis dx) \<Rightarrow> map rc_service (dx_root_causes dx) | _ \<Rightarrow> []))"

definition names_or_none :: "string list \<Rightarrow> string" where
  "names_or_none xs = (if xs = [] then ''none'' else ''['' @ join '', '' (map py_repr xs) @ '']'')"

definition drift_notes :: "recording \<Rightarrow> incident_obs list \<Rightarrow> string list" where
  "drift_notes rec is =
     List.map_filter (\<lambda>i. let was = recorded_causes rec (io_incident i) in
       if was = io_root_causes i then None
       else Some (io_service i @ '': recorded '' @ names_or_none was @ '', replayed '' @ names_or_none (io_root_causes i))) is"

definition misses :: "('a \<Rightarrow> string option) \<Rightarrow> 'a list \<Rightarrow> nat" where
  "misses code rows = length (filter (\<lambda>r. code r = Some ''replay_miss'') rows)"

text \<open>\<open>cause_at\<close>: as recorded, or the first incident's time (an \<open>IndexError\<close> where there is none).\<close>

definition cause_time :: "(string \<Rightarrow> time) \<Rightarrow> recording \<Rightarrow> time option" where
  "cause_time parse rec =
     (case jget (rc_meta rec) ''cause_at'' of
        Some (JStr (c # s)) \<Rightarrow> Some (parse (c # s))
      | _ \<Rightarrow> (case replay_order rec of [] \<Rightarrow> None | r # rs \<Rightarrow> Some (ri_created_at r)))"

definition observation_of ::
    "(llm_call_row \<Rightarrow> rat option) \<Rightarrow> recording \<Rightarrow> string \<Rightarrow> string \<Rightarrow> time \<Rightarrow> db \<Rightarrow> replay_outcome" where
  "observation_of cost rec scenario variant cause_at d =
     (let is = map (\<lambda>i. i\<lparr>io_investigation_s := None\<rparr>) (observe cost d (investigated_of rec) cause_at)
      in \<lparr>rd_observation = \<lparr>so_scenario = scenario, so_variant = variant, so_run = ''replay'', so_incidents = is\<rparr>,
          rd_llm_misses = misses l_error_code (llm_calls d), rd_tool_misses = misses t_error_code (tool_calls d),
          rd_notes = drift_notes rec is\<rparr>)"

datatype replay_error = NotLoaded exn | NotDrained drive_end | NoIncidents

definition eval_replay ::
    "(nat \<Rightarrow> world) \<Rightarrow> replay_state services \<Rightarrow> (string \<Rightarrow> string) \<Rightarrow> (string \<Rightarrow> time) \<Rightarrow> (llm_call_row \<Rightarrow> rat option) \<Rightarrow>
     string \<Rightarrow> string \<Rightarrow> recording \<Rightarrow> db \<Rightarrow> (replay_error + replay_outcome) \<times> db" where
  "eval_replay clock sv sha parse cost scenario variant rec d =
     (case load_replay (clock 0) rec (investigated_of rec) d of
        (Inl e, d1) \<Rightarrow> (Inl (NotLoaded e), d1)
      | (Inr _, d1) \<Rightarrow>
          (case replay_each clock (settings_for (recorded_max_steps rec)) (replay_services sv sha (variants_of rec variant) rec) rec 1
              (map ri_id (replay_order rec)) d1 of
             (Drained, k, d2) \<Rightarrow>
               (case cause_time parse rec of
                  None \<Rightarrow> (Inl NoIncidents, d2)
                | Some t \<Rightarrow> (Inr (observation_of cost rec scenario variant t d2), d2))
           | (r, k, d2) \<Rightarrow> (Inl (NotDrained r), d2)))"

definition describe_replay :: "replay_outcome \<Rightarrow> string" where
  "describe_replay r =
     (let obs = rd_observation r;
          counts = (if rd_llm_misses r \<noteq> 0 \<or> rd_tool_misses r \<noteq> 0
            then dec (rd_llm_misses r) @ '' model / '' @ dec (rd_tool_misses r) @ '' tool misses'' else ''no misses'');
          tops = join '', '' (map (\<lambda>i. io_service i @ '': '' @
            (case top_cause i of None \<Rightarrow> ''none'' | Some c \<Rightarrow> if c = [] then ''none'' else c)) (so_incidents obs))
      in so_scenario obs @ '' ['' @ so_variant obs @ '']: '' @ tops @ ''; '' @ counts @
         concat (map (\<lambda>n. [CHR 0x0A] @ ''  '' @ n) (rd_notes r)))"

section \<open>The loop ends\<close>

text \<open>What the handlers leave alone: approvals, executions and the rows of the queue but for one more.\<close>

definition untouched :: "db \<Rightarrow> db \<Rightarrow> bool" where
  "untouched d d' \<longleftrightarrow> approvals d' = approvals d \<and> executions d' = executions d"

definition adds_job :: "string list \<Rightarrow> db \<Rightarrow> db \<Rightarrow> bool" where
  "adds_job ks d d' \<longleftrightarrow> untouched d d' \<and> (jobs d' = jobs d \<or> (\<exists>r. jobs d' = jobs d @ [r] \<and> j_kind r \<in> set ks))"

lemma adds_refl [simp]: "adds_job ks d d"
  by (simp add: adds_job_def untouched_def)

lemma adds_same: "approvals d' = approvals d \<Longrightarrow> executions d' = executions d \<Longrightarrow> jobs d' = jobs d \<Longrightarrow> adds_job ks d d'"
  by (simp add: adds_job_def untouched_def)

lemma adds_after: "adds_job [] d d1 \<Longrightarrow> adds_job ks d1 d2 \<Longrightarrow> adds_job ks d d2"
  by (auto simp: adds_job_def untouched_def)

lemma adds_before: "adds_job ks d d1 \<Longrightarrow> adds_job [] d1 d2 \<Longrightarrow> adds_job ks d d2"
  by (auto simp: adds_job_def untouched_def)

lemma adds_transition: "transition w i s t v a rs d = Inr (v', d') \<Longrightarrow> adds_job ks d d'"
  using transition_frame [of w i s t v a rs d v' d'] by (simp add: adds_same)

lemma adds_enqueue: "enqueue w tn k p m st inc pl key dl d = Inr (r, d') \<Longrightarrow> k \<in> set ks \<Longrightarrow> adds_job ks d d'"
  by (drule enqueue_Inr) (auto simp: adds_job_def untouched_def queued_row_def)

lemma adds_triage: "triage w st wid job d = Inr (r, d') \<Longrightarrow> adds_job [''investigate''] d d'"
  by (auto simp: triage_def tx_simps enqueue_for_def split: option.splits if_splits
      dest!: adds_transition [where ks = "[]"] adds_enqueue [where ks = "[''investigate'']"] intro: adds_after adds_before)

lemma adds_begin: "investigate_begin w actor job inc d = Inr (x, d1) \<Longrightarrow> adds_job ks d d1"
  by (auto simp: investigate_begin_def tx_simps split: option.splits if_splits dest: adds_transition)

lemma adds_commit: "investigate_commit w st actor job v version oc d = Inr (u, d1) \<Longrightarrow> adds_job [''plan''] d d1"
  by (auto simp: investigate_commit_def tx_simps split: option.splits list.splits if_splits
      dest!: adds_transition [where ks = "[]"] adds_enqueue [where ks = "[''plan'']"] intro: adds_after adds_before)

lemma agents_add_nothing:
  assumes "\<And>k x. dp_others dp k x = x"
  shows "kept_by_agents (adds_job [] d) UNIV inc dp"
  unfolding kept_by_agents_def assms
  by (auto simp: adds_job_def untouched_def evidence_save_def pg_record_llm_call_def pg_start_run_def pg_fail_run_def pg_finish_run_def
      Let_def split: option.splits)

lemma adds_investigate:
  assumes "\<And>k x. sv_others sv k x = x" "investigate_job w st wid sv job s d = (r, s', d')"
  shows "adds_job [''plan''] d d'"
  using assms(2)
proof (cases rule: investigate_job_ends)
  case (2 iid y d1)
  with adds_begin show ?thesis by (auto intro: adds_after)
next
  case (3 iid version v variant env d1 res st1 aw)
  have oth: "dp_others (ie_deps env) k x = x" for k x
    using assms(1) by (simp add: 3 services_env_def services_deps_def)
  have "keeps_I (adds_job [] d1) (investigate env v)" by (rule investigate_keeps [OF agents_add_nothing]) (rule oth)
  from this [unfolded spec_of_def, rule_format, of "\<lparr>is_world = \<lparr>aw_ext = s, aw_tick = 0, aw_db = d1\<rparr>, is_agents = []\<rparr>"] 3(3)
  have "adds_job [] d1 (db_of st1)" by (simp add: db_of_def split: sum.splits)
  with adds_begin [OF 3(1)] have 1: "adds_job [] d (db_of st1)" by (rule adds_after)
  have "aw_db aw = db_of st1" unfolding 3(4) by (simp add: sync_def db_of_def oth)
  with 3(5) 1 adds_commit show ?thesis by (auto intro: adds_after)
qed simp

lemma adds_submit:
  assumes "submit w st inc plan who actor d = Inr (r, d')"
  shows "adds_job [''execute'', ''approval_timeout''] d d'"
proof -
  have ins: "adds_job [] d d1" if "insert_plan w st inc plan by dn d = Inr (row, d1)" for "by" dn row d1
    using insert_plan_Inr [OF that] by (simp add: adds_same)
  have aud: "adds_job [] d d1" if "audit_append w a e s t p d = Inr (h, d1)" for w a e s t p d h d1
    using that by (auto simp: audit_append_def Let_def split: if_splits intro!: adds_same)
  have fe: "adds_job [''execute'', ''approval_timeout''] d d1"
    if "flow_enqueue w st inc k pid dl d = Inr (u, d1)" "k = ''execute'' \<or> k = ''approval_timeout''" for k pid dl d u d1
    using that by (auto simp: flow_enqueue_def enqueue_for_def tx_simps intro: adds_enqueue)
  have ver: "adds_job [''execute'', ''approval_timeout''] d d1" if "submit_verdict w st inc dn row v d = Inr (s, d1)" for dn row v d s d1
    using that
    by (auto simp: submit_verdict_def tx_simps split: verdict.splits intro: adds_after [OF adds_transition] fe adds_transition)
  from assms show ?thesis
    by (auto simp: submit_def Let_def tx_simps dest!: ins aud adds_transition [where ks = "[]"] ver) (meson adds_after)
qed

lemma adds_plan_job:
  assumes "\<And>k x. sv_others sv k x = x" "plan_job w st (plan_proposer w st sv job s) job d = (r, d')"
  shows "adds_job [''execute'', ''approval_timeout''] d d'"
proof -
  have asked: "adds_job [] d d1" if "plan_proposer w st sv job s inc dx d = (p, d1)" for inc dx p d1
  proof -
    let ?env = "services_env w st sv job (incident_view d inc) DEFAULT_VARIANT"
    have "dp_others (ie_deps ?env) k x = x" for k x
      using assms(1) by (simp add: services_env_def services_deps_def)
    note k = agents_add_nothing [OF this]
    have "keeps_I (adds_job [] d) (propose ?env (planner_max_steps st) (incident_view d inc) dx)"
      by (rule keeps_propose [OF k]) simp
    from this [unfolded spec_of_def, rule_format, of "\<lparr>is_world = \<lparr>aw_ext = s, aw_tick = 0, aw_db = d\<rparr>, is_agents = []\<rparr>"] that
    show ?thesis by (auto simp: plan_proposer_def Let_def db_of_def split: prod.splits sum.splits)
  qed
  have com: "adds_job [''execute'', ''approval_timeout''] d d2"
    if "adds_job [] d d1" "plan_commit w st job iid prp d1 = Inr (u, d2)" for d1 iid prp u d2
  proof -
    have "adds_job [''execute'', ''approval_timeout''] d1 d2"
      using that(2) by (auto simp: plan_commit_def tx_simps split: option.splits if_splits dest: adds_transition adds_submit)
    with that(1) show ?thesis by (rule adds_after)
  qed
  have "adds_job [''execute'', ''approval_timeout''] d d1" if "adds_job [] d d1" for d1
    using that adds_refl by (rule adds_after)
  then show ?thesis
    using assms(2)
    by (auto simp: plan_job_def Let_def split: sum.splits option.splits if_splits prod.splits planner_end.splits
        dest!: asked intro: com com [OF adds_refl])
qed

lemma run_handler_adds:
  assumes "\<And>k x. sv_others sv k x = x" "run_handler w st sv job s d = (r, s', d')"
  obtains ks where "adds_job ks d d'" "jb_kind job \<in> set REPLAY_KINDS \<longrightarrow> (\<forall>k \<in> set ks. kind_turns k < kind_turns (jb_kind job))"
proof -
  consider "jb_kind job = ''triage''" | "jb_kind job = ''investigate''" | "jb_kind job \<noteq> ''triage''" "jb_kind job \<noteq> ''investigate''" by blast
  then show thesis
  proof cases
    case 1
    with assms(2) have "adds_job [''investigate''] d d'"
      by (auto simp: run_handler_def split: sum.splits prod.splits dest: adds_triage)
    with 1 show thesis by (intro that [of "[''investigate'']"]) (simp_all add: kind_turns_def)
  next
    case 2
    with assms(2) have "investigate_job w st REPLAY_OWNER sv job s d = (r, s', d')" by (simp add: run_handler_def)
    from adds_investigate [OF assms(1) this] 2 show thesis by (intro that [of "[''plan'']"]) (simp_all add: kind_turns_def)
  next
    case 3
    with assms(2) obtain q where "plan_job w st (plan_proposer w st sv job s) job d = (q, d')"
      by (auto simp: run_handler_def split: prod.splits)
    from adds_plan_job [OF assms(1) this] 3 show thesis
      by (intro that [of "[''execute'', ''approval_timeout'']"]) (simp_all add: kind_turns_def REPLAY_KINDS_def)
  qed
qed

lemma adds_turns: "adds_job ks d d' \<Longrightarrow> (\<And>k. k \<in> set ks \<Longrightarrow> kind_turns k \<le> b) \<Longrightarrow> turns_of d' \<le> turns_of d + b"
  by (auto simp: adds_job_def turns_of_def job_turns_def)

lemma turns_update: "(\<And>x. job_turns (f x) = 0) \<Longrightarrow> sum_list (map job_turns (sql_update p f rows)) \<le> sum_list (map job_turns rows)"
  by (induction rows) (auto simp: add_mono le_add2)

lemma turns_update_one:
  assumes "\<And>x. job_turns (f x) = 0" "r \<in> set rows" "p r"
  shows "sum_list (map job_turns (sql_update p f rows)) + job_turns r \<le> sum_list (map job_turns rows)"
  using assms(2)
proof (induction rows)
  case (Cons x rows)
  then show ?case
  proof (cases "x = r")
    case True
    with turns_update [of f p rows] assms(1,3) show ?thesis by simp
  next
    case False
    with Cons have "sum_list (map job_turns (sql_update p f rows)) + job_turns r \<le> sum_list (map job_turns rows)" by simp
    with assms(1) show ?thesis by (auto simp: add.assoc)
  qed
qed simp

lemma claim_turns:
  assumes "claim locked w owner ttl mp (Some REPLAY_KINDS) d = (Some job, d1)"
  shows "turns_of d1 + kind_turns (jb_kind job) \<le> turns_of d" "jb_kind job \<in> set REPLAY_KINDS" "adds_job [] (d\<lparr>jobs := jobs d1\<rparr>) d1"
proof -
  obtain r where r: "least_by claim_order (claimable locked (w_now w) mp (Some REPLAY_KINDS) d) = Some r"
    "job = from_row (w_now w) (lease w owner ttl r)" "d1 = d\<lparr>jobs := sql_update (\<lambda>x. j_id x = j_id r) (lease w owner ttl) (jobs d)\<rparr>"
    using assms by (auto simp: claim_def split: option.splits)
  note m = claimable_mem [OF least_by_mem [OF r(1)]]
  have k: "jb_kind job = j_kind r" by (simp add: r(2) from_row_def lease_def)
  with m show "jb_kind job \<in> set REPLAY_KINDS" by (simp add: REPLAY_KINDS_def)
  have "job_turns (lease w owner ttl x) = 0" for x by (simp add: job_turns_def lease_def)
  from turns_update_one [where f = "lease w owner ttl", OF this, of r "jobs d" "\<lambda>x. j_id x = j_id r"] m
  show "turns_of d1 + kind_turns (jb_kind job) \<le> turns_of d" by (simp add: turns_of_def r(3) k job_turns_def)
  show "adds_job [] (d\<lparr>jobs := jobs d1\<rparr>) d1" by (simp add: adds_job_def untouched_def r(3))
qed

lemma complete_turns: "complete w job d = Inr (u, d') \<Longrightarrow> turns_of d' \<le> turns_of d"
  by (auto simp: complete_def finish_def update_owned_def turns_of_def job_turns_def finished_row_def set_done_def
      split: if_splits intro!: turns_update)

lemma drive_ends:
  assumes "\<And>k x. sv_others sv k x = x"
  shows "turns_of d < n \<Longrightarrow> fst (drive n clock st sv k s d) \<noteq> NoTurnsLeft"
proof (induction n arbitrary: k s d)
  case (Suc n)
  show ?case
  proof (cases "claim (\<lambda>_. False) (clock k) REPLAY_OWNER 600 3 (Some REPLAY_KINDS) d")
    case c: (Pair oj d1)
    show ?thesis
    proof (cases oj)
      case (Some job)
      note t = claim_turns [OF c [unfolded Some]]
      obtain r s2 d2 where h: "run_handler (clock (Suc k)) st sv job s d1 = (r, s2, d2)" by (metis prod_cases3)
      obtain ks where ks: "adds_job ks d1 d2"
        "jb_kind job \<in> set REPLAY_KINDS \<longrightarrow> (\<forall>k \<in> set ks. kind_turns k < kind_turns (jb_kind job))"
        by (rule run_handler_adds [OF assms h])
      note ks(1)
      moreover have "\<forall>k \<in> set ks. kind_turns k < kind_turns (jb_kind job)" using ks(2) t(2) by blast
      moreover have "0 < kind_turns (jb_kind job)" using t(2) by (auto simp: REPLAY_KINDS_def kind_turns_def)
      ultimately have "turns_of d2 \<le> turns_of d1 + (kind_turns (jb_kind job) - 1)"
        by (intro adds_turns) fastforce+
      with t(1) \<open>0 < kind_turns (jb_kind job)\<close> Suc.prems have less: "turns_of d2 < n" by linarith
      have "fst (drive n clock st sv k' s' d3) \<noteq> NoTurnsLeft" if "complete (clock (k + 2)) job d2 = Inr (u, d3)" for u d3 k' s'
        using complete_turns [OF that] less by (intro Suc.IH) linarith
      then show ?thesis by (auto simp: c Some h split: option.splits handler_end.splits sum.splits)
    qed (simp add: c)
  qed
qed simp

section \<open>What a replay leaves\<close>

lemma claim_untouched: "claim locked w owner ttl mp ks d = (r, d') \<Longrightarrow> untouched d d'"
  by (auto simp: claim_def untouched_def split: option.splits)

lemma complete_untouched: "complete w job d = Inr (u, d') \<Longrightarrow> untouched d d'"
  by (auto simp: complete_def finish_def update_owned_def untouched_def split: if_splits)

lemma untouched_trans: "untouched a b \<Longrightarrow> untouched b c \<Longrightarrow> untouched a c"
  by (simp add: untouched_def)

lemma run_handler_run:
  assumes "\<And>k x. sv_others sv k x = x" "run_handler w st sv job s d = (r, s', d')"
  shows "sys_step\<^sup>*\<^sup>* d d'"
  using assms investigate_job_run [of sv w st REPLAY_OWNER job s d] plan_job_run [of sv w st job s d]
  by (auto simp: run_handler_def split: sum.splits prod.splits if_splits intro: y_triage)

lemma complete_step: "complete w job d = Inr (u, d') \<Longrightarrow> sys_step d d'"
  by (rule y_job_end [of 0 w default_settings "[]" False job Returned d ODone]) simp

text \<open>A drive is a run of the system that approves nothing and executes nothing.\<close>

lemma drive_run:
  assumes "\<And>k x. sv_others sv k x = x"
  shows "drive n clock st sv k s d = (r, k', s', d') \<Longrightarrow> sys_step\<^sup>*\<^sup>* d d' \<and> untouched d d'"
proof (induction n arbitrary: k s d)
  case (Suc n)
  obtain oj d1 where c: "claim (\<lambda>_. False) (clock k) REPLAY_OWNER 600 3 (Some REPLAY_KINDS) d = (oj, d1)" by (metis prod.collapse)
  have s1: "sys_step d d1" and u1: "untouched d d1" using c by (auto intro: y_claim claim_untouched)
  show ?case
  proof (cases oj)
    case None
    with Suc.prems s1 u1 show ?thesis by (auto simp: c)
  next
    case (Some job)
    obtain h s2 d2 where h: "run_handler (clock (Suc k)) st sv job s d1 = (h, s2, d2)" by (metis prod_cases3)
    obtain ks where "adds_job ks d1 d2" by (rule run_handler_adds [OF assms h])
    with u1 have u2: "untouched d d2" by (auto simp: adds_job_def intro: untouched_trans)
    have s2: "sys_step\<^sup>*\<^sup>* d d2" using s1 run_handler_run [OF assms h] by (rule converse_rtranclp_into_rtranclp)
    have fin: "sys_step\<^sup>*\<^sup>* d d' \<and> untouched d d'"
      if "complete (clock (k + 2)) job d2 = Inr (u, d3)" "drive n clock st sv (k + 3) s2 d3 = (r, k', s', d')" for u d3
    proof -
      have "sys_step\<^sup>*\<^sup>* d d3" "untouched d d3"
        using that(1) s2 u2 by (auto intro: rtranclp.rtrancl_into_rtrancl complete_step complete_untouched untouched_trans)
      with Suc.IH [OF that(2)] show ?thesis by (auto intro: rtranclp_trans untouched_trans)
    qed
    from Suc.prems show ?thesis
      using s2 u2 fin by (auto simp: c Some h split: option.splits handler_end.splits sum.splits)
  qed
qed (simp add: untouched_def)

lemma hold_back_untouched: "untouched d (hold_back w inc d)"
  by (simp add: hold_back_def untouched_def)

lemma replay_each_run:
  assumes "\<And>k x. sv_others sv k x = x"
  shows "replay_each clock st sv rec k incs d = (r, k', d') \<Longrightarrow> untouched d d' \<and> r \<noteq> NoTurnsLeft"
proof (induction incs arbitrary: k d)
  case (Cons inc incs)
  let ?d1 = "hold_back (clock k) inc d"
  obtain q k2 s2 d2 where e: "drive (Suc (turns_of ?d1)) clock st sv (Suc k) (replay_init (incident_tools rec inc)) ?d1 = (q, k2, s2, d2)"
    by (metis prod_cases4)
  have u: "untouched d d2" using drive_run [OF assms e] hold_back_untouched by (blast intro: untouched_trans)
  have q: "q \<noteq> NoTurnsLeft" using drive_ends [OF assms lessI, of ?d1 clock st "Suc k" "replay_init (incident_tools rec inc)"]
    unfolding e by simp
  show ?case
  proof (cases "q = Drained")
    case True
    with Cons.prems have "replay_each clock st sv rec k2 incs d2 = (r, k', d')" by (simp add: e Let_def del: drive.simps)
    from Cons.IH [OF this] u show ?thesis by (blast intro: untouched_trans)
  next
    case False
    with Cons.prems have "r = q" "d' = d2" by (auto simp: e Let_def simp del: drive.simps split: drive_end.splits)
    with u q show ?thesis by simp
  qed
qed (simp add: untouched_def)

lemma load_rows_untouched: "load_rows rec cs d = Inr (u, d') \<Longrightarrow> untouched d d'"
proof (induction cs arbitrary: d)
  case (Cons c cs)
  obtain d1 where d1: "d1 = first_alert rec c (d\<lparr>incidents := incidents d @ [restored c]\<rparr>)" by blast
  have "load_rows rec cs d1 = Inr (u, d')"
    using Cons.prems by (auto simp: insert_incident_def tx_simps d1 guard_Inr bindS_Inr_iff)
  from Cons.IH [OF this] show ?case by (simp add: d1 untouched_def first_alert_def split: option.splits)
qed (simp add: untouched_def)

lemma queue_triage_untouched: "queue_triage w ids cs d = Inr (u, d') \<Longrightarrow> untouched d d'"
proof (induction cs arbitrary: d)
  case (Cons c cs)
  show ?case
  proof (cases "ri_id c \<in> set ids")
    case True
    with Cons.prems obtain d1 d2 n where 1: "reopen (ri_id c) d = Inr ((), d1)"
      "enqueue w (ri_tenant c) ''triage'' (ri_priority c) 1 0 (Some (ri_id c)) [] (Some (ri_id c @ '':triage'')) 0 d1 = Inr (n, d2)"
      "queue_triage w ids cs d2 = Inr (u, d')"
      by (auto simp: bindS_Inr_iff)
    from 1(1) have "untouched d d1" by (auto simp: reopen_def Let_def bindS_Inr_iff untouched_def)
    moreover have "untouched d1 d2" using adds_enqueue [OF 1(2), of "[''triage'']"] by (simp add: adds_job_def)
    ultimately show ?thesis using Cons.IH [OF 1(3)] by (blast intro: untouched_trans)
  next
    case False
    with Cons show ?thesis by simp
  qed
qed (simp add: untouched_def)

lemma load_replay_untouched: "load_replay w rec ids d = (r, d') \<Longrightarrow> untouched d d'"
  by (auto simp: load_replay_def load_incidents_def untouched_def split: sum.splits
      dest!: load_rows_untouched queue_triage_untouched)

lemma eval_replay_changes_nothing:
  assumes "eval_replay clock sv sha parse cost scenario variant rec d = (res, d')"
  shows "untouched d d' \<and> res \<noteq> Inl (NotDrained NoTurnsLeft) \<and>
    (executions d = [] \<longrightarrow> (\<forall>x. res = Inr x \<longrightarrow> list_all (\<lambda>i. io_executions i = []) (so_incidents (rd_observation x))))"
proof -
  have oth: "sv_others (replay_services sv sha vs rec) k x = x" for vs k x by (simp add: replay_services_def)
  obtain l d1 where l: "load_replay (clock 0) rec (investigated_of rec) d = (l, d1)" by (metis prod.collapse)
  obtain r k2 d2 where e: "replay_each clock (settings_for (recorded_max_steps rec)) (replay_services sv sha (variants_of rec variant) rec)
      rec 1 (map ri_id (replay_order rec)) d1 = (r, k2, d2)" by (metis prod_cases3)
  note run = replay_each_run [OF oth e] and u = load_replay_untouched [OF l]
  have no: "list_all (\<lambda>i. io_executions i = []) (so_incidents (rd_observation (observation_of cost rec scenario variant t d2)))"
    if "executions d2 = []" for t
    using that by (simp add: observation_of_def Let_def list_all_iff observe_def observe_one_def observed_executions_def)
  have "untouched d d2" using u run by (blast intro: untouched_trans)
  with u run no assms show ?thesis
    by (auto simp: eval_replay_def l e [unfolded One_nat_def] untouched_def split: sum.splits drive_end.splits option.splits)
qed

end
