(* ===== verification/Gauges.thy ===== *)
theory Gauges
  imports Ingest
begin

text \<open>
  The state of the database as gauges (\<open>app/obs/state.py\<close>), read when the API is scraped
  (\<open>app/api/metrics.py\<close>). The order of the groups of a GROUP BY is left to Postgres; here it is that
  of the first row. Shown: every priority is always reported, with the age of its oldest row or
  zero, and the families count every row once.
\<close>

section \<open>Families\<close>

record gauge =
  gg_name :: string
  gg_labels :: "string list"
  gg_samples :: "(string list \<times> rat) list"

definition UNDIAGNOSED :: "istate list" where
  "UNDIAGNOSED = [RECEIVED, TRIAGED, INVESTIGATING]"

text \<open>\<open>GROUP BY\<close> with \<open>count(*)\<close> and with \<open>min\<close>.\<close>

definition count_by :: "('a \<Rightarrow> 'k) \<Rightarrow> 'a list \<Rightarrow> ('k \<times> nat) list" where
  "count_by key rows = map (\<lambda>k. (k, length (filter (\<lambda>r. key r = k) rows))) (remdups (map key rows))"

definition oldest_by :: "('a \<Rightarrow> nat) \<Rightarrow> ('a \<Rightarrow> time) \<Rightarrow> 'a list \<Rightarrow> (nat \<times> time) list" where
  "oldest_by key since rows = map (\<lambda>k. (k, Min (since ` set (filter (\<lambda>r. key r = k) rows)))) (remdups (map key rows))"

definition age_s :: "time \<Rightarrow> time \<Rightarrow> rat" where
  "age_s now t = of_int (now - t) / 1000000"

definition round_ms :: "rat \<Rightarrow> rat" where
  "round_ms x = of_int (round_even (x * 1000)) / 1000"

definition per_priority :: "(nat \<times> rat) list \<Rightarrow> (string list \<times> rat) list" where
  "per_priority values =
     map (\<lambda>(i, name). ([name], round_ms (case map_of values i of None \<Rightarrow> 0 | Some v \<Rightarrow> v))) (enumerate 0 PRIORITY_NAMES)"

fun job_status_text :: "job_status \<Rightarrow> string" where
  "job_status_text Queued = ''queued''"
| "job_status_text Running = ''running''"
| "job_status_text Done = ''done''"
| "job_status_text Dead = ''dead''"

definition jobs_gauge :: "db \<Rightarrow> gauge" where
  "jobs_gauge d =
     \<lparr>gg_name = ''sre_queue_jobs'', gg_labels = [''kind'', ''status'', ''priority''],
      gg_samples = map (\<lambda>((k, s, p), n). ([k, job_status_text s, PRIORITY_NAMES ! p], of_nat n))
        (count_by (\<lambda>r. (j_kind r, j_status r, j_priority r)) (filter (\<lambda>r. j_status r \<noteq> Done) (jobs d)))\<rparr>"

definition ready_jobs :: "time \<Rightarrow> db \<Rightarrow> job_row list" where
  "ready_jobs now d = filter (\<lambda>r. j_status r = Queued \<and> j_run_after r \<le> now) (jobs d)"

definition ages :: "time \<Rightarrow> (nat \<times> time) list \<Rightarrow> (nat \<times> rat) list" where
  "ages now rows = map (\<lambda>(p, t). (p, age_s now t)) rows"

definition ready_gauge :: "time \<Rightarrow> db \<Rightarrow> gauge" where
  "ready_gauge now d =
     \<lparr>gg_name = ''sre_queue_ready_oldest_seconds'', gg_labels = [''priority''],
      gg_samples = per_priority (ages now (oldest_by j_priority j_run_after (ready_jobs now d)))\<rparr>"

definition open_gauge :: "db \<Rightarrow> gauge" where
  "open_gauge d =
     \<lparr>gg_name = ''sre_incidents_open'', gg_labels = [''state'', ''priority''],
      gg_samples = map (\<lambda>((s, p), n). ([istate_text s, PRIORITY_NAMES ! p], of_nat n))
        (count_by (\<lambda>r. (i_state r, i_priority r)) (filter (\<lambda>r. i_closed_at r = None) (incidents d)))\<rparr>"

definition undiagnosed :: "db \<Rightarrow> incident_row list" where
  "undiagnosed d = filter (\<lambda>r. i_closed_at r = None \<and> i_state r \<in> set UNDIAGNOSED) (incidents d)"

definition undiagnosed_gauge :: "time \<Rightarrow> db \<Rightarrow> gauge" where
  "undiagnosed_gauge now d =
     \<lparr>gg_name = ''sre_incidents_undiagnosed_oldest_seconds'', gg_labels = [''priority''],
      gg_samples = per_priority (ages now (oldest_by i_priority i_created_at (undiagnosed d)))\<rparr>"

definition approval_gauge :: "time \<Rightarrow> db \<Rightarrow> gauge" where
  "approval_gauge now d =
     (let waiting = filter (\<lambda>r. i_state r = AWAITING_APPROVAL) (incidents d)
      in \<lparr>gg_name = ''sre_approvals_pending_oldest_seconds'', gg_labels = [],
          gg_samples = [([], if waiting = [] then 0 else age_s now (Min (i_updated_at ` set waiting)))]\<rparr>)"

definition read_gauges :: "time \<Rightarrow> db \<Rightarrow> gauge list" where
  "read_gauges now d = [jobs_gauge d, ready_gauge now d, open_gauge d, undiagnosed_gauge now d, approval_gauge now d]"

text \<open>\<open>render\<close>: None for a database that does not answer.\<close>

definition rendered_gauges :: "time \<Rightarrow> db option \<Rightarrow> gauge list" where
  "rendered_gauges now conn =
     (let up = (\<lambda>v. \<lparr>gg_name = ''sre_state_up'', gg_labels = [], gg_samples = [([], v)]\<rparr>)
      in case conn of None \<Rightarrow> [up 0] | Some d \<Rightarrow> read_gauges now d @ [up 1])"

section \<open>Every priority has its value\<close>

lemma per_priority_names: "map fst (per_priority vs) = map (\<lambda>p. [p]) PRIORITY_NAMES"
  by (simp add: per_priority_def PRIORITY_NAMES_def)

lemma map_of_oldest: "map_of (ages now (oldest_by key since rows)) p =
    (if \<exists>r \<in> set rows. key r = p then Some (age_s now (Min (since ` {r \<in> set rows. key r = p}))) else None)"
proof -
  have "map_of (map (\<lambda>k. (k, f k)) ks) p = (if p \<in> set ks then Some (f p) else None)" for f :: "nat \<Rightarrow> rat" and ks
    by (induction ks) auto
  from this [of "\<lambda>k. age_s now (Min (since ` set (filter (\<lambda>r. key r = k) rows)))" "remdups (map key rows)"]
  show ?thesis by (auto simp: ages_def oldest_by_def comp_def case_prod_beta image_iff)
qed

text \<open>The value of a priority: the greatest age among its rows, to the millisecond; zero without one.\<close>

lemma oldest_age:
  assumes "r \<in> set rows" "key r = p" "\<forall>x \<in> set rows. key x = p \<longrightarrow> since r \<le> since x"
  shows "map_of (ages now (oldest_by key since rows)) p = Some (age_s now (since r))"
proof -
  have "Min (since ` {x \<in> set rows. key x = p}) = since r" by (rule Min_eqI) (use assms in auto)
  with assms(1,2) show ?thesis by (auto simp: map_of_oldest)
qed

lemma sum_count_by: "sum_list (map snd (count_by key rows)) = length rows"
proof -
  have "sum_list (map snd (count_by key rows)) = (\<Sum>k \<in> set (map key rows). length (filter (\<lambda>r. key r = k) rows))"
    by (simp add: count_by_def comp_def sum_list_distinct_conv_sum_set)
  also have "\<dots> = length rows"
  proof (induction rows)
    case (Cons r rows)
    have "(\<Sum>k \<in> insert (key r) (key ` set rows). length (filter (\<lambda>x. key x = k) (r # rows))) =
        (\<Sum>k \<in> insert (key r) (key ` set rows). (if key r = k then 1 else 0) + length (filter (\<lambda>x. key x = k) rows))"
      by (rule sum.cong) auto
    also have "\<dots> = 1 + (\<Sum>k \<in> insert (key r) (key ` set rows). length (filter (\<lambda>x. key x = k) rows))"
      by (simp add: sum.distrib)
    also have "(\<Sum>k \<in> insert (key r) (key ` set rows). length (filter (\<lambda>x. key x = k) rows)) =
        (\<Sum>k \<in> key ` set rows. length (filter (\<lambda>x. key x = k) rows))"
      by (rule sum.mono_neutral_right) (auto simp: filter_empty_conv)
    finally show ?case using Cons by simp
  qed simp
  finally show ?thesis .
qed

lemma jobs_gauge_counts: "sum_list (map snd (gg_samples (jobs_gauge d))) = of_nat (length (filter (\<lambda>r. j_status r \<noteq> Done) (jobs d)))"
proof -
  have "sum_list (map snd (map (\<lambda>((k, s, p), n). ([k, job_status_text s, PRIORITY_NAMES ! p], rat_of_nat n)) xs)) = rat_of_nat (sum_list (map snd xs))"
    for xs :: "((string \<times> job_status \<times> nat) \<times> nat) list"
    by (induction xs) auto
  then show ?thesis unfolding jobs_gauge_def gauge.simps by (simp only: sum_count_by)
qed

end
