(* ===== verification/CaseExport.thy ===== *)
theory CaseExport
  imports Reports
begin

text \<open>
  One incident as the console sees it, in a file (\<open>app/console/export.py\<close>): every answer the
  incident page reads, asked of the API in-process with a viewer's token of the incident's tenant.
  The incident is finished, so all requests read one state; each has a time of its own. Shown: an
  export of a consistent database succeeds while its token is valid, and it holds evidence of the
  incident's tenant only.
\<close>

section \<open>The two other routes it reads\<close>

definition plans_request ::
    "'tok jwt_lib \<Rightarrow> token_settings \<Rightarrow> int \<Rightarrow> 'tok option \<Rightarrow> db \<Rightarrow> string \<Rightarrow>
       exn + (plan_row \<times> approval_row option \<times> execution_row list) list" where
  "plans_request lib ts now credentials d inc =
     bindS (authorized lib ts now credentials ''viewer'') (\<lambda>p. api_list_plans d (pr_tenant p) inc)"

definition audit_request :: "'tok jwt_lib \<Rightarrow> token_settings \<Rightarrow> int \<Rightarrow> 'tok option \<Rightarrow> db \<Rightarrow> string \<Rightarrow> exn + audit_row list" where
  "audit_request lib ts now credentials d inc =
     bindS (authorized lib ts now credentials ''viewer'') (\<lambda>p. api_incident_audit d (pr_tenant p) inc)"

section \<open>The export\<close>

definition EXPORT_FORMAT :: nat where
  "EXPORT_FORMAT = 1"

definition MAX_RESULT_BYTES :: nat where
  "MAX_RESULT_BYTES = 64 * 1024"

text \<open>An answer by its path; of evidence that is too big the result is left out, and said to be.\<close>

datatype response =
    ListResponse "incident_answer list"
  | AnswerResponse incident_answer
  | PlansResponse "(plan_row \<times> approval_row option \<times> execution_row list) list"
  | AuditResponse "audit_row list"
  | EvidenceResponse evidence_row bool

datatype export_error = NotFound | NotMinted sec_error | BadStatus exn

record case_file =
  cf_format :: nat
  cf_incident :: string
  cf_exported_at :: string
  cf_responses :: "(string \<times> response) list"

text \<open>\<open>raise_for_status\<close>\<close>

definition raise_for_status :: "exn + 'a \<Rightarrow> export_error + 'a" where
  "raise_for_status r = (case r of Inl e \<Rightarrow> Inl (BadStatus e) | Inr a \<Rightarrow> Inr a)"

definition incident_path :: "string \<Rightarrow> string" where
  "incident_path inc = ''/api/v1/incidents/'' @ inc"

definition cited_evidence :: "run_node list \<Rightarrow> string list" where
  "cited_evidence tree =
     sorted_set (List.map_filter t_evidence (concat (map sn_tools (concat (map rn_llm_calls tree)))))"

definition shown_evidence :: "nat \<Rightarrow> evidence_row \<Rightarrow> response" where
  "shown_evidence max_bytes e =
     (if max_bytes < e_result_bytes e then EvidenceResponse (e\<lparr>e_result := JNull\<rparr>) True else EvidenceResponse e False)"

primrec evidence_responses ::
    "(nat \<Rightarrow> string \<Rightarrow> export_error + evidence_row) \<Rightarrow> nat \<Rightarrow> nat \<Rightarrow> string list \<Rightarrow> export_error + (string \<times> response) list" where
  "evidence_responses ask max_bytes n [] = Inr []"
| "evidence_responses ask max_bytes n (ev # evs) =
     bindS (ask n ev) (\<lambda>e. bindS (evidence_responses ask max_bytes (Suc n) evs) (\<lambda>rest.
       Inr ((evidence_url ev, shown_evidence max_bytes e) # rest)))"

text \<open>\<open>clock n\<close> is the time of the n-th request.\<close>

definition export_with ::
    "'tok jwt_lib \<Rightarrow> token_settings \<Rightarrow> (nat \<Rightarrow> int) \<Rightarrow> 'tok \<Rightarrow> (string \<Rightarrow> time \<Rightarrow> string) \<Rightarrow> columns \<Rightarrow> db \<Rightarrow> nat \<Rightarrow> string \<Rightarrow>
       export_error + (string \<times> response) list" where
  "export_with lib ts clock token strftime cn d max_bytes inc =
     (let ask = (\<lambda>n route. raise_for_status (read_request lib ts (clock n) (Some token) strftime cn d route inc));
          base = incident_path inc
      in bindS (ask 0 GetIncident) (\<lambda>incident.
         bindS (ask 1 GetDiagnosis) (\<lambda>diagnosis.
         bindS (ask 2 GetAgents) (\<lambda>agents.
         bindS (raise_for_status (plans_request lib ts (clock 3) (Some token) d inc)) (\<lambda>plans.
         bindS (raise_for_status (audit_request lib ts (clock 4) (Some token) d inc)) (\<lambda>audit.
         bindS (evidence_responses (\<lambda>n ev. raise_for_status (evidence_request lib ts (clock n) (Some token) d ev)) max_bytes 5
             (case agents of AgentsOut tree \<Rightarrow> cited_evidence tree | _ \<Rightarrow> [])) (\<lambda>evidence.
           Inr ([(''/api/v1/incidents'', ListResponse [incident]), (base, AnswerResponse incident),
                 (base @ ''/diagnosis'', AnswerResponse diagnosis), (base @ ''/agents'', AnswerResponse agents),
                 (base @ ''/plans'', PlansResponse plans), (base @ ''/audit'', AuditResponse audit)] @ evidence))))))))"

definition export_case ::
    "'tok jwt_lib \<Rightarrow> token_settings \<Rightarrow> int \<Rightarrow> (nat \<Rightarrow> int) \<Rightarrow> (string \<Rightarrow> time \<Rightarrow> string) \<Rightarrow> columns \<Rightarrow> string \<Rightarrow> db \<Rightarrow> nat \<Rightarrow> string \<Rightarrow>
       export_error + case_file" where
  "export_case lib ts now clock strftime cn stamp d max_bytes inc =
     (case incidents_get d inc None of
        None \<Rightarrow> Inl NotFound
      | Some row \<Rightarrow>
          (case mint_token lib ts ''console-export'' (i_tenant row) [''viewer''] 3600 now of
             Inl e \<Rightarrow> Inl (NotMinted e)
           | Inr token \<Rightarrow>
               bindS (export_with lib ts clock token strftime cn d max_bytes inc) (\<lambda>rs.
                 Inr \<lparr>cf_format = EXPORT_FORMAT, cf_incident = inc, cf_exported_at = stamp, cf_responses = rs\<rparr>)))"

section \<open>What an export holds\<close>

lemma raise_for_status_Inr [simp]: "raise_for_status r = Inr x \<longleftrightarrow> r = Inr x"
  by (simp add: raise_for_status_def split: sum.splits)

text \<open>The token opens the viewer's routes of the incident's tenant as long as it is valid.\<close>

definition in_time :: "int \<Rightarrow> int \<Rightarrow> bool" where
  "in_time now t \<longleftrightarrow> t < now + 3600 + 30 \<and> now \<le> t + 30"

lemma viewer_authorized:
  assumes "jwt_law lib" "mint_token lib ts subject tenant [''viewer''] 3600 now = Inr tok" "tenant \<noteq> []"
  shows "if in_time now t then authorized lib ts t (Some tok) ''viewer'' = Inr \<lparr>pr_subject = subject, pr_tenant = tenant, pr_roles = {''viewer''}\<rparr>
    else authorized lib ts t (Some tok) ''viewer'' = Inl (HTTPException 401)"
proof -
  have "has_role \<lparr>pr_subject = subject, pr_tenant = tenant, pr_roles = {''viewer''}\<rparr> ''viewer'' = Inr True"
    by (simp add: has_role_def rank_of_def ROLE_RANK_def)
  with mint_decode [OF assms, of t] show ?thesis
    by (auto simp: authorized_def authenticate_def require_def in_time_def split: if_splits)
qed

text \<open>Every tool call's evidence is a stored row of the same tenant, under an id of the usual form.\<close>

definition evidence_kept :: "db \<Rightarrow> bool" where
  "evidence_kept d \<longleftrightarrow> (\<forall>t \<in> set (tool_calls d). \<forall>ev. t_evidence t = Some ev \<longrightarrow>
     evidence_id_ok ev \<and> evidence_load d ev (t_tenant t) \<noteq> None)"

lemma tree_tools:
  assumes "n \<in> set (agent_tree cn d inc)" "s \<in> set (rn_llm_calls n)" "t \<in> set (sn_tools s)"
  shows "t \<in> set (tool_calls d)" "t_incident t = Some inc"
proof -
  have "t' \<in> set ts" if "s' \<in> set (intervals cn cs ts)" "t' \<in> set (sn_tools s')" for s' t' cs ts
    using that by (induction cs) auto
  with agent_tree_steps [OF assms(1)] assms(2,3) show "t \<in> set (tool_calls d)" "t_incident t = Some inc"
    by fastforce+
qed

lemma cited_kept:
  assumes "evidence_kept d" "tenants_agree d" "row \<in> set (incidents d)" "i_id row = inc" "ev \<in> set (cited_evidence (agent_tree cn d inc))"
  shows "evidence_id_ok ev \<and> evidence_load d ev (i_tenant row) \<noteq> None"
proof -
  obtain n s t where "n \<in> set (agent_tree cn d inc)" "s \<in> set (rn_llm_calls n)" "t \<in> set (sn_tools s)" "t_evidence t = Some ev"
    using assms(5) by (auto simp: cited_evidence_def sorted_set_def map_filter_def)
  with tree_tools [OF this(1-3)] assms(1-4) show ?thesis by (fastforce simp: evidence_kept_def tenants_agree_def)
qed

lemma evidence_responses_ok:
  assumes "\<And>n ev. ev \<in> set evs \<Longrightarrow> \<exists>e. ask n ev = Inr e"
  shows "\<exists>rs. evidence_responses ask max_bytes n evs = Inr rs \<and> map fst rs = map evidence_url evs"
  using assms
proof (induction evs arbitrary: n)
  case (Cons ev evs)
  from Cons.prems [of ev n] obtain e where "ask n ev = Inr e" by auto
  moreover from Cons.IH [of "Suc n"] Cons.prems obtain rs where
    "evidence_responses ask max_bytes (Suc n) evs = Inr rs" "map fst rs = map evidence_url evs" by auto
  ultimately show ?case by simp
qed simp

lemma export_succeeds:
  assumes law: "jwt_law lib" and secret: "secret_of ts = Inr secret" and time: "\<And>n. in_time now (clock n)"
    and d: "evidence_kept d" "tenants_agree d" "distinct (map i_id (incidents d))"
    and row: "row \<in> set (incidents d)" "i_id row = inc" "i_tenant row \<noteq> []"
  shows "\<exists>file. export_case lib ts now clock strftime cn stamp d max_bytes inc = Inr file \<and>
    map fst (cf_responses file) =
      [''/api/v1/incidents'', incident_path inc, incident_path inc @ ''/diagnosis'', incident_path inc @ ''/agents'',
       incident_path inc @ ''/plans'', incident_path inc @ ''/audit''] @ map evidence_url (cited_evidence (agent_tree cn d inc))"
proof -
  have get: "incidents_get d inc None = Some row" "incidents_get d inc (Some (i_tenant row)) = Some row"
    using find_key_eq [OF d(3) row(1)] row(2) by (auto simp: incidents_get_def find_Some_iff)
  obtain tok where tok: "mint_token lib ts ''console-export'' (i_tenant row) [''viewer''] 3600 now = Inr tok"
    using secret by (simp add: mint_token_def ALL_ROLES_def ROLE_RANK_def)
  have auth: "authorized lib ts (clock n) (Some tok) ''viewer'' =
      Inr \<lparr>pr_subject = ''console-export'', pr_tenant = i_tenant row, pr_roles = {''viewer''}\<rparr>" for n
    using viewer_authorized [OF law tok row(3), of "clock n"] time by simp
  have ask: "\<exists>e. raise_for_status (evidence_request lib ts (clock n) (Some tok) d ev) = Inr e"
    if "ev \<in> set (cited_evidence (agent_tree cn d inc))" for n ev
    using cited_kept [OF d(1,2) row(1,2) that]
    by (auto simp: evidence_request_def auth raise_for_status_def guard_def)
  from evidence_responses_ok [where evs = "cited_evidence (agent_tree cn d inc)" and max_bytes = max_bytes and n = 5 and
      ask = "\<lambda>n ev. raise_for_status (evidence_request lib ts (clock n) (Some tok) d ev)", OF ask] obtain rs where rs:
    "evidence_responses (\<lambda>n ev. raise_for_status (evidence_request lib ts (clock n) (Some tok) d ev)) max_bytes 5
       (cited_evidence (agent_tree cn d inc)) = Inr rs"
    "map fst rs = map evidence_url (cited_evidence (agent_tree cn d inc))" by blast
  have "read_request lib ts (clock n) (Some tok) strftime cn d route inc = read_incident strftime cn d (i_tenant row) route inc" for n route
    by (simp add: read_request_def auth)
  with rs show ?thesis
    by (simp add: export_case_def get tok export_with_def Let_def raise_for_status_def plans_request_def audit_request_def auth
        read_incident_def get_investigation_def api_list_plans_def api_incident_audit_def api_incident_def)
qed

text \<open>Whatever time it is: evidence in a file is evidence of the incident's tenant.\<close>

lemma evidence_responses_load:
  assumes "evidence_responses ask max_bytes n evs = Inr rs" "(path, EvidenceResponse e omitted) \<in> set rs"
  shows "\<exists>k ev e'. ask k ev = Inr e' \<and> e_tenant e' = e_tenant e \<and> e_id e' = e_id e \<and> e_result_hash e' = e_result_hash e"
  using assms
  by (induction evs arbitrary: n rs) (fastforce simp: bindS_Inr_iff shown_evidence_def split: if_splits)+

lemma export_with_evidence:
  assumes "export_with lib ts clock tok strftime cn d max_bytes inc = Inr rs" "(path, EvidenceResponse ev omitted) \<in> set rs"
  obtains evs es where "evidence_responses (\<lambda>n ev. raise_for_status (evidence_request lib ts (clock n) (Some tok) d ev)) max_bytes 5 evs = Inr es"
    "(path, EvidenceResponse ev omitted) \<in> set es"
  using assms unfolding export_with_def Let_def bindS_Inr_iff by (elim exE conjE) auto

lemma evidence_request_tenant:
  assumes "evidence_request lib ts t cred d ev = Inr e"
  shows "\<exists>p. authorized lib ts t cred ''viewer'' = Inr p \<and> e_tenant e = pr_tenant p"
proof -
  obtain p where "authorized lib ts t cred ''viewer'' = Inr p" "evidence_load d ev (pr_tenant p) = Some e"
    using assms by (auto simp: evidence_request_def bindS_Inr_iff split: option.splits)
  with find_in_set show ?thesis unfolding evidence_load_def by fast
qed

lemma export_one_tenant:
  assumes law: "jwt_law lib" and e: "export_case lib ts now clock strftime cn stamp d max_bytes inc = Inr file"
    and row: "incidents_get d inc None = Some row" "i_tenant row \<noteq> []"
    and mem: "(path, EvidenceResponse ev omitted) \<in> set (cf_responses file)"
  shows "e_tenant ev = i_tenant row"
proof -
  obtain tok where tok: "mint_token lib ts ''console-export'' (i_tenant row) [''viewer''] 3600 now = Inr tok"
    and ex: "export_with lib ts clock tok strftime cn d max_bytes inc = Inr (cf_responses file)"
    using e row(1) by (auto simp: export_case_def bindS_Inr_iff split: sum.splits)
  then obtain evs rs where "evidence_responses (\<lambda>n ev. raise_for_status (evidence_request lib ts (clock n) (Some tok) d ev)) max_bytes 5 evs = Inr rs"
    "(path, EvidenceResponse ev omitted) \<in> set rs"
    using mem by (elim export_with_evidence)
  from evidence_responses_load [OF this] obtain k id e' where
    "evidence_request lib ts (clock k) (Some tok) d id = Inr e'" "e_tenant e' = e_tenant ev"
    by auto
  moreover from this(1) viewer_authorized [OF law tok row(2), of "clock k"] have "e_tenant e' = i_tenant row"
    by (auto dest: evidence_request_tenant split: if_splits)
  ultimately show ?thesis by simp
qed

end
