(* ===== verification/RecordScenario.thy ===== *)
theory RecordScenario
  imports KnowledgeScenario CliBackend EvalReplay Gauges CaseExport
begin

text \<open>
  Concrete inputs for recordings, reports and the command line backend: an incident that was
  investigated while another one was open, with its model call, its tool calls and what they cost.
\<close>

section \<open>A finished incident\<close>

definition finished0 :: incident_row where
  "finished0 = (inc0 ESCALATED 5)\<lparr>i_created_at := 10, i_closed_at := Some 50\<rparr>"

definition neighbour0 :: incident_row where
  "neighbour0 = (inc0 TRIAGED 2)\<lparr>i_id := ''j'', i_fingerprint := ''g'', i_service := ''cart'', i_created_at := 5\<rparr>"

definition stranger0 :: incident_row where
  "stranger0 = (inc0 TRIAGED 2)\<lparr>i_id := ''k'', i_tenant := ''u'', i_fingerprint := ''h''\<rparr>"

definition page0 :: alert_row where
  "page0 = \<lparr>al_id = 1, al_tenant = ''t'', al_incident = Some ''i'', al_fingerprint = ''f'', al_status = Firing, al_labels = [],
     al_annotations = [(''summary'', ''slow'')], al_starts_at = None, al_ends_at = None\<rparr>"

definition tool_row0 :: "nat \<Rightarrow> string option \<Rightarrow> tool_call_row" where
  "tool_row0 n err = \<lparr>t_id = n, t_tenant = ''t'', t_incident = Some ''i'', t_agent = Some ''solo'', t_tool = ''k8s'', t_args = [],
     t_ok = (err = None), t_error_code = err, t_error = err, t_attempts = 1, t_evidence = (if err = None then Some ''ev'' else None)\<rparr>"

definition llm_row0 :: "nat \<Rightarrow> llm_call_row" where
  "llm_row0 n = \<lparr>l_id = n, l_tenant = ''t'', l_incident = Some ''i'', l_agent = ''solo'', l_step_no = n, l_backend = ''api'',
     l_model = ''m'', l_prompt_version = ''1'', l_request_hash = ''h'', l_ok = True, l_error_code = None, l_error = None,
     l_attempts = 1, l_usage = \<lparr>u_input_tokens = 100, u_output_tokens = 10, u_cache_read_tokens = 0, u_cache_creation_tokens = 0\<rparr>,
     l_step = None\<rparr>"

definition past0 :: db where
  "past0 = empty_db\<lparr>incidents := [stranger0, neighbour0, finished0], alerts := [page0], evidence := [ev0],
     tool_calls := [tool_row0 1 None, tool_row0 2 (Some ''invalid_args''), tool_row0 3 (Some ''timeout'')],
     llm_calls := [llm_row0 1, llm_row0 2], agent_runs := [run_row0 1 ''solo''], blackboard := [dx_row0]\<rparr>"

definition step0 :: llm_step where
  "step0 = \<lparr>st_reasoning = '''', st_actions = [], st_final = Some (JObj [])\<rparr>"

lemma past0_constraints: "constraints past0"
  by code_simp

lemma past0_related: "map i_id (related_rows past0 finished0) = [''j'']"
  by code_simp

lemma past0_exports: "ends_in (export_recording (\<lambda>j. step0) (\<lambda>t. 7) past0 [''i''] [])
    (\<lambda>rec. map ri_id (rc_incidents rec) = [''j'', ''i''] \<and> map en_at (rc_tools rec) = [0, 7] \<and> length (rc_llm rec) = 2)"
  by code_simp

section \<open>Its report\<close>

definition columns0 :: columns where
  "columns0 = \<lparr>cn_started = (\<lambda>r. 0), cn_llm_at = (\<lambda>c. int (l_id c) * 10), cn_tool_at = (\<lambda>t. int (t_id t) * 8),
     cn_cost = (\<lambda>c. None), cn_latency_ms = (\<lambda>c. 5)\<rparr>"

lemma past0_tenants: "tenants_agree past0"
  by code_simp

lemma past0_calls:
  "filter (\<lambda>c. l_agent c = ''solo'') (sort_key (\<lambda>c. (cn_llm_at columns0 c, l_id c)) (incident_calls past0 ''i'')) = [llm_row0 1, llm_row0 2]"
  "filter (\<lambda>t. tool_agent t = ''solo'')
     (sort_key (\<lambda>t. (cn_tool_at columns0 t, t_id t)) (filter (\<lambda>t. t_incident t = Some ''i'') (tool_calls past0))) =
   [tool_row0 1 None, tool_row0 2 (Some ''invalid_args''), tool_row0 3 (Some ''timeout'')]"
  by code_simp+

lemma past0_tree: "map (\<lambda>n. map (\<lambda>s. (l_id (sn_call s), map t_id (sn_tools s))) (rn_llm_calls n)) (agent_tree columns0 past0 ''i'') =
    [[(1, [2]), (2, [3])]]" "map (\<lambda>n. r_agent (rn_run n)) (agent_tree columns0 past0 ''i'') = [''solo'']"
  by code_simp+

lemma viewer_reads: "ends_in (authorized lib0 ts0 10 (Some (token0 [''viewer''])) ''viewer'') (\<lambda>p. pr_tenant p = ''t'')"
  by code_simp

lemma past0_read: "(case read_incident (\<lambda>f t. ''now'') columns0 past0 ''t'' GetIncident ''i'' of
    Inr (IncidentOut r) \<Rightarrow> out_state r = ''ESCALATED'' \<and> out_priority r = ''P0'' | _ \<Rightarrow> False)"
  by code_simp

lemma stranger_reads_nothing: "read_incident (\<lambda>f t. ''now'') columns0 past0 ''u'' GetReport ''i'' = Inl (HTTPException 404)"
  by code_simp

section \<open>A usage window\<close>

text \<open>Ten past eight in the evening of some day; the window reopens at ten to nine.\<close>

lemma reopens_soon: "seconds_until_reset ''limit reached, resets 8:50pm (UTC)'' (86400 * 3 + 20 * 3600 + 600) = Inr (Some 2400)"
  by code_simp

lemma reopens_tomorrow: "seconds_until_reset ''resets 8pm (UTC)'' (86400 * 3 + 20 * 3600) = Inr (Some 86400)"
  by code_simp

end
