(* ===== verification/WorkerLoop.thy ===== *)
theory WorkerLoop
  imports Runner
begin

text \<open>
  The whole loop of a worker process (\<open>Worker.run\<close>, \<open>_heartbeat\<close>, \<open>_reap_loop\<close> and \<open>_drain\<close> of
  \<open>app/worker/runner.py\<close>): a step per turn of the loop, per heartbeat, per end of a task and per
  transaction of anybody else, in any order. Shown: after the stop signal at most the claim under
  way still succeeds, the drain can always finish, and a worker that stopped has let go of every
  job it claimed once.
\<close>

section \<open>The process\<close>

text \<open>Where \<open>run\<close> is: at the test of the loop, before the claim, in the pause, draining, returned.\<close>

datatype loop_phase = AtCheck | AtClaim | AtPause | Draining | Stopped

text \<open>
  \<open>wl_lost\<close>: tasks whose \<open>lease_lost\<close> event is set; \<open>wl_refused\<close>: tasks a transaction of which
  was refused; \<open>wl_cancelled\<close>: tasks with a cancellation on its way; \<open>wl_waiting\<close>: the tasks the
  drain waits for. \<open>wl_claimed\<close> and \<open>wl_outcomes\<close> are a log of what happened.
\<close>

record loop_state =
  wl_db :: db
  wl_slots :: slots
  wl_phase :: loop_phase
  wl_stop :: bool
  wl_lost :: "job list"
  wl_refused :: "job list"
  wl_cancelled :: "job list"
  wl_waiting :: "job list"
  wl_claimed :: "job list"
  wl_outcomes :: "(job \<times> outcome) list"

definition loop_init :: "db \<Rightarrow> loop_state" where
  "loop_init d =
     \<lparr>wl_db = d, wl_slots = \<lparr>s_running = [], s_tasks = []\<rparr>, wl_phase = AtCheck, wl_stop = False, wl_lost = [],
      wl_refused = [], wl_cancelled = [], wl_waiting = [], wl_claimed = [], wl_outcomes = []\<rparr>"

abbreviation wl_tasks :: "loop_state \<Rightarrow> job list" where
  "wl_tasks s \<equiv> s_tasks (wl_slots s)"

text \<open>\<open>while not stop.is_set()\<close>, and the tasks the drain finds in the table.\<close>

definition loop_check :: "loop_state \<Rightarrow> loop_state" where
  "loop_check s =
     (if wl_stop s then s\<lparr>wl_phase := Draining, wl_waiting := map snd (s_running (wl_slots s))\<rparr>
      else s\<lparr>wl_phase := AtClaim\<rparr>)"

definition loop_claim :: "(nat \<Rightarrow> bool) \<Rightarrow> world \<Rightarrow> settings \<Rightarrow> string \<Rightarrow> string list \<Rightarrow> loop_state \<Rightarrow> loop_state" where
  "loop_claim locked w st worker_id kinds s =
     (case worker_claim locked w st worker_id kinds (wl_slots s) (wl_db s) of
        (None, d) \<Rightarrow> s\<lparr>wl_db := d, wl_phase := AtPause\<rparr>
      | (Some job, d) \<Rightarrow>
          s\<lparr>wl_db := d, wl_slots := task_started job (wl_slots s), wl_claimed := job # wl_claimed s, wl_phase := AtCheck\<rparr>)"

definition loop_beat :: "world \<Rightarrow> settings \<Rightarrow> job \<Rightarrow> loop_state \<Rightarrow> loop_state" where
  "loop_beat w st job s =
     (case heartbeat w job (queue_lease_ttl_s st) (wl_db s) of
        (alive, d) \<Rightarrow>
          if alive then s\<lparr>wl_db := d\<rparr>
          else s\<lparr>wl_db := d, wl_lost := job # wl_lost s, wl_cancelled := job # wl_cancelled s\<rparr>)"

definition loop_end :: "rat \<Rightarrow> world \<Rightarrow> settings \<Rightarrow> string \<Rightarrow> job \<Rightarrow> handler_end \<Rightarrow> loop_state \<Rightarrow> loop_state" where
  "loop_end rnd w st worker_id job r s =
     (case execute_end rnd w st worker_id (job \<in> set (wl_lost s)) job r (wl_db s) of
        (outcome, d) \<Rightarrow>
          s\<lparr>wl_db := d, wl_slots := task_ended job (wl_slots s), wl_outcomes := (job, outcome) # wl_outcomes s\<rparr>)"

text \<open>The grace is over: what is pending is cancelled.\<close>

definition loop_grace :: "loop_state \<Rightarrow> loop_state" where
  "loop_grace s = s\<lparr>wl_cancelled := filter (\<lambda>j. j \<in> set (wl_tasks s)) (wl_waiting s) @ wl_cancelled s\<rparr>"

text \<open>
  The ends a task can have now: a cancellation was asked for, a \<open>LeaseLost\<close> came from a
  transaction that was refused.
\<close>

definition may_end :: "job \<Rightarrow> handler_end \<Rightarrow> loop_state \<Rightarrow> bool" where
  "may_end job r s \<longleftrightarrow>
     (case r of
        Cancelled \<Rightarrow> job \<in> set (wl_cancelled s)
      | Raised (LeaseLost i f) t \<Rightarrow> job \<in> set (wl_refused s)
      | _ \<Rightarrow> True)"

text \<open>
  \<open>ls_other\<close>: any transactions on the queue, those of this worker's handlers and those of other
  processes. A database error in the claim, a heartbeat or the reaper rolls back and is logged.
\<close>

inductive loop_step :: "settings \<Rightarrow> string \<Rightarrow> string list \<Rightarrow> loop_state \<Rightarrow> loop_state \<Rightarrow> bool" for st wid kinds where
  ls_signal: "loop_step st wid kinds s (s\<lparr>wl_stop := True\<rparr>)"
| ls_check: "wl_phase s = AtCheck \<Longrightarrow> loop_step st wid kinds s (loop_check s)"
| ls_claim: "wl_phase s = AtClaim \<Longrightarrow> loop_step st wid kinds s (loop_claim locked w st wid kinds s)"
| ls_claim_error: "wl_phase s = AtClaim \<Longrightarrow> loop_step st wid kinds s (s\<lparr>wl_phase := AtPause\<rparr>)"
| ls_pause: "wl_phase s = AtPause \<Longrightarrow> loop_step st wid kinds s (s\<lparr>wl_phase := AtCheck\<rparr>)"
| ls_beat: "job \<in> set (wl_tasks s) \<Longrightarrow> loop_step st wid kinds s (loop_beat w st job s)"
| ls_refused: "job \<in> set (wl_tasks s) \<Longrightarrow> assert_fence job (wl_db s) = Inl e \<Longrightarrow>
    loop_step st wid kinds s (s\<lparr>wl_refused := job # wl_refused s\<rparr>)"
| ls_end: "job \<in> set (wl_tasks s) \<Longrightarrow> may_end job r s \<Longrightarrow> loop_step st wid kinds s (loop_end rnd w st wid job r s)"
| ls_reap: "wl_phase s \<in> {AtCheck, AtClaim, AtPause} \<Longrightarrow>
    loop_step st wid kinds s (s\<lparr>wl_db := reap_round locked w wid (wl_db s)\<rparr>)"
| ls_other: "qstep\<^sup>*\<^sup>* (wl_db s) d \<Longrightarrow> loop_step st wid kinds s (s\<lparr>wl_db := d\<rparr>)"
| ls_grace: "wl_phase s = Draining \<Longrightarrow> loop_step st wid kinds s (loop_grace s)"
| ls_stopped: "wl_phase s = Draining \<Longrightarrow> set (wl_waiting s) \<inter> set (wl_tasks s) = {} \<Longrightarrow>
    loop_step st wid kinds s (s\<lparr>wl_phase := Stopped\<rparr>)"

section \<open>The ends of an attempt, as steps of the queue\<close>

lemma finish_run:
  assumes "finish job f w d = Inr (r, d')" "\<And>x. j_status (f x) \<noteq> Running"
  shows "\<not> holds d' job"
proof -
  have "d' = update_owned job (finished_row f w) d" using assms(1) by (auto simp: finish_def split: if_splits)
  moreover have "\<not> owned job (finished_row f w x)" for x by (simp add: owned_def finished_row_def assms(2))
  ultimately show ?thesis by (auto simp: holds_def update_owned_def find_None_iff sql_update_def)
qed

lemma failed_not_held: "\<not> holds (update_owned job (failed_row w e rt dl) d) job"
proof -
  have "\<not> owned job (failed_row w e rt dl x)" for x by (simp add: owned_def failed_row_def)
  then show ?thesis by (auto simp: holds_def update_owned_def find_None_iff sql_update_def)
qed

text \<open>What the end of an attempt does to the queue, and to the lease.\<close>

lemma runner_fail_end:
  assumes "runner_fail rnd w st wid job n t rt d = (oc, d')"
  shows "qstep\<^sup>*\<^sup>* d d' \<and> (oc \<noteq> OError \<longrightarrow> \<not> holds d' job)"
proof (cases "find (owned job) (jobs d)")
  case None
  then have "\<not> holds d job" by (simp add: holds_def)
  with assms show ?thesis by (auto simp: runner_fail_lost)
next
  case (Some r)
  show ?thesis
  proof (cases "oc = OError")
    case True
    with assms have "d' = d" by (auto simp: runner_fail_def Let_def split: sum.splits exn.splits prod.splits if_splits)
    with True show ?thesis by simp
  next
    case False
    let ?e = "n @ '': '' @ t"
    let ?dl = "backoff_delay rnd (jb_attempts job) (queue_backoff_base_s st) (queue_backoff_max_s st)"
    let ?d1 = "update_owned job (failed_row w ?e rt ?dl) d"
    have jobs: "jobs d' = jobs ?d1"
      using runner_fail_held [OF Some assms False] by (simp add: update_owned_def)
    have "fail rnd w job ?e rt (queue_backoff_base_s st) (queue_backoff_max_s st) d = Inr (j_status (failed_row w ?e rt ?dl r), ?d1)"
      using Some by (simp add: fail_def Let_def)
    then have "qstep d ?d1" by (rule q_fail)
    moreover have "qstep ?d1 d'" using jobs by (rule q_other)
    moreover have "\<not> holds d' job" using failed_not_held [of job w ?e rt ?dl d] jobs by (simp add: holds_def)
    ultimately show ?thesis by auto
  qed
qed

lemma complete_end:
  assumes "complete w job d = Inr (x, d')"
  shows "qstep\<^sup>*\<^sup>* d d' \<and> \<not> holds d' job"
  using finish_run [of job set_done w d x d'] q_complete [OF assms] assms
  by (auto simp: complete_def set_done_def)

lemma release_end:
  assumes "release w job d = Inr (x, d')"
  shows "qstep\<^sup>*\<^sup>* d d' \<and> \<not> holds d' job"
  using finish_run [of job "set_queued w" w d x d'] q_release [OF assms] assms
  by (auto simp: release_def set_queued_def)

lemma runner_release_end: "qstep\<^sup>*\<^sup>* d (runner_release w job d) \<and> \<not> holds (runner_release w job d) job"
proof (cases "release w job d")
  case (Inl e)
  then have "\<not> holds d job" by (auto simp: release_def finish_def split: if_splits)
  with Inl show ?thesis by (simp add: runner_release_def)
next
  case (Inr x)
  then have "release w job d = Inr (fst x, snd x)" by (cases x) simp
  from release_end [OF this] Inr show ?thesis by (simp add: runner_release_def case_prod_beta)
qed

text \<open>A handler that raised \<open>LeaseLost\<close>, and a task whose heartbeat found the lease gone, do not own the job.\<close>

lemma execute_end_run:
  assumes "execute_end rnd w st wid lost job r d = (oc, d')"
    and "\<And>i f t. r = Raised (LeaseLost i f) t \<Longrightarrow> \<not> holds d job" "lost \<Longrightarrow> \<not> holds d job"
  shows "qstep\<^sup>*\<^sup>* d d' \<and> (oc \<noteq> OError \<longrightarrow> \<not> holds d' job)"
proof (cases r)
  case Returned
  show ?thesis
  proof (cases "complete w job d")
    case (Inl e)
    then have "\<not> holds d job" by (auto simp: complete_def finish_def split: if_splits)
    with Inl Returned assms(1) show ?thesis by auto
  next
    case (Inr x)
    with Returned assms(1) have "d' = snd x" by (auto simp: case_prod_beta)
    with Inr have "complete w job d = Inr (fst x, d')" by (cases x) simp
    from complete_end [OF this] show ?thesis by simp
  qed
next
  case (Raised e t)
  with assms show ?thesis by (cases e) (auto dest: runner_fail_end)
next
  case (RaisedOther n t)
  with assms(1) show ?thesis using runner_fail_end by auto
next
  case Cancelled
  with assms runner_release_end [of d w job] show ?thesis by (auto split: if_splits)
qed

lemma audit_reaped_jobs: "audit_reaped w wid rs d = Inr (u, d') \<Longrightarrow> jobs d' = jobs d"
proof (induction rs arbitrary: d)
  case (Cons r rs)
  obtain jid status where "r = (jid, status)" by (cases r)
  with Cons.prems Cons.IH show ?case
    by (fastforce simp: bindS_Inr_iff split: if_splits dest: audit_append_frame)
qed simp

lemma reap_round_run: "qstep\<^sup>*\<^sup>* d (reap_round locked w wid d)"
proof -
  obtain rs d1 where r: "reap locked w d = (rs, d1)" by fastforce
  then have q: "qstep d d1" by (rule q_reap)
  show ?thesis
  proof (cases "audit_reaped w wid rs d1")
    case (Inl e)
    with r show ?thesis by (simp add: reap_round_def)
  next
    case (Inr x)
    then have "audit_reaped w wid rs d1 = Inr (fst x, snd x)" by (cases x) simp
    then have "jobs (snd x) = jobs d1" by (rule audit_reaped_jobs)
    then have "qstep d1 (snd x)" by (rule q_other)
    with q r Inr show ?thesis by (auto simp: reap_round_def case_prod_beta)
  qed
qed


section \<open>What holds in every state\<close>

text \<open>Claimed under this id and never again.\<close>

definition claimed_once :: "loop_state \<Rightarrow> job \<Rightarrow> bool" where
  "claimed_once s job \<longleftrightarrow> (\<forall>j \<in> set (wl_claimed s). jb_id j = jb_id job \<longrightarrow> j = job)"

text \<open>The loop, or the drain, knows the task.\<close>

definition task_known :: "loop_state \<Rightarrow> job \<Rightarrow> bool" where
  "task_known s job \<longleftrightarrow>
     (if wl_phase s \<in> {Draining, Stopped} then job \<in> set (wl_waiting s)
      else (jb_id job, job) \<in> set (s_running (wl_slots s)))"

text \<open>Of a job it claimed: the lease is gone, its end could not be recorded, or the task is there.\<close>

definition looked_after :: "loop_state \<Rightarrow> job \<Rightarrow> bool" where
  "looked_after s job \<longleftrightarrow>
     \<not> holds (wl_db s) job \<or> (job, OError) \<in> set (wl_outcomes s) \<or>
     job \<in> set (wl_tasks s) \<and> (claimed_once s job \<longrightarrow> task_known s job)"

definition issued :: "db \<Rightarrow> job \<Rightarrow> bool" where
  "issued d job \<longleftrightarrow> jb_fence job \<le> job_fence d (jb_id job)"

definition loop_ok :: "loop_state \<Rightarrow> bool" where
  "loop_ok s \<longleftrightarrow>
     jobs_ok (wl_db s) \<and> (\<forall>j \<in> set (wl_claimed s). issued (wl_db s) j \<and> looked_after s j) \<and>
     set (wl_tasks s) \<subseteq> set (wl_claimed s) \<and>
     (\<forall>j \<in> set (wl_lost s) \<union> set (wl_refused s). j \<in> set (wl_claimed s) \<and> \<not> holds (wl_db s) j) \<and>
     (wl_phase s = Stopped \<longrightarrow> set (wl_waiting s) \<inter> set (wl_tasks s) = {})"

lemma issued_run: "issued d j \<Longrightarrow> qstep\<^sup>*\<^sup>* d d' \<Longrightarrow> jobs_ok d \<Longrightarrow> issued d' j"
  using jq.run_fence_mono [of d d' "jb_id j"] by (simp add: issued_def)

lemma unheld_run:
  assumes "\<not> holds d j" "qstep\<^sup>*\<^sup>* d d'" "jobs_ok d" "issued d j"
  shows "\<not> holds d' j"
proof -
  have "jobs_ok d'" by (rule jq.run_ok [OF assms(2,3)])
  moreover have "\<not> jq.owns d' (jb_id j) (jb_fence j)"
    using jq.lost_forever [OF assms(2,3)] assms(1,3,4) holds_owns by (simp add: jobs_ok_def issued_def)
  ultimately show ?thesis using holds_owns by (simp add: jobs_ok_def)
qed

text \<open>The database moves on; the rest stays.\<close>

lemma loop_ok_db:
  assumes "loop_ok s" "qstep\<^sup>*\<^sup>* (wl_db s) d"
  shows "loop_ok (s\<lparr>wl_db := d\<rparr>)"
proof -
  have ok: "jobs_ok (wl_db s)" and iss: "j \<in> set (wl_claimed s) \<Longrightarrow> issued (wl_db s) j" for j
    using assms(1) by (auto simp: loop_ok_def)
  have un: "j \<in> set (wl_claimed s) \<Longrightarrow> \<not> holds (wl_db s) j \<Longrightarrow> \<not> holds d j" for j
    by (rule unheld_run [OF _ assms(2) ok iss])
  have "j \<in> set (wl_claimed s) \<Longrightarrow> issued d j" for j by (rule issued_run [OF iss assms(2) ok])
  moreover have "jobs_ok d" by (rule jq.run_ok [OF assms(2) ok])
  ultimately show ?thesis using assms(1) un
    by (auto simp: loop_ok_def looked_after_def task_known_def claimed_once_def)
qed

lemma loop_ok_check:
  assumes "loop_ok s" "wl_phase s = AtCheck"
  shows "loop_ok (loop_check s)"
  using assms by (force simp: loop_check_def loop_ok_def looked_after_def task_known_def claimed_once_def)

lemma update_keeps: "(k, v) \<in> set xs \<Longrightarrow> k \<noteq> k' \<Longrightarrow> (k, v) \<in> set (AList.update k' v' xs)"
  by (induction xs) auto

lemma update_puts: "(k, v) \<in> set (AList.update k v xs)"
  by (induction xs) auto

lemma loop_ok_claim:
  assumes "loop_ok s" "wl_phase s = AtClaim"
  shows "loop_ok (loop_claim locked w st wid kinds s)"
proof (cases "worker_claim locked w st wid kinds (wl_slots s) (wl_db s)")
  case (Pair c d)
  have q: "qstep\<^sup>*\<^sup>* (wl_db s) d"
    using Pair by (auto simp: worker_claim_def split: if_splits intro: q_claim)
  note db = loop_ok_db [OF assms(1) q]
  show ?thesis
  proof (cases c)
    case None
    with Pair db assms(2) show ?thesis
      by (simp add: loop_claim_def loop_ok_def looked_after_def task_known_def claimed_once_def)
  next
    case (Some job)
    with Pair have cl: "claim locked w wid (queue_lease_ttl_s st) (max_priority_for st (free_slots st (wl_slots s)))
        (Some (sort kinds)) (wl_db s) = (Some job, d)"
      by (auto simp: worker_claim_def split: if_splits)
    have "issued d job"
      using claim_owns [OF cl] assms(1) by (simp add: loop_ok_def issued_def jq.owns_def)
    moreover have "job \<notin> set (wl_claimed s)"
      using claim_owns [OF cl] assms(1) by (auto simp: loop_ok_def issued_def)
    ultimately show ?thesis using Pair Some db assms(2)
      by (auto simp: loop_claim_def loop_ok_def looked_after_def task_known_def claimed_once_def task_started_def update_puts
          intro!: update_keeps)
  qed
qed

lemma delete_keeps: "(k, v) \<in> set xs \<Longrightarrow> k \<noteq> k' \<Longrightarrow> (k, v) \<in> set (AList.delete k' xs)"
  by (induction xs) auto

lemma loop_ok_end:
  assumes "loop_ok s" "job \<in> set (wl_tasks s)" "may_end job r s"
  shows "loop_ok (loop_end rnd w st wid job r s)"
proof (cases "execute_end rnd w st wid (job \<in> set (wl_lost s)) job r (wl_db s)")
  case (Pair oc d)
  have "\<not> holds (wl_db s) job" if "r = Raised (LeaseLost i f) t" for i f t
    using assms(1,3) that by (auto simp: may_end_def loop_ok_def)
  moreover have "\<not> holds (wl_db s) job" if "job \<in> set (wl_lost s)" using assms(1) that by (auto simp: loop_ok_def)
  ultimately have q: "qstep\<^sup>*\<^sup>* (wl_db s) d" and gone: "oc \<noteq> OError \<longrightarrow> \<not> holds d job"
    using execute_end_run [OF Pair] by auto
  let ?s = "s\<lparr>wl_db := d\<rparr>"
  let ?t = "loop_end rnd w st wid job r s"
  have db: "loop_ok ?s" by (rule loop_ok_db [OF assms(1) q])
  have t: "?t = ?s\<lparr>wl_slots := task_ended job (wl_slots s), wl_outcomes := (job, oc) # wl_outcomes s\<rparr>"
    using Pair by (simp add: loop_end_def)
  have sub: "set (wl_tasks ?t) \<subseteq> set (wl_tasks s)" by (simp add: t task_ended_def set_remove1_subset)
  have "looked_after ?t j" if j: "j \<in> set (wl_claimed s)" for j
  proof (cases "j = job")
    case True
    then show ?thesis using gone by (auto simp: looked_after_def t)
  next
    case False
    have "claimed_once s j \<Longrightarrow> jb_id j \<noteq> jb_id job"
      using False assms(1,2) by (auto simp: claimed_once_def loop_ok_def)
    with False db j show ?thesis
      by (auto simp: looked_after_def t loop_ok_def task_ended_def task_known_def claimed_once_def in_set_remove1 delete_keeps
          split: if_splits)
  qed
  with db sub show ?thesis by (auto simp: loop_ok_def t)
qed

lemma loop_ok_phase:
  "loop_ok s \<Longrightarrow> wl_phase s \<notin> {Draining, Stopped} \<Longrightarrow> p \<notin> {Draining, Stopped} \<Longrightarrow> loop_ok (s\<lparr>wl_phase := p\<rparr>)"
  by (auto simp: loop_ok_def looked_after_def task_known_def claimed_once_def)

lemma loop_ok_cancelled: "loop_ok (s\<lparr>wl_cancelled := c\<rparr>) = loop_ok s"
  by (simp add: loop_ok_def looked_after_def task_known_def claimed_once_def)

lemma loop_ok_stop: "loop_ok (s\<lparr>wl_stop := b\<rparr>) = loop_ok s"
  by (simp add: loop_ok_def looked_after_def task_known_def claimed_once_def)

lemma loop_ok_beat:
  assumes "loop_ok s" "job \<in> set (wl_tasks s)"
  shows "loop_ok (loop_beat w st job s)"
proof (cases "heartbeat w job (queue_lease_ttl_s st) (wl_db s)")
  case (Pair alive d)
  then have q: "qstep\<^sup>*\<^sup>* (wl_db s) d" by (blast intro: q_heartbeat)
  note db = loop_ok_db [OF assms(1) q]
  show ?thesis
  proof (cases alive)
    case True
    with Pair db show ?thesis by (simp add: loop_beat_def)
  next
    case False
    have claimed: "job \<in> set (wl_claimed s)" using assms by (auto simp: loop_ok_def)
    from False Pair have "\<not> holds (wl_db s) job" by (simp add: heartbeat_def)
    then have "\<not> holds d job"
      by (rule unheld_run [OF _ q]) (use assms(1) claimed in \<open>auto simp: loop_ok_def\<close>)
    with False Pair db claimed show ?thesis
      by (auto simp: loop_beat_def loop_ok_def looked_after_def task_known_def claimed_once_def)
  qed
qed

lemma loop_step_ok:
  assumes "loop_step st wid kinds s s'" "loop_ok s"
  shows "loop_ok s'"
  using assms(1)
proof cases
  case ls_signal
  with assms(2) show ?thesis by (simp add: loop_ok_stop)
next
  case ls_check
  with assms(2) show ?thesis by (simp add: loop_ok_check)
next
  case ls_claim
  with assms(2) show ?thesis by (simp add: loop_ok_claim)
next
  case (ls_refused job e)
  then have "\<not> holds (wl_db s) job" by (simp add: assert_fence_def guard_def split: if_splits)
  with ls_refused assms(2) show ?thesis
    by (auto simp: loop_ok_def looked_after_def task_known_def claimed_once_def)
next
  case ls_stopped
  with assms(2) show ?thesis by (auto simp: loop_ok_def looked_after_def task_known_def claimed_once_def)
qed (use assms(2) loop_ok_phase loop_ok_beat loop_ok_end loop_ok_db reap_round_run loop_ok_cancelled in
    \<open>auto simp: loop_grace_def\<close>)

lemma loop_init_ok: "jobs_ok d \<Longrightarrow> loop_ok (loop_init d)"
  by (simp add: loop_ok_def loop_init_def)

lemma loop_run_ok: "(loop_step st wid kinds)\<^sup>*\<^sup>* s s' \<Longrightarrow> loop_ok s \<Longrightarrow> loop_ok s'"
  by (induction rule: rtranclp_induct) (auto intro: loop_step_ok)

section \<open>The loop and its slots\<close>

text \<open>The loop does with the table and the tasks what the slots allow.\<close>

lemma loop_step_slots:
  assumes "loop_step st wid kinds s s'"
  shows "(slot_step st)\<^sup>*\<^sup>* (wl_slots s) (wl_slots s')"
  using assms
proof cases
  case (ls_claim locked w)
  then show ?thesis
    by (auto simp: loop_claim_def split: prod.splits option.splits intro: ss_start)
next
  case (ls_end job r rnd w)
  then show ?thesis by (auto simp: loop_end_def split: prod.splits intro: ss_end)
qed (auto simp: loop_check_def loop_beat_def loop_grace_def split: prod.splits)

lemma loop_run_slots: "(loop_step st wid kinds)\<^sup>*\<^sup>* s s' \<Longrightarrow> (slot_step st)\<^sup>*\<^sup>* (wl_slots s) (wl_slots s')"
  by (induction rule: rtranclp_induct) (auto dest: loop_step_slots)

section \<open>Stopping\<close>

text \<open>The claims after the signal: only the one the loop is about to make.\<close>

lemma claims_after_stop:
  assumes "(loop_step st wid kinds)\<^sup>*\<^sup>* s s'" "wl_stop s"
  shows "wl_stop s' \<and> (wl_claimed s' = wl_claimed s \<and> (wl_phase s' = AtClaim \<longrightarrow> wl_phase s = AtClaim) \<or>
    wl_phase s = AtClaim \<and> wl_phase s' \<noteq> AtClaim \<and> length (wl_claimed s') = Suc (length (wl_claimed s)))"
  using assms(1)
proof (induction rule: rtranclp_induct)
  case base
  with assms(2) show ?case by simp
next
  case (step t u)
  from step.hyps(2) step.IH show ?case
    by cases (auto simp: loop_check_def loop_claim_def loop_beat_def loop_end_def loop_grace_def split: prod.splits option.splits)
qed

text \<open>Every cancelled task can end, so the drain can.\<close>

lemma drain_finishes:
  assumes "wl_phase s = Draining"
  shows "\<exists>s'. (loop_step st wid kinds)\<^sup>*\<^sup>* s s' \<and> wl_phase s' = Stopped \<and> wl_claimed s' = wl_claimed s"
  using assms
proof (induction "length (wl_tasks s)" arbitrary: s rule: less_induct)
  case less
  show ?case
  proof (cases "set (wl_waiting s) \<inter> set (wl_tasks s) = {}")
    case True
    with less.prems show ?thesis using ls_stopped [of s] by (intro exI [of _ "s\<lparr>wl_phase := Stopped\<rparr>"]) auto
  next
    case False
    then obtain j where j: "j \<in> set (wl_waiting s)" "j \<in> set (wl_tasks s)" by auto
    let ?g = "loop_grace s"
    let ?e = "loop_end 0 undefined st wid j Cancelled ?g"
    have g: "loop_step st wid kinds s ?g" by (rule ls_grace [OF less.prems])
    have e: "loop_step st wid kinds ?g ?e"
      using j by (intro ls_end) (auto simp: loop_grace_def may_end_def)
    have "length (wl_tasks ?e) < length (wl_tasks s)" "wl_phase ?e = Draining" and c: "wl_claimed ?e = wl_claimed s"
      using j less.prems
      by (auto simp: loop_end_def loop_grace_def task_ended_def length_remove1 split: prod.splits dest: length_pos_if_in_set)
    from less.hyps [OF this(1,2)] obtain s' where "(loop_step st wid kinds)\<^sup>*\<^sup>* ?e s'" "wl_phase s' = Stopped"
        "wl_claimed s' = wl_claimed ?e" by blast
    with g e c show ?thesis by (metis converse_rtranclp_into_rtranclp)
  qed
qed

end
