(* ===== verification/WorkerScenario.thy ===== *)
theory WorkerScenario
  imports Scenario WorkerLoop
begin

text \<open>
  Concrete runs of a worker: one that works off a job and stops, and one whose lease runs out in
  between, so that it claims the same job twice and stops while the second task still runs.
\<close>

definition waiting_job0 :: job_row where
  "waiting_job0 = (job0 ''triage'')\<lparr>j_status := Queued, j_attempts := 0, j_fence := 0, j_lease_owner := None, j_lease_until := None\<rparr>"

definition waiting_db0 :: db where
  "waiting_db0 = empty_db\<lparr>jobs := [waiting_job0]\<rparr>"

text \<open>Ten minutes later.\<close>

definition w_late :: world where
  "w_late = w0\<lparr>w_now := 600000000\<rparr>"

abbreviation loop_turn :: "world \<Rightarrow> loop_state \<Rightarrow> loop_state" where
  "loop_turn w s \<equiv> loop_claim (\<lambda>i. False) w st0 ''w'' [''triage''] (loop_check s)"

abbreviation stopping :: "loop_state \<Rightarrow> loop_state" where
  "stopping s \<equiv> (loop_check (s\<lparr>wl_stop := True\<rparr>))\<lparr>wl_phase := Stopped\<rparr>"

definition busy0 :: loop_state where
  "busy0 = loop_turn w0 (loop_init waiting_db0)"

definition task0 :: job where
  "task0 = from_row 0 (lease w0 ''w'' (queue_lease_ttl_s st0) waiting_job0)"

definition finished_worker0 :: loop_state where
  "finished_worker0 = stopping (loop_end 0 w0 st0 ''w'' task0 Returned busy0)"

text \<open>The lease is reaped, the job claimed again, then the first of the two tasks ends.\<close>

definition twice0 :: loop_state where
  "twice0 = loop_turn w_late (busy0\<lparr>wl_db := reap_round (\<lambda>i. False) w_late ''w'' (wl_db busy0)\<rparr>)"

definition abandoned0 :: loop_state where
  "abandoned0 = stopping (loop_end 0 w_late st0 ''w'' task0 Returned twice0)"

lemma busy0_facts: "wl_phase busy0 = AtCheck \<and> wl_stop busy0 = False \<and> wl_tasks busy0 = [task0] \<and> wl_claimed busy0 = [task0]"
  by code_simp

lemma waiting_db0_ok: "jobs_ok waiting_db0"
  by (simp add: jobs_ok_def waiting_db0_def waiting_job0_def job0_def empty_db_def job_keys_def map_filter_simps)

lemma loop_turn_run:
  assumes "wl_phase s = AtCheck" "\<not> wl_stop s"
  shows "(loop_step st0 ''w'' [''triage''])\<^sup>*\<^sup>* s (loop_turn w s)"
proof (rule rtranclp.rtrancl_into_rtrancl [OF r_into_rtranclp])
  show "loop_step st0 ''w'' [''triage''] s (loop_check s)" by (rule ls_check [OF assms(1)])
  show "loop_step st0 ''w'' [''triage''] (loop_check s) (loop_turn w s)"
    by (rule ls_claim) (simp add: loop_check_def assms(2))
qed

lemma stopping_run:
  assumes "wl_phase s = AtCheck" "set (map snd (s_running (wl_slots s))) \<inter> set (wl_tasks s) = {}"
  shows "(loop_step st0 ''w'' [''triage''])\<^sup>*\<^sup>* s (stopping s)"
proof -
  let ?a = "s\<lparr>wl_stop := True\<rparr>"
  have "loop_step st0 ''w'' [''triage''] s ?a" by (rule ls_signal)
  moreover have "loop_step st0 ''w'' [''triage''] ?a (loop_check ?a)" by (rule ls_check) (simp add: assms(1))
  moreover have "loop_step st0 ''w'' [''triage''] (loop_check ?a) (stopping s)"
    by (rule ls_stopped) (use assms(2) in \<open>simp_all add: loop_check_def\<close>)
  ultimately show ?thesis by (meson r_into_rtranclp rtranclp.rtrancl_into_rtrancl)
qed

lemma finished_worker0_run: "(loop_step st0 ''w'' [''triage''])\<^sup>*\<^sup>* (loop_init waiting_db0) finished_worker0"
proof -
  let ?e = "loop_end 0 w0 st0 ''w'' task0 Returned busy0"
  have "(loop_step st0 ''w'' [''triage''])\<^sup>*\<^sup>* (loop_init waiting_db0) busy0"
    unfolding busy0_def by (rule loop_turn_run) (simp_all add: loop_init_def)
  moreover have "loop_step st0 ''w'' [''triage''] busy0 ?e"
    by (rule ls_end) (simp_all add: busy0_facts may_end_def)
  moreover have "(loop_step st0 ''w'' [''triage''])\<^sup>*\<^sup>* ?e finished_worker0"
  proof -
    have "wl_phase ?e = AtCheck \<and> wl_tasks ?e = []" by code_simp
    then show ?thesis unfolding finished_worker0_def by (intro stopping_run) simp_all
  qed
  ultimately show ?thesis by (meson rtranclp.rtrancl_into_rtrancl rtranclp_trans)
qed

text \<open>
  What the table of running jobs loses: the second task of the job is not waited for, and the
  worker returns while it runs and holds its lease.
\<close>

theorem stop_leaves_a_task:
  "\<exists>s job. (loop_step st0 ''w'' [''triage''])\<^sup>*\<^sup>* (loop_init waiting_db0) s \<and> wl_phase s = Stopped \<and>
     job \<in> set (wl_tasks s) \<and> holds (wl_db s) job \<and> (job, OError) \<notin> set (wl_outcomes s)"
proof -
  let ?r = "busy0\<lparr>wl_db := reap_round (\<lambda>i. False) w_late ''w'' (wl_db busy0)\<rparr>"
  let ?e = "loop_end 0 w_late st0 ''w'' task0 Returned twice0"
  have "(loop_step st0 ''w'' [''triage''])\<^sup>*\<^sup>* (loop_init waiting_db0) busy0"
    unfolding busy0_def by (rule loop_turn_run) (simp_all add: loop_init_def)
  moreover have "loop_step st0 ''w'' [''triage''] busy0 ?r" by (rule ls_reap) (simp add: busy0_facts)
  moreover have "(loop_step st0 ''w'' [''triage''])\<^sup>*\<^sup>* ?r twice0"
    unfolding twice0_def by (rule loop_turn_run) (simp_all add: busy0_facts)
  moreover have "loop_step st0 ''w'' [''triage''] twice0 ?e"
  proof (rule ls_end)
    show "task0 \<in> set (wl_tasks twice0)" by code_simp
  qed (simp add: may_end_def)
  moreover have "(loop_step st0 ''w'' [''triage''])\<^sup>*\<^sup>* ?e abandoned0"
  proof -
    have "wl_phase ?e = AtCheck" "s_running (wl_slots ?e) = []" by code_simp+
    then show ?thesis unfolding abandoned0_def by (intro stopping_run) simp_all
  qed
  ultimately have "(loop_step st0 ''w'' [''triage''])\<^sup>*\<^sup>* (loop_init waiting_db0) abandoned0"
    by (meson rtranclp.rtrancl_into_rtrancl rtranclp_trans)
  moreover have "wl_phase abandoned0 = Stopped \<and> list_ex (\<lambda>j. holds (wl_db abandoned0) j \<and>
      (j, OError) \<notin> set (wl_outcomes abandoned0)) (wl_tasks abandoned0)" by code_simp
  ultimately show ?thesis by (auto simp: list_ex_iff)
qed

end
