(* ===== verification/Router.thy ===== *)
theory Router
  imports CliBackend Retrieval
begin

text \<open>
  Which model backend a process uses (\<open>build_backend\<close> of \<open>llm/router.py\<close>), and which embedder
  and reranker (\<open>kb/models.py\<close>). Shown: only a configured backend is built, a recorded one is
  never retried, and a paid one never without its key.
\<close>

record llm_settings =
  ls_backend :: string
  ls_cli_binary :: string
  ls_effort :: string
  ls_cassette :: "string option"
  ls_api_key :: "string option"
  ls_base_url :: string
  ls_timeout_s :: duration
  ls_retries :: nat
  ls_concurrency :: nat

definition default_llm_settings :: llm_settings where
  "default_llm_settings =
     \<lparr>ls_backend = ''cli'', ls_cli_binary = ''claude'', ls_effort = ''low'', ls_cassette = None, ls_api_key = None,
      ls_base_url = ''https://api.anthropic.com'', ls_timeout_s = 180, ls_retries = 3, ls_concurrency = 2\<rparr>"

text \<open>What is built: \<open>claude -p\<close> with so many processes at once, the API with key, URL and time limit, a cassette.\<close>

datatype built = BuiltCli cli_config nat | BuiltApi string string duration | BuiltReplay string

definition build_backend :: "llm_settings \<Rightarrow> string + built \<times> retry_policy option" where
  "build_backend st =
     (let retried = Some \<lparr>ry_retries = ls_retries st, ry_base_s = 2, ry_max_wait_s = 120\<rparr>
      in if ls_backend st = ''cli''
         then Inr (BuiltCli \<lparr>cc_binary = ls_cli_binary st, cc_timeout_s = ls_timeout_s st, cc_extra_args = [], cc_effort = ls_effort st\<rparr>
                (ls_concurrency st), retried)
         else if ls_backend st = ''api''
         then (case ls_api_key st of
                 None \<Rightarrow> Inl ''SRE_LLM_BACKEND=api needs SRE_ANTHROPIC_API_KEY''
               | Some key \<Rightarrow> Inr (BuiltApi key (ls_base_url st) (ls_timeout_s st), retried))
         else if ls_backend st = ''replay''
         then (case ls_cassette st of
                 Some (c # path) \<Rightarrow> Inr (BuiltReplay (c # path), None)
               | _ \<Rightarrow> Inl ''SRE_LLM_BACKEND=replay needs SRE_LLM_CASSETTE'')
         else Inl (''unknown SRE_LLM_BACKEND '' @ py_repr (ls_backend st) @ '' (cli, api or replay)''))"

text \<open>\<open>embedder\<close> and \<open>reranker\<close>: the stand-ins by their names, any other name is a model's.\<close>

datatype chosen = StandIn | Weights string

definition embedder_choice :: "string \<Rightarrow> chosen" where
  "embedder_choice name = (if name = ''hash'' then StandIn else Weights name)"

definition reranker_choice :: "string \<Rightarrow> chosen" where
  "reranker_choice name = (if name = ''overlap'' then StandIn else Weights name)"

section \<open>What is built\<close>

lemma build_backend_kind:
  assumes "build_backend st = Inr (b, p)"
  shows "case b of
      BuiltCli cc n \<Rightarrow> ls_backend st = ''cli'' \<and> p \<noteq> None
    | BuiltApi key url t \<Rightarrow> ls_backend st = ''api'' \<and> ls_api_key st = Some key \<and> p \<noteq> None
    | BuiltReplay path \<Rightarrow> ls_backend st = ''replay'' \<and> ls_cassette st = Some path \<and> path \<noteq> [] \<and> p = None"
  using assms by (auto simp: build_backend_def Let_def split: if_splits option.splits list.splits)

lemma build_backend_fails:
  "(\<exists>e. build_backend st = Inl e) \<longleftrightarrow>
   (ls_backend st = ''api'' \<and> ls_api_key st = None) \<or> (ls_backend st = ''replay'' \<and> ls_cassette st \<in> {None, Some []}) \<or>
   ls_backend st \<notin> {''cli'', ''api'', ''replay''}"
  by (auto simp: build_backend_def Let_def split: option.splits list.splits)

end
