(* ===== verification/Vectors.thy ===== *)
theory Vectors
  imports Retrieval
begin

text \<open>
  \<open>HashEmbedder\<close> of \<open>app/kb/models.py\<close>, over parameters for the 64 bit hash of a text and for
  the square root. Shown: every vector has \<open>DIM\<close> entries, the count of an entry is the
  sum of the signs of the features hashed to it, and a vector is normalised when the root is one.
\<close>

definition DIM :: nat where
  "DIM = 384"

definition features :: "string \<Rightarrow> string list" where
  "features t = (let ws = words_in [] (map lower_char t) in ws @ map2 (\<lambda>a b. a @ '' '' @ b) ws (tl ws))"

definition hash_sign :: "nat \<Rightarrow> int" where
  "hash_sign h = (if odd (h div 2 ^ 32) then 1 else - 1)"

definition count_feature :: "(string \<Rightarrow> nat) \<Rightarrow> string \<Rightarrow> int list \<Rightarrow> int list" where
  "count_feature digest f v = (let h = digest f in v[h mod DIM := v ! (h mod DIM) + hash_sign h])"

definition hash_counts :: "(string \<Rightarrow> nat) \<Rightarrow> string \<Rightarrow> int list" where
  "hash_counts digest t = fold (count_feature digest) (features t) (replicate DIM 0)"

definition squares :: "int list \<Rightarrow> rat" where
  "squares v = sum_list (map (\<lambda>x. of_int x * of_int x) v)"

definition norm_of :: "(rat \<Rightarrow> rat) \<Rightarrow> int list \<Rightarrow> rat" where
  "norm_of sq v = (let n = sq (squares v) in if n = 0 then 1 else n)"

definition hash_vector :: "(rat \<Rightarrow> rat) \<Rightarrow> (string \<Rightarrow> nat) \<Rightarrow> string \<Rightarrow> rat list" where
  "hash_vector sq digest t = (let v = hash_counts digest t in map (\<lambda>x. of_int x / norm_of sq v) v)"

definition hash_documents :: "(rat \<Rightarrow> rat) \<Rightarrow> (string \<Rightarrow> nat) \<Rightarrow> string list \<Rightarrow> rat list list" where
  "hash_documents sq digest ts = map (hash_vector sq digest) ts"

section \<open>Its entries\<close>

lemma count_feature_length [simp]: "length (count_feature digest f v) = length v"
  by (simp add: count_feature_def Let_def)

lemma hash_counts_length [simp]: "length (hash_counts digest t) = DIM"
proof -
  have "length (fold (count_feature digest) fs v) = length v" for fs v by (induction fs arbitrary: v) auto
  then show ?thesis by (simp add: hash_counts_def)
qed

lemma hash_vector_length [simp]: "length (hash_vector sq digest t) = DIM"
  by (simp add: hash_vector_def Let_def)

lemma count_feature_nth:
  "length v = DIM \<Longrightarrow> i < DIM \<Longrightarrow> count_feature digest f v ! i = v ! i + (if digest f mod DIM = i then hash_sign (digest f) else 0)"
  by (auto simp: count_feature_def Let_def nth_list_update DIM_def)

lemma hash_counts_nth:
  assumes "i < DIM"
  shows "hash_counts digest t ! i = sum_list (map (hash_sign \<circ> digest) (filter (\<lambda>f. digest f mod DIM = i) (features t)))"
proof -
  have "fold (count_feature digest) fs v ! i = v ! i + sum_list (map (hash_sign \<circ> digest) (filter (\<lambda>f. digest f mod DIM = i) fs))"
    if "length v = DIM" for fs v
    using that by (induction fs arbitrary: v) (auto simp: count_feature_nth [OF _ assms])
  then show ?thesis using assms by (simp add: hash_counts_def)
qed

text \<open>A vector without a feature is left as it is; any other has length 1.\<close>

lemma hash_vector_normal:
  assumes r: "sq (squares (hash_counts digest t)) * sq (squares (hash_counts digest t)) = squares (hash_counts digest t)"
  shows "sum_list (map (\<lambda>x. x * x) (hash_vector sq digest t)) = (if squares (hash_counts digest t) = 0 then 0 else 1)"
proof -
  let ?v = "hash_counts digest t"
  let ?n = "norm_of sq ?v"
  have "sum_list (map (\<lambda>x. (of_int x / n) * (of_int x / n)) v) = squares v / (n * n)" for n :: rat and v :: "int list"
    by (induction v) (auto simp: squares_def add_divide_distrib)
  then have "sum_list (map (\<lambda>x. x * x) (hash_vector sq digest t)) = squares ?v / (?n * ?n)"
    by (simp add: hash_vector_def Let_def comp_def)
  with r show ?thesis by (auto simp: norm_of_def Let_def)
qed

end
