(* ===== verification/Fetching.thy ===== *)
theory Fetching
  imports MetricTools TraceTools
begin

text \<open>
  What the tools ask Prometheus and Jaeger (\<open>app/tools/prometheus.py\<close>, \<open>app/tools/jaeger.py\<close>).
  \<open>secs\<close> is the text of a time's seconds as a float, \<open>us\<close> its whole microseconds reckoned with
  floats. Shown: the window of a query is as long as was asked for, whether or not it has an end;
  an identifier is asked for in lower case; a search without an answer is an empty one.
\<close>

section \<open>Prometheus\<close>

definition prom_query_params :: "(time \<Rightarrow> string) \<Rightarrow> string \<Rightarrow> time option \<Rightarrow> time \<Rightarrow> (string \<times> string) list" where
  "prom_query_params secs query moment now =
     [(''query'', query), (''time'', secs (case moment of None \<Rightarrow> now | Some t \<Rightarrow> t))]"

definition fetch_query :: "(time \<Rightarrow> string) \<Rightarrow> string \<Rightarrow> http_backend \<Rightarrow> string \<Rightarrow> time option \<Rightarrow> time \<Rightarrow> texn + obj" where
  "fetch_query secs base_url backend query moment now =
     bindS (get_json base_url (backend ''/api/v1/query'' (prom_query_params secs query moment now))) prom_data"

text \<open>The end of a window, and its start.\<close>

definition window_of :: "time option \<Rightarrow> nat \<Rightarrow> time \<Rightarrow> time \<times> time" where
  "window_of finish minutes now =
     (let e = (case finish of None \<Rightarrow> now | Some t \<Rightarrow> t) in (e - int minutes * 60000000, e))"

definition prom_range_params ::
    "(time \<Rightarrow> string) \<Rightarrow> string \<Rightarrow> nat \<Rightarrow> nat option \<Rightarrow> time option \<Rightarrow> time \<Rightarrow> (string \<times> string) list" where
  "prom_range_params secs query minutes step_s finish now =
     [(''query'', query), (''start'', secs (fst (window_of finish minutes now))), (''end'', secs (snd (window_of finish minutes now))),
      (''step'', dec (range_step step_s minutes))]"

definition fetch_range ::
    "(time \<Rightarrow> string) \<Rightarrow> string \<Rightarrow> http_backend \<Rightarrow> string \<Rightarrow> nat \<Rightarrow> nat option \<Rightarrow> time option \<Rightarrow> time \<Rightarrow> texn + obj" where
  "fetch_range secs base_url backend query minutes step_s finish now =
     bindS (get_json base_url (backend ''/api/v1/query_range'' (prom_range_params secs query minutes step_s finish now))) (\<lambda>body.
     bindS (prom_data body) (\<lambda>data. Inr (dict_put ''step'' (JInt (int (range_step step_s minutes))) data)))"

section \<open>Jaeger\<close>

record traces_args =
  ta_service :: string
  ta_operation :: "string option"
  ta_errors_only :: bool
  ta_min_duration_ms :: "nat option"
  ta_minutes :: nat
  ta_limit :: nat
  ta_end :: "time option"

definition jaeger_params :: "(time \<Rightarrow> int) \<Rightarrow> traces_args \<Rightarrow> time \<Rightarrow> (string \<times> string) list" where
  "jaeger_params us a now =
     [(''service'', ta_service a), (''start'', dec_int (us (fst (window_of (ta_end a) (ta_minutes a) now)))),
      (''end'', dec_int (us (snd (window_of (ta_end a) (ta_minutes a) now)))), (''limit'', dec (ta_limit a))] @
     (case ta_operation a of Some (c # t) \<Rightarrow> [(''operation'', c # t)] | _ \<Rightarrow> []) @
     (if ta_errors_only a then [(''tags'', ''{'' @ quoted ''error'' @ '': '' @ quoted ''true'' @ ''}'')] else []) @
     (case ta_min_duration_ms a of Some (Suc n) \<Rightarrow> [(''minDuration'', dec (Suc n) @ ''ms'')] | _ \<Rightarrow> [])"

definition search_traces :: "(time \<Rightarrow> int) \<Rightarrow> string \<Rightarrow> http_backend \<Rightarrow> traces_args \<Rightarrow> time \<Rightarrow> texn + json" where
  "search_traces us base_url backend a now =
     bindS (get_json base_url (backend ''/api/traces'' (jaeger_params us a now))) (\<lambda>body.
     bindS (tget body ''data'' JNull) (\<lambda>data. Inr (or_else data (JArr []))))"

definition get_trace :: "string \<Rightarrow> http_backend \<Rightarrow> string \<Rightarrow> texn + json" where
  "get_trace base_url backend trace_id =
     bindS (get_json base_url (backend (''/api/traces/'' @ map lower_char trace_id) [])) (\<lambda>body.
     bindS (tget body ''data'' JNull) (\<lambda>data.
       if \<not> truthy data
       then Inl (ToolRaised (ToolError ''not_found'' (''trace '' @ trace_id @ '' not found (it may have aged out)'') False))
       else bindS (titems data) (\<lambda>ts. Inr (hd ts))))"

section \<open>What is asked\<close>

lemma window_length: "snd (window_of finish minutes now) - fst (window_of finish minutes now) = int minutes * 60 * 1000000"
  by (simp add: window_of_def Let_def)

text \<open>The step of a range query is the one in its parameters, and keeps the points it asks for few.\<close>

lemma fetch_range_step:
  assumes "fetch_range secs base_url backend query minutes step_s finish now = Inr data"
  shows "jget data ''step'' = Some (JInt (int (range_step step_s minutes)))"
  using assms by (auto simp: fetch_range_def bindS_Inr_iff jget_dict_put)

lemma default_step_points:
  assumes "0 < minutes"
  shows "0 < range_step None minutes" "minutes * 60 div range_step None minutes \<le> 239"
proof -
  let ?s = "range_step None minutes" and ?m = "minutes * 60"
  show "0 < ?s" by (simp add: range_step_def)
  have "?m < 120 + ?m div 120 * 120" by (rule dividend_less_div_times) simp
  moreover have "?m div 120 \<le> ?s" "15 \<le> ?s" by (simp_all add: range_step_def)
  ultimately have "?m < 240 * ?s" by linarith
  then have "?m div ?s < 240" by (rule less_mult_imp_div_less)
  then show "?m div ?s \<le> 239" by linarith
qed

lemma only_errors_asked:
  "(''tags'', t) \<in> set (jaeger_params us a now) \<longleftrightarrow> ta_errors_only a \<and> t = ''{'' @ quoted ''error'' @ '': '' @ quoted ''true'' @ ''}''"
  by (cases "ta_errors_only a") (simp_all add: jaeger_params_def split: option.split list.split nat.split)

lemma search_without_data:
  assumes "get_json base_url (backend ''/api/traces'' (jaeger_params us a now)) = Inr (JObj kvs)" "jget kvs ''data'' = None"
  shows "search_traces us base_url backend a now = Inr (JArr [])"
  using assms by (simp add: search_traces_def tget_def or_else_def)

lemma get_trace_case_blind: "map lower_char s = map lower_char t \<Longrightarrow>
    get_trace base_url backend s = Inr j \<Longrightarrow> get_trace base_url backend t = Inr j"
  by (auto simp: get_trace_def bindS_Inr_iff split: if_splits)

end
