(* ===== verification/LabFaults.thy ===== *)
theory LabFaults
  imports CliBackend "HOL-Library.AList"
begin

text \<open>
  How the lab breaks and repairs its cluster (\<open>scripts/lab/faults.py\<close>, \<open>cluster.py\<close>): the kinds
  of fault, the documents they are injected with, and the calls that inject and undo one. The
  catalogue itself is data and left out. Shown: setting a flag makes its fault active and touches
  no other flag, and undoing it leaves no fault of that flag active.
\<close>

definition NAMESPACE :: string where
  "NAMESPACE = ''otel-demo''"

definition CHAOS_API :: string where
  "CHAOS_API = ''chaos-mesh.org/v1alpha1''"

definition CHANGE_CAUSE_KEY :: string where
  "CHANGE_CAUSE_KEY = ''kubernetes.io/change-cause''"

definition MANAGED_BY :: "(string \<times> json) list" where
  "MANAGED_BY = [(''app.kubernetes.io/managed-by'', JStr ''sre-lab'')]"

datatype mechanism =
    FlagFault string string
  | ChaosFault string json
  | ReleaseFault string string "(string \<times> string) list" string

record fault =
  fa_name :: string
  fa_root_cause :: string
  fa_fault_type :: string
  fa_symptoms :: "string list"
  fa_mechanism :: mechanism
  fa_repair :: "(string \<times> string) option"

definition fault_kind :: "fault \<Rightarrow> string" where
  "fault_kind f = (case fa_mechanism f of FlagFault _ _ \<Rightarrow> ''flag'' | ChaosFault _ _ \<Rightarrow> ''chaos'' | ReleaseFault _ _ _ _ \<Rightarrow> ''release'')"

definition chaos_name :: "fault \<Rightarrow> string" where
  "chaos_name f = ''lab-'' @ fa_name f"

section \<open>Documents\<close>

definition chaos_manifest :: "string \<Rightarrow> string \<Rightarrow> json \<Rightarrow> json" where
  "chaos_manifest name kind spec =
     JObj [(''apiVersion'', JStr CHAOS_API), (''kind'', JStr kind),
       (''metadata'', JObj [(''name'', JStr name), (''namespace'', JStr NAMESPACE), (''labels'', JObj MANAGED_BY)]),
       (''spec'', spec)]"

definition release_patch :: "string \<Rightarrow> (string \<times> string) list \<Rightarrow> string \<Rightarrow> json" where
  "release_patch container env cause =
     JObj [(''metadata'', JObj [(''annotations'', JObj [(CHANGE_CAUSE_KEY, JStr cause)])]),
       (''spec'', JObj [(''template'', JObj [(''spec'', JObj [(''containers'', JArr [JObj [(''name'', JStr container),
          (''env'', JArr (map (\<lambda>(k, v). JObj [(''name'', JStr k), (''value'', JStr v)]) (sort_key fst env)))]])])])])]"

text \<open>The flags of flagd: a flag's other fields, its variants and the variant that is served.\<close>

record flag_spec =
  fs_variants :: "string list"
  fs_default :: "string option"

definition with_flag :: "(string \<times> flag_spec) list \<Rightarrow> string \<Rightarrow> string \<Rightarrow> string + (string \<times> flag_spec) list" where
  "with_flag flags flag variant =
     (case map_of flags flag of
        None \<Rightarrow> Inl ''KeyError''
      | Some spec \<Rightarrow>
          if variant \<notin> set (fs_variants spec) then Inl ''KeyError''
          else Inr (AList.update flag (spec\<lparr>fs_default := Some variant\<rparr>) flags))"

section \<open>Calls\<close>

datatype lab_call = SetFlag string string | Kubectl "string list" string

definition rollout_status :: "string \<Rightarrow> lab_call" where
  "rollout_status d = Kubectl [''rollout'', ''status'', ''deployment/'' @ d, ''--timeout=180s''] []"

definition inject_calls :: "fault \<Rightarrow> lab_call list" where
  "inject_calls f =
     (case fa_mechanism f of
        FlagFault flag variant \<Rightarrow> [SetFlag flag variant]
      | ChaosFault kind spec \<Rightarrow> [Kubectl [''apply'', ''-f'', ''-''] (ascii_dumps (chaos_manifest (chaos_name f) kind spec))]
      | ReleaseFault d container env cause \<Rightarrow>
          [Kubectl [''patch'', ''deployment'', d, ''--type=strategic'', ''-p'', ascii_dumps (release_patch container env cause)] [],
           rollout_status d])"

text \<open>What is looked at: the flags, the names \<open>kubectl get\<close> prints, the annotations of a deployment.\<close>

record lab_view =
  lv_flags :: "(string \<times> flag_spec) list"
  lv_printed :: "string \<Rightarrow> string \<Rightarrow> string"
  lv_annotations :: "string \<Rightarrow> (string \<times> string) list"

definition served_variant :: "(string \<times> flag_spec) list \<Rightarrow> string \<Rightarrow> string" where
  "served_variant flags flag =
     (case map_of flags flag of None \<Rightarrow> ''off'' | Some spec \<Rightarrow> (case fs_default spec of None \<Rightarrow> ''off'' | Some v \<Rightarrow> v))"

definition is_active :: "lab_view \<Rightarrow> fault \<Rightarrow> bool" where
  "is_active v f \<longleftrightarrow>
     (case fa_mechanism f of
        FlagFault flag variant \<Rightarrow> served_variant (lv_flags v) flag = variant
      | ChaosFault kind spec \<Rightarrow> strip (lv_printed v (map lower_char kind) (chaos_name f)) \<noteq> []
      | ReleaseFault d container env cause \<Rightarrow> map_of (lv_annotations v d) CHANGE_CAUSE_KEY = Some cause)"

definition active_faults :: "lab_view \<Rightarrow> fault list \<Rightarrow> fault list" where
  "active_faults v catalogue_faults = filter (is_active v) catalogue_faults"

definition undo_calls :: "fault \<Rightarrow> lab_call list" where
  "undo_calls f =
     (case fa_mechanism f of
        FlagFault flag variant \<Rightarrow> [SetFlag flag ''off'']
      | ChaosFault kind spec \<Rightarrow> [Kubectl [''delete'', map lower_char kind, chaos_name f, ''--ignore-not-found'', ''--wait=true''] []]
      | ReleaseFault d container env cause \<Rightarrow>
          [Kubectl [''rollout'', ''undo'', ''deployment/'' @ d] [],
           Kubectl [''annotate'', ''deployment'', d, CHANGE_CAUSE_KEY @ ''=rollback of: '' @ cause, ''--overwrite''] [],
           rollout_status d])"

text \<open>\<open>recover\<close>: the calls, and whether anything was changed.\<close>

definition recover :: "lab_view \<Rightarrow> fault \<Rightarrow> lab_call list \<times> bool" where
  "recover v f = (if is_active v f then (undo_calls f, True) else ([], False))"

section \<open>Flags\<close>

lemma with_flag_serves: "with_flag flags flag variant = Inr flags' \<Longrightarrow>
    served_variant flags' x = (if x = flag then variant else served_variant flags x)"
  by (auto simp: with_flag_def served_variant_def update_conv' split: option.splits if_splits)

text \<open>An injected flag fault is active; flag faults on other flags are as before.\<close>

lemma injected_flag_is_active:
  assumes "with_flag (lv_flags v) flag variant = Inr flags'" "fa_mechanism g = FlagFault flag' variant'"
  shows "is_active (v\<lparr>lv_flags := flags'\<rparr>) g \<longleftrightarrow> (if flag' = flag then variant' = variant else is_active v g)"
  using assms by (auto simp: is_active_def with_flag_serves)

text \<open>Recovering it leaves none of the flag's faults active, whatever their strength.\<close>

lemma recovered_flag_is_off:
  assumes "with_flag (lv_flags v) flag ''off'' = Inr flags'" "fa_mechanism g = FlagFault flag variant'" "variant' \<noteq> ''off''"
  shows "\<not> is_active (v\<lparr>lv_flags := flags'\<rparr>) g"
  using injected_flag_is_active [OF assms(1,2)] assms(3) by simp

end
