(* ===== verification/LabRun.thy ===== *)
theory LabRun
  imports LabFaults Collect Incidents Flow "HOL-Library.Sublist"
begin

text \<open>
  The acceptance run on the lab (\<open>scripts/lab/accept.py\<close>, \<open>diagnose.py\<close>, \<open>remediate.py\<close>): what
  it waits for, what it decides on the plans, and when a fault counts as passed. A loop that polls
  is a function of what the polls saw; None means that they are used up. Shown: quiet means quiet
  in a row, a repair is approved once and only if it is the expected one, and a closed loop leaves
  its events in this order.
\<close>

section \<open>What was seen\<close>

record alert_seen =
  as_alertname :: string
  as_service :: string
  as_labels :: "(string \<times> string) list"
  as_after :: rat

record diagnosis_seen =
  dg_incident :: string
  dg_tenant :: string
  dg_title :: string
  dg_service :: string
  dg_priority :: nat
  dg_state :: istate
  dg_after :: rat
  dg_causes :: "(string \<times> rat) list"
  dg_reason :: string
  dg_investigation_s :: "rat option"
  dg_agents :: "(string \<times> run_status) list"
  dg_calls :: nat
  dg_tokens :: nat
  dg_cost_usd :: "rat option"

text \<open>\<open>Diagnoser._read\<close>; every call counts, those that failed included.\<close>

definition read_diagnosis :: "(llm_call_row \<Rightarrow> rat option) \<Rightarrow> db \<Rightarrow> time \<Rightarrow> incident_row \<Rightarrow> diagnosis_seen" where
  "read_diagnosis cost d t0 row =
     (let inc = i_id row; over = ended_row d inc; calls = incident_calls d inc;
          causes = (case flow_diagnosis d inc of None \<Rightarrow> [] | Some x \<Rightarrow> dx_root_causes x)
      in \<lparr>dg_incident = inc, dg_tenant = i_tenant row, dg_title = i_title row, dg_service = i_service row,
          dg_priority = i_priority row, dg_state = i_state row, dg_after = seconds_between (i_created_at row) t0,
          dg_causes = map (\<lambda>c. (rc_service c, rc_confidence c)) causes, dg_reason = ended_reason over,
          dg_investigation_s = map_option (\<lambda>a. seconds_between (a_ts a) (i_created_at row)) over,
          dg_agents = fold (\<lambda>r m. AList.update (r_agent r) (r_status r) m) (filter (\<lambda>r. r_incident r = inc) (agent_runs d)) [],
          dg_calls = length calls, dg_tokens = sum_list (map (total_tokens \<circ> l_usage) calls),
          dg_cost_usd = sum_known (map cost calls)\<rparr>)"

definition dg_top :: "diagnosis_seen \<Rightarrow> string option" where
  "dg_top g = (case dg_causes g of [] \<Rightarrow> None | c # cs \<Rightarrow> Some (fst c))"

definition first_opened :: "diagnosis_seen list \<Rightarrow> diagnosis_seen option" where
  "first_opened gs = least_by (\<lambda>a b. (dg_after a, dg_priority a, dg_service a) < (dg_after b, dg_priority b, dg_service b)) gs"

section \<open>Waiting\<close>

text \<open>A poll: the clock's time and the alerts that are firing or pending.\<close>

fun wait_quiet :: "rat \<Rightarrow> rat \<Rightarrow> rat option \<Rightarrow> (rat \<times> string list) list \<Rightarrow> bool option" where
  "wait_quiet hold deadline quiet_since [] = None"
| "wait_quiet hold deadline quiet_since ((now, active) # polls) =
     (let since = (if active \<noteq> [] then None else if quiet_since = None then Some now else quiet_since)
      in if (case since of None \<Rightarrow> False | Some t \<Rightarrow> hold \<le> now - t) then Some True
         else if deadline < now then Some False
         else wait_quiet hold deadline since polls)"

fun check_baseline :: "rat \<Rightarrow> string list \<Rightarrow> (rat \<times> string list) list \<Rightarrow> string list option" where
  "check_baseline deadline found [] = None"
| "check_baseline deadline found ((now, active) # polls) =
     (let all = List.union active found
      in if deadline \<le> now then Some (sorted_set all) else check_baseline deadline all polls)"

definition INVESTIGATING_STATES :: "istate list" where
  "INVESTIGATING_STATES = [RECEIVED, TRIAGED, INVESTIGATING]"

definition PLANNING_STATES :: "istate list" where
  "PLANNING_STATES = [DIAGNOSED, PLANNED, SAFETY_REVIEWED]"

definition pending_states :: "bool \<Rightarrow> istate list" where
  "pending_states planning = INVESTIGATING_STATES @ (if planning then PLANNING_STATES else [])"

text \<open>\<open>Diagnoser.wait\<close>: the rows it goes on with, all done or not.\<close>

fun wait_diagnosed :: "istate list \<Rightarrow> rat \<Rightarrow> (rat \<times> incident_row list) list \<Rightarrow> incident_row list option" where
  "wait_diagnosed pending deadline [] = None"
| "wait_diagnosed pending deadline ((now, rows) # polls) =
     (if rows \<noteq> [] \<and> list_all (\<lambda>r. i_state r \<notin> set pending) rows then Some rows
      else if deadline < now then Some rows
      else wait_diagnosed pending deadline polls)"

text \<open>\<open>Diagnoser._incidents\<close>: oldest first.\<close>

definition opened_since :: "string list \<Rightarrow> time \<Rightarrow> db \<Rightarrow> incident_row list" where
  "opened_since tenants since d =
     sort_key (\<lambda>r. (i_created_at r, i_priority r, i_service r)) (filter (\<lambda>r. i_tenant r \<in> set tenants \<and> since \<le> i_created_at r) (incidents d))"

text \<open>\<open>Diagnoser._close\<close>: one transaction for all that are open.\<close>

fun close_each :: "world \<Rightarrow> incident_row list \<Rightarrow> nat tx" where
  "close_each w [] d = Inr (0, d)"
| "close_each w (r # rs) d =
     bindS (transition w (i_id r) (i_state r) ESCALATED (i_version r) ''lab:accept'' ''lab: fault recovered'' d) (\<lambda>(_, d1).
     bindS (close_each w rs d1) (\<lambda>(n, d2). Inr (Suc n, d2)))"

definition lab_close :: "world \<Rightarrow> string list \<Rightarrow> time \<Rightarrow> nat tx" where
  "lab_close w tenants since d =
     close_each w (filter (\<lambda>r. i_tenant r \<in> set tenants \<and> since \<le> i_created_at r \<and> i_closed_at r = None) (incidents d)) d"

section \<open>The human in the loop\<close>

definition LOOP_EVENTS :: "string list" where
  "LOOP_EVENTS = [''remediation.plan'', ''remediation.approved'', ''execution.started'', ''execution.succeeded'', ''verification.passed'']"

text \<open>\<open>it = iter(events); all(e in it for e in wanted)\<close>: every \<open>in\<close> takes from the iterator up to its match.\<close>

fun in_order :: "string list \<Rightarrow> string list \<Rightarrow> bool" where
  "in_order [] events \<longleftrightarrow> True"
| "in_order (e # es) events \<longleftrightarrow>
     (case dropWhile (\<lambda>x. x \<noteq> e) events of [] \<Rightarrow> False | x # rest \<Rightarrow> in_order es rest)"

record remediation_seen =
  rs_incident :: string
  rs_service :: string
  rs_plan :: "string list"
  rs_verdict :: "verdict option"
  rs_decision :: "approval_decision option"
  rs_left :: string
  rs_state :: istate
  rs_events :: "string list"

definition rs_closed_loop :: "remediation_seen \<Rightarrow> bool" where
  "rs_closed_loop r \<longleftrightarrow> rs_decision r = Some Approve \<and> rs_state r = RESOLVED \<and> in_order LOOP_EVENTS (rs_events r)"

text \<open>A plan as the API shows it: action and deployment of every action, the hash, the verdict.\<close>

record plan_seen =
  ps_actions :: "(string \<times> string) list"
  ps_hash :: string
  ps_verdict :: verdict

record approval_request =
  aq_incident :: string
  aq_hash :: string
  aq_decision :: approval_decision
  aq_comment :: string

definition action_line :: "string \<times> string \<Rightarrow> string" where
  "action_line a = fst a @ '' '' @ snd a"

definition wanted_plan :: "fault \<Rightarrow> string list" where
  "wanted_plan f = (case fa_repair f of None \<Rightarrow> [] | Some a \<Rightarrow> [action_line a])"

definition comment_on :: "string list \<Rightarrow> string list \<Rightarrow> string" where
  "comment_on wanted plan =
     (if plan = wanted then ''lab: the expected repair''
      else ''lab: expected '' @ hd wanted @ '', not '' @ (if plan = [] then ''nothing'' else join '', '' plan))"

text \<open>
  One diagnosis with its plans, oldest first; \<open>approved\<close> names the incident the repair was approved
  on. The result: what was seen, and the request that was sent.
\<close>

definition look_at ::
    "fault \<Rightarrow> string option \<Rightarrow> diagnosis_seen \<Rightarrow> plan_seen list \<Rightarrow> remediation_seen \<times> approval_request option" where
  "look_at f approved g plans =
     (let r = \<lparr>rs_incident = dg_incident g, rs_service = dg_service g, rs_plan = [], rs_verdict = None, rs_decision = None,
               rs_left = [], rs_state = dg_state g, rs_events = []\<rparr>
      in if plans = [] then (r, None)
         else let p = last plans; lines = map action_line (ps_actions p); wanted = wanted_plan f;
                  r1 = r\<lparr>rs_plan := lines, rs_verdict := Some (ps_verdict p)\<rparr>
              in if dg_state g = AWAITING_APPROVAL \<and> wanted \<noteq> [] \<and> lines = wanted \<and> approved \<noteq> None
                 then (r1\<lparr>rs_left := ''already approved on '' @ the approved\<rparr>, None)
                 else if dg_state g = AWAITING_APPROVAL \<and> wanted \<noteq> []
                 then let choice = (if lines = wanted then Approve else Reject)
                      in (r1\<lparr>rs_decision := Some choice\<rparr>,
                          Some \<lparr>aq_incident = dg_incident g, aq_hash = ps_hash p, aq_decision = choice,
                                aq_comment = comment_on wanted lines\<rparr>)
                 else (r1, None))"

text \<open>The loop over the diagnoses; \<open>api\<close> tells whether a request is accepted, an error stops the loop.\<close>

fun look_at_all ::
    "(approval_request \<Rightarrow> bool) \<Rightarrow> fault \<Rightarrow> (string \<Rightarrow> plan_seen list) \<Rightarrow> string option \<Rightarrow> diagnosis_seen list \<Rightarrow>
       approval_request list \<times> (unit + remediation_seen list)" where
  "look_at_all api f plans approved [] = ([], Inr [])"
| "look_at_all api f plans approved (g # gs) =
     (let seen = look_at f approved g (plans (dg_incident g))
      in case snd seen of
           None \<Rightarrow>
             let rest = look_at_all api f plans approved gs in (fst rest, map_sum id (\<lambda>rs. fst seen # rs) (snd rest))
         | Some q \<Rightarrow>
             if \<not> api q then ([q], Inl ())
             else let rest = look_at_all api f plans
                         (if aq_decision q = Approve then Some (dg_title g @ ''/'' @ dg_service g) else approved) gs
                  in (q # fst rest, map_sum id (\<lambda>rs. fst seen # rs) (snd rest)))"

text \<open>The wait for the incidents that were approved: the ones that are not at their end when it stops.\<close>

fun wait_final :: "rat \<Rightarrow> string list \<Rightarrow> (rat \<times> (string \<times> istate) list) list \<Rightarrow> string list" where
  "wait_final deadline waiting [] = waiting"
| "wait_final deadline waiting ((now, states) # polls) =
     (if waiting = [] \<or> deadline \<le> now then waiting
      else wait_final deadline
        (filter (\<lambda>i. \<not> list_ex (\<lambda>(j, s). j = i \<and> s \<in> {RESOLVED, ESCALATED}) states) waiting) polls)"

section \<open>The result of a fault\<close>

record lab_result =
  lr_fault :: string
  lr_root_cause :: string
  lr_expected :: "string list"
  lr_quiet_before :: bool
  lr_first_alert_s :: "rat option"
  lr_alerts :: "alert_seen list"
  lr_incident_created :: bool
  lr_resolved_s :: "rat option"
  lr_flapping :: "string list"
  lr_probes :: "(string \<times> bool) list"
  lr_diagnosed :: bool
  lr_diagnoses :: "diagnosis_seen list"
  lr_variant_diagnoses :: "diagnosis_seen list"
  lr_repair :: "string option"
  lr_remediated :: bool
  lr_remediations :: "remediation_seen list"
  lr_error :: "string option"

definition lr_answer :: "lab_result \<Rightarrow> diagnosis_seen option" where
  "lr_answer r = first_opened (lr_diagnoses r)"

definition lr_diagnosis_correct :: "lab_result \<Rightarrow> bool" where
  "lr_diagnosis_correct r \<longleftrightarrow> (case lr_answer r of None \<Rightarrow> False | Some a \<Rightarrow> dg_top a = Some (lr_root_cause r))"

definition lr_closed_loop :: "lab_result \<Rightarrow> bool" where
  "lr_closed_loop r \<longleftrightarrow> list_ex rs_closed_loop (lr_remediations r)"

definition lr_symptom_matched :: "lab_result \<Rightarrow> bool" where
  "lr_symptom_matched r \<longleftrightarrow> list_ex (\<lambda>a. as_service a \<in> set (lr_expected r)) (lr_alerts r)"

definition lab_ok :: "rat \<Rightarrow> lab_result \<Rightarrow> bool" where
  "lab_ok alert_timeout r \<longleftrightarrow>
     lr_error r = None \<and> lr_quiet_before r \<and> (case lr_first_alert_s r of None \<Rightarrow> False | Some s \<Rightarrow> s \<le> alert_timeout) \<and>
     lr_incident_created r \<and> lr_symptom_matched r \<and> lr_flapping r = [] \<and> list_all snd (lr_probes r) \<and>
     (\<not> lr_diagnosed r \<or> (case lr_answer r of None \<Rightarrow> False | Some a \<Rightarrow> dg_top a \<noteq> None)) \<and>
     (\<not> lr_remediated r \<or> lr_repair r = None \<or> lr_closed_loop r) \<and> lr_resolved_s r \<noteq> None"

text \<open>The top candidate is right for two thirds of the faults, rounded up.\<close>

definition required_correct :: "nat \<Rightarrow> int" where
  "required_correct n = - ((- 2 * int n) div 3)"

section \<open>Alerts\<close>

text \<open>A stored notification.\<close>

record alert_event =
  ae_labels :: "(string \<times> string) list"
  ae_status :: alert_status
  ae_incident :: "string option"
  ae_received :: time

text \<open>\<open>_key\<close>: the label set.\<close>

definition alert_key :: "alert_event \<Rightarrow> (string \<times> string) list" where
  "alert_key a = sort_key fst (ae_labels a)"

definition alert_label :: "(string \<times> string) list \<Rightarrow> string" where
  "alert_label labels =
     (case map_of labels ''alertname'' of None \<Rightarrow> ''?'' | Some n \<Rightarrow> n) @
     (case map_of labels ''burn'' of None \<Rightarrow> [] | Some b \<Rightarrow> ''['' @ b @ '']'')"

definition filled_label :: "(string \<times> string) list \<Rightarrow> string \<Rightarrow> string option" where
  "filled_label labels k = (case map_of labels k of Some (c # s) \<Rightarrow> Some (c # s) | _ \<Rightarrow> None)"

definition alert_service :: "(string \<times> string) list \<Rightarrow> string" where
  "alert_service labels =
     (case filled_label labels ''service_name'' of Some s \<Rightarrow> s
      | None \<Rightarrow> (case filled_label labels ''service'' of Some s \<Rightarrow> s | None \<Rightarrow> ''?''))"

definition seconds_after :: "time \<Rightarrow> time \<Rightarrow> rat" where
  "seconds_after t0 t = of_int (round_even (of_int (t - t0) / 100000)) / 10"

definition note_alert :: "time \<Rightarrow> alert_event \<Rightarrow> ((string \<times> string) list \<times> alert_seen) list \<times> bool \<Rightarrow>
    ((string \<times> string) list \<times> alert_seen) list \<times> bool" where
  "note_alert t0 a st =
     (if ae_status a = Firing \<and> alert_key a \<notin> set (map fst (fst st))
      then (fst st @ [(alert_key a, \<lparr>as_alertname = alert_label (ae_labels a), as_service = alert_service (ae_labels a),
              as_labels = ae_labels a, as_after = seconds_after t0 (ae_received a)\<rparr>)],
            snd st \<or> ae_incident a \<noteq> None)
      else st)"

text \<open>The polls after the injection: the rows so far and the clock.\<close>

fun collect_alerts ::
    "time \<Rightarrow> rat \<Rightarrow> rat \<Rightarrow> rat option \<Rightarrow> ((string \<times> string) list \<times> alert_seen) list \<times> bool \<Rightarrow>
       (rat \<times> alert_event list) list \<Rightarrow> (((string \<times> string) list \<times> alert_seen) list \<times> bool) option" where
  "collect_alerts t0 deadline settle settle_until st [] = None"
| "collect_alerts t0 deadline settle settle_until st ((now, rows) # polls) =
     (let st' = fold (note_alert t0) rows st;
          until = (if settle_until = None \<and> fst st' \<noteq> [] then Some (now + settle) else settle_until)
      in if (case until of None \<Rightarrow> deadline < now | Some t \<Rightarrow> t < now) then Some st'
         else collect_alerts t0 deadline settle until st' polls)"

definition statuses_of :: "(string \<times> string) list \<Rightarrow> alert_event list \<Rightarrow> alert_event list" where
  "statuses_of key rows = filter (\<lambda>r. alert_key r = key) rows"

fun refired :: "alert_status list \<Rightarrow> bool" where
  "refired (a # b # ss) \<longleftrightarrow> a = Resolved \<and> b = Firing \<or> refired (b # ss)"
| "refired _ \<longleftrightarrow> False"

definition flapping :: "alert_event list \<Rightarrow> ((string \<times> string) list \<times> alert_seen) list \<Rightarrow> time \<Rightarrow> string list" where
  "flapping rows seen t1 =
     sorted_set (List.map_filter (\<lambda>(key, a).
       let h = statuses_of key rows
       in if list_ex (\<lambda>r. ae_status r = Resolved \<and> ae_received r < t1) h \<or> refired (map ae_status h)
          then Some (as_alertname a @ ''/'' @ as_service a) else None) seen)"

text \<open>After the recovery: the rows, the alerts in Prometheus, the database's time and the clock.\<close>

definition open_keys :: "((string \<times> string) list \<times> alert_seen) list \<Rightarrow> alert_event list \<Rightarrow> (string \<times> string) list list" where
  "open_keys seen rows =
     filter (\<lambda>k. case rev (statuses_of k rows) of [] \<Rightarrow> True | r # rs \<Rightarrow> ae_status r \<noteq> Resolved) (map fst seen)"

fun wait_resolved ::
    "((string \<times> string) list \<times> alert_seen) list \<Rightarrow> rat \<Rightarrow> rat \<Rightarrow> time \<Rightarrow> time option \<Rightarrow>
       (alert_event list \<times> string list \<times> time \<times> rat) list \<Rightarrow> (string list + rat) option" where
  "wait_resolved seen hold deadline t1 quiet_since [] = None"
| "wait_resolved seen hold deadline t1 quiet_since ((rows, active, db_now, now) # polls) =
     (let opn = open_keys seen rows;
          since = (if opn \<noteq> [] \<or> active \<noteq> [] then None else if quiet_since = None then Some db_now else quiet_since)
      in case since of
           Some t \<Rightarrow>
             if hold \<le> of_int (db_now - t) / 1000000 then Some (Inr (seconds_after t1 t))
             else if deadline < now then Some (Inl []) else wait_resolved seen hold deadline t1 since polls
         | None \<Rightarrow>
             if deadline < now
             then Some (Inl (sort (map (\<lambda>(k, a). as_alertname a @ ''/'' @ as_service a) (filter (\<lambda>(k, a). k \<in> set opn) seen))))
             else wait_resolved seen hold deadline t1 since polls)"

section \<open>Peaks\<close>

text \<open>\<open>peaks\<close>: by service, by indicator. A row: the service, and the value if it is a number.\<close>

type_synonym peaks = "(string \<times> (string \<times> rat) list) list"

definition peak_of :: "peaks \<Rightarrow> string \<Rightarrow> string \<Rightarrow> rat" where
  "peak_of ps service name =
     (case map_of ps service of None \<Rightarrow> 0 | Some slot \<Rightarrow> (case map_of slot name of None \<Rightarrow> 0 | Some x \<Rightarrow> x))"

definition note_peak :: "string \<Rightarrow> string option \<times> rat option \<Rightarrow> peaks \<Rightarrow> peaks" where
  "note_peak name row ps =
     (case row of
        (Some (c # s), Some x) \<Rightarrow>
          let slot = (case map_of ps (c # s) of None \<Rightarrow> [] | Some slot \<Rightarrow> slot)
          in AList.update (c # s) (AList.update name (max (peak_of ps (c # s) name) x) slot) ps
      | _ \<Rightarrow> ps)"

text \<open>\<open>_sample_slis\<close>: the answer for every indicator in turn; one that fails ends the sample.\<close>

fun sample_slis :: "(string \<times> (string option \<times> rat option) list option) list \<Rightarrow> peaks \<Rightarrow> peaks" where
  "sample_slis [] ps = ps"
| "sample_slis ((name, None) # answers) ps = ps"
| "sample_slis ((name, Some rows) # answers) ps = sample_slis answers (fold (note_peak name) rows ps)"

lemma peak_of_note:
  "peak_of (note_peak name row ps) service n =
     (case row of
        (Some (c # s), Some x) \<Rightarrow> if service = c # s \<and> n = name then max (peak_of ps service n) x else peak_of ps service n
      | _ \<Rightarrow> peak_of ps service n)"
proof (cases row)
  case (Pair who v)
  show ?thesis
  proof (cases "\<exists>c s x. row = (Some (c # s), Some x)")
    case True
    then obtain c s x where "row = (Some (c # s), Some x)" by blast
    then show ?thesis by (simp add: note_peak_def peak_of_def update_conv' Let_def split: option.split)
  next
    case False
    with Pair show ?thesis by (auto simp: note_peak_def split: option.splits list.splits)
  qed
qed

lemma peaks_only_rise: "peak_of ps service n \<le> peak_of (sample_slis answers ps) service n"
proof (induction answers ps rule: sample_slis.induct)
  case (3 name rows answers ps)
  have "peak_of ps service n \<le> peak_of (fold (note_peak name) rows ps) service n"
  proof (induction rows arbitrary: ps)
    case (Cons r rows)
    have "peak_of ps service n \<le> peak_of (note_peak name r ps) service n"
      by (auto simp: peak_of_note split: prod.splits option.splits list.splits)
    with Cons [of "note_peak name r ps"] show ?case by simp
  qed simp
  with 3 show ?case by simp
qed simp_all

section \<open>Quiet means quiet in a row\<close>

definition quiet_row :: "(rat \<times> string list) list \<Rightarrow> nat \<Rightarrow> nat \<Rightarrow> bool" where
  "quiet_row polls m n \<longleftrightarrow> m \<le> n \<and> n < length polls \<and> (\<forall>i. m \<le> i \<and> i \<le> n \<longrightarrow> snd (polls ! i) = [])"

lemma quiet_row_Suc: "quiet_row polls m n \<Longrightarrow> quiet_row (p # polls) (Suc m) (Suc n)"
  by (auto simp: quiet_row_def nth_Cons split: nat.splits)

lemma quiet_row_0: "snd p = [] \<Longrightarrow> quiet_row polls 0 n \<Longrightarrow> quiet_row (p # polls) 0 (Suc n)"
  by (auto simp: quiet_row_def nth_Cons split: nat.splits)

text \<open>From a poll, or from the time the last polls have been quiet since, up to a poll that is late enough.\<close>

lemma wait_quiet_row:
  "wait_quiet hold deadline since polls = Some True \<Longrightarrow>
   \<exists>m n. quiet_row polls m n \<and> (hold \<le> fst (polls ! n) - fst (polls ! m) \<or> m = 0 \<and> (\<exists>t. since = Some t \<and> hold \<le> fst (polls ! n) - t))"
proof (induction hold deadline since polls rule: wait_quiet.induct)
  case (2 hold deadline since now active polls)
  let ?since = "if active \<noteq> [] then None else if since = None then Some now else since"
  let ?p = "(now, active)"
  show ?case
  proof (cases "case ?since of None \<Rightarrow> False | Some t \<Rightarrow> hold \<le> now - t")
    case True
    then have "active = []" "quiet_row (?p # polls) 0 0" by (auto simp: quiet_row_def split: if_splits)
    with True show ?thesis by (intro exI [of _ 0]) (auto split: option.splits if_splits)
  next
    case False
    with 2 obtain m n where q: "quiet_row polls m n" and
      "hold \<le> fst (polls ! n) - fst (polls ! m) \<or> m = 0 \<and> (\<exists>t. ?since = Some t \<and> hold \<le> fst (polls ! n) - t)"
      by (fastforce simp: Let_def split: if_splits)
    then consider "hold \<le> fst (polls ! n) - fst (polls ! m)"
      | t where "m = 0" "?since = Some t" "hold \<le> fst (polls ! n) - t" by blast
    then show ?thesis
    proof cases
      case 1
      with quiet_row_Suc [OF q] show ?thesis by (intro exI [of _ "Suc m"] exI [of _ "Suc n"]) simp
    next
      case 2
      then have "active = []" by (auto split: if_splits)
      with quiet_row_0 [of ?p polls n] q 2(1) have "quiet_row (?p # polls) 0 (Suc n)" by simp
      with 2 \<open>active = []\<close> show ?thesis by (intro exI [of _ 0] exI [of _ "Suc n"]) (auto split: if_splits)
    qed
  qed
qed simp

text \<open>The lab counts as quiet only after polls in a row without an alert that span the time asked for.\<close>

lemma quiet_is_in_a_row:
  assumes "wait_quiet hold deadline None polls = Some True"
  shows "\<exists>m n. quiet_row polls m n \<and> hold \<le> fst (polls ! n) - fst (polls ! m)"
  using wait_quiet_row [OF assms] by auto

section \<open>The repair is approved once\<close>

lemma look_at_request:
  assumes "snd (look_at f approved g plans) = Some q"
  shows "plans \<noteq> [] \<and> dg_state g = AWAITING_APPROVAL \<and> aq_incident q = dg_incident g \<and> aq_hash q = ps_hash (last plans) \<and>
    (aq_decision q = Approve \<longleftrightarrow> map action_line (ps_actions (last plans)) = wanted_plan f) \<and>
    (aq_decision q = Approve \<longrightarrow> approved = None \<and> wanted_plan f \<noteq> [])"
  using assms by (auto simp: look_at_def Let_def split: if_splits)

definition approvals_in :: "approval_request list \<Rightarrow> approval_request list" where
  "approvals_in qs = filter (\<lambda>q. aq_decision q = Approve) qs"

lemma approvals_in_simps [simp]:
  "approvals_in [] = []"
  "approvals_in (q # qs) = (if aq_decision q = Approve then q # approvals_in qs else approvals_in qs)"
  by (simp_all add: approvals_in_def)

lemma look_at_all_none: "approvals_in (fst (look_at_all api f plans (Some x) gs)) = []"
proof (induction gs arbitrary: x)
  case (Cons g gs)
  show ?case
  proof (cases "snd (look_at f (Some x) g (plans (dg_incident g)))")
    case (Some q)
    with look_at_request [OF Some] Cons show ?thesis by (auto simp: Let_def)
  qed (use Cons in \<open>simp add: Let_def\<close>)
qed simp

lemma look_at_all_once: "length (approvals_in (fst (look_at_all api f plans approved gs))) \<le> 1"
proof (induction gs arbitrary: approved)
  case (Cons g gs)
  show ?case
    by (cases "snd (look_at f approved g (plans (dg_incident g)))") (use Cons in \<open>simp_all add: Let_def look_at_all_none\<close>)
qed simp

text \<open>Every request is on a diagnosis that waits, binds its newest plan, and approves exactly the expected repair.\<close>

lemma look_at_all_requests:
  "q \<in> set (fst (look_at_all api f plans approved gs)) \<Longrightarrow>
   \<exists>g \<in> set gs. plans (dg_incident g) \<noteq> [] \<and> dg_state g = AWAITING_APPROVAL \<and> aq_incident q = dg_incident g \<and>
    aq_hash q = ps_hash (last (plans (dg_incident g))) \<and>
    (aq_decision q = Approve \<longleftrightarrow> map action_line (ps_actions (last (plans (dg_incident g)))) = wanted_plan f)"
proof (induction gs arbitrary: approved)
  case (Cons g gs)
  show ?case
  proof (cases "snd (look_at f approved g (plans (dg_incident g)))")
    case None
    with Cons show ?thesis by (auto simp: Let_def)
  next
    case (Some p)
    show ?thesis
    proof (cases "q = p")
      case True
      with look_at_request [OF Some] show ?thesis by auto
    next
      case False
      with Cons.prems Some obtain a where "q \<in> set (fst (look_at_all api f plans a gs))"
        by (auto simp: Let_def split: if_splits)
      from Cons.IH [OF this] show ?thesis by auto
    qed
  qed
qed simp

section \<open>The events of a closed loop\<close>

lemma in_order_subseq: "in_order wanted events \<longleftrightarrow> subseq wanted events"
proof (induction wanted arbitrary: events)
  case (Cons e es)
  show ?case
  proof (induction events)
    case (Cons x xs)
    show ?case
    proof (cases "x = e")
      case True
      with \<open>\<And>events. in_order es events = subseq es events\<close> show ?thesis by simp
    next
      case False
      with Cons show ?thesis by simp
    qed
  qed simp
qed simp

section \<open>Two thirds\<close>

lemma required_correct_least: "2 * int n \<le> 3 * required_correct n \<and> (\<forall>k. 2 * int n \<le> 3 * k \<longrightarrow> required_correct n \<le> k)"
  unfolding required_correct_def by presburger

section \<open>Firing again\<close>

lemma refired_iff: "refired ss \<longleftrightarrow> sublist [Resolved, Firing] ss"
  by (induction ss rule: refired.induct) (auto simp: sublist_Cons_right prefix_Cons)

end
