(* ===== verification/Logs.thy ===== *)
theory Logs
  imports MetricTools Chunking CliBackend
begin

text \<open>
  Log lines grouped by message template: the substitutions of \<open>template\<close>
  (\<open>app/tools/compress.py\<close>) and the rest of \<open>app/tools/loki.py\<close>. A regular expression is a
  function that tells how much of a text it takes, given the character in front; all of them take
  something and none crosses code point 255. Shown: a template has no digits, so messages that
  differ in numbers only meet in one group; the groups count every line once.
\<close>

section \<open>Templates\<close>

text \<open>How many characters a pattern takes here, if it matches.\<close>

type_synonym matcher = "char option \<Rightarrow> string \<Rightarrow> nat option"

text \<open>\<open>\b\<close> in front of a word character, and behind one.\<close>

definition starts_word :: "char option \<Rightarrow> bool" where
  "starts_word before \<longleftrightarrow> (case before of None \<Rightarrow> True | Some c \<Rightarrow> \<not> py_word c)"

definition ends_word :: "string \<Rightarrow> bool" where
  "ends_word rest \<longleftrightarrow> (case rest of [] \<Rightarrow> True | c # s \<Rightarrow> \<not> py_word c)"

definition hex_char :: "char \<Rightarrow> bool" where
  "hex_char c \<longleftrightarrow> lower_char c \<in> set ''0123456789abcdef''"

definition id_char :: "char \<Rightarrow> bool" where
  "id_char c \<longleftrightarrow> is_digit c \<or> (65 \<le> (of_char c :: nat) \<and> (of_char c :: nat) \<le> 90)"

text \<open>\<open>\b[0-9a-f]{8}-[0-9a-f]{4}-[0-9a-f]{4}-[0-9a-f]{4}-[0-9a-f]{12}\b\<close>\<close>

definition uuid_match :: matcher where
  "uuid_match before s =
     (if starts_word before \<and> 36 \<le> length s \<and>
         list_all (\<lambda>(i, c). if i \<in> {8, 13, 18, 23} then c = CHR ''-'' else hex_char c) (enumerate 0 (take 36 s)) \<and>
         ends_word (drop 36 s)
      then Some 36 else None)"

text \<open>One to three digits and a dot; the length of the digits.\<close>

definition digits_at :: "string \<Rightarrow> nat" where
  "digits_at s = length (takeWhile is_digit s)"

definition octet :: "string \<Rightarrow> bool" where
  "octet s \<longleftrightarrow> 1 \<le> digits_at s \<and> digits_at s \<le> 3"

fun dotted :: "nat \<Rightarrow> string \<Rightarrow> nat option" where
  "dotted 0 s = (if octet s then Some (digits_at s) else None)"
| "dotted (Suc n) s =
     (if octet s \<and> starts_with ''.'' (drop (digits_at s) s)
      then map_option (\<lambda>k. digits_at s + 1 + k) (dotted n (drop (digits_at s + 1) s)) else None)"

text \<open>\<open>\b(?:\d{1,3}\.){3}\d{1,3}(?::\d+)?\b\<close>: a port belongs to it if the word ends behind it.\<close>

definition ip_match :: matcher where
  "ip_match before s =
     (if \<not> starts_word before then None
      else case dotted 3 s of
        None \<Rightarrow> None
      | Some k \<Rightarrow>
          (let rest = drop k s; port = digits_at (drop 1 rest)
           in if starts_with '':'' rest \<and> 1 \<le> port \<and> ends_word (drop (1 + port) rest) then Some (k + 1 + port)
              else if ends_word rest then Some k else None))"

text \<open>\<open>\b[0-9a-f]{16,}\b\<close>\<close>

definition hex_match :: matcher where
  "hex_match before s =
     (let k = length (takeWhile hex_char s)
      in if starts_word before \<and> 16 \<le> k \<and> ends_word (drop k s) then Some k else None)"

text \<open>\<open>\b(?=[A-Z0-9]*\d)[A-Z0-9]{10}\b\<close>: ten of them and no more, so the digit is among the ten.\<close>

definition id_match :: matcher where
  "id_match before s =
     (if starts_word before \<and> length (takeWhile id_char (take 10 s)) = 10 \<and> list_ex is_digit (take 10 s) \<and> ends_word (drop 10 s)
      then Some 10 else None)"

text \<open>\<open>\d+(?:\.\d+)?\<close>\<close>

definition number_match :: matcher where
  "number_match before s =
     (let k = digits_at s; rest = drop k s; f = digits_at (drop 1 rest)
      in if k = 0 then None else if starts_with ''.'' rest \<and> 1 \<le> f then Some (k + 1 + f) else Some k)"

text \<open>\<open>pattern.sub(repl, s)\<close>\<close>

function re_sub :: "matcher \<Rightarrow> string \<Rightarrow> char option \<Rightarrow> string \<Rightarrow> string" where
  "re_sub m repl before [] = []"
| "re_sub m repl before (c # s) =
     (case m before (c # s) of
        Some (Suc k) \<Rightarrow> repl @ re_sub m repl (Some (last (take (Suc k) (c # s)))) (drop k s)
      | _ \<Rightarrow> c # re_sub m repl (Some c) s)"
  by pat_completeness auto
termination
  by (relation "measure (\<lambda>(m, repl, before, s). length s)") auto

definition TEMPLATE_RULES :: "(matcher \<times> string) list" where
  "TEMPLATE_RULES = [(uuid_match, ''<uuid>''), (ip_match, ''<ip>''), (hex_match, ''<hex>''), (id_match, ''<id>''), (number_match, ''<n>'')]"

definition template :: "string \<Rightarrow> string" where
  "template message =
     clip 200 (join '' '' (split_words (fold (\<lambda>(m, repl) out. re_sub m repl None out) TEMPLATE_RULES message)))"

section \<open>Fetching\<close>

definition LOKI_TOP :: nat where
  "LOKI_TOP = 10"

text \<open>The parameters of the request; \<open>ns\<close> is a time's whole nanoseconds, reckoned with a float.\<close>

definition loki_params :: "(int \<Rightarrow> int) \<Rightarrow> logs_args \<Rightarrow> int \<Rightarrow> nat \<Rightarrow> nat \<Rightarrow> (string \<times> string) list" where
  "loki_params ns a end_us minutes limit =
     [(''query'', logql a), (''start'', dec_int (ns (end_us - int minutes * 60000000))), (''end'', dec_int (ns end_us)),
      (''limit'', dec limit), (''direction'', ''backward'')]"

definition search_logs :: "(int \<Rightarrow> int) \<Rightarrow> string \<Rightarrow> http_backend \<Rightarrow> logs_args \<Rightarrow> int \<Rightarrow> nat \<Rightarrow> nat \<Rightarrow> texn + json" where
  "search_logs ns base_url backend a end_us minutes limit =
     bindS (get_json base_url (backend ''/loki/api/v1/query_range'' (loki_params ns a end_us minutes limit))) (\<lambda>body.
     bindS (tidx body ''data'') (\<lambda>data. bindS (tidx data ''result'') (\<lambda>result.
       Inr (JObj [(''query'', JStr (logql a)), (''result'', result)]))))"

section \<open>Lines\<close>

record log_entry =
  lg_ts :: int
  lg_line :: string
  lg_meta :: "(string \<times> string) list"
  lg_labels :: "(string \<times> string) list"

definition texts_of :: "json \<Rightarrow> texn + (string \<times> string) list" where
  "texts_of j = bindS (tobj j) (mapS (\<lambda>(k, v). bindS (ttext v) (\<lambda>t. Inr (k, t))))"

text \<open>\<open>{**a, **b}\<close>\<close>

definition merged :: "(string \<times> string) list \<Rightarrow> (string \<times> string) list \<Rightarrow> (string \<times> string) list" where
  "merged a b = fold (\<lambda>(k, v) acc. AList.update k v acc) b a"

definition entry_of :: "(string \<times> string) list \<Rightarrow> json \<Rightarrow> texn + log_entry" where
  "entry_of labels v =
     bindS (titems v) (\<lambda>cells.
       case cells of
         [] \<Rightarrow> Inl (PyExn ''IndexError'')
       | [t] \<Rightarrow> bindS (tint t) (\<lambda>ts. Inl (PyExn ''IndexError''))
       | t # l # extras \<Rightarrow>
           bindS (tint t) (\<lambda>ts. bindS (ttext l) (\<lambda>line.
             (let extra = (case extras of [] \<Rightarrow> JObj [] | x # xs \<Rightarrow> x)
              in bindS (tget extra ''structuredMetadata'' (JObj [])) (\<lambda>a. bindS (tget extra ''parsed'' (JObj [])) (\<lambda>b.
                 bindS (texts_of a) (\<lambda>ta. bindS (texts_of b) (\<lambda>tb.
                   Inr \<lparr>lg_ts = ts, lg_line = line, lg_meta = merged ta tb, lg_labels = labels\<rparr>))))))))"

definition stream_entries :: "json \<Rightarrow> texn + log_entry list" where
  "stream_entries stream =
     bindS (tget stream ''stream'' (JObj [])) (\<lambda>ls. bindS (texts_of ls) (\<lambda>labels.
     bindS (tidx stream ''values'') (\<lambda>vs. bindS (titems vs) (mapS (entry_of labels)))))"

definition log_entries :: "json \<Rightarrow> texn + log_entry list" where
  "log_entries raw =
     bindS (tidx raw ''result'') (\<lambda>r. bindS (titems r) (\<lambda>streams. bindS (mapS stream_entries streams) (\<lambda>ess.
       Inr (sort_desc lg_ts (concat ess)))))"

section \<open>Groups\<close>

definition USEFUL :: "string list" where
  "USEFUL = [''exception'', ''error'', ''status'', ''code'', ''url'', ''path'', ''rpc'', ''http_'', ''db_'', ''peer'', ''server_address'']"

definition useful_key :: "string \<Rightarrow> bool" where
  "useful_key k \<longleftrightarrow> list_ex (\<lambda>w. occurs w k) USEFUL"

definition detail_of :: "(string \<times> string) list \<Rightarrow> string" where
  "detail_of meta =
     (case map_of meta ''exception_message'' of
        Some (c # t) \<Rightarrow> c # t
      | _ \<Rightarrow> (case map_of meta ''exception.message'' of Some t \<Rightarrow> t | None \<Rightarrow> []))"

definition text_in :: "string \<Rightarrow> string \<Rightarrow> bool" where
  "text_in sub s \<longleftrightarrow> first_match (\<lambda>x. if starts_with sub x then Some () else None) s \<noteq> None"

definition group_key_of :: "log_entry \<Rightarrow> string" where
  "group_key_of e =
     (let detail = detail_of (lg_meta e)
      in template (if text_in detail (lg_line e) then lg_line e else lg_line e @ '' '' @ detail))"

record log_group =
  gp_template :: string
  gp_count :: nat
  gp_level :: string
  gp_first :: int
  gp_last :: int
  gp_example :: string
  gp_attributes :: "(string \<times> string) list"

definition new_log_group :: "string \<Rightarrow> log_entry \<Rightarrow> log_group" where
  "new_log_group key e =
     \<lparr>gp_template = key, gp_count = 0, gp_level = log_level (lg_meta e) (lg_labels e), gp_first = lg_ts e, gp_last = lg_ts e,
      gp_example = clip 300 (lg_line e),
      gp_attributes = take 8 (map (\<lambda>(k, v). (k, clip 200 v)) (filter (\<lambda>(k, v). useful_key k) (sort_key fst (lg_meta e))))\<rparr>"

definition seen_again :: "log_entry \<Rightarrow> log_group \<Rightarrow> log_group" where
  "seen_again e g = g\<lparr>gp_count := gp_count g + 1, gp_first := min (gp_first g) (lg_ts e), gp_last := max (gp_last g) (lg_ts e)\<rparr>"

definition add_line :: "log_entry \<Rightarrow> (string \<times> log_group) list \<Rightarrow> (string \<times> log_group) list" where
  "add_line e groups =
     (let key = group_key_of e; g = (case map_of groups key of None \<Rightarrow> new_log_group key e | Some g \<Rightarrow> g)
      in AList.update key (seen_again e g) groups)"

definition log_groups :: "log_entry list \<Rightarrow> (string \<times> log_group) list" where
  "log_groups entries = fold add_line entries []"

definition count_levels :: "log_entry list \<Rightarrow> (string \<times> nat) list" where
  "count_levels entries =
     (let levels = map (\<lambda>e. log_level (lg_meta e) (lg_labels e)) entries
      in map (\<lambda>l. (l, length (filter (\<lambda>x. x = l) levels))) (sorted_set levels))"

definition top_groups :: "(string \<times> log_group) list \<Rightarrow> log_group list" where
  "top_groups groups = take LOKI_TOP (sort_key (\<lambda>g. (- int (gp_count g), gp_template g)) (map snd groups))"

definition log_group_json :: "(int \<Rightarrow> string) \<Rightarrow> log_group \<Rightarrow> json" where
  "log_group_json iso_ns g =
     JObj [(''template'', JStr (gp_template g)), (''count'', JInt (int (gp_count g))), (''level'', JStr (gp_level g)),
       (''first_seen'', JStr (iso_ns (gp_first g))), (''last_seen'', JStr (iso_ns (gp_last g))), (''example'', JStr (gp_example g)),
       (''attributes'', JObj (map (\<lambda>(k, v). (k, JStr v)) (gp_attributes g)))]"

text \<open>\<open>iso_ns\<close>: \<open>iso\<close> of a time in nanoseconds.\<close>

definition summarize_logs :: "(int \<Rightarrow> string) \<Rightarrow> json \<Rightarrow> nat \<Rightarrow> texn + obj" where
  "summarize_logs iso_ns raw limit =
     bindS (log_entries raw) (\<lambda>entries. bindS (tidx raw ''query'') (\<lambda>query.
       (let groups = log_groups entries
        in Inr ([(''query'', query), (''lines'', JInt (int (length entries))), (''hit_limit'', JBool (limit \<le> length entries)),
             (''by_level'', JObj (map (\<lambda>(l, n). (l, JInt (int n))) (count_levels entries))),
             (''distinct_messages'', JInt (int (length groups))), (''groups'', JArr (map (log_group_json iso_ns) (top_groups groups)))] @
             (if entries = [] then [(''note'', JStr ''no matching lines in this window'')]
              else [(''newest'', JStr (iso_ns (lg_ts (hd entries)))), (''oldest'', JStr (iso_ns (lg_ts (last entries))))])))))"

section \<open>A template has no digits\<close>

lemma number_first: "is_digit c \<Longrightarrow> \<exists>k. number_match before (c # s) = Some (Suc k)"
  by (auto simp: number_match_def digits_at_def Let_def)

lemma no_digits_left: "\<not> list_ex is_digit repl \<Longrightarrow> \<not> list_ex is_digit (re_sub number_match repl before s)"
proof (induction "number_match" repl before s rule: re_sub.induct)
  case (2 repl before c s)
  show ?case
  proof (cases "number_match before (c # s)")
    case None
    then have "\<not> is_digit c" using number_first [of c before s] by fastforce
    with 2 None show ?thesis by simp
  next
    case (Some n)
    then have "n \<noteq> 0" by (auto simp: number_match_def Let_def split: if_splits)
    then obtain k where "n = Suc k" using not0_implies_Suc by blast
    with 2 Some show ?thesis by simp
  qed
qed simp

lemma set_words_from: "x \<in> set (words_from w s) \<Longrightarrow> set x \<subseteq> set w \<union> set s"
  by (induction s arbitrary: w) (fastforce split: if_splits)+

lemma set_join: "set (join sep xs) \<subseteq> set sep \<union> (\<Union>x\<in>set xs. set x)"
  by (induction sep xs rule: join.induct) auto

lemma set_clip: "set (clip n s) \<subseteq> set s \<union> {ellipsis}"
  using set_take_subset [of "n - 1" s] by (auto simp: clip_def)

theorem template_no_digits: "\<not> list_ex is_digit (template message)"
proof -
  obtain t where t: "template message = clip 200 (join '' '' (split_words (re_sub number_match ''<n>'' None t)))"
    by (simp add: template_def TEMPLATE_RULES_def)
  define u where "u = re_sub number_match ''<n>'' None t"
  have u: "\<not> list_ex is_digit u"
    unfolding u_def by (rule no_digits_left) (simp add: is_digit_def)
  have "set (join '' '' (split_words u)) \<subseteq> set '' '' \<union> set u"
    using set_join [of "'' ''" "split_words u"] set_words_from [of _ "[]" u] by (fastforce simp: split_words_def)
  then have "set (template message) \<subseteq> insert ellipsis (set '' '' \<union> set u)"
    using set_clip [of 200 "join '' '' (split_words u)"] by (auto simp: t u_def [symmetric])
  moreover have "\<not> is_digit ellipsis" "\<not> is_digit (CHR '' '')" by (simp_all add: is_digit_def ellipsis_def)
  ultimately show ?thesis using u by (fastforce simp: list_ex_iff)
qed

section \<open>The groups count every line once\<close>

lemma sum_update_count:
  assumes "distinct (map fst kvs)"
  shows "(\<Sum>kv\<leftarrow>AList.update k v kvs. (f :: 'b \<Rightarrow> nat) (snd kv)) + (case map_of kvs k of None \<Rightarrow> 0 | Some v' \<Rightarrow> f v') =
    (\<Sum>kv\<leftarrow>kvs. f (snd kv)) + f v"
  using assms by (induction kvs) (auto simp: weak_map_of_SomeI split: option.splits)

definition groups_ok :: "(string \<times> log_group) list \<Rightarrow> bool" where
  "groups_ok gs \<longleftrightarrow> distinct (map fst gs) \<and>
     (\<forall>(k, g) \<in> set gs. gp_template g = k \<and> 1 \<le> gp_count g \<and> gp_first g \<le> gp_last g)"

lemma add_line_ok:
  assumes "groups_ok gs"
  shows "groups_ok (add_line e gs)"
proof -
  let ?k = "group_key_of e"
  let ?g = "case map_of gs ?k of None \<Rightarrow> new_log_group ?k e | Some g \<Rightarrow> g"
  have "gp_template ?g = ?k \<and> gp_first ?g \<le> gp_last ?g"
    using assms by (auto simp: groups_ok_def new_log_group_def dest: map_of_SomeD split: option.splits)
  moreover have "set (AList.update ?k (seen_again e ?g) gs) \<subseteq> insert (?k, seen_again e ?g) (set gs)"
    by (induction gs) auto
  ultimately show ?thesis using assms
    by (auto simp: groups_ok_def add_line_def Let_def seen_again_def distinct_update)
qed

lemma log_groups_ok: "groups_ok (log_groups entries)"
proof -
  have "groups_ok gs \<Longrightarrow> groups_ok (fold add_line entries gs)" for gs
    by (induction entries arbitrary: gs) (simp_all add: add_line_ok)
  moreover have "groups_ok []" by (simp add: groups_ok_def)
  ultimately show ?thesis by (simp only: log_groups_def)
qed

lemma add_line_counts:
  assumes "groups_ok gs"
  shows "(\<Sum>kg\<leftarrow>add_line e gs. gp_count (snd kg)) = (\<Sum>kg\<leftarrow>gs. gp_count (snd kg)) + 1"
proof -
  let ?k = "group_key_of e"
  let ?g = "case map_of gs ?k of None \<Rightarrow> new_log_group ?k e | Some g \<Rightarrow> g"
  have "distinct (map fst gs)" using assms by (simp add: groups_ok_def)
  then show ?thesis
    using sum_update_count [where kvs = gs and k = ?k and v = "seen_again e ?g" and f = gp_count]
    by (cases "map_of gs ?k") (simp_all add: add_line_def Let_def seen_again_def new_log_group_def del: map_of_eq_Some_iff)
qed

theorem every_line_counted: "(\<Sum>kg\<leftarrow>log_groups entries. gp_count (snd kg)) = length entries"
proof -
  have "groups_ok gs \<Longrightarrow> (\<Sum>kg\<leftarrow>fold add_line entries gs. gp_count (snd kg)) = (\<Sum>kg\<leftarrow>gs. gp_count (snd kg)) + length entries" for gs
    by (induction entries arbitrary: gs) (simp_all add: add_line_ok add_line_counts)
  from this [of "[]"] show ?thesis by (simp add: log_groups_def groups_ok_def)
qed

lemma sum_count_levels: "(\<Sum>ln\<leftarrow>count_levels entries. snd ln) = length entries"
proof -
  let ?ls = "map (\<lambda>e. log_level (lg_meta e) (lg_labels e)) entries"
  have "(\<Sum>l\<leftarrow>sorted_set xs. count_list ys l) = length ys" if "set ys \<subseteq> set xs" for xs ys :: "string list"
  proof -
    have "(\<Sum>l\<leftarrow>sorted_set xs. count_list ys l) = (\<Sum>l\<in>set xs. count_list ys l)"
      by (simp add: sum_list_distinct_conv_sum_set sorted_set_def)
    also have "\<dots> = length ys" using that sum_count_set [of ys "set xs"] by simp
    finally show ?thesis .
  qed
  from this [of ?ls ?ls] show ?thesis
    by (simp add: count_levels_def Let_def o_def count_list_eq_length_filter eq_commute)
qed

lemma sorted_top_groups: "sorted (map (\<lambda>g. (- int (gp_count g), gp_template g)) (top_groups gs))"
  by (simp add: top_groups_def take_map [symmetric] sorted_wrt_take)

end
