(* ===== verification/LabChecks.thy ===== *)
theory LabChecks
  imports LabRun Logs Tools AuditLog
begin

text \<open>
  The checks of the scripts: the probes that the acceptance run calls while a fault is active
  (\<open>scripts/lab/probes.py\<close>), its exit status (\<open>scripts/lab/__main__.py\<close>) and what the load test looks
  up in the database (\<open>scripts/loadtest.py\<close>). A check is a function of a tool's summary that may
  raise; the text beside its verdict is left out.
\<close>

section \<open>Checks on a summary\<close>

type_synonym summary_check = "json \<Rightarrow> texn + bool"

text \<open>\<open>val\<close> reads the text of a float.\<close>

definition number :: "(string \<Rightarrow> rat) \<Rightarrow> json \<Rightarrow> texn + rat" where
  "number val j =
     (case j of JInt i \<Rightarrow> Inr (of_int i) | JFloat t \<Rightarrow> Inr (val t) | JBool b \<Rightarrow> Inr (if b then 1 else 0) | _ \<Rightarrow> Inl (PyExn ''TypeError''))"

definition number_or_0 :: "(string \<Rightarrow> rat) \<Rightarrow> json \<Rightarrow> texn + rat" where
  "number_or_0 val j = (if truthy j then number val j else Inr 0)"

definition list_at :: "json \<Rightarrow> string \<Rightarrow> texn + json list" where
  "list_at s k = bindS (tget s k (JArr [])) titems"

definition labelled :: "string \<Rightarrow> json \<Rightarrow> texn + bool" where
  "labelled service r = bindS (tidx r ''labels'') (\<lambda>l. bindS (tget l ''service_name'' JNull) (\<lambda>n. Inr (n = JStr service)))"

text \<open>The first that fits, looked for from the front.\<close>

fun findS :: "('a \<Rightarrow> 'e + bool) \<Rightarrow> 'a list \<Rightarrow> 'e + 'a option" where
  "findS p [] = Inr None"
| "findS p (x # xs) = bindS (p x) (\<lambda>b. if b then Inr (Some x) else findS p xs)"

text \<open>All that fit.\<close>

definition those_with :: "('a \<Rightarrow> texn + bool) \<Rightarrow> 'a list \<Rightarrow> texn + 'a list" where
  "those_with p xs = bindS (mapS (\<lambda>x. bindS (p x) (\<lambda>b. Inr (x, b))) xs) (\<lambda>ys. Inr (map fst (filter snd ys)))"

definition field_is :: "string \<Rightarrow> string \<Rightarrow> json \<Rightarrow> texn + bool" where
  "field_is k v r = bindS (tidx r k) (\<lambda>x. Inr (x = JStr v))"

definition above :: "(string \<Rightarrow> rat) \<Rightarrow> string \<Rightarrow> rat \<Rightarrow> summary_check" where
  "above val service threshold s =
     bindS (list_at s ''top'') (\<lambda>rows. bindS (findS (labelled service) rows) (\<lambda>hit.
       case hit of
         None \<Rightarrow> Inr False
       | Some r \<Rightarrow> bindS (tidx r ''value'') (\<lambda>v.
           if v = JNull then Inr False else bindS (number val v) (\<lambda>x. Inr (threshold < x)))))"

definition rose :: "(string \<Rightarrow> rat) \<Rightarrow> string \<Rightarrow> rat \<Rightarrow> summary_check" where
  "rose val service threshold s =
     bindS (list_at s ''series'') (\<lambda>rows. bindS (findS (labelled service) rows) (\<lambda>hit.
       case hit of
         None \<Rightarrow> Inr False
       | Some r \<Rightarrow>
           bindS (tidx r ''first'') (\<lambda>a. bindS (number val a) (\<lambda>x.
             if \<not> x < threshold then Inr False
             else bindS (tidx r ''max'') (\<lambda>b. bindS (number val b) (\<lambda>y. Inr (threshold < y)))))))"

definition flag_on :: "string \<Rightarrow> summary_check" where
  "flag_on flag s = bindS (list_at s ''on'') (\<lambda>fs. bindS (mapS (\<lambda>f. tidx f ''flag'') fs) (\<lambda>on. Inr (JStr flag \<in> set on)))"

definition no_flags_on :: summary_check where
  "no_flags_on s = bindS (tget s ''on'' JNull) (\<lambda>on. Inr (\<not> truthy on))"

text \<open>A pattern is a choice of texts, in lower case; it is searched in \<open>str(g)\<close>.\<close>

definition has_lines :: "(string \<Rightarrow> rat) \<Rightarrow> string list option \<Rightarrow> summary_check" where
  "has_lines val pattern s =
     (case pattern of
        None \<Rightarrow> bindS (tget s ''lines'' (JInt 0)) (\<lambda>n. bindS (number val n) (\<lambda>x. Inr (0 < x)))
      | Some ps \<Rightarrow> bindS (list_at s ''groups'') (\<lambda>gs. Inr (list_ex (\<lambda>g. list_ex (\<lambda>p. occurs p (json_repr g)) ps) gs)))"

definition error_spans_in :: "string \<Rightarrow> summary_check" where
  "error_spans_in service s =
     bindS (list_at s ''error_spans'') (\<lambda>es. bindS (those_with (field_is ''service'' service) es) (\<lambda>hits. Inr (hits \<noteq> [])))"

definition slow_traces :: "(string \<Rightarrow> rat) \<Rightarrow> rat \<Rightarrow> summary_check" where
  "slow_traces val min_ms s =
     bindS (tget s ''duration_ms'' (JObj [])) (\<lambda>d. bindS (tget d ''p95'' JNull) (\<lambda>p95.
     bindS (tget s ''traces'' (JInt 0)) (\<lambda>n. bindS (number val n) (\<lambda>x.
       if \<not> 0 < x then Inr False else bindS (number_or_0 val p95) (\<lambda>p. Inr (min_ms \<le> p))))))"

definition self_time_in :: "(string \<Rightarrow> rat) \<Rightarrow> string \<Rightarrow> rat \<Rightarrow> summary_check" where
  "self_time_in val service min_ms s =
     bindS (tget s ''slowest_spans'' (JArr [JObj []])) (\<lambda>t. bindS (titems t) (\<lambda>top.
       if top = [] then Inl (PyExn ''IndexError'')
       else bindS (list_at s ''slowest_spans'') (\<lambda>rows. bindS (those_with (field_is ''service'' service) rows) (\<lambda>mine.
         case mine of
           [] \<Rightarrow> Inr False
         | r # rs \<Rightarrow> bindS (tidx r ''self_ms'') (\<lambda>v. bindS (number_or_0 val v) (\<lambda>x. Inr (min_ms \<le> x)))))))"

definition no_chaos_events :: summary_check where
  "no_chaos_events s =
     bindS (list_at s ''groups'') (\<lambda>gs.
     bindS (those_with (\<lambda>g. bindS (tidx g ''object'') (\<lambda>x. bindS (ttext x) (\<lambda>t. Inr (text_in ''Chaos'' t)))) gs) (\<lambda>leaked.
       Inr (leaked = [])))"

definition event_reason :: "string \<Rightarrow> summary_check" where
  "event_reason reason s = bindS (tget s ''by_reason'' (JObj [])) (\<lambda>r. bindS (tobj r) (\<lambda>kvs. Inr (reason \<in> set (map fst kvs))))"

definition current_cause :: "string \<Rightarrow> summary_check" where
  "current_cause pattern s =
     bindS (list_at s ''revisions'') (\<lambda>rs. bindS (findS (\<lambda>r. bindS (tidx r ''current'') (\<lambda>c. Inr (truthy c))) rs) (\<lambda>hit.
       bindS (tget (case hit of None \<Rightarrow> JObj [] | Some r \<Rightarrow> r) ''change_cause'' JNull) (\<lambda>c.
       bindS (ttext (or_else c (JStr []))) (\<lambda>cause. Inr (text_in pattern cause)))))"

definition ends_in_text :: "string \<Rightarrow> string \<Rightarrow> bool" where
  "ends_in_text e s \<longleftrightarrow> starts_with (rev e) (rev s)"

definition changed :: "string \<Rightarrow> string \<Rightarrow> summary_check" where
  "changed path_suffix target s =
     bindS (list_at s ''changes'') (\<lambda>cs.
     bindS (those_with (\<lambda>c. bindS (tidx c ''path'') (\<lambda>p. bindS (ttext p) (\<lambda>t. Inr (ends_in_text path_suffix t)))) cs) (\<lambda>hits.
       case hits of [] \<Rightarrow> Inr False | c # rest \<Rightarrow> bindS (tidx c ''to'') (\<lambda>t. Inr (t = JStr target))))"

section \<open>The probes of a fault\<close>

datatype probe_args = FixedArgs obj | SlowestTrace

record probe =
  pb_name :: string
  pb_tool :: string
  pb_args :: probe_args
  pb_check :: summary_check

definition probe_of :: "string \<Rightarrow> string \<Rightarrow> obj \<Rightarrow> summary_check \<Rightarrow> probe" where
  "probe_of name tool args ck = \<lparr>pb_name = name, pb_tool = tool, pb_args = FixedArgs args, pb_check = ck\<rparr>"

definition ERROR_RATIO :: string where
  "ERROR_RATIO = ''service:sli_error_ratio:rate5m''"

definition P95 :: string where
  "P95 = ''service:sli_latency_p95_ms:rate5m''"

definition error_traces_probe :: "string \<Rightarrow> probe" where
  "error_traces_probe service =
     probe_of ''error_traces'' ''traces_search''
       [(''service'', JStr service), (''errors_only'', JBool True), (''minutes'', JInt 10)] (error_spans_in service)"

definition PROBES :: "(string \<Rightarrow> rat) \<Rightarrow> (string \<times> probe list) list" where
  "PROBES val =
     [(''payment-failure'',
        [probe_of ''error_ratio'' ''prom_query'' [(''query'', JStr ERROR_RATIO)] (above val ''payment'' (1 / 10)),
         probe_of ''error_trend'' ''prom_range'' [(''query'', JStr ERROR_RATIO), (''minutes'', JInt 15)] (rose val ''payment'' (1 / 10)),
         probe_of ''flags'' ''flag_state'' [] (flag_on ''paymentFailure''),
         error_traces_probe ''payment'',
         probe_of ''logs'' ''logs_search'' [(''service'', JStr ''payment''), (''level'', JStr ''warn''), (''minutes'', JInt 10)]
           (has_lines val (Some [''invalid token'']))]),
      (''network-delay'',
        [probe_of ''p95'' ''prom_query'' [(''query'', JStr P95)] (above val ''product-catalog'' 1000),
         probe_of ''slow_traces'' ''traces_search''
           [(''service'', JStr ''product-catalog''), (''min_duration_ms'', JInt 900), (''minutes'', JInt 10)] (slow_traces val 900),
         \<lparr>pb_name = ''slow_trace'', pb_tool = ''trace_get'', pb_args = SlowestTrace, pb_check = self_time_in val ''product-catalog'' 500\<rparr>,
         probe_of ''events'' ''k8s_events'' [(''minutes'', JInt 30)] no_chaos_events,
         probe_of ''flags'' ''flag_state'' [] no_flags_on]),
      (''bad-release'',
        [probe_of ''error_ratio'' ''prom_query'' [(''query'', JStr ERROR_RATIO)] (above val ''checkout'' (1 / 10)),
         probe_of ''history'' ''rollout_history'' [(''deployment'', JStr ''checkout'')] (current_cause ''port 9999''),
         probe_of ''diff'' ''deploy_diff'' [(''deployment'', JStr ''checkout'')] (changed ''env.PAYMENT_ADDR'' ''payment:9999''),
         probe_of ''events'' ''k8s_events'' [(''object_name'', JStr ''checkout''), (''minutes'', JInt 30)] (event_reason ''ScalingReplicaSet''),
         error_traces_probe ''checkout'',
         probe_of ''error_logs'' ''logs_search'' [(''service'', JStr ''frontend''), (''level'', JStr ''warn''), (''minutes'', JInt 10)]
           (has_lines val (Some [''9999'', ''refused'', ''unavailable'']))])]"

text \<open>\<open>_slowest_trace\<close>\<close>

definition slowest_trace :: "(string \<times> tool_outcome) list \<Rightarrow> texn + obj" where
  "slowest_trace prior =
     (case map_of prior ''slow_traces'' of
        None \<Rightarrow> Inl (PyExn ''KeyError'')
      | Some oc \<Rightarrow>
          bindS (tget (JObj (case to_summary oc of None \<Rightarrow> [] | Some s \<Rightarrow> s)) ''slowest'' JNull) (\<lambda>x.
          bindS (titems (or_else x (JArr [JObj []]))) (\<lambda>ts.
          bindS (tget (hd ts) ''trace_id'' (JStr (replicate 32 CHR ''0''))) (\<lambda>t. Inr [(''trace_id'', t)]))))"

record probe_result =
  pbr_name :: string
  pbr_tool :: string
  pbr_args :: obj
  pbr_ok :: bool
  pbr_evidence_id :: "string option"

text \<open>\<open>run_probes\<close>; \<open>call\<close> is the registry's.\<close>

fun run_probes :: "(string \<Rightarrow> obj \<Rightarrow> tool_outcome) \<Rightarrow> (string \<times> tool_outcome) list \<Rightarrow> probe list \<Rightarrow> texn + probe_result list" where
  "run_probes call prior [] = Inr []"
| "run_probes call prior (p # ps) =
     bindS (case pb_args p of FixedArgs a \<Rightarrow> Inr a | SlowestTrace \<Rightarrow> slowest_trace prior) (\<lambda>args.
     let oc = call (pb_tool p) args
     in bindS (if to_error oc \<noteq> None then Inr False
               else pb_check p (JObj (case to_summary oc of None \<Rightarrow> [] | Some s \<Rightarrow> s))) (\<lambda>b.
        bindS (run_probes call (AList.update (pb_name p) oc prior) ps) (\<lambda>rest.
          Inr (\<lparr>pbr_name = pb_name p, pbr_tool = pb_tool p, pbr_args = to_args oc, pbr_ok = b, pbr_evidence_id = to_evidence_id oc\<rparr> # rest))))"

section \<open>The exit status of the acceptance run\<close>

text \<open>\<open>noise\<close>: what the baseline saw, if it was watched; \<open>chain_ok\<close>: the audit chain, if the run remediated.\<close>

definition accept_status :: "rat \<Rightarrow> bool \<Rightarrow> string list \<Rightarrow> bool \<Rightarrow> lab_result list \<Rightarrow> nat" where
  "accept_status alert_timeout diagnoses noise chain_ok results =
     (if noise \<noteq> [] then 1
      else if list_all (lab_ok alert_timeout) results \<and> chain_ok \<and>
        (diagnoses \<longrightarrow> required_correct (length results) \<le> int (length (filter lr_diagnosis_correct results)))
      then 0 else 1)"

lemma accept_status_0:
  "accept_status t True noise chain_ok results = 0 \<Longrightarrow>
   noise = [] \<and> chain_ok \<and> (\<forall>r \<in> set results. lab_ok t r) \<and> 2 * length results \<le> 3 * length (filter lr_diagnosis_correct results)"
  using required_correct_least [of "length results"] by (auto simp: accept_status_def list_all_iff split: if_splits)

section \<open>The load test\<close>

definition LOADTEST :: string where
  "LOADTEST = ''loadtest''"

text \<open>\<open>failures\<close>: requests that were not accepted.\<close>

definition load_checks :: "world \<Rightarrow> nat \<Rightarrow> nat \<Rightarrow> nat \<Rightarrow> db \<Rightarrow> (string \<times> bool) list" where
  "load_checks w alerts_sent different failures d =
     (let inc = filter (\<lambda>r. i_tenant r = LOADTEST) (incidents d); js = filter (\<lambda>r. j_tenant r = LOADTEST) (jobs d);
          done_jobs = filter (\<lambda>r. j_status r = Done) js;
          owned_by = remdups (List.map_filter j_incident js)
      in [(''no failed requests'', failures = 0),
          (''incidents == '' @ dec different, length inc = different),
          (''alert counts sum to '' @ dec alerts_sent, sum_list (map i_alert_count inc) = alerts_sent),
          (''one triage job per incident'', length js = length inc \<and> length inc = length owned_by),
          (''every job done'', length done_jobs = length js),
          (''no job claimed twice (max fence 1)'', foldr max (map j_fence js) 0 = 1),
          (''every incident triaged'', length (filter (\<lambda>r. i_state r = TRIAGED) inc) = length inc),
          (''audit chain verifies'', v_ok (audit_verify w d))])"

definition load_status :: "world \<Rightarrow> nat \<Rightarrow> nat \<Rightarrow> nat \<Rightarrow> db \<Rightarrow> nat" where
  "load_status w alerts_sent different failures d = (if list_all snd (load_checks w alerts_sent different failures d) then 0 else 1)"

text \<open>What it takes for every job to have been claimed exactly once.\<close>

lemma load_status_0:
  assumes "load_status w n m f d = 0" "r \<in> set (jobs d)" "j_tenant r = LOADTEST"
  shows "j_status r = Done \<and> j_fence r \<le> 1"
proof -
  define js where "js = filter (\<lambda>r. j_tenant r = LOADTEST) (jobs d)"
  have all: "length (filter (\<lambda>r. j_status r = Done) js) = length js" and fence: "foldr max (map j_fence js) 0 = 1"
    using assms(1) by (simp_all add: load_status_def load_checks_def Let_def js_def split: if_splits)
  have r: "r \<in> set js" using assms(2,3) by (simp add: js_def)
  have "j_status r = Done" using length_filter_less [of r js "\<lambda>r. j_status r = Done"] r all by auto
  moreover have "y \<in> set ys \<Longrightarrow> y \<le> foldr max ys 0" for y and ys :: "nat list" by (induction ys) auto
  then have "j_fence r \<le> foldr max (map j_fence js) 0" using r by simp
  ultimately show ?thesis using fence by simp
qed

section \<open>The probes\<close>

lemma run_probes_names:
  "run_probes call prior ps = Inr rs \<Longrightarrow> map pbr_name rs = map pb_name ps"
  by (induction ps arbitrary: prior rs) (auto simp: bindS_Inr_iff Let_def split: if_splits)

lemma those_with_none: "those_with p xs = Inr [] \<Longrightarrow> x \<in> set xs \<Longrightarrow> p x = Inr False"
  by (induction xs) (auto simp: those_with_def bindS_Inr_iff filter_empty_conv)

text \<open>The lab's own traces stay hidden: no group of events is about an object of Chaos Mesh.\<close>

lemma no_chaos_events_means:
  assumes "no_chaos_events s = Inr True" "list_at s ''groups'' = Inr gs" "g \<in> set gs" "tidx g ''object'' = Inr (JStr t)"
  shows "\<not> text_in ''Chaos'' t"
proof -
  have "those_with (\<lambda>g. bindS (tidx g ''object'') (\<lambda>x. bindS (ttext x) (\<lambda>t. Inr (text_in ''Chaos'' t)))) gs = Inr []"
    using assms(1,2) by (auto simp: no_chaos_events_def bindS_Inr_iff)
  from those_with_none [OF this assms(3)] assms(4) show ?thesis by (simp add: ttext_def)
qed

end
