(* ===== verification/RetrievalReport.thy ===== *)
theory RetrievalReport
  imports Retrieval
begin

text \<open>
  The run of the retrieval evaluation and its report (\<open>run\<close>, \<open>comparable\<close>, \<open>differences\<close> and
  \<open>github_annotations\<close> of \<open>app/kb/evaluate.py\<close>). Measured latencies are a parameter. Shown: the
  comparable part does not depend on them; what \<open>differences\<close> accepts is exactly agreement up to
  the tolerance in numbers reached through dictionaries, which the metrics, in a list, are not.
\<close>

section \<open>Reports\<close>

text \<open>A report as a value; a float is a rational. It has no booleans.\<close>

datatype rvalue = RNull | RInt int | RFloat rat | RStr string | RArr "rvalue list" | RObj "(string \<times> rvalue) list"

definition PRESETS :: "(string \<times> chunk_params) list" where
  "PRESETS = map (\<lambda>p. (cp_name p, p)) [ORIGINAL, SECTION]"

definition MODES :: "search_mode list" where
  "MODES = [Bm25, Vector, Hybrid, Rerank]"

definition mode_name :: "search_mode \<Rightarrow> string" where
  "mode_name m = (case m of Bm25 \<Rightarrow> ''bm25'' | Vector \<Rightarrow> ''vector'' | Hybrid \<Rightarrow> ''hybrid'' | Rerank \<Rightarrow> ''rerank'')"

definition TENANT_PREFIX :: string where
  "TENANT_PREFIX = ''kb-eval-''"

definition metrics_value :: "query_outcome list \<Rightarrow> rvalue" where
  "metrics_value ocs =
     RObj (map (\<lambda>(k, x). (k, if k \<in> {''n'', ''context_tokens''} then RInt (floor x) else RFloat x)) (rank_metrics ocs))"

definition opt_value :: "rat option \<Rightarrow> rvalue" where
  "opt_value v = (case v of None \<Rightarrow> RNull | Some x \<Rightarrow> RFloat x)"

definition threshold_value :: "query_outcome list \<Rightarrow> rat \<Rightarrow> rvalue" where
  "threshold_value ocs t =
     (case thresholded ocs t of (least, kept, lost, blank) \<Rightarrow>
        RObj [(''threshold'', RFloat least), (''answered_relevant'', opt_value kept), (''answerable_emptied'', opt_value lost),
          (''unanswerable_empty'', opt_value blank)])"

definition of_split :: "string \<Rightarrow> query_outcome list \<Rightarrow> query_outcome list" where
  "of_split name ocs = filter (\<lambda>oc. query_split (oc_query oc) = Some name) ocs"

definition answered_within :: "nat \<Rightarrow> query_outcome \<Rightarrow> bool" where
  "answered_within k oc \<longleftrightarrow> (case oc_rank oc of None \<Rightarrow> False | Some r \<Rightarrow> r \<noteq> 0 \<and> r \<le> k)"

definition rerank_values :: "query_outcome list \<Rightarrow> (string \<times> rvalue) list" where
  "rerank_values ocs =
     (let t = choose_threshold (of_split ''dev'' ocs)
      in [(''threshold'', RObj [(''dev'', threshold_value (of_split ''dev'' ocs) t), (''test'', threshold_value (of_split ''test'' ocs) t)]),
          (''top_scores'', RObj (fold (\<lambda>oc m. AList.update (qu_id (oc_query oc)) (RFloat (round3 (top_or_zero oc))) m) ocs []))])"

definition mode_entry :: "string \<Rightarrow> search_mode \<Rightarrow> query list \<Rightarrow> query_outcome list \<Rightarrow> rvalue" where
  "mode_entry name mode queries ocs =
     RObj ([(''chunking'', RStr name), (''mode'', RStr (mode_name mode)), (''all'', metrics_value ocs),
        (''test'', metrics_value (of_split ''test'' ocs)),
        (''by_kind'', RObj (map (\<lambda>kind. (kind, metrics_value (filter (\<lambda>oc. qu_kind (oc_query oc) = kind) ocs)))
            (sorted_set (map qu_kind (filter answerable queries))))),
        (''misses_at_5'', RArr (map RStr (sort (map (\<lambda>oc. qu_id (oc_query oc))
            (filter (\<lambda>oc. answerable (oc_query oc) \<and> \<not> answered_within 5 oc) ocs)))))] @
       (if mode = Rerank then rerank_values ocs else []))"

section \<open>The run\<close>

text \<open>\<open>_one\<close> for every query.\<close>

fun all_outcomes :: "knowledge_base \<Rightarrow> kb_db \<Rightarrow> string \<Rightarrow> search_mode \<Rightarrow> query list \<Rightarrow> kb_exn + query_outcome list" where
  "all_outcomes kn d tenant mode [] = Inr []"
| "all_outcomes kn d tenant mode (q # qs) =
     bindS (kb_search kn d tenant (qu_query q) MRR_DEPTH mode None) (\<lambda>result.
     bindS (all_outcomes kn d tenant mode qs) (\<lambda>rest. Inr (one_outcome q (sr_hits result) # rest)))"

definition round1 :: "rat \<Rightarrow> rat" where
  "round1 x = of_int (round_even (x * 10)) / 10"

text \<open>\<open>lat\<close>, measured; nothing can be taken from no queries.\<close>

definition latency_value :: "rat list \<Rightarrow> kb_exn + rvalue" where
  "latency_value measured =
     (let lat = sort measured; n = length lat
      in if n = 0 then Inl (OtherExn ''IndexError'')
         else Inr (RObj [(''p50'', RFloat (round1 (lat ! (n div 2)))), (''p95'', RFloat (round1 (lat ! min (n - 1) (n * 19 div 20))))]))"

fun mode_entries ::
    "knowledge_base \<Rightarrow> kb_db \<Rightarrow> (string \<Rightarrow> search_mode \<Rightarrow> query \<Rightarrow> rat) \<Rightarrow> string \<Rightarrow> query list \<Rightarrow> search_mode list \<Rightarrow>
       kb_exn + rvalue list \<times> (string \<times> rvalue) list" where
  "mode_entries kn d clock name queries [] = Inr ([], [])"
| "mode_entries kn d clock name queries (m # ms) =
     bindS (all_outcomes kn d (TENANT_PREFIX @ name) m queries) (\<lambda>ocs.
     bindS (latency_value (map (clock name m) queries)) (\<lambda>lat.
     bindS (mode_entries kn d clock name queries ms) (\<lambda>(entries, lats).
       Inr (mode_entry name m queries ocs # entries, (name @ ''/'' @ mode_name m, lat) # lats))))"

definition corpus_values :: "string \<Rightarrow> chunk_params \<Rightarrow> document list \<Rightarrow> (string \<times> rvalue) list" where
  "corpus_values name params docs =
     (let chunks = concat (map (\<lambda>doc. chunk_document doc params) docs)
      in [(''chunks_'' @ name, RInt (int (length chunks))),
          (''over_embed_limit_'' @ name, RInt (int (length (filter (\<lambda>c. EMBED_TOKEN_LIMIT < chunk_tokens c) chunks))))])"

record eval_parts =
  ep_corpus :: "(string \<times> rvalue) list"
  ep_results :: "rvalue list"
  ep_latency :: "(string \<times> rvalue) list"

text \<open>A chunking: ingest into its own tenant, then every mode. The knowledge base stays as it is by then on an error.\<close>

fun run_chunkings ::
    "(string \<Rightarrow> string) \<Rightarrow> knowledge_base \<Rightarrow> (string \<Rightarrow> search_mode \<Rightarrow> query \<Rightarrow> rat) \<Rightarrow> document list \<Rightarrow> query list \<Rightarrow>
       search_mode list \<Rightarrow> string list \<Rightarrow> eval_parts \<Rightarrow> kb_db \<Rightarrow> (kb_exn + eval_parts) \<times> kb_db" where
  "run_chunkings sha kn clock docs queries modes [] parts d = (Inr parts, d)"
| "run_chunkings sha kn clock docs queries modes (name # names) parts d =
     (case map_of PRESETS name of
        None \<Rightarrow> (Inl (OtherExn (''KeyError: '' @ name)), d)
      | Some params \<Rightarrow>
          (case kb_ingest sha (TENANT_PREFIX @ name) docs (kn_embedder kn) params True d of
             (Inl e, d1) \<Rightarrow> (Inl e, d1)
           | (Inr rep, d1) \<Rightarrow>
               (case mode_entries kn d1 clock name queries modes of
                  Inl e \<Rightarrow> (Inl e, d1)
                | Inr (entries, lats) \<Rightarrow>
                    run_chunkings sha kn clock docs queries modes names
                      (parts\<lparr>ep_corpus := ep_corpus parts @ corpus_values name params docs,
                         ep_results := ep_results parts @ entries, ep_latency := ep_latency parts @ lats\<rparr>) d1)))"

definition query_counts :: "query list \<Rightarrow> rvalue" where
  "query_counts queries =
     (let count = (\<lambda>p. RInt (int (length (filter p queries))))
      in RObj [(''answerable'', count answerable), (''unanswerable'', count (\<lambda>q. \<not> answerable q)),
           (''dev'', count (\<lambda>q. query_split q = Some ''dev'')), (''test'', count (\<lambda>q. query_split q = Some ''test''))])"

text \<open>\<open>run\<close>; \<open>reranker\<close> is its name, and \<open>kn\<close> holds it with the embedder.\<close>

definition retrieval_run ::
    "(string \<Rightarrow> string) \<Rightarrow> knowledge_base \<Rightarrow> string \<Rightarrow> (string \<Rightarrow> search_mode \<Rightarrow> query \<Rightarrow> rat) \<Rightarrow> document list \<Rightarrow>
       query list \<Rightarrow> string list \<Rightarrow> search_mode list \<Rightarrow> kb_db \<Rightarrow> (kb_exn + rvalue) \<times> kb_db" where
  "retrieval_run sha kn0 reranker clock docs queries chunkings modes d =
     (let problems = check_labels queries docs; kn = kn0\<lparr>kn_min_score := 0, kn_candidates := CANDIDATES\<rparr>
      in if problems \<noteq> [] then (Inl (ValueError (''labels that name no section: '' @ join ''; '' problems)), d)
         else if list_ex (\<lambda>q. query_split q = None) queries then (Inl (ValueError ''invalid literal for int()''), d)
         else
           (case run_chunkings sha kn clock docs queries modes chunkings
                   \<lparr>ep_corpus = [(''documents'', RInt (int (length docs)))], ep_results = [], ep_latency = []\<rparr> d of
              (Inl e, d1) \<Rightarrow> (Inl e, d1)
            | (Inr parts, d1) \<Rightarrow>
                (Inr (RObj [(''models'', RObj [(''embedder'', RStr (em_name (kn_embedder kn))), (''reranker'', RStr reranker)]),
                   (''corpus'', RObj (ep_corpus parts)), (''queries'', query_counts queries),
                   (''results'', RArr (ep_results parts)), (''latency_ms'', RObj (ep_latency parts))]), d1)))"

section \<open>Comparing\<close>

definition comparable :: "(string \<times> rvalue) list \<Rightarrow> (string \<times> rvalue) list" where
  "comparable report = filter (\<lambda>(k, v). k \<noteq> ''latency_ms'') report"

definition number_of :: "rvalue \<Rightarrow> rat option" where
  "number_of v = (case v of RInt n \<Rightarrow> Some (of_int n) | RFloat x \<Rightarrow> Some x | _ \<Rightarrow> None)"

lemma size_item [simp]: "map_of kvs k = Some v \<Longrightarrow> size v \<le> size_list (size_prod (\<lambda>x. 0) size) kvs"
  by (induction kvs) (auto split: if_splits)

lemma size_element: "v \<in> set vs \<Longrightarrow> size v \<le> size_list size vs"
  by (induction vs) auto

text \<open>Python's equality: numbers by value, dictionaries without order.\<close>

function same_value :: "rvalue \<Rightarrow> rvalue \<Rightarrow> bool" where
  "same_value (RObj a) w =
     (case w of
        RObj b \<Rightarrow> set (map fst a) = set (map fst b) \<and>
          list_all (\<lambda>k. case map_of a k of
              None \<Rightarrow> True
            | Some x \<Rightarrow> (case map_of b k of None \<Rightarrow> False | Some y \<Rightarrow> same_value x y)) (map fst a)
      | _ \<Rightarrow> False)"
| "same_value (RArr xs) w = (case w of RArr ys \<Rightarrow> length xs = length ys \<and> list_all (\<lambda>(x, y). same_value x y) (zip xs ys) | _ \<Rightarrow> False)"
| "same_value RNull w = (w = RNull)"
| "same_value (RInt n) w = (number_of w = Some (of_int n))"
| "same_value (RFloat x) w = (number_of w = Some x)"
| "same_value (RStr s) w = (w = RStr s)"
  by pat_completeness auto
termination
  by (relation "measure (\<lambda>(a, b). size a)") (auto simp: less_Suc_eq_le size_element dest: set_zip_leftD)

definition both_numbers :: "rvalue \<Rightarrow> rvalue \<Rightarrow> bool" where
  "both_numbers a b \<longleftrightarrow> number_of a \<noteq> None \<and> number_of b \<noteq> None"

definition is_float :: "rvalue \<Rightarrow> bool" where
  "is_float v \<longleftrightarrow> (case v of RFloat x \<Rightarrow> True | _ \<Rightarrow> False)"

definition close :: "rat \<Rightarrow> rvalue \<Rightarrow> rvalue \<Rightarrow> bool" where
  "close tolerance a b \<longleftrightarrow>
     both_numbers a b \<and> (is_float a \<or> is_float b) \<and> \<bar>the (number_of a) - the (number_of b)\<bar> \<le> tolerance"

text \<open>\<open>repr\<close> is Python's; \<open>path\<close> leads to the two values.\<close>

function differences :: "(rvalue \<Rightarrow> string) \<Rightarrow> rat \<Rightarrow> rvalue \<Rightarrow> rvalue \<Rightarrow> string \<Rightarrow> string list" where
  "differences repr tolerance expected got path =
     (case (expected, got) of
        (RObj a, RObj b) \<Rightarrow>
          concat (map (\<lambda>k.
            case (map_of a k, map_of b k) of
              (Some x, Some y) \<Rightarrow> differences repr tolerance x y (path @ ''/'' @ k)
            | (None, _) \<Rightarrow> [path @ ''/'' @ k @ '': only in the new report'']
            | (_, None) \<Rightarrow> [path @ ''/'' @ k @ '': only in the committed report'']) (sorted_set (map fst a @ map fst b)))
      | _ \<Rightarrow>
          if close tolerance expected got then []
          else if same_value expected got then [] else [path @ '': '' @ repr expected @ '' -> '' @ repr got])"
  by pat_completeness auto
termination
  by (relation "measure (\<lambda>(r, t, a, b, p). size a)") (auto simp: less_Suc_eq_le)

section \<open>Annotations\<close>

text \<open>\<open>[text[i : i + part] for i in range(0, len(text), part)]\<close> for a positive \<open>part\<close>.\<close>

function pieces :: "nat \<Rightarrow> string \<Rightarrow> string list" where
  "pieces part s = (if s = [] \<or> part = 0 then [] else take part s # pieces part (drop part s))"
  by pat_completeness auto
termination
  by (relation "measure (\<lambda>(p, s). length s)") auto

declare pieces.simps [simp del]

definition item :: "rvalue \<Rightarrow> string \<Rightarrow> rvalue option" where
  "item v k = (case v of RObj kvs \<Rightarrow> map_of kvs k | _ \<Rightarrow> None)"

text \<open>A row of the table; None is \<open>KeyError\<close>. \<open>show\<close> is \<open>str\<close> of a value.\<close>

definition annotation_row :: "(rvalue \<Rightarrow> string) \<Rightarrow> rvalue \<Rightarrow> string option" where
  "annotation_row text_of r =
     Option.bind (item r ''mode'') (\<lambda>mode. Option.bind (item r ''all'') (\<lambda>m.
     map_option (\<lambda>vs. text_of mode @ '': '' @ join '' '' (map (\<lambda>(k, v). k @ '' '' @ text_of v) (zip [''hit@1'', ''hit@3'', ''hit@5'', ''mrr'', ''tokens''] vs)))
       (those (map (item m) [''hit@1'', ''hit@3'', ''hit@5'', ''mrr'', ''context_tokens'']))))"

definition escaped_percent :: "string \<Rightarrow> string" where
  "escaped_percent s = concat (map (\<lambda>c. if c = CHR ''%'' then ''%25'' else [c]) s)"

definition annotation_table :: "(rvalue \<Rightarrow> string) \<Rightarrow> rvalue list \<Rightarrow> string \<Rightarrow> string option" where
  "annotation_table text_of results name =
     map_option (\<lambda>rows. ''::notice title=retrieval '' @ name @ ''::'' @ join ''%0A'' rows)
       (those (map (annotation_row text_of) (filter (\<lambda>r. item r ''chunking'' = Some (RStr name)) results)))"

text \<open>\<open>json_text\<close> is the report's JSON.\<close>

definition github_annotations :: "(rvalue \<Rightarrow> string) \<Rightarrow> string \<Rightarrow> rvalue list \<Rightarrow> nat \<Rightarrow> string list option" where
  "github_annotations text_of json_text results part =
     (let names = sorted_set (List.map_filter (\<lambda>r. case item r ''chunking'' of Some (RStr n) \<Rightarrow> Some n | _ \<Rightarrow> None) results);
          ps = pieces part (escaped_percent json_text)
      in map_option (\<lambda>tables. tables @
           map (\<lambda>(i, p). ''::notice title=report '' @ dec i @ ''/'' @ dec (length ps) @ ''::'' @ p) (enumerate 1 ps))
         (those (map (annotation_table text_of results) names)))"

lemma concat_pieces: "part \<noteq> 0 \<Longrightarrow> concat (pieces part s) = s"
proof (induction part s rule: pieces.induct)
  case (1 part s)
  then show ?case by (simp add: pieces.simps [of part s])
qed

section \<open>What the comparison accepts\<close>

lemma same_value_refl: "same_value v v"
proof (induction v)
  case (RArr xs)
  then show ?case by (auto simp: list_all_iff zip_same)
next
  case (RObj kvs)
  have "same_value v v" if "map_of kvs k = Some v" for k v
    using RObj [of "(k, v)" v] map_of_SomeD [OF that] by auto
  then show ?case by (auto simp: list_all_iff split: option.splits)
qed (simp_all add: number_of_def)

declare differences.simps [simp del]

lemma differences_refl: "differences repr tolerance v v path = []"
proof (induction v arbitrary: path)
  case (RObj kvs)
  have "differences repr tolerance v v p = []" if "map_of kvs k = Some v" for k v p
    using RObj [of "(k, v)" v p] map_of_SomeD [OF that] by auto
  then show ?case by (auto simp: differences.simps [of _ _ "RObj kvs"] map_of_eq_None_iff split: option.splits)
qed (simp_all add: differences.simps same_value_refl del: same_value.simps)

text \<open>The value at a path of dictionary keys.\<close>

fun node_at :: "rvalue \<Rightarrow> string list \<Rightarrow> rvalue option" where
  "node_at v [] = Some v"
| "node_at v (k # ks) = Option.bind (item v k) (\<lambda>x. node_at x ks)"

definition acceptable :: "rat \<Rightarrow> rvalue \<Rightarrow> rvalue \<Rightarrow> bool" where
  "acceptable tolerance x y \<longleftrightarrow> close tolerance x y \<or> same_value x y"

lemma differences_leaf:
  assumes "\<not> (\<exists>u v. a = RObj u \<and> b = RObj v)"
  shows "differences repr tolerance a b path = [] \<longleftrightarrow> acceptable tolerance a b"
  using assms unfolding differences.simps [of repr tolerance a b path] acceptable_def
  by (cases a; cases b) simp_all

text \<open>Nothing reported: the same paths lead somewhere, and to values that are equal or close.\<close>

lemma differences_none:
  assumes "differences repr tolerance a b path = []" "node_at a ks = Some x"
  shows "\<exists>y. node_at b ks = Some y \<and> ((\<exists>u v. x = RObj u \<and> y = RObj v) \<or> acceptable tolerance x y)"
  using assms
proof (induction ks arbitrary: a b path)
  case Nil
  then show ?case
    using differences_leaf [of a b repr tolerance path] by auto
next
  case (Cons k ks)
  then obtain u z where a: "a = RObj u" and z: "map_of u k = Some z" "node_at z ks = Some x"
    by (auto simp: item_def bind_eq_Some_conv split: rvalue.splits)
  show ?case
  proof (cases "\<exists>v. b = RObj v")
    case True
    then obtain v where b: "b = RObj v" ..
    have "k \<in> set (map fst u @ map fst v)" using map_of_SomeD [OF z(1)] by force
    with Cons.prems(1) z(1) obtain y where y: "map_of v k = Some y" and d: "differences repr tolerance z y (path @ ''/'' @ k) = []"
      by (fastforce simp: a b differences.simps [of _ _ "RObj u"] split: option.splits)
    from Cons.IH [OF d z(2)] y show ?thesis by (simp add: b item_def)
  next
    case False
    with Cons.prems(1) have "acceptable tolerance (RObj u) b" using differences_leaf [of "RObj u" b] by (auto simp: a)
    with False show ?thesis by (cases b) (auto simp: acceptable_def close_def both_numbers_def number_of_def)
  qed
qed

text \<open>
  The tolerance stops at a list: the results are one, so two reports whose metrics differ at all,
  however little, do not match.
\<close>

lemma tolerance_stops_at_lists: "differences repr tolerance (RArr xs) (RArr ys) path = [] \<longleftrightarrow> same_value (RArr xs) (RArr ys)"
  by (auto simp: differences.simps [of _ _ "RArr xs"] close_def both_numbers_def number_of_def)

lemma results_compared_exactly:
  assumes "map_of a ''results'' = Some (RArr xs)" "map_of b ''results'' = Some (RArr ys)" "\<not> same_value (RArr xs) (RArr ys)"
  shows "differences repr tolerance (RObj a) (RObj b) path \<noteq> []"
proof
  assume "differences repr tolerance (RObj a) (RObj b) path = []"
  from differences_none [OF this, of "[''results'']" "RArr xs"] assms show False
    by (auto simp: item_def acceptable_def close_def both_numbers_def number_of_def)
qed

section \<open>A run reproduces\<close>

lemma latency_value_clock: "map_sum id (\<lambda>x. ()) (latency_value (map f qs)) = map_sum id (\<lambda>x. ()) (latency_value (map g qs))"
proof -
  have "sort xs = [] \<longleftrightarrow> xs = []" for xs :: "rat list" by (metis set_empty set_sort)
  then show ?thesis by (simp add: latency_value_def Let_def)
qed

lemma mode_entries_clock:
  "map_sum id fst (mode_entries kn d clock name queries ms) = map_sum id fst (mode_entries kn d clock' name queries ms)"
proof (induction ms)
  case (Cons m ms)
  show ?case
  proof (cases "all_outcomes kn d (TENANT_PREFIX @ name) m queries")
    case (Inr ocs)
    with Cons latency_value_clock [of "clock name m" queries "clock' name m"] show ?thesis
      by (cases "mode_entries kn d clock name queries ms"; cases "mode_entries kn d clock' name queries ms";
          cases "latency_value (map (clock name m) queries)"; cases "latency_value (map (clock' name m) queries)") auto
  qed simp
qed simp

text \<open>Two runs with other clocks: the same error, or the same parts but for the latencies; the same database.\<close>

definition like_parts :: "(kb_exn + eval_parts) \<times> kb_db \<Rightarrow> (kb_exn + eval_parts) \<times> kb_db \<Rightarrow> bool" where
  "like_parts r r' \<longleftrightarrow> snd r = snd r' \<and> map_sum id (\<lambda>p. (ep_corpus p, ep_results p)) (fst r) = map_sum id (\<lambda>p. (ep_corpus p, ep_results p)) (fst r')"

lemma run_chunkings_clock:
  assumes "ep_corpus parts = ep_corpus parts'" "ep_results parts = ep_results parts'"
  shows "like_parts (run_chunkings sha kn clock docs queries modes names parts d)
    (run_chunkings sha kn clock' docs queries modes names parts' d)"
  using assms
proof (induction names arbitrary: parts parts' d)
  case Nil
  then show ?case by (simp add: like_parts_def)
next
  case (Cons name names)
  show ?case
  proof (cases "map_of PRESETS name")
    case (Some params)
    obtain r d1 where i: "kb_ingest sha (TENANT_PREFIX @ name) docs (kn_embedder kn) params True d = (r, d1)" by fastforce
    from Cons Some i mode_entries_clock [of kn d1 clock name queries modes clock'] show ?thesis
      by (cases r; cases "mode_entries kn d1 clock name queries modes"; cases "mode_entries kn d1 clock' name queries modes")
        (auto simp: like_parts_def split: prod.splits)
  qed (simp add: like_parts_def)
qed

text \<open>
  Two runs on the same knowledge base with other latencies measured: if one ends with a report, so
  does the other, both leave the same knowledge base, and the check finds no difference.
\<close>

lemma run_reproduces:
  assumes "retrieval_run sha kn reranker clock docs queries names modes d = (Inr (RObj r), d')"
  shows "\<exists>r'. retrieval_run sha kn reranker clock' docs queries names modes d = (Inr (RObj r'), d') \<and>
    differences repr tolerance (RObj (comparable r)) (RObj (comparable r')) path = []"
proof -
  let ?kn = "kn\<lparr>kn_min_score := 0, kn_candidates := CANDIDATES\<rparr>"
  let ?parts = "\<lparr>ep_corpus = [(''documents'', RInt (int (length docs)))], ep_results = [], ep_latency = []\<rparr>"
  let ?run = "\<lambda>c. run_chunkings sha ?kn c docs queries modes names ?parts d"
  have ok: "check_labels queries docs = []" "\<not> list_ex (\<lambda>q. query_split q = None) queries"
    using assms by (auto simp: retrieval_run_def Let_def split: if_splits)
  with assms obtain ps where p: "?run clock = (Inr ps, d')"
    by (auto simp: retrieval_run_def Let_def split: prod.splits sum.splits)
  have "like_parts (?run clock) (?run clock')" by (rule run_chunkings_clock) simp_all
  with p obtain ps' where p': "?run clock' = (Inr ps', d')" "ep_corpus ps' = ep_corpus ps" "ep_results ps' = ep_results ps"
    by (cases "?run clock'"; cases "fst (?run clock')") (auto simp: like_parts_def)
  let ?rep = "\<lambda>ps. [(''models'', RObj [(''embedder'', RStr (em_name (kn_embedder ?kn))), (''reranker'', RStr reranker)]),
     (''corpus'', RObj (ep_corpus ps)), (''queries'', query_counts queries), (''results'', RArr (ep_results ps)),
     (''latency_ms'', RObj (ep_latency ps))]"
  have "r = ?rep ps" using assms p ok by (simp add: retrieval_run_def Let_def)
  moreover have "retrieval_run sha kn reranker clock' docs queries names modes d = (Inr (RObj (?rep ps')), d')"
    using p' ok by (simp add: retrieval_run_def Let_def)
  moreover have "comparable (?rep ps) = comparable (?rep ps')" using p' by (simp add: comparable_def)
  ultimately show ?thesis by (metis differences_refl)
qed

end
