(* ===== verification/LabEval.thy ===== *)
theory LabEval
  imports LabRun CliBackend EventStream RetrievalReport "HOL-Library.Multiset"
begin

text \<open>
  The evaluation on the lab (\<open>scripts/lab/evaluate.py\<close>) and the annotations of its output
  (\<open>annotate.py\<close>). Running a scenario and reading its incidents back are parameters. Shown: the
  shards share the scenarios out, the loop ends, observes every scenario once and in order, and
  stops early only as a whole.
\<close>

section \<open>Shards\<close>

text \<open>\<open>xs[::n]\<close>\<close>

function every :: "nat \<Rightarrow> 'a list \<Rightarrow> 'a list" where
  "every n [] = []"
| "every n (x # xs) = x # every n (drop (n - 1) xs)"
  by pat_completeness auto
termination
  by (relation "measure (\<lambda>(n, xs). length xs)") auto

definition shard :: "'a list \<Rightarrow> string option \<Rightarrow> string + 'a list" where
  "shard items spec =
     (case spec of
        None \<Rightarrow> Inr items
      | Some [] \<Rightarrow> Inr items
      | Some (c # s) \<Rightarrow>
          (case map py_int (split_at CHR ''/'' (c # s)) of
             [Some i, Some n] \<Rightarrow>
               if 1 \<le> i \<and> i \<le> n then Inr (every (nat n) (drop (nat (i - 1)) items)) else Inl ''ValueError''
           | _ \<Rightarrow> Inl ''ValueError''))"

section \<open>The steps of a scenario\<close>

text \<open>Distractors with the wait after each, and the fault; \<open>get\<close> looks a name up in the catalogue of faults.\<close>

definition lab_fault :: "(string \<Rightarrow> fault option) \<Rightarrow> string \<Rightarrow> string + fault" where
  "lab_fault get name = (case get name of None \<Rightarrow> Inl ''KeyError'' | Some f \<Rightarrow> Inr f)"

definition lab_steps :: "(string \<Rightarrow> fault option) \<Rightarrow> scenario \<Rightarrow> string + (fault \<times> rat) list \<times> fault" where
  "lab_steps get s =
     (let injections = sc_inject s; before = takeWhile (\<lambda>i. ij_role i \<noteq> Cause) injections
      in case dropWhile (\<lambda>i. ij_role i \<noteq> Cause) injections of
           [] \<Rightarrow> Inl ''StopIteration''
         | cause # rest \<Rightarrow>
             if list_ex (\<lambda>i. ij_role i = Distractor) rest then Inl ''ValueError''
             else bindS (mapS (\<lambda>(i, following). bindS (lab_fault get (ij_fault i)) (\<lambda>f. Inr (f, ij_after_s following)))
                          (zip before (tl injections))) (\<lambda>bs.
                  bindS (lab_fault get (ij_fault cause)) (\<lambda>f. Inr (bs, f))))"

section \<open>The run\<close>

text \<open>
  What the run meets: the catalogue of faults, and by the number of scenarios started before the
  result, the incidents of a tenant read back, the time and the time that is left.
\<close>

record lab_env =
  le_fault :: "string \<Rightarrow> fault option"
  le_attempt :: "nat \<Rightarrow> scenario \<Rightarrow> (fault \<times> rat) list \<times> fault \<Rightarrow> lab_result"
  le_observe :: "nat \<Rightarrow> string list \<Rightarrow> incident_obs list"
  le_now :: "nat \<Rightarrow> rat"
  le_left :: "nat \<Rightarrow> rat option"

definition SCENARIO_S :: rat where
  "SCENARIO_S = 1800"

definition everything_seen :: "lab_result \<Rightarrow> diagnosis_seen list" where
  "everything_seen r = lr_diagnoses r @ lr_variant_diagnoses r"

definition limited_reasons :: "lab_result \<Rightarrow> string list" where
  "limited_reasons r = filter (starts_with MODEL_UNAVAILABLE) (map dg_reason (everything_seen r))"

text \<open>The longest wait any of the reasons names.\<close>

definition longest_wait :: "lab_result \<Rightarrow> rat \<Rightarrow> string + rat option" where
  "longest_wait r now =
     bindS (mapS (\<lambda>x. seconds_until_reset x now) (limited_reasons r)) (\<lambda>ws.
       Inr (case List.map_filter id ws of [] \<Rightarrow> None | t # ts \<Rightarrow> Some (fold max ts t)))"

definition attempt_of :: "lab_env \<Rightarrow> nat \<Rightarrow> scenario \<Rightarrow> string + lab_result \<times> rat option" where
  "attempt_of env n s =
     bindS (lab_steps (le_fault env) s) (\<lambda>st.
     bindS (longest_wait (le_attempt env n s st) (le_now env n)) (\<lambda>pause. Inr (le_attempt env n s st, pause)))"

definition run_again :: "lab_env \<Rightarrow> nat \<Rightarrow> string list \<Rightarrow> scenario \<Rightarrow> rat option \<Rightarrow> bool" where
  "run_again env n retried s pause \<longleftrightarrow>
     (case pause of
        None \<Rightarrow> False
      | Some t \<Rightarrow> sc_id s \<notin> set retried \<and> (case le_left env n of None \<Rightarrow> True | Some l \<Rightarrow> t + SCENARIO_S < l))"

text \<open>\<open>variants\<close>: tenant and variant, the default tenant first.\<close>

definition lab_observations :: "lab_env \<Rightarrow> (string \<times> string) list \<Rightarrow> string \<Rightarrow> nat \<Rightarrow> scenario \<Rightarrow> lab_result \<Rightarrow> scenario_obs list" where
  "lab_observations env variants run n s r =
     map (\<lambda>(tenant, variant).
       \<lparr>so_scenario = sc_id s, so_variant = variant, so_run = run,
        so_incidents = (let ids = map dg_incident (filter (\<lambda>g. dg_tenant g = tenant) (everything_seen r))
          in if ids = [] then [] else le_observe env n ids)\<rparr>) variants"

definition tokens_spent :: "scenario_obs list \<Rightarrow> nat" where
  "tokens_spent results = sum_list (map (\<lambda>x. sum_list (map io_tokens (so_incidents x))) results)"

definition over_budget :: "nat option \<Rightarrow> scenario_obs list \<Rightarrow> bool" where
  "over_budget budget results \<longleftrightarrow> (case budget of None \<Rightarrow> False | Some b \<Rightarrow> b \<noteq> 0 \<and> b \<le> tokens_spent results)"

text \<open>What a turn that is not repeated leaves of the queue.\<close>

definition queue_after :: "rat option \<Rightarrow> nat option \<Rightarrow> scenario_obs list \<Rightarrow> scenario list \<Rightarrow> scenario list" where
  "queue_after pause budget results queue = (if pause \<noteq> None \<or> over_budget budget results then [] else queue)"

definition turns_left :: "string list \<Rightarrow> scenario list \<Rightarrow> nat" where
  "turns_left retried queue = sum_list (map (\<lambda>s. if sc_id s \<in> set retried then 1 else 2) queue)"

lemma turns_left_insert: "turns_left (x # retried) queue \<le> turns_left retried queue"
  by (induction queue) (auto simp: turns_left_def)

lemma turns_left_Cons: "turns_left retried (s # queue) = (if sc_id s \<in> set retried then 1 else 2) + turns_left retried queue"
  by (simp add: turns_left_def)

lemma turns_left_again:
  assumes "sc_id s \<notin> set retried"
  shows "turns_left (sc_id s # retried) (s # queue) < turns_left retried (s # queue)"
  using turns_left_insert [of "sc_id s" retried queue] assms by (simp add: turns_left_Cons)

lemma turns_left_after: "turns_left retried (queue_after p b rs queue) < turns_left retried (s # queue)"
  by (simp add: queue_after_def turns_left_Cons) (simp add: turns_left_def)

function lab_eval ::
    "lab_env \<Rightarrow> (string \<times> string) list \<Rightarrow> string \<Rightarrow> nat option \<Rightarrow> nat \<Rightarrow> string list \<Rightarrow> scenario list \<Rightarrow> scenario_obs list \<Rightarrow>
       string + scenario_obs list" where
  "lab_eval env variants run budget n retried [] results = Inr results"
| "lab_eval env variants run budget n retried (s # queue) results =
     (case attempt_of env n s of
        Inl e \<Rightarrow> Inl e
      | Inr (r, pause) \<Rightarrow>
          if run_again env n retried s pause
          then lab_eval env variants run budget (Suc n) (sc_id s # retried) (s # queue) results
          else let results' = results @ lab_observations env variants run n s r
               in lab_eval env variants run budget (Suc n) retried (queue_after pause budget results' queue) results')"
  by pat_completeness auto
termination
proof (relation "measure (\<lambda>(env, variants, run, budget, n, retried, queue, results). turns_left retried queue)")
  fix env :: lab_env and variants run budget n retried s queue results and x :: "lab_result \<times> rat option" and r pause
  assume "run_again env n retried s pause"
  then have "sc_id s \<notin> set retried" by (auto simp: run_again_def split: option.splits)
  from turns_left_again [OF this, of queue]
  show "((env, variants, run, budget, Suc n, sc_id s # retried, s # queue, results),
      env, variants, run, budget, n, retried, s # queue, results)
    \<in> measure (\<lambda>(env, variants, run, budget, n, retried, queue, results). turns_left retried queue)"
    by simp
qed (simp_all add: turns_left_after)

section \<open>Annotations\<close>

definition ANNOTATION_CHUNK :: nat where
  "ANNOTATION_CHUNK = 6000"

definition MAX_ANNOTATIONS :: nat where
  "MAX_ANNOTATIONS = 10"

definition escape_annotation :: "string \<Rightarrow> string" where
  "escape_annotation s =
     concat (map (\<lambda>c. if c = CHR ''%'' then ''%25'' else if c = CHR 0x0D then ''%0D'' else if c = CHR 0x0A then ''%0A'' else [c]) s)"

text \<open>A file by name and content, and the number of lines asked for; a missing file is not in the list. \<open>xs[-0:]\<close> is all of it.\<close>

definition last_lines :: "nat option \<Rightarrow> string list \<Rightarrow> string list" where
  "last_lines tail ls = (case tail of None \<Rightarrow> ls | Some n \<Rightarrow> if n = 0 then ls else drop (length ls - n) ls)"

definition file_annotations :: "nat \<Rightarrow> string \<times> string \<times> nat option \<Rightarrow> string list" where
  "file_annotations chunk f =
     (case f of (name, content, tail) \<Rightarrow>
        let body = strip (join [CHR 0x0A] (last_lines tail (splitlines content)));
            parts = pieces chunk (if body = [] then ''(empty)'' else body)
        in map (\<lambda>(n, p). ''::notice title='' @ name @ '' ['' @ dec n @ ''/'' @ dec (length parts) @ '']::'' @ escape_annotation p)
             (enumerate 1 parts))"

definition build_annotations :: "(string \<times> string \<times> nat option) list \<Rightarrow> nat \<Rightarrow> nat \<Rightarrow> string list" where
  "build_annotations files chunk limit = take limit (concat (map (file_annotations chunk) files))"

section \<open>The shards share the scenarios out\<close>

lemma shards_partition:
  assumes "0 < n"
  shows "(\<Sum>i<n. mset (every n (drop i xs))) = mset xs"
proof (induction xs)
  case (Cons x xs)
  obtain m where n: "n = Suc m" using assms not0_implies_Suc by blast
  have "(\<Sum>i<n. mset (every n (drop i (x # xs)))) =
      mset (every n (x # xs)) + (\<Sum>i<m. mset (every n (drop i xs)))"
    unfolding n by (subst sum.lessThan_Suc_shift) simp
  also have "\<dots> = add_mset x ((\<Sum>i<m. mset (every n (drop i xs))) + mset (every n (drop m xs)))"
    by (simp add: n)
  also have "(\<Sum>i<m. mset (every n (drop i xs))) + mset (every n (drop m xs)) = (\<Sum>i<n. mset (every n (drop i xs)))"
    by (simp add: n)
  finally show ?case by (simp add: Cons.IH)
qed simp

section \<open>Every scenario once and in order\<close>

lemma lab_eval_order:
  "lab_eval env variants run budget n retried queue results = Inr found \<Longrightarrow>
   \<exists>k. map so_scenario found = map so_scenario results @ concat (map (\<lambda>s. replicate (length variants) (sc_id s)) (take k queue))"
proof (induction env variants run budget n retried queue results rule: lab_eval.induct)
  case (1 env variants run budget n retried results)
  then show ?case by simp
next
  case (2 env variants run budget n retried s queue results)
  from 2(3) obtain r pause where p: "attempt_of env n s = Inr (r, pause)"
    by (auto split: sum.splits)
  let ?obs = "lab_observations env variants run n s r"
  show ?case
  proof (cases "run_again env n retried s pause")
    case True
    with 2(3) p have "lab_eval env variants run budget (Suc n) (sc_id s # retried) (s # queue) results = Inr found"
      by simp
    from 2(1) [OF p refl True this] show ?thesis .
  next
    case False
    with 2(3) p have e: "lab_eval env variants run budget (Suc n) retried (queue_after pause budget (results @ ?obs) queue)
        (results @ ?obs) = Inr found" by (simp add: Let_def)
    have obs: "map so_scenario ?obs = replicate (length variants) (sc_id s)"
      by (induction variants) (auto simp: lab_observations_def)
    from 2(2) [OF p refl False refl e] obtain k where
      k: "map so_scenario found = map so_scenario (results @ ?obs) @
        concat (map (\<lambda>s. replicate (length variants) (sc_id s)) (take k (queue_after pause budget (results @ ?obs) queue)))" by blast
    show ?thesis
      by (rule exI [of _ "if queue_after pause budget (results @ ?obs) queue = [] then 1 else Suc k"])
        (use k obs in \<open>auto simp: queue_after_def\<close>)
  qed
qed

text \<open>GitHub drops what is over the limit; nothing is.\<close>

lemma build_annotations_bound: "length (build_annotations files chunk limit) \<le> limit"
  by (simp add: build_annotations_def)

end
