(* ===== verification/EvalCommand.thy ===== *)
theory EvalCommand
  imports Collect
begin

text \<open>
  \<open>python -m app.eval\<close> (\<open>app/eval/__main__.py\<close>): the scores by variant and run, the exit status of
  the release gate, and the merge of the shards' result files. Shown: what status 0 means, and that
  a merge keeps every observation.
\<close>

section \<open>Scores by variant and run\<close>

text \<open>\<open>key=lambda v: (v != "default", v)\<close>\<close>

definition variant_order :: "scenario_score list \<Rightarrow> string list" where
  "variant_order scores =
     (let vs = sorted_set (map ss_variant scores) in filter (\<lambda>v. v = ''default'') vs @ filter (\<lambda>v. v \<noteq> ''default'') vs)"

definition per_run_metrics :: "scenario_score list \<Rightarrow> (string \<times> variant_metrics list) list" where
  "per_run_metrics scores =
     map (\<lambda>v. let mine = filter (\<lambda>s. ss_variant s = v) scores
        in (v, map (\<lambda>r. compute_metrics v (filter (\<lambda>s. ss_run s = r) mine)) (sorted_set (map ss_run mine))))
       (variant_order scores)"

section \<open>The gate's status\<close>

record report_args =
  ra_gate :: "string list"
  ra_canary :: "string list option"
  ra_scenarios :: "string list"

definition has_results :: "scenario_score list \<Rightarrow> string \<Rightarrow> bool" where
  "has_results scores v \<longleftrightarrow> v \<in> set (map fst (per_run_metrics scores))"

definition canaries_of :: "report_args \<Rightarrow> scenario_score list \<Rightarrow> string list" where
  "canaries_of a scores = (case ra_canary a of None \<Rightarrow> filter (has_results scores) [''canary''] | Some cs \<Rightarrow> cs)"

definition compared_with :: "report_args \<Rightarrow> scenario_score list \<Rightarrow> scenario_score list" where
  "compared_with a loaded =
     (let baseline = filter (\<lambda>s. ss_variant s = ''default'') loaded
      in if ra_scenarios a = [] then baseline else filter (\<lambda>s. ss_scenario s \<in> set (ra_scenarios a)) baseline)"

definition gate_results :: "report_args \<Rightarrow> scenario_score list \<Rightarrow> scenario_score list \<Rightarrow> gate_result list" where
  "gate_results a scores loaded =
     map (\<lambda>v. gate_check v scores (compared_with a loaded)) (filter (has_results scores) (ra_gate a)) @
     map (\<lambda>v. gate_check v scores (filter (\<lambda>s. ss_variant s = ''default'') scores)) (filter (has_results scores) (canaries_of a scores))"

definition report_status :: "report_args \<Rightarrow> scenario_score list \<Rightarrow> scenario_score list \<Rightarrow> nat" where
  "report_status a scores loaded =
     (if list_ex (\<lambda>g. gr_variant g \<in> set (canaries_of a scores) \<longleftrightarrow> gate_passed g) (gate_results a scores loaded) \<or>
         list_ex (\<lambda>v. \<not> has_results scores v) (ra_gate a)
      then 1 else 0)"

text \<open>\<open>cmd_report\<close>: the files of the run and of the baseline.\<close>

definition cmd_report :: "scenario list \<Rightarrow> report_args \<Rightarrow> result_file list \<Rightarrow> result_file list \<Rightarrow> string + nat" where
  "cmd_report cases a files baseline_files =
     bindS (load_scores cases files) (\<lambda>scores. bindS (load_scores cases baseline_files) (\<lambda>loaded.
       Inr (report_status a scores loaded)))"

section \<open>Merging\<close>

definition named_run :: "string \<Rightarrow> scenario_obs \<Rightarrow> scenario_obs" where
  "named_run run x = (if so_run x \<noteq> [] then x else x\<lparr>so_run := run\<rparr>)"

definition cmd_merge :: "string \<Rightarrow> result_file list \<Rightarrow> result_file" where
  "cmd_merge run files =
     \<lparr>rf_run = run, rf_kind = (if files = [] then ''live'' else rf_kind (last files)),
      rf_observations = sort_key (\<lambda>x. (so_scenario x, so_variant x)) (concat (map (\<lambda>f. map (named_run run) (rf_observations f)) files))\<rparr>"

section \<open>What status 0 means\<close>

lemma has_results_iff: "has_results scores v \<longleftrightarrow> v \<in> ss_variant ` set scores"
  by (auto simp: has_results_def per_run_metrics_def variant_order_def Let_def image_image)

lemma gate_check_variant: "gr_variant (gate_check v scores baseline) = v"
  by (auto simp: gate_check_def Let_def)

lemma report_status_0:
  "report_status a scores loaded = 0 \<longleftrightarrow>
     (\<forall>g \<in> set (gate_results a scores loaded). gr_variant g \<in> set (canaries_of a scores) \<longleftrightarrow> \<not> gate_passed g) \<and>
     (\<forall>v \<in> set (ra_gate a). has_results scores v)"
  by (auto simp: report_status_def list_ex_iff)

theorem status_zero_means:
  assumes "report_status a scores loaded = 0"
  shows "(\<forall>v \<in> set (ra_gate a). has_results scores v \<and>
      (v \<notin> set (canaries_of a scores) \<longrightarrow> gate_passed (gate_check v scores (compared_with a loaded)))) \<and>
    (\<forall>c \<in> set (canaries_of a scores). has_results scores c \<longrightarrow>
      \<not> gate_passed (gate_check c scores (filter (\<lambda>s. ss_variant s = ''default'') scores)))"
proof -
  note st = assms [unfolded report_status_0]
  have gated: "gate_passed (gate_check v scores (compared_with a loaded))"
    if "v \<in> set (ra_gate a)" "v \<notin> set (canaries_of a scores)" for v
  proof -
    have "gate_check v scores (compared_with a loaded) \<in> set (gate_results a scores loaded)"
      using that(1) st by (simp add: gate_results_def)
    with st that(2) show ?thesis by (metis gate_check_variant)
  qed
  have "\<not> gate_passed (gate_check c scores (filter (\<lambda>s. ss_variant s = ''default'') scores))"
    if "c \<in> set (canaries_of a scores)" "has_results scores c" for c
  proof -
    have "gate_check c scores (filter (\<lambda>s. ss_variant s = ''default'') scores) \<in> set (gate_results a scores loaded)"
      using that by (simp add: gate_results_def)
    with st that(1) show ?thesis by (metis gate_check_variant)
  qed
  with gated st show ?thesis by blast
qed

text \<open>A canary that was asked for and has no results is not missed.\<close>

lemma absent_canary_passes:
  assumes "\<not> has_results scores c" "ra_canary a = Some [c]" "report_status (a\<lparr>ra_canary := Some []\<rparr>) scores loaded = 0"
  shows "report_status a scores loaded = 0"
proof -
  have "gate_results a scores loaded = gate_results (a\<lparr>ra_canary := Some []\<rparr>) scores loaded"
    using assms(1,2) by (simp add: gate_results_def canaries_of_def compared_with_def Let_def)
  moreover have "gr_variant g \<noteq> c" if "g \<in> set (gate_results (a\<lparr>ra_canary := Some []\<rparr>) scores loaded)" for g
    using that assms(1) by (auto simp: gate_results_def canaries_of_def gate_check_variant)
  ultimately show ?thesis using assms(2,3) by (simp add: report_status_0 canaries_of_def)
qed

lemma merge_keeps_observations:
  "mset (rf_observations (cmd_merge run files)) = mset (concat (map (\<lambda>f. map (named_run run) (rf_observations f)) files))"
  by (simp add: cmd_merge_def)

end
