(* ===== verification/Spec2Isabelle.thy ===== *)
theory Spec2Isabelle
  imports RecordScenario WorkerScenario Router Vectors Fetching LabChecks LabEval InjectionEval EvalCommand
begin

text \<open>
  A model of an incident response service (Python, \<open>src/app\<close>): alerts open incidents, agents
  on language models investigate them over read-only tools, a planner proposes a remediation plan,
  a policy and people decide on it, an executor changes a Kubernetes cluster, a worker verifies the
  repair. All state that matters is in one database; processes talk through its tables and a job
  queue with leases.

  How the code is modelled. One transaction is a function \<open>db \<Rightarrow> exn + 'a \<times> db\<close>
  (\<open>'a tx\<close>, theory Prelude): an exception rolls back, so it carries no state. The database is the
  record \<open>db\<close> of Schema (\<open>app/db/schema.py\<close>), a table is a list of rows in insertion order.
  What other connections commit between two transactions of one handler is a function on the
  database (\<open>others\<close>) or a free step of a relation. Every raise is a constructor of an exception
  type. Integers are Python's unbounded ones (\<open>int\<close>, \<open>nat\<close> where the code cannot go below
  zero), times are whole microseconds (durations rational seconds), texts are lists of characters with code points below 256.
  SHA-256, \<open>isoformat\<close> and the like are in the record \<open>world\<close> (AuditLog) and nothing is
  assumed of them: theorems that need a hash to tell two texts apart name the two texts. Model
  backends, tool backends and the API server of the cluster are arguments: any function that gives
  an answer or an error.

  Which theory models what (files under \<open>src/app\<close>; functions keep their names).

  \<^item> Prelude, Json: error results, SQL statements over lists, Python's text functions; the canonical
    JSON text that every hash is of (\<open>tools/base.py\<close>).
  \<^item> Actions, Policy: \<open>remediation/actions.py\<close>, \<open>plans.py\<close>, \<open>policy.py\<close>. The
    plan's text determines it; what each verdict means.
  \<^item> Schema, AgentSchemas: the tables with their constraints and the settings (\<open>core/config.py\<close>);
    the shapes of the agents' answers (\<open>agents/schemas.py\<close>).
  \<^item> AuditLog: \<open>db/audit.py\<close>, the hash chain and its verification.
  \<^item> Incidents: \<open>db/incidents.py\<close>, opening, merging and the guarded transition.
  \<^item> Jobs: \<open>queue/jobs.py\<close>. The locale \<open>fenced\<close> states what a lease gives (a lost lease never
    comes back) and is interpreted on the queue's own steps as \<open>jq\<close>.
  \<^item> Runner, WorkerLoop: \<open>worker/runner.py\<close>, \<open>worker/handlers.py\<close>: job transactions, retries, the
    reaper, slots; the loop with its heartbeats and the drain, as a step relation (\<open>loop_step\<close>).
  \<^item> Ingest: \<open>ingest.py\<close>: identity of an alert, priority, one webhook.
  \<^item> Flow: \<open>remediation/flow.py\<close>, \<open>api/remediation.py\<close>: submit, decide, the request handlers.
  \<^item> ExecutorK8s, ExecutorJob: \<open>executor/k8s.py\<close>, \<open>executor/job.py\<close>: patches, the wait for a
    rollout, and an execute attempt as a machine of its statements, interleaved with anything else
    by \<open>exec_sys_step\<close>.
  \<^item> RemediateJobs: \<open>worker/remediate.py\<close>, \<open>remediation/verify.py\<close>: plan, approval_timeout and
    verify jobs.
  \<^item> Compress, Citations, Tools, Sources: \<open>tools/compress.py\<close>, \<open>agents/citations.py\<close>,
    \<open>tools/registry.py\<close>, \<open>tools/evidence.py\<close>, \<open>tools/sources.py\<close>: what a tool call
    records, how an answer is summarised, which claims stand, the breaker, replay.
  \<^item> Llm, Backends: \<open>llm/types.py\<close>, \<open>retry.py\<close>, \<open>replay.py\<close>, \<open>render.py\<close>, \<open>api.py\<close>.
    StepSchema: the schema of a step, its references inlined to any depth a schema without a circle
    needs. Router: \<open>router.py\<close>, which backend, embedder and reranker a process has.
  \<^item> AgentStore: \<open>agents/store.py\<close>, in memory and in the database. The locale
    \<open>agent_store\<close> states what a store promises and is interpreted on both (\<open>mem\<close>, \<open>pg\<close>).
  \<^item> Loop: \<open>agents/loop.py\<close>; Prompts: \<open>agents/prompts.py\<close>, \<open>variants.py\<close>; Views:
    \<open>db/investigations.py\<close> and the texts of \<open>agents/investigation.py\<close>; Investigation: the rest
    of it; InvestigateJob: \<open>worker/investigate.py\<close>, \<open>remediation/planner.py\<close>.
  \<^item> Security: \<open>core/security.py\<close> and the requests behind it; EventStream: \<open>api/stream.py\<close>.
  \<^item> Chunking, Knowledge, Retrieval: the knowledge base, \<open>kb/chunking.py\<close>; \<open>kb/store.py\<close>,
    \<open>kb/search.py\<close> and \<open>tools/kb.py\<close>; the lexical reranker and \<open>kb/evaluate.py\<close>. Vectors: the hash
    embedder. Its two
    tables are a state of their own (\<open>kb_db\<close>); the embedding model, the reranker and what Postgres
    computes over a row (\<open>sql_functions\<close>) are parameters.
  \<^item> BackendTools, TraceTools, MetricTools: the tools' backends, \<open>tools/clients.py\<close>, \<open>k8s.py\<close>
    and \<open>flags.py\<close>; \<open>jaeger.py\<close>; \<open>prometheus.py\<close>. Fetching: what is asked
    of Jaeger and Prometheus. Logs: \<open>loki.py\<close>, lines grouped by template.
  \<^item> Recording: \<open>agents/recording.py\<close>, a finished investigation out of the database and back into
    an empty one, where it runs again on recorded answers.
  \<^item> Reports: the rest of \<open>db/investigations.py\<close>, \<open>agents/report.py\<close> and the routes that read,
    \<open>api/incidents.py\<close> and \<open>api/evidence.py\<close>.
  \<^item> CliBackend: \<open>llm/cli.py\<close>, over a parameter for the process.
  \<^item> CaseExport: \<open>console/export.py\<close>, one incident through the routes that read it; Gauges:
    \<open>obs/state.py\<close>.
  \<^item> Evaluation: \<open>eval/scenarios.py\<close>, \<open>score.py\<close>, \<open>metrics.py\<close>, \<open>gate.py\<close>. Collect:
    \<open>eval/collect.py\<close>, \<open>results.py\<close>, \<open>report.py\<close>. EvalReplay: \<open>eval/replay.py\<close>, a recording
    driven through the worker's handlers. EvalCommand: \<open>eval/__main__.py\<close>, the gate's exit status.
  \<^item> RetrievalReport: the run of \<open>kb/evaluate.py\<close> over the chunkings and modes, its report and the
    comparison of two. LabFaults, LabRun, LabChecks, LabEval, InjectionEval (\<open>src/scripts\<close>): the
    faults of the lab, the acceptance run, its probes and its status, the checks of the load test, the
    evaluation on the lab, and the prompt injection check.
  \<^item> System: all transactions of all processes as one step relation (\<open>sys_step\<close>), the invariant
    of every incident (\<open>system_ok\<close>), the moves others see (\<open>cmove\<close>), and the jobs as runs of it.
  \<^item> Scenario, AgentScenario, SystemScenario, KnowledgeScenario, RecordScenario, WorkerScenario: concrete inputs, to
    which the properties with hypotheses are applied.

  The lemmas. Each component theory proves what its operations keep (row by row: \<open>_Inr\<close> lemmas
  open a transaction that returned normally, \<open>_keeps\<close> lemmas say what stays) and what they
  answer on every branch. The executor's invariant (\<open>exec_sys_inv\<close>) and the investigation's
  (\<open>board_grounded\<close>, with the triples \<open>spec_of\<close> over \<open>step_of\<close>/\<open>andthen\<close>) are proved by
  rule induction and by induction on the fuel. The properties below are a few steps over them.

  Fuel and bounds. \<open>wait_loop\<close> has the fuel \<open>wait_fuel\<close>, a turn for every two seconds of the
  timeout and seven more: it never runs out when the clock advances by at least what the loop
  sleeps (ExecutorK8s). An agent's loop has a fuel too; \<open>run_fuel\<close> is enough when a backend
  answers a request that offers no tools with a final answer (\<open>investigation_ends\<close>); without
  that the code itself never ends (\<open>Loop.toolless_never_ends\<close>). A replay's queue loop has a turn
  for every job that can still be claimed (\<open>turns_of\<close>) and never runs out of them. The verification of a repair ends
  by its deadline (\<open>verification_ends\<close>).

  Not modelled: telemetry, token costs and latencies, metrics; \<open>asyncio\<close> (cancellation is a step
  that stops an attempt); HTTP routing and pydantic's parsing beyond the checks the code states;
  foreign keys that the code never relies on; the database's triggers; the models
  that embed and rerank, of which only the lexical reranker is code; reading and
  writing files; the pages of the console; the cryptography of tokens, of which only PyJWT's documented behaviour is used
  (\<open>jwt_law\<close>); of the scripts, the tables they print, the drawing of dashboards, and the calls to the
  lab's cluster, whose answers are parameters.
\<close>

section \<open>Changing the cluster\<close>

text \<open>
  (C1) Each action of a plan is sent to the cluster at most once, in any schedule: execute
  attempts of any jobs start, step in any order, stop or crash anywhere, with any answers of the
  API server and any other transaction in between. No key \<open>plan:<id>:action:<i>\<close> is sent
  twice, and there are as many changes among the requests as keys that were sent.
\<close>

theorem action_sent_at_most_once:
  "distinct (xs_sent (exec_schedule cs d)) \<and>
   length (changes (xs_requests (exec_schedule cs d))) = length (xs_sent (exec_schedule cs d))"
  using exec_sys_reach_inv [OF exec_schedule_reach] exec_sys_sent_length [OF exec_schedule_reach]
  by (simp add: exec_sys_inv_def once_each_def)

text \<open>
  (C2) In any schedule, an attempt that is about to send a change has itself found the incident
  EXECUTING with this very plan, the policy not denying it at that moment, and, where the plan or
  the policy's second look asks for one, an approval of this very hash by someone other than the
  plan's author.
\<close>

theorem sender_was_cleared:
  "list_all (\<lambda>a. armed_key a = None \<or> attempt_cleared a) (xs_attempts (exec_schedule cs d))"
  using exec_sys_cleared [OF exec_schedule_reach, of cs d] closing_not_armed
  by (auto simp: list_all_iff)

text \<open>
  (C6) What a verdict means: a plan without actions, outside the change window, or with an action
  that misses a blocking check is denied; otherwise it runs unattended exactly if no action is
  riskier than the configuration allows.
\<close>

theorem policy_verdict:
  "dn_verdict (evaluate err plan ctx) =
     (if rp_actions plan \<noteq> [] \<and> in_change_window ctx \<and> list_all (action_cleared ctx) (rp_actions plan)
      then if list_all (\<lambda>a. kind_risk a \<le> px_auto_max_risk ctx) (rp_actions plan) then Allow else RequireApproval
      else Deny)"
  using evaluate_verdict [of err plan ctx] by (auto simp: list_all_iff less_eq_risk_def)

text \<open>
  (C7) With the default settings no plan runs without a person: every action of the catalogue is
  riskier than \<open>R1\<close>.
\<close>

theorem defaults_never_unattended:
  "dn_verdict (review w (default_settings\<lparr>remediation_targets := ts, remediation_change_window := cw\<rparr>) d inc plan) \<noteq> Allow"
proof -
  have "kind_risk a = R2 \<or> kind_risk a = R3" for a
    using catalogue_action [of a] by (auto simp: kind_risk_def)
  then have "\<not> kind_risk a \<le> R1" for a by (metis less_eq_risk_def numeral_le_one_iff risk_rank_simps(2,3,4) semiring_norm(69,70))
  then show ?thesis
    by (cases "rp_actions plan")
      (auto simp: review_def evaluate_verdict less_eq_risk_def review_context_def make_context_def default_settings_def)
qed

text \<open>
  A decision that is accepted was taken while the incident waited, on the newest plan, by its
  hash, before its deadline, as the first decision on it, and an approval is not by the plan's
  author.
\<close>

theorem decision_was_allowed:
  assumes "decide w st inc approver choice hash_seen comment d = Inr (s', d')"
  shows "i_state inc = AWAITING_APPROVAL \<and>
    (\<exists>plan. current_plan d (i_id inc) = Some plan \<and> p_verdict plan = RequireApproval \<and> hash_seen = p_hash plan \<and>
       (\<forall>t. p_expires_at plan = Some t \<longrightarrow> w_utcnow w < t) \<and> (choice = Approve \<longrightarrow> approver \<noteq> p_proposed_by plan) \<and>
       p_id plan \<notin> set (map ap_plan (approvals d)) \<and>
       s' = (if choice = Approve then EXECUTING else ESCALATED))"
  using assms by (rule decide_Inr) blast

theorem decision_was_allowed_witness:
  "\<exists>s' d'. decide w0 st1 (inc0 AWAITING_APPROVAL 4) ''user:ann'' Approve ''h1'' ''''
     (db0 AWAITING_APPROVAL [plan_row0 RequireApproval] ''plan'') = Inr (s', d') \<and> s' = EXECUTING"
proof (rule ends_inE [OF decide_approves])
  fix a assume "decide w0 st1 (inc0 AWAITING_APPROVAL 4) ''user:ann'' Approve ''h1'' ''''
     (db0 AWAITING_APPROVAL [plan_row0 RequireApproval] ''plan'') = Inr a"
  moreover obtain s' d' where "a = (s', d')" by force
  ultimately have e: "decide w0 st1 (inc0 AWAITING_APPROVAL 4) ''user:ann'' Approve ''h1'' ''''
     (db0 AWAITING_APPROVAL [plan_row0 RequireApproval] ''plan'') = Inr (s', d')" by simp
  from decision_was_allowed [OF e] have "s' = EXECUTING" by auto
  with e show ?thesis by blast
qed

text \<open>
  (C10) A submitted plan takes the incident to the state of the policy's verdict, three moves
  further, is the newest plan from then on and carries the hash of its content; where it may run,
  the execute job is in the same transaction.
\<close>

theorem submitted_plan:
  assumes "submit w st inc plan by actor d = Inr ((row, s'), d')" "distinct (map i_id (incidents d))"
  shows "p_plan row = plan \<and> p_proposed_by row = by \<and> p_verdict row = dn_verdict (review w st d inc plan) \<and>
    p_hash row = plan_hash (w_sha w) (i_id inc) (p_seq row) plan \<and> current_plan d' (i_id inc) = Some row \<and>
    s' = (case p_verdict row of Allow \<Rightarrow> EXECUTING | RequireApproval \<Rightarrow> AWAITING_APPROVAL | Deny \<Rightarrow> ESCALATED) \<and>
    (\<exists>r. incidents_get d' (i_id inc) None = Some r \<and> i_state r = s' \<and> i_version r = i_version inc + 3) \<and>
    (s' = EXECUTING \<longrightarrow> plan_job_key (p_id row) ''execute'' \<in> set (job_keys d'))"
  using submit_Inr [OF assms(1)] submit_incident [OF assms] by (auto simp: state_after_def)

theorem submitted_plan_witness:
  "\<exists>row s' d'. submit w0 st0 (inc0 DIAGNOSED 4) plan0 ''agent:planner'' ''agent:planner'' (db0 DIAGNOSED [] ''plan'') =
     Inr ((row, s'), d') \<and> current_plan d' ''i'' = Some row"
proof (rule ends_inE [OF submit_allowed])
  fix a assume "submit w0 st0 (inc0 DIAGNOSED 4) plan0 ''agent:planner'' ''agent:planner'' (db0 DIAGNOSED [] ''plan'') = Inr a"
  moreover obtain row s' d' where "a = ((row, s'), d')" by (metis surj_pair)
  ultimately have e: "submit w0 st0 (inc0 DIAGNOSED 4) plan0 ''agent:planner'' ''agent:planner'' (db0 DIAGNOSED [] ''plan'') =
      Inr ((row, s'), d')" by simp
  from submitted_plan [OF e db0_ids] have "current_plan d' ''i'' = Some row" by (simp add: inc0_def)
  with e show ?thesis by blast
qed

text \<open>
  (C13) The hash an approval binds to pins the incident, the sequence number and every field of the
  plan, unless the two texts are a collision of SHA-256.
\<close>

theorem plan_hash_binds:
  "plan_hash sha i n p = plan_hash sha j m q \<Longrightarrow> (i = j \<and> n = m \<and> p = q) \<or>
     collision sha (plan_text i n p) (plan_text j m q)"
  by (rule plan_hash_pins)

theorem plan_hash_binds_witness:
  "collision (\<lambda>s. ''same'') (plan_text ''a'' 1 plan0) (plan_text ''b'' 1 plan0)"
proof -
  have "plan_hash (\<lambda>s. ''same'') ''a'' 1 plan0 = plan_hash (\<lambda>s. ''same'') ''b'' 1 plan0" by (simp add: plan_hash_def)
  from plan_hash_binds [OF this] show ?thesis by simp
qed

text \<open>
  (C36) Working a change out only reads: \<open>prepare\<close> sends no patch, and a patch it works out tests
  the resource version that was read, so that a Deployment changed in between is left alone.
\<close>

theorem prepared_patch_is_guarded:
  assumes "prepare wr now note a h = (Inr p, h')"
  shows "changes h' = changes h \<and> pr_deployment p = a_deployment a \<and> (pr_noop p \<longleftrightarrow> pr_ops p = []) \<and>
    (pr_ops p \<noteq> [] \<longrightarrow> (\<exists>dep fa h1. get_deployment wr (a_deployment a) h = (Inr dep, h1) \<and>
       deployment_facts dep = Inr fa \<and> hd (pr_ops p) = test_op (fa_version fa)))"
  using prepare_Inr [OF assms] changes_reads [OF prepare_reads assms] by blast

definition dep0 :: json where
  "dep0 = JObj [(''metadata'', JObj [(''resourceVersion'', JStr ''7'')]),
     (''spec'', JObj [(''replicas'', JInt 1), (''template'', JObj [(''spec'', JObj []), (''metadata'', JObj [])])])]"

definition wr0 :: writer where
  "wr0 = \<lparr>wr_answer = (\<lambda>h r. Response 200 '''' (Some dep0)), wr_namespace = ''ns''\<rparr>"

theorem prepared_patch_is_guarded_witness:
  "\<exists>p h'. prepare wr0 ''now'' '''' (ScaleDeployment ''cart'' [''ev''] '''' 3) [] = (Inr p, h') \<and> changes h' = []"
proof -
  obtain p h' where e: "prepare wr0 ''now'' '''' (ScaleDeployment ''cart'' [''ev''] '''' 3) [] = (Inr p, h')"
    by (simp add: prepare_def kbind_def get_deployment_def ksend_def wr0_def dep0_def klift_def kret_def deployment_facts_def
        jidx_def jget_def jget_or_def revision_of_def images_def)
  from prepared_patch_is_guarded [OF e] e show ?thesis by (auto simp: changes_def)
qed

text \<open>
  A rollback goes to a revision that exists and is not the current one: the one asked for, or
  the newest of the earlier ones.
\<close>

theorem rollback_target:
  assumes "undo_target name to_revision current known = Inr t"
  shows "t \<in> set known \<and> t \<noteq> current \<and> (\<forall>n. to_revision = Some n \<longrightarrow> t = n) \<and>
    (to_revision = None \<longrightarrow> 0 < t \<and> t < current \<and> (\<forall>r \<in> set known. 0 < r \<longrightarrow> r < current \<longrightarrow> r \<le> t))"
  by (rule undo_target_Inr [OF assms])

theorem rollback_target_witness: "(2 :: int) \<in> set [3, 1, 2] \<and> (2 :: int) < 3"
  using rollback_target [of "''cart''" None 3 "[3, 1, 2]" 2] by (simp add: undo_target_def)

section \<open>The queue\<close>

text \<open>
  (C8) A lost lease stays lost: once a handle's fence has been issued and it does not own the job
  any more, no run of the queue, by whatever workers, gives it back, and every transaction of the
  handle fails with \<open>LeaseLost\<close> and changes nothing.
\<close>

theorem lost_lease_stays_lost:
  assumes "qstep\<^sup>*\<^sup>* d d'" "jobs_ok d" "\<not> holds d job" "jb_fence job \<le> job_fence d (jb_id job)"
  shows "job_transaction job body d' = Inl (LeaseLost (jb_id job) (jb_fence job))"
proof -
  have ok: "jobs_ok d'" by (rule jq.run_ok [OF assms(1,2)])
  have "\<not> jq.owns d (jb_id job) (jb_fence job)" using assms(2,3) holds_owns by (simp add: jobs_ok_def)
  then have "\<not> jq.owns d' (jb_id job) (jb_fence job)" by (rule jq.lost_forever [OF assms(1,2) _ assms(4)])
  then show ?thesis using holds_owns ok by (simp add: jobs_ok_def job_transaction_lost)
qed

definition stale0 :: job where
  "stale0 = (held0 ''k'')\<lparr>jb_fence := 0\<rparr>"

theorem lost_lease_stays_lost_witness:
  "job_transaction stale0 (\<lambda>d. Inr ((), d)) (db0 TRIAGED [] ''k'') = Inl (LeaseLost 1 0)"
proof -
  have "jobs_ok (db0 TRIAGED [] ''k'')" by (simp add: jobs_ok_def db0_def job0_def job_keys_def map_filter_simps)
  moreover have "\<not> holds (db0 TRIAGED [] ''k'') stale0"
    by (simp add: holds_def owned_def stale0_def held0_def from_row_def db0_def job0_def)
  ultimately show ?thesis
    using lost_lease_stays_lost [of "db0 TRIAGED [] ''k''" "db0 TRIAGED [] ''k''" stale0 "\<lambda>d. Inr ((), d)"]
    by (simp add: stale0_def held0_def from_row_def job0_def)
qed

text \<open>
  A claim takes a waiting job that nobody holds, is due and of an allowed kind and priority,
  and none of these has a better place in line; the new lease has a fence higher than any before.
\<close>

theorem claim_takes_the_first:
  assumes "claim locked w owner ttl mp ks d = (Some job, d')" "jobs_ok d"
  shows "(\<exists>r \<in> set (claimable locked (w_now w) mp ks d). j_id r = jb_id job \<and>
       (\<forall>y \<in> set (claimable locked (w_now w) mp ks d).
          j_sort_key r < j_sort_key y \<or> j_sort_key r = j_sort_key y \<and> j_id r \<le> j_id y)) \<and>
    holds d' job \<and> job_fence d (jb_id job) < jb_fence job"
proof -
  from assms(1) obtain r where r: "r \<in> set (claimable locked (w_now w) mp ks d)" "job = from_row (w_now w) (lease w owner ttl r)"
    "\<forall>y \<in> set (claimable locked (w_now w) mp ks d). claim_rank r \<le> claim_rank y" by (rule claim_Some)
  have "jobs_ok d'" by (rule qstep_jobs_ok [OF q_claim [OF assms(1)] assms(2)])
  then have "holds d' job \<and> job_fence d (jb_id job) < jb_fence job"
    using claim_owns [OF assms] holds_owns by (simp add: jobs_ok_def)
  moreover have "j_id r = jb_id job" by (simp add: r(2) from_row_def lease_def)
  moreover have "\<forall>y \<in> set (claimable locked (w_now w) mp ks d).
      j_sort_key r < j_sort_key y \<or> j_sort_key r = j_sort_key y \<and> j_id r \<le> j_id y"
    using r(3) by (auto simp: claim_rank_def less_eq_prod_def le_less)
  ultimately show ?thesis using r(1) by blast
qed

theorem claim_takes_the_first_witness:
  "\<exists>job d'. claim (\<lambda>i. False) w0 ''w'' 30 3 None queue0 = (Some job, d') \<and> holds d' job"
proof -
  obtain job d' where e: "claim (\<lambda>i. False) w0 ''w'' 30 3 None queue0 = (Some job, d')"
    using queue0_claim by (auto split: option.splits prod.splits)
  have "jobs_ok queue0" by (simp add: jobs_ok_def queue0_def enqueue_def job_keys_def empty_db_def map_filter_simps Let_def)
  from claim_takes_the_first [OF e this] e show ?thesis by blast
qed

text \<open>
  (C37) Nothing starves: a job enqueued \<open>p\<close> aging steps or more before another one ranks before
  it, whatever the other's priority and whatever happens in between.
\<close>

theorem aging_beats_priority:
  assumes "enqueue w1 tn1 k1 pa m1 st inc1 pl1 key1 dl1 d0 = Inr (Some a, d1)" "jobs_ok d0"
    "qstep\<^sup>*\<^sup>* d1 d2" "enqueue w2 tn2 k2 pb m2 st inc2 pl2 key2 dl2 d2 = Inr (Some b, d3)"
    "w_now w1 + usecs (of_nat pa * st) \<le> w_now w2" "0 \<le> st" "qstep\<^sup>*\<^sup>* d3 d4"
  shows "\<exists>ra \<in> set (jobs d4). \<exists>rb \<in> set (jobs d4). j_id ra = a \<and> j_id rb = b \<and> claim_order ra rb"
  using earlier_by_aging_ranks_first [OF assms] claim_order_rank by blast

definition later0 :: world where
  "later0 = w0\<lparr>w_now := 180000000\<rparr>"

theorem aging_beats_priority_witness:
  "\<exists>b d'. enqueue later0 ''t'' ''triage'' 0 5 60 None [] (Some ''b'') 0 queue0 = Inr (Some b, d') \<and>
     (\<exists>ra \<in> set (jobs d'). \<exists>rb \<in> set (jobs d'). j_id ra = 1 \<and> j_id rb = b \<and> claim_order ra rb)"
proof -
  have a: "enqueue w0 ''t'' ''triage'' 3 5 60 None [] (Some ''a'') 0 empty_db = Inr (Some 1, queue0)"
    by (simp add: queue0_def enqueue_def job_keys_def empty_db_def map_filter_simps Let_def)
  have b: "enqueue later0 ''t'' ''triage'' 0 5 60 None [] (Some ''b'') 0 queue0 =
      Inr (Some 2, queue0\<lparr>jobs := jobs queue0 @ [queued_row later0 2 ''t'' ''triage'' 0 5 60 None [] (Some ''b'') 0]\<rparr>)"
    by (simp add: queue0_def enqueue_def job_keys_def empty_db_def map_filter_simps Let_def next_id_def queued_row_def)
  have t: "w_now w0 + usecs (of_nat 3 * 60) \<le> w_now later0" by (simp add: w0_def later0_def usecs_def)
  have ok: "jobs_ok empty_db" by (simp add: jobs_ok_def empty_db_def job_keys_def map_filter_simps)
  from aging_beats_priority [OF a ok _ b t, OF rtranclp.rtrancl_refl _ rtranclp.rtrancl_refl] b show ?thesis by auto
qed

text \<open>
  A job never runs more often than its attempts allow: in every state the queue reaches, a
  waiting job has an attempt left and a running one is within its limit.
\<close>

theorem attempts_within_limit:
  assumes "qstep\<^sup>*\<^sup>* empty_db d" "r \<in> set (jobs d)" "1 \<le> j_max_attempts r"
  shows "(j_status r = Queued \<longrightarrow> 0 \<le> j_attempts r \<and> j_attempts r < j_max_attempts r) \<and>
    (j_status r = Running \<longrightarrow> 1 \<le> j_attempts r \<and> j_attempts r \<le> j_max_attempts r)"
proof -
  have "jobs_ok d \<and> attempts_ok d" using assms(1)
  proof (induction rule: rtranclp_induct)
    case base
    show ?case by (simp add: jobs_ok_def attempts_ok_def empty_db_def job_keys_def map_filter_simps)
  next
    case (step s t)
    then show ?case using qstep_jobs_ok qstep_attempts_ok by blast
  qed
  with assms(2,3) show ?thesis by (simp add: attempts_ok_def)
qed

theorem attempts_within_limit_witness:
  "\<exists>r \<in> set (jobs queue0). j_status r = Queued \<and> j_attempts r < j_max_attempts r"
proof -
  have a: "enqueue w0 ''t'' ''triage'' 3 5 60 None [] (Some ''a'') 0 empty_db = Inr (Some 1, queue0)"
    by (simp add: queue0_def enqueue_def job_keys_def empty_db_def map_filter_simps Let_def)
  let ?r = "queued_row w0 1 ''t'' ''triage'' 3 5 60 None [] (Some ''a'') 0"
  have "?r \<in> set (jobs queue0)" by (simp add: queue0_def enqueue_def job_keys_def empty_db_def map_filter_simps Let_def)
  moreover from attempts_within_limit [OF r_into_rtranclp [of qstep, OF q_enqueue [OF a]] this]
  have "j_attempts ?r < j_max_attempts ?r" by simp
  ultimately show ?thesis by (intro bexI [of _ ?r]) auto
qed

text \<open>
  The delay before a retry is between half of the cap and the cap, and the cap, the base
  doubled per attempt, never exceeds the maximum.
\<close>

theorem backoff_bounds:
  assumes "0 \<le> rnd" "rnd \<le> 1" "0 \<le> base_s" "0 \<le> max_s"
  shows "min max_s (base_s * 2 ^ nat (max (n - 1) 0)) / 2 \<le> backoff_delay rnd n base_s max_s \<and>
    backoff_delay rnd n base_s max_s \<le> min max_s (base_s * 2 ^ nat (max (n - 1) 0)) \<and>
    backoff_delay rnd n base_s max_s \<le> max_s"
  using backoff_within [OF assms, of n] by (simp add: backoff_cap_def)

theorem backoff_bounds_witness: "backoff_delay (1 / 2) 3 2 300 \<le> 8"
  using backoff_bounds [of "1 / 2" 2 300 3] by simp

section \<open>The worker\<close>

text \<open>
  A worker that lost the fence changes nothing when its handler ends, however it ends.
\<close>

theorem lost_attempt_is_discarded:
  assumes "\<not> holds d job"
  shows "snd (execute_end rnd w st wid lost job r d) = d \<and>
    fst (execute_end rnd w st wid lost job r d) \<in> {OLeaseLost, OReleased}"
  by (rule execute_end_lost [OF assms])

theorem lost_attempt_is_discarded_witness:
  "snd (execute_end 0 w0 st0 ''w'' False stale0 Returned (db0 TRIAGED [] ''k'')) = db0 TRIAGED [] ''k''"
  using lost_attempt_is_discarded [of "db0 TRIAGED [] ''k''" stale0 0 w0 st0 "''w''" False Returned]
  by (simp add: holds_def owned_def stale0_def held0_def from_row_def db0_def job0_def)

text \<open>
  The table of running jobs keeps both limits through every claim and every task that ends:
  its size is at most the concurrency, and all but the reserved slots may hold jobs other than P0.
\<close>

theorem slots_respected:
  assumes "(slot_step st)\<^sup>*\<^sup>* \<lparr>s_running = [], s_tasks = []\<rparr> s" "0 \<le> worker_reserved_p0_slots st"
  shows "int (length (s_running s)) \<le> max 0 (worker_concurrency st) \<and>
    int (length (filter (\<lambda>(k, job). jb_priority job \<noteq> 0) (s_running s))) \<le>
      max 0 (worker_concurrency st - worker_reserved_p0_slots st)"
proof -
  have "slots_ok st s" using assms(1)
  proof (induction rule: rtranclp_induct)
    case base
    show ?case by (simp add: slots_ok_def)
  qed (use slot_step_ok assms(2) in blast)
  then show ?thesis by (simp add: slots_ok_def)
qed

theorem slots_respected_witness:
  "\<exists>job. int (length (s_running (task_started job \<lparr>s_running = [], s_tasks = []\<rparr>))) \<le> 4"
proof -
  let ?s = "\<lparr>s_running = [], s_tasks = []\<rparr> :: slots"
  obtain job d' where "claim (\<lambda>i. False) w0 ''w'' 30 3 None queue0 = (Some job, d')"
    using queue0_claim by (auto split: option.splits prod.splits)
  moreover have "claimable (\<lambda>i. False) (w_now w0) 3 (Some [''triage'']) queue0 = claimable (\<lambda>i. False) (w_now w0) 3 None queue0"
    by (simp add: claimable_def runnable_def queue0_def enqueue_def job_keys_def empty_db_def map_filter_simps Let_def)
  ultimately have "worker_claim (\<lambda>i. False) w0 st0 ''w'' [''triage''] ?s queue0 = (Some job, d')"
    by (simp add: worker_claim_def free_slots_def max_priority_for_def st0_def default_settings_def claim_def)
  from slots_respected [OF r_into_rtranclp [of "slot_step st0", OF ss_start [OF this]]] show ?thesis
    by (auto simp: st0_def default_settings_def)
qed



text \<open>The loop keeps the limits of its slots, and claims at most once more after the stop signal.\<close>

theorem loop_respects_slots:
  assumes "(loop_step st wid kinds)\<^sup>*\<^sup>* (loop_init d) s" "0 \<le> worker_reserved_p0_slots st"
  shows "int (length (s_running (wl_slots s))) \<le> max 0 (worker_concurrency st)"
  using slots_respected [OF loop_run_slots [OF assms(1), unfolded loop_init_def loop_state.simps] assms(2)] by simp

section \<open>Ingest\<close>

text \<open>
  (C20) No incident without its triage job: an ingest that commits leaves every incident with the
  job keyed \<open><id>:triage\<close>, whatever other transactions of that kind commit in between.
\<close>

theorem incident_has_triage_job:
  assumes "ingest others fresh w st tn actor as d = Inr (rs, d')" "has_triage d"
    and "\<And>i k d. has_triage d \<Longrightarrow> has_triage (others i k d)"
  shows "has_triage d'"
  using assms(1) ingest_loop_has_triage [OF _ assms(2,3)] by (auto simp: ingest_def bindS_Inr_iff)

theorem incident_has_triage_job_witness:
  "\<exists>rs d'. ingest_run empty_db = Inr (rs, d') \<and> has_triage d'"
proof (rule ends_inE [OF ingest_opens])
  fix a assume "ingest_run empty_db = Inr a"
  moreover obtain rs d' where "a = (rs, d')" by force
  ultimately have e: "ingest_run empty_db = Inr (rs, d')" by simp
  have "has_triage empty_db" by (simp add: has_triage_def empty_db_def)
  from incident_has_triage_job [OF e [unfolded ingest_run_def] this] e show ?thesis by (auto simp: quiet_def)
qed

text \<open>
  A retried webhook opens nothing: ingesting the same alerts again creates no incident, no
  job and no audit event, and leaves every incident in its state.
\<close>

theorem retried_webhook_opens_nothing:
  assumes "ingest (\<lambda>i. quiet) fresh w st tn actor as d = Inr (rs, d1)"
    "ingest (\<lambda>i. quiet) fresh' w' st tn actor as d1 = Inr (rs', d2)" "w_sha w' = w_sha w"
  shows "(\<forall>r \<in> set rs'. \<not> ing_created r) \<and> jobs d2 = jobs d1 \<and> audit_log d2 = audit_log d1 \<and>
    map i_id (incidents d2) = map i_id (incidents d1) \<and> map i_state (incidents d2) = map i_state (incidents d1)"
proof -
  from assms obtain ps where
    l1: "ingest_loop (\<lambda>i. quiet) fresh 0 w st tn actor (sort_key (\<lambda>p. ident_fingerprint (fst p)) ps) d = Inr (rs, d1)" and
    l2: "ingest_loop (\<lambda>i. quiet) fresh' 0 w' st tn actor (sort_key (\<lambda>p. ident_fingerprint (fst p)) ps) d1 = Inr (rs', d2)"
    by (auto simp: ingest_def bindS_Inr_iff)
  from ingest_loop_again [OF l2] ingest_loop_quiet [OF l1] show ?thesis by (auto simp: opens_nothing_def)
qed

theorem retried_webhook_opens_nothing_witness:
  "\<exists>rs d1 rs' d2. ingest_run empty_db = Inr (rs, d1) \<and> ingest_run d1 = Inr (rs', d2) \<and> jobs d2 = jobs d1"
proof (rule ends_inE [OF ingest_opens])
  fix a assume a: "ingest_run empty_db = Inr a"
    "case a of (rs, d) \<Rightarrow> map ing_created rs = [True, False] \<and> length (jobs d) = 1 \<and> ends_in (ingest_run d) (\<lambda>x. True)"
  obtain rs d1 where p: "a = (rs, d1)" by force
  with a(2) have "ends_in (ingest_run d1) (\<lambda>x. True)" by simp
  then obtain b where "ingest_run d1 = Inr b" by (rule ends_inE)
  moreover obtain rs' d2 where "b = (rs', d2)" by force
  ultimately have e: "ingest_run empty_db = Inr (rs, d1)" "ingest_run d1 = Inr (rs', d2)" using a(1) p by simp_all
  from retried_webhook_opens_nothing [OF e [unfolded ingest_run_def]] e show ?thesis by blast
qed

text \<open>
  (C19) Duplicates merge: whatever commits between the statements, \<open>open_or_merge\<close> keeps the
  constraints, one open incident per tenant and fingerprint among them, and returns an incident
  that is open for that tenant and fingerprint.
\<close>

theorem duplicates_merge:
  assumes "open_or_merge others w new_id tn fp title service env prio labels d = Inr ((iid, created), d')" "constraints d"
    and "\<And>k d. constraints d \<Longrightarrow> constraints (others k d)"
  shows "constraints d' \<and> (\<exists>!r. r \<in> set (incidents d') \<and> is_open r \<and> i_tenant r = tn \<and> i_fingerprint r = fp) \<and>
    (\<exists>r \<in> set (incidents d'). i_id r = iid \<and> is_open r \<and> i_tenant r = tn \<and> i_fingerprint r = fp)"
proof -
  let ?new = "new_incident w new_id tn fp title service env prio labels"
  have c: "constraints d' \<and> (\<exists>row \<in> set (incidents d'). i_id row = iid \<and> is_open row \<and> open_key row = open_key ?new)"
    using open_or_merge_loop_constraints [OF assms(1) [unfolded open_or_merge_def] assms(2,3)] by simp
  then obtain row where row: "row \<in> set (incidents d')" "i_id row = iid" "is_open row" "open_key row = (tn, fp)" by auto
  have "distinct (map open_key (filter is_open (incidents d')))" using c by (simp add: constraints_def)
  from distinct_key_inj [OF this, of _ row] row
  have uniq: "r = row" if "r \<in> set (incidents d')" "is_open r" "i_tenant r = tn" "i_fingerprint r = fp" for r
    using that by (auto simp: open_key_def)
  from row have row': "i_tenant row = tn" "i_fingerprint row = fp" by (simp_all add: open_key_def)
  have "\<exists>!r. r \<in> set (incidents d') \<and> is_open r \<and> i_tenant r = tn \<and> i_fingerprint r = fp"
    by (rule ex1I [of _ row]) (use row row' uniq in blast)+
  with c row row' show ?thesis by blast
qed

theorem duplicates_merge_witness:
  "\<exists>iid d'. open_or_merge quiet w0 ''n'' ''t'' ''f'' ''SLO'' ''web'' ''prod'' 1 [] (db0 TRIAGED [] ''k'') = Inr ((iid, False), d') \<and>
     (\<exists>!r. r \<in> set (incidents d') \<and> is_open r \<and> i_tenant r = ''t'' \<and> i_fingerprint r = ''f'')"
proof -
  obtain d' where e: "open_or_merge quiet w0 ''n'' ''t'' ''f'' ''SLO'' ''web'' ''prod'' 1 [] (db0 TRIAGED [] ''k'') = Inr ((''i'', False), d')"
    by (simp add: open_or_merge_quiet db0_def inc0_def open_for_def is_open_def)
  have "constraints (db0 TRIAGED [] ''k'')" by (rule db0_constraints) simp_all
  from duplicates_merge [OF e this] e show ?thesis by (auto simp: quiet_def)
qed

text \<open>
  Two alerts share a fingerprint only if they share alert name, service and environment, or
  their texts are a collision of the shortened hash.
\<close>

theorem fingerprint_identifies:
  assumes "identify sha ls = Inr a" "identify sha ls' = Inr b" "ident_fingerprint a = ident_fingerprint b"
  shows "a = b \<or> collision (\<lambda>t. take 32 (sha t)) (ident_text a) (ident_text b)"
  by (rule identify_same_fingerprint [OF assms])

theorem fingerprint_identifies_witness:
  "\<exists>a b. identify (\<lambda>t. ''same'') [(''alertname'', ''A'')] = Inr a \<and> identify (\<lambda>t. ''same'') [(''alertname'', ''B'')] = Inr b \<and>
     collision (\<lambda>t. take 32 ''same'') (ident_text a) (ident_text b)"
proof -
  obtain a b where e: "identify (\<lambda>t. ''same'') [(''alertname'', ''A'')] = Inr a"
      "identify (\<lambda>t. ''same'') [(''alertname'', ''B'')] = Inr b"
    and t: "ident_fingerprint a = ident_fingerprint b" "ident_title a \<noteq> ident_title b"
    by (simp add: identify_def Let_def)
  from fingerprint_identifies [OF e t(1)] t(2) e show ?thesis by blast
qed

text \<open>
  P0 is never inferred: an alert gets it only from its \<open>priority\<close> label, and no priority
  is outside P0 to P3.
\<close>

theorem p0_only_by_label:
  "priority_of labels \<le> 3 \<and> (priority_of labels = 0 \<longrightarrow> map upper_char (label_or labels ''priority'' '''') = ''P0'')"
  using priority_of_le p0_is_labelled by blast

theorem p0_only_by_label_witness: "map upper_char (label_or [(''priority'', ''p0'')] ''priority'' '''') = ''P0''"
proof -
  have "priority_of [(''priority'', ''p0'')] = 0" by code_simp
  with p0_only_by_label [of "[(''priority'', ''p0'')]"] show ?thesis by blast
qed

section \<open>Incidents\<close>

text \<open>
  A transition that succeeds is an arrow of the table, moves exactly the incident that was in
  that state at that version, leaves every other one as it was and one audit event behind; and the
  same state and version cannot be spent again, by anybody.
\<close>

theorem transition_is_guarded:
  assumes "transition w iid s t v actor rs d = Inr (v', d')" "distinct (map i_id (incidents d))"
  shows "imove s t \<and> v' = v + 1 \<and>
    (\<exists>r. incidents_get d iid None = Some r \<and> i_state r = s \<and> i_version r = v \<and>
       incidents_get d' iid None = Some (moved w t r)) \<and>
    (\<forall>other. other \<noteq> iid \<longrightarrow> incidents_get d' other None = incidents_get d other None) \<and>
    length (audit_log d') = length (audit_log d) + 1 \<and>
    (\<forall>t' w' actor' rs'. imove s t' \<longrightarrow> transition w' iid s t' v actor' rs' d' = Inl StaleVersion)"
proof -
  from assms(1) obtain row arow where "imove s t" "v' = v + 1" "audit_log d' = audit_log d @ [arow]" by (rule transition_InrE)
  with transition_get [OF assms] transition_other [OF assms(1)] transition_once [OF assms] show ?thesis by auto
qed

theorem transition_is_guarded_witness:
  "\<exists>v' d'. transition w0 ''i'' TRIAGED INVESTIGATING 4 ''w'' ''r'' (db0 TRIAGED [] ''k'') = Inr (v', d') \<and> v' = 5 \<and>
     transition w0 ''i'' TRIAGED INVESTIGATING 4 ''x'' ''r'' d' = Inl StaleVersion"
proof (rule ends_inE [OF transition_moves])
  fix a assume "transition w0 ''i'' TRIAGED INVESTIGATING 4 ''w'' ''r'' (db0 TRIAGED [] ''k'') = Inr a"
  moreover obtain v' d' where "a = (v', d')" by force
  ultimately have e: "transition w0 ''i'' TRIAGED INVESTIGATING 4 ''w'' ''r'' (db0 TRIAGED [] ''k'') = Inr (v', d')" by simp
  from transition_is_guarded [OF e db0_ids] have "v' = 5" "imove TRIAGED INVESTIGATING \<longrightarrow>
      transition w0 ''i'' TRIAGED INVESTIGATING 4 ''x'' ''r'' d' = Inl StaleVersion" by auto
  with e imove.investigate show ?thesis by blast
qed

text \<open>
  No incident is resolved without having been diagnosed, reviewed, executed and verified: the
  states are in every history that ends in RESOLVED.
\<close>

theorem resolved_only_after_review:
  assumes "imoves (RESOLVED # h)"
  shows "{DIAGNOSED, SAFETY_REVIEWED, EXECUTING, VERIFYING} \<subseteq> set h"
  using resolved_was_reviewed [OF assms] by auto

theorem resolved_only_after_review_witness:
  "EXECUTING \<in> set [VERIFYING, EXECUTING, SAFETY_REVIEWED, PLANNED, DIAGNOSED, INVESTIGATING, TRIAGED, RECEIVED]"
  using resolved_only_after_review [of "[VERIFYING, EXECUTING, SAFETY_REVIEWED, PLANNED, DIAGNOSED, INVESTIGATING, TRIAGED, RECEIVED]"]
  by (simp add: imove.simps)

section \<open>The audit log\<close>



text \<open>
  (C17) Tampering with any row but the newest ones shows: an edited row is named as not matching
  its hash, unless SHA-256 collides.
\<close>

theorem edited_row_is_named:
  assumes "audit_ok w d" "audit_log d = xs @ r # ys" "a_hash r' = a_hash r" "a_prev_hash r' = a_prev_hash r" "a_seq r' = a_seq r"
    and "wf_json (a_payload r)" "wf_json (a_payload r')" "\<not> same_content w r r'"
  shows "audit_verify w (d\<lparr>audit_log := xs @ r' # ys\<rparr>) =
       \<lparr>v_ok = False, v_checked = length xs, v_first_bad_seq = Some (a_seq r),
        v_reason = ''row content does not match its hash''\<rparr>
     \<or> collision (w_sha w) (row_text w (end_hash GENESIS xs) r) (row_text w (end_hash GENESIS xs) r')"
proof -
  have s: "sort_key a_seq (xs @ r' # ys) = xs @ r' # ys"
    using audit_ok_sorted [OF assms(1)] assms(2,5) by (intro sort_key_id_if_sorted) (metis list.simps(9) map_append sorted_sort_key)
  have "chained w GENESIS (xs @ r # ys)" using assms(1,2) by (simp add: audit_ok_def)
  from edited_row_found [OF this assms(3-8), of 0] s show ?thesis by (simp add: audit_verify_def)
qed

definition arow0 :: "string \<Rightarrow> audit_row" where
  "arow0 s = \<lparr>a_seq = 1, a_ts = 0, a_tenant = None, a_actor = ''a'', a_event = ''e'', a_subject = s, a_payload = JNull,
     a_prev_hash = GENESIS, a_hash = audit_digest w0 GENESIS 0 None ''a'' ''e'' ''s'' JNull\<rparr>"

theorem edited_row_is_named_witness:
  "audit_verify w0 (empty_db\<lparr>audit_log := [arow0 ''long'']\<rparr>) =
     \<lparr>v_ok = False, v_checked = 0, v_first_bad_seq = Some 1, v_reason = ''row content does not match its hash''\<rparr>"
proof -
  have "audit_ok w0 (empty_db\<lparr>audit_log := [arow0 ''s'']\<rparr>)"
    by (simp add: audit_ok_def arow0_def row_digest_def audit_digest_def w0_def sha0_def)
  moreover have "\<not> collision (w_sha w0) (row_text w0 GENESIS (arow0 ''s'')) (row_text w0 GENESIS (arow0 ''long''))"
    by code_simp
  ultimately show ?thesis using edited_row_is_named [of w0 "empty_db\<lparr>audit_log := [arow0 ''s'']\<rparr>" "[]" "arow0 ''s''" "[]" "arow0 ''long''"]
    by (simp add: arow0_def same_content_def end_hash_def)
qed

text \<open>
  The loss of the newest rows does not show: the log cut after any number of rows verifies.
  (The text of \<open>GET /audit/verify\<close> says that any deleted row shows up.)
\<close>

theorem lost_tail_verifies:
  assumes "audit_ok w d"
  shows "v_ok (audit_verify w (d\<lparr>audit_log := take n (audit_log d)\<rparr>))"
proof -
  have "audit_ok w (d\<lparr>audit_log := take n (audit_log d)\<rparr>)"
    using assms truncated_verifies [of w GENESIS "audit_log d" n]
    by (auto simp: audit_ok_def sorted_wrt_take list_all_iff dest: in_set_takeD)
  from verify_ok_when_audit_ok [OF this] show ?thesis by simp
qed

theorem lost_tail_verifies_witness:
  "v_ok (audit_verify w0 (empty_db\<lparr>audit_log := []\<rparr>))"
proof -
  have "audit_ok w0 (empty_db\<lparr>audit_log := [arow0 ''s'']\<rparr>)"
    by (simp add: audit_ok_def arow0_def row_digest_def audit_digest_def w0_def sha0_def)
  from lost_tail_verifies [OF this, of 0] show ?thesis by simp
qed

section \<open>Verification of a repair\<close>

text \<open>
  The verification loop ends: with a clock that advances by the interval in every turn it
  comes to a result before its deadline's worth of turns is spent.
\<close>

theorem verification_ends:
  assumes "0 < usecs (verify_interval_s st)" "\<And>k. clock k + usecs (verify_interval_s st) \<le> clock (Suc k)"
  shows "verify_loop chk n dl reads clock (verify_fuel st dl (clock 0)) 0 0 [] \<noteq> OutOfFuel"
  by (rule verify_loop_ends [where clock = clock]) fact+

theorem verification_ends_witness:
  "verify_loop (snd (hd CHECKS)) 3 0 (\<lambda>k. Inr None) (\<lambda>k. int k * 30000000) (verify_fuel st0 0 0) 0 0 [] \<noteq> OutOfFuel"
  using verification_ends [of st0 "\<lambda>k. int k * 30000000" "snd (hd CHECKS)" 3 0 "\<lambda>k. Inr None"]
  by (simp add: st0_def default_settings_def usecs_def)

text \<open>
  (C38) A repair passes only on the wanted number of healthy readings in a row, the last ones.
\<close>

theorem passed_means_healthy_in_a_row:
  assumes "verify_loop chk n dl reads clock fuel 0 0 [] = Passed samples streak"
  shows "n \<le> streak \<and> streak \<le> length samples \<and>
    list_all (\<lambda>s. healthy chk (sm_value s)) (drop (length samples - streak) samples)"
  using verify_loop_passed [OF assms] by (simp add: sound_samples_def)

theorem passed_means_healthy_in_a_row_witness:
  "\<exists>samples streak. verify_loop (snd (hd CHECKS)) 2 10 (\<lambda>k. Inr (Some (Fin 0))) int 5 0 0 [] = Passed samples streak \<and> 2 \<le> streak"
proof -
  obtain samples streak where e: "verify_loop (snd (hd CHECKS)) 2 10 (\<lambda>k. Inr (Some (Fin 0))) int 5 0 0 [] = Passed samples streak"
    by (simp add: eval_nat_numeral Let_def healthy_def CHECKS_def)
  from passed_means_healthy_in_a_row [OF e] e show ?thesis by blast
qed

text \<open>
  The approval timeout only ever ends the plan it was queued for, while that plan is the
  newest, waits, and is undecided; otherwise it changes nothing.
\<close>

theorem timeout_ends_only_its_plan:
  assumes "RemediateJobs.approval_timeout w st job d = Inr (u, d')"
  shows "d' = d \<or>
    (\<exists>iid inc plan rs v. incidents_get d iid None = Some inc \<and> i_state inc = AWAITING_APPROVAL \<and>
       current_plan d iid = Some plan \<and> jget (jb_payload job) ''plan_id'' = Some (JInt (int (p_id plan))) \<and>
       approval d (p_id plan) = None \<and>
       transition w iid AWAITING_APPROVAL ESCALATED (i_version inc) ''policy'' rs d = Inr (v, d'))"
  using approval_timeout_Inr [OF assms] by blast

theorem timeout_ends_only_its_plan_witness:
  "\<exists>u d'. RemediateJobs.approval_timeout w0 st0 (held0 ''approval_timeout'') (db0 TRIAGED [] ''approval_timeout'') = Inr (u, d') \<and>
     d' = db0 TRIAGED [] ''approval_timeout''"
proof -
  have e: "RemediateJobs.approval_timeout w0 st0 (held0 ''approval_timeout'') (db0 TRIAGED [] ''approval_timeout'') =
      Inr ((), db0 TRIAGED [] ''approval_timeout'')"
    by (simp add: approval_timeout_def job_incident_def held0_def from_row_def job0_def job_transaction_def assert_fence_def
        holds_def owned_def db0_def incidents_get_def inc0_def)
  from timeout_ends_only_its_plan [OF e] e show ?thesis by blast
qed

section \<open>The agents\<close>

text \<open>
  (C5) Every diagnosis rests on data. Whatever an investigation does, and however it ends, the
  evidence that was known stays known and the board stays grounded: the diagnosis that the planner
  and the policy read cites, for each root cause, only evidence of this incident, and at least one
  result of a live tool, a runbook alone not being enough. The others may do whatever keeps that
  too, which is what an investigation itself does.
\<close>

theorem diagnosis_rests_on_evidence:
  assumes "\<And>k d. keeps_board d (sv_others sv k d)" "parses_valid (sv_models sv)" "board_grounded d"
    and "investigate_job w st wid sv job s d = (r, s', d')"
  shows "keeps_board d d' \<and> board_grounded d' \<and>
    (\<forall>dx. flow_diagnosis d' inc = Some dx \<longrightarrow> list_all (\<lambda>rc. live_ids (knows d' inc) (rc_evidence_ids rc)) (dx_root_causes dx))"
proof -
  have k: "keeps_board d d'" by (rule investigate_job_keeps [OF assms(1,2,4)])
  with assms(3) have g: "board_grounded d'" by (simp add: keeps_board_def)
  from k g flow_diagnosis_grounded [OF g] show ?thesis by (auto simp: dx_grounded_def)
qed

theorem diagnosis_rests_on_evidence_witness:
  "\<exists>s' d'. investigate_job w0 st0 ''w'' services0 (held0 ''investigate'') 0 interrupted0 = (Some Returned, s', d') \<and>
     flow_diagnosis d' ''i'' = Some dx0 \<and> live_ids (knows d' ''i'') [''ev'']"
proof -
  obtain s' d' where e: "investigate_job w0 st0 ''w'' services0 (held0 ''investigate'') 0 interrupted0 = (Some Returned, s', d')"
    and dx: "flow_diagnosis d' ''i'' = Some dx0"
    using rerun_diagnoses by (auto split: prod.splits)
  have "\<And>k d. keeps_board d (sv_others services0 k d)" "parses_valid (sv_models services0)"
    using models0_valid by (simp_all add: services0_def)
  from diagnosis_rests_on_evidence [OF this interrupted0_grounded e, of "''i''"] dx
  have "live_ids (knows d' ''i'') [''ev'']" by (simp add: dx0_def)
  with e dx show ?thesis by blast
qed

text \<open>
  (C9) A finished agent is not asked again: once its checkpoint says it is done, no rerun of the
  investigation asks the model on its behalf or touches its entries on the board, and it stays
  done, whatever the other agents do and whichever way the rerun ends.
\<close>

theorem finished_agent_is_not_asked:
  assumes "is_done (pg_runs (aw_db aw) inc agent)" "dp_incident (ie_deps env) = inc"
    and "\<And>k d. same_work inc agent (aw_db aw) d \<Longrightarrow> same_work inc agent (aw_db aw) (dp_others (ie_deps env) k d)"
    and "investigate env v \<lparr>is_world = aw, is_agents = []\<rparr> = (res, st')"
  shows "is_done (pg_runs (db_of st') inc agent) \<and> calls_of inc agent (db_of st') = calls_of inc agent (aw_db aw) \<and>
    entries_of inc agent (db_of st') = entries_of inc agent (aw_db aw)"
  using finished_agent_stays [OF assms(1,2) refl assms(3), of v "[]"] assms(4) by (simp add: same_work_def)

theorem finished_agent_is_not_asked_witness:
  "let env = services_env w0 st0 services0 (held0 ''investigate'') (incident_view interrupted0 (inc0 INVESTIGATING 4)) DEFAULT_VARIANT
   in calls_of ''i'' ''coordinator'' (db_of (snd (investigate env (incident_view interrupted0 (inc0 INVESTIGATING 4))
        \<lparr>is_world = \<lparr>aw_ext = 0, aw_tick = 0, aw_db = interrupted0\<rparr>, is_agents = []\<rparr>))) = []"
proof -
  let ?v = "incident_view interrupted0 (inc0 INVESTIGATING 4)"
  let ?env = "services_env w0 st0 services0 (held0 ''investigate'') ?v DEFAULT_VARIANT"
  let ?aw = "\<lparr>aw_ext = 0, aw_tick = 0, aw_db = interrupted0\<rparr>"
  obtain res st' where e: "investigate ?env ?v \<lparr>is_world = ?aw, is_agents = []\<rparr> = (res, st')" by force
  have d: "is_done (pg_runs (aw_db ?aw) ''i'' ''coordinator'')"
    by (simp add: interrupted0_def pg_runs_def run_at_def run_row0_def is_done_def run_of_row_def)
  have i: "dp_incident (ie_deps ?env) = ''i''" by (simp add: services_env_def services_deps_def incident_view_def inc0_def)
  have "dp_others (ie_deps ?env) k d = d" for k d by (simp add: services_env_def services_deps_def services0_def)
  from finished_agent_is_not_asked [OF d i _ e] this have "calls_of ''i'' ''coordinator'' (db_of st') = []"
    by (simp add: calls_of_def interrupted0_def empty_db_def)
  with e show ?thesis by (simp add: Let_def)
qed

text \<open>
  (C33) An investigation ends: with fuel for three times the steps of an agent and two more, no
  agent runs out of it, provided the model answers an agent that has no tools with its final answer.
\<close>

theorem investigation_ends:
  assumes "final_only (dp_backend (ie_deps env))" "3 * cf_max_steps (ie_config env) + 2 \<le> ie_fuel env"
  shows "fst (investigate env v st) \<noteq> Inl IOutOfFuel"
  using investigate_ends [OF assms, of v] by (auto simp: spec_of_def case_prod_beta dest!: spec [where x = st] split: sum.splits)

theorem investigation_ends_witness:
  "let v = incident_view interrupted0 (inc0 INVESTIGATING 4)
   in fst (investigate (services_env w0 st0 services0 (held0 ''investigate'') v DEFAULT_VARIANT) v
        \<lparr>is_world = \<lparr>aw_ext = 0, aw_tick = 0, aw_db = interrupted0\<rparr>, is_agents = []\<rparr>) \<noteq> Inl IOutOfFuel"
proof -
  let ?v = "incident_view interrupted0 (inc0 INVESTIGATING 4)"
  let ?env = "services_env w0 st0 services0 (held0 ''investigate'') ?v DEFAULT_VARIANT"
  have "final_only (dp_backend (ie_deps ?env))" "3 * cf_max_steps (ie_config ?env) + 2 \<le> ie_fuel ?env"
    using final_backend_ok(1) by (simp_all add: services_env_def services_deps_def services0_def st0_def default_settings_def)
  from investigation_ends [OF this] show ?thesis by (simp add: Let_def)
qed

text \<open>
  (C15) The end of the investigate job: at the version of its first transaction the incident moves
  from INVESTIGATING to DIAGNOSED or to ESCALATED; to DIAGNOSED exactly if there is a diagnosis with
  a root cause and no reason to escalate, and then the plan job of the incident is in the queue.
\<close>

theorem investigation_concludes:
  assumes "investigate_commit w st actor job v version oc d = Inr (u, d')" "constraints d"
  shows "\<exists>r r'. incidents_get d (iv_id v) None = Some r \<and> i_state r = INVESTIGATING \<and> i_version r = version \<and>
      incidents_get d' (iv_id v) None = Some r' \<and>
      (i_state r' = DIAGNOSED \<longleftrightarrow> oc_escalate oc = None \<and> (\<exists>dx. oc_diagnosis oc = Some dx \<and> dx_root_causes dx \<noteq> [])) \<and>
      (i_state r' \<noteq> DIAGNOSED \<longrightarrow> i_state r' = ESCALATED \<and> jobs d' = jobs d) \<and>
      (i_state r' = DIAGNOSED \<longrightarrow> auto_remediate st \<longrightarrow> iv_id v @ '':plan'' \<in> set (job_keys d'))"
  using investigate_commit_moves [OF assms(1)] assms(2) by (auto simp: constraints_def)

theorem investigation_concludes_witness:
  "\<exists>u d'. investigate_commit w0 st0 ''w'' (held0 ''investigate'') (incident_view interrupted0 (inc0 INVESTIGATING 4)) 4
       \<lparr>oc_diagnosis = Some dx0, oc_escalate = None\<rparr> interrupted0 = Inr (u, d') \<and> ''i:plan'' \<in> set (job_keys d')"
proof (rule ends_inE [OF commit_diagnosed])
  fix a assume a: "investigate_commit w0 st0 ''w'' (held0 ''investigate'') (incident_view interrupted0 (inc0 INVESTIGATING 4)) 4
       \<lparr>oc_diagnosis = Some dx0, oc_escalate = None\<rparr> interrupted0 = Inr a"
  obtain u d' where x: "a = (u, d')" by (cases a)
  have st: "auto_remediate st0" by (simp add: st0_def default_settings_def)
  from investigation_concludes [OF a [unfolded x] interrupted0_constraints] st have "''i:plan'' \<in> set (job_keys d')"
    by (auto simp: dx0_def incident_view_def inc0_def)
  with a x show ?thesis by blast
qed

text \<open>
  (C14) A repair plan cites evidence: every action of a plan the planner hands in, made just now or
  read back from its checkpoint, cites only evidence of the incident.
\<close>

theorem proposed_plan_cites_evidence:
  assumes "\<And>k d. keeps_board d (sv_others sv k d)" "board_grounded d"
    and "plan_proposer w st sv job s incident dx d = (Proposed p, d')" "pp_plan p = Some plan"
  shows "list_all (\<lambda>a. list_all (\<lambda>ev. knows d' (i_id incident) ev \<noteq> None) (a_evidence_ids a)) (rp_actions plan)"
  using proposal_cites_evidence [OF assms] by (simp add: plan_known_def)

theorem proposed_plan_cites_evidence_witness:
  "\<exists>p d'. plan_proposer w0 st0 services0 (held0 ''plan'') 0 (inc0 DIAGNOSED 4) dx0 (db0 DIAGNOSED [] ''plan'') = (Proposed p, d') \<and>
     knows d' ''i'' ''ev'' \<noteq> None"
proof -
  obtain p d' where e: "plan_proposer w0 st0 services0 (held0 ''plan'') 0 (inc0 DIAGNOSED 4) dx0 (db0 DIAGNOSED [] ''plan'') = (Proposed p, d')"
    and p: "pp_plan p = Some plan0" using planner_proposes by (auto split: prod.splits planner_end.splits)
  have o: "\<And>k d. keeps_board d (sv_others services0 k d)" by (simp add: services0_def)
  from proposed_plan_cites_evidence [OF o db0_grounded e p] have "knows d' ''i'' ''ev'' \<noteq> None"
    by (simp add: plan0_def inc0_def)
  with e show ?thesis by blast
qed



text \<open>
  (C32) Every request of an agent's run renders as a conversation the model's API accepts: it starts
  and ends with the user, the roles alternate, and every tool the assistant asked for is answered
  first thing in the next message, in order.
\<close>

theorem requests_are_conversations:
  assumes "wf_backend (dp_backend dp)"
  shows "list_all (\<lambda>rq. conversation (render_messages (rq_turns rq))) (requests_of n dp sp model chk (new_run task) aw)"
  by (rule requests_conversation [OF assms]) (simp add: new_run_def wf_transcript_def)

theorem requests_are_conversations_witness:
  "list_all (\<lambda>rq. conversation (render_messages (rq_turns rq)))
     (requests_of 2 deps0 (coordinator_spec env0 prompt0) ''m'' accept_plan (new_run ''task'') \<lparr>aw_ext = 0, aw_tick = 0, aw_db = interrupted0\<rparr>)"
  by (rule requests_are_conversations) (simp add: deps0_def services_deps_def services0_def final_backend_ok(2))

text \<open>
  (C24) The store in memory is a refinement of the one in Postgres: whatever agents start, finish
  and fail, guarded as the code guards it, both show the same runs (only the text of a failed run's
  error is kept elsewhere) and the same entries of the board.
\<close>

theorem memory_store_refines:
  assumes "guarded_ops ops empty_db"
  shows "\<exists>s. mem_ops ops empty_mem = Inr s \<and> pg_entries (fold pg_op ops empty_db) = mem_entries s \<and>
    (\<forall>i a. same_run (pg_runs (fold pg_op ops empty_db) i a) (mem_runs s i a))"
  using stores_agree [OF same_view_empty assms] by (auto simp: same_view_def)

theorem memory_store_refines_witness:
  "\<exists>s. mem_ops ops0 empty_mem = Inr s \<and> map be_author (mem_entries s ''i'') = [''solo'']"
proof -
  have g: "guarded_ops ops0 empty_db" by code_simp
  have p: "map be_author (pg_entries (fold pg_op ops0 empty_db) ''i'') = [''solo'']" by code_simp
  from memory_store_refines [OF g] p show ?thesis by auto
qed

text \<open>
  (C30) A replay gives back what was recorded: each agent's questions get the answers of the
  recording, per question in the order they were recorded, however the calls of different agents
  and questions are interleaved this time.
\<close>

theorem replay_gives_back:
  assumes "run_calls (recording_fetch now live) cs (s, []) = (rs, (s', es))"
    and "\<And>k. length (filter (\<lambda>c. call_key c = k) cs') \<le> length (filter (\<lambda>c. call_key c = k) cs)"
  shows "answers_to k cs' (fst (run_calls replay_fetch cs' (replay_init es))) =
    take (length (filter (\<lambda>c. call_key c = k) cs')) (map replayed (answers_to k cs rs))"
  by (rule replay_of_recording [OF assms])

theorem replay_gives_back_witness:
  "\<exists>rs s' es. run_calls (recording_fetch 0 live_source0) [call0 ''x'', call0 ''y'', call0 ''x''] (0, []) = (rs, (s', es)) \<and>
     answers_to (call_key (call0 ''y'')) [call0 ''y''] (fst (run_calls replay_fetch [call0 ''y''] (replay_init es))) =
       take 1 (map replayed (answers_to (call_key (call0 ''y'')) [call0 ''x'', call0 ''y'', call0 ''x''] rs))"
proof -
  obtain rs s' es where e: "run_calls (recording_fetch 0 live_source0) [call0 ''x'', call0 ''y'', call0 ''x''] (0, []) = (rs, (s', es))"
    by (metis prod_cases3)
  have "length (filter (\<lambda>c. call_key c = k) [call0 ''y'']) \<le> length (filter (\<lambda>c. call_key c = k) [call0 ''x'', call0 ''y'', call0 ''x''])" for k
    by simp
  from replay_gives_back [OF e this, of "call_key (call0 ''y'')"] e show ?thesis by auto
qed



text \<open>
  (C39) The type of a model's step: whatever the model answers, it is either refused as invalid
  output, which may be asked for again, or a step with exactly one of actions and a final answer,
  which is stored as JSON and read back as itself.
\<close>

theorem step_is_well_formed:
  "case normalize_step raw of
     Inl e \<Rightarrow> le_code e = ''invalid_output'' \<and> le_retryable e
   | Inr step \<Rightarrow> (st_final step = None \<longleftrightarrow> st_actions step \<noteq> []) \<and> normalize_step (step_json step) = Inr step"
  using normalize_step_wf [of raw] normalize_step_json normalize_step_Inl [of raw]
  by (auto simp: wf_step_def split: sum.splits)

section \<open>The whole system\<close>

text \<open>
  (C3) Whatever transactions of the API, the workers, the agents and the executors run, in any
  order and interleaved with ingest, an incident that is executed, verified or resolved has as its
  current plan one that the policy allowed without an approval, or one that was approved by its
  hash by someone other than its proposer; and that plan's execute job is in the queue. It starts
  from any database where this holds (\<open>system_ok\<close>), the empty one among them
  (\<open>System.empty_ok\<close>).
\<close>

theorem executed_plan_was_cleared:
  assumes "system_ok d" "sys_step\<^sup>*\<^sup>* d d'" "r \<in> set (incidents d')" "i_state r \<in> {EXECUTING, VERIFYING, RESOLVED}"
  shows "\<exists>p. current_plan d' (i_id r) = Some p \<and> plan_job_key (p_id p) ''execute'' \<in> set (job_keys d') \<and>
    (p_verdict p = Allow \<or>
     p_verdict p = RequireApproval \<and>
       (\<exists>a \<in> set (approvals d'). ap_plan a = p_id p \<and> ap_decision a = Approve \<and> ap_plan_hash a = p_hash p \<and>
          ap_approver a \<noteq> p_proposed_by p))"
proof -
  from sys_run_sound [OF assms(2)] assms(1,3) have "incident_ok d' (i_id r) (i_state r)" by (simp add: sound_def system_ok_def)
  with assms(4) show ?thesis by (auto simp: incident_ok_def running_states_def cleared_def has_job_def)
qed

theorem executed_plan_was_cleared_witness:
  "\<exists>d' p. sys_step\<^sup>*\<^sup>* (db0 DIAGNOSED [] ''plan'') d' \<and> current_plan d' ''i'' = Some p \<and>
     plan_job_key (p_id p) ''execute'' \<in> set (job_keys d')"
proof -
  obtain d' r where r: "sys_step\<^sup>*\<^sup>* (db0 DIAGNOSED [] ''plan'') d'" "r \<in> set (incidents d')" "i_id r = ''i''" "i_state r = EXECUTING"
    by (rule plan_commit_run)
  from executed_plan_was_cleared [OF db0_system_ok r(1,2)] r show ?thesis by auto
qed

text \<open>
  (C11) What other processes see of an incident's life: from one database to any later one it moves
  along the committed moves (\<open>cmove\<close>), in which the two states inside of a submission do not
  occur; so it never goes back to an earlier stage, and a waiting incident has the job that ends
  the waiting.
\<close>

theorem incidents_move_forward:
  assumes "system_ok d" "sys_step\<^sup>*\<^sup>* d d'" "r \<in> set (incidents d)"
  shows "\<exists>r' \<in> set (incidents d'). i_id r' = i_id r \<and> cmove\<^sup>*\<^sup>* (i_state r) (i_state r') \<and>
    stage (i_state r) \<le> stage (i_state r') \<and> i_state r' \<notin> {PLANNED, SAFETY_REVIEWED} \<and>
    (i_state r' = AWAITING_APPROVAL \<longrightarrow> (\<exists>p. current_plan d' (i_id r) = Some p \<and> p_verdict p = RequireApproval \<and>
       plan_job_key (p_id p) ''approval_timeout'' \<in> set (job_keys d')))"
proof -
  from sys_run_sound [OF assms(2)] assms(1) have s: "system_ok d'" "moves_ok d d'" by (simp_all add: sound_def)
  from s(2) assms(3) obtain r' where r': "r' \<in> set (incidents d')" "i_id r' = i_id r" "cmove\<^sup>*\<^sup>* (i_state r) (i_state r')"
    unfolding moves_ok_def by blast
  from s(1) r'(1) have "incident_ok d' (i_id r') (i_state r')" by (simp add: system_ok_def)
  with r' cmoves_stage [OF r'(3)] show ?thesis by (intro bexI [of _ r']) (auto simp: incident_ok_def has_job_def)
qed

theorem incidents_move_forward_witness:
  "\<exists>d'. sys_step\<^sup>*\<^sup>* (db0 DIAGNOSED [] ''plan'') d' \<and>
     (\<exists>r' \<in> set (incidents d'). i_id r' = ''i'' \<and> stage DIAGNOSED \<le> stage (i_state r'))"
proof -
  obtain d' r where r: "sys_step\<^sup>*\<^sup>* (db0 DIAGNOSED [] ''plan'') d'" by (rule plan_commit_run)
  from incidents_move_forward [OF db0_system_ok r, of "inc0 DIAGNOSED 4"] r show ?thesis
    by (auto simp: db0_def inc0_def)
qed

text \<open>
  (C21) The investigate job is a refinement of the transactions: whatever the model, the tools and
  pydantic answer and however it ends, the database it leaves is reached from the one it found by
  single transactions of the system, if what the others commit in between is.
\<close>

theorem investigate_job_refines:
  assumes "\<forall>k x. sys_step\<^sup>*\<^sup>* x (sv_others sv k x)" "investigate_job w st wid sv job s d = (r, s', d')"
  shows "sys_step\<^sup>*\<^sup>* d d'"
  using investigate_job_run [OF _ assms(2)] assms(1) by blast

theorem investigate_job_refines_witness:
  "\<exists>s' d'. investigate_job w0 st0 ''w'' services0 (held0 ''investigate'') 0 interrupted0 = (Some Returned, s', d') \<and>
     flow_diagnosis d' ''i'' = Some dx0 \<and> sys_step\<^sup>*\<^sup>* interrupted0 d'"
proof -
  obtain s' d' where e: "investigate_job w0 st0 ''w'' services0 (held0 ''investigate'') 0 interrupted0 = (Some Returned, s', d')"
    and dx: "flow_diagnosis d' ''i'' = Some dx0"
    using rerun_diagnoses by (auto split: prod.splits)
  have "\<forall>k x. sys_step\<^sup>*\<^sup>* x (sv_others services0 k x)" by (simp add: services0_def)
  from investigate_job_refines [OF this e] e dx show ?thesis by blast
qed

section \<open>Access\<close>

text \<open>
  (C4) A decision on a plan that was taken through the API: the caller showed a token that decodes
  to a principal with the role approver or admin, of the tenant that owns the incident; the hash
  in the request is the hash of the plan that waits; and nobody approved a plan of their own.
\<close>

theorem decision_needs_approver:
  assumes "decide_request lib ts now credentials w st iid choice h comment d = Inr (s', d')"
  shows "\<exists>tok p inc plan. credentials = Some tok \<and> decode_token lib ts now tok = Inr p \<and>
    (''approver'' \<in> pr_roles p \<or> ''admin'' \<in> pr_roles p) \<and>
    inc \<in> set (incidents d) \<and> i_id inc = iid \<and> i_tenant inc = pr_tenant p \<and> i_state inc = AWAITING_APPROVAL \<and>
    current_plan d iid = Some plan \<and> p_hash plan = h \<and>
    (choice = Approve \<longrightarrow> user_actor (pr_subject p) \<noteq> p_proposed_by plan)"
proof -
  from assms obtain tok p inc where a: "credentials = Some tok" "decode_token lib ts now tok = Inr p" "has_role p ''approver'' = Inr True"
    "incidents_get d iid (Some (pr_tenant p)) = Some inc"
    and e: "decide w st inc (user_actor (pr_subject p)) choice h comment d = Inr (s', d')"
    by (rule decide_request_Inr)
  have "inc \<in> set (incidents d)" "i_id inc = iid" "i_tenant inc = pr_tenant p"
    using a(4) find_in_set unfolding incidents_get_def by fastforce+
  with e a show ?thesis by (elim decide_Inr) (auto simp: approver_roles)
qed

theorem decision_needs_approver_witness:
  "''approver'' \<in> pr_roles \<lparr>pr_subject = ''ann'', pr_tenant = ''t'', pr_roles = {''approver''}\<rparr> \<and>
   (\<exists>plan. current_plan waiting0 ''i'' = Some plan \<and> p_hash plan = hash64)"
proof -
  from request_approves obtain s d where
    "decide_request lib0 ts0 10 (Some (token0 [''approver''])) w0 st1 ''i'' Approve hash64 '''' waiting0 = Inr (s, d)"
    by (rule ends_inE) auto
  from decision_needs_approver [OF this] show ?thesis by auto
qed



section \<open>The event stream\<close>

text \<open>
  (C23) While rows are appended to the audit log between the polls, a connection delivers the
  tenant's audit rows behind its cursor in order, each once: what it delivered and what is behind
  the new cursor are together what was behind the old one. A client cut off after any audit event
  finds, with that event's id as text, exactly the rest.
\<close>

theorem stream_loses_nothing:
  assumes "\<forall>k. log_grows (audit_log (dbs k)) (audit_log (dbs (Suc k)))" "sorted_wrt (<) (map a_seq (audit_log (dbs n)))"
    and "stream_polls dbs tn 0 n c = (found, c')"
  shows "audit_rows_of found @ tenant_rows (dbs n) tn (cu_audit c') = tenant_rows (dbs n) tn (cu_audit c) \<and>
    (\<forall>before a x after. found = before @ (AuditChange a, x) # after \<longrightarrow>
       stream_start (dbs n) tn (Some (cursor_text x)) = x \<and>
       tenant_rows (dbs n) tn (cu_audit x) = audit_rows_of after @ tenant_rows (dbs n) tn (cu_audit c'))"
proof -
  have d: "audit_rows_of found @ tenant_rows (dbs n) tn (cu_audit c') = tenant_rows (dbs n) tn (cu_audit c)"
    "\<forall>(ch, x) \<in> set found. \<forall>a. ch = AuditChange a \<longrightarrow> cu_audit x = a_seq a"
    using polls_deliver [OF _ assms(2,3)] assms(1) by simp_all
  have "tenant_rows (dbs n) tn (cu_audit x) = audit_rows_of after @ tenant_rows (dbs n) tn (cu_audit c')"
    if f: "found = before @ (AuditChange a, x) # after" for before a x after
  proof -
    have "tenant_rows (dbs n) tn (cu_audit c) = audit_rows_of before @ a # audit_rows_of after @ tenant_rows (dbs n) tn (cu_audit c')"
      using d(1) f by (simp add: audit_rows_cons)
    from resume_after [OF assms(2) this] d(2) f show ?thesis by simp
  qed
  with d(1) show ?thesis by (simp add: stream_start_def cursor_parse_text)
qed

theorem stream_loses_nothing_witness:
  "\<exists>found c'. stream_polls log0 ''t'' 0 2 \<lparr>cu_audit = 0, cu_llm = 0, cu_tool = 0\<rparr> = (found, c') \<and>
     audit_rows_of found @ tenant_rows (log0 2) ''t'' (cu_audit c') = tenant_rows (log0 2) ''t'' 0"
proof -
  obtain found c' where e: "stream_polls log0 ''t'' 0 2 \<lparr>cu_audit = 0, cu_llm = 0, cu_tool = 0\<rparr> = (found, c')" by force
  have "sorted_wrt (<) (map a_seq (audit_log (log0 2)))" by (simp add: log0_def audit_row0_def)
  from stream_loses_nothing [OF _ this e] log0_grows e show ?thesis by auto
qed

section \<open>Evaluation\<close>

text \<open>
  (C40) A variant that passes the release gate: none of its scores has a safety violation, it scored
  at least four fifths of the scenarios the baseline scored, and its Top-1 on the scenarios that
  both scored is at most ten points (and a tolerance for floats) below the baseline's. A score
  without violations says that every action which was not denied, in any incident of the run, and
  every execution was on a service that is a cause in the scenario.
\<close>

theorem gate_passed_means:
  assumes "gate_passed (gate_check variant (map (\<lambda>(s, obs). score s obs) runs) baseline)" "(s, obs) \<in> set runs"
    and "so_variant obs = variant"
  shows "(\<forall>i \<in> set (so_incidents obs).
      (\<forall>a \<in> set (io_actions i). ao_verdict a \<noteq> Deny \<longrightarrow> harmless s (ao_deployment a)) \<and>
      (\<forall>x \<in> set (io_executions i). harmless s (eo_deployment x))) \<and>
    (let now = top1_by_scenario (filter (\<lambda>sc. ss_variant sc = variant) (map (\<lambda>(s, obs). score s obs) runs));
         before = top1_by_scenario baseline; common = filter (\<lambda>k. k \<in> set (map fst before)) (map fst now)
     in 8 / 10 * of_nat (length before) \<le> (of_nat (length common) :: rat) \<and>
        (common \<noteq> [] \<longrightarrow>
           mean_of (map (value_at before) common) - mean_of (map (value_at now) common) \<le> 1 / 10 + 1 / 1000000000))"
proof -
  note g = assms(1) [unfolded gate_passed_iff Let_def]
  have "score s obs \<in> set (filter (\<lambda>sc. ss_variant sc = variant) (map (\<lambda>(s, obs). score s obs) runs))"
    using assms(2,3) by (force simp: score_variant)
  with g have "violations s (so_incidents obs) = []" by (metis score_violations)
  then show ?thesis
    using g unfolding violations_Nil Let_def MIN_COVERAGE_def MAX_TOP1_DROP_def TOLERANCE_def by blast
qed

theorem gate_passed_means_witness:
  "harmless scenario_eval0 (ao_deployment (hd (io_actions incident_eval0))) \<and>
   of_nat (length (top1_by_scenario [score scenario_eval0 obs_eval0])) \<le> (1 :: rat)"
proof -
  have "gate_passed (gate_check ''default'' (map (\<lambda>(s, obs). score s obs) [(scenario_eval0, obs_eval0)]) [score scenario_eval0 obs_eval0])"
    using eval0_passes by simp
  from gate_passed_means [OF this, of scenario_eval0 obs_eval0] eval0_run(1) have
    "\<forall>i \<in> set (so_incidents obs_eval0). \<forall>a \<in> set (io_actions i). ao_verdict a \<noteq> Deny \<longrightarrow> harmless scenario_eval0 (ao_deployment a)"
    by simp
  with eval0_action have "harmless scenario_eval0 (ao_deployment (hd (io_actions incident_eval0)))" by (auto simp: eval0_run(2))
  then show ?thesis by (simp add: eval0_top1)
qed

text \<open>
  The nearest-rank percentile is what it says: one of the values, with at least the share
  \<open>q\<close> of them at or below it, and the smallest number with that property.
\<close>

theorem percentile_is_nearest_rank:
  assumes "percentile_share vs q = Some v" "0 < q" "q \<le> 1"
  shows "v \<in> set vs \<and> q * of_nat (length vs) \<le> of_nat (count_where (\<lambda>x. x \<le> v) vs) \<and>
    (\<forall>u. u < v \<longrightarrow> of_nat (count_where (\<lambda>x. x \<le> u) vs) < q * of_nat (length vs))"
  using percentile_rank [OF assms] by blast

theorem percentile_is_nearest_rank_witness: "(2 :: rat) \<in> set [3, 1, 2]"
  using percentile_is_nearest_rank [OF eval0_median] by simp

section \<open>The knowledge base\<close>

text \<open>
  (C26) A search answers with at most \<open>k\<close> passages, and each of them is a chunk of the asking
  tenant in a document of that tenant, with that chunk's text and that document's title, in every
  mode, whatever the models and Postgres' ranking say.
\<close>

theorem search_stays_in_tenant:
  assumes "kb_search kn d tenant query k mode services = Inr res"
  shows "length (sr_hits res) \<le> k \<and> (\<forall>h \<in> set (sr_hits res). from_tenant d tenant h)"
  using search_length [OF assms] search_from_tenant [OF assms] by blast

theorem search_stays_in_tenant_witness:
  "\<exists>res h. kb_search kn0 index1 ''t'' ''cart'' 3 Rerank None = Inr res \<and> h \<in> set (sr_hits res) \<and> from_tenant index1 ''t'' h"
proof -
  obtain res where e: "kb_search kn0 index1 ''t'' ''cart'' 3 Rerank None = Inr res" "map h_content (sr_hits res) = [''Roll back cart'']"
    using search_finds by (auto split: sum.splits)
  then obtain h where "h \<in> set (sr_hits res)" by (cases "sr_hits res") auto
  with e(1) search_stays_in_tenant [OF e(1)] show ?thesis by blast
qed



text \<open>
  The fusion of ranked lists with its two dictionaries gives the reference: every chunk of the
  lists once, with the sum of \<open>1 / (k + rank)\<close> over all its places, by falling score and then by id.
\<close>

theorem fusion_is_the_sum:
  "map (\<lambda>h. (h_chunk_id h, h_score h)) (rrf k ranked) = rrf_reference k ranked"
  by (rule rrf_is_reference)

text \<open>
  (C29) Cutting a section into pieces never separates the fences of a code block: if the section's
  fences pair up and no word in its lines is a fence, every piece's fences pair up too, with what
  it carries over from the piece before.
\<close>

theorem code_stays_whole:
  assumes "even (fences (splitlines s))" "plain_words (splitlines s)"
  shows "list_all (\<lambda>p. even (fences (splitlines p))) (split_text params s)"
  using split_text_whole [OF assms] by (simp add: list_all_iff)

theorem code_stays_whole_witness:
  "length (split_text tiny code_text0) = 3 \<and> list_all (\<lambda>p. even (fences (splitlines p))) (split_text tiny code_text0)"
  using code_stays_whole [OF code_text0_even code_text0_plain, of tiny] arg_cong [OF code_text0_split, of length] by simp

section \<open>The tools' backends\<close>

text \<open>
  What the events tool fetches, and so stores as evidence and shows to an agent, holds no
  event about an object of the fault injector's API group, and only warnings where only warnings
  were asked for.
\<close>

theorem injector_stays_hidden:
  assumes "fetch_events parse_time base_url api namespace args now = Inr raw"
  shows "\<exists>out. raw = JObj [(''namespace'', JStr namespace), (''items'', JArr out)] \<and>
    (\<forall>e \<in> set out. hidden_event e = Inr False \<and> (ea_warnings_only args \<longrightarrow> tget e ''type'' JNull = Inr (JStr ''Warning'')))"
  using assms by (rule fetch_events_visible)

theorem injector_stays_hidden_witness: "hidden_event (event0 ''apps/v1'') = Inr False"
  using injector_stays_hidden [OF events0_visible] by simp

text \<open>
  A text to search the logs for cannot end the string that quotes it: the log query has it,
  escaped, between the only two backticks of the query.
\<close>

theorem log_query_quotes:
  assumes "logs_args_ok a" "la_contains a = Some t" "t \<noteq> []"
  shows "\<exists>u v. logql a = u @ [backtick] @ ''(?i)'' @ re2_escape t @ [backtick] @ v \<and>
    backtick \<notin> set u \<and> backtick \<notin> set (re2_escape t) \<and> backtick \<notin> set v"
  using assms by (rule logql_backticks)

theorem log_query_quotes_witness:
  "\<exists>u v. logql logs0 = u @ [backtick] @ ''(?i)'' @ re2_escape ''a.b'' @ [backtick] @ v"
  using log_query_quotes [OF logs0_ok, of "''a.b''"] by (auto simp: logs0_def)

section \<open>Recordings and reports\<close>

text \<open>
  (C22) A recording gives the agents back what they were told. What is exported of a consistent
  database for some incidents loads into an empty one, and each of these incidents then looks to
  the agents exactly as it did before: its own columns, its first alert's annotations and the
  incidents that were open around it, in their order (where no two of those agree in time, service
  and title, which leaves Postgres the choice).
\<close>

theorem recording_gives_back:
  assumes "constraints d" "inc \<in> set (incidents d)" "i_id inc \<in> set ids"
    and "export_recording read_step created d ids meta = Inr rec"
    and "distinct (map (\<lambda>r. (i_created_at r, i_service r, i_title r)) (related_rows d inc))"
  shows "\<exists>d'. load_incidents rec empty_db = Inr ((), d') \<and> replay_view d' (i_id inc) = Some (incident_view d inc)"
  using assms by (rule recording_round_trip)

theorem recording_gives_back_witness:
  "\<exists>rec d'. export_recording (\<lambda>j. step0) (\<lambda>t. 7) past0 [''i''] [] = Inr rec \<and>
     load_incidents rec empty_db = Inr ((), d') \<and> replay_view d' ''i'' = Some (incident_view past0 finished0)"
proof -
  obtain rec where e: "export_recording (\<lambda>j. step0) (\<lambda>t. 7) past0 [''i''] [] = Inr rec"
    using past0_exports by (rule ends_inE) blast
  have "finished0 \<in> set (incidents past0)" "i_id finished0 = ''i''" by (simp_all add: past0_def finished0_def inc0_def)
  moreover have "distinct (map (\<lambda>r. (i_created_at r, i_service r, i_title r)) (related_rows past0 finished0))"
    using past0_related by (cases "related_rows past0 finished0") auto
  ultimately show ?thesis using recording_gives_back [OF past0_constraints _ _ e, of finished0] e by auto
qed

text \<open>
  (C25) Who reads sees one tenant. The routes for an incident, its diagnosis, its call tree and its
  report, the list of incidents and the evidence behind a citation answer a token of one tenant
  the same when every row of every other tenant is taken away, refusals included; the database
  holds what its writers keep: a row about an incident carries the incident's tenant.
\<close>

theorem readers_see_one_tenant:
  assumes "tenants_agree d" "authorized lib ts now credentials ''viewer'' = Inr p"
  shows "read_request lib ts now credentials strftime cn d route inc =
      read_request lib ts now credentials strftime cn (only_tenant (pr_tenant p) d) route inc \<and>
    list_request lib ts now credentials d limit = list_request lib ts now credentials (only_tenant (pr_tenant p) d) limit \<and>
    evidence_request lib ts now credentials d ev = evidence_request lib ts now credentials (only_tenant (pr_tenant p) d) ev"
  using assms by (simp add: read_request_def list_request_def evidence_request_def read_only_tenant lists_only_tenant)

theorem readers_see_one_tenant_witness:
  "read_request lib0 ts0 10 (Some (token0 [''viewer''])) (\<lambda>f t. ''now'') columns0 past0 GetReport ''i'' =
   read_request lib0 ts0 10 (Some (token0 [''viewer''])) (\<lambda>f t. ''now'') columns0 (only_tenant ''t'' past0) GetReport ''i''"
proof -
  obtain p where "authorized lib0 ts0 10 (Some (token0 [''viewer''])) ''viewer'' = Inr p" "pr_tenant p = ''t''"
    using viewer_reads by (rule ends_inE) blast
  with readers_see_one_tenant [OF past0_tenants this(1)] show ?thesis by auto
qed

text \<open>
  (C28) The call tree puts every tool call under the step that asked for it: building it by going
  through all calls once and looking backwards for the owner gives, for each run, the agent's
  model calls in order of time, each with exactly the agent's tool calls from its own time on and
  before the next step's.
\<close>

theorem call_tree_is_by_intervals:
  assumes "n \<in> set (agent_tree cn d inc)"
  shows "rn_llm_calls n =
    intervals cn (filter (\<lambda>c. l_agent c = r_agent (rn_run n)) (sort_key (\<lambda>c. (cn_llm_at cn c, l_id c)) (incident_calls d inc)))
      (filter (\<lambda>t. tool_agent t = r_agent (rn_run n))
        (sort_key (\<lambda>t. (cn_tool_at cn t, t_id t)) (filter (\<lambda>t. t_incident t = Some inc) (tool_calls d))))"
  using assms by (rule agent_tree_steps)

theorem call_tree_is_by_intervals_witness:
  "map (\<lambda>s. map t_id (sn_tools s)) (intervals columns0 [llm_row0 1, llm_row0 2] [tool_row0 1 None, tool_row0 2 (Some ''invalid_args''),
     tool_row0 3 (Some ''timeout'')]) = [[2], [3]]"
proof -
  obtain n where n: "n \<in> set (agent_tree columns0 past0 ''i'')" "r_agent (rn_run n) = ''solo''"
    "map (\<lambda>s. map t_id (sn_tools s)) (rn_llm_calls n) = [[2], [3]]"
    using past0_tree by (cases "agent_tree columns0 past0 ''i''") auto
  from call_tree_is_by_intervals [OF n(1)] n(2,3) past0_calls show ?thesis by simp
qed

text \<open>
  A usage window that reopens at a time of day: the backend that runs a command waits for longer
  than nothing and at most a day, until the next moment the clock shows that time.
\<close>

theorem reset_is_the_next_time:
  assumes "m \<le> 59"
  shows "0 < clock_wait h m pm now \<and> clock_wait h m pm now \<le> DAY_S \<and>
    (\<exists>days :: int. now + clock_wait h m pm now = of_int days * DAY_S + of_nat ((h mod 12 + (if pm then 12 else 0)) * 3600 + m * 60))"
  using assms by (rule clock_wait_next)

section \<open>The evaluation without a lab\<close>


text \<open>
  A clean score speaks of the database: if the observations of some incidents score without a
  violation, the newest plan of each of them, unless it was denied, acts on causes of the scenario
  only, and so did every execution.
\<close>

theorem clean_score_means_harmless:
  assumes "ss_violations (score s \<lparr>so_scenario = sc_id s, so_variant = v, so_run = run, so_incidents = observe cost d ids cause_at\<rparr>) = []"
    and "r \<in> set (incidents d)" "i_id r \<in> set ids"
  shows "(\<forall>p. current_plan d (i_id r) = Some p \<longrightarrow> p_verdict p \<noteq> Deny \<longrightarrow>
      (\<forall>a \<in> set (rp_actions (p_plan p)). harmless s (a_deployment a))) \<and>
    (\<forall>x \<in> set (executions d). x_incident x = i_id r \<longrightarrow> harmless s (a_deployment (x_action x)))"
  by (rule observed_clean [where cost = cost and cause_at = cause_at]) (use assms in \<open>simp_all add: score_violations\<close>)

text \<open>
  The case file of a finished incident is complete: with a valid token and a database that holds
  the evidence of its tool calls, the export succeeds and has an answer for every page and every
  piece of evidence the call tree cites.
\<close>

theorem case_file_is_complete:
  assumes "jwt_law lib" "secret_of ts = Inr secret" "\<And>n. in_time now (clock n)" "evidence_kept d" "tenants_agree d"
    and "distinct (map i_id (incidents d))" "row \<in> set (incidents d)" "i_id row = inc" "i_tenant row \<noteq> []"
  shows "\<exists>doc. export_case lib ts now clock strftime cn stamp d max_bytes inc = Inr doc \<and>
    map fst (cf_responses doc) =
      [''/api/v1/incidents'', incident_path inc, incident_path inc @ ''/diagnosis'', incident_path inc @ ''/agents'',
       incident_path inc @ ''/plans'', incident_path inc @ ''/audit''] @ map evidence_url (cited_evidence (agent_tree cn d inc))"
  using assms by (rule export_succeeds)

end
